(* ===== verification/Prelude.thy ===== *)
theory Prelude
  imports Complex_Main "HOL-Library.Multiset" "HOL-Library.List_Lexorder"
    "HOL-Library.Product_Lexorder" "HOL-Library.Char_ord" "HOL-Library.Sublist"
begin

text \<open>
  Shared vocabulary of the development: the value domains the Python program computes with
  and the idioms of its standard library that several components use.

  \<^item> A Python \<open>dict\<close> keeps insertion order, so it is an association list with distinct
    keys: \<open>dict_set\<close> is \<open>d[k] = v\<close> (an existing key keeps its place), \<open>map_of\<close> is
    \<open>d.get\<close>, \<open>dict_append\<close> is \<open>d.setdefault(k, []).append(v)\<close>.
  \<^item> \<open>fromkeys\<close> is \<open>list(dict.fromkeys(xs))\<close>: the first occurrence of each element.
  \<^item> \<open>sorted(xs, key=f)\<close> is the library's stable \<open>sort_key\<close>; \<open>min(xs, key=f)\<close> is
    \<open>min_by\<close>, which keeps the first of several minima. Tuples and strings are compared
    lexicographically (Product_Lexorder, List_Lexorder), as Python does.
  \<^item> A Python \<open>float\<close> is a \<open>real\<close>: arithmetic is exact, IEEE rounding is not modelled;
    the builtin \<open>round(x, n)\<close> is \<open>py_round\<close>, half to even.
  \<^item> An operation that may raise returns \<open>'e + 'a\<close>: \<open>Inl\<close> the exception, \<open>Inr\<close> the
    value; \<open>bind_res\<close> sequences, \<open>traverse\<close> runs a loop body that may raise.
\<close>

named_theorems dict_simps "facts about insertion-ordered dictionaries"
named_theorems round_simps "facts about the builtin round"

type_synonym pyfloat = real

subsection \<open>Insertion-ordered dictionaries\<close>

type_synonym ('k, 'v) dict = "('k \<times> 'v) list"

fun dict_set :: "'k \<Rightarrow> 'v \<Rightarrow> ('k, 'v) dict \<Rightarrow> ('k, 'v) dict" where
  "dict_set k v [] = [(k, v)]"
| "dict_set k v ((k', v') # d) =
     (if k' = k then (k, v) # d else (k', v') # dict_set k v d)"

definition dict_append :: "'k \<Rightarrow> 'v \<Rightarrow> ('k, 'v list) dict \<Rightarrow> ('k, 'v list) dict" where
  "dict_append k v d = dict_set k ((case map_of d k of None \<Rightarrow> [] | Some vs \<Rightarrow> vs) @ [v]) d"

definition dict_keys :: "('k, 'v) dict \<Rightarrow> 'k list" where
  "dict_keys d = map fst d"

definition dict_values :: "('k, 'v) dict \<Rightarrow> 'v list" where
  "dict_values d = map snd d"

abbreviation wf_dict :: "('k, 'v) dict \<Rightarrow> bool" where
  "wf_dict d \<equiv> distinct (map fst d)"

fun dict_update :: "('k, 'v) dict \<Rightarrow> ('k, 'v) dict \<Rightarrow> ('k, 'v) dict" where
  "dict_update d [] = d"
| "dict_update d ((k, v) # e) = dict_update (dict_set k v d) e"

definition dict_of :: "('k \<times> 'v) list \<Rightarrow> ('k, 'v) dict" where
  "dict_of kvs = dict_update [] kvs"

lemma map_of_dict_set [simp, dict_simps]: "map_of (dict_set k v d) = (map_of d)(k \<mapsto> v)"
  by (induction d) (auto simp: fun_eq_iff)

lemma keys_dict_set [simp, dict_simps]:
  "map fst (dict_set k v d) = map fst d @ (if k \<in> fst ` set d then [] else [k])"
  by (induction d) (force simp: image_iff)+

lemma wf_dict_set [simp, intro]: "wf_dict d \<Longrightarrow> wf_dict (dict_set k v d)"
  by auto

lemma set_dict_set:
  "wf_dict d \<Longrightarrow> set (dict_set k v d) = insert (k, v) {p \<in> set d. fst p \<noteq> k}"
  by (induction d) (force split: if_splits)+

lemma set_dict_set_subset: "set (dict_set k v d) \<subseteq> insert (k, v) (set d)"
  by (induction d) (auto split: if_splits)

lemma dict_set_fresh: "k \<notin> fst ` set d \<Longrightarrow> dict_set k v d = d @ [(k, v)]"
  by (induction d) auto

lemma dict_set_append: "dict_set k v (d @ e) =
    (if k \<in> fst ` set d then dict_set k v d @ e else d @ dict_set k v e)"
  by (induction d) (force simp: image_iff)+

lemma map_of_dict_append [simp, dict_simps]:
  "map_of (dict_append k v d) =
     (map_of d)(k \<mapsto> (case map_of d k of None \<Rightarrow> [] | Some vs \<Rightarrow> vs) @ [v])"
  by (simp add: dict_append_def)

lemma wf_dict_append [simp, intro]: "wf_dict d \<Longrightarrow> wf_dict (dict_append k v d)"
  by (simp add: dict_append_def)

lemma wf_dict_update [simp, intro]: "wf_dict d \<Longrightarrow> wf_dict (dict_update d e)"
  by (induction d e rule: dict_update.induct) auto

lemma map_of_dict_update [simp, dict_simps]:
  "map_of (dict_update d e) = map_of d ++ map_of (rev e)"
  by (induction d e rule: dict_update.induct) (auto simp: map_add_def fun_eq_iff split: option.splits)

lemma wf_dict_of [simp]: "wf_dict (dict_of kvs)"
  by (simp add: dict_of_def wf_dict_update)

lemma map_of_dict_of: "map_of (dict_of kvs) = map_of (rev kvs)"
  by (simp add: dict_of_def)

lemma map_of_wf_dict_iff: "wf_dict d \<Longrightarrow> map_of d k = Some v \<longleftrightarrow> (k, v) \<in> set d"
  by (metis map_of_is_SomeI map_of_SomeD)

lemma keys_dict_of_set: "fst ` set (dict_of kvs) = fst ` set kvs"
proof -
  have "dom (map_of (dict_of kvs)) = dom (map_of (rev kvs))"
    by (simp add: map_of_dict_of)
  then show ?thesis
    by (simp add: dom_map_of_conv_image_fst)
qed

lemma dict_update_distinct:
  "distinct (map fst e) \<Longrightarrow> fst ` set d \<inter> fst ` set e = {} \<Longrightarrow> dict_update d e = d @ e"
  by (induction d e rule: dict_update.induct) (auto simp: dict_set_fresh)

lemma dict_of_distinct: "distinct (map fst kvs) \<Longrightarrow> dict_of kvs = kvs"
  by (simp add: dict_of_def dict_update_distinct)

text \<open>\<open>for x in xs: d.setdefault(f(x), []).append(x)\<close>\<close>

definition group_by :: "('a \<Rightarrow> 'k) \<Rightarrow> 'a list \<Rightarrow> ('k, 'a list) dict" where
  "group_by f xs = foldl (\<lambda>d x. dict_append (f x) x d) [] xs"

lemma group_by_Nil [simp]: "group_by f [] = []"
  by (simp add: group_by_def)

lemma group_by_snoc [simp]: "group_by f (xs @ [x]) = dict_append (f x) x (group_by f xs)"
  by (simp add: group_by_def)

lemma wf_group_by [simp]: "wf_dict (group_by f xs)"
  by (induction xs rule: rev_induct) auto

lemma map_of_group_by:
  "map_of (group_by f xs) k =
     (if k \<in> f ` set xs then Some (filter (\<lambda>x. f x = k) xs) else None)"
proof (induction xs arbitrary: k rule: rev_induct)
  case (snoc x xs)
  then show ?case
    by (auto simp: filter_empty_conv eq_commute [of "[]"] intro: rev_image_eqI)
qed simp

lemma keys_group_by: "fst ` set (group_by f xs) = f ` set xs"
proof -
  have "dom (map_of (group_by f xs)) = f ` set xs"
    by (auto simp: dom_def map_of_group_by)
  then show ?thesis by (simp add: dom_map_of_conv_image_fst)
qed

lemma group_by_entry:
  assumes "(k, ys) \<in> set (group_by f xs)"
  shows "ys = filter (\<lambda>x. f x = k) xs" "k \<in> f ` set xs" "ys \<noteq> []"
proof -
  have "map_of (group_by f xs) k = Some ys"
    using assms by (simp add: map_of_wf_dict_iff)
  then show *: "ys = filter (\<lambda>x. f x = k) xs" and "k \<in> f ` set xs"
    by (auto simp: map_of_group_by split: if_splits)
  then show "ys \<noteq> []" by (auto simp: filter_empty_conv)
qed

subsection \<open>First occurrences\<close>

fun fromkeys_from :: "'a set \<Rightarrow> 'a list \<Rightarrow> 'a list" where
  "fromkeys_from seen [] = []"
| "fromkeys_from seen (x # xs) =
     (if x \<in> seen then fromkeys_from seen xs else x # fromkeys_from (insert x seen) xs)"

definition fromkeys :: "'a list \<Rightarrow> 'a list" where
  "fromkeys xs = fromkeys_from {} xs"

lemma set_fromkeys_from: "set (fromkeys_from seen xs) = set xs - seen"
  by (induction seen xs rule: fromkeys_from.induct) auto

lemma distinct_fromkeys_from: "distinct (fromkeys_from seen xs)"
  by (induction seen xs rule: fromkeys_from.induct) (auto simp: set_fromkeys_from)

lemma set_fromkeys [simp]: "set (fromkeys xs) = set xs"
  by (simp add: fromkeys_def set_fromkeys_from)

lemma distinct_fromkeys [simp]: "distinct (fromkeys xs)"
  by (simp add: fromkeys_def distinct_fromkeys_from)

lemma fromkeys_Nil_iff [simp]: "fromkeys xs = [] \<longleftrightarrow> xs = []"
  by (metis set_empty set_fromkeys)

subsection \<open>Enumeration, minima and stable sorting\<close>

fun enumerate_from :: "nat \<Rightarrow> 'a list \<Rightarrow> (nat \<times> 'a) list" where
  "enumerate_from n [] = []"
| "enumerate_from n (x # xs) = (n, x) # enumerate_from (Suc n) xs"

lemma length_enumerate_from [simp]: "length (enumerate_from n xs) = length xs"
  by (induction xs arbitrary: n) auto

lemma nth_enumerate_from [simp]:
  "i < length xs \<Longrightarrow> enumerate_from n xs ! i = (n + i, xs ! i)"
  by (induction xs arbitrary: n i) (auto simp: nth_Cons')

lemma map_snd_enumerate_from [simp]: "map snd (enumerate_from n xs) = xs"
  by (induction xs arbitrary: n) auto

lemma map_fst_enumerate_from [simp]: "map fst (enumerate_from n xs) = [n..<n + length xs]"
  by (induction xs arbitrary: n) (auto simp: upt_rec)

fun min_by :: "('a \<Rightarrow> 'b::linorder) \<Rightarrow> 'a \<Rightarrow> 'a list \<Rightarrow> 'a" where
  "min_by f x [] = x"
| "min_by f x (y # ys) = min_by f (if f y < f x then y else x) ys"

lemma min_by_in: "min_by f x ys \<in> set (x # ys)"
  by (induction f x ys rule: min_by.induct) auto

lemma min_by_le: "y \<in> set (x # ys) \<Longrightarrow> f (min_by f x ys) \<le> f y"
proof (induction f x ys arbitrary: y rule: min_by.induct)
  case (1 f x)
  then show ?case by simp
next
  case (2 f x z zs)
  have le: "f (min_by f (if f z < f x then z else x) zs) \<le> f w"
    if "w \<in> set ((if f z < f x then z else x) # zs)" for w
    using "2.IH" that by blast
  have head: "f (min_by f (if f z < f x then z else x) zs) \<le> f (if f z < f x then z else x)"
    by (rule le) simp
  show ?case
  proof (cases "y \<in> set zs")
    case True
    then show ?thesis using le [of y] by simp
  next
    case False
    with "2.prems" have "y = x \<or> y = z" by auto
    with head show ?thesis by (auto split: if_splits)
  qed
qed

lemma min_by_first:
  assumes "\<forall>y \<in> set ys. f x \<le> f y"
  shows "min_by f x ys = x"
  using assms by (induction ys) auto

lemma sorted_sort_key_pairwise:
  "i < j \<Longrightarrow> j < length xs \<Longrightarrow> f (sort_key f xs ! i) \<le> f (sort_key f xs ! j)"
  using sorted_nth_mono [OF sorted_sort_key [of f xs], of i j] by simp

text \<open>A list sorted by a key that separates its elements is the only such list.\<close>

lemma sorted_key_unique:
  assumes "sorted (map f xs)" "sorted (map f ys)" "mset xs = mset ys" "inj_on f (set xs)"
  shows "xs = ys"
  using assms
  by (metis map_sorted_distinct_set_unique mset_map properties_for_sort
      set_mset_mset sorted_list_of_multiset_mset sort_key_inj_key_eq sort_key_id_if_sorted)

lemma subseq_subset: "subseq xs ys \<Longrightarrow> set xs \<subseteq> set ys"
  by (auto elim: list_emb_set)

lemma sorted_subseq: "subseq xs ys \<Longrightarrow> sorted ys \<Longrightarrow> sorted xs"
proof (induction xs ys rule: list_emb.induct)
  case (list_emb_Cons2 x y xs ys)
  then show ?case using subseq_subset [of xs ys] by auto
qed auto

subsection \<open>Rounding\<close>

definition py_round_int :: "pyfloat \<Rightarrow> int" where
  "py_round_int x =
     (let f = \<lfloor>x\<rfloor>; d = x - of_int f
      in if d < 1/2 then f else if 1/2 < d then f + 1 else if even f then f else f + 1)"

definition py_round :: "pyfloat \<Rightarrow> nat \<Rightarrow> pyfloat" where
  "py_round x n = of_int (py_round_int (x * 10 ^ n)) / 10 ^ n"

lemma py_round_int_error: "\<bar>of_int (py_round_int x) - x\<bar> \<le> 1/2"
proof -
  have f: "of_int \<lfloor>x\<rfloor> \<le> x" "x < of_int \<lfloor>x\<rfloor> + 1" by linarith+
  show ?thesis
    unfolding py_round_int_def Let_def
    using f by (auto simp: abs_le_iff split: if_splits)
qed

lemma py_round_int_of_int [simp]: "py_round_int (of_int k) = k"
  by (simp add: py_round_int_def)

lemma py_round_int_mono:
  assumes "x \<le> y" shows "py_round_int x \<le> py_round_int y"
proof (cases "\<lfloor>x\<rfloor> = \<lfloor>y\<rfloor>")
  case True
  with assms show ?thesis by (auto simp: py_round_int_def Let_def)
next
  case False
  with floor_mono [OF assms] have "\<lfloor>x\<rfloor> + 1 \<le> \<lfloor>y\<rfloor>" by linarith
  then show ?thesis by (auto simp: py_round_int_def Let_def)
qed

lemma py_round_mono [round_simps]: "x \<le> y \<Longrightarrow> py_round x n \<le> py_round y n"
  by (simp add: py_round_def divide_right_mono py_round_int_mono mult_right_mono)

lemma py_round_fix: "x * 10 ^ n = of_int k \<Longrightarrow> py_round x n = x"
  by (simp add: py_round_def field_simps)

lemma py_round_of_int [simp]: "py_round (of_int k) n = of_int k"
  by (rule py_round_fix [where k = "k * 10 ^ n"]) simp

lemma py_round_0 [simp]: "py_round 0 n = 0"
  using py_round_of_int [of 0 n] by simp

lemma py_round_1 [simp]: "py_round 1 n = 1"
  using py_round_of_int [of 1 n] by simp

lemma py_round_numeral [simp]: "py_round (numeral k) n = numeral k"
  using py_round_of_int [of "numeral k" n] by simp

lemma py_round_nonneg: "0 \<le> x \<Longrightarrow> 0 \<le> py_round x n"
  using py_round_mono [of 0 x n] by simp

lemma py_round_le_int: "x \<le> of_int k \<Longrightarrow> py_round x n \<le> of_int k"
  using py_round_mono [of x "of_int k" n] by simp

lemma py_round_le_numeral: "x \<le> numeral k \<Longrightarrow> py_round x n \<le> numeral k"
  using py_round_mono [of x "numeral k" n] by simp

lemma py_round_le_1: "x \<le> 1 \<Longrightarrow> py_round x n \<le> 1"
  using py_round_mono [of x 1 n] by simp

lemma py_round_error: "\<bar>py_round x n - x\<bar> \<le> 1 / (2 * 10 ^ n)"
proof -
  have "\<bar>of_int (py_round_int (x * 10 ^ n)) - x * 10 ^ n\<bar> \<le> 1/2"
    by (rule py_round_int_error)
  then have "\<bar>of_int (py_round_int (x * 10 ^ n)) - x * 10 ^ n\<bar> / 10 ^ n \<le> 1/2 / 10 ^ n"
    by (intro divide_right_mono) auto
  moreover have "py_round x n - x = (of_int (py_round_int (x * 10 ^ n)) - x * 10 ^ n) / 10 ^ n"
    by (simp add: py_round_def field_simps)
  ultimately show ?thesis by (simp add: abs_divide)
qed

subsection \<open>Clamping\<close>

definition clamp_to :: "'a::linorder \<Rightarrow> 'a \<Rightarrow> 'a \<Rightarrow> 'a" where
  "clamp_to lo hi x = max lo (min hi x)"

lemma clamp_to_bounds: "lo \<le> hi \<Longrightarrow> lo \<le> clamp_to lo hi x \<and> clamp_to lo hi x \<le> hi"
  by (simp add: clamp_to_def)

lemma clamp_to_id: "lo \<le> x \<Longrightarrow> x \<le> hi \<Longrightarrow> clamp_to lo hi x = x"
  by (simp add: clamp_to_def)

subsection \<open>Results that may be an exception\<close>

definition bind_res :: "'e + 'a \<Rightarrow> ('a \<Rightarrow> 'e + 'b) \<Rightarrow> 'e + 'b" where
  "bind_res r k = (case r of Inl e \<Rightarrow> Inl e | Inr v \<Rightarrow> k v)"

lemma bind_res_simps [simp]:
  "bind_res (Inl e) k = Inl e" "bind_res (Inr v) k = k v"
  by (simp_all add: bind_res_def)

lemma bind_res_Inr_iff: "bind_res r k = Inr w \<longleftrightarrow> (\<exists>v. r = Inr v \<and> k v = Inr w)"
  by (cases r) auto

definition is_ok :: "'e + 'a \<Rightarrow> bool" where
  "is_ok r = (case r of Inl _ \<Rightarrow> False | Inr _ \<Rightarrow> True)"

lemma is_ok_simps [simp]: "\<not> is_ok (Inl e)" "is_ok (Inr v)"
  by (simp_all add: is_ok_def)

lemma is_ok_iff: "is_ok r \<longleftrightarrow> (\<exists>v. r = Inr v)"
  by (cases r) auto

fun traverse :: "('a \<Rightarrow> 'e + 'b) \<Rightarrow> 'a list \<Rightarrow> 'e + 'b list" where
  "traverse f [] = Inr []"
| "traverse f (x # xs) =
     bind_res (f x) (\<lambda>y. bind_res (traverse f xs) (\<lambda>ys. Inr (y # ys)))"

lemma traverse_Inr_length: "traverse f xs = Inr ys \<Longrightarrow> length ys = length xs"
  by (induction xs arbitrary: ys) (auto simp: bind_res_Inr_iff)

lemma traverse_Inr_nth:
  "traverse f xs = Inr ys \<Longrightarrow> i < length xs \<Longrightarrow> f (xs ! i) = Inr (ys ! i)"
  by (induction xs arbitrary: ys i) (auto simp: bind_res_Inr_iff nth_Cons')

lemma traverse_Inr_all: "traverse f xs = Inr ys \<Longrightarrow> y \<in> set ys \<Longrightarrow> \<exists>x \<in> set xs. f x = Inr y"
  by (induction xs arbitrary: ys) (auto simp: bind_res_Inr_iff)

lemma traverse_Inr_in: "traverse f xs = Inr ys \<Longrightarrow> x \<in> set xs \<Longrightarrow> \<exists>y. f x = Inr y"
  by (induction xs arbitrary: ys) (auto simp: bind_res_Inr_iff)

lemma traverse_map: "(\<And>x. x \<in> set xs \<Longrightarrow> f x = Inr (g x)) \<Longrightarrow> traverse f xs = Inr (map g xs)"
  by (induction xs) simp_all

lemma traverse_Inl: "traverse f xs = Inl e \<Longrightarrow> \<exists>x \<in> set xs. f x = Inl e"
  by (induction xs) (auto simp: bind_res_def split: sum.splits)

lemma traverse_is_ok: "\<forall>x \<in> set xs. is_ok (f x) \<Longrightarrow> is_ok (traverse f xs)"
  by (induction xs) (auto simp: is_ok_def bind_res_def split: sum.splits)

lemma bind_res_Inl_iff: "bind_res r k = Inl e \<longleftrightarrow> r = Inl e \<or> (\<exists>v. r = Inr v \<and> k v = Inl e)"
  by (cases r) auto

lemma concat_map_concat: "concat (map f (concat xss)) = concat (map (\<lambda>xs. concat (map f xs)) xss)"
  by (induction xss) simp_all

text \<open>A quantity that a loop body preserves is preserved by the loop.\<close>

lemma traverse_preserves:
  assumes "traverse f xs = Inr ys" "\<And>x y. x \<in> set xs \<Longrightarrow> f x = Inr y \<Longrightarrow> h y = g x"
  shows "map h ys = map g xs"
  using assms by (induction xs arbitrary: ys) (auto simp: bind_res_Inr_iff)

lemma subseq_concat: "list_all2 subseq xss yss \<Longrightarrow> subseq (concat xss) (concat yss)"
  by (induction rule: list_all2_induct) (simp_all add: list_emb_append_mono)

lemma traverse_subseq:
  assumes "traverse f xs = Inr ys" "\<And>x y. x \<in> set xs \<Longrightarrow> f x = Inr y \<Longrightarrow> subseq (g x) (h y)"
  shows "subseq (concat (map g xs)) (concat (map h ys))"
proof (rule subseq_concat)
  show "list_all2 subseq (map g xs) (map h ys)"
    using assms by (induction xs arbitrary: ys) (auto simp: bind_res_Inr_iff)
qed

definition require :: "bool \<Rightarrow> 'e \<Rightarrow> 'e + unit" where
  "require b e = (if b then Inr () else Inl e)"

lemma require_Inr_iff [simp]: "require b e = Inr u \<longleftrightarrow> b"
  by (simp add: require_def)

text \<open>An exception raised by a port: its class and the names of the classes it extends.\<close>

datatype port_error = PortError (class_name: string) (mro_names: "string list")

definition instance_of :: "port_error \<Rightarrow> string list \<Rightarrow> bool" where
  "instance_of e cs \<longleftrightarrow> class_name e \<in> set cs \<or> (\<exists>c \<in> set (mro_names e). c \<in> set cs)"

end
