(* ===== verification/Py_Text.thy ===== *)
theory Py_Text
  imports Prelude
begin

text \<open>
  Python text. A \<open>str\<close> the code measures, slices or normalises is a \<open>ustr\<close>: its list of
  Unicode code points, so that \<open>length\<close> is Python's \<open>len\<close>, \<open>take\<close> and \<open>drop\<close> are its
  slices and list equality is string equality. Identifiers, codes and labels that are only
  compared, ordered or used as keys are \<open>string\<close>s. \<open>lit\<close> embeds an ASCII literal.

  \<open>py_isspace\<close> is the exact set of code points \<open>str.isspace\<close> accepts and
  \<open>py_linebreak\<close> the exact set \<open>str.splitlines\<close> breaks at. \<open>str.casefold\<close> is driven by
  the Unicode character database, which is data and no code of the repository, so it is an
  argument of the definitions that use it.
\<close>

type_synonym ustr = "nat list"

definition lit :: "string \<Rightarrow> ustr" where
  "lit s = map of_char s"

lemma length_lit [simp]: "length (lit s) = length s"
  by (simp add: lit_def)

lemma lit_inject [simp]: "lit s = lit t \<longleftrightarrow> s = t"
  unfolding lit_def by (rule inj_map_eq_map) (simp add: inj_def)

subsection \<open>White space\<close>

definition py_isspace :: "nat \<Rightarrow> bool" where
  "py_isspace c \<longleftrightarrow> 9 \<le> c \<and> c \<le> 13 \<or> 28 \<le> c \<and> c \<le> 32 \<or> c = 133 \<or> c = 160 \<or> c = 5760
     \<or> 8192 \<le> c \<and> c \<le> 8202 \<or> c = 8232 \<or> c = 8233 \<or> c = 8239 \<or> c = 8287 \<or> c = 12288"

definition lstrip :: "ustr \<Rightarrow> ustr" where
  "lstrip s = dropWhile py_isspace s"

definition rstrip_of :: "(nat \<Rightarrow> bool) \<Rightarrow> ustr \<Rightarrow> ustr" where
  "rstrip_of p s = rev (dropWhile p (rev s))"

definition rstrip :: "ustr \<Rightarrow> ustr" where
  "rstrip s = rstrip_of py_isspace s"

definition strip :: "ustr \<Rightarrow> ustr" where
  "strip s = rstrip (lstrip s)"

lemma dropWhile_idem_hd: "dropWhile p s = s \<longleftrightarrow> s = [] \<or> \<not> p (hd s)"
  using length_dropWhile_le [of p "tl s"] by (cases s) auto

lemma length_rstrip_of: "length (rstrip_of p s) \<le> length s"
  by (metis length_dropWhile_le length_rev rstrip_of_def)

lemma length_strip: "length (strip s) \<le> length s"
  unfolding strip_def rstrip_def lstrip_def
  by (meson length_dropWhile_le length_rstrip_of order_trans)

lemma rstrip_of_prefix: "prefix (rstrip_of p s) s"
  unfolding rstrip_of_def
  by (metis suffix_dropWhile suffix_to_prefix rev_rev_ident)

lemma rstrip_of_idem [simp]: "rstrip_of p (rstrip_of p s) = rstrip_of p s"
  by (simp add: rstrip_of_def)

lemma rstrip_of_Nil_iff: "rstrip_of p s = [] \<longleftrightarrow> (\<forall>c \<in> set s. p c)"
  by (simp add: rstrip_of_def dropWhile_eq_Nil_conv)

text \<open>Stripping a class of characters from both ends, for any class.\<close>

definition strip_of :: "(nat \<Rightarrow> bool) \<Rightarrow> ustr \<Rightarrow> ustr" where
  "strip_of p s = rstrip_of p (dropWhile p s)"

lemma strip_of_idem [simp]: "strip_of p (strip_of p s) = strip_of p s"
proof -
  let ?t = "strip_of p s"
  have "?t = [] \<or> \<not> p (hd ?t)"
  proof (cases "?t = []")
    case False
    obtain zs where t: "dropWhile p s = ?t @ zs"
      using rstrip_of_prefix [of p "dropWhile p s"] by (auto simp: strip_of_def prefix_def)
    with False have ne: "dropWhile p s \<noteq> []" by (metis append_is_Nil_conv)
    from t False have "hd ?t = hd (dropWhile p s)" by (metis hd_append2)
    then show ?thesis using hd_dropWhile [OF ne] by simp
  qed simp
  then have "dropWhile p ?t = ?t" by (simp add: dropWhile_idem_hd)
  then show ?thesis by (simp add: strip_of_def)
qed

lemma strip_of_ends: "strip_of p s \<noteq> [] \<Longrightarrow> \<not> p (hd (strip_of p s)) \<and> \<not> p (last (strip_of p s))"
proof
  assume ne: "strip_of p s \<noteq> []"
  let ?d = "dropWhile p (rev (dropWhile p s))"
  from ne have "?d \<noteq> []" by (auto simp: strip_of_def rstrip_of_def)
  then have "\<not> p (hd ?d)" by (rule hd_dropWhile)
  moreover have "last (strip_of p s) = hd ?d" by (simp add: strip_of_def rstrip_of_def last_rev)
  ultimately show "\<not> p (last (strip_of p s))" by simp
  obtain zs where t: "dropWhile p s = strip_of p s @ zs"
    using rstrip_of_prefix [of p "dropWhile p s"] by (auto simp: strip_of_def prefix_def)
  with ne have "dropWhile p s \<noteq> []" "hd (strip_of p s) = hd (dropWhile p s)"
    by (metis append_is_Nil_conv, metis hd_append2)
  with hd_dropWhile [of p s] show "\<not> p (hd (strip_of p s))" by simp
qed

lemma strip_of_id: "s \<noteq> [] \<Longrightarrow> \<not> p (hd s) \<Longrightarrow> \<not> p (last s) \<Longrightarrow> strip_of p s = s"
  using dropWhile_idem_hd [of p s] dropWhile_idem_hd [of p "rev s"]
  by (simp add: strip_of_def rstrip_of_def hd_rev)

lemma strip_eq: "strip s = strip_of py_isspace s"
  by (simp add: strip_def rstrip_def lstrip_def strip_of_def)

lemma strip_idem [simp]: "strip (strip s) = strip s"
  by (simp add: strip_eq)

lemma strip_Nil_iff: "strip s = [] \<longleftrightarrow> (\<forall>c \<in> set s. py_isspace c)"
proof
  assume "strip s = []"
  then have *: "\<forall>c \<in> set (dropWhile py_isspace s). py_isspace c"
    by (simp add: strip_def rstrip_def rstrip_of_Nil_iff lstrip_def)
  then have "dropWhile py_isspace s = []"
    by (metis dropWhile_eq_Nil_conv dropWhile_idem_hd hd_dropWhile hd_in_set)
  then show "\<forall>c \<in> set s. py_isspace c" by (simp add: dropWhile_eq_Nil_conv)
next
  assume "\<forall>c \<in> set s. py_isspace c"
  then show "strip s = []"
    by (simp add: strip_def rstrip_def rstrip_of_Nil_iff lstrip_def dropWhile_eq_Nil_conv[THEN iffD2])
qed

subsection \<open>Splitting and joining\<close>

fun join :: "ustr \<Rightarrow> ustr list \<Rightarrow> ustr" where
  "join sep [] = []"
| "join sep [p] = p"
| "join sep (p # q # ps) = p @ sep @ join sep (q # ps)"

lemma length_join:
  "length (join sep ps) = sum_list (map length ps) + length sep * (length ps - 1)"
  by (induction sep ps rule: join.induct) auto

text \<open>\<open>s.split()\<close>: the maximal runs of characters that are not white space.\<close>

fun split_ws_from :: "ustr \<Rightarrow> ustr \<Rightarrow> ustr list" where
  "split_ws_from cur [] = (if cur = [] then [] else [cur])"
| "split_ws_from cur (c # cs) =
     (if py_isspace c
      then (if cur = [] then split_ws_from [] cs else cur # split_ws_from [] cs)
      else split_ws_from (cur @ [c]) cs)"

definition split_ws :: "ustr \<Rightarrow> ustr list" where
  "split_ws s = split_ws_from [] s"

definition is_word :: "ustr \<Rightarrow> bool" where
  "is_word w \<longleftrightarrow> w \<noteq> [] \<and> (\<forall>c \<in> set w. \<not> py_isspace c)"

lemma split_ws_from_words:
  "\<forall>c \<in> set cur. \<not> py_isspace c \<Longrightarrow> w \<in> set (split_ws_from cur s) \<Longrightarrow> is_word w"
proof (induction cur s rule: split_ws_from.induct)
  case (1 cur)
  then show ?case by (auto simp: is_word_def split: if_splits)
next
  case (2 cur c cs)
  show ?case
  proof (cases "py_isspace c")
    case True
    with "2.prems" have "w = cur \<and> cur \<noteq> [] \<or> w \<in> set (split_ws_from [] cs)"
      by (simp split: if_splits)
    with True "2.IH"(1,2) "2.prems"(1) show ?thesis
      unfolding is_word_def by (metis list.set(1) empty_iff)
  next
    case False
    with "2.prems" have "w \<in> set (split_ws_from (cur @ [c]) cs)" by simp
    with False "2.IH"(3) "2.prems"(1) show ?thesis by simp
  qed
qed

lemma split_ws_words: "w \<in> set (split_ws s) \<Longrightarrow> is_word w"
  unfolding split_ws_def by (rule split_ws_from_words) auto

lemma split_ws_from_append:
  "\<forall>c \<in> set w. \<not> py_isspace c \<Longrightarrow> split_ws_from cur (w @ s) = split_ws_from (cur @ w) s"
  by (induction w arbitrary: cur) auto

text \<open>\<open>" ".join(s.split())\<close>: the white-space normal form.\<close>

definition norm_ws :: "ustr \<Rightarrow> ustr" where
  "norm_ws s = join [32] (split_ws s)"

lemma split_ws_join_words:
  assumes "\<forall>w \<in> set ws. is_word w"
  shows "split_ws (join [32] ws) = ws"
  using assms
proof (induction "[32::nat]" ws rule: join.induct)
  case 1
  then show ?case by (simp add: split_ws_def)
next
  case (2 w)
  then have w: "w \<noteq> []" "\<forall>c \<in> set w. \<not> py_isspace c" by (auto simp: is_word_def)
  then have "split_ws_from [] (w @ []) = split_ws_from ([] @ w) []"
    by (intro split_ws_from_append) auto
  with w show ?case by (simp add: split_ws_def)
next
  case (3 w v vs)
  then have w: "w \<noteq> []" "\<forall>c \<in> set w. \<not> py_isspace c" by (auto simp: is_word_def)
  have "split_ws (join [32] (w # v # vs)) = split_ws_from [] (w @ 32 # join [32] (v # vs))"
    by (simp add: split_ws_def)
  also have "\<dots> = split_ws_from ([] @ w) (32 # join [32] (v # vs))"
    using w by (intro split_ws_from_append) auto
  also have "\<dots> = w # split_ws (join [32] (v # vs))"
    using w by (simp add: py_isspace_def split_ws_def)
  finally show ?case using 3 by simp
qed

lemma norm_ws_idem [simp]: "norm_ws (norm_ws s) = norm_ws s"
  unfolding norm_ws_def by (simp add: split_ws_join_words split_ws_words)

lemma norm_ws_eq_iff: "norm_ws s = norm_ws t \<longleftrightarrow> split_ws s = split_ws t"
  unfolding norm_ws_def by (metis split_ws_join_words split_ws_words)

text \<open>\<open>s.splitlines()\<close>: a line break ends a line, \<open>\r\n\<close> is one break, and a final break
  opens no empty line.\<close>

definition py_linebreak :: "nat \<Rightarrow> bool" where
  "py_linebreak c \<longleftrightarrow> 10 \<le> c \<and> c \<le> 13 \<or> 28 \<le> c \<and> c \<le> 30 \<or> c = 133 \<or> c = 8232 \<or> c = 8233"

fun splitlines_from :: "ustr \<Rightarrow> ustr \<Rightarrow> ustr list" where
  "splitlines_from cur [] = (if cur = [] then [] else [cur])"
| "splitlines_from cur (c # cs) =
     (if c = 13 \<and> cs \<noteq> [] \<and> hd cs = 10 then cur # splitlines_from [] (tl cs)
      else if py_linebreak c then cur # splitlines_from [] cs
      else splitlines_from (cur @ [c]) cs)"

definition splitlines :: "ustr \<Rightarrow> ustr list" where
  "splitlines s = splitlines_from [] s"

text \<open>\<open>s.split(sep)\<close> for a one-character separator keeps empty pieces.\<close>

fun split_on_from :: "nat \<Rightarrow> ustr \<Rightarrow> ustr \<Rightarrow> ustr list" where
  "split_on_from sep cur [] = [cur]"
| "split_on_from sep cur (c # cs) =
     (if c = sep then cur # split_on_from sep [] cs else split_on_from sep (cur @ [c]) cs)"

definition split_on :: "nat \<Rightarrow> ustr \<Rightarrow> ustr list" where
  "split_on sep s = split_on_from sep [] s"

lemma split_on_from_Nil [simp]: "split_on_from sep cur s \<noteq> []"
  by (induction sep cur s rule: split_on_from.induct) auto

lemma split_on_from_join: "join [sep] (split_on_from sep cur s) = cur @ s"
proof (induction sep cur s rule: split_on_from.induct)
  case (2 sep cur c cs)
  obtain q qs where "split_on_from sep [] cs = q # qs"
    by (meson neq_Nil_conv split_on_from_Nil)
  with 2 show ?case by auto
qed simp

subsection \<open>Substrings and prefixes\<close>

fun contains :: "ustr \<Rightarrow> ustr \<Rightarrow> bool" where
  "contains n [] = (n = [])"
| "contains n (c # cs) = (prefix n (c # cs) \<or> contains n cs)"

lemma contains_iff: "contains n s \<longleftrightarrow> (\<exists>u v. s = u @ n @ v)"
proof (induction s)
  case Nil
  then show ?case by auto
next
  case (Cons c cs)
  show ?case
  proof
    assume "contains n (c # cs)"
    then show "\<exists>u v. c # cs = u @ n @ v"
      using Cons by (auto simp: prefix_def) (metis append_Cons append_Nil)+
  next
    assume "\<exists>u v. c # cs = u @ n @ v"
    then obtain u v where uv: "c # cs = u @ n @ v" by blast
    then show "contains n (c # cs)"
    proof (cases u)
      case Nil
      with uv have "prefix n (c # cs)" by (simp add: prefix_def)
      then show ?thesis by simp
    next
      case (Cons d u')
      with uv have "cs = u' @ n @ v" by simp
      with Cons.IH show ?thesis by auto
    qed
  qed
qed

lemma contains_Nil [simp]: "contains [] s"
  by (cases s) auto

lemma contains_refl [simp]: "contains s s"
  using contains_iff [of s s] by (metis append_Nil append_Nil2)

lemma contains_strip: "contains (strip s) s"
proof -
  obtain u where u: "s = u @ lstrip s"
    unfolding lstrip_def by (metis takeWhile_dropWhile_id)
  obtain v where "lstrip s = strip s @ v"
    using rstrip_of_prefix [of py_isspace "lstrip s"] by (auto simp: strip_def rstrip_def prefix_def)
  with u show ?thesis by (auto simp: contains_iff)
qed

subsection \<open>Decimal numerals\<close>

fun digits_of :: "nat \<Rightarrow> nat list" where
  "digits_of n = (if n < 10 then [n] else digits_of (n div 10) @ [n mod 10])"

declare digits_of.simps [simp del]

definition str_of_nat :: "nat \<Rightarrow> string" where
  "str_of_nat n = map (\<lambda>d. char_of (48 + d)) (digits_of n)"

definition value_of_digits :: "nat list \<Rightarrow> nat" where
  "value_of_digits ds = foldl (\<lambda>a d. 10 * a + d) 0 ds"

lemma value_of_digits_of: "value_of_digits (digits_of n) = n"
proof (induction n rule: digits_of.induct)
  case (1 n)
  then show ?case
    by (subst digits_of.simps) (auto simp: value_of_digits_def)
qed

lemma digits_of_less: "d \<in> set (digits_of n) \<Longrightarrow> d < 10"
proof (induction n rule: digits_of.induct)
  case (1 n)
  then show ?case
    by (subst (asm) digits_of.simps) (auto split: if_splits)
qed

lemma str_of_nat_inject [simp]: "str_of_nat m = str_of_nat n \<longleftrightarrow> m = n"
proof
  assume eq: "str_of_nat m = str_of_nat n"
  have undo: "map (\<lambda>c. of_char c - 48) (str_of_nat k) = digits_of k" for k
    using digits_of_less [of _ k]
    by (auto simp: str_of_nat_def o_def intro!: map_idI) fastforce
  from eq have "digits_of m = digits_of n" by (metis undo)
  then show "m = n" by (metis value_of_digits_of)
qed simp

lemma str_of_nat_no_dash: "CHR ''-'' \<notin> set (str_of_nat n)"
proof
  assume "CHR ''-'' \<in> set (str_of_nat n)"
  then obtain d where d: "d \<in> set (digits_of n)" "CHR ''-'' = char_of (48 + d)"
    by (auto simp: str_of_nat_def)
  then have "of_char (CHR ''-'') = (of_char (char_of (48 + d)) :: nat)" by simp
  then have "45 = (48 + d) mod 256" by simp
  with digits_of_less [OF d(1)] show False by simp
qed

lemma split_at_unique: "xs @ c # ys = us @ c # vs \<Longrightarrow> c \<notin> set xs \<Longrightarrow> c \<notin> set us \<Longrightarrow> xs = us \<and> ys = vs"
  by (auto simp: append_eq_append_conv2 append_eq_Cons_conv Cons_eq_append_conv)

lemma split_at_last: "xs @ c # ys = us @ c # vs \<Longrightarrow> c \<notin> set ys \<Longrightarrow> c \<notin> set vs \<Longrightarrow> ys = vs"
  by (auto simp: append_eq_append_conv2 append_eq_Cons_conv Cons_eq_append_conv)

lemma lit_append [simp]: "lit (s @ t) = lit s @ lit t"
  by (simp add: lit_def)

subsection \<open>The Unicode character database\<close>

text \<open>The tables behind the character methods of \<open>str\<close>, as a record the definitions take:
  \<open>u_casefold\<close> is \<open>str.casefold\<close>, \<open>u_isdigit\<close> the characters \<open>str.isdigit\<close> accepts,
  \<open>u_decimal\<close> the decimal value \<open>int()\<close> reads (superscripts are digits without one), and
  \<open>u_isword\<close> the class \<open>\w\<close> of the \<open>re\<close> module. \<open>ascii_db\<close> is their restriction to ASCII,
  used in examples.\<close>

record unicode_db =
  u_casefold :: "ustr \<Rightarrow> ustr"
  u_isdigit :: "nat \<Rightarrow> bool"
  u_decimal :: "nat \<Rightarrow> nat option"
  u_isword :: "nat \<Rightarrow> bool"

definition ascii_db :: unicode_db where
  "ascii_db =
     \<lparr>u_casefold = map (\<lambda>c. if 65 \<le> c \<and> c \<le> 90 then c + 32 else c),
      u_isdigit = (\<lambda>c. 48 \<le> c \<and> c \<le> 57),
      u_decimal = (\<lambda>c. if 48 \<le> c \<and> c \<le> 57 then Some (c - 48) else None),
      u_isword = (\<lambda>c. 48 \<le> c \<and> c \<le> 57 \<or> 65 \<le> c \<and> c \<le> 90 \<or> c = 95 \<or> 97 \<le> c \<and> c \<le> 122)\<rparr>"

definition str_isdigit :: "unicode_db \<Rightarrow> ustr \<Rightarrow> bool" where
  "str_isdigit u s \<longleftrightarrow> s \<noteq> [] \<and> list_all (u_isdigit u) s"

text \<open>\<open>int(s)\<close> on a string of digit characters: a character without a decimal value, or more
  than 4300 digits, is a ValueError (\<open>None\<close>).\<close>

fun decimal_value :: "unicode_db \<Rightarrow> nat \<Rightarrow> ustr \<Rightarrow> nat option" where
  "decimal_value u acc [] = Some acc"
| "decimal_value u acc (c # cs) =
     (case u_decimal u c of None \<Rightarrow> None | Some d \<Rightarrow> decimal_value u (10 * acc + d) cs)"

definition int_of_digits :: "unicode_db \<Rightarrow> ustr \<Rightarrow> nat option" where
  "int_of_digits u s = (if 4300 < length s then None else decimal_value u 0 s)"

end
