(* ===== verification/Retrieval_Domain.thy ===== *)
theory Retrieval_Domain
  imports Py_Text
begin

text \<open>
  The data model of the retrieval pipeline (backend/app/domain/rag/retrieval/domain.py):
  requests with their filters, query analyses, candidates as the three retrievers return
  them, fused candidates with their score provenance, and the trace and result of a run.
  The validators of the pydantic models are the predicates \<open>valid_\<dots>\<close>; a construction that
  violates one raises in the source. Wall-clock durations (the \<open>\<dots>elapsed_ms\<close> fields) are
  telemetry and are left out of the records.

  Candidate metadata is an arbitrary JSON-like value: the datatype \<open>json\<close>, with the tests
  the pipeline applies to it (\<open>isinstance\<close>, truth value).
\<close>

subsection \<open>JSON-like values\<close>

datatype json =
    JNull
  | JBool bool
  | JInt int
  | JFloat pyfloat
  | JStr ustr
  | JList "json list"
  | JDict "(ustr \<times> json) list"

type_synonym metadata = "(ustr, json) dict"

definition meta_get :: "metadata \<Rightarrow> string \<Rightarrow> json" where
  "meta_get m k = (case map_of m (lit k) of None \<Rightarrow> JNull | Some v \<Rightarrow> v)"

fun truthy :: "json \<Rightarrow> bool" where
  "truthy JNull = False"
| "truthy (JBool b) = b"
| "truthy (JInt i) = (i \<noteq> 0)"
| "truthy (JFloat r) = (r \<noteq> 0)"
| "truthy (JStr s) = (s \<noteq> [])"
| "truthy (JList xs) = (xs \<noteq> [])"
| "truthy (JDict d) = (d \<noteq> [])"

text \<open>Python's \<open>==\<close>: booleans, ints and floats compare as numbers, dicts without order.\<close>

fun num_of :: "json \<Rightarrow> pyfloat option" where
  "num_of (JBool b) = Some (if b then 1 else 0)"
| "num_of (JInt i) = Some (of_int i)"
| "num_of (JFloat r) = Some r"
| "num_of _ = None"

function (sequential) py_eq :: "json \<Rightarrow> json \<Rightarrow> bool" where
  "py_eq (JList xs) (JList ys) \<longleftrightarrow>
     length xs = length ys \<and> (\<forall>(x, y) \<in> set (zip xs ys). py_eq x y)"
| "py_eq (JDict d) (JDict e) \<longleftrightarrow>
     length d = length e
   \<and> (\<forall>(k, v) \<in> set d. case map_of e k of None \<Rightarrow> False | Some w \<Rightarrow> py_eq v w)"
| "py_eq (JStr s) (JStr t) \<longleftrightarrow> s = t"
| "py_eq JNull JNull \<longleftrightarrow> True"
| "py_eq a b \<longleftrightarrow> (case (num_of a, num_of b) of (Some x, Some y) \<Rightarrow> x = y | _ \<Rightarrow> False)"
  by pat_completeness auto
termination
proof (relation "measure (\<lambda>(a, _). size a)", goal_cases)
  case (2 xs ys z x y)
  then show ?case
    by (auto dest!: set_zip_leftD simp: less_Suc_eq_le intro: size_list_estimation')
next
  case (3 d e p k v w)
  then show ?case
    by (auto simp: less_Suc_eq_le intro!: size_list_estimation' [of p])
qed simp

subsection \<open>Requests, analyses and sources\<close>

datatype retrieval_source = SrcVector | SrcKeyword | SrcMetadata

text \<open>\<open>_SOURCE_ORDER\<close> of fusion.py is the order of the type.\<close>

fun source_order :: "retrieval_source \<Rightarrow> nat" where
  "source_order SrcVector = 0"
| "source_order SrcKeyword = 1"
| "source_order SrcMetadata = 2"

lemma source_order_inject [simp]: "source_order a = source_order b \<longleftrightarrow> a = b"
  by (cases a; cases b) auto

instantiation retrieval_source :: linorder
begin

definition less_eq_retrieval_source :: "retrieval_source \<Rightarrow> retrieval_source \<Rightarrow> bool" where
  "less_eq_retrieval_source a b \<longleftrightarrow> source_order a \<le> source_order b"

definition less_retrieval_source :: "retrieval_source \<Rightarrow> retrieval_source \<Rightarrow> bool" where
  "less_retrieval_source a b \<longleftrightarrow> source_order a < source_order b"

instance
  by standard (auto simp: less_eq_retrieval_source_def less_retrieval_source_def)

end

text \<open>An aware \<open>datetime\<close> is its instant on the UTC axis (microseconds) with its offset; a
  naive one has no instant.\<close>

datatype py_datetime = Naive int | Aware int int

fun instant :: "py_datetime \<Rightarrow> int" where
  "instant (Naive t) = t"
| "instant (Aware t off) = t"

record retrieval_filters =
  rf_document_ids :: "ustr list"
  rf_node_ids :: "ustr list"
  rf_source_types :: "ustr list"
  rf_page_numbers :: "int list"
  rf_slide_numbers :: "int list"
  rf_min_trusted_level :: "int option"
  rf_max_trusted_level :: "int option"
  rf_created_from :: "py_datetime option"
  rf_created_to :: "py_datetime option"
  rf_index_version_ids :: "ustr list"

definition normalized_unique :: "ustr list \<Rightarrow> ustr list" where
  "normalized_unique vs = sort (remdups (map strip (filter (\<lambda>v. strip v \<noteq> []) vs)))"

definition normalize_positive_numbers :: "int list \<Rightarrow> string + int list" where
  "normalize_positive_numbers vs =
     (let normalized = sort (remdups vs)
      in if list_ex (\<lambda>n. n \<le> 0) normalized
         then Inl ''page and slide filters must be positive'' else Inr normalized)"

fun utc_datetime :: "py_datetime option \<Rightarrow> string + py_datetime option" where
  "utc_datetime None = Inr None"
| "utc_datetime (Some (Naive t)) = Inl ''retrieval date filters must be timezone-aware''"
| "utc_datetime (Some (Aware t off)) = Inr (Some (Aware t 0))"

definition check_trusted_level :: "int option \<Rightarrow> string + int option" where
  "check_trusted_level l =
     (case l of None \<Rightarrow> Inr None
      | Some n \<Rightarrow> if 0 \<le> n \<and> n \<le> 5 then Inr (Some n) else Inl ''trusted level out of range'')"

definition validate_ranges :: "retrieval_filters \<Rightarrow> string + retrieval_filters" where
  "validate_ranges f =
     (if (case (rf_min_trusted_level f, rf_max_trusted_level f) of
            (Some lo, Some hi) \<Rightarrow> hi < lo | _ \<Rightarrow> False)
      then Inl ''minimum trusted level cannot exceed maximum trusted level''
      else if (case (rf_created_from f, rf_created_to f) of
            (Some a, Some b) \<Rightarrow> instant b < instant a | _ \<Rightarrow> False)
      then Inl ''created_from cannot be after created_to''
      else Inr f)"

text \<open>\<open>RetrievalFilters(...)\<close>: the field validators, then the model validator.\<close>

definition make_filters :: "retrieval_filters \<Rightarrow> string + retrieval_filters" where
  "make_filters f =
     bind_res (normalize_positive_numbers (rf_page_numbers f)) (\<lambda>pages.
     bind_res (normalize_positive_numbers (rf_slide_numbers f)) (\<lambda>slides.
     bind_res (check_trusted_level (rf_min_trusted_level f)) (\<lambda>lo.
     bind_res (check_trusted_level (rf_max_trusted_level f)) (\<lambda>hi.
     bind_res (utc_datetime (rf_created_from f)) (\<lambda>a.
     bind_res (utc_datetime (rf_created_to f)) (\<lambda>b.
       validate_ranges
         \<lparr>rf_document_ids = normalized_unique (rf_document_ids f),
          rf_node_ids = normalized_unique (rf_node_ids f),
          rf_source_types = normalized_unique (rf_source_types f),
          rf_page_numbers = pages, rf_slide_numbers = slides,
          rf_min_trusted_level = lo, rf_max_trusted_level = hi,
          rf_created_from = a, rf_created_to = b,
          rf_index_version_ids = normalized_unique (rf_index_version_ids f)\<rparr>))))))"

definition has_metadata_constraints :: "retrieval_filters \<Rightarrow> bool" where
  "has_metadata_constraints f \<longleftrightarrow>
     rf_document_ids f \<noteq> [] \<or> rf_node_ids f \<noteq> [] \<or> rf_source_types f \<noteq> []
   \<or> rf_page_numbers f \<noteq> [] \<or> rf_slide_numbers f \<noteq> []
   \<or> rf_min_trusted_level f \<noteq> None \<or> rf_max_trusted_level f \<noteq> None
   \<or> rf_created_from f \<noteq> None \<or> rf_created_to f \<noteq> None
   \<or> rf_index_version_ids f \<noteq> []"

lemma normalized_unique_idem: "normalized_unique (normalized_unique vs) = normalized_unique vs"
proof -
  have s: "sorted (normalized_unique vs)" "distinct (normalized_unique vs)"
    by (simp_all add: normalized_unique_def)
  have "strip v = v \<and> strip v \<noteq> []" if "v \<in> set (normalized_unique vs)" for v
    using that by (auto simp: normalized_unique_def)
  then have "filter (\<lambda>v. strip v \<noteq> []) (normalized_unique vs) = normalized_unique vs"
    "map strip (normalized_unique vs) = normalized_unique vs"
    by (auto simp: filter_id_conv intro: map_idI)
  with s show ?thesis
    by (simp add: normalized_unique_def [of "normalized_unique vs"] distinct_remdups_id sorted_sort_id)
qed

lemma normalize_positive_idem:
  "normalize_positive_numbers vs = Inr ns \<Longrightarrow> normalize_positive_numbers ns = Inr ns"
  by (auto simp: normalize_positive_numbers_def Let_def list_ex_iff distinct_remdups_id
      sorted_sort_id split: if_splits)

lemma utc_datetime_idem: "utc_datetime d = Inr e \<Longrightarrow> utc_datetime e = Inr e"
  by (cases d rule: utc_datetime.cases) auto

lemma check_trusted_level_Inr:
  "check_trusted_level l = Inr m \<longleftrightarrow> m = l \<and> (\<forall>n. l = Some n \<longrightarrow> 0 \<le> n \<and> n \<le> 5)"
  by (auto simp: check_trusted_level_def split: option.splits)

lemma validate_ranges_Inr: "validate_ranges f = Inr g \<Longrightarrow> g = f"
  by (auto simp: validate_ranges_def split: if_splits)

text \<open>Building filters from built filters changes nothing: the constructor is a normalisation.\<close>

lemma make_filters_idem:
  assumes "make_filters f = Inr g" shows "make_filters g = Inr g"
proof -
  from assms obtain pages slides lo hi a b where
    parts: "normalize_positive_numbers (rf_page_numbers f) = Inr pages"
      "normalize_positive_numbers (rf_slide_numbers f) = Inr slides"
      "check_trusted_level (rf_min_trusted_level f) = Inr lo"
      "check_trusted_level (rf_max_trusted_level f) = Inr hi"
      "utc_datetime (rf_created_from f) = Inr a" "utc_datetime (rf_created_to f) = Inr b"
    and v: "validate_ranges
         \<lparr>rf_document_ids = normalized_unique (rf_document_ids f),
          rf_node_ids = normalized_unique (rf_node_ids f),
          rf_source_types = normalized_unique (rf_source_types f),
          rf_page_numbers = pages, rf_slide_numbers = slides,
          rf_min_trusted_level = lo, rf_max_trusted_level = hi,
          rf_created_from = a, rf_created_to = b,
          rf_index_version_ids = normalized_unique (rf_index_version_ids f)\<rparr> = Inr g"
    unfolding make_filters_def bind_res_Inr_iff by blast
  have levels: "check_trusted_level lo = Inr lo" "check_trusted_level hi = Inr hi"
    using parts(3,4) check_trusted_level_Inr by metis+
  note g = validate_ranges_Inr [OF v]
  show ?thesis
    unfolding make_filters_def
    using v unfolding g
    by (simp add: normalize_positive_idem [OF parts(1)] normalize_positive_idem [OF parts(2)]
        levels utc_datetime_idem [OF parts(5)] utc_datetime_idem [OF parts(6)]
        normalized_unique_idem)
qed

record retrieval_request =
  rq_query :: ustr
  rq_user_id :: "string option"
  rq_goal_id :: "string option"
  rq_top_k :: int
  rq_filters :: retrieval_filters

record query_analysis =
  qa_original_query :: ustr
  qa_normalized_query :: ustr
  qa_tokens :: "ustr list"
  qa_exact_terms :: "ustr list"

subsection \<open>Candidates\<close>

record retrieval_candidate =
  rc_chunk_id :: string
  rc_document_id :: string
  rc_index_version_id :: string
  rc_content :: ustr
  rc_citation_label :: string
  rc_source_title :: "string option"
  rc_source_url :: "string option"
  rc_trusted_level :: int
  rc_metadata :: metadata
  rc_retriever :: retrieval_source
  rc_query :: ustr
  rc_rank :: nat
  rc_raw_score :: pyfloat
  rc_score_kind :: string
  rc_higher_is_better :: bool

definition valid_candidate :: "retrieval_candidate \<Rightarrow> bool" where
  "valid_candidate c \<longleftrightarrow>
     rc_chunk_id c \<noteq> [] \<and> rc_document_id c \<noteq> [] \<and> rc_index_version_id c \<noteq> []
   \<and> rc_content c \<noteq> [] \<and> strip (rc_content c) = rc_content c \<and> rc_citation_label c \<noteq> []
   \<and> 0 \<le> rc_trusted_level c \<and> rc_trusted_level c \<le> 5
   \<and> rc_query c \<noteq> [] \<and> 1 \<le> rc_rank c \<and> rc_score_kind c \<noteq> []"

record score_provenance =
  sp_retriever :: retrieval_source
  sp_query :: ustr
  sp_rank :: nat
  sp_raw_score :: pyfloat
  sp_score_kind :: string
  sp_higher_is_better :: bool
  sp_rrf_contribution :: pyfloat

record fused_candidate =
  fc_chunk_id :: string
  fc_document_id :: string
  fc_index_version_id :: string
  fc_content :: ustr
  fc_citation_label :: string
  fc_source_title :: "string option"
  fc_source_url :: "string option"
  fc_trusted_level :: int
  fc_metadata :: metadata
  fc_rrf_score :: pyfloat
  fc_fused_rank :: nat
  fc_provenance :: "score_provenance list"
  fc_rerank_score :: "pyfloat option"
  fc_reranked_rank :: "nat option"

definition valid_fused :: "fused_candidate \<Rightarrow> bool" where
  "valid_fused c \<longleftrightarrow>
     fc_chunk_id c \<noteq> [] \<and> fc_document_id c \<noteq> [] \<and> fc_index_version_id c \<noteq> []
   \<and> fc_content c \<noteq> [] \<and> strip (fc_content c) = fc_content c \<and> fc_citation_label c \<noteq> []
   \<and> 0 \<le> fc_trusted_level c \<and> fc_trusted_level c \<le> 5
   \<and> 0 < fc_rrf_score c \<and> 1 \<le> fc_fused_rank c \<and> fc_provenance c \<noteq> []
   \<and> (\<forall>p \<in> set (fc_provenance c). sp_query p \<noteq> [] \<and> 1 \<le> sp_rank p
        \<and> sp_score_kind p \<noteq> [] \<and> 0 < sp_rrf_contribution p)
   \<and> (case fc_reranked_rank c of None \<Rightarrow> True | Some r \<Rightarrow> 1 \<le> r)"

subsection \<open>Traces and results\<close>

datatype rewrite_status = RwNotConfigured | RwSucceeded | RwFailed

record rewrite_trace =
  rw_status :: rewrite_status
  rw_rewritten_queries :: "ustr list"
  rw_error_code :: "string option"

datatype attempt_status = AttSucceeded | AttFailed

record source_trace =
  st_source :: retrieval_source
  st_query :: ustr
  st_status :: attempt_status
  st_candidate_ids :: "string list"
  st_error_code :: "string option"

datatype rerank_status = RerankNotRun | RerankSucceeded | RerankFailed | RerankTimedOut

datatype retrieval_status = Grounded | NoContext | RetrievalFailed

record retrieval_trace =
  rt_original_query :: ustr
  rt_normalized_query :: ustr
  rt_exact_terms :: "ustr list"
  rt_queries :: "ustr list"
  rt_rewrite :: rewrite_trace
  rt_source_attempts :: "source_trace list"
  rt_fused_candidates :: "fused_candidate list"
  rt_reranked_candidates :: "fused_candidate list"
  rt_selected_candidates :: "fused_candidate list"
  rt_selected_char_count :: nat
  rt_rerank_status :: rerank_status
  rt_fallback_reasons :: "string list"

record retrieval_result =
  rr_status :: retrieval_status
  rr_request :: retrieval_request
  rr_analysis :: query_analysis
  rr_queries :: "ustr list"
  rr_candidates_by_source :: "(retrieval_source, retrieval_candidate list) dict"
  rr_fused_candidates :: "fused_candidate list"
  rr_reranked_candidates :: "fused_candidate list"
  rr_selected_candidates :: "fused_candidate list"
  rr_trace :: retrieval_trace
  rr_error_code :: "string option"

end
