(* ===== verification/Rank_Fusion.thy ===== *)
theory Rank_Fusion
  imports Retrieval_Domain
begin

text \<open>
  Reciprocal rank fusion (backend/app/domain/rag/retrieval/fusion.py).
  \<open>fuse\<close> keeps, for each (retriever, query, chunk), the best occurrence, groups the
  occurrences by chunk, scores a chunk by the sum of the reciprocal ranks and sorts by
  descending score and chunk id. \<open>rrf_spec\<close> is what that score means, stated on the set of
  candidates: one contribution per (retriever, query) pair that found the chunk, at the best
  rank it found it. The theorems relate the two and show that the ranking depends on the
  set of candidates only.
\<close>

subsection \<open>The operations\<close>

text \<open>\<open>ReciprocalRankFusion(k)\<close> refuses a \<open>k\<close> that is not positive.\<close>

definition make_rrf :: "int \<Rightarrow> string + int" where
  "make_rrf k = (if k \<le> 0 then Inl ''RRF k must be positive'' else Inr k)"

type_synonym occurrence_key = "retrieval_source \<times> ustr \<times> string"

definition occurrence_key :: "retrieval_candidate \<Rightarrow> occurrence_key" where
  "occurrence_key c = (rc_retriever c, rc_query c, rc_chunk_id c)"

definition occurrence_order :: "retrieval_candidate \<Rightarrow> nat \<times> pyfloat \<times> string" where
  "occurrence_order c =
     (rc_rank c,
      if rc_higher_is_better c then - rc_raw_score c else rc_raw_score c,
      rc_score_kind c)"

definition provenance_order ::
  "retrieval_candidate \<Rightarrow> nat \<times> ustr \<times> nat \<times> string \<times> pyfloat" where
  "provenance_order c =
     (source_order (rc_retriever c), rc_query c, rc_rank c, rc_score_kind c, rc_raw_score c)"

definition canonical_order :: "retrieval_candidate \<Rightarrow> nat \<times> ustr \<times> nat" where
  "canonical_order c = (source_order (rc_retriever c), rc_query c, rc_rank c)"

definition keep_best ::
  "(occurrence_key, retrieval_candidate) dict \<Rightarrow> retrieval_candidate
     \<Rightarrow> (occurrence_key, retrieval_candidate) dict" where
  "keep_best best c =
     (case map_of best (occurrence_key c) of
        None \<Rightarrow> dict_set (occurrence_key c) c best
      | Some current \<Rightarrow>
          if occurrence_order c < occurrence_order current
          then dict_set (occurrence_key c) c best else best)"

definition best_occurrences ::
  "retrieval_candidate list \<Rightarrow> (occurrence_key, retrieval_candidate) dict" where
  "best_occurrences cs = foldl keep_best [] cs"

definition rrf_contribution :: "int \<Rightarrow> nat \<Rightarrow> pyfloat" where
  "rrf_contribution k rank = 1 / of_int (k + int rank)"

definition provenance_of :: "int \<Rightarrow> retrieval_candidate \<Rightarrow> score_provenance" where
  "provenance_of k c =
     \<lparr>sp_retriever = rc_retriever c, sp_query = rc_query c, sp_rank = rc_rank c,
      sp_raw_score = rc_raw_score c, sp_score_kind = rc_score_kind c,
      sp_higher_is_better = rc_higher_is_better c,
      sp_rrf_contribution = rrf_contribution k (rc_rank c)\<rparr>"

definition fuse_group :: "int \<Rightarrow> string \<times> retrieval_candidate list \<Rightarrow> fused_candidate" where
  "fuse_group k g =
     (let ordered = sort_key provenance_order (snd g);
          canonical = min_by canonical_order (hd ordered) (tl ordered);
          provenance = map (provenance_of k) ordered
      in \<lparr>fc_chunk_id = fst g, fc_document_id = rc_document_id canonical,
          fc_index_version_id = rc_index_version_id canonical,
          fc_content = rc_content canonical,
          fc_citation_label = rc_citation_label canonical,
          fc_source_title = rc_source_title canonical,
          fc_source_url = rc_source_url canonical,
          fc_trusted_level = rc_trusted_level canonical,
          fc_metadata = rc_metadata canonical,
          fc_rrf_score = sum_list (map sp_rrf_contribution provenance),
          fc_fused_rank = 1, fc_provenance = provenance,
          fc_rerank_score = None, fc_reranked_rank = None\<rparr>)"

definition fused_order :: "fused_candidate \<Rightarrow> pyfloat \<times> string" where
  "fused_order c = (- fc_rrf_score c, fc_chunk_id c)"

definition number_fused :: "nat \<times> fused_candidate \<Rightarrow> fused_candidate" where
  "number_fused p = (snd p)\<lparr>fc_fused_rank := fst p\<rparr>"

definition all_candidates ::
  "(retrieval_source, retrieval_candidate list) dict \<Rightarrow> retrieval_candidate list" where
  "all_candidates by_source = concat (dict_values by_source)"

definition fuse ::
  "int \<Rightarrow> (retrieval_source, retrieval_candidate list) dict \<Rightarrow> fused_candidate list" where
  "fuse k by_source =
     (let best = best_occurrences (all_candidates by_source);
          grouped = group_by rc_chunk_id (dict_values best);
          unranked = map (fuse_group k) grouped;
          ordered = sort_key fused_order unranked
      in map number_fused (enumerate_from 1 ordered))"

subsection \<open>Best occurrences\<close>

lemma best_occurrences_Nil [simp]: "best_occurrences [] = []"
  by (simp add: best_occurrences_def)

lemma best_occurrences_snoc [simp]:
  "best_occurrences (cs @ [c]) = keep_best (best_occurrences cs) c"
  by (simp add: best_occurrences_def)

lemma wf_keep_best [simp, intro]: "wf_dict d \<Longrightarrow> wf_dict (keep_best d c)"
  by (auto simp: keep_best_def split: option.splits)

lemma wf_best_occurrences [simp]: "wf_dict (best_occurrences cs)"
  by (induction cs rule: rev_induct) auto

text \<open>The entry of a key is a candidate with that key, and a best one.\<close>

definition is_best :: "retrieval_candidate list \<Rightarrow> occurrence_key \<Rightarrow> retrieval_candidate \<Rightarrow> bool" where
  "is_best cs k b \<longleftrightarrow> b \<in> set cs \<and> occurrence_key b = k
     \<and> (\<forall>c \<in> set cs. occurrence_key c = k \<longrightarrow> occurrence_order b \<le> occurrence_order c)"

lemma map_of_best_occurrences:
  "(\<forall>b. map_of (best_occurrences cs) k = Some b \<longrightarrow> is_best cs k b)
   \<and> (map_of (best_occurrences cs) k = None \<longleftrightarrow> k \<notin> occurrence_key ` set cs)"
proof (induction cs arbitrary: k rule: rev_induct)
  case Nil
  then show ?case by simp
next
  case (snoc c cs)
  show ?case
  proof (cases "map_of (best_occurrences cs) (occurrence_key c)")
    case None
    with snoc.IH have new: "occurrence_key c \<notin> occurrence_key ` set cs" by blast
    have "is_best (cs @ [c]) k b \<longleftrightarrow> is_best cs k b" if "k \<noteq> occurrence_key c" for b
      using that by (auto simp: is_best_def)
    moreover have "is_best (cs @ [c]) (occurrence_key c) c"
      using new by (auto simp: is_best_def image_iff)
    ultimately show ?thesis
      using None snoc.IH [of k] by (auto simp: keep_best_def)
  next
    case (Some b)
    then have b: "is_best cs (occurrence_key c) b" using snoc.IH by blast
    have other: "is_best (cs @ [c]) k b' \<longleftrightarrow> is_best cs k b'" if "k \<noteq> occurrence_key c" for b'
      using that by (auto simp: is_best_def)
    have less: "is_best (cs @ [c]) (occurrence_key c) c" if "occurrence_order c < occurrence_order b"
      using that b by (auto simp: is_best_def intro: order.trans [OF less_imp_le])
    have keep: "is_best (cs @ [c]) (occurrence_key c) b" if "\<not> occurrence_order c < occurrence_order b"
      using that b by (auto simp: is_best_def)
    have key: "occurrence_key c \<in> occurrence_key ` set cs"
      using b unfolding is_best_def by (metis imageI)
    show ?thesis
    proof (cases "k = occurrence_key c")
      case True
      have "map_of (keep_best (best_occurrences cs) c) k =
          Some (if occurrence_order c < occurrence_order b then c else b)"
        using Some True by (simp add: keep_best_def del: map_of_eq_Some_iff)
      with True less keep key show ?thesis
        by (simp del: map_of_eq_Some_iff)
    next
      case False
      then have "map_of (keep_best (best_occurrences cs) c) k = map_of (best_occurrences cs) k"
        using Some by (simp add: keep_best_def)
      moreover have "k \<in> occurrence_key ` set (cs @ [c]) \<longleftrightarrow> k \<in> occurrence_key ` set cs"
        using False by auto
      ultimately show ?thesis using snoc.IH [of k] other [OF False] by simp
    qed
  qed
qed

lemma best_occurrence_is_best:
  "(k, b) \<in> set (best_occurrences cs) \<Longrightarrow> is_best cs k b"
  using map_of_best_occurrences [of cs k] map_of_wf_dict_iff [OF wf_best_occurrences, of cs k b]
  by blast

lemma keys_best_occurrences: "fst ` set (best_occurrences cs) = occurrence_key ` set cs"
proof -
  have "dom (map_of (best_occurrences cs)) = occurrence_key ` set cs"
    using map_of_best_occurrences [of cs] by (auto simp: dom_def)
  then show ?thesis by (simp add: dom_map_of_conv_image_fst)
qed

lemma distinct_best_values: "distinct (map occurrence_key (dict_values (best_occurrences cs)))"
proof -
  have "map occurrence_key (dict_values (best_occurrences cs)) = map fst (best_occurrences cs)"
    using best_occurrence_is_best [of _ _ cs]
    by (auto simp: dict_values_def is_best_def)
  then show ?thesis by simp
qed

lemma best_values_subset: "set (dict_values (best_occurrences cs)) \<subseteq> set cs"
  using best_occurrence_is_best [of _ _ cs] by (auto simp: dict_values_def is_best_def)

lemma chunks_best_values:
  "rc_chunk_id ` set (dict_values (best_occurrences cs)) = rc_chunk_id ` set cs"
proof -
  have "map rc_chunk_id (dict_values (best_occurrences cs))
      = map (\<lambda>k. snd (snd k)) (map fst (best_occurrences cs))"
    using best_occurrence_is_best [of _ _ cs]
    by (auto simp: dict_values_def is_best_def occurrence_key_def)
  then have "rc_chunk_id ` set (dict_values (best_occurrences cs))
      = (\<lambda>k. snd (snd k)) ` fst ` set (best_occurrences cs)"
    by (metis list.set_map)
  also have "\<dots> = rc_chunk_id ` set cs"
    by (simp add: keys_best_occurrences image_image occurrence_key_def)
  finally show ?thesis .
qed

subsection \<open>Groups and scores\<close>

definition chunk_group :: "retrieval_candidate list \<Rightarrow> string \<Rightarrow> retrieval_candidate list" where
  "chunk_group cs i = filter (\<lambda>c. rc_chunk_id c = i) (dict_values (best_occurrences cs))"

definition unranked :: "int \<Rightarrow> retrieval_candidate list \<Rightarrow> fused_candidate list" where
  "unranked k cs =
     map (fuse_group k) (group_by rc_chunk_id (dict_values (best_occurrences cs)))"

lemma fuse_unfold:
  "fuse k s = map number_fused
     (enumerate_from 1 (sort_key fused_order (unranked k (all_candidates s))))"
  by (simp add: fuse_def unranked_def Let_def)

lemma fc_chunk_id_fuse_group [simp]: "fc_chunk_id (fuse_group k g) = fst g"
  by (simp add: fuse_group_def Let_def)

lemma unranked_ids:
  "distinct (map fc_chunk_id (unranked k cs))"
  "fc_chunk_id ` set (unranked k cs) = rc_chunk_id ` set cs"
proof -
  let ?g = "group_by rc_chunk_id (dict_values (best_occurrences cs))"
  have "map fc_chunk_id (unranked k cs) = map fst ?g"
    by (simp add: unranked_def)
  then show "distinct (map fc_chunk_id (unranked k cs))" by simp
  have "fc_chunk_id ` set (unranked k cs) = fst ` set ?g"
    by (auto simp: unranked_def image_image)
  then show "fc_chunk_id ` set (unranked k cs) = rc_chunk_id ` set cs"
    by (simp add: keys_group_by chunks_best_values)
qed

lemma unranked_group:
  assumes "c \<in> set (unranked k cs)"
  obtains i where "c = fuse_group k (i, chunk_group cs i)" "chunk_group cs i \<noteq> []"
proof -
  from assms obtain i ys
    where entry: "(i, ys) \<in> set (group_by rc_chunk_id (dict_values (best_occurrences cs)))"
      and c: "c = fuse_group k (i, ys)"
    by (auto simp: unranked_def)
  have "ys = chunk_group cs i" "ys \<noteq> []"
    using group_by_entry(1) [OF entry] group_by_entry(3) [OF entry]
    by (simp_all add: chunk_group_def)
  with c that show thesis by simp
qed

lemma set_chunk_group:
  "c \<in> set (chunk_group cs i) \<longleftrightarrow>
     rc_chunk_id c = i \<and> (occurrence_key c, c) \<in> set (best_occurrences cs)"
  using best_occurrence_is_best [of _ c cs]
  by (auto simp: chunk_group_def dict_values_def is_best_def image_iff) force

lemma chunk_group_in: "c \<in> set (chunk_group cs i) \<Longrightarrow> c \<in> set cs \<and> rc_chunk_id c = i"
  using best_values_subset [of cs] by (auto simp: chunk_group_def)

lemma distinct_chunk_group: "distinct (map occurrence_key (chunk_group cs i))"
  unfolding chunk_group_def using distinct_best_values [of cs] by (rule distinct_map_filter)

lemma canonical_member:
  assumes "g \<noteq> []"
  shows "min_by canonical_order (hd (sort_key provenance_order g))
           (tl (sort_key provenance_order g)) \<in> set g"
proof -
  let ?s = "sort_key provenance_order g"
  have "?s \<noteq> []" using assms by (metis set_empty set_sort)
  then have "hd ?s # tl ?s = ?s" by simp
  then show ?thesis using min_by_in [of canonical_order "hd ?s" "tl ?s"] by (metis set_sort)
qed

text \<open>The meaning of the score, on the set of candidates.\<close>

definition found_by :: "retrieval_candidate set \<Rightarrow> string \<Rightarrow> (retrieval_source \<times> ustr) set" where
  "found_by C i = (\<lambda>c. (rc_retriever c, rc_query c)) ` {c \<in> C. rc_chunk_id c = i}"

definition best_rank :: "retrieval_candidate set \<Rightarrow> string \<Rightarrow> retrieval_source \<times> ustr \<Rightarrow> nat" where
  "best_rank C i p =
     Min (rc_rank ` {c \<in> C. rc_chunk_id c = i \<and> (rc_retriever c, rc_query c) = p})"

definition rrf_spec :: "int \<Rightarrow> retrieval_candidate set \<Rightarrow> string \<Rightarrow> pyfloat" where
  "rrf_spec k C i = (\<Sum>p \<in> found_by C i. rrf_contribution k (best_rank C i p))"

lemma sum_list_sort_key: "sum_list (map h (sort_key f xs)) = sum_list (map (h :: _ \<Rightarrow> real) xs)"
  by (metis mset_map mset_sort sum_mset_sum_list)

lemma fuse_group_score:
  "fc_rrf_score (fuse_group k g) = (\<Sum>c\<leftarrow>snd g. rrf_contribution k (rc_rank c))"
  by (simp add: fuse_group_def Let_def o_def provenance_of_def
      sum_list_sort_key [of "\<lambda>c. rrf_contribution k (rc_rank c)"])

lemma chunk_group_best_rank:
  assumes "c \<in> set (chunk_group cs i)"
  shows "best_rank (set cs) i (rc_retriever c, rc_query c) = rc_rank c"
  unfolding best_rank_def
proof (rule Min_eqI)
  have key: "rc_chunk_id c = i" and best: "is_best cs (occurrence_key c) c"
    using assms set_chunk_group best_occurrence_is_best by blast+
  fix r assume "r \<in> rc_rank ` {d \<in> set cs. rc_chunk_id d = i
      \<and> (rc_retriever d, rc_query d) = (rc_retriever c, rc_query c)}"
  then obtain d where d: "d \<in> set cs" "occurrence_key d = occurrence_key c" "r = rc_rank d"
    using key by (auto simp: occurrence_key_def)
  with best have "occurrence_order c \<le> occurrence_order d" by (simp add: is_best_def)
  with d show "rc_rank c \<le> r" by (auto simp: occurrence_order_def less_eq_prod_def)
next
  show "rc_rank c \<in> rc_rank ` {d \<in> set cs. rc_chunk_id d = i
      \<and> (rc_retriever d, rc_query d) = (rc_retriever c, rc_query c)}"
    using chunk_group_in [OF assms] by auto
qed simp

lemma chunk_group_found_by:
  "bij_betw (\<lambda>c. (rc_retriever c, rc_query c)) (set (chunk_group cs i)) (found_by (set cs) i)"
proof (rule bij_betw_imageI)
  show "inj_on (\<lambda>c. (rc_retriever c, rc_query c)) (set (chunk_group cs i))"
    using distinct_chunk_group [of cs i] chunk_group_in [of _ cs i]
    by (auto simp: distinct_map inj_on_def occurrence_key_def)
  show "(\<lambda>c. (rc_retriever c, rc_query c)) ` set (chunk_group cs i) = found_by (set cs) i"
  proof
    show "(\<lambda>c. (rc_retriever c, rc_query c)) ` set (chunk_group cs i) \<subseteq> found_by (set cs) i"
      using chunk_group_in [of _ cs i] by (auto simp: found_by_def)
    show "found_by (set cs) i \<subseteq> (\<lambda>c. (rc_retriever c, rc_query c)) ` set (chunk_group cs i)"
    proof
      fix p assume "p \<in> found_by (set cs) i"
      then obtain d where d: "d \<in> set cs" "rc_chunk_id d = i" "p = (rc_retriever d, rc_query d)"
        by (auto simp: found_by_def)
      then obtain b where b: "(occurrence_key d, b) \<in> set (best_occurrences cs)"
        using keys_best_occurrences [of cs] by (metis (no_types, lifting) imageE imageI prod.collapse)
      then have "occurrence_key b = occurrence_key d"
        using best_occurrence_is_best by (auto simp: is_best_def)
      with b d show "p \<in> (\<lambda>c. (rc_retriever c, rc_query c)) ` set (chunk_group cs i)"
        by (intro image_eqI [of _ _ b]) (auto simp: set_chunk_group occurrence_key_def)
    qed
  qed
qed

lemma chunk_group_score:
  "(\<Sum>c\<leftarrow>chunk_group cs i. rrf_contribution k (rc_rank c)) = rrf_spec k (set cs) i"
proof -
  have "distinct (chunk_group cs i)"
    using distinct_chunk_group distinct_map by blast
  then have "(\<Sum>c\<leftarrow>chunk_group cs i. rrf_contribution k (rc_rank c))
      = (\<Sum>c\<in>set (chunk_group cs i). rrf_contribution k (rc_rank c))"
    by (simp add: sum_list_distinct_conv_sum_set)
  also have "\<dots> = (\<Sum>c\<in>set (chunk_group cs i).
      rrf_contribution k (best_rank (set cs) i (rc_retriever c, rc_query c)))"
    by (intro sum.cong refl) (simp add: chunk_group_best_rank)
  also have "\<dots> = rrf_spec k (set cs) i"
    unfolding rrf_spec_def by (rule sum.reindex_bij_betw [OF chunk_group_found_by])
  finally show ?thesis .
qed

lemma unranked_score:
  "c \<in> set (unranked k cs) \<Longrightarrow> fc_rrf_score c = rrf_spec k (set cs) (fc_chunk_id c)"
  by (erule unranked_group) (simp add: fuse_group_score chunk_group_score)

subsection \<open>The ranking\<close>

lemma number_fused_simps [simp]:
  "fc_chunk_id (number_fused p) = fc_chunk_id (snd p)"
  "fc_rrf_score (number_fused p) = fc_rrf_score (snd p)"
  "fc_fused_rank (number_fused p) = fst p"
  "fused_order (number_fused p) = fused_order (snd p)"
  by (simp_all add: number_fused_def fused_order_def)

lemma length_fuse: "length (fuse k s) = length (unranked k (all_candidates s))"
  by (simp add: fuse_unfold)

lemma map_fuse:
  assumes "\<And>p. f (number_fused p) = f (snd p)"
  shows "map f (fuse k s) = map f (sort_key fused_order (unranked k (all_candidates s)))"
proof -
  have "map f (map number_fused ps) = map f (map snd ps)" for ps
    by (simp add: assms)
  then show ?thesis
    unfolding fuse_unfold by (metis map_snd_enumerate_from)
qed

lemma fuse_member:
  assumes "c \<in> set (fuse k s)"
  obtains u n where "u \<in> set (unranked k (all_candidates s))" "c = number_fused (n, u)" "1 \<le> n"
proof -
  from assms obtain i where i: "i < length (fuse k s)" "c = fuse k s ! i"
    by (metis in_set_conv_nth)
  let ?o = "sort_key fused_order (unranked k (all_candidates s))"
  have "c = number_fused (Suc i, ?o ! i)"
    using i by (simp add: fuse_unfold)
  moreover have "?o ! i \<in> set (unranked k (all_candidates s))"
    using i by (metis length_fuse length_sort nth_mem set_sort)
  ultimately show thesis using that by force
qed

lemma fuse_ids:
  "distinct (map fc_chunk_id (fuse k s))"
  "fc_chunk_id ` set (fuse k s) = rc_chunk_id ` set (all_candidates s)"
proof -
  let ?u = "unranked k (all_candidates s)"
  have ids: "map fc_chunk_id (fuse k s) = map fc_chunk_id (sort_key fused_order ?u)"
    by (rule map_fuse) simp
  have "distinct (map fc_chunk_id (sort_key fused_order ?u)) = distinct (map fc_chunk_id ?u)"
    by (metis mset_eq_imp_distinct_iff mset_map mset_sort)
  then show "distinct (map fc_chunk_id (fuse k s))"
    using ids unranked_ids(1) by simp
  have "fc_chunk_id ` set (fuse k s) = fc_chunk_id ` set ?u"
    by (metis ids list.set_map set_sort)
  then show "fc_chunk_id ` set (fuse k s) = rc_chunk_id ` set (all_candidates s)"
    by (simp add: unranked_ids)
qed

lemma fuse_scores:
  "c \<in> set (fuse k s) \<Longrightarrow>
     fc_rrf_score c = rrf_spec k (set (all_candidates s)) (fc_chunk_id c)"
  by (erule fuse_member) (simp add: unranked_score)

lemma fuse_sorted: "sorted (map fused_order (fuse k s))"
  by (subst map_fuse) (simp_all add: sorted_sort_key)

lemma fuse_ranks: "map fc_fused_rank (fuse k s) = [1..<Suc (length (fuse k s))]"
proof -
  have "map fc_fused_rank (fuse k s) = map fst (enumerate_from 1
      (sort_key fused_order (unranked k (all_candidates s))))"
    unfolding fuse_unfold by (simp add: o_def)
  then show ?thesis by (simp add: length_fuse)
qed

lemma fuse_rank_nth: "i < length (fuse k s) \<Longrightarrow> fc_fused_rank (fuse k s ! i) = Suc i"
  using arg_cong [OF fuse_ranks [of k s], of "\<lambda>l. l ! i"] by (simp del: upt_Suc)

subsection \<open>Properties\<close>

lemma fuse_source:
  assumes "c \<in> set (fuse k s)"
  obtains d where "d \<in> set (all_candidates s)" "rc_chunk_id d = fc_chunk_id c"
    "rc_document_id d = fc_document_id c" "rc_content d = fc_content c"
    "rc_citation_label d = fc_citation_label c" "rc_trusted_level d = fc_trusted_level c"
    "rc_metadata d = fc_metadata c"
proof -
  let ?C = "all_candidates s"
  obtain u n where u: "u \<in> set (unranked k ?C)" and c: "c = number_fused (n, u)"
    using assms by (rule fuse_member)
  obtain i where i: "u = fuse_group k (i, chunk_group ?C i)" and ne: "chunk_group ?C i \<noteq> []"
    using u by (rule unranked_group)
  let ?canon = "min_by canonical_order (hd (sort_key provenance_order (chunk_group ?C i)))
      (tl (sort_key provenance_order (chunk_group ?C i)))"
  have "?canon \<in> set ?C \<and> rc_chunk_id ?canon = i"
    using chunk_group_in [OF canonical_member [OF ne]] by simp
  then show ?thesis
    by (intro that [of ?canon]) (simp_all add: c i number_fused_def fuse_group_def Let_def)
qed

text \<open>Fusion loses no chunk and invents none: the fused list names exactly the chunks that
  some retriever returned, each once.\<close>

theorem fuse_chunks:
  "distinct (map fc_chunk_id (fuse k s))
   \<and> set (map fc_chunk_id (fuse k s)) = rc_chunk_id ` set (all_candidates s)"
  using fuse_ids [of k s] by simp

text \<open>C3. The fused score of a chunk is the reciprocal rank sum of the specification: one term
  per (retriever, query) pair that found the chunk, at the best rank that pair gave it, however
  often and in whatever order the occurrences were listed.\<close>

theorem fuse_score_spec:
  "map fc_rrf_score (fuse k s)
   = map (rrf_spec k (set (all_candidates s))) (map fc_chunk_id (fuse k s))"
  by (simp add: fuse_scores)

text \<open>The ranking depends only on the set of candidates: listing the retrievers, the queries
  or the candidates in another order, or repeating candidates, changes neither which chunks are
  fused, nor their scores, nor their ranks.\<close>

theorem fuse_order_independent:
  assumes "set (all_candidates s) = set (all_candidates t)"
  shows "map (\<lambda>c. (fc_chunk_id c, fc_rrf_score c, fc_fused_rank c)) (fuse k s)
       = map (\<lambda>c. (fc_chunk_id c, fc_rrf_score c, fc_fused_rank c)) (fuse k t)"
proof -
  let ?key = "\<lambda>i. (- rrf_spec k (set (all_candidates s)) i, i)"
  have order: "map fused_order (fuse k u) = map ?key (map fc_chunk_id (fuse k u))"
    if "set (all_candidates u) = set (all_candidates s)" for u
    using fuse_scores [of _ k u] that by (auto simp: fused_order_def)
  have inj: "inj ?key" by (auto simp: inj_def)
  have "set (map fused_order (fuse k s)) = set (map fused_order (fuse k t))"
    using assms by (simp only: order assms set_map fuse_ids image_image)
  moreover have "distinct (map fused_order (fuse k u))"
    if "set (all_candidates u) = set (all_candidates s)" for u
    unfolding order [OF that] using fuse_ids(1) [of k u] inj
    by (subst distinct_map) (auto intro: inj_on_subset)
  ultimately have eq: "map fused_order (fuse k s) = map fused_order (fuse k t)"
    using assms fuse_sorted by (metis sorted_distinct_set_unique)
  then have len: "length (fuse k s) = length (fuse k t)" by (metis length_map)
  show ?thesis
  proof (rule nth_equalityI)
    fix i assume "i < length (map (\<lambda>c. (fc_chunk_id c, fc_rrf_score c, fc_fused_rank c)) (fuse k s))"
    then have i: "i < length (fuse k s)" "i < length (fuse k t)" using len by simp_all
    have "fused_order (fuse k s ! i) = fused_order (fuse k t ! i)"
      using arg_cong [OF eq, of "\<lambda>l. l ! i"] i by simp
    moreover have "fc_fused_rank (fuse k s ! i) = fc_fused_rank (fuse k t ! i)"
      using i by (simp add: fuse_rank_nth)
    ultimately show "map (\<lambda>c. (fc_chunk_id c, fc_rrf_score c, fc_fused_rank c)) (fuse k s) ! i
        = map (\<lambda>c. (fc_chunk_id c, fc_rrf_score c, fc_fused_rank c)) (fuse k t) ! i"
      using i by (simp add: fused_order_def)
  qed (simp add: len)
qed

text \<open>Example candidates, for the concrete instances.\<close>

definition sample_candidate ::
  "string \<Rightarrow> string \<Rightarrow> ustr \<Rightarrow> retrieval_source \<Rightarrow> nat \<Rightarrow> retrieval_candidate" where
  "sample_candidate chunk doc content src rank =
     \<lparr>rc_chunk_id = chunk, rc_document_id = doc, rc_index_version_id = ''v1'',
      rc_content = content, rc_citation_label = ''L'', rc_source_title = None,
      rc_source_url = None, rc_trusted_level = 3, rc_metadata = [],
      rc_retriever = src, rc_query = lit ''q'', rc_rank = rank, rc_raw_score = 1,
      rc_score_kind = ''k'', rc_higher_is_better = True\<rparr>"

theorem fuse_order_independent_witness:
  "map (\<lambda>c. (fc_chunk_id c, fc_rrf_score c, fc_fused_rank c))
     (fuse 60 [(SrcVector, [sample_candidate ''a'' ''d'' (lit ''x'') SrcVector 2]),
               (SrcKeyword, [sample_candidate ''b'' ''d'' (lit ''y'') SrcKeyword 1])])
   = map (\<lambda>c. (fc_chunk_id c, fc_rrf_score c, fc_fused_rank c))
     (fuse 60 [(SrcKeyword, [sample_candidate ''b'' ''d'' (lit ''y'') SrcKeyword 1]),
               (SrcVector, [sample_candidate ''a'' ''d'' (lit ''x'') SrcVector 2])])"
  by (rule fuse_order_independent)
     (simp add: all_candidates_def dict_values_def insert_commute)

text \<open>On valid candidates and a positive \<open>k\<close>, every fused candidate satisfies the
  validators of its model (positive score, rank from one, non-empty provenance, content and
  identifiers), so fusion raises no validation error; its score is at most the number of pairs
  that found the chunk times the largest contribution.\<close>

theorem fuse_valid:
  assumes "0 < k" "\<forall>c \<in> set (all_candidates s). valid_candidate c" "c \<in> set (fuse k s)"
  shows "valid_fused c
       \<and> fc_rrf_score c \<le> real (card (found_by (set (all_candidates s)) (fc_chunk_id c))) / real_of_int (k + 1)"
proof
  let ?C = "all_candidates s"
  have contribution: "0 < rrf_contribution k r \<and> rrf_contribution k r \<le> 1 / real_of_int (k + 1)" if "1 \<le> r" for r
    using that \<open>0 < k\<close> by (simp add: rrf_contribution_def frac_le)
  obtain u n where u: "u \<in> set (unranked k ?C)" and c: "c = number_fused (n, u)" and "1 \<le> n"
    using assms(3) by (rule fuse_member)
  obtain i where i: "u = fuse_group k (i, chunk_group ?C i)" and ne: "chunk_group ?C i \<noteq> []"
    using u by (rule unranked_group)
  let ?g = "chunk_group ?C i"
  have members: "valid_candidate d \<and> rc_chunk_id d = i" if "d \<in> set ?g" for d
    using chunk_group_in [OF that] assms(2) by blast
  let ?canon = "min_by canonical_order (hd (sort_key provenance_order ?g))
      (tl (sort_key provenance_order ?g))"
  have canon: "valid_candidate ?canon" "rc_chunk_id ?canon = i"
    using members [OF canonical_member [OF ne]] by blast+
  have ranks: "1 \<le> rc_rank d" if "d \<in> set ?g" for d
    using members [OF that] by (simp add: valid_candidate_def)
  have "0 < fc_rrf_score u"
  proof -
    obtain d ds where g: "?g = d # ds" using ne by (cases ?g) auto
    have "0 \<le> (\<Sum>c\<leftarrow>ds. rrf_contribution k (rc_rank c))"
      using contribution ranks g by (intro sum_list_nonneg) (auto simp: less_imp_le)
    then show ?thesis
      using contribution [of "rc_rank d"] ranks [of d] g by (simp add: i fuse_group_score)
  qed
  then show "valid_fused c"
    using canon \<open>1 \<le> n\<close> ne contribution members
    by (auto simp: c i number_fused_def valid_fused_def valid_candidate_def fuse_group_def Let_def
        provenance_of_def)
  have "fc_rrf_score c = (\<Sum>d\<leftarrow>?g. rrf_contribution k (rc_rank d))"
    by (simp add: c i fuse_group_score)
  also have "\<dots> \<le> (\<Sum>d\<leftarrow>?g. 1 / real_of_int (k + 1))"
    using contribution ranks by (intro sum_list_mono) auto
  also have "\<dots> = real (card (found_by (set ?C) i)) / real_of_int (k + 1)"
    using bij_betw_same_card [OF chunk_group_found_by [of ?C i]] distinct_chunk_group [of ?C i]
    by (simp add: sum_list_triv distinct_map distinct_card)
  finally show "fc_rrf_score c \<le> real (card (found_by (set ?C) (fc_chunk_id c))) / real_of_int (k + 1)"
    by (simp add: c i)
qed

theorem fuse_valid_witness:
  "\<exists>c \<in> set (fuse 60 [(SrcVector, [sample_candidate ''a'' ''d'' (lit ''x'') SrcVector 2])]).
     valid_fused c"
proof -
  let ?s = "[(SrcVector, [sample_candidate ''a'' ''d'' (lit ''x'') SrcVector 2])]"
  have valid: "\<forall>c \<in> set (all_candidates ?s). valid_candidate c"
    by (simp add: all_candidates_def dict_values_def sample_candidate_def valid_candidate_def
        lit_def strip_def lstrip_def rstrip_def rstrip_of_def py_isspace_def)
  have "''a'' \<in> fc_chunk_id ` set (fuse 60 ?s)"
    by (simp add: fuse_ids all_candidates_def dict_values_def sample_candidate_def)
  then show ?thesis
    using fuse_valid [of 60 ?s, OF _ valid] by fastforce
qed

end
