(* ===== verification/Reranking.thy ===== *)
theory Reranking
  imports Retrieval_Domain
begin

text \<open>
  The rerankers (backend/app/domain/rag/retrieval/reranking.py) and the guarded call of a
  reranker in orchestrator.py. A reranker works against a deadline: every \<open>_check_deadline\<close>
  reads the clock again, so the definitions thread the number of readings made so far through
  a clock \<open>nat \<Rightarrow> int\<close> (the successive values of \<open>perf_counter_ns()\<close>) and stop at the first
  reading at or past the deadline.

  The locale \<open>permuting_reranker\<close> is what the caller relies on; it is interpreted on both
  rerankers. \<open>rerank_with_fallback\<close> itself trusts none of it: it is modelled for an arbitrary
  reranker, whose answer may drop, repeat, invent or rewrite candidates and carry any score.
\<close>

subsection \<open>Deadlines\<close>

type_synonym clock = "nat \<Rightarrow> int"

datatype rerank_error = RerankTimeout | RerankFailure

definition deadline_ns :: "clock \<Rightarrow> int \<Rightarrow> nat \<Rightarrow> rerank_error + int \<times> nat" where
  "deadline_ns clk timeout_ms n =
     (if timeout_ms \<le> 0 then Inl RerankTimeout else Inr (clk n + timeout_ms * 1000000, Suc n))"

definition check_deadline :: "clock \<Rightarrow> int \<Rightarrow> nat \<Rightarrow> rerank_error + nat" where
  "check_deadline clk deadline n = (if deadline \<le> clk n then Inl RerankTimeout else Inr (Suc n))"

text \<open>A reranker's answer: candidates with the score it put on each. The score of a foreign
  reranker need not be a number, nor finite.\<close>

datatype returned_score = NoScore | FiniteScore pyfloat | NotFinite | NotANumber

type_synonym reranked = "(fused_candidate \<times> returned_score) list"

definition with_rank :: "pyfloat \<Rightarrow> nat \<Rightarrow> fused_candidate \<Rightarrow> fused_candidate" where
  "with_rank score rank c = c\<lparr>fc_rerank_score := Some score, fc_reranked_rank := Some rank\<rparr>"

subsection \<open>The no-op reranker\<close>

fun noop_loop :: "clock \<Rightarrow> int \<Rightarrow> nat \<Rightarrow> nat \<Rightarrow> fused_candidate list \<Rightarrow> rerank_error + reranked \<times> nat" where
  "noop_loop clk dl n rank [] = Inr ([], n)"
| "noop_loop clk dl n rank (c # cs) =
     bind_res (check_deadline clk dl n) (\<lambda>n.
     bind_res (noop_loop clk dl n (Suc rank) cs) (\<lambda>(rs, n).
       Inr ((with_rank (fc_rrf_score c) rank c, FiniteScore (fc_rrf_score c)) # rs, n)))"

definition noop_rerank ::
  "clock \<Rightarrow> retrieval_request \<Rightarrow> fused_candidate list \<Rightarrow> int \<Rightarrow> rerank_error + reranked" where
  "noop_rerank clk req cs timeout_ms =
     bind_res (deadline_ns clk timeout_ms 0) (\<lambda>(dl, n).
     bind_res (noop_loop clk dl n 1 cs) (\<lambda>(rs, n).
     bind_res (check_deadline clk dl n) (\<lambda>n. Inr rs)))"

subsection \<open>Lexical features\<close>

text \<open>The maximal runs of characters in a class: the matches of \<open>[...]+\<close>.\<close>

fun runs_from :: "(nat \<Rightarrow> bool) \<Rightarrow> ustr \<Rightarrow> ustr \<Rightarrow> ustr list" where
  "runs_from p cur [] = (if cur = [] then [] else [cur])"
| "runs_from p cur (c # cs) =
     (if p c then runs_from p (cur @ [c]) cs
      else if cur = [] then runs_from p [] cs else cur # runs_from p [] cs)"

definition runs_of :: "(nat \<Rightarrow> bool) \<Rightarrow> ustr \<Rightarrow> ustr list" where
  "runs_of p s = runs_from p [] s"

definition is_cjk :: "nat \<Rightarrow> bool" where
  "is_cjk c \<longleftrightarrow> 13312 \<le> c \<and> c \<le> 19903 \<or> 19968 \<le> c \<and> c \<le> 40959
     \<or> 63744 \<le> c \<and> c \<le> 64255 \<or> 131072 \<le> c \<and> c \<le> 195103"

definition token_set :: "unicode_db \<Rightarrow> clock \<Rightarrow> int \<Rightarrow> ustr \<Rightarrow> nat \<Rightarrow> rerank_error + ustr set \<times> nat" where
  "token_set u clk dl s n =
     bind_res (check_deadline clk dl n) (\<lambda>n.
     bind_res (check_deadline clk dl n) (\<lambda>n.
       Inr (set (runs_of (\<lambda>c. u_isword u c \<or> c = 45) (u_casefold u s)), n)))"

text \<open>\<open>for offset in range(len(run) - size + 1)\<close>, with a deadline check at every 64th offset.\<close>

fun grams_of_size ::
  "clock \<Rightarrow> int \<Rightarrow> ustr \<Rightarrow> nat \<Rightarrow> nat list \<Rightarrow> ustr set \<Rightarrow> nat \<Rightarrow> rerank_error + ustr set \<times> nat" where
  "grams_of_size clk dl r sz [] grams n = Inr (grams, n)"
| "grams_of_size clk dl r sz (off # offs) grams n =
     bind_res (if off mod 64 = 0 then check_deadline clk dl n else Inr n) (\<lambda>n.
       grams_of_size clk dl r sz offs (insert (take sz (drop off r)) grams) n)"

fun grams_of_runs ::
  "clock \<Rightarrow> int \<Rightarrow> ustr list \<Rightarrow> ustr set \<Rightarrow> nat \<Rightarrow> rerank_error + ustr set \<times> nat" where
  "grams_of_runs clk dl [] grams n = Inr (grams, n)"
| "grams_of_runs clk dl (r # rs) grams n =
     bind_res (check_deadline clk dl n) (\<lambda>n.
     bind_res (grams_of_size clk dl r 2 [0 ..< length r + 1 - 2] grams n) (\<lambda>(grams, n).
     bind_res (grams_of_size clk dl r 3 [0 ..< length r + 1 - 3] grams n) (\<lambda>(grams, n).
       grams_of_runs clk dl rs grams n)))"

definition cjk_ngrams :: "unicode_db \<Rightarrow> clock \<Rightarrow> int \<Rightarrow> ustr \<Rightarrow> nat \<Rightarrow> rerank_error + ustr set \<times> nat" where
  "cjk_ngrams u clk dl s n =
     bind_res (grams_of_runs clk dl (runs_of is_cjk (u_casefold u s)) {} n) (\<lambda>(grams, n).
     bind_res (check_deadline clk dl n) (\<lambda>n. Inr (grams, n)))"

definition lexical_features ::
  "unicode_db \<Rightarrow> clock \<Rightarrow> int \<Rightarrow> ustr \<Rightarrow> nat \<Rightarrow> rerank_error + ustr set \<times> nat" where
  "lexical_features u clk dl s n =
     bind_res (token_set u clk dl s n) (\<lambda>(ts, n).
     bind_res (cjk_ngrams u clk dl s n) (\<lambda>(gs, n).
     bind_res (check_deadline clk dl n) (\<lambda>n. Inr (ts \<union> gs, n))))"

subsection \<open>The heuristic reranker\<close>

record heuristic_weights =
  lexical_weight :: pyfloat
  trust_weight :: pyfloat

definition default_weights :: heuristic_weights where
  "default_weights = \<lparr>lexical_weight = 100, trust_weight = 1 / 100\<rparr>"

definition lexical_overlap :: "ustr set \<Rightarrow> ustr set \<Rightarrow> pyfloat" where
  "lexical_overlap q c = (if q = {} then 0 else real (card (q \<inter> c)) / real (card q))"

definition heuristic_score ::
  "unicode_db \<Rightarrow> heuristic_weights \<Rightarrow> clock \<Rightarrow> int \<Rightarrow> ustr set \<Rightarrow> fused_candidate \<Rightarrow> nat
     \<Rightarrow> rerank_error + pyfloat \<times> nat" where
  "heuristic_score u w clk dl query_features c n =
     bind_res (check_deadline clk dl n) (\<lambda>n.
     bind_res (lexical_features u clk dl (fc_content c) n) (\<lambda>(content_features, n).
       Inr (lexical_weight w * lexical_overlap query_features content_features
              + trust_weight w * real_of_int (fc_trusted_level c) + fc_rrf_score c, n)))"

fun score_loop ::
  "unicode_db \<Rightarrow> heuristic_weights \<Rightarrow> clock \<Rightarrow> int \<Rightarrow> ustr set \<Rightarrow> fused_candidate list \<Rightarrow> nat
     \<Rightarrow> rerank_error + (pyfloat \<times> fused_candidate) list \<times> nat" where
  "score_loop u w clk dl q [] n = Inr ([], n)"
| "score_loop u w clk dl q (c # cs) n =
     bind_res (check_deadline clk dl n) (\<lambda>n.
     bind_res (heuristic_score u w clk dl q c n) (\<lambda>(s, n).
     bind_res (score_loop u w clk dl q cs n) (\<lambda>(scored, n). Inr ((s, c) # scored, n))))"

definition heuristic_order :: "pyfloat \<times> fused_candidate \<Rightarrow> pyfloat \<times> nat \<times> string" where
  "heuristic_order p = (- fst p, fc_fused_rank (snd p), fc_chunk_id (snd p))"

fun emit_loop ::
  "clock \<Rightarrow> int \<Rightarrow> nat \<Rightarrow> nat \<Rightarrow> (pyfloat \<times> fused_candidate) list \<Rightarrow> rerank_error + reranked \<times> nat" where
  "emit_loop clk dl n rank [] = Inr ([], n)"
| "emit_loop clk dl n rank ((s, c) # ps) =
     bind_res (check_deadline clk dl n) (\<lambda>n.
     bind_res (emit_loop clk dl n (Suc rank) ps) (\<lambda>(rs, n).
       Inr ((with_rank s rank c, FiniteScore s) # rs, n)))"

definition heuristic_rerank ::
  "unicode_db \<Rightarrow> heuristic_weights \<Rightarrow> clock \<Rightarrow> retrieval_request \<Rightarrow> fused_candidate list \<Rightarrow> int
     \<Rightarrow> rerank_error + reranked" where
  "heuristic_rerank u w clk req cs timeout_ms =
     bind_res (deadline_ns clk timeout_ms 0) (\<lambda>(dl, n).
     bind_res (lexical_features u clk dl (rq_query req) n) (\<lambda>(q, n).
     bind_res (score_loop u w clk dl q cs n) (\<lambda>(scored, n).
     bind_res (check_deadline clk dl n) (\<lambda>n.
     bind_res (check_deadline clk dl n) (\<lambda>n.
     bind_res (emit_loop clk dl n 1 (sort_key heuristic_order scored)) (\<lambda>(rs, n).
     bind_res (check_deadline clk dl n) (\<lambda>n. Inr rs)))))))"

subsection \<open>The guarded call\<close>

type_synonym reranker_port =
  "retrieval_request \<Rightarrow> fused_candidate list \<Rightarrow> int \<Rightarrow> rerank_error + reranked"

text \<open>\<open>{candidate.chunk_id: candidate for candidate in candidates}\<close>\<close>

definition fused_by_id :: "fused_candidate list \<Rightarrow> (string, fused_candidate) dict" where
  "fused_by_id cs = dict_of (map (\<lambda>c. (fc_chunk_id c, c)) cs)"

definition ids_acceptable :: "string list \<Rightarrow> (string, fused_candidate) dict \<Rightarrow> bool" where
  "ids_acceptable ids d \<longleftrightarrow>
     length ids = length d \<and> card (set ids) = length ids \<and> set ids = set (dict_keys d)"

fun normalize_reranked ::
  "(string, fused_candidate) dict \<Rightarrow> nat \<Rightarrow> reranked \<Rightarrow> rerank_error + fused_candidate list" where
  "normalize_reranked d rank [] = Inr []"
| "normalize_reranked d rank ((c, sc) # rs) =
     (case map_of d (fc_chunk_id c) of
        None \<Rightarrow> Inl RerankFailure
      | Some fused \<Rightarrow>
          (case sc of
             NotANumber \<Rightarrow> Inl RerankFailure
           | NotFinite \<Rightarrow> Inl RerankFailure
           | NoScore \<Rightarrow> bind_res (normalize_reranked d (Suc rank) rs)
               (\<lambda>out. Inr (with_rank (fc_rrf_score fused) rank fused # out))
           | FiniteScore s \<Rightarrow> bind_res (normalize_reranked d (Suc rank) rs)
               (\<lambda>out. Inr (with_rank s rank fused # out))))"

definition checked_rerank ::
  "reranker_port \<Rightarrow> retrieval_request \<Rightarrow> fused_candidate list \<Rightarrow> int
     \<Rightarrow> rerank_error + fused_candidate list" where
  "checked_rerank reranker req cs timeout_ms =
     bind_res (reranker req cs timeout_ms) (\<lambda>answer.
       if ids_acceptable (map (fc_chunk_id \<circ> fst) answer) (fused_by_id cs)
       then normalize_reranked (fused_by_id cs) 1 answer else Inl RerankFailure)"

definition rerank_with_fallback ::
  "reranker_port \<Rightarrow> retrieval_request \<Rightarrow> fused_candidate list \<Rightarrow> int
     \<Rightarrow> fused_candidate list \<times> rerank_status \<times> string list" where
  "rerank_with_fallback reranker req cs timeout_ms =
     (if cs = [] then ([], RerankNotRun, [])
      else case checked_rerank reranker req cs timeout_ms of
        Inr out \<Rightarrow> (out, RerankSucceeded, [])
      | Inl RerankTimeout \<Rightarrow> (cs, RerankTimedOut, [''reranker_timeout''])
      | Inl RerankFailure \<Rightarrow> (cs, RerankFailed, [''reranker_failed'']))"

subsection \<open>Runs against the deadline and their pure values\<close>

text \<open>\<open>timed clk dl r v\<close>: the computation \<open>r\<close> either ran out of time, on a clock that does
  reach the deadline, or returned the value \<open>v\<close>.\<close>

definition timed :: "clock \<Rightarrow> int \<Rightarrow> rerank_error + 'a \<times> nat \<Rightarrow> 'a \<Rightarrow> bool" where
  "timed clk dl r v \<longleftrightarrow> r = Inl RerankTimeout \<and> (\<exists>i. dl \<le> clk i) \<or> (\<exists>n. r = Inr (v, n))"

named_theorems timed_rules "composition of computations against a deadline"

lemma timed_return [timed_rules]: "timed clk dl (Inr (v, n)) v"
  by (simp add: timed_def)

lemma timed_check [timed_rules]:
  "(\<And>n. timed clk dl (k n) v) \<Longrightarrow> timed clk dl (bind_res (check_deadline clk dl n) k) v"
  by (auto simp: check_deadline_def timed_def)

lemma timed_bind:
  assumes "timed clk dl r v" "\<And>n. timed clk dl (k v n) w"
  shows "timed clk dl (bind_res r (\<lambda>(x, n). k x n)) w"
  using assms(1)
proof (cases rule: disjE [OF assms(1) [unfolded timed_def]])
  case 2
  then obtain n where "r = Inr (v, n)" by blast
  with assms(2) [of n] show ?thesis by simp
qed (simp add: timed_def)

definition tokens_of :: "unicode_db \<Rightarrow> ustr \<Rightarrow> ustr set" where
  "tokens_of u s = set (runs_of (\<lambda>c. u_isword u c \<or> c = 45) (u_casefold u s))"

definition grams_of :: "ustr \<Rightarrow> nat \<Rightarrow> ustr set" where
  "grams_of r k = (\<lambda>off. take k (drop off r)) ` {0 ..< length r + 1 - k}"

definition features_of :: "unicode_db \<Rightarrow> ustr \<Rightarrow> ustr set" where
  "features_of u s = tokens_of u s
     \<union> (\<Union>r \<in> set (runs_of is_cjk (u_casefold u s)). grams_of r 2 \<union> grams_of r 3)"

definition score_of :: "unicode_db \<Rightarrow> heuristic_weights \<Rightarrow> ustr \<Rightarrow> fused_candidate \<Rightarrow> pyfloat" where
  "score_of u w q c = lexical_weight w * lexical_overlap (features_of u q) (features_of u (fc_content c))
     + trust_weight w * real_of_int (fc_trusted_level c) + fc_rrf_score c"

definition answer_from :: "nat \<Rightarrow> (pyfloat \<times> fused_candidate) list \<Rightarrow> reranked" where
  "answer_from rank ps =
     map (\<lambda>(r, s, c). (with_rank s r c, FiniteScore s)) (enumerate_from rank ps)"

lemma timed_tokens: "timed clk dl (token_set u clk dl s n) (tokens_of u s)"
  unfolding token_set_def tokens_of_def by (intro timed_rules)

lemma timed_grams_of_size:
  "timed clk dl (grams_of_size clk dl r k offs g n) (g \<union> (\<lambda>off. take k (drop off r)) ` set offs)"
proof (induction offs arbitrary: g n)
  case (Cons off offs)
  have step: "timed clk dl (grams_of_size clk dl r k offs (insert (take k (drop off r)) g) m)
      (g \<union> (\<lambda>off. take k (drop off r)) ` set (off # offs))" for m
    using Cons [of "insert (take k (drop off r)) g" m] by simp
  show ?case
    by (cases "off mod 64 = 0") (simp_all add: step timed_check del: list.set Un_insert_left Un_insert_right)
qed (simp add: timed_return)

lemma timed_grams_of_runs:
  "timed clk dl (grams_of_runs clk dl rs g n) (g \<union> (\<Union>r \<in> set rs. grams_of r 2 \<union> grams_of r 3))"
proof (induction rs arbitrary: g n)
  case (Cons r rs)
  have grams: "timed clk dl (grams_of_size clk dl r k [0 ..< length r + 1 - k] h m) (h \<union> grams_of r k)"
    for k h m
    using timed_grams_of_size [of clk dl r k "[0 ..< length r + 1 - k]" h m]
    by (simp only: grams_of_def set_upt)
  have "timed clk dl (grams_of_runs clk dl rs (g \<union> grams_of r 2 \<union> grams_of r 3) m)
      (g \<union> (\<Union>r \<in> set (r # rs). grams_of r 2 \<union> grams_of r 3))" for m
    using Cons [of "g \<union> grams_of r 2 \<union> grams_of r 3" m] by (simp add: Un_assoc)
  then show ?case
    unfolding grams_of_runs.simps by (intro timed_check timed_bind [OF grams])
qed (simp add: timed_return)

lemma timed_features: "timed clk dl (lexical_features u clk dl s n) (features_of u s)"
proof -
  have runs: "timed clk dl (grams_of_runs clk dl rs {} n)
      (\<Union>r \<in> set rs. grams_of r 2 \<union> grams_of r 3)" for rs n
    using timed_grams_of_runs [of clk dl rs "{}" n] by simp
  have grams: "timed clk dl (cjk_ngrams u clk dl s n)
      (\<Union>r \<in> set (runs_of is_cjk (u_casefold u s)). grams_of r 2 \<union> grams_of r 3)" for n
    unfolding cjk_ngrams_def by (intro timed_bind [OF runs] timed_check timed_return)
  show ?thesis
    unfolding lexical_features_def features_of_def
    by (intro timed_bind [OF timed_tokens] timed_bind [OF grams] timed_check timed_return)
qed

lemma timed_scores:
  "timed clk dl (score_loop u w clk dl (features_of u q) cs n) (map (\<lambda>c. (score_of u w q c, c)) cs)"
proof (induction cs arbitrary: n)
  case (Cons c cs)
  have score: "timed clk dl (heuristic_score u w clk dl (features_of u q) c m) (score_of u w q c)" for m
    unfolding heuristic_score_def score_of_def
    by (intro timed_check timed_bind [OF timed_features] timed_return)
  show ?case
    unfolding score_loop.simps list.map
    by (intro timed_check timed_bind [OF score] timed_bind [OF Cons] timed_return)
qed (simp add: timed_return)

lemma timed_emit: "timed clk dl (emit_loop clk dl n rank ps) (answer_from rank ps)"
proof (induction ps arbitrary: n rank)
  case (Cons p ps)
  obtain s c where p: "p = (s, c)" by fastforce
  have "answer_from rank (p # ps) = (with_rank s rank c, FiniteScore s) # answer_from (Suc rank) ps"
    by (simp add: answer_from_def p)
  then show ?case
    unfolding p emit_loop.simps by (auto intro!: timed_check timed_bind [OF Cons] timed_return)
qed (simp add: timed_return answer_from_def)

lemma timed_noop:
  "timed clk dl (noop_loop clk dl n rank cs) (answer_from rank (map (\<lambda>c. (fc_rrf_score c, c)) cs))"
proof (induction cs arbitrary: n rank)
  case (Cons c cs)
  have "answer_from rank (map (\<lambda>c. (fc_rrf_score c, c)) (c # cs))
      = (with_rank (fc_rrf_score c) rank c, FiniteScore (fc_rrf_score c))
        # answer_from (Suc rank) (map (\<lambda>c. (fc_rrf_score c, c)) cs)"
    by (simp add: answer_from_def)
  then show ?case
    unfolding noop_loop.simps by (auto intro!: timed_check timed_bind [OF Cons] timed_return)
qed (simp add: timed_return answer_from_def)

lemma timed_final:
  "timed clk dl r v \<Longrightarrow>
     bind_res r (\<lambda>(x, n). bind_res (check_deadline clk dl n) (\<lambda>n. Inr x)) = Inl RerankTimeout
       \<and> (\<exists>i. dl \<le> clk i)
   \<or> bind_res r (\<lambda>(x, n). bind_res (check_deadline clk dl n) (\<lambda>n. Inr x)) = Inr v"
  by (fastforce simp: timed_def check_deadline_def bind_res_def split: if_splits)

text \<open>Both rerankers return their reference answer, or time out on a clock that passes the
  deadline.\<close>

definition out_of_time :: "clock \<Rightarrow> int \<Rightarrow> bool" where
  "out_of_time clk t \<longleftrightarrow> t \<le> 0 \<or> (\<exists>i. clk 0 + t * 1000000 \<le> clk i)"

lemma noop_rerank_cases:
  "noop_rerank clk req cs t = Inl RerankTimeout \<and> out_of_time clk t
   \<or> noop_rerank clk req cs t = Inr (answer_from 1 (map (\<lambda>c. (fc_rrf_score c, c)) cs))"
  using timed_final [OF timed_noop]
  by (auto simp: noop_rerank_def deadline_ns_def out_of_time_def)

definition heuristic_ranking ::
  "unicode_db \<Rightarrow> heuristic_weights \<Rightarrow> ustr \<Rightarrow> fused_candidate list \<Rightarrow> (pyfloat \<times> fused_candidate) list" where
  "heuristic_ranking u w q cs = sort_key heuristic_order (map (\<lambda>c. (score_of u w q c, c)) cs)"

lemma heuristic_rerank_cases:
  "heuristic_rerank u w clk req cs t = Inl RerankTimeout \<and> out_of_time clk t
   \<or> heuristic_rerank u w clk req cs t = Inr (answer_from 1 (heuristic_ranking u w (rq_query req) cs))"
proof (cases "t \<le> 0")
  case False
  let ?dl = "clk 0 + t * 1000000"
  let ?run = "bind_res (lexical_features u clk ?dl (rq_query req) 1) (\<lambda>(q, n).
     bind_res (score_loop u w clk ?dl q cs n) (\<lambda>(scored, n).
     bind_res (check_deadline clk ?dl n) (\<lambda>n.
     bind_res (check_deadline clk ?dl n) (\<lambda>n.
       emit_loop clk ?dl n 1 (sort_key heuristic_order scored)))))"
  have assoc: "bind_res (bind_res r f) g = bind_res r (\<lambda>x. bind_res (f x) g)" for r f g
    by (cases r) auto
  have "timed clk ?dl ?run (answer_from 1 (heuristic_ranking u w (rq_query req) cs))"
    unfolding heuristic_ranking_def
    by (intro timed_bind [OF timed_features] timed_bind [OF timed_scores] timed_check timed_emit)
  from timed_final [OF this] False show ?thesis
    by (simp add: heuristic_rerank_def deadline_ns_def out_of_time_def assoc case_prod_unfold)
qed (simp add: heuristic_rerank_def deadline_ns_def out_of_time_def)

subsection \<open>The guarded call accepts only permutations\<close>

definition unscored :: "fused_candidate \<Rightarrow> fused_candidate" where
  "unscored c = c\<lparr>fc_rerank_score := None, fc_reranked_rank := None\<rparr>"

lemma unscored_simps [simp]:
  "fc_chunk_id (unscored c) = fc_chunk_id c" "unscored (with_rank s r c) = unscored c"
  by (simp_all add: unscored_def with_rank_def)

lemma with_rank_simps [simp]:
  "fc_chunk_id (with_rank s r c) = fc_chunk_id c" "fc_reranked_rank (with_rank s r c) = Some r"
  "fc_rerank_score (with_rank s r c) = Some s"
  by (simp_all add: with_rank_def)

lemma normalize_reranked_nth:
  "normalize_reranked d rank rs = Inr out \<Longrightarrow>
     length out = length rs
   \<and> (\<forall>i < length rs. \<exists>f s. map_of d (fc_chunk_id (fst (rs ! i))) = Some f
        \<and> out ! i = with_rank s (rank + i) f)"
proof (induction d rank rs arbitrary: out rule: normalize_reranked.induct)
  case (2 d rank c sc rs)
  then obtain f s out' where f: "map_of d (fc_chunk_id c) = Some f"
    and out: "out = with_rank s rank f # out'" "normalize_reranked d (Suc rank) rs = Inr out'"
    by (auto split: option.splits returned_score.splits simp: bind_res_Inr_iff)
  then have IH: "length out' = length rs
    \<and> (\<forall>i < length rs. \<exists>f s. map_of d (fc_chunk_id (fst (rs ! i))) = Some f
        \<and> out' ! i = with_rank s (Suc rank + i) f)"
    using 2 by (cases sc) (auto simp: bind_res_Inr_iff)
  then show ?case
    using f out by (auto simp: nth_Cons' less_Suc_eq_0_disj)
qed simp

lemma fused_by_id_distinct:
  "distinct (map fc_chunk_id cs) \<Longrightarrow> fused_by_id cs = map (\<lambda>c. (fc_chunk_id c, c)) cs"
  by (simp add: fused_by_id_def dict_of_distinct comp_def)

lemma checked_rerank_permutes:
  assumes ids: "distinct (map fc_chunk_id cs)" and ok: "checked_rerank r req cs t = Inr out"
  shows "mset (map unscored out) = mset (map unscored cs)
       \<and> map fc_reranked_rank out = map Some [1 ..< Suc (length cs)]"
proof -
  let ?d = "fused_by_id cs"
  note d = fused_by_id_distinct [OF ids]
  obtain rs where acc: "ids_acceptable (map (fc_chunk_id \<circ> fst) rs) ?d"
    and norm: "normalize_reranked ?d 1 rs = Inr out"
    using ok by (auto simp: checked_rerank_def bind_res_Inr_iff split: if_splits)
  note nth = normalize_reranked_nth [OF norm]
  have len: "length rs = length cs"
    using acc by (simp add: ids_acceptable_def d)
  have member: "\<exists>s. \<exists>f \<in> set cs. fc_chunk_id f = fc_chunk_id (fst (rs ! i)) \<and> out ! i = with_rank s (1 + i) f"
    if "i < length cs" for i
  proof -
    obtain f s where f: "map_of ?d (fc_chunk_id (fst (rs ! i))) = Some f" "out ! i = with_rank s (1 + i) f"
      using nth len \<open>i < length cs\<close> by auto
    from map_of_SomeD [OF f(1)] have "f \<in> set cs" "fc_chunk_id f = fc_chunk_id (fst (rs ! i))"
      by (auto simp: d)
    with f(2) show ?thesis by blast
  qed
  have out_ids: "map fc_chunk_id out = map (fc_chunk_id \<circ> fst) rs"
  proof (rule nth_equalityI)
    fix i assume "i < length (map fc_chunk_id out)"
    then have "i < length cs" using nth len by simp
    with member [OF this] nth len show "map fc_chunk_id out ! i = map (fc_chunk_id \<circ> fst) rs ! i" by auto
  qed (use nth len in simp)
  have dist: "distinct (map fc_chunk_id out)" "set (map fc_chunk_id out) = fc_chunk_id ` set cs"
    using acc by (auto simp: out_ids ids_acceptable_def d dict_keys_def image_image
        intro: card_distinct)
  have sub: "unscored ` set out \<subseteq> unscored ` set cs"
  proof
    fix x assume "x \<in> unscored ` set out"
    then obtain i where "i < length out" "x = unscored (out ! i)" by (auto simp: in_set_conv_nth)
    then show "x \<in> unscored ` set cs" using member [of i] nth len by auto
  qed
  have "unscored ` set cs \<subseteq> unscored ` set out"
  proof
    fix x assume "x \<in> unscored ` set cs"
    then obtain c where c: "c \<in> set cs" "x = unscored c" by auto
    then obtain e where e: "e \<in> set out" "fc_chunk_id e = fc_chunk_id c"
      using dist(2) by (metis (no_types, lifting) image_iff set_map)
    then obtain c' where "c' \<in> set cs" "unscored e = unscored c'" using sub by blast
    moreover from this have "fc_chunk_id c' = fc_chunk_id c"
      using e by (metis unscored_simps(1))
    ultimately have "c' = c" using c ids by (auto simp: distinct_map inj_on_def)
    then have "x = unscored e" using \<open>unscored e = unscored c'\<close> c by simp
    with e show "x \<in> unscored ` set out" by blast
  qed
  then have "set (map unscored out) = set (map unscored cs)" using sub by auto
  moreover have "distinct (map unscored xs)" if "distinct (map fc_chunk_id xs)" for xs
    using that by (auto simp: distinct_map inj_on_def) (metis unscored_simps(1))
  ultimately have "mset (map unscored out) = mset (map unscored cs)"
    using ids dist(1) set_eq_iff_mset_eq_distinct by blast
  moreover have "map fc_reranked_rank out = map Some [1 ..< Suc (length cs)]"
  proof (rule nth_equalityI)
    fix i assume "i < length (map fc_reranked_rank out)"
    then have i: "i < length cs" using nth len by simp
    with member [OF this] have "fc_reranked_rank (out ! i) = Some (Suc i)" by auto
    with i nth len show "map fc_reranked_rank out ! i = map Some [1 ..< Suc (length cs)] ! i"
      by (simp del: upt_Suc)
  qed (use nth len in \<open>simp del: upt_Suc\<close>)
  ultimately show ?thesis by blast
qed

subsection \<open>What the caller may rely on\<close>

text \<open>A reranker that answers with the candidates it was given, each with a finite score and its
  position as rank, and fails only by running out of time.\<close>

locale permuting_reranker =
  fixes rerank :: reranker_port
  assumes answers: "rerank req cs t = Inr ans \<Longrightarrow>
      \<exists>ps. mset (map snd ps) = mset cs \<and> ans = answer_from 1 ps"
    and only_timeouts: "rerank req cs t \<noteq> Inl RerankFailure"
begin

lemma normalize_own:
  "\<forall>p \<in> set ps. map_of d (fc_chunk_id (snd p)) = Some (snd p) \<Longrightarrow>
     normalize_reranked d rank (answer_from rank ps) = Inr (map fst (answer_from rank ps))"
  by (induction ps arbitrary: rank) (auto simp: answer_from_def)

lemma checked_is_answer:
  assumes ids: "distinct (map fc_chunk_id cs)" and run: "rerank req cs t = Inr ans"
  shows "checked_rerank rerank req cs t = Inr (map fst ans)"
proof -
  obtain ps where ps: "mset (map snd ps) = mset cs" and ans: "ans = answer_from 1 ps"
    using answers [OF run] by blast
  have ids_ans: "map (fc_chunk_id \<circ> fst) ans = map fc_chunk_id (map snd ps)"
    by (rule nth_equalityI) (auto simp: ans answer_from_def case_prod_unfold)
  have sets: "set (map snd ps) = set cs" using ps by (metis set_mset_mset)
  have perm: "mset (map fc_chunk_id (map snd ps)) = mset (map fc_chunk_id cs)"
    using ps by (metis mset_map)
  have "distinct (map fc_chunk_id (map snd ps))"
    using perm ids by (metis mset_eq_imp_distinct_iff)
  moreover have "length ps = length cs" using ps by (metis length_map size_mset)
  moreover have "set (map fc_chunk_id (map snd ps)) = fc_chunk_id ` set cs"
    using sets by (simp only: set_map)
  ultimately have acc: "ids_acceptable (map (fc_chunk_id \<circ> fst) ans) (fused_by_id cs)"
    unfolding ids_acceptable_def ids_ans fused_by_id_distinct [OF ids]
    using distinct_card [of "map fc_chunk_id (map snd ps)"]
    by (simp add: dict_keys_def comp_def image_image)
  have "map_of (fused_by_id cs) (fc_chunk_id c) = Some c" if "c \<in> set cs" for c
    using that ids by (simp add: fused_by_id_distinct comp_def)
  then have "normalize_reranked (fused_by_id cs) 1 ans = Inr (map fst ans)"
    unfolding ans using sets by (intro normalize_own) auto
  with run acc show ?thesis by (simp add: checked_rerank_def)
qed

lemma never_fails:
  assumes "distinct (map fc_chunk_id cs)" "rerank_with_fallback rerank req cs t = (out, st, why)"
  shows "st \<noteq> RerankFailed"
proof (cases "rerank req cs t")
  case (Inl e)
  with only_timeouts [of req cs t] have "e = RerankTimeout" by (cases e) auto
  with Inl assms show ?thesis by (auto simp: rerank_with_fallback_def checked_rerank_def split: if_splits)
next
  case (Inr ans)
  with assms checked_is_answer [OF assms(1) Inr] show ?thesis
    by (auto simp: rerank_with_fallback_def split: if_splits)
qed

end

interpretation noop: permuting_reranker "noop_rerank clk" for clk
proof
  fix req cs t ans
  show "\<exists>ps. mset (map snd ps) = mset cs \<and> ans = answer_from 1 ps"
    if "noop_rerank clk req cs t = Inr ans"
    using that noop_rerank_cases [of clk req cs t]
    by (intro exI [of _ "map (\<lambda>c. (fc_rrf_score c, c)) cs"]) (auto simp: comp_def)
  show "noop_rerank clk req cs t \<noteq> Inl RerankFailure"
    using noop_rerank_cases [of clk req cs t] by auto
qed

lemma mset_heuristic_ranking: "mset (map snd (heuristic_ranking u w q cs)) = mset cs"
  by (simp add: heuristic_ranking_def multiset.map_comp comp_def)

interpretation heuristic: permuting_reranker "heuristic_rerank u w clk" for u w clk
proof
  fix req cs t ans
  show "\<exists>ps. mset (map snd ps) = mset cs \<and> ans = answer_from 1 ps"
    if "heuristic_rerank u w clk req cs t = Inr ans"
    using that heuristic_rerank_cases [of u w clk req cs t]
      mset_heuristic_ranking [of u w "rq_query req" cs]
    by (intro exI [of _ "heuristic_ranking u w (rq_query req) cs"]) auto
  show "heuristic_rerank u w clk req cs t \<noteq> Inl RerankFailure"
    using heuristic_rerank_cases [of u w clk req cs t] by auto
qed

subsection \<open>Properties\<close>

lemma fallback_permutes:
  assumes "distinct (map fc_chunk_id cs)" "rerank_with_fallback r req cs t = (out, st, why)"
  shows "mset (map unscored out) = mset (map unscored cs)
       \<and> (st = RerankSucceeded \<and> why = []
            \<and> map fc_reranked_rank out = map Some [1 ..< Suc (length cs)]
          \<or> st = RerankNotRun \<and> cs = [] \<and> out = [] \<and> why = []
          \<or> st = RerankTimedOut \<and> out = cs \<and> why = [''reranker_timeout'']
          \<or> st = RerankFailed \<and> out = cs \<and> why = [''reranker_failed''])"
proof (cases "checked_rerank r req cs t")
  case (Inl e)
  with assms show ?thesis
    by (cases e) (auto simp: rerank_with_fallback_def split: if_splits)
next
  case (Inr o')
  with assms checked_rerank_permutes [OF assms(1) Inr] show ?thesis
    by (auto simp: rerank_with_fallback_def split: if_splits)
qed

text \<open>C2. Whatever a reranker answers (candidates dropped, repeated, invented or with changed
  content, scores that are no finite numbers, an exception), the guarded call passes on exactly
  the fused candidates with their own content: reordered and ranked from one when it reports
  success, in the fused order and with a reason otherwise.\<close>

theorem rerank_with_fallback_safe:
  assumes "distinct (map fc_chunk_id cs)" "rerank_with_fallback r req cs t = (out, st, why)"
  shows "mset (map unscored out) = mset (map unscored cs)
       \<and> (st = RerankSucceeded \<and> why = []
            \<and> map fc_reranked_rank out = map Some [1 ..< Suc (length cs)]
          \<or> st = RerankNotRun \<and> cs = [] \<and> out = [] \<and> why = []
          \<or> st = RerankTimedOut \<and> out = cs \<and> why = [''reranker_timeout'']
          \<or> st = RerankFailed \<and> out = cs \<and> why = [''reranker_failed''])"
  using fallback_permutes [OF assms] .

text \<open>The heuristic reranker, whose code polls the clock throughout, computes the declarative
  ranking (lexical overlap of the word and CJK n-gram features, trust and fusion score, ties by
  fused rank and identifier) and is accepted by the guard whenever the clock stays below the
  deadline; on any clock the only other outcome is the timeout fallback.\<close>

theorem heuristic_reranking:
  assumes "distinct (map fc_chunk_id cs)" "cs \<noteq> []"
  shows "rerank_with_fallback (heuristic_rerank u w clk) req cs t
           = (map fst (answer_from 1 (heuristic_ranking u w (rq_query req) cs)), RerankSucceeded, [])
       \<or> out_of_time clk t \<and> rerank_with_fallback (heuristic_rerank u w clk) req cs t
           = (cs, RerankTimedOut, [''reranker_timeout''])"
  using heuristic_rerank_cases [of u w clk req cs t]
    heuristic.checked_is_answer [OF assms(1), of u w clk req t] assms(2)
  by (auto simp: rerank_with_fallback_def checked_rerank_def)

subsection \<open>Instances\<close>

definition sample_ranked :: "string \<Rightarrow> nat \<Rightarrow> fused_candidate" where
  "sample_ranked chunk rank =
     \<lparr>fc_chunk_id = chunk, fc_document_id = ''d'', fc_index_version_id = ''v1'',
      fc_content = lit chunk, fc_citation_label = ''L'', fc_source_title = None,
      fc_source_url = None, fc_trusted_level = 3, fc_metadata = [], fc_rrf_score = 1 / 61,
      fc_fused_rank = rank, fc_provenance = [], fc_rerank_score = None, fc_reranked_rank = None\<rparr>"

definition sample_request :: retrieval_request where
  "sample_request =
     \<lparr>rq_query = lit ''b'', rq_user_id = None, rq_goal_id = None, rq_top_k = 5,
      rq_filters = \<lparr>rf_document_ids = [], rf_node_ids = [], rf_source_types = [],
        rf_page_numbers = [], rf_slide_numbers = [], rf_min_trusted_level = None,
        rf_max_trusted_level = None, rf_created_from = None, rf_created_to = None,
        rf_index_version_ids = []\<rparr>\<rparr>"

text \<open>A hostile reranker that swaps the candidates and rewrites a content.\<close>

definition hostile_reranker :: reranker_port where
  "hostile_reranker req cs t =
     Inr (map (\<lambda>c. (c\<lparr>fc_content := lit ''forged''\<rparr>, FiniteScore 9)) (rev cs))"

lemma rerank_with_fallback_safe_witness:
  "mset (map unscored (fst (rerank_with_fallback hostile_reranker sample_request
      [sample_ranked ''a'' 1, sample_ranked ''b'' 2] 100)))
   = {# unscored (sample_ranked ''a'' 1), unscored (sample_ranked ''b'' 2) #}"
proof -
  let ?cs = "[sample_ranked ''a'' 1, sample_ranked ''b'' 2]"
  have "distinct (map fc_chunk_id ?cs)" by (simp add: sample_ranked_def)
  from rerank_with_fallback_safe [OF this, of hostile_reranker sample_request 100]
  show ?thesis by (cases "rerank_with_fallback hostile_reranker sample_request ?cs 100") auto
qed

lemma hostile_reranker_restored:
  "rerank_with_fallback hostile_reranker sample_request
      [sample_ranked ''a'' 1, sample_ranked ''b'' 2] 100
   = ([with_rank 9 1 (sample_ranked ''b'' 2), with_rank 9 2 (sample_ranked ''a'' 1)],
      RerankSucceeded, [])"
  by (simp add: rerank_with_fallback_def checked_rerank_def hostile_reranker_def
      sample_ranked_def fused_by_id_def dict_of_def ids_acceptable_def dict_keys_def insert_commute numeral_2_eq_2)

lemma heuristic_reranking_witness:
  "rerank_with_fallback (heuristic_rerank ascii_db default_weights (\<lambda>_. 0)) sample_request
      [sample_ranked ''a'' 1, sample_ranked ''b'' 2] 100
   = (map fst (answer_from 1 (heuristic_ranking ascii_db default_weights (lit ''b'')
        [sample_ranked ''a'' 1, sample_ranked ''b'' 2])), RerankSucceeded, [])"
proof -
  let ?cs = "[sample_ranked ''a'' 1, sample_ranked ''b'' 2]"
  have "distinct (map fc_chunk_id ?cs)" "?cs \<noteq> []" by (simp_all add: sample_ranked_def)
  from heuristic_reranking [OF this, of ascii_db default_weights "\<lambda>_. 0" sample_request 100]
  show ?thesis by (auto simp: out_of_time_def sample_request_def)
qed

end
