(* ===== verification/Greedy_Selection.thy ===== *)
theory Greedy_Selection
  imports Prelude
begin

text \<open>
  The interface that the bounded selections of the program share: the context selector of the
  retrieval pipeline, the evidence selection of the tutor and the memory context selection all
  walk a list once and append an element to what they have selected, skip it, or stop.
  \<open>run sel xs\<close> is the selection from the remaining list \<open>xs\<close> with \<open>sel\<close> selected so far
  (\<open>Inl\<close> if the walk raises) and \<open>admit\<close> what the guards have established when an element is
  appended. What is selected is then a subsequence of the input, and a property that admission
  keeps holds of the whole selection. \<open>budgeted_selection\<close> adds a cost with a limit that
  admission respects.
\<close>

locale greedy_selection =
  fixes run :: "'a list \<Rightarrow> 'a list \<Rightarrow> 'e + 'a list"
    and admit :: "'a list \<Rightarrow> 'a \<Rightarrow> bool"
  assumes run_Nil: "run sel [] = Inr sel"
    and run_Cons: "run sel (x # xs) = Inr out \<Longrightarrow>
      out = sel \<or> run sel xs = Inr out \<or> admit sel x \<and> run (sel @ [x]) xs = Inr out"
begin

lemma run_extends:
  "run sel xs = Inr out \<Longrightarrow> \<exists>ys. out = sel @ ys \<and> subseq ys xs"
proof (induction xs arbitrary: sel)
  case Nil
  then show ?case by (simp add: run_Nil)
next
  case (Cons x xs)
  from run_Cons [OF Cons.prems] consider
    "out = sel" | "run sel xs = Inr out" | "run (sel @ [x]) xs = Inr out" by blast
  then show ?case
  proof cases
    case 1
    then show ?thesis by simp
  next
    case 2
    then show ?thesis using Cons.IH by blast
  next
    case 3
    then obtain ys where "out = (sel @ [x]) @ ys" "subseq ys xs" using Cons.IH by blast
    then show ?thesis by (intro exI [of _ "x # ys"]) simp
  qed
qed

lemma run_subseq: "run [] xs = Inr out \<Longrightarrow> subseq out xs"
  using run_extends [of "[]"] by auto

lemma run_subset: "run [] xs = Inr out \<Longrightarrow> set out \<subseteq> set xs"
  by (blast dest: run_subseq subseq_subset)

lemma run_invariant:
  assumes "run sel xs = Inr out" "P sel"
    and keep: "\<And>sel x. P sel \<Longrightarrow> admit sel x \<Longrightarrow> P (sel @ [x])"
  shows "P out"
  using assms(1,2)
proof (induction xs arbitrary: sel)
  case Nil
  then show ?case by (simp add: run_Nil)
next
  case (Cons x xs)
  from run_Cons [OF Cons.prems(1)] Cons.prems(2) Cons.IH keep show ?case by blast
qed

lemma run_pairwise:
  assumes "run [] xs = Inr out" "i < j" "j < length out"
    and admit: "\<And>sel x y. admit sel x \<Longrightarrow> y \<in> set sel \<Longrightarrow> R y x"
  shows "R (out ! i) (out ! j)"
proof -
  have "sorted_wrt R out"
    by (rule run_invariant [OF assms(1), where P = "sorted_wrt R"])
       (auto simp: sorted_wrt_append dest: admit)
  with assms(2,3) show ?thesis by (simp add: sorted_wrt_iff_nth_less)
qed

end

locale budgeted_selection = greedy_selection +
  fixes cost :: "'a list \<Rightarrow> nat" and limit :: nat and max_items :: nat
  assumes admit_cost: "admit sel x \<Longrightarrow> cost (sel @ [x]) \<le> limit"
    and admit_count: "admit sel x \<Longrightarrow> length sel < max_items"
    and cost_Nil: "cost [] = 0"
begin

lemma run_within_budget: "run [] xs = Inr out \<Longrightarrow> cost out \<le> limit"
  by (rule run_invariant [where P = "\<lambda>sel. cost sel \<le> limit"])
     (auto simp: cost_Nil admit_cost)

lemma run_within_count: "run [] xs = Inr out \<Longrightarrow> length out \<le> max_items"
  by (rule run_invariant [where P = "\<lambda>sel. length sel \<le> max_items"])
     (auto dest: admit_count)

end

end
