(* ===== verification/Context_Selection.thy ===== *)
theory Context_Selection
  imports Retrieval_Domain Greedy_Selection
begin

text \<open>
  The context selector (backend/app/domain/rag/retrieval/selection.py): from the ranked
  candidates it picks the chunks that go into the prompt, at most \<open>max_chunks\<close> within
  \<open>char_budget\<close> characters, skipping repeated, neighbouring and overlapping chunks, the first
  chunk of each document before second ones. Reading a \<open>chunk_index\<close> that is a string of
  digit characters \<open>int()\<close> refuses raises ValueError, so the selection returns a sum.
\<close>

subsection \<open>Configuration\<close>

record selection_config =
  max_chunks :: int
  char_budget :: int
  separator :: ustr
  diversity_first :: bool
  deduplicate_content :: bool
  allow_neighbor_chunks :: bool
  max_overlap_ratio :: "pyfloat option"

definition default_selection_config :: selection_config where
  "default_selection_config =
     \<lparr>max_chunks = 5, char_budget = 6000, separator = [10, 10], diversity_first = True,
      deduplicate_content = True, allow_neighbor_chunks = False, max_overlap_ratio = Some (8/10)\<rparr>"

definition check_selection_config :: "selection_config \<Rightarrow> string + selection_config" where
  "check_selection_config cfg =
     (if max_chunks cfg \<le> 0 then Inl ''max_chunks must be positive''
      else if char_budget cfg \<le> 0 then Inl ''char_budget must be positive''
      else case max_overlap_ratio cfg of
        None \<Rightarrow> Inr cfg
      | Some r \<Rightarrow> if 0 \<le> r \<and> r \<le> 1 then Inr cfg
          else Inl ''max_overlap_ratio must be between zero and one'')"

datatype selection_error = InvalidDigits ustr

subsection \<open>Comparing candidates\<close>

definition normalized_content :: "unicode_db \<Rightarrow> ustr \<Rightarrow> ustr" where
  "normalized_content u s = norm_ws (u_casefold u s)"

definition same_content :: "unicode_db \<Rightarrow> fused_candidate \<Rightarrow> fused_candidate \<Rightarrow> bool" where
  "same_content u l r =
     (let lh = meta_get (fc_metadata l) ''content_hash'';
          rh = meta_get (fc_metadata r) ''content_hash''
      in if truthy lh \<and> truthy rh \<and> py_eq lh rh then True
         else normalized_content u (fc_content l) = normalized_content u (fc_content r))"

definition neighbor_link :: "metadata \<Rightarrow> string \<Rightarrow> ustr list" where
  "neighbor_link m key =
     (case meta_get m key of JStr s \<Rightarrow> if s = [] then [] else [s] | _ \<Rightarrow> [])"

definition neighbor_links :: "metadata \<Rightarrow> ustr list" where
  "neighbor_links m = neighbor_link m ''previous_chunk_id'' @ neighbor_link m ''next_chunk_id''"

definition chunk_index :: "unicode_db \<Rightarrow> metadata \<Rightarrow> selection_error + int option" where
  "chunk_index u m =
     (case meta_get m ''chunk_index'' of
        JBool _ \<Rightarrow> Inr None
      | JInt i \<Rightarrow> Inr (Some i)
      | JStr s \<Rightarrow>
          if str_isdigit u s
          then (case int_of_digits u s of
                  None \<Rightarrow> Inl (InvalidDigits s) | Some n \<Rightarrow> Inr (Some (int n)))
          else Inr None
      | _ \<Rightarrow> Inr None)"

definition are_neighbors ::
  "unicode_db \<Rightarrow> fused_candidate \<Rightarrow> fused_candidate \<Rightarrow> selection_error + bool" where
  "are_neighbors u l r =
     (if fc_document_id l \<noteq> fc_document_id r then Inr False
      else if lit (fc_chunk_id r) \<in> set (neighbor_links (fc_metadata l))
            \<or> lit (fc_chunk_id l) \<in> set (neighbor_links (fc_metadata r)) then Inr True
      else bind_res (chunk_index u (fc_metadata l)) (\<lambda>li.
           bind_res (chunk_index u (fc_metadata r)) (\<lambda>ri.
             Inr (case (li, ri) of (Some i, Some j) \<Rightarrow> \<bar>i - j\<bar> = 1 | _ \<Rightarrow> False))))"

text \<open>The largest \<open>size\<close> at which a suffix of one text is a prefix of the other; the loop
  counts down from the shorter length and 0 stands for its end.\<close>

fun overlap_size :: "ustr \<Rightarrow> ustr \<Rightarrow> nat \<Rightarrow> nat" where
  "overlap_size l r 0 = 0"
| "overlap_size l r (Suc n) =
     (if drop (length l - Suc n) l = take (Suc n) r \<or> drop (length r - Suc n) r = take (Suc n) l
      then Suc n else overlap_size l r n)"

definition boundary_overlap_ratio :: "unicode_db \<Rightarrow> ustr \<Rightarrow> ustr \<Rightarrow> pyfloat" where
  "boundary_overlap_ratio u left right =
     (let l = normalized_content u left; r = normalized_content u right;
          shortest = min (length l) (length r)
      in if shortest = 0 then 0 else real (overlap_size l r shortest) / real shortest)"

subsection \<open>Selection\<close>

definition context_char_count :: "selection_config \<Rightarrow> fused_candidate list \<Rightarrow> nat" where
  "context_char_count cfg cs =
     (if cs = [] then 0
      else sum_list (map (length \<circ> fc_content) cs) + length (separator cfg) * (length cs - 1))"

fun first_by_document ::
  "string list \<Rightarrow> fused_candidate list \<Rightarrow> fused_candidate list \<times> fused_candidate list" where
  "first_by_document seen [] = ([], [])"
| "first_by_document seen (c # cs) =
     (if fc_document_id c \<in> set seen
      then (let (fs, rs) = first_by_document seen cs in (fs, c # rs))
      else (let (fs, rs) = first_by_document (fc_document_id c # seen) cs in (c # fs, rs)))"

definition selection_key :: "fused_candidate \<Rightarrow> nat \<times> string" where
  "selection_key c =
     (case fc_reranked_rank c of Some r \<Rightarrow> r | None \<Rightarrow> fc_fused_rank c, fc_chunk_id c)"

definition selection_order ::
  "selection_config \<Rightarrow> fused_candidate list \<Rightarrow> fused_candidate list" where
  "selection_order cfg cs =
     (let ordered = sort_key selection_key cs
      in if \<not> diversity_first cfg then ordered
         else (let (fs, rs) = first_by_document [] ordered in fs @ rs))"

text \<open>\<open>any(p(x) for x in xs)\<close>: stops at the first true value, or at the first exception.\<close>

fun any_res :: "('a \<Rightarrow> 'e + bool) \<Rightarrow> 'a list \<Rightarrow> 'e + bool" where
  "any_res p [] = Inr False"
| "any_res p (x # xs) = bind_res (p x) (\<lambda>b. if b then Inr True else any_res p xs)"

definition added_chars :: "selection_config \<Rightarrow> fused_candidate list \<Rightarrow> fused_candidate \<Rightarrow> nat" where
  "added_chars cfg sel c =
     length (fc_content c) + (if sel = [] then 0 else length (separator cfg))"

definition overlaps :: "unicode_db \<Rightarrow> selection_config \<Rightarrow> fused_candidate \<Rightarrow> fused_candidate \<Rightarrow> bool" where
  "overlaps u cfg c e =
     (case max_overlap_ratio cfg of
        None \<Rightarrow> False
      | Some r \<Rightarrow> r < boundary_overlap_ratio u (fc_content c) (fc_content e))"

fun select_loop ::
  "unicode_db \<Rightarrow> selection_config \<Rightarrow> fused_candidate list \<Rightarrow> fused_candidate list
     \<Rightarrow> selection_error + fused_candidate list" where
  "select_loop u cfg sel [] = Inr sel"
| "select_loop u cfg sel (c # cs) =
     (if max_chunks cfg \<le> int (length sel) then Inr sel
      else if fc_chunk_id c \<in> fc_chunk_id ` set sel then select_loop u cfg sel cs
      else if deduplicate_content cfg \<and> list_ex (same_content u c) sel
        then select_loop u cfg sel cs
      else bind_res (if allow_neighbor_chunks cfg then Inr False else any_res (are_neighbors u c) sel)
        (\<lambda>near.
          if near then select_loop u cfg sel cs
          else if list_ex (overlaps u cfg c) sel then select_loop u cfg sel cs
          else if char_budget cfg < int (context_char_count cfg sel + added_chars cfg sel c)
            then select_loop u cfg sel cs
          else select_loop u cfg (sel @ [c]) cs))"

definition select ::
  "unicode_db \<Rightarrow> selection_config \<Rightarrow> fused_candidate list \<Rightarrow> selection_error + fused_candidate list" where
  "select u cfg cs = select_loop u cfg [] (selection_order cfg cs)"

subsection \<open>What the guards establish\<close>

definition rejected ::
  "unicode_db \<Rightarrow> selection_config \<Rightarrow> fused_candidate list \<Rightarrow> fused_candidate \<Rightarrow> bool" where
  "rejected u cfg sel c \<longleftrightarrow>
     fc_chunk_id c \<in> fc_chunk_id ` set sel
   \<or> deduplicate_content cfg \<and> (\<exists>e \<in> set sel. same_content u c e)
   \<or> \<not> allow_neighbor_chunks cfg \<and> (\<exists>e \<in> set sel. are_neighbors u c e = Inr True)
   \<or> (\<exists>e \<in> set sel. overlaps u cfg c e)
   \<or> char_budget cfg < int (context_char_count cfg sel + added_chars cfg sel c)"

definition admitted ::
  "unicode_db \<Rightarrow> selection_config \<Rightarrow> fused_candidate list \<Rightarrow> fused_candidate \<Rightarrow> bool" where
  "admitted u cfg sel c \<longleftrightarrow> int (length sel) < max_chunks cfg \<and> \<not> rejected u cfg sel c
     \<and> (allow_neighbor_chunks cfg \<or> (\<forall>e \<in> set sel. are_neighbors u c e = Inr False))"

lemma any_res_Inr:
  "any_res p xs = Inr b \<Longrightarrow> (b \<longleftrightarrow> (\<exists>x \<in> set xs. p x = Inr True)) \<and> (b \<or> (\<forall>x \<in> set xs. p x = Inr False))"
  by (induction xs) (auto simp: bind_res_Inr_iff split: if_splits)

lemma context_char_count_snoc:
  "context_char_count cfg (sel @ [c]) = context_char_count cfg sel + added_chars cfg sel c"
  by (cases sel) (auto simp: context_char_count_def added_chars_def)

text \<open>One step of the loop: it stops at the limit, skips a rejected candidate or appends an
  admitted one.\<close>

lemma select_loop_step:
  assumes "select_loop u cfg sel (c # cs) = Inr out"
  shows "max_chunks cfg \<le> int (length sel) \<and> out = sel
       \<or> rejected u cfg sel c \<and> select_loop u cfg sel cs = Inr out
       \<or> admitted u cfg sel c \<and> select_loop u cfg (sel @ [c]) cs = Inr out"
proof (cases "max_chunks cfg \<le> int (length sel) \<or> fc_chunk_id c \<in> fc_chunk_id ` set sel
    \<or> deduplicate_content cfg \<and> list_ex (same_content u c) sel")
  case True
  with assms show ?thesis by (auto simp: rejected_def list_ex_iff split: if_splits)
next
  case False
  with assms obtain near where near: "(if allow_neighbor_chunks cfg then Inr False
      else any_res (are_neighbors u c) sel) = Inr near"
    and rest: "(if near then select_loop u cfg sel cs
          else if list_ex (overlaps u cfg c) sel then select_loop u cfg sel cs
          else if char_budget cfg < int (context_char_count cfg sel + added_chars cfg sel c)
            then select_loop u cfg sel cs
          else select_loop u cfg (sel @ [c]) cs) = Inr out"
    by (auto simp: bind_res_Inr_iff)
  show ?thesis
  proof (cases "allow_neighbor_chunks cfg")
    case True
    with near rest False show ?thesis
      by (auto simp: rejected_def admitted_def list_ex_iff split: if_splits)
  next
    case nb: False
    with near have "any_res (are_neighbors u c) sel = Inr near" by simp
    from any_res_Inr [OF this] rest False nb show ?thesis
      by (auto simp: rejected_def admitted_def list_ex_iff split: if_splits)
  qed
qed

interpretation selector: budgeted_selection
  "select_loop u cfg" "admitted u cfg" "context_char_count cfg" "nat (char_budget cfg)"
  "nat (max_chunks cfg)" for u cfg
proof
  fix sel x xs out
  show "select_loop u cfg sel [] = Inr sel" by simp
  show "out = sel \<or> select_loop u cfg sel xs = Inr out
      \<or> admitted u cfg sel x \<and> select_loop u cfg (sel @ [x]) xs = Inr out"
    if "select_loop u cfg sel (x # xs) = Inr out"
    using select_loop_step [OF that] by blast
  show "context_char_count cfg (sel @ [x]) \<le> nat (char_budget cfg)" if "admitted u cfg sel x"
    using that by (auto simp: admitted_def rejected_def context_char_count_snoc)
  show "length sel < nat (max_chunks cfg)" if "admitted u cfg sel x"
    using that by (auto simp: admitted_def)
  show "context_char_count cfg [] = 0" by (simp add: context_char_count_def)
qed

subsection \<open>Maximality\<close>

lemma context_char_count_prefix:
  "prefix pre out \<Longrightarrow> context_char_count cfg pre \<le> context_char_count cfg out"
proof -
  assume "prefix pre out"
  then obtain ys where "out = pre @ ys" by (auto simp: prefix_def)
  moreover have "context_char_count cfg pre \<le> context_char_count cfg (pre @ ys)"
  proof (induction ys rule: rev_induct)
    case (snoc y ys)
    then show ?case
      using context_char_count_snoc [of cfg "pre @ ys" y] by simp
  qed simp
  ultimately show ?thesis by simp
qed

lemma rejected_mono:
  assumes "rejected u cfg pre c" "prefix pre out"
  shows "rejected u cfg out c"
proof -
  have sub: "set pre \<subseteq> set out" using assms(2) by (auto simp: prefix_def)
  have "context_char_count cfg pre + added_chars cfg pre c
      \<le> context_char_count cfg out + added_chars cfg out c"
    using context_char_count_prefix [OF assms(2), of cfg] assms(2)
    by (auto simp: added_chars_def prefix_def)
  with assms(1) sub show ?thesis
    unfolding rejected_def by (auto 0 4 intro: rev_image_eqI)
qed

lemma select_loop_prefix: "select_loop u cfg sel cs = Inr out \<Longrightarrow> prefix sel out"
  using selector.run_extends [of u cfg sel cs out] by (auto simp: prefix_def)

lemma select_loop_maximal:
  assumes "select_loop u cfg sel cs = Inr out" "c \<in> set cs" "c \<notin> set out"
  shows "max_chunks cfg \<le> int (length out) \<or> rejected u cfg out c"
  using assms
proof (induction cs arbitrary: sel)
  case (Cons d ds)
  from select_loop_step [OF Cons.prems(1)] show ?case
  proof (elim disjE conjE)
    assume "max_chunks cfg \<le> int (length sel)" "out = sel"
    then show ?thesis by simp
  next
    assume r: "rejected u cfg sel d" and run: "select_loop u cfg sel ds = Inr out"
    show ?thesis
      using Cons.IH [OF run] Cons.prems(2,3) rejected_mono [OF r select_loop_prefix [OF run]]
      by auto
  next
    assume run: "select_loop u cfg (sel @ [d]) ds = Inr out"
    have "d \<in> set out" using select_loop_prefix [OF run] by (auto simp: prefix_def)
    then show ?thesis using Cons.IH [OF run] Cons.prems(2,3) by auto
  qed
qed simp

subsection \<open>The selection order\<close>

lemma mset_first_by_document:
  "first_by_document seen cs = (fs, rs) \<Longrightarrow> mset fs + mset rs = mset cs"
  by (induction seen cs arbitrary: fs rs rule: first_by_document.induct)
     (auto split: if_splits prod.splits)

lemma first_by_document_fresh:
  "first_by_document seen cs = (fs, rs) \<Longrightarrow> f \<in> set fs \<Longrightarrow> fc_document_id f \<notin> set seen"
proof (induction seen cs arbitrary: fs rs rule: first_by_document.induct)
  case (2 seen c cs)
  show ?case
    using "2.prems" "2.IH" by (cases "fc_document_id c \<in> set seen") (force split: prod.splits)+
qed simp

lemma first_by_document_distinct:
  "first_by_document seen cs = (fs, rs) \<Longrightarrow> distinct (map fc_document_id fs)"
proof (induction seen cs arbitrary: fs rs rule: first_by_document.induct)
  case (2 seen c cs)
  show ?case
  proof (cases "fc_document_id c \<in> set seen")
    case True
    with "2.prems" "2.IH"(1) show ?thesis by (auto split: prod.splits)
  next
    case False
    obtain fs' rs' where r: "first_by_document (fc_document_id c # seen) cs = (fs', rs')"
      by fastforce
    with False "2.prems" have "fs = c # fs'" by auto
    then show ?thesis
      using "2.IH"(2) [OF False r] first_by_document_fresh [OF r] by force
  qed
qed simp

lemma first_by_document_covers:
  "first_by_document seen cs = (fs, rs) \<Longrightarrow> c \<in> set rs \<Longrightarrow>
     fc_document_id c \<in> set seen \<union> fc_document_id ` set fs"
proof (induction seen cs arbitrary: fs rs rule: first_by_document.induct)
  case (2 seen d cs)
  show ?case
    using "2.prems" "2.IH" by (cases "fc_document_id d \<in> set seen") (force split: prod.splits)+
qed simp

lemma first_by_document_subseq:
  "first_by_document seen cs = (fs, rs) \<Longrightarrow> subseq fs cs \<and> subseq rs cs"
proof (induction seen cs arbitrary: fs rs rule: first_by_document.induct)
  case (2 seen d cs)
  show ?case
    using "2.prems" "2.IH" by (cases "fc_document_id d \<in> set seen") (force split: prod.splits)+
qed simp

lemma mset_selection_order [simp]: "mset (selection_order cfg cs) = mset cs"
  using mset_first_by_document [of "[]" "sort_key selection_key cs"]
  by (auto simp: selection_order_def Let_def split: prod.split)

lemma set_selection_order [simp]: "set (selection_order cfg cs) = set cs"
  by (metis mset_selection_order set_mset_mset)

lemma select_returns:
  assumes "\<forall>c \<in> set cs. is_ok (chunk_index u (fc_metadata c))"
  shows "\<exists>out. select u cfg cs = Inr out"
proof -
  have neighbors: "is_ok (are_neighbors u c e)" if "c \<in> set cs" "e \<in> set cs" for c e
  proof -
    have "is_ok (chunk_index u (fc_metadata c))" "is_ok (chunk_index u (fc_metadata e))"
      using assms that by auto
    then obtain i j where
      "chunk_index u (fc_metadata c) = Inr i" "chunk_index u (fc_metadata e) = Inr j"
      by (auto simp: is_ok_iff)
    then show ?thesis by (simp add: are_neighbors_def)
  qed
  have any: "is_ok (any_res (are_neighbors u c) es)" if "c \<in> set cs" "set es \<subseteq> set cs" for c es
    using that(2)
  proof (induction es)
    case (Cons e es)
    have "is_ok (are_neighbors u c e)" using neighbors \<open>c \<in> set cs\<close> Cons.prems by simp
    moreover have "is_ok (any_res (are_neighbors u c) es)" using Cons by simp
    ultimately show ?case by (auto simp: is_ok_iff)
  qed simp
  have "is_ok (select_loop u cfg sel ds)" if "set sel \<subseteq> set cs" "set ds \<subseteq> set cs" for sel ds
    using that
  proof (induction ds arbitrary: sel)
    case (Cons d ds)
    then have "is_ok (any_res (are_neighbors u d) sel)" using any by simp
    then obtain b where "any_res (are_neighbors u d) sel = Inr b" by (auto simp: is_ok_iff)
    with Cons show ?case by simp
  qed simp
  then show ?thesis by (simp add: select_def is_ok_iff)
qed

lemma select_bounds:
  assumes "select u cfg cs = Inr out"
  shows "int (length out) \<le> max 0 (max_chunks cfg)
       \<and> int (context_char_count cfg out) \<le> max 0 (char_budget cfg)
       \<and> set out \<subseteq> set cs \<and> distinct (map fc_chunk_id out)"
proof -
  have run: "select_loop u cfg [] (selection_order cfg cs) = Inr out"
    using assms by (simp add: select_def)
  have "distinct (map fc_chunk_id out)"
    by (rule selector.run_invariant [OF run, where P = "\<lambda>sel. distinct (map fc_chunk_id sel)"])
       (auto simp: admitted_def rejected_def)
  then show ?thesis
    using selector.run_within_count [OF run] selector.run_within_budget [OF run]
      selector.run_subset [OF run] by auto
qed

subsection \<open>Properties\<close>

text \<open>Whatever the candidates, a selection stays within both limits of its configuration
  (the number of chunks, and the characters of the joined context with its separators), and it
  selects only candidates, no chunk twice.\<close>

theorem select_within_limits:
  assumes "select u cfg cs = Inr out"
  shows "int (length out) \<le> max 0 (max_chunks cfg)
       \<and> int (context_char_count cfg out) \<le> max 0 (char_budget cfg)
       \<and> set out \<subseteq> set cs \<and> distinct (map fc_chunk_id out)"
  using select_bounds [OF assms] .

text \<open>C4. No two selected chunks clash: a later one neither repeats the content of an earlier
  one, nor is its neighbour, nor overlaps it beyond the ratio, as far as the configuration asks
  for these checks.\<close>

theorem select_no_clash:
  assumes "select u cfg cs = Inr out" "i < j" "j < length out"
  shows "(deduplicate_content cfg \<longrightarrow> \<not> same_content u (out ! j) (out ! i))
       \<and> (\<not> allow_neighbor_chunks cfg \<longrightarrow> are_neighbors u (out ! j) (out ! i) = Inr False)
       \<and> \<not> overlaps u cfg (out ! j) (out ! i)"
proof -
  have run: "select_loop u cfg [] (selection_order cfg cs) = Inr out"
    using assms(1) by (simp add: select_def)
  show ?thesis
    by (rule selector.run_pairwise [OF run assms(2,3), where R = "\<lambda>e c.
          (deduplicate_content cfg \<longrightarrow> \<not> same_content u c e)
        \<and> (\<not> allow_neighbor_chunks cfg \<longrightarrow> are_neighbors u c e = Inr False)
        \<and> \<not> overlaps u cfg c e"])
       (auto simp: admitted_def rejected_def)
qed

text \<open>C5. The selection is maximal: a candidate that was left out could not be added to the
  final selection either, because the chunk limit is reached or because one of the guards
  rejects it there.\<close>

theorem select_maximal:
  assumes "select u cfg cs = Inr out" "c \<in> set cs" "c \<notin> set out"
  shows "max_chunks cfg \<le> int (length out) \<or> rejected u cfg out c"
  using select_loop_maximal [of u cfg "[]" "selection_order cfg cs"] assms
  by (simp add: select_def)

text \<open>With \<open>diversity_first\<close> the walk visits every candidate once: first one candidate of
  each document, the best ranked of that document, in rank order, then the others in rank
  order.\<close>

theorem selection_order_diverse:
  assumes "diversity_first cfg"
  shows "\<exists>fs rs. selection_order cfg cs = fs @ rs \<and> mset (fs @ rs) = mset cs
       \<and> distinct (map fc_document_id fs) \<and> fc_document_id ` set rs \<subseteq> fc_document_id ` set fs
       \<and> sorted (map selection_key fs) \<and> sorted (map selection_key rs)"
proof -
  let ?o = "sort_key selection_key cs"
  obtain fs rs where fbd: "first_by_document [] ?o = (fs, rs)" by fastforce
  then have eq: "selection_order cfg cs = fs @ rs"
    using assms by (simp add: selection_order_def)
  have "sorted (map selection_key xs)" if "subseq xs ?o" for xs
    using that sorted_sort_key [of selection_key cs]
    by (meson sorted_subseq subseq_map)
  then have "sorted (map selection_key fs)" "sorted (map selection_key rs)"
    using first_by_document_subseq [OF fbd] by blast+
  moreover have "fc_document_id ` set rs \<subseteq> fc_document_id ` set fs"
    using first_by_document_covers [OF fbd] by auto
  moreover have "mset (fs @ rs) = mset cs"
    using eq mset_selection_order [of cfg cs] by simp
  ultimately show ?thesis
    using eq first_by_document_distinct [OF fbd] by blast
qed

text \<open>The selection always returns when every chunk index can be read: the only exception it
  can raise is the ValueError of \<open>int()\<close> on a digit string without a decimal value.\<close>

theorem select_total:
  assumes "\<forall>c \<in> set cs. is_ok (chunk_index u (fc_metadata c))"
  shows "\<exists>out. select u cfg cs = Inr out"
  using select_returns [OF assms] .

subsection \<open>Instances\<close>

definition sample_fused :: "string \<Rightarrow> string \<Rightarrow> ustr \<Rightarrow> nat \<Rightarrow> fused_candidate" where
  "sample_fused chunk doc content rank =
     \<lparr>fc_chunk_id = chunk, fc_document_id = doc, fc_index_version_id = ''v1'',
      fc_content = content, fc_citation_label = ''L'', fc_source_title = None,
      fc_source_url = None, fc_trusted_level = 3, fc_metadata = [], fc_rrf_score = 1 / 61,
      fc_fused_rank = rank, fc_provenance = [], fc_rerank_score = None, fc_reranked_rank = None\<rparr>"

definition sample_pool :: "fused_candidate list" where
  "sample_pool = [sample_fused ''a'' ''d1'' (lit ''alpha'') 1,
     sample_fused ''b'' ''d1'' (lit ''beta gamma'') 2, sample_fused ''c'' ''d2'' (lit ''Alpha'') 3,
     sample_fused ''d'' ''d3'' (lit ''delta'') 4]"

definition sample_selection_config :: selection_config where
  "sample_selection_config = default_selection_config\<lparr>char_budget := 12\<rparr>"

lemma overlap_size_numeral [simp]:
  "overlap_size l r (numeral k) =
     (if drop (length l - numeral k) l = take (numeral k) r
       \<or> drop (length r - numeral k) r = take (numeral k) l
      then numeral k else overlap_size l r (pred_numeral k))"
  by (simp add: numeral_eq_Suc)

lemma sample_selection:
  "select ascii_db sample_selection_config sample_pool =
     Inr [sample_fused ''a'' ''d1'' (lit ''alpha'') 1, sample_fused ''d'' ''d3'' (lit ''delta'') 4]"
  by (simp add: select_def selection_order_def selection_key_def sample_pool_def sample_fused_def
      sample_selection_config_def default_selection_config_def same_content_def meta_get_def
      normalized_content_def norm_ws_def split_ws_def ascii_db_def lit_def py_isspace_def
      are_neighbors_def neighbor_links_def neighbor_link_def overlaps_def chunk_index_def
      boundary_overlap_ratio_def context_char_count_def added_chars_def less_eq_prod_def Let_def)

lemma select_within_limits_witness:
  "length [sample_fused ''a'' ''d1'' (lit ''alpha'') 1, sample_fused ''d'' ''d3'' (lit ''delta'') 4] \<le> 5"
  using select_within_limits [OF sample_selection]
  by (simp add: sample_selection_config_def default_selection_config_def)

lemma select_no_clash_witness:
  "\<not> same_content ascii_db (sample_fused ''d'' ''d3'' (lit ''delta'') 4)
     (sample_fused ''a'' ''d1'' (lit ''alpha'') 1)"
  using select_no_clash [OF sample_selection, of 0 1]
  by (simp add: sample_selection_config_def default_selection_config_def)

lemma select_maximal_witness:
  "rejected ascii_db sample_selection_config
     [sample_fused ''a'' ''d1'' (lit ''alpha'') 1, sample_fused ''d'' ''d3'' (lit ''delta'') 4]
     (sample_fused ''b'' ''d1'' (lit ''beta gamma'') 2)"
  using select_maximal [OF sample_selection, of "sample_fused ''b'' ''d1'' (lit ''beta gamma'') 2"]
  by (simp add: sample_selection_config_def default_selection_config_def sample_pool_def
      sample_fused_def)

lemma selection_order_diverse_witness:
  "\<exists>fs rs. selection_order sample_selection_config sample_pool = fs @ rs
     \<and> distinct (map fc_document_id fs)"
proof -
  have "diversity_first sample_selection_config"
    by (simp add: sample_selection_config_def default_selection_config_def)
  from selection_order_diverse [OF this, of sample_pool] show ?thesis by blast
qed

lemma select_total_witness:
  "\<exists>out. select ascii_db default_selection_config sample_pool = Inr out"
  by (rule select_total) (simp add: sample_pool_def sample_fused_def chunk_index_def meta_get_def)

end
