(* ===== verification/Py_Regex.thy ===== *)
theory Py_Regex
  imports Py_Text
begin

text \<open>
  The part of Python's \<open>re\<close> the program uses: a backtracking matcher. \<open>matches r s i\<close> lists
  the end positions of the matches of \<open>r\<close> in \<open>s\<close> from position \<open>i\<close>, in the order the engine
  tries them (greedy repetition, left alternatives first), so the head is the match \<open>re\<close>
  reports; \<open>finditer\<close> scans from left to right and continues after each match.
\<close>

datatype regex =
    Cls "nat \<Rightarrow> bool"
  | Cat regex regex
  | Alt regex regex
  | Star regex
  | Empty
  | Ahead regex
  | NotBehind "nat \<Rightarrow> bool"
  | NotAhead "nat \<Rightarrow> bool"

definition Plus :: "regex \<Rightarrow> regex" where
  "Plus r = Cat r (Star r)"

definition Opt :: "regex \<Rightarrow> regex" where
  "Opt r = Alt r Empty"

definition any_of :: "regex list \<Rightarrow> regex" where
  "any_of rs = foldr Alt (butlast rs) (last rs)"

definition seq_of :: "regex list \<Rightarrow> regex" where
  "seq_of rs = foldr Cat rs Empty"

fun Word_re :: "ustr \<Rightarrow> regex" where
  "Word_re [] = Empty"
| "Word_re (c # cs) = Cat (Cls (\<lambda>x. x = c)) (Word_re cs)"

fun Times :: "nat \<Rightarrow> regex \<Rightarrow> regex" where
  "Times 0 r = Empty"
| "Times (Suc n) r = Cat r (Times n r)"

text \<open>Greedy iteration: an empty iteration ends the loop, and every other one moves forward, so
  as many rounds as there are characters are enough.\<close>

fun star_ends :: "(nat \<Rightarrow> nat list) \<Rightarrow> nat \<Rightarrow> nat \<Rightarrow> nat list" where
  "star_ends f 0 i = [i]"
| "star_ends f (Suc n) i = concat (map (star_ends f n) (filter (\<lambda>j. i < j) (f i))) @ [i]"

primrec matches :: "regex \<Rightarrow> ustr \<Rightarrow> nat \<Rightarrow> nat list" where
  "matches (Cls p) s i = (if i < length s \<and> p (s ! i) then [Suc i] else [])"
| "matches (Cat a b) s i = concat (map (matches b s) (matches a s i))"
| "matches (Alt a b) s i = matches a s i @ matches b s i"
| "matches (Star a) s i = star_ends (matches a s) (length s - i) i"
| "matches Empty s i = [i]"
| "matches (Ahead a) s i = (if matches a s i \<noteq> [] then [i] else [])"
| "matches (NotBehind p) s i = (if 0 < i \<and> p (s ! (i - 1)) then [] else [i])"
| "matches (NotAhead p) s i = (if i < length s \<and> p (s ! i) then [] else [i])"

text \<open>\<open>[m.span() for m in r.finditer(s)]\<close> for a pattern without empty matches.\<close>

fun finditer_from :: "regex \<Rightarrow> ustr \<Rightarrow> nat \<Rightarrow> nat \<Rightarrow> (nat \<times> nat) list" where
  "finditer_from r s 0 i = []"
| "finditer_from r s (Suc n) i =
     (if length s \<le> i then []
      else case matches r s i of
        [] \<Rightarrow> finditer_from r s n (Suc i)
      | j # _ \<Rightarrow> if i < j then (i, j) # finditer_from r s n j else finditer_from r s n (Suc i))"

definition finditer :: "regex \<Rightarrow> ustr \<Rightarrow> (nat \<times> nat) list" where
  "finditer r s = finditer_from r s (length s) 0"

definition slice :: "ustr \<Rightarrow> nat \<times> nat \<Rightarrow> ustr" where
  "slice s p = take (snd p - fst p) (drop (fst p) s)"

definition findall :: "regex \<Rightarrow> ustr \<Rightarrow> ustr list" where
  "findall r s = map (slice s) (finditer r s)"

lemma star_ends_bound:
  assumes "\<And>i j. j \<in> set (f i) \<Longrightarrow> i \<le> n \<Longrightarrow> j \<le> n" "j \<in> set (star_ends f k i)" "i \<le> n"
  shows "i \<le> j \<and> j \<le> n"
  using assms(2,3)
proof (induction k arbitrary: i)
  case (Suc k)
  then consider "j = i" | m where "m \<in> set (f i)" "i < m" "j \<in> set (star_ends f k m)" by auto
  then show ?case
  proof cases
    case 2
    then show ?thesis using Suc.IH [of m] assms(1) Suc.prems(2) by fastforce
  qed (use Suc.prems in simp)
qed simp

lemma matches_bound: "j \<in> set (matches r s i) \<Longrightarrow> i \<le> length s \<Longrightarrow> i \<le> j \<and> j \<le> length s"
proof (induction r arbitrary: i j)
  case (Star r)
  have "j \<in> set (star_ends (matches r s) (length s - i) i)" using Star.prems(1) by simp
  then show ?case
    by (rule star_ends_bound [rotated]) (use Star in \<open>auto dest: Star.IH\<close>)
next
  case (Cat a b)
  then show ?case by simp (metis order_trans)
qed (auto split: if_splits)

lemma finditer_from_bound:
  "p \<in> set (finditer_from r s n i) \<Longrightarrow> i \<le> fst p \<and> fst p < snd p \<and> snd p \<le> length s"
proof (induction n arbitrary: i)
  case (Suc n)
  show ?case
  proof (cases "i < length s")
    case True
    show ?thesis
    proof (cases "matches r s i")
      case Nil
      with Suc True show ?thesis by fastforce
    next
      case (Cons j js)
      then have "j \<le> length s" using matches_bound [of j r s i] True by simp
      with Suc True Cons show ?thesis by (fastforce split: if_splits)
    qed
  qed (use Suc.prems in simp)
qed simp

lemma findall_contained: "t \<in> set (findall r s) \<Longrightarrow> t \<noteq> [] \<and> contains t s"
proof -
  assume "t \<in> set (findall r s)"
  then obtain p where p: "p \<in> set (finditer r s)" "t = slice s p" by (auto simp: findall_def)
  then have b: "fst p < snd p" "snd p \<le> length s"
    using finditer_from_bound [of p r s "length s" 0] by (auto simp: finditer_def)
  have "s = take (fst p) s @ t @ drop (snd p) s"
  proof -
    have "drop (fst p) s = t @ drop (snd p) s"
      using b append_take_drop_id [of "snd p - fst p" "drop (fst p) s"]
      by (simp add: p(2) slice_def)
    then show ?thesis by (metis append_take_drop_id)
  qed
  then have "contains t s" unfolding contains_iff by blast
  with b show "t \<noteq> [] \<and> contains t s" by (simp add: p(2) slice_def)
qed

end
