(* ===== verification/Retrieval_Orchestrator.thy ===== *)
theory Retrieval_Orchestrator
  imports Rank_Fusion Reranking Context_Selection Py_Regex
begin

text \<open>
  Query analysis (analysis.py) and the retrieval run (orchestrator.py in
  backend/app/domain/rag/retrieval). The retrievers, the query rewriter and the reranker are
  ports: functions that return their answer or raise an exception, which the orchestrator sees
  as a class name with the names of its base classes.
\<close>

subsection \<open>Query analysis\<close>

definition ascii_upper :: "nat \<Rightarrow> bool" where "ascii_upper c \<longleftrightarrow> 65 \<le> c \<and> c \<le> 90"
definition ascii_lower :: "nat \<Rightarrow> bool" where "ascii_lower c \<longleftrightarrow> 97 \<le> c \<and> c \<le> 122"
definition ascii_digit :: "nat \<Rightarrow> bool" where "ascii_digit c \<longleftrightarrow> 48 \<le> c \<and> c \<le> 57"
definition ascii_letter :: "nat \<Rightarrow> bool" where "ascii_letter c \<longleftrightarrow> ascii_upper c \<or> ascii_lower c"
definition one_of :: "string \<Rightarrow> nat \<Rightarrow> bool" where "one_of s c \<longleftrightarrow> c \<in> set (lit s)"

definition unicode_digit :: "unicode_db \<Rightarrow> regex" where
  "unicode_digit u = Cls (\<lambda>c. u_decimal u c \<noteq> None)"

definition exact_term_pattern :: "unicode_db \<Rightarrow> regex" where
  "exact_term_pattern u =
     seq_of
      [NotBehind (u_isword u),
       any_of
        [seq_of [Cls (\<lambda>c. ascii_letter c \<or> one_of ''_'' c),
                 Star (Cls (\<lambda>c. ascii_letter c \<or> ascii_digit c \<or> one_of ''_.:-'' c)),
                 Ahead (Word_re (lit ''()''))],
         seq_of [Word_re (lit ''HTTP''), Cls (one_of ''- ''), Times 3 (unicode_digit u)],
         seq_of [Plus (unicode_digit u), Plus (Cat (Cls (one_of ''.'')) (Plus (unicode_digit u)))],
         seq_of [Word_re (lit ''E''), Times 3 (unicode_digit u), Star (unicode_digit u)],
         seq_of [Cls ascii_upper, Star (Cls (\<lambda>c. ascii_letter c \<or> ascii_digit c)),
                 any_of [Word_re (lit ''Error''), Word_re (lit ''Exception''), Word_re (lit ''Failure'')]],
         seq_of [Cls ascii_upper, Star (Cls (\<lambda>c. ascii_upper c \<or> ascii_digit c)),
                 Plus (Cat (Cls (one_of ''_-'')) (Plus (Cls (\<lambda>c. ascii_upper c \<or> ascii_digit c))))],
         seq_of [Cls ascii_letter, Star (Cls (\<lambda>c. ascii_letter c \<or> ascii_digit c \<or> one_of ''_'' c)),
                 Cls (one_of ''.''),
                 Plus (Cls (\<lambda>c. ascii_letter c \<or> ascii_digit c \<or> one_of ''_.'' c))]],
       Opt (Word_re (lit ''()'')),
       NotAhead (u_isword u)]"

definition removesuffix :: "ustr \<Rightarrow> ustr \<Rightarrow> ustr" where
  "removesuffix suf s =
     (if suf \<noteq> [] \<and> suffix suf s then take (length s - length suf) s else s)"

definition exact_terms_of :: "unicode_db \<Rightarrow> ustr \<Rightarrow> ustr list" where
  "exact_terms_of u s = fromkeys (map (removesuffix (lit ''()'')) (findall (exact_term_pattern u) s))"

definition analyze :: "unicode_db \<Rightarrow> ustr \<Rightarrow> string + query_analysis" where
  "analyze u query =
     (let normalized = norm_ws query
      in if normalized = [] then Inl ''retrieval query is required''
         else Inr \<lparr>qa_original_query = strip query, qa_normalized_query = normalized,
           qa_tokens = runs_of (\<lambda>c. u_isword u c \<or> one_of ''.:-'' c) normalized,
           qa_exact_terms = exact_terms_of u normalized\<rparr>)"

subsection \<open>Ports\<close>

type_synonym retriever_port =
  "retrieval_request \<Rightarrow> ustr \<Rightarrow> query_analysis \<Rightarrow> port_error + retrieval_candidate list"

type_synonym rewriter_port = "query_analysis \<Rightarrow> port_error + ustr list"

record orchestrator =
  ro_vector :: retriever_port
  ro_keyword :: retriever_port
  ro_metadata :: retriever_port
  ro_rewriter :: "rewriter_port option"
  ro_rrf_k :: int
  ro_reranker :: reranker_port
  ro_rerank_timeout_ms :: int
  ro_selection :: selection_config

definition check_orchestrator :: "orchestrator \<Rightarrow> string + orchestrator" where
  "check_orchestrator orc =
     (if ro_rerank_timeout_ms orc \<le> 0 then Inl ''rerank_timeout_ms must be positive'' else Inr orc)"

subsection \<open>The run\<close>

definition queries_of :: "orchestrator \<Rightarrow> query_analysis \<Rightarrow> ustr list \<times> rewrite_trace" where
  "queries_of orc a =
     (case ro_rewriter orc of
        None \<Rightarrow> ([qa_normalized_query a],
          \<lparr>rw_status = RwNotConfigured, rw_rewritten_queries = [], rw_error_code = None\<rparr>)
      | Some rewrite \<Rightarrow>
         (case rewrite a of
            Inl _ \<Rightarrow> ([qa_normalized_query a],
              \<lparr>rw_status = RwFailed, rw_rewritten_queries = [],
               rw_error_code = Some ''query_rewrite_failed''\<rparr>)
          | Inr values \<Rightarrow>
             (let rewritten = fromkeys (filter (\<lambda>n. n \<noteq> [] \<and> n \<noteq> qa_normalized_query a)
                    (map norm_ws values))
              in (qa_normalized_query a # rewritten,
                  \<lparr>rw_status = RwSucceeded, rw_rewritten_queries = rewritten,
                   rw_error_code = None\<rparr>))))"

definition source_error_code :: "port_error \<Rightarrow> string" where
  "source_error_code e =
     (if class_name e = ''EmbeddingUnavailable'' then ''embedding_unavailable''
      else if ''SQLAlchemyError'' \<in> set (mro_names e) then ''retrieval_database_error''
      else ''retrieval_source_error'')"

definition retrieve_source ::
  "retrieval_source \<Rightarrow> retriever_port \<Rightarrow> retrieval_request \<Rightarrow> ustr \<Rightarrow> query_analysis
     \<Rightarrow> retrieval_candidate list \<times> source_trace" where
  "retrieve_source src retriever req query a =
     (case retriever req query a of
        Inl e \<Rightarrow> ([], \<lparr>st_source = src, st_query = query, st_status = AttFailed,
                   st_candidate_ids = [], st_error_code = Some (source_error_code e)\<rparr>)
      | Inr cs \<Rightarrow> (cs, \<lparr>st_source = src, st_query = query, st_status = AttSucceeded,
                   st_candidate_ids = map rc_chunk_id cs, st_error_code = None\<rparr>))"

definition attempts_of ::
  "orchestrator \<Rightarrow> retrieval_request \<Rightarrow> query_analysis \<Rightarrow> ustr list
     \<Rightarrow> (retrieval_source \<times> retrieval_candidate list \<times> source_trace) list" where
  "attempts_of orc req a queries =
     map (\<lambda>q. (SrcVector, retrieve_source SrcVector (ro_vector orc) req q a)) queries
   @ map (\<lambda>q. (SrcKeyword, retrieve_source SrcKeyword (ro_keyword orc) req q a)) queries
   @ [(SrcMetadata, retrieve_source SrcMetadata (ro_metadata orc) req (hd queries) a)]"

definition candidates_of ::
  "(retrieval_source \<times> retrieval_candidate list \<times> source_trace) list \<Rightarrow> retrieval_source
     \<Rightarrow> retrieval_candidate list" where
  "candidates_of runs src = concat (map (fst \<circ> snd) (filter (\<lambda>r. fst r = src) runs))"

definition status_of ::
  "retrieval_request \<Rightarrow> retrieval_candidate list \<Rightarrow> source_trace list \<Rightarrow> retrieval_status" where
  "status_of req cands attempts =
     (let substantive = filter (\<lambda>t. st_source t \<noteq> SrcMetadata
            \<or> has_metadata_constraints (rq_filters req)) attempts
      in if cands \<noteq> [] then Grounded
         else if list_ex (\<lambda>t. st_status t = AttSucceeded) substantive then NoContext
         else RetrievalFailed)"

definition error_code_of :: "retrieval_status \<Rightarrow> source_trace list \<Rightarrow> string option" where
  "error_code_of st attempts =
     (if st \<noteq> RetrievalFailed then None
      else case filter (\<lambda>t. st_error_code t \<noteq> None \<and> st_error_code t \<noteq> Some []) attempts of
        [] \<Rightarrow> Some ''retrieval_failed'' | t # _ \<Rightarrow> st_error_code t)"

datatype retrieve_error = QueryRequired string | SelectionRaised selection_error

definition retrieve ::
  "unicode_db \<Rightarrow> orchestrator \<Rightarrow> retrieval_request \<Rightarrow> retrieve_error + retrieval_result" where
  "retrieve u orc req =
     (case analyze u (rq_query req) of
        Inl msg \<Rightarrow> Inl (QueryRequired msg)
      | Inr a \<Rightarrow>
         (let (queries, rewrite) = queries_of orc a;
              runs = attempts_of orc req a queries;
              attempts = map (snd \<circ> snd) runs;
              lists = map (\<lambda>src. (src, candidates_of runs src)) [SrcVector, SrcKeyword, SrcMetadata];
              fused = fuse (ro_rrf_k orc) lists;
              (reranked, rstatus, reasons) =
                rerank_with_fallback (ro_reranker orc) req fused (ro_rerank_timeout_ms orc)
          in case select u (ro_selection orc) reranked of
               Inl e \<Rightarrow> Inl (SelectionRaised e)
             | Inr selected \<Rightarrow>
                (let st = status_of req (all_candidates lists) attempts;
                     trace =
                       \<lparr>rt_original_query = qa_original_query a,
                        rt_normalized_query = qa_normalized_query a,
                        rt_exact_terms = qa_exact_terms a, rt_queries = queries,
                        rt_rewrite = rewrite, rt_source_attempts = attempts,
                        rt_fused_candidates = fused, rt_reranked_candidates = reranked,
                        rt_selected_candidates = selected,
                        rt_selected_char_count = context_char_count (ro_selection orc) selected,
                        rt_rerank_status = rstatus, rt_fallback_reasons = reasons\<rparr>
                 in Inr \<lparr>rr_status = st, rr_request = req, rr_analysis = a, rr_queries = queries,
                      rr_candidates_by_source = lists, rr_fused_candidates = fused,
                      rr_reranked_candidates = reranked, rr_selected_candidates = selected,
                      rr_trace = trace, rr_error_code = error_code_of st attempts\<rparr>)))"

subsection \<open>Lemmas\<close>

lemma exact_terms_contained:
  assumes "t \<in> set (exact_terms_of u s)" shows "contains t s"
proof -
  obtain m where m: "m \<in> set (findall (exact_term_pattern u) s)" "t = removesuffix (lit ''()'') m"
    using assms by (auto simp: exact_terms_of_def)
  have "prefix t m" by (simp add: m(2) removesuffix_def take_is_prefix)
  then obtain r where r: "m = t @ r" by (auto simp: prefix_def)
  obtain x y where "s = x @ m @ y" using findall_contained [OF m(1)] by (auto simp: contains_iff)
  with r show ?thesis unfolding contains_iff by auto
qed

text \<open>What a returned result was built from.\<close>

lemma retrieve_parts:
  assumes "retrieve u orc req = Inr res"
  obtains a queries rw runs attempts lists where
    "analyze u (rq_query req) = Inr a" "queries_of orc a = (queries, rw)"
    "runs = attempts_of orc req a queries" "attempts = map (snd \<circ> snd) runs"
    "lists = map (\<lambda>src. (src, candidates_of runs src)) [SrcVector, SrcKeyword, SrcMetadata]"
    "rr_candidates_by_source res = lists" "rr_fused_candidates res = fuse (ro_rrf_k orc) lists"
    "rt_source_attempts (rr_trace res) = attempts"
    "rerank_with_fallback (ro_reranker orc) req (rr_fused_candidates res) (ro_rerank_timeout_ms orc)
       = (rr_reranked_candidates res, rt_rerank_status (rr_trace res), rt_fallback_reasons (rr_trace res))"
    "select u (ro_selection orc) (rr_reranked_candidates res) = Inr (rr_selected_candidates res)"
    "rr_status res = status_of req (all_candidates lists) attempts"
    "rr_error_code res = error_code_of (rr_status res) attempts"
proof -
  from assms obtain a where a: "analyze u (rq_query req) = Inr a"
    by (auto simp: retrieve_def split: sum.splits)
  obtain queries rw where q: "queries_of orc a = (queries, rw)" by fastforce
  show thesis
    by (rule that [OF a q refl refl refl])
       (use assms a q in \<open>auto simp: retrieve_def Let_def split: prod.splits sum.splits\<close>)
qed

lemma retrieve_source_cases:
  "(\<exists>e. retrieve_source src r req q a = ([], \<lparr>st_source = src, st_query = q, st_status = AttFailed,
        st_candidate_ids = [], st_error_code = Some (source_error_code e)\<rparr>))
   \<or> (\<exists>cs. r req q a = Inr cs \<and> retrieve_source src r req q a =
        (cs, \<lparr>st_source = src, st_query = q, st_status = AttSucceeded,
           st_candidate_ids = map rc_chunk_id cs, st_error_code = None\<rparr>))"
  by (auto simp: retrieve_source_def split: sum.splits)

lemma source_error_code_nonempty: "source_error_code e \<noteq> []"
  by (simp add: source_error_code_def)

lemma attempt_member:
  "(src, cs, t) \<in> set (attempts_of orc req a queries) \<Longrightarrow>
     st_source t = src \<and> (st_status t = AttFailed \<longleftrightarrow> st_error_code t \<noteq> None)
   \<and> st_error_code t \<noteq> Some [] \<and> st_candidate_ids t = map rc_chunk_id cs"
  unfolding attempts_of_def
  by (auto simp: retrieve_source_def source_error_code_nonempty split: sum.splits)

lemma all_candidates_runs:
  "set (all_candidates (map (\<lambda>src. (src, candidates_of runs src)) [SrcVector, SrcKeyword, SrcMetadata]))
   = (\<Union>r \<in> set runs. set (fst (snd r)))"
proof -
  have "fst r = SrcVector \<or> fst r = SrcKeyword \<or> fst r = SrcMetadata"
    for r :: "retrieval_source \<times> retrieval_candidate list \<times> source_trace"
    by (cases "fst r") auto
  then have "runs = runs \<and> (\<Union>r \<in> set runs. set (fst (snd r)))
      = (\<Union>src \<in> {SrcVector, SrcKeyword, SrcMetadata}. \<Union>r \<in> {r \<in> set runs. fst r = src}. set (fst (snd r)))"
    by blast
  then show ?thesis by (simp add: all_candidates_def dict_values_def candidates_of_def Un_assoc)
qed

lemma status_of_cases:
  "status_of req cands attempts =
     (if cands \<noteq> [] then Grounded
      else if \<exists>t \<in> set attempts. st_status t = AttSucceeded
          \<and> (st_source t \<noteq> SrcMetadata \<or> has_metadata_constraints (rq_filters req)) then NoContext
      else RetrievalFailed)"
  by (auto simp: status_of_def list_ex_iff)

lemma reranked_from_fused:
  assumes "retrieve u orc req = Inr res" "c \<in> set (rr_reranked_candidates res)"
  obtains f where "f \<in> set (rr_fused_candidates res)" "unscored c = unscored f"
proof -
  from assms(1) obtain lists where fused: "rr_fused_candidates res = fuse (ro_rrf_k orc) lists"
    and rr: "rerank_with_fallback (ro_reranker orc) req (rr_fused_candidates res)
      (ro_rerank_timeout_ms orc) = (rr_reranked_candidates res,
        rt_rerank_status (rr_trace res), rt_fallback_reasons (rr_trace res))"
    by (rule retrieve_parts)
  have "distinct (map fc_chunk_id (rr_fused_candidates res))" using fuse_ids(1) by (simp add: fused)
  from fallback_permutes [OF this rr]
  have "set (map unscored (rr_reranked_candidates res)) = set (map unscored (rr_fused_candidates res))"
    by (metis set_mset_mset)
  with assms(2) that show thesis by (auto simp: image_iff set_eq_iff)
qed

lemma retrieve_ok:
  assumes "norm_ws (rq_query req) \<noteq> []"
    and "\<forall>r \<in> {ro_vector orc, ro_keyword orc, ro_metadata orc}. \<forall>q a cs.
           r req q a = Inr cs \<longrightarrow> (\<forall>c \<in> set cs. is_ok (chunk_index u (rc_metadata c)))"
  shows "\<exists>res. retrieve u orc req = Inr res"
proof -
  obtain a where a: "analyze u (rq_query req) = Inr a"
    using assms(1) by (simp add: analyze_def Let_def)
  obtain queries rw where q: "queries_of orc a = (queries, rw)" by fastforce
  let ?runs = "attempts_of orc req a queries"
  let ?lists = "map (\<lambda>src. (src, candidates_of ?runs src)) [SrcVector, SrcKeyword, SrcMetadata]"
  let ?fused = "fuse (ro_rrf_k orc) ?lists"
  obtain out st why where rr: "rerank_with_fallback (ro_reranker orc) req ?fused
      (ro_rerank_timeout_ms orc) = (out, st, why)" by (metis surj_pair)
  have readable: "is_ok (chunk_index u (rc_metadata d))" if d: "d \<in> set (all_candidates ?lists)" for d
  proof -
    from d obtain src cs t where "(src, cs, t) \<in> set ?runs" "d \<in> set cs"
      unfolding all_candidates_runs by (auto simp: split_paired_all)
    then show ?thesis
      using assms(2) unfolding attempts_of_def
      by (auto simp: retrieve_source_def split: sum.splits)
  qed
  have "is_ok (chunk_index u (fc_metadata c))" if c: "c \<in> set out" for c
  proof -
    have "set (map unscored out) = set (map unscored ?fused)"
      using fallback_permutes [OF fuse_ids(1) rr] by (metis set_mset_mset)
    then obtain f where f: "f \<in> set ?fused" "unscored c = unscored f"
      using c by (auto simp: image_iff set_eq_iff)
    have "fc_metadata f = fc_metadata c"
      using f(2) by (cases c; cases f; simp add: unscored_def)
    moreover from f(1) obtain d where "d \<in> set (all_candidates ?lists)" "rc_metadata d = fc_metadata f"
      by (rule fuse_source)
    ultimately show ?thesis using readable by metis
  qed
  then obtain selected where "select u (ro_selection orc) out = Inr selected"
    using select_returns by blast
  with a q rr show ?thesis by (simp add: retrieve_def Let_def)
qed

subsection \<open>Properties\<close>

text \<open>A run reports \<open>grounded\<close> exactly when some retriever returned a candidate, \<open>no_context\<close>
  when none did although an attempt that counts succeeded (the metadata attempt counts only when
  the request has metadata constraints), and \<open>failed\<close> otherwise; it carries an error code exactly
  when it failed.\<close>

theorem retrieve_status:
  assumes "retrieve u orc req = Inr res"
  shows "(rr_status res = Grounded \<longleftrightarrow> all_candidates (rr_candidates_by_source res) \<noteq> [])
       \<and> (rr_status res = NoContext \<longleftrightarrow> all_candidates (rr_candidates_by_source res) = []
            \<and> (\<exists>t \<in> set (rt_source_attempts (rr_trace res)). st_status t = AttSucceeded
                 \<and> (st_source t \<noteq> SrcMetadata \<or> has_metadata_constraints (rq_filters req))))
       \<and> (rr_error_code res \<noteq> None \<longleftrightarrow> rr_status res = RetrievalFailed)"
proof -
  from assms obtain lists attempts where
    "rr_candidates_by_source res = lists" "rt_source_attempts (rr_trace res) = attempts"
    "rr_status res = status_of req (all_candidates lists) attempts"
    "rr_error_code res = error_code_of (rr_status res) attempts"
    by (rule retrieve_parts)
  then show ?thesis
    by (auto simp: status_of_cases error_code_of_def filter_eq_Cons_iff split: list.splits)
qed

text \<open>C1. End to end, with arbitrary retrievers, rewriter and reranker: every selected chunk has
  the content, document and label of a candidate that one of the recorded attempts returned, no
  chunk is selected twice, and the selection keeps both configured limits, the number of chunks and
  the characters of the joined context.\<close>

theorem retrieve_selected_sound:
  assumes "retrieve u orc req = Inr res" "c \<in> set (rr_selected_candidates res)"
  shows "(\<exists>d \<in> set (all_candidates (rr_candidates_by_source res)).
            rc_chunk_id d = fc_chunk_id c \<and> rc_document_id d = fc_document_id c
          \<and> rc_content d = fc_content c \<and> rc_citation_label d = fc_citation_label c)
       \<and> (\<exists>t \<in> set (rt_source_attempts (rr_trace res)). fc_chunk_id c \<in> set (st_candidate_ids t))
       \<and> distinct (map fc_chunk_id (rr_selected_candidates res))
       \<and> int (length (rr_selected_candidates res)) \<le> max 0 (max_chunks (ro_selection orc))
       \<and> int (context_char_count (ro_selection orc) (rr_selected_candidates res))
           \<le> max 0 (char_budget (ro_selection orc))"
proof -
  from assms(1) obtain a queries runs attempts lists where
    runs: "runs = attempts_of orc req a queries" "attempts = map (snd \<circ> snd) runs"
    and lists: "lists = map (\<lambda>src. (src, candidates_of runs src)) [SrcVector, SrcKeyword, SrcMetadata]"
      "rr_candidates_by_source res = lists" "rr_fused_candidates res = fuse (ro_rrf_k orc) lists"
      "rt_source_attempts (rr_trace res) = attempts"
    and sel: "select u (ro_selection orc) (rr_reranked_candidates res) = Inr (rr_selected_candidates res)"
    by (rule retrieve_parts)
  note limits = select_bounds [OF sel]
  then have "c \<in> set (rr_reranked_candidates res)" using assms(2) by blast
  then obtain f where f: "f \<in> set (rr_fused_candidates res)" "unscored c = unscored f"
    using assms(1) by (blast elim: reranked_from_fused)
  have same: "fc_chunk_id f = fc_chunk_id c" "fc_document_id f = fc_document_id c"
    "fc_content f = fc_content c" "fc_citation_label f = fc_citation_label c"
    using f(2) by (cases c; cases f; simp add: unscored_def)+
  from f(1) obtain d where d: "d \<in> set (all_candidates lists)" "rc_chunk_id d = fc_chunk_id f"
    "rc_document_id d = fc_document_id f" "rc_content d = fc_content f"
    "rc_citation_label d = fc_citation_label f"
    unfolding lists(3) by (rule fuse_source)
  from d(1) obtain src cs t where run: "(src, cs, t) \<in> set runs" "d \<in> set cs"
    unfolding lists(1) all_candidates_runs by (auto simp: split_paired_all)
  then have "st_candidate_ids t = map rc_chunk_id cs"
    using attempt_member [of src cs t orc req a queries] runs by simp
  moreover have "t \<in> set attempts" using run runs(2) by force
  moreover have "fc_chunk_id c \<in> rc_chunk_id ` set cs" using run(2) d(2) same(1) by (metis image_eqI)
  ultimately have "\<exists>t \<in> set attempts. fc_chunk_id c \<in> set (st_candidate_ids t)"
    by (intro bexI [of _ t]) simp_all
  with d same lists limits show ?thesis by auto
qed

text \<open>Failing ports never make the run raise: with a query that is not blank and readable
  chunk indexes in the candidates, \<open>retrieve\<close> returns a result whatever the retrievers, the
  rewriter and the reranker do, and a failed rewriter leaves exactly the normalised query.\<close>

theorem retrieve_returns:
  assumes "norm_ws (rq_query req) \<noteq> []"
    and "\<forall>r \<in> {ro_vector orc, ro_keyword orc, ro_metadata orc}. \<forall>q a cs.
           r req q a = Inr cs \<longrightarrow> (\<forall>c \<in> set cs. is_ok (chunk_index u (rc_metadata c)))"
  shows "\<exists>res. retrieve u orc req = Inr res"
  using retrieve_ok [OF assms] .

subsection \<open>Instances\<close>

definition refusing :: retriever_port where
  "refusing req q a = Inl (PortError ''OperationalError'' [''OperationalError'', ''SQLAlchemyError''])"

definition sample_orchestrator :: "retriever_port \<Rightarrow> orchestrator" where
  "sample_orchestrator vector =
     \<lparr>ro_vector = vector, ro_keyword = refusing, ro_metadata = refusing, ro_rewriter = None,
      ro_rrf_k = 60, ro_reranker = noop_rerank (\<lambda>_. 0), ro_rerank_timeout_ms = 100,
      ro_selection = default_selection_config\<rparr>"

definition one_hit :: retriever_port where
  "one_hit req q a = Inr [sample_candidate ''a'' ''d'' (lit ''x'') SrcVector 1]"

lemmas retrieval_eval = retrieve_def analyze_def sample_request_def norm_ws_def split_ws_def lit_def
  py_isspace_def queries_of_def attempts_of_def retrieve_source_def sample_orchestrator_def
  refusing_def candidates_of_def fuse_def all_candidates_def dict_values_def rerank_with_fallback_def
  select_def selection_order_def status_of_def error_code_of_def source_error_code_def Let_def

lemma retrieve_status_witness:
  "\<exists>res. retrieve ascii_db (sample_orchestrator refusing) sample_request = Inr res
     \<and> rr_status res = RetrievalFailed \<and> rr_error_code res \<noteq> None"
proof -
  obtain res where res: "retrieve ascii_db (sample_orchestrator refusing) sample_request = Inr res"
    and st: "rr_status res = RetrievalFailed"
    by (simp add: retrieval_eval default_selection_config_def has_metadata_constraints_def)
  with retrieve_status [OF res] show ?thesis by blast
qed

lemma fuse_single:
  "fuse 60 [(SrcVector, [c]), (SrcKeyword, []), (SrcMetadata, [])] = [number_fused (1, fuse_group 60 (rc_chunk_id c, [c]))]"
  by (simp add: fuse_def all_candidates_def dict_values_def best_occurrences_def keep_best_def
      group_by_def dict_append_def)

lemma noop_single:
  "rerank_with_fallback (noop_rerank (\<lambda>_. 0)) req [c] 100
     = ([with_rank (fc_rrf_score c) 1 c], RerankSucceeded, [])"
  by (simp add: rerank_with_fallback_def checked_rerank_def noop_rerank_def deadline_ns_def
      check_deadline_def fused_by_id_def dict_of_def ids_acceptable_def dict_keys_def)

lemma select_single:
  "length (fc_content c) \<le> 6000 \<Longrightarrow> select u default_selection_config [c] = Inr [c]"
  by (simp add: select_def selection_order_def default_selection_config_def context_char_count_def
      added_chars_def)

lemma retrieve_selected_sound_witness:
  "\<exists>res c. retrieve ascii_db (sample_orchestrator one_hit) sample_request = Inr res
     \<and> rr_selected_candidates res = [c]
     \<and> (\<exists>d \<in> set (all_candidates (rr_candidates_by_source res)). rc_content d = fc_content c)"
proof -
  have cand: "candidates_of (attempts_of (sample_orchestrator one_hit) req a [q]) src
      = (if src = SrcVector then [sample_candidate ''a'' ''d'' (lit ''x'') SrcVector 1] else [])" for req a q src
    by (cases src) (simp_all add: candidates_of_def attempts_of_def sample_orchestrator_def one_hit_def
        retrieve_source_def refusing_def)
  have fields: "ro_rewriter (sample_orchestrator v) = None" "ro_rrf_k (sample_orchestrator v) = 60"
    "ro_reranker (sample_orchestrator v) = noop_rerank (\<lambda>_. 0)"
    "ro_rerank_timeout_ms (sample_orchestrator v) = 100"
    "ro_selection (sample_orchestrator v) = default_selection_config" for v
    by (simp_all add: sample_orchestrator_def)
  obtain res c where res: "retrieve ascii_db (sample_orchestrator one_hit) sample_request = Inr res"
    and sel: "rr_selected_candidates res = [c]"
    by (simp add: retrieve_def analyze_def sample_request_def norm_ws_def split_ws_def lit_def
        py_isspace_def queries_of_def Let_def cand fields fuse_single noop_single
        select_single fuse_group_def number_fused_def sample_candidate_def with_rank_def)
  with retrieve_selected_sound [OF res, of c] show ?thesis by auto
qed

lemma retrieve_returns_witness:
  "\<exists>res. retrieve ascii_db (sample_orchestrator one_hit) sample_request = Inr res"
  by (rule retrieve_returns)
     (auto simp: sample_orchestrator_def one_hit_def refusing_def sample_request_def norm_ws_def
       split_ws_def lit_def py_isspace_def sample_candidate_def chunk_index_def meta_get_def)

end
