(* ===== verification/Chunk_Domain.thy ===== *)
theory Chunk_Domain
  imports Py_Regex
begin

text \<open>
  The data model of the hybrid chunker (backend/app/domain/rag/chunking/v3/domain.py, the
  configuration of config.py) over the parsed blocks of
  backend/app/services/document_parsing/models.py, and the two small services the stages share:
  the renderer (renderer.py) and the checker of adjacent relations (relations.py).

  The metadata of a structural unit is the dump of its block, so a unit keeps the block itself;
  of the metadata of a chunk the size guard writes only its own entry, the record
  \<open>size_meta\<close>. The token counter is a port, a function \<open>ustr \<Rightarrow> nat\<close>. A violated invariant
  (\<open>HybridChunkingInvariantViolation\<close>) is \<open>Inl\<close> of its message.
\<close>

subsection \<open>Parsed blocks\<close>

datatype file_type = FtPdf | FtPptx | FtImage | FtText

datatype block_type =
    BtHeading | BtParagraph | BtListItem | BtCode | BtTable | BtImageDescription
  | BtSlideTitle | BtSlideBody | BtUnknown

fun file_type_value :: "file_type \<Rightarrow> string" where
  "file_type_value FtPdf = ''pdf''"
| "file_type_value FtPptx = ''pptx''"
| "file_type_value FtImage = ''image''"
| "file_type_value FtText = ''text''"

fun block_type_value :: "block_type \<Rightarrow> string" where
  "block_type_value BtHeading = ''heading''"
| "block_type_value BtParagraph = ''paragraph''"
| "block_type_value BtListItem = ''list_item''"
| "block_type_value BtCode = ''code''"
| "block_type_value BtTable = ''table''"
| "block_type_value BtImageDescription = ''image_description''"
| "block_type_value BtSlideTitle = ''slide_title''"
| "block_type_value BtSlideBody = ''slide_body''"
| "block_type_value BtUnknown = ''unknown''"

lemma block_type_value_inject [simp]: "block_type_value a = block_type_value b \<longleftrightarrow> a = b"
  by (cases a; cases b) simp_all

lemma block_type_value_code [simp]:
  "block_type_value b = ''code'' \<longleftrightarrow> b = BtCode" "block_type_value b = ''table'' \<longleftrightarrow> b = BtTable"
  by (cases b; simp)+

record document_block =
  db_file_type :: file_type
  db_page_number :: int
  db_block_index :: int
  db_text :: ustr
  db_processing_mode :: string
  db_source_element :: string
  db_block_type :: block_type
  db_heading_level :: "nat option"
  db_bbox :: "(pyfloat \<times> pyfloat \<times> pyfloat \<times> pyfloat) option"
  db_reading_order :: "int option"
  db_structure_confidence :: "pyfloat option"
  db_source_char_start :: "int option"
  db_source_char_end :: "int option"
  db_source_format :: "string option"

subsection \<open>Units, regions, segments and chunks\<close>

datatype boundary_strength = Hard | Strong | Soft

fun boundary_strength_value :: "boundary_strength \<Rightarrow> string" where
  "boundary_strength_value Hard = ''hard''"
| "boundary_strength_value Strong = ''strong''"
| "boundary_strength_value Soft = ''soft''"

record structural_unit =
  su_unit_id :: string
  su_text :: ustr
  su_block_type :: block_type
  su_page_number :: int
  su_block_index :: int
  su_heading_path :: "ustr list"
  su_bbox :: "(pyfloat \<times> pyfloat \<times> pyfloat \<times> pyfloat) option"
  su_reading_order :: int
  su_structure_confidence :: "pyfloat option"
  su_block :: document_block
  su_slide_context :: "ustr option"

record structural_region =
  sr_region_id :: string
  sr_heading_path :: "ustr list"
  sr_units :: "structural_unit list"
  sr_region_type :: string
  sr_boundary_before :: boundary_strength
  sr_boundary_after :: boundary_strength

record semantic_unit =
  mu_unit_id :: string
  mu_text :: ustr
  mu_source_unit_ids :: "string list"
  mu_page_start :: int
  mu_page_end :: int
  mu_heading_path :: "ustr list"
  mu_block_type :: block_type
  mu_order :: nat

record semantic_boundary =
  sb_left_unit_id :: string
  sb_right_unit_id :: string
  sb_local_similarity :: pyfloat
  sb_adjacent_similarity :: pyfloat
  sb_continuation_score :: pyfloat
  sb_continuation_reasons :: "string list"
  sb_boundary_score :: pyfloat
  sb_adaptive_threshold :: "pyfloat option"
  sb_selected :: bool

record semantic_segment =
  sg_units :: "semantic_unit list"
  sg_boundary_before :: "semantic_boundary option"
  sg_boundary_after :: "semantic_boundary option"

definition segment_boundaries :: "semantic_segment \<Rightarrow> semantic_boundary list" where
  "segment_boundaries s = (case sg_boundary_after s of None \<Rightarrow> [] | Some b \<Rightarrow> [b])"

record semantic_segmentation =
  sn_segments :: "semantic_segment list"
  sn_region_id :: string
  sn_boundaries :: "semantic_boundary list"

record size_counts =
  sc_min_tokens :: int
  sc_target_tokens :: int
  sc_max_tokens :: int
  sc_token_count :: nat

record size_meta =
  sm_action :: string
  sm_counts :: "size_counts option"

record chunk_candidate =
  cc_content :: ustr
  cc_chunk_type :: string
  cc_heading_path :: "ustr list"
  cc_source_unit_ids :: "string list"
  cc_page_start :: int
  cc_page_end :: int
  cc_metadata :: size_meta
  cc_boundaries :: "semantic_boundary list"

subsection \<open>Policies\<close>

record semantic_policy =
  sp_window_size :: int
  sp_min_boundary_samples :: int
  sp_mad_multiplier :: pyfloat
  sp_local_window_weight :: pyfloat
  sp_adjacent_weight :: pyfloat
  sp_relation_penalty_weight :: pyfloat
  sp_max_semantic_units :: int
  sp_max_semantic_unit_chars :: int

definition default_semantic_policy :: semantic_policy where
  "default_semantic_policy =
     \<lparr>sp_window_size = 2, sp_min_boundary_samples = 5, sp_mad_multiplier = 3 / 2,
      sp_local_window_weight = 65 / 100, sp_adjacent_weight = 35 / 100,
      sp_relation_penalty_weight = 20 / 100, sp_max_semantic_units = 10000,
      sp_max_semantic_unit_chars = 2000\<rparr>"

definition check_semantic_policy :: "semantic_policy \<Rightarrow> string + semantic_policy" where
  "check_semantic_policy p =
     (if list_ex (\<lambda>v. v \<le> 0) [sp_window_size p, sp_min_boundary_samples p,
           sp_max_semantic_units p, sp_max_semantic_unit_chars p]
      then Inl ''semantic controls must be positive integers''
      else if sp_mad_multiplier p \<le> 0
      then Inl ''mad_multiplier must be a positive finite number''
      else if list_ex (\<lambda>v. \<not> (0 \<le> v \<and> v \<le> 1)) [sp_local_window_weight p, sp_adjacent_weight p,
           sp_relation_penalty_weight p]
      then Inl ''semantic weights must be between 0 and 1''
      else if sp_local_window_weight p + sp_adjacent_weight p \<le> 0
      then Inl ''at least one similarity weight must be positive''
      else Inr p)"

record size_policy =
  zp_min_tokens :: int
  zp_target_tokens :: int
  zp_max_tokens :: int

definition default_size_policy :: size_policy where
  "default_size_policy = \<lparr>zp_min_tokens = 120, zp_target_tokens = 320, zp_max_tokens = 512\<rparr>"

definition check_size_policy :: "size_policy \<Rightarrow> string + size_policy" where
  "check_size_policy p =
     (if list_ex (\<lambda>v. v \<le> 0) [zp_min_tokens p, zp_target_tokens p, zp_max_tokens p]
      then Inl ''size controls must be positive integers''
      else if \<not> (zp_min_tokens p \<le> zp_target_tokens p \<and> zp_target_tokens p \<le> zp_max_tokens p)
      then Inl ''size controls must satisfy min_tokens <= target_tokens <= max_tokens''
      else Inr p)"

record hybrid_policy =
  hp_semantic :: semantic_policy
  hp_size :: size_policy
  hp_include_heading_context :: bool
  hp_semantic_batch_size :: int
  hp_policy_version :: ustr
  hp_tokenizer_id :: ustr

definition check_hybrid_policy :: "hybrid_policy \<Rightarrow> string + hybrid_policy" where
  "check_hybrid_policy p =
     (if hp_semantic_batch_size p \<le> 0
      then Inl ''semantic_batch_size must be a positive integer'' else Inr p)"

definition default_hybrid_policy :: hybrid_policy where
  "default_hybrid_policy =
     \<lparr>hp_semantic = default_semantic_policy, hp_size = default_size_policy,
      hp_include_heading_context = True, hp_semantic_batch_size = 64,
      hp_policy_version = lit ''hybrid-v3.1'', hp_tokenizer_id = lit ''cl100k_base''\<rparr>"

subsection \<open>Rendering\<close>

definition stripped_texts :: "semantic_unit list \<Rightarrow> ustr list" where
  "stripped_texts us = filter (\<lambda>t. t \<noteq> []) (map (strip \<circ> mu_text) us)"

definition render :: "bool \<Rightarrow> semantic_unit list \<Rightarrow> ustr" where
  "render include_heading us =
     (case us of [] \<Rightarrow> []
      | first # _ \<Rightarrow>
         (let body = join [10, 10] (stripped_texts us)
          in if mu_block_type first = BtCode \<or> mu_block_type first = BtTable then body
             else (let heading = if include_heading then join [10] (mu_heading_path first) else []
                   in if heading \<noteq> [] then heading @ [10, 10] @ body else body)))"

subsection \<open>Adjacent relations\<close>

text \<open>The discourse markers of relations.py, the Chinese ones by their code points.\<close>

definition relation_markers :: "ustr list" where
  "relation_markers =
     [[22240, 27492], [25152, 20197], [27492, 22806], [21516, 26102], [21478, 19968, 26041, 38754],
      [20363, 22914], [20855, 20307, 26469, 35828], [39318, 20808], [20854, 27425], [26368, 21518],
      [19978, 36848]]
     @ map lit [''therefore'', ''however'', ''moreover'', ''for example'', ''specifically'', ''first'',
      ''second'', ''finally'']"

definition terminal_punctuation :: "nat \<Rightarrow> bool" where
  "terminal_punctuation c \<longleftrightarrow> c \<in> {46, 33, 63, 12290, 65281, 65311}"

text \<open>\<open>^(?:\d+[.)]|[\<dots>]|[-*\<dots>])\s*\<close>: the circled digits one to nine, a dash, a star or a bullet.\<close>

definition starts_list_item :: "unicode_db \<Rightarrow> ustr \<Rightarrow> bool" where
  "starts_list_item u s =
     (let rest = dropWhile (\<lambda>c. u_decimal u c \<noteq> None) s
      in length rest < length s \<and> rest \<noteq> [] \<and> (hd rest = 46 \<or> hd rest = 41)
       \<or> s \<noteq> [] \<and> (9312 \<le> hd s \<and> hd s \<le> 9320 \<or> hd s \<in> {45, 42, 8226}))"

definition relation_reasons :: "unicode_db \<Rightarrow> semantic_unit \<Rightarrow> semantic_unit \<Rightarrow> string list" where
  "relation_reasons u l r =
     (let left = rstrip (mu_text l); right = lstrip (mu_text r); lowered = u_casefold u right;
          unfinished = left \<noteq> [] \<and> \<not> terminal_punctuation (last left)
      in (if list_ex (\<lambda>m. prefix (u_casefold u m) lowered) relation_markers
          then [''discourse_continuation''] else [])
       @ (if suffix [58] left \<or> suffix [65306] left \<or> suffix [22914, 19979] left
          then [''colon_explanation''] else [])
       @ (if starts_list_item u right
          then [if str_isdigit u (take 1 right) then ''ordered_list'' else ''unordered_list''] else [])
       @ (if mu_heading_path l = mu_heading_path r then [''same_heading_path''] else [])
       @ (if unfinished then [''syntactic_continuation''] else [])
       @ (if mu_page_end l \<noteq> mu_page_start r \<and> unfinished then [''cross_page_continuation''] else []))"

definition continuation_score :: "string list \<Rightarrow> pyfloat" where
  "continuation_score reasons = min 1 (18 / 100 * real (length reasons))"

text \<open>\<open>AdjacentRelationResult.__post_init__\<close> never refuses a score the checker computes.\<close>

lemma continuation_score_bounds: "0 \<le> continuation_score rs \<and> continuation_score rs \<le> 1"
  by (simp add: continuation_score_def)

subsection \<open>Characters that are not white space\<close>

text \<open>What chunking must not lose: it strips and rejoins texts, so the texts before and after
  agree on their other characters.\<close>

definition nonspace :: "ustr \<Rightarrow> ustr" where
  "nonspace s = filter (\<lambda>c. \<not> py_isspace c) s"

lemma nonspace_simps [simp]:
  "nonspace [] = []" "nonspace (s @ t) = nonspace s @ nonspace t"
  "nonspace (10 # s) = nonspace s"
  by (simp_all add: nonspace_def py_isspace_def)

lemma nonspace_dropWhile: "nonspace (dropWhile py_isspace s) = nonspace s"
  by (induction s) (auto simp: nonspace_def)

lemma nonspace_rev: "nonspace (rev s) = rev (nonspace s)"
  by (simp add: nonspace_def rev_filter)

lemma nonspace_rstrip [simp]: "nonspace (rstrip s) = nonspace s"
  by (simp add: rstrip_def rstrip_of_def nonspace_rev nonspace_dropWhile)

lemma nonspace_lstrip [simp]: "nonspace (lstrip s) = nonspace s"
  by (simp add: lstrip_def nonspace_dropWhile)

lemma nonspace_strip [simp]: "nonspace (strip s) = nonspace s"
  by (simp add: strip_def)

lemma nonspace_concat: "nonspace (concat ss) = concat (map nonspace ss)"
  by (induction ss) simp_all

lemma nonspace_join:
  "nonspace sep = [] \<Longrightarrow> nonspace (join sep ss) = concat (map nonspace ss)"
  by (induction sep ss rule: join.induct) simp_all

lemma nonspace_linebreak: "py_linebreak c \<Longrightarrow> nonspace (c # s) = nonspace s"
  by (auto simp: py_linebreak_def py_isspace_def nonspace_def)

lemma nonspace_snoc: "nonspace (cur @ c # cs) = nonspace ((cur @ [c]) @ cs)"
  by simp

lemma nonspace_splitlines: "concat (map nonspace (splitlines s)) = nonspace s"
proof -
  have "concat (map nonspace (splitlines_from cur s)) = nonspace (cur @ s)" for cur
  proof (induction cur s rule: splitlines_from.induct)
    case (2 cur c cs)
    show ?case
    proof (cases "c = 13 \<and> cs \<noteq> [] \<and> hd cs = 10")
      case True
      then obtain cs' where "cs = 10 # cs'" "c = 13" by (cases cs) auto
      moreover have "nonspace (13 # 10 # cs') = nonspace cs'" for cs'
        by (simp add: nonspace_linebreak py_linebreak_def)
      ultimately show ?thesis using "2.IH"(1) [OF True] by simp
    next
      case False
      then show ?thesis
        using "2.IH"(2,3) [OF False]
        by (cases "py_linebreak c") (auto simp: nonspace_linebreak nonspace_snoc [of cur])
    qed
  qed simp
  from this [of "[]"] show ?thesis by (simp add: splitlines_def)
qed

lemma nonspace_stripped_texts:
  "concat (map nonspace (stripped_texts us)) = concat (map (nonspace \<circ> mu_text) us)"
proof (induction us)
  case (Cons m us)
  have "strip (mu_text m) = [] \<Longrightarrow> nonspace (mu_text m) = []"
    by (metis nonspace_simps(1) nonspace_strip)
  with Cons show ?case by (auto simp: stripped_texts_def)
qed (simp add: stripped_texts_def)

lemma nonspace_render_subseq: "subseq (concat (map (nonspace \<circ> mu_text) us)) (nonspace (render ih us))"
  by (auto simp: render_def Let_def nonspace_join nonspace_stripped_texts split: list.split)

lemma nonspace_render:
  assumes "us \<noteq> []" "\<not> ih \<or> mu_heading_path (hd us) = [] \<or> mu_block_type (hd us) \<in> {BtCode, BtTable}"
  shows "nonspace (render ih us) = concat (map (nonspace \<circ> mu_text) us)"
  using assms
  by (auto simp: render_def Let_def nonspace_join nonspace_stripped_texts split: list.splits)

end
