(* ===== verification/Structure_Chunker.thy ===== *)
theory Structure_Chunker
  imports Chunk_Domain
begin

text \<open>
  The structural stage of the hybrid chunker (structure.py in
  backend/app/domain/rag/chunking/v3): one pass over the parsed blocks that keeps a heading
  stack and the slide context and groups blocks into regions. The local variables of
  \<open>build_regions\<close> are the record \<open>structure_state\<close>, its closure \<open>flush\<close> and the loop body are
  functions on it.
\<close>

record structure_state =
  ss_heading_stack :: "ustr list"
  ss_regions :: "structural_region list"
  ss_current_units :: "structural_unit list"
  ss_heading_path :: "ustr list"
  ss_type :: string
  ss_next_boundary :: boundary_strength
  ss_slide_context :: "ustr option"
  ss_slide_page :: "int option"

definition initial_structure :: structure_state where
  "initial_structure =
     \<lparr>ss_heading_stack = [], ss_regions = [], ss_current_units = [], ss_heading_path = [],
      ss_type = ''text'', ss_next_boundary = Soft, ss_slide_context = None, ss_slide_page = None\<rparr>"

definition region_id :: "nat \<Rightarrow> string" where
  "region_id n = ''region-'' @ str_of_nat n"

definition unit_id :: "nat \<Rightarrow> nat \<Rightarrow> string" where
  "unit_id r k = ''unit-'' @ str_of_nat r @ ''-'' @ str_of_nat k"

definition region_type :: "block_type \<Rightarrow> string" where
  "region_type b = (if b = BtCode then ''code'' else if b = BtTable then ''table'' else ''text'')"

definition make_unit ::
  "document_block \<Rightarrow> ustr list \<Rightarrow> nat \<Rightarrow> nat \<Rightarrow> ustr option \<Rightarrow> structural_unit" where
  "make_unit b path region_number unit_number slide =
     \<lparr>su_unit_id = unit_id region_number unit_number, su_text = db_text b,
      su_block_type = db_block_type b, su_page_number = db_page_number b,
      su_block_index = db_block_index b, su_heading_path = path, su_bbox = db_bbox b,
      su_reading_order = (case db_reading_order b of Some r \<Rightarrow> r | None \<Rightarrow> db_block_index b),
      su_structure_confidence = db_structure_confidence b, su_block = b, su_slide_context = slide\<rparr>"

definition flush :: "boundary_strength \<Rightarrow> structure_state \<Rightarrow> structure_state" where
  "flush after st =
     (if ss_current_units st = [] then st
      else st\<lparr>ss_regions := ss_regions st @
                [\<lparr>sr_region_id = region_id (length (ss_regions st) + 1),
                  sr_heading_path = ss_heading_path st, sr_units = ss_current_units st,
                  sr_region_type = ss_type st, sr_boundary_before = ss_next_boundary st,
                  sr_boundary_after = after\<rparr>],
              ss_current_units := [], ss_heading_path := [], ss_type := ''text'',
              ss_next_boundary := Soft\<rparr>)"

text \<open>The handling of slides, first in the loop body: leaving a slide closes the region and
  forgets the slide title.\<close>

definition enter_page :: "document_block \<Rightarrow> structure_state \<Rightarrow> structure_state" where
  "enter_page b st =
     (if db_file_type b \<noteq> FtPptx then st
      else (let st = (case ss_slide_page st of
                        Some p \<Rightarrow> if db_page_number b \<noteq> p
                          then (flush Soft st)\<lparr>ss_slide_context := None, ss_next_boundary := Soft\<rparr>
                          else st
                      | None \<Rightarrow> st)
            in st\<lparr>ss_slide_page := Some (db_page_number b)\<rparr>))"

definition on_slide_title :: "document_block \<Rightarrow> structure_state \<Rightarrow> structure_state" where
  "on_slide_title b st =
     (flush Soft st)\<lparr>ss_slide_context := (if strip (db_text b) = [] then None else Some (strip (db_text b))),
        ss_next_boundary := Soft\<rparr>"

definition on_heading :: "document_block \<Rightarrow> structure_state \<Rightarrow> structure_state" where
  "on_heading b st =
     (let level = (case db_heading_level b of Some l \<Rightarrow> if l = 0 then 1 else l | None \<Rightarrow> 1);
          st = st\<lparr>ss_heading_stack := take (level - 1) (ss_heading_stack st) @ [strip (db_text b)]\<rparr>
      in if ss_current_units st \<noteq> [] then (flush Hard st)\<lparr>ss_next_boundary := Hard\<rparr> else st)"

definition path_of :: "structure_state \<Rightarrow> ustr list" where
  "path_of st = ss_heading_stack st
     @ (case ss_slide_context st of Some c \<Rightarrow> if c \<noteq> [] then [c] else [] | None \<Rightarrow> [])"

definition on_atomic :: "document_block \<Rightarrow> structure_state \<Rightarrow> structure_state" where
  "on_atomic b st =
     (let path = path_of st; kind = region_type (db_block_type b);
          st = (flush Hard st)\<lparr>ss_next_boundary := Hard\<rparr>;
          n = length (ss_regions st) + 1
      in st\<lparr>ss_regions := ss_regions st @
               [\<lparr>sr_region_id = region_id n, sr_heading_path = path,
                 sr_units = [make_unit b path n 1 (ss_slide_context st)], sr_region_type = kind,
                 sr_boundary_before = ss_next_boundary st, sr_boundary_after = Hard\<rparr>],
             ss_next_boundary := Hard\<rparr>)"

definition on_text :: "document_block \<Rightarrow> structure_state \<Rightarrow> structure_state" where
  "on_text b st =
     (let path = path_of st;
          st = (if ss_current_units st \<noteq> [] \<and> ss_heading_path st \<noteq> path
                then (flush Hard st)\<lparr>ss_next_boundary := Hard\<rparr> else st)
      in st\<lparr>ss_heading_path := path, ss_type := region_type (db_block_type b),
            ss_current_units := ss_current_units st @
              [make_unit b path (length (ss_regions st) + 1) (length (ss_current_units st) + 1)
                 (ss_slide_context st)]\<rparr>)"

definition structure_step :: "structure_state \<Rightarrow> document_block \<Rightarrow> structure_state" where
  "structure_step st b =
     (let st = enter_page b st
      in if db_block_type b = BtSlideTitle then on_slide_title b st
         else if db_block_type b = BtHeading then on_heading b st
         else if region_type (db_block_type b) = ''code'' \<or> region_type (db_block_type b) = ''table''
         then on_atomic b st
         else on_text b st)"

definition build_regions :: "document_block list \<Rightarrow> structural_region list" where
  "build_regions bs = ss_regions (flush Soft (foldl structure_step initial_structure bs))"

subsection \<open>Identifiers\<close>

lemma unit_id_inject [simp]: "unit_id r k = unit_id s l \<longleftrightarrow> r = s \<and> k = l"
proof
  assume "unit_id r k = unit_id s l"
  then have "str_of_nat r @ CHR ''-'' # str_of_nat k = str_of_nat s @ CHR ''-'' # str_of_nat l"
    by (simp add: unit_id_def)
  from split_at_unique [OF this] show "r = s \<and> k = l" by (simp add: str_of_nat_no_dash)
qed simp

lemma region_id_inject [simp]: "region_id m = region_id n \<longleftrightarrow> m = n"
  by (simp add: region_id_def)

subsection \<open>The invariant\<close>

definition is_content :: "document_block \<Rightarrow> bool" where
  "is_content b \<longleftrightarrow> db_block_type b \<noteq> BtSlideTitle \<and> db_block_type b \<noteq> BtHeading"

definition faithful :: "structural_unit \<Rightarrow> bool" where
  "faithful u \<longleftrightarrow> su_text u = db_text (su_block u) \<and> su_block_type u = db_block_type (su_block u)"

lemma make_unit_simps [simp]:
  "faithful (make_unit b p m n s)" "su_block (make_unit b p m n s) = b"
  "su_unit_id (make_unit b p m n s) = unit_id m n" "su_heading_path (make_unit b p m n s) = p"
  "su_block_type (make_unit b p m n s) = db_block_type b"
  by (simp_all add: faithful_def make_unit_def)

text \<open>A region is not empty, its units share its heading path and are numbered under it, and a
  code or table block is a region of its own.\<close>

definition region_ok :: "nat \<Rightarrow> structural_region \<Rightarrow> bool" where
  "region_ok n r \<longleftrightarrow>
     sr_region_id r = region_id n \<and> sr_units r \<noteq> []
   \<and> (\<forall>u \<in> set (sr_units r). su_heading_path u = sr_heading_path r
        \<and> sr_region_type r = region_type (su_block_type u) \<and> faithful u)
   \<and> map su_unit_id (sr_units r) = map (unit_id n) [1 ..< Suc (length (sr_units r))]
   \<and> (sr_region_type r \<noteq> ''text'' \<longrightarrow> length (sr_units r) = 1)"

definition regions_ok :: "structural_region list \<Rightarrow> bool" where
  "regions_ok rs \<longleftrightarrow> (\<forall>i < length rs. region_ok (Suc i) (rs ! i))"

definition units_of :: "structural_region list \<Rightarrow> structural_unit list" where
  "units_of rs = concat (map sr_units rs)"

definition structure_inv :: "document_block list \<Rightarrow> structure_state \<Rightarrow> bool" where
  "structure_inv seen st \<longleftrightarrow>
     map su_block (units_of (ss_regions st) @ ss_current_units st) = filter is_content seen
   \<and> regions_ok (ss_regions st)
   \<and> (\<forall>u \<in> set (ss_current_units st). su_heading_path u = ss_heading_path st
        \<and> region_type (su_block_type u) = ''text'' \<and> faithful u)
   \<and> (ss_current_units st \<noteq> [] \<longrightarrow> ss_type st = ''text'')
   \<and> map su_unit_id (ss_current_units st)
       = map (unit_id (Suc (length (ss_regions st)))) [1 ..< Suc (length (ss_current_units st))]"

lemma units_of_simps [simp]: "units_of [] = []" "units_of (rs @ [r]) = units_of rs @ sr_units r"
  by (simp_all add: units_of_def)

lemma regions_ok_Nil [simp]: "regions_ok []"
  by (simp add: regions_ok_def)

lemma regions_ok_snoc [simp]:
  "regions_ok (rs @ [r]) \<longleftrightarrow> regions_ok rs \<and> region_ok (Suc (length rs)) r"
  by (auto simp: regions_ok_def nth_append less_Suc_eq)

lemma flush_empties [simp]: "ss_current_units (flush a st) = []"
  by (simp add: flush_def)

lemma flush_keeps [simp]:
  "ss_heading_stack (flush a st) = ss_heading_stack st"
  "ss_slide_context (flush a st) = ss_slide_context st"
  "ss_slide_page (flush a st) = ss_slide_page st"
  by (simp_all add: flush_def)

lemma flush_inv: "structure_inv seen st \<Longrightarrow> structure_inv seen (flush a st)"
  unfolding structure_inv_def flush_def
  by (auto simp: region_ok_def simp del: upt_Suc)

text \<open>Only the regions, the units and their path and type matter to the invariant.\<close>

lemma inv_update [simp]:
  "structure_inv seen (st\<lparr>ss_next_boundary := b\<rparr>) = structure_inv seen st"
  "structure_inv seen (st\<lparr>ss_slide_context := c\<rparr>) = structure_inv seen st"
  "structure_inv seen (st\<lparr>ss_slide_page := p\<rparr>) = structure_inv seen st"
  "structure_inv seen (st\<lparr>ss_heading_stack := h\<rparr>) = structure_inv seen st"
  by (simp_all add: structure_inv_def)

lemma enter_page_inv: "structure_inv seen st \<Longrightarrow> structure_inv seen (enter_page b st)"
  by (auto simp: enter_page_def Let_def flush_inv split: option.split)

lemma skip_inv: "\<not> is_content b \<Longrightarrow> structure_inv seen st \<Longrightarrow> structure_inv (seen @ [b]) st"
  by (simp add: structure_inv_def)

lemma on_atomic_inv:
  assumes "structure_inv seen st" "is_content b" "region_type (db_block_type b) \<noteq> ''text''"
  shows "structure_inv (seen @ [b]) (on_atomic b st)"
proof -
  from flush_inv [OF assms(1), of Hard] show ?thesis
    unfolding on_atomic_def structure_inv_def Let_def
    by (auto simp: region_ok_def assms)
qed

lemma on_text_inv:
  assumes "structure_inv seen st" "is_content b" "region_type (db_block_type b) = ''text''"
  shows "structure_inv (seen @ [b]) (on_text b st)"
proof -
  let ?s = "if ss_current_units st \<noteq> [] \<and> ss_heading_path st \<noteq> path_of st
      then (flush Hard st)\<lparr>ss_next_boundary := Hard\<rparr> else st"
  have inv: "structure_inv seen ?s" using assms(1) flush_inv by auto
  have path: "ss_current_units ?s \<noteq> [] \<Longrightarrow> ss_heading_path ?s = path_of st" by auto
  have "on_text b st = ?s\<lparr>ss_heading_path := path_of st, ss_type := ''text'',
      ss_current_units := ss_current_units ?s @
        [make_unit b (path_of st) (length (ss_regions ?s) + 1) (length (ss_current_units ?s) + 1)
           (ss_slide_context ?s)]\<rparr>"
    by (simp only: on_text_def Let_def assms(3))
  then show ?thesis
    using inv path assms(2,3)
    by (cases "ss_current_units ?s = []") (auto simp: structure_inv_def)
qed

lemma structure_step_inv:
  assumes "structure_inv seen st" shows "structure_inv (seen @ [b]) (structure_step st b)"
proof -
  have inv: "structure_inv seen (enter_page b st)" using assms by (rule enter_page_inv)
  consider "db_block_type b = BtSlideTitle" | "db_block_type b = BtHeading"
    | "is_content b" "region_type (db_block_type b) \<noteq> ''text''"
    | "is_content b" "region_type (db_block_type b) = ''text''"
    by (auto simp: is_content_def)
  then show ?thesis
  proof cases
    case 1
    then show ?thesis
      using inv by (simp add: structure_step_def Let_def on_slide_title_def flush_inv skip_inv is_content_def)
  next
    case 2
    then show ?thesis
      using inv by (simp add: structure_step_def Let_def on_heading_def flush_inv skip_inv is_content_def)
  next
    case 3
    then show ?thesis
      using on_atomic_inv [OF inv 3]
      by (auto simp: structure_step_def Let_def is_content_def region_type_def split: if_splits)
  next
    case 4
    then show ?thesis
      using on_text_inv [OF inv 4] by (simp add: structure_step_def Let_def is_content_def)
  qed
qed

lemma structure_run_inv: "structure_inv bs (foldl structure_step initial_structure bs)"
proof (induction bs rule: rev_induct)
  case Nil
  show ?case by (simp add: structure_inv_def initial_structure_def)
qed (simp add: structure_step_inv)

lemma build_regions_inv:
  "map su_block (units_of (build_regions bs)) = filter is_content bs
   \<and> regions_ok (build_regions bs)"
  using flush_inv [OF structure_run_inv, of bs Soft] by (simp add: structure_inv_def build_regions_def)

lemma region_ok_ids:
  assumes "region_ok n r"
  shows "distinct (map su_unit_id (sr_units r))"
    "u \<in> set (sr_units r) \<Longrightarrow> \<exists>k. su_unit_id u = unit_id n k"
proof -
  have ids: "map su_unit_id (sr_units r) = map (unit_id n) [1 ..< Suc (length (sr_units r))]"
    using assms by (simp add: region_ok_def)
  have "distinct (map (unit_id n) [1 ..< Suc (length (sr_units r))])"
    by (simp add: distinct_map inj_on_def del: upt_Suc)
  then show "distinct (map su_unit_id (sr_units r))" unfolding ids .
  assume "u \<in> set (sr_units r)"
  then have "su_unit_id u \<in> set (map su_unit_id (sr_units r))" by simp
  then show "\<exists>k. su_unit_id u = unit_id n k" unfolding ids by auto
qed

lemma regions_ok_distinct:
  "regions_ok rs \<Longrightarrow> distinct (map su_unit_id (units_of rs))
     \<and> (\<forall>u \<in> set (units_of rs). \<exists>n k. su_unit_id u = unit_id n k \<and> n \<le> length rs)"
proof (induction rs rule: rev_induct)
  case (snoc r rs)
  then have r: "region_ok (Suc (length rs)) r" and IH: "distinct (map su_unit_id (units_of rs))"
    "\<forall>u \<in> set (units_of rs). \<exists>n k. su_unit_id u = unit_id n k \<and> n \<le> length rs"
    by simp_all
  have "su_unit_id u \<noteq> su_unit_id v" if "u \<in> set (units_of rs)" "v \<in> set (sr_units r)" for u v
  proof -
    obtain n k where "su_unit_id u = unit_id n k" "n \<le> length rs" using IH(2) \<open>u \<in> set (units_of rs)\<close> by blast
    moreover obtain l where "su_unit_id v = unit_id (Suc (length rs)) l"
      using region_ok_ids(2) [OF r \<open>v \<in> set (sr_units r)\<close>] by blast
    ultimately show ?thesis by auto
  qed
  then have "distinct (map su_unit_id (units_of (rs @ [r])))"
    using IH(1) region_ok_ids(1) [OF r] by fastforce
  moreover have "\<exists>n k. su_unit_id u = unit_id n k \<and> n \<le> length (rs @ [r])"
    if "u \<in> set (units_of (rs @ [r]))" for u
  proof (cases "u \<in> set (units_of rs)")
    case True
    with IH(2) obtain n k where "su_unit_id u = unit_id n k" "n \<le> length rs" by blast
    then show ?thesis by (intro exI [of _ n] exI [of _ k]) simp
  next
    case False
    with that region_ok_ids(2) [OF r, of u] show ?thesis by auto
  qed
  ultimately show ?case by blast
qed simp

lemma regions_faithful: "u \<in> set (units_of (build_regions bs)) \<Longrightarrow> faithful u"
proof -
  assume "u \<in> set (units_of (build_regions bs))"
  then obtain r where "r \<in> set (build_regions bs)" "u \<in> set (sr_units r)" by (auto simp: units_of_def)
  moreover from this(1) obtain i where "i < length (build_regions bs)" "build_regions bs ! i = r"
    by (auto simp: in_set_conv_nth)
  ultimately have "region_ok (Suc i) r" "u \<in> set (sr_units r)"
    using build_regions_inv [of bs] by (auto simp: regions_ok_def)
  then show "faithful u" by (simp add: region_ok_def)
qed

subsection \<open>Properties\<close>

text \<open>The regions partition the content: read in order, their units are exactly the blocks
  that are neither headings nor slide titles, each once, with its text.\<close>

theorem regions_partition:
  "map su_block (units_of (build_regions bs)) = filter is_content bs"
  using build_regions_inv [of bs] by simp

text \<open>Every region is well formed: its units share its heading path, a code or table block is
  alone in its region, regions are numbered in order, and no two units of a document share an
  identifier.\<close>

theorem regions_well_formed:
  "list_all (\<lambda>(n, r). region_ok n r) (enumerate_from 1 (build_regions bs))
   \<and> distinct (map su_unit_id (units_of (build_regions bs)))"
  using build_regions_inv [of bs] regions_ok_distinct [of "build_regions bs"]
  by (simp add: list_all_length regions_ok_def)

end
