(* ===== verification/Semantic_Chunker.thy ===== *)
theory Semantic_Chunker
  imports Chunk_Domain
begin

text \<open>
  The semantic stage of the hybrid chunker (semantic.py, threshold.py and sentence_splitter.py in
  backend/app/domain/rag/chunking/v3): a region is cut into sentences, the sentences are
  embedded, each gap between neighbours gets a score from the similarity of the windows around
  it, and the gaps whose score stands out (median plus a multiple of the median absolute
  deviation) become segment boundaries. The encoder is a port that may raise; vectors are lists
  of exact reals.
\<close>

subsection \<open>Sentences\<close>

text \<open>The zero-width matches of \<open>(?<=[...])|(?<=[.!?])(?=\s|$)\<close> are cuts after a character: after
  a full-width stop always, after an ASCII stop at the end or before white space.\<close>

definition cut_after :: "nat \<Rightarrow> ustr \<Rightarrow> bool" where
  "cut_after c rest \<longleftrightarrow> c \<in> {12290, 65281, 65311}
     \<or> c \<in> {46, 33, 63} \<and> (rest = [] \<or> py_isspace (hd rest))"

fun sentences_from :: "ustr \<Rightarrow> ustr \<Rightarrow> ustr list" where
  "sentences_from cur [] = [cur]"
| "sentences_from cur (c # cs) =
     (if cut_after c cs then (cur @ [c]) # sentences_from [] cs else sentences_from (cur @ [c]) cs)"

definition split_sentences :: "ustr \<Rightarrow> ustr list" where
  "split_sentences s = filter (\<lambda>p. p \<noteq> []) (map strip (sentences_from [] s))"

function slices :: "nat \<Rightarrow> ustr \<Rightarrow> ustr list" where
  "slices n s = (if n = 0 \<or> length s \<le> n then [s] else take n s # slices n (drop n s))"
  by pat_completeness auto
termination by (relation "measure (\<lambda>(n, s). length s)") auto

declare slices.simps [simp del]

definition semantic_unit_of ::
  "structural_unit \<Rightarrow> nat \<Rightarrow> ustr \<Rightarrow> nat option \<Rightarrow> semantic_unit" where
  "semantic_unit_of u index s suffix_no =
     \<lparr>mu_unit_id = (case suffix_no of Some k \<Rightarrow> su_unit_id u @ '':s'' @ str_of_nat k | None \<Rightarrow> su_unit_id u),
      mu_text = s, mu_source_unit_ids = [su_unit_id u], mu_page_start = su_page_number u,
      mu_page_end = su_page_number u, mu_heading_path = su_heading_path u,
      mu_block_type = su_block_type u, mu_order = index\<rparr>"

definition pieces_of :: "nat \<Rightarrow> ustr \<Rightarrow> ustr list" where
  "pieces_of max_chars s =
     concat (map (slices max_chars) (if split_sentences s = [] then [s] else split_sentences s))"

fun semantic_units_from :: "nat \<Rightarrow> nat \<Rightarrow> structural_unit list \<Rightarrow> semantic_unit list" where
  "semantic_units_from max_chars n [] = []"
| "semantic_units_from max_chars n (u # us) =
     (let pieces = pieces_of max_chars (su_text u)
      in map (\<lambda>(i, p). semantic_unit_of u (n + i) p (if 1 < length pieces then Some i else None))
           (enumerate_from 0 pieces)
         @ semantic_units_from max_chars (n + length pieces) us)"

subsection \<open>Vectors\<close>

type_synonym vector = "pyfloat list"

datatype semantic_error = TooManyUnits string | EncoderError string | VectorCount string | IndexError

type_synonym encoder = "ustr list \<Rightarrow> string + vector list"

definition mean_vector :: "vector list \<Rightarrow> semantic_error + vector" where
  "mean_vector vs =
     (case vs of [] \<Rightarrow> Inr []
      | v # _ \<Rightarrow>
          if list_ex (\<lambda>w. length w < length v) vs then Inl IndexError
          else Inr (map (\<lambda>i. sum_list (map (\<lambda>w. w ! i) vs) / real (length vs)) [0 ..< length v]))"

definition norm_of :: "vector \<Rightarrow> pyfloat" where
  "norm_of v = sqrt (sum_list (map (\<lambda>x. x * x) v))"

definition dot :: "vector \<Rightarrow> vector \<Rightarrow> pyfloat" where
  "dot l r = sum_list (map (\<lambda>(a, b). a * b) (zip l r))"

definition cosine :: "vector \<Rightarrow> vector \<Rightarrow> pyfloat" where
  "cosine l r =
     (if l = [] \<or> r = [] then 0
      else if norm_of l = 0 \<or> norm_of r = 0 then 0
      else dot l r / norm_of l / norm_of r)"

function batches :: "nat \<Rightarrow> 'a list \<Rightarrow> 'a list list" where
  "batches n xs = (if xs = [] then [] else if n = 0 then [xs] else take n xs # batches n (drop n xs))"
  by pat_completeness auto
termination by (relation "measure (\<lambda>(n, xs). length xs)") auto

declare batches.simps [simp del]

definition embed_all :: "encoder \<Rightarrow> nat \<Rightarrow> ustr list \<Rightarrow> semantic_error + vector list" where
  "embed_all enc batch_size texts =
     bind_res (traverse (\<lambda>b. case enc b of Inl e \<Rightarrow> Inl (EncoderError e) | Inr vs \<Rightarrow> Inr vs)
       (batches (max 1 batch_size) texts)) (\<lambda>vss. Inr (concat vss))"

subsection \<open>The adaptive threshold\<close>

definition median :: "pyfloat list \<Rightarrow> pyfloat" where
  "median xs =
     (let s = sort xs; n = length s
      in if odd n then s ! (n div 2) else (s ! (n div 2 - 1) + s ! (n div 2)) / 2)"

definition threshold_of :: "int \<Rightarrow> pyfloat \<Rightarrow> pyfloat list \<Rightarrow> pyfloat option" where
  "threshold_of min_samples multiplier scores =
     (if int (length scores) < min_samples then None
      else let center = median scores; mad = median (map (\<lambda>s. \<bar>s - center\<bar>) scores)
           in if mad = 0 then None else Some (center + 14826 / 10000 * mad * multiplier))"

definition above :: "pyfloat \<Rightarrow> pyfloat option \<Rightarrow> bool" where
  "above score t = (case t of None \<Rightarrow> False | Some x \<Rightarrow> x < score)"

subsection \<open>Boundaries and segments\<close>

definition boundary_score_of ::
  "semantic_policy \<Rightarrow> pyfloat \<Rightarrow> pyfloat \<Rightarrow> pyfloat \<Rightarrow> pyfloat" where
  "boundary_score_of P local_sim adjacent_sim continuation =
     max 0 (min 1 (sp_local_window_weight P * ((1 - local_sim) / 2)
       + sp_adjacent_weight P * ((1 - adjacent_sim) / 2) - sp_relation_penalty_weight P * continuation))"

definition make_boundary ::
  "unicode_db \<Rightarrow> semantic_policy \<Rightarrow> semantic_unit list \<Rightarrow> vector list \<Rightarrow> nat
     \<Rightarrow> semantic_error + semantic_boundary" where
  "make_boundary u P units vectors i =
     (let w = nat (sp_window_size P);
          left_start = (i + 1) - w;
          right_end = min (length units) (i + 1 + w)
      in bind_res (mean_vector (drop left_start (take (i + 1) vectors))) (\<lambda>l.
         bind_res (mean_vector (drop (i + 1) (take right_end vectors))) (\<lambda>r.
           let local_sim = cosine l r;
               adjacent_sim = cosine (vectors ! i) (vectors ! (i + 1));
               reasons = relation_reasons u (units ! i) (units ! (i + 1));
               continuation = continuation_score reasons
           in Inr \<lparr>sb_left_unit_id = mu_unit_id (units ! i),
                sb_right_unit_id = mu_unit_id (units ! (i + 1)),
                sb_local_similarity = local_sim, sb_adjacent_similarity = adjacent_sim,
                sb_continuation_score = continuation, sb_continuation_reasons = reasons,
                sb_boundary_score = boundary_score_of P local_sim adjacent_sim continuation,
                sb_adaptive_threshold = None, sb_selected = False\<rparr>)))"

definition select_boundaries :: "semantic_policy \<Rightarrow> semantic_boundary list \<Rightarrow> semantic_boundary list" where
  "select_boundaries P bs =
     (let t = threshold_of (sp_min_boundary_samples P) (sp_mad_multiplier P) (map sb_boundary_score bs)
      in map (\<lambda>b. b\<lparr>sb_adaptive_threshold := t, sb_selected := above (sb_boundary_score b) t\<rparr>) bs)"

definition cut_segment ::
  "semantic_unit list \<Rightarrow> semantic_boundary list \<Rightarrow> nat \<Rightarrow> nat option \<Rightarrow> semantic_segment" where
  "cut_segment units bs start stop =
     \<lparr>sg_units = (case stop of Some i \<Rightarrow> drop start (take (i + 1) units) | None \<Rightarrow> drop start units),
      sg_boundary_before = (if start \<noteq> 0 then Some (bs ! (start - 1)) else None),
      sg_boundary_after = (case stop of Some i \<Rightarrow> Some (bs ! i) | None \<Rightarrow> None)\<rparr>"

fun cut_segments ::
  "semantic_unit list \<Rightarrow> semantic_boundary list \<Rightarrow> nat \<Rightarrow> nat list \<Rightarrow> semantic_segment list" where
  "cut_segments units bs start [] = [cut_segment units bs start None]"
| "cut_segments units bs start (i # is) =
     cut_segment units bs start (Some i) # cut_segments units bs (i + 1) is"

definition selected_indexes :: "semantic_boundary list \<Rightarrow> nat list" where
  "selected_indexes bs = map fst (filter (sb_selected \<circ> snd) (enumerate_from 0 bs))"

definition whole_region :: "string \<Rightarrow> semantic_unit list \<Rightarrow> semantic_segmentation" where
  "whole_region region_id units =
     \<lparr>sn_segments = [\<lparr>sg_units = units, sg_boundary_before = None, sg_boundary_after = None\<rparr>],
      sn_region_id = region_id, sn_boundaries = []\<rparr>"

definition region_units :: "semantic_policy \<Rightarrow> structural_region \<Rightarrow> semantic_unit list" where
  "region_units P r =
     (if sr_region_type r = ''code'' \<or> sr_region_type r = ''table''
      then map (\<lambda>(i, u). semantic_unit_of u i (su_text u) None) (enumerate_from 0 (sr_units r))
      else semantic_units_from (nat (sp_max_semantic_unit_chars P)) 0 (sr_units r))"

definition split_with_trace ::
  "unicode_db \<Rightarrow> encoder \<Rightarrow> nat \<Rightarrow> semantic_policy \<Rightarrow> structural_region
     \<Rightarrow> semantic_error + semantic_segmentation" where
  "split_with_trace u enc batch_size P r =
     (let units = region_units P r
      in if sr_region_type r = ''code'' \<or> sr_region_type r = ''table''
         then Inr (whole_region (sr_region_id r) units)
         else if sp_max_semantic_units P < int (length units)
         then Inl (TooManyUnits ''maximum semantic units exceeded'')
         else if length units \<le> 1 then Inr (whole_region (sr_region_id r) units)
         else bind_res (embed_all enc batch_size (map mu_text units)) (\<lambda>vectors.
           if length vectors \<noteq> length units
           then Inl (VectorCount ''semantic encoder returned an unexpected vector count'')
           else bind_res (traverse (make_boundary u P units vectors) [0 ..< length units - 1]) (\<lambda>bs.
             let selected = select_boundaries P bs
             in Inr \<lparr>sn_segments = cut_segments units selected 0 (selected_indexes selected),
                  sn_region_id = sr_region_id r, sn_boundaries = selected\<rparr>)))"

subsection \<open>Sentence splitting loses no text\<close>

lemma concat_sentences: "concat (sentences_from cur s) = cur @ s"
  by (induction cur s rule: sentences_from.induct) auto

lemma nonspace_sentences: "concat (map nonspace (split_sentences s)) = nonspace s"
proof -
  have "concat (map nonspace (filter (\<lambda>p. p \<noteq> []) (map strip ps))) = nonspace (concat ps)" for ps
  proof (induction ps)
    case (Cons p ps)
    have "strip p = [] \<Longrightarrow> nonspace p = []" by (metis nonspace_simps(1) nonspace_strip)
    with Cons show ?case by simp
  qed simp
  then show ?thesis by (simp add: split_sentences_def concat_sentences)
qed

lemma concat_slices: "concat (slices n s) = s"
proof (induction n s rule: slices.induct)
  case (1 n s)
  then show ?case by (cases "n = 0 \<or> length s \<le> n") (auto simp: slices.simps [of n s])
qed

lemma slices_length: "0 < n \<Longrightarrow> p \<in> set (slices n s) \<Longrightarrow> length p \<le> n"
proof (induction n s rule: slices.induct)
  case (1 n s)
  then show ?case
    by (cases "length s \<le> n") (auto simp: slices.simps [of n s])
qed

lemma slices_nonempty: "slices n s \<noteq> []"
  by (subst slices.simps) simp

lemma nonspace_pieces: "concat (map nonspace (pieces_of n s)) = nonspace s"
proof -
  have "concat (map nonspace (concat (map (slices n) ps))) = concat (map nonspace ps)" for ps
    by (induction ps) (simp_all add: nonspace_concat [symmetric] concat_slices)
  then show ?thesis by (simp add: pieces_of_def nonspace_sentences)
qed

lemma pieces_of_length: "0 < n \<Longrightarrow> p \<in> set (pieces_of n s) \<Longrightarrow> length p \<le> n"
  by (auto simp: pieces_of_def slices_length split: if_splits)

lemma map_enumerate: "map (\<lambda>(i, p). f i p) (enumerate_from n xs) = map (\<lambda>i. f (n + i) (xs ! i)) [0 ..< length xs]"
  by (rule nth_equalityI) simp_all

lemma semantic_units_text:
  "concat (map (nonspace \<circ> mu_text) (semantic_units_from n k us)) = concat (map (nonspace \<circ> su_text) us)"
proof (induction n k us rule: semantic_units_from.induct)
  case (2 n k u us)
  let ?ps = "pieces_of n (su_text u)"
  have "map (nonspace \<circ> mu_text) (map (\<lambda>(i, p). semantic_unit_of u (k + i) p
      (if 1 < length ?ps then Some i else None)) (enumerate_from 0 ?ps)) = map nonspace ?ps"
    by (rule nth_equalityI) (simp_all add: semantic_unit_of_def)
  then have head: "concat (map (nonspace \<circ> mu_text) (map (\<lambda>(i, p). semantic_unit_of u (k + i) p
      (if 1 < length ?ps then Some i else None)) (enumerate_from 0 ?ps))) = nonspace (su_text u)"
    by (simp only: nonspace_pieces)
  show ?case
    by (simp only: semantic_units_from.simps Let_def map_append concat_append head "2.IH" [OF refl]) simp
qed simp

subsection \<open>Segments partition the units\<close>

lemma cut_segments_concat:
  "\<forall>i \<in> set is. start \<le> i \<and> i < length units \<Longrightarrow> sorted_wrt (<) is \<Longrightarrow>
     concat (map sg_units (cut_segments units bs start is)) = drop start units"
proof (induction units bs start "is" rule: cut_segments.induct)
  case (2 units bs start i "is")
  then have "concat (map sg_units (cut_segments units bs (i + 1) is)) = drop (i + 1) units"
    by (simp add: Suc_le_eq)
  moreover have "drop start (take (i + 1) units) @ drop (i + 1) units = drop start units"
    using "2.prems"(1) append_take_drop_id [of "i + 1 - start" "drop start units"]
    by (simp add: drop_take)
  ultimately show ?case by (simp add: cut_segment_def)
qed (simp add: cut_segment_def)

lemma cut_segments_nonempty:
  "\<forall>i \<in> set is. start \<le> i \<and> Suc i < length units \<Longrightarrow> sorted_wrt (<) is \<Longrightarrow> start < length units \<Longrightarrow>
     \<forall>s \<in> set (cut_segments units bs start is). sg_units s \<noteq> []"
proof (induction units bs start "is" rule: cut_segments.induct)
  case (2 units bs start i "is")
  then have "\<forall>s \<in> set (cut_segments units bs (i + 1) is). sg_units s \<noteq> []" by (simp add: Suc_le_eq)
  with "2.prems" show ?case by (simp add: cut_segment_def)
qed (simp add: cut_segment_def)

lemma cut_segments_boundaries:
  "map sg_boundary_after (cut_segments units bs start is) = map (\<lambda>i. Some (bs ! i)) is @ [None]
   \<and> map sg_boundary_before (cut_segments units bs start is)
       = (if start \<noteq> 0 then Some (bs ! (start - 1)) else None) # map (\<lambda>i. Some (bs ! i)) is"
  by (induction units bs start "is" rule: cut_segments.induct) (simp_all add: cut_segment_def)

lemma enumerate_from_eq: "enumerate_from n xs = map (\<lambda>i. (n + i, xs ! i)) [0 ..< length xs]"
  by (rule nth_equalityI) simp_all

lemma selected_indexes_eq: "selected_indexes bs = filter (\<lambda>i. sb_selected (bs ! i)) [0 ..< length bs]"
  by (simp add: selected_indexes_def enumerate_from_eq filter_map comp_def)

lemma sorted_selected_indexes: "sorted_wrt (<) (selected_indexes bs)"
  by (simp add: selected_indexes_eq sorted_wrt_filter)

lemma map_selected_indexes: "map (\<lambda>i. bs ! i) (selected_indexes bs) = filter sb_selected bs"
proof -
  have "filter sb_selected (map (\<lambda>i. bs ! i) [0 ..< length bs]) = map (\<lambda>i. bs ! i) (selected_indexes bs)"
    by (simp add: selected_indexes_eq filter_map comp_def)
  then show ?thesis by (simp add: map_nth)
qed

lemma map_Some_selected: "map (\<lambda>i. Some (bs ! i)) (selected_indexes bs) = map Some (filter sb_selected bs)"
  by (simp add: map_selected_indexes [symmetric] comp_def)

text \<open>What a run that returns has gone through.\<close>

lemma split_with_trace_cases:
  assumes "split_with_trace u enc k P r = Inr sn"
  obtains "sn = whole_region (sr_region_id r) (region_units P r)"
  | vectors bs where "1 < length (region_units P r)" "length vectors = length (region_units P r)"
      "traverse (make_boundary u P (region_units P r) vectors) [0 ..< length (region_units P r) - 1] = Inr bs"
      "sn = \<lparr>sn_segments = cut_segments (region_units P r) (select_boundaries P bs) 0
                (selected_indexes (select_boundaries P bs)),
             sn_region_id = sr_region_id r, sn_boundaries = select_boundaries P bs\<rparr>"
  using assms
  by (auto simp: split_with_trace_def Let_def bind_res_Inr_iff not_le split: if_splits)

lemma length_select_boundaries [simp]: "length (select_boundaries P bs) = length bs"
  by (simp add: select_boundaries_def Let_def)

lemma segments_partition_units:
  assumes "split_with_trace u enc k P r = Inr sn"
  shows "concat (map sg_units (sn_segments sn)) = region_units P r
       \<and> map sg_boundary_after (sn_segments sn) = map Some (filter sb_selected (sn_boundaries sn)) @ [None]
       \<and> map sg_boundary_before (sn_segments sn) = None # map Some (filter sb_selected (sn_boundaries sn))
       \<and> (1 < length (sn_segments sn) \<longrightarrow> [] \<notin> set (map sg_units (sn_segments sn)))"
  using assms
proof (cases rule: split_with_trace_cases)
  case 1
  then show ?thesis by (simp add: whole_region_def)
next
  case (2 vectors bs)
  let ?bs = "select_boundaries P bs"
  have len: "length bs = length (region_units P r) - 1" using traverse_Inr_length [OF 2(3)] by simp
  then have idx: "i \<in> set (selected_indexes ?bs) \<Longrightarrow> Suc i < length (region_units P r)" for i
    using 2(1) by (auto simp: selected_indexes_eq)
  have range: "\<forall>i \<in> set (selected_indexes ?bs). 0 \<le> i \<and> i < length (region_units P r)"
    "\<forall>i \<in> set (selected_indexes ?bs). 0 \<le> i \<and> Suc i < length (region_units P r)"
    using idx by (auto dest: Suc_lessD)
  have "0 < length (region_units P r)" using 2(1) by linarith
  from cut_segments_nonempty [of "selected_indexes ?bs" 0 _ ?bs, OF range(2) sorted_selected_indexes this]
  have "\<forall>s \<in> set (sn_segments sn). sg_units s \<noteq> []" by (simp add: 2(4))
  then have "[] \<notin> set (map sg_units (sn_segments sn))" by auto
  moreover have "concat (map sg_units (sn_segments sn)) = region_units P r"
    using cut_segments_concat [of "selected_indexes ?bs" 0 _ ?bs, OF range(1) sorted_selected_indexes] by (simp add: 2(4))
  ultimately show ?thesis
    using cut_segments_boundaries [of "region_units P r" ?bs 0 "selected_indexes ?bs"]
    by (simp add: 2(4) map_Some_selected)
qed

subsection \<open>Bounds\<close>

lemma cauchy_schwarz_lists:
  "length l = length r \<Longrightarrow>
     (\<Sum>(a, b)\<leftarrow>zip l r. a * b)\<^sup>2 \<le> (\<Sum>x\<leftarrow>l. x * x) * (\<Sum>x\<leftarrow>r. x * (x :: real))"
proof (induction l r rule: list_induct2)
  case (Cons a l b r)
  let ?S = "\<Sum>(a, b)\<leftarrow>zip l r. a * b" and ?A = "\<Sum>x\<leftarrow>l. x * x" and ?B = "\<Sum>x\<leftarrow>r. x * x"
  have nn: "0 \<le> ?A" "0 \<le> ?B" by (auto intro!: sum_list_nonneg)
  have "\<bar>?S\<bar> \<le> sqrt ?A * sqrt ?B"
    using Cons.IH nn by (metis real_sqrt_abs real_sqrt_le_iff real_sqrt_mult)
  then have "2 * (a * b) * ?S \<le> 2 * (\<bar>a\<bar> * sqrt ?B) * (\<bar>b\<bar> * sqrt ?A)"
  proof -
    have "a * b * ?S \<le> \<bar>a * b\<bar> * \<bar>?S\<bar>" by (metis abs_ge_self abs_mult)
    also have "\<dots> \<le> \<bar>a * b\<bar> * (sqrt ?A * sqrt ?B)"
      using \<open>\<bar>?S\<bar> \<le> sqrt ?A * sqrt ?B\<close> by (intro mult_left_mono) auto
    finally show ?thesis by (simp add: abs_mult algebra_simps)
  qed
  also have "\<dots> \<le> (\<bar>a\<bar> * sqrt ?B)\<^sup>2 + (\<bar>b\<bar> * sqrt ?A)\<^sup>2"
    by (rule sum_squares_bound)
  also have "\<dots> = a\<^sup>2 * ?B + b\<^sup>2 * ?A" using nn by (simp add: power_mult_distrib)
  finally show ?case using Cons.IH by (simp add: power2_eq_square algebra_simps)
qed simp

lemma cosine_bound: "\<bar>cosine l r\<bar> \<le> 1"
proof (cases "l = [] \<or> r = [] \<or> norm_of l = 0 \<or> norm_of r = 0")
  case False
  let ?n = "min (length l) (length r)"
  let ?A = "\<Sum>x\<leftarrow>l. x * x" and ?B = "\<Sum>x\<leftarrow>r. x * x"
  have part: "(\<Sum>x\<leftarrow>take n v. x * x) \<le> (\<Sum>x\<leftarrow>v. x * (x :: real))" for n v
  proof -
    have "(\<Sum>x\<leftarrow>v. x * x) = (\<Sum>x\<leftarrow>take n v. x * x) + (\<Sum>x\<leftarrow>drop n v. x * x)"
      by (metis append_take_drop_id map_append sum_list_append)
    moreover have "0 \<le> (\<Sum>x\<leftarrow>drop n v. x * (x :: real))" by (auto intro!: sum_list_nonneg)
    ultimately show ?thesis by simp
  qed
  have nn: "0 \<le> (\<Sum>x\<leftarrow>v. x * (x :: real))" for v by (auto intro!: sum_list_nonneg)
  have "zip l r = zip (take ?n l) (take ?n r)"
    by (metis length_zip order_refl take_all take_zip)
  then have "(dot l r)\<^sup>2 \<le> (\<Sum>x\<leftarrow>take ?n l. x * x) * (\<Sum>x\<leftarrow>take ?n r. x * x)"
    using cauchy_schwarz_lists [of "take ?n l" "take ?n r"] by (simp only: dot_def) simp
  also have "\<dots> \<le> ?A * ?B" by (intro mult_mono part nn)
  finally have "\<bar>dot l r\<bar> \<le> norm_of l * norm_of r"
    by (metis norm_of_def real_sqrt_abs real_sqrt_le_iff real_sqrt_mult)
  moreover have "0 < norm_of l" "0 < norm_of r"
    using False nn [of l] nn [of r] by (auto simp: norm_of_def less_le)
  ultimately show ?thesis
    using False by (simp add: cosine_def abs_mult field_simps)
qed (auto simp: cosine_def)

lemma boundary_bounds:
  assumes "make_boundary u P units vectors i = Inr b"
  shows "0 \<le> sb_boundary_score b \<and> sb_boundary_score b \<le> 1 \<and> \<bar>sb_local_similarity b\<bar> \<le> 1
    \<and> \<bar>sb_adjacent_similarity b\<bar> \<le> 1 \<and> 0 \<le> sb_continuation_score b \<and> sb_continuation_score b \<le> 1"
  using assms
  by (auto simp: make_boundary_def Let_def bind_res_Inr_iff boundary_score_of_def cosine_bound
      continuation_score_bounds)

subsection \<open>Selected boundaries are a minority\<close>

lemma sorted_above_nth:
  assumes "sorted s" "\<And>i. i < length s \<Longrightarrow> i < k \<Longrightarrow> s ! i \<le> (m :: real)" "k \<le> length s"
  shows "length (filter (\<lambda>x. m < x) s) \<le> length s - k"
proof -
  have "filter (\<lambda>x. m < x) (take k s) = []"
    using assms(2,3) by (auto simp: filter_empty_conv in_set_conv_nth not_less)
  then have "filter (\<lambda>x. m < x) s = filter (\<lambda>x. m < x) (drop k s)"
    by (metis append_Nil append_take_drop_id filter_append)
  then show ?thesis by (metis length_drop length_filter_le)
qed

lemma above_median: "2 * length (filter (\<lambda>x. median xs < x) xs) \<le> length xs"
proof -
  let ?s = "sort xs" and ?n = "length xs"
  have len: "length (filter (\<lambda>x. median xs < x) xs) = length (filter (\<lambda>x. median xs < x) ?s)"
    by (metis filter_sort length_sort)
  show ?thesis
  proof (cases "odd ?n")
    case True
    then have m: "median xs = ?s ! (?n div 2)" by (simp add: median_def Let_def)
    have "?s ! i \<le> median xs" if "i < length ?s" "i < Suc (?n div 2)" for i
      unfolding m using that True by (intro sorted_nth_mono) (auto elim: oddE)
    from sorted_above_nth [of ?s "Suc (?n div 2)" "median xs", OF _ this] True show ?thesis
      by (auto simp: len elim!: oddE)
  next
    case False
    then have m: "median xs = (?s ! (?n div 2 - 1) + ?s ! (?n div 2)) / 2"
      by (simp add: median_def Let_def)
    show ?thesis
    proof (cases "xs = []")
      case ne: False
      have "?s ! i \<le> median xs" if "i < length ?s" "i < ?n div 2" for i
      proof -
        have "?s ! i \<le> ?s ! (?n div 2 - 1)" "?s ! (?n div 2 - 1) \<le> ?s ! (?n div 2)"
          using that False ne by (intro sorted_nth_mono; auto elim!: evenE)+
        then show ?thesis by (simp add: m)
      qed
      from sorted_above_nth [of ?s "?n div 2" "median xs", OF _ this] False show ?thesis
        by (auto simp: len elim!: evenE)
    qed simp
  qed
qed

lemma length_filter_mono:
  "(\<And>x. P x \<Longrightarrow> Q x) \<Longrightarrow> length (filter P xs) \<le> length (filter Q xs)"
  by (induction xs) (auto simp: le_SucI)

lemma median_nonneg: "\<forall>x \<in> set xs. 0 \<le> x \<Longrightarrow> xs \<noteq> [] \<Longrightarrow> 0 \<le> median xs"
proof -
  assume nn: "\<forall>x \<in> set xs. 0 \<le> x" and ne: "xs \<noteq> []"
  have "0 \<le> sort xs ! i" if "i < length xs" for i
    using nn nth_mem [of i "sort xs"] that by simp
  moreover have "length xs div 2 < length xs" "length xs div 2 - 1 < length xs"
    using length_greater_0_conv [of xs] ne by linarith+
  ultimately have "0 \<le> sort xs ! (length xs div 2)" "0 \<le> sort xs ! (length xs div 2 - 1)" by blast+
  then show "0 \<le> median xs" by (simp add: median_def Let_def)
qed

lemma selected_minority:
  assumes "0 \<le> sp_mad_multiplier P"
  shows "2 * length (filter sb_selected (select_boundaries P bs)) \<le> length bs"
proof -
  let ?scores = "map sb_boundary_score bs"
  let ?t = "threshold_of (sp_min_boundary_samples P) (sp_mad_multiplier P) ?scores"
  have len: "length (filter sb_selected (select_boundaries P bs)) = length (filter (\<lambda>x. above x ?t) ?scores)"
    by (simp add: select_boundaries_def Let_def filter_map comp_def)
  show ?thesis
  proof (cases "?t = None \<or> bs = []")
    case True
    then show ?thesis by (auto simp: len above_def)
  next
    case False
    then obtain x where x: "?t = Some x" by auto
    let ?mad = "median (map (\<lambda>s. \<bar>s - median ?scores\<bar>) ?scores)"
    from x have eq: "x = median ?scores + 14826 / 10000 * ?mad * sp_mad_multiplier P"
      unfolding threshold_of_def Let_def by (simp split: if_splits)
    have "0 \<le> ?mad" by (rule median_nonneg) (use False in auto)
    then have "0 \<le> ?mad * sp_mad_multiplier P" using assms by simp
    then have "median ?scores \<le> x" unfolding eq by linarith
    then have "length (filter (\<lambda>y. above y ?t) ?scores) \<le> length (filter (\<lambda>y. median ?scores < y) ?scores)"
      unfolding x above_def by (intro length_filter_mono) auto
    then show ?thesis using above_median [of ?scores] unfolding len by simp
  qed
qed

subsection \<open>The text of a region\<close>

lemma region_units_text:
  "concat (map (nonspace \<circ> mu_text) (region_units P r)) = concat (map (nonspace \<circ> su_text) (sr_units r))"
proof -
  have "map (nonspace \<circ> mu_text) (map (\<lambda>(i, u). semantic_unit_of u i (su_text u) None) (enumerate_from 0 us))
      = map (nonspace \<circ> su_text) us" for us
    by (rule nth_equalityI) (simp_all add: semantic_unit_of_def)
  then show ?thesis by (simp only: region_units_def semantic_units_text split: if_split) simp
qed

lemma semantic_units_from_source:
  "m \<in> set (semantic_units_from n k us) \<Longrightarrow>
     \<exists>u \<in> set us. mu_heading_path m = su_heading_path u \<and> mu_block_type m = su_block_type u
       \<and> mu_source_unit_ids m = [su_unit_id u]"
proof (induction n k us rule: semantic_units_from.induct)
  case (2 n k u us)
  then consider "m \<in> set (semantic_units_from n (k + length (pieces_of n (su_text u))) us)"
    | i p f where "m = semantic_unit_of u i p f"
    by (auto simp: Let_def)
  then show ?case
    by cases (use "2.IH" [OF refl] in \<open>auto simp: semantic_unit_of_def\<close>)
qed simp

lemma region_units_source:
  assumes "m \<in> set (region_units P r)"
  shows "\<exists>u \<in> set (sr_units r). mu_heading_path m = su_heading_path u \<and> mu_block_type m = su_block_type u
       \<and> mu_source_unit_ids m = [su_unit_id u]"
proof -
  consider "m \<in> set (semantic_units_from (nat (sp_max_semantic_unit_chars P)) 0 (sr_units r))"
    | "m \<in> set (map (\<lambda>(i, u). semantic_unit_of u i (su_text u) None) (enumerate_from 0 (sr_units r)))"
    using assms by (auto simp: region_units_def split: if_splits)
  then show ?thesis
  proof cases
    case 1
    then show ?thesis by (rule semantic_units_from_source)
  next
    case 2
    then show ?thesis by (force simp: semantic_unit_of_def enumerate_from_eq)
  qed
qed

lemma split_with_trace_text:
  assumes "split_with_trace u enc k P r = Inr sn"
  shows "concat (map (nonspace \<circ> mu_text) (concat (map sg_units (sn_segments sn))))
       = concat (map (nonspace \<circ> su_text) (sr_units r))"
  using segments_partition_units [OF assms] region_units_text [of P r] by simp

lemma trace_bounds:
  assumes "split_with_trace u enc k P r = Inr sn" "b \<in> set (sn_boundaries sn)"
  shows "0 \<le> sb_boundary_score b \<and> sb_boundary_score b \<le> 1 \<and> \<bar>sb_local_similarity b\<bar> \<le> 1
    \<and> \<bar>sb_adjacent_similarity b\<bar> \<le> 1 \<and> 0 \<le> sb_continuation_score b \<and> sb_continuation_score b \<le> 1"
  using assms(1)
proof (cases rule: split_with_trace_cases)
  case 1
  with assms(2) show ?thesis by (simp add: whole_region_def)
next
  case (2 vectors bs)
  with assms(2) obtain c where "c \<in> set bs" "sb_boundary_score b = sb_boundary_score c"
    "sb_local_similarity b = sb_local_similarity c" "sb_adjacent_similarity b = sb_adjacent_similarity c"
    "sb_continuation_score b = sb_continuation_score c"
    by (auto simp: select_boundaries_def Let_def)
  with traverse_Inr_all [OF 2(3)] boundary_bounds show ?thesis by metis
qed

lemma trace_minority:
  assumes "split_with_trace u enc k P r = Inr sn" "0 \<le> sp_mad_multiplier P"
  shows "2 * length (filter sb_selected (sn_boundaries sn)) \<le> length (sn_boundaries sn)"
  using assms(1)
proof (cases rule: split_with_trace_cases)
  case 1
  then show ?thesis by (simp add: whole_region_def)
next
  case (2 vectors bs)
  with selected_minority [OF assms(2), of bs] show ?thesis by simp
qed

subsection \<open>Properties\<close>

text \<open>A segmentation partitions the region: its segments, read in order, are the semantic units
  of the region with all their text, no segment of several is empty, and consecutive segments meet
  exactly at the selected boundaries of the trace.\<close>

theorem segmentation_partition:
  assumes "split_with_trace u enc k P r = Inr sn"
  shows "concat (map sg_units (sn_segments sn)) = region_units P r
       \<and> concat (map (nonspace \<circ> mu_text) (region_units P r)) = concat (map (nonspace \<circ> su_text) (sr_units r))
       \<and> map sg_boundary_after (sn_segments sn) = map Some (filter sb_selected (sn_boundaries sn)) @ [None]
       \<and> map sg_boundary_before (sn_segments sn) = None # map Some (filter sb_selected (sn_boundaries sn))
       \<and> (1 < length (sn_segments sn) \<longrightarrow> [] \<notin> set (map sg_units (sn_segments sn)))"
  using segments_partition_units [OF assms] region_units_text [of P r] by blast

text \<open>Every score of the trace is between 0 and 1, whatever vectors the encoder returns, and the
  adaptive threshold selects at most half of the boundaries.\<close>

theorem trace_bounded:
  assumes "split_with_trace u enc k P r = Inr sn" "check_semantic_policy P = Inr P"
  shows "list_all (\<lambda>b. 0 \<le> sb_boundary_score b \<and> sb_boundary_score b \<le> 1) (sn_boundaries sn)
       \<and> 2 * length (filter sb_selected (sn_boundaries sn)) \<le> length (sn_boundaries sn)"
proof -
  have "0 \<le> sp_mad_multiplier P" using assms(2) by (auto simp: check_semantic_policy_def split: if_splits)
  then show ?thesis
    using trace_minority [OF assms(1)] trace_bounds [OF assms(1)] by (auto simp: list_all_iff)
qed

subsection \<open>Instances\<close>

definition sample_block :: "block_type \<Rightarrow> ustr \<Rightarrow> document_block" where
  "sample_block t s =
     \<lparr>db_file_type = FtText, db_page_number = 1, db_block_index = 1, db_text = s,
      db_processing_mode = ''text_native'', db_source_element = ''text_file'', db_block_type = t,
      db_heading_level = None, db_bbox = None, db_reading_order = None,
      db_structure_confidence = None, db_source_char_start = None, db_source_char_end = None,
      db_source_format = None\<rparr>"

definition sample_region :: structural_region where
  "sample_region =
     \<lparr>sr_region_id = ''region-1'', sr_heading_path = [],
      sr_units = [\<lparr>su_unit_id = ''unit-1-1'', su_text = lit ''A. B.'', su_block_type = BtParagraph,
        su_page_number = 1, su_block_index = 1, su_heading_path = [], su_bbox = None,
        su_reading_order = 1, su_structure_confidence = None,
        su_block = sample_block BtParagraph (lit ''A. B.''), su_slide_context = None\<rparr>],
      sr_region_type = ''text'', sr_boundary_before = Soft, sr_boundary_after = Soft\<rparr>"

text \<open>An encoder with one coordinate, the length of the text.\<close>

definition length_encoder :: encoder where
  "length_encoder ts = Inr (map (\<lambda>t. [real (length t)]) ts)"

lemma sample_region_splits:
  "\<exists>sn. split_with_trace ascii_db length_encoder 64 default_semantic_policy sample_region = Inr sn"
proof -
  have units: "map mu_text (region_units default_semantic_policy sample_region) = [lit ''A.'', lit ''B.'']"
    "length (region_units default_semantic_policy sample_region) = 2"
    by (simp_all add: region_units_def sample_region_def default_semantic_policy_def pieces_of_def
        split_sentences_def cut_after_def lit_def py_isspace_def strip_def lstrip_def rstrip_def
        rstrip_of_def slices.simps semantic_unit_of_def Let_def)
  have enc: "embed_all length_encoder 64 [lit ''A.'', lit ''B.''] = Inr [[2], [2]]"
    by (simp add: embed_all_def batches.simps length_encoder_def)
  have fields: "sr_region_type sample_region = ''text''"
    "sp_max_semantic_units default_semantic_policy = 10000" "sp_window_size default_semantic_policy = 2"
    by (simp_all add: sample_region_def default_semantic_policy_def)
  show ?thesis
    by (simp add: split_with_trace_def Let_def units enc fields make_boundary_def mean_vector_def
        numeral_2_eq_2)
qed

lemma segmentation_partition_witness:
  "\<exists>sn. split_with_trace ascii_db length_encoder 64 default_semantic_policy sample_region = Inr sn
     \<and> concat (map sg_units (sn_segments sn)) = region_units default_semantic_policy sample_region"
  using sample_region_splits segmentation_partition by blast

lemma trace_bounded_witness:
  "\<exists>sn. split_with_trace ascii_db length_encoder 64 default_semantic_policy sample_region = Inr sn
     \<and> 2 * length (filter sb_selected (sn_boundaries sn)) \<le> length (sn_boundaries sn)"
proof -
  obtain sn where sn: "split_with_trace ascii_db length_encoder 64 default_semantic_policy sample_region = Inr sn"
    using sample_region_splits by blast
  have "check_semantic_policy default_semantic_policy = Inr default_semantic_policy"
    by (simp add: check_semantic_policy_def default_semantic_policy_def)
  from trace_bounded [OF sn this] sn show ?thesis by blast
qed

end
