(* ===== verification/Size_Guard.thy ===== *)
theory Size_Guard
  imports Chunk_Domain
begin

text \<open>
  The size guard of the hybrid chunker (size_guard.py in
  backend/app/domain/rag/chunking/v3): it turns the semantic segments of a region into chunks
  of at most \<open>max_tokens\<close> tokens, splitting text at unit boundaries, code at definitions,
  blank lines and lines, tables at rows and cells, and finally any text at characters; then it
  merges chunks below \<open>min_tokens\<close> with a neighbour.

  The loops of the source that shrink a window until it fits are \<open>shrink\<close> and
  \<open>greedy_pieces\<close>; the loop shape its three code splitters repeat is \<open>pack\<close>. The merge loop
  is a recursion on the entries and the index with the measure \<open>2 * length entries - index\<close>.
\<close>

record size_guard =
  zg_count :: "ustr \<Rightarrow> nat"
  zg_policy :: size_policy
  zg_heading :: bool

definition fits :: "size_guard \<Rightarrow> ustr \<Rightarrow> bool" where
  "fits G s \<longleftrightarrow> int (zg_count G s) \<le> zp_max_tokens (zg_policy G)"

subsection \<open>Candidates\<close>

definition make_chunk :: "size_guard \<Rightarrow> semantic_unit list \<Rightarrow> string \<Rightarrow> chunk_candidate" where
  "make_chunk G us action =
     \<lparr>cc_content = render (zg_heading G) us,
      cc_chunk_type = block_type_value (mu_block_type (hd us)),
      cc_heading_path = mu_heading_path (hd us),
      cc_source_unit_ids = concat (map mu_source_unit_ids us),
      cc_page_start = Min (set (map mu_page_start us)),
      cc_page_end = Max (set (map mu_page_end us)),
      cc_metadata = \<lparr>sm_action = action, sm_counts = None\<rparr>, cc_boundaries = []\<rparr>"

definition with_count :: "size_guard \<Rightarrow> chunk_candidate \<Rightarrow> string + chunk_candidate" where
  "with_count G c =
     (if \<not> fits G (cc_content c) then Inl ''final rendered chunk exceeds max_tokens''
      else Inr (c\<lparr>cc_metadata := (cc_metadata c)\<lparr>sm_counts := Some
          \<lparr>sc_min_tokens = zp_min_tokens (zg_policy G),
           sc_target_tokens = zp_target_tokens (zg_policy G),
           sc_max_tokens = zp_max_tokens (zg_policy G),
           sc_token_count = zg_count G (cc_content c)\<rparr>\<rparr>\<rparr>))"

definition with_action :: "string \<Rightarrow> chunk_candidate \<Rightarrow> chunk_candidate" where
  "with_action a c = c\<lparr>cc_metadata := \<lparr>sm_action = a, sm_counts = None\<rparr>\<rparr>"

subsection \<open>Pieces of a text\<close>

fun shrink :: "(ustr \<Rightarrow> bool) \<Rightarrow> ustr \<Rightarrow> nat \<Rightarrow> nat" where
  "shrink fit s 0 = 0"
| "shrink fit s (Suc k) = (if fit (take (Suc k) s) then Suc k else shrink fit s k)"

lemma shrink_le: "shrink fit s k \<le> k"
  by (induction k) (auto simp: le_Suc_eq)

lemma shrink_fits: "shrink fit s k \<noteq> 0 \<Longrightarrow> fit (take (shrink fit s k) s)"
  by (induction k) auto

lemma shrink_pos: "fit (take 1 s) \<Longrightarrow> 0 < k \<Longrightarrow> 0 < shrink fit s k"
  by (induction k) (auto simp: less_Suc_eq)

function greedy_pieces :: "(ustr \<Rightarrow> bool) \<Rightarrow> nat \<Rightarrow> string \<Rightarrow> ustr \<Rightarrow> string + ustr list" where
  "greedy_pieces fit window err s =
     (if s = [] then Inr []
      else let k = shrink fit s (min (length s) window)
           in if k = 0 then Inl err
              else bind_res (greedy_pieces fit window err (drop k s)) (\<lambda>ps. Inr (take k s # ps)))"
  by pat_completeness auto
termination by (relation "measure (\<lambda>(_, _, _, s). length s)") auto

declare greedy_pieces.simps [simp del]

lemma greedy_pieces_sound:
  "greedy_pieces fit window err s = Inr ps \<Longrightarrow> concat ps = s \<and> (\<forall>p \<in> set ps. p \<noteq> [] \<and> fit p)"
proof (induction fit window err s arbitrary: ps rule: greedy_pieces.induct)
  case (1 fit window err s)
  show ?case
  proof (cases "s = []")
    case True
    with "1.prems" show ?thesis by (simp add: greedy_pieces.simps)
  next
    case False
    let ?k = "shrink fit s (min (length s) window)"
    from "1.prems" False obtain qs where k: "?k \<noteq> 0"
      and qs: "greedy_pieces fit window err (drop ?k s) = Inr qs" and ps: "ps = take ?k s # qs"
      by (subst (asm) greedy_pieces.simps) (auto simp: Let_def bind_res_Inr_iff split: if_splits)
    from "1.IH" [OF False refl k qs] have "concat qs = drop ?k s" "\<forall>p \<in> set qs. p \<noteq> [] \<and> fit p" by auto
    with ps k False shrink_fits [of fit s "min (length s) window"] show ?thesis by auto
  qed
qed

lemma greedy_pieces_total:
  "\<forall>c \<in> set s. fit [c] \<Longrightarrow> 0 < window \<Longrightarrow> is_ok (greedy_pieces fit window err s)"
proof (induction fit window err s rule: greedy_pieces.induct)
  case (1 fit window err s)
  show ?case
  proof (cases "s = []")
    case True
    then show ?thesis by (simp add: greedy_pieces.simps)
  next
    case False
    let ?k = "shrink fit s (min (length s) window)"
    have "fit (take 1 s)" using "1.prems"(1) False by (cases s) auto
    then have k: "?k \<noteq> 0" using shrink_pos [of fit s] "1.prems"(2) False by simp
    have "\<forall>c \<in> set (drop ?k s). fit [c]" using "1.prems"(1) by (meson in_set_dropD)
    with "1.IH" [OF False refl k] "1.prems"(2)
    have "is_ok (greedy_pieces fit window err (drop ?k s))" by blast
    with k False show ?thesis by (subst greedy_pieces.simps) (auto simp: Let_def is_ok_iff)
  qed
qed

subsection \<open>Tables\<close>

definition markdown_cells :: "ustr \<Rightarrow> ustr list option" where
  "markdown_cells row =
     (let s = strip row
      in if \<not> prefix [124] s \<or> \<not> suffix [124] s then None
         else Some (map strip (split_on 124 (butlast (tl s)))))"

definition markdown_row :: "ustr list \<Rightarrow> ustr" where
  "markdown_row cells = [124, 32] @ join [32, 124, 32] cells @ [32, 124]"

definition table_text :: "ustr list \<Rightarrow> ustr list \<Rightarrow> ustr" where
  "table_text header rows = join [10] (header @ rows)"

definition cell_row :: "nat \<Rightarrow> nat \<Rightarrow> ustr \<Rightarrow> ustr" where
  "cell_row columns i piece = markdown_row ((replicate columns [])[i := piece])"

definition cell_fragments ::
  "size_guard \<Rightarrow> ustr list \<Rightarrow> nat \<Rightarrow> nat \<Rightarrow> ustr \<Rightarrow> string + ustr list" where
  "cell_fragments G header columns i cell =
     (if cell = [] then Inr [markdown_row (replicate columns [])]
      else bind_res
        (greedy_pieces (\<lambda>p. fits G (table_text header [cell_row columns i p])) (length cell)
           ''table header leaves no room for a token-safe cell fragment'' cell)
        (\<lambda>ps. Inr (map (cell_row columns i) ps)))"

definition row_fragments :: "size_guard \<Rightarrow> ustr list \<Rightarrow> ustr \<Rightarrow> string + ustr list" where
  "row_fragments G header row =
     (if fits G (table_text header [row]) then Inr [row]
      else case (markdown_cells row, markdown_cells (hd header)) of
        (Some cells, Some header_cells) \<Rightarrow>
          if length cells \<noteq> length header_cells
          then Inl ''unable to split invalid oversized table row''
          else bind_res (traverse (\<lambda>(i, cell). cell_fragments G header (length cells) i cell)
                 (enumerate_from 0 cells)) (\<lambda>fss. Inr (concat fss))
      | _ \<Rightarrow> Inl ''unable to split invalid oversized table row'')"

fun add_fragments ::
  "size_guard \<Rightarrow> ustr list \<Rightarrow> ustr list \<Rightarrow> ustr list \<Rightarrow> string + ustr list \<times> ustr list" where
  "add_fragments G header rows [] = Inr ([], rows)"
| "add_fragments G header rows (f # fs) =
     (let overflow = rows \<noteq> [] \<and> \<not> fits G (table_text header (rows @ [f]));
          rows' = (if overflow then [f] else rows @ [f])
      in if \<not> fits G (table_text header rows')
         then Inl ''unable to produce token-safe table fragment''
         else bind_res (add_fragments G header rows' fs) (\<lambda>(chunks, r).
           Inr ((if overflow then [table_text header rows] else []) @ chunks, r)))"

fun table_loop :: "size_guard \<Rightarrow> ustr list \<Rightarrow> ustr list \<Rightarrow> ustr list \<Rightarrow> string + ustr list" where
  "table_loop G header rows [] = Inr (if rows = [] then [] else [table_text header rows])"
| "table_loop G header rows (l # ls) =
     bind_res (row_fragments G header l) (\<lambda>fs.
     bind_res (add_fragments G header rows fs) (\<lambda>(chunks, rows').
     bind_res (table_loop G header rows' ls) (\<lambda>rest. Inr (chunks @ rest))))"

definition table_contents :: "size_guard \<Rightarrow> ustr list \<Rightarrow> string + ustr list" where
  "table_contents G lines =
     (if length lines < 3 then Inl ''table fallback requires a header and at least one row''
      else if markdown_cells (lines ! 0) = None \<or> markdown_cells (lines ! 1) = None
      then Inl ''table fallback requires valid markdown table headers''
      else table_loop G (take 2 lines) [] (drop 2 lines))"

definition split_table :: "size_guard \<Rightarrow> semantic_unit list \<Rightarrow> string + chunk_candidate list" where
  "split_table G us =
     bind_res (table_contents G (splitlines (join [10] (map mu_text us)))) (\<lambda>contents.
       traverse (\<lambda>c. with_count G (make_chunk G [(hd us)\<lparr>mu_text := c\<rparr>] ''table_row_split'')) contents)"

subsection \<open>Code\<close>

definition fence :: ustr where
  "fence = [96, 96, 96]"

definition fence_parts :: "ustr \<Rightarrow> bool \<times> ustr \<times> ustr" where
  "fence_parts s =
     (let ls = splitlines s
      in if 2 \<le> length ls \<and> prefix fence (lstrip (hd ls)) \<and> strip (last ls) = fence
         then (True, join [10] (butlast (tl ls)), strip (drop 3 (strip (hd ls))))
         else (False, s, []))"

definition fenced :: "ustr list \<Rightarrow> ustr \<Rightarrow> ustr" where
  "fenced lines language = join [10] ([rstrip (fence @ language)] @ lines @ [fence])"

definition code_text :: "bool \<Rightarrow> ustr \<Rightarrow> ustr list \<Rightarrow> ustr" where
  "code_text is_fenced language lines = (if is_fenced then fenced lines language else join [10] lines)"

definition definition_pattern :: regex where
  "definition_pattern =
     seq_of [Star (Cls py_isspace),
       any_of [seq_of [Word_re (lit ''async''), Plus (Cls py_isspace), Word_re (lit ''def'')],
         Word_re (lit ''def''), Word_re (lit ''class'')],
       Plus (Cls py_isspace)]"

fun code_groups_from :: "ustr list \<Rightarrow> ustr list \<Rightarrow> ustr list list" where
  "code_groups_from cur [] = (if cur = [] then [] else [cur])"
| "code_groups_from cur (l # ls) =
     (if cur \<noteq> [] \<and> matches definition_pattern l 0 \<noteq> [] then cur # code_groups_from [l] ls
      else code_groups_from (cur @ [l]) ls)"

fun blank_line_groups_from :: "ustr list \<Rightarrow> ustr list \<Rightarrow> ustr list list" where
  "blank_line_groups_from cur [] = (if cur = [] then [] else [cur])"
| "blank_line_groups_from cur (l # ls) =
     (if strip l = [] then (cur @ [l]) # blank_line_groups_from [] ls
      else blank_line_groups_from (cur @ [l]) ls)"

text \<open>The shape of the three code splitters: groups are collected while they fit together, and
  a group that does not fit on its own is handed to the next finer splitter.\<close>

fun pack ::
  "('l list \<Rightarrow> bool) \<Rightarrow> ('l list \<Rightarrow> 'c) \<Rightarrow> ('l list \<Rightarrow> 'e + 'c list) \<Rightarrow> 'l list \<Rightarrow> 'l list list \<Rightarrow> 'e + 'c list"
where
  "pack fit emit finer cur [] = Inr (if cur = [] then [] else [emit cur])"
| "pack fit emit finer cur (g # gs) =
     (let full = cur \<noteq> [] \<and> \<not> fit (cur @ g);
          out = (if full then [emit cur] else []);
          cur' = (if full then [] else cur)
      in if cur' = [] \<and> \<not> fit g
         then bind_res (finer g) (\<lambda>fs. bind_res (pack fit emit finer [] gs) (\<lambda>rest. Inr (out @ fs @ rest)))
         else bind_res (pack fit emit finer (cur' @ g) gs) (\<lambda>rest. Inr (out @ rest)))"

definition code_chunk ::
  "size_guard \<Rightarrow> semantic_unit \<Rightarrow> bool \<Rightarrow> ustr \<Rightarrow> string \<Rightarrow> ustr list \<Rightarrow> chunk_candidate" where
  "code_chunk G src fen lang action lines =
     make_chunk G [src\<lparr>mu_text := code_text fen lang lines\<rparr>] action"

definition code_line_fragments ::
  "size_guard \<Rightarrow> semantic_unit \<Rightarrow> ustr \<Rightarrow> bool \<Rightarrow> ustr \<Rightarrow> string + chunk_candidate list" where
  "code_line_fragments G src lang fen line =
     bind_res
       (greedy_pieces (\<lambda>p. fits G (code_text fen lang [p])) (length line)
          ''code fence leaves no room for a token-safe line fragment'' line)
       (\<lambda>ps. Inr (map (\<lambda>p. code_chunk G src fen lang ''code_line_fragment'' [p]) ps))"

definition code_line_groups ::
  "size_guard \<Rightarrow> semantic_unit \<Rightarrow> ustr \<Rightarrow> bool \<Rightarrow> ustr list \<Rightarrow> string + chunk_candidate list" where
  "code_line_groups G src lang fen lines =
     pack (\<lambda>ls. fits G (code_text fen lang ls)) (code_chunk G src fen lang ''code_line_split'')
       (\<lambda>ls. code_line_fragments G src lang fen (hd ls)) [] (map (\<lambda>l. [l]) lines)"

definition code_group_fragments ::
  "size_guard \<Rightarrow> semantic_unit \<Rightarrow> ustr \<Rightarrow> bool \<Rightarrow> ustr list \<Rightarrow> string + chunk_candidate list" where
  "code_group_fragments G src lang fen grp =
     pack (\<lambda>ls. fits G (code_text fen lang ls)) (code_chunk G src fen lang ''code_blank_line_split'')
       (code_line_groups G src lang fen) [] (blank_line_groups_from [] grp)"

subsection \<open>The final fallback\<close>

definition code_fallback :: "size_guard \<Rightarrow> chunk_candidate \<Rightarrow> string + chunk_candidate list" where
  "code_fallback G c =
     (let (fen, body, lang) = fence_parts (cc_content c);
          src = \<lparr>mu_unit_id = ''size-guard-code-fallback'', mu_text = cc_content c,
                 mu_source_unit_ids = cc_source_unit_ids c, mu_page_start = cc_page_start c,
                 mu_page_end = cc_page_end c, mu_heading_path = cc_heading_path c,
                 mu_block_type = BtCode, mu_order = 0\<rparr>
      in bind_res
          (traverse (\<lambda>line. bind_res (code_line_fragments G src lang fen line)
             (\<lambda>fs. traverse (\<lambda>f. with_count G (with_action ''code_structure_fallback'' f)) fs))
             (splitlines (if fen then body else cc_content c)))
          (\<lambda>fss. Inr (concat fss)))"

definition table_fallback :: "size_guard \<Rightarrow> chunk_candidate \<Rightarrow> string + chunk_candidate list" where
  "table_fallback G c =
     bind_res (table_contents G (splitlines (cc_content c))) (\<lambda>contents.
       traverse (\<lambda>t. with_count G (with_action ''table_structure_fallback'' (c\<lparr>cc_content := t\<rparr>))) contents)"

definition hard_fallback :: "size_guard \<Rightarrow> chunk_candidate \<Rightarrow> string + chunk_candidate list" where
  "hard_fallback G c =
     bind_res (greedy_pieces (fits G) (nat (max 1 (zp_max_tokens (zg_policy G))))
         ''unable to produce token-safe chunk'' (cc_content c)) (\<lambda>pieces.
       traverse (\<lambda>p. with_count G (with_action ''hard_fallback'' (c\<lparr>cc_content := p\<rparr>))) pieces)"

definition safe_candidate :: "size_guard \<Rightarrow> chunk_candidate \<Rightarrow> string + chunk_candidate list" where
  "safe_candidate G c =
     (if fits G (cc_content c) then bind_res (with_count G c) (\<lambda>c. Inr [c])
      else if cc_chunk_type c = ''table'' then table_fallback G c
      else if cc_chunk_type c = ''code'' then code_fallback G c
      else hard_fallback G c)"

definition force_safe :: "size_guard \<Rightarrow> chunk_candidate list \<Rightarrow> string + chunk_candidate list" where
  "force_safe G cs = bind_res (traverse (safe_candidate G) cs) (\<lambda>css. Inr (concat css))"

subsection \<open>Segments\<close>

fun text_groups ::
  "size_guard \<Rightarrow> semantic_unit list \<Rightarrow> semantic_unit list \<Rightarrow> (semantic_unit list \<times> string) list" where
  "text_groups G cur [] = (if cur = [] then [] else [(cur, ''kept'')])"
| "text_groups G cur (u # us) =
     (if cur \<noteq> [] \<and> \<not> fits G (render (zg_heading G) (cur @ [u]))
      then (cur, ''oversize_split'') # text_groups G [u] us
      else text_groups G (cur @ [u]) us)"

definition split_text :: "size_guard \<Rightarrow> semantic_unit list \<Rightarrow> string + chunk_candidate list" where
  "split_text G us = force_safe G (map (\<lambda>(g, a). make_chunk G g a) (text_groups G [] us))"

definition split_code :: "size_guard \<Rightarrow> semantic_unit list \<Rightarrow> string + chunk_candidate list" where
  "split_code G us =
     (let text = join [10] (map mu_text us); (fen, body, lang) = fence_parts text;
          lines = splitlines (if fen then body else text)
      in bind_res
          (pack (\<lambda>ls. fits G (code_text fen lang ls)) (code_chunk G (hd us) fen lang ''code_line_split'')
             (code_group_fragments G (hd us) lang fen) [] (code_groups_from [] lines))
          (force_safe G))"

definition split_segment :: "size_guard \<Rightarrow> semantic_segment \<Rightarrow> string + chunk_candidate list" where
  "split_segment G s =
     (case sg_units s of [] \<Rightarrow> Inr []
      | u # _ \<Rightarrow>
          if mu_block_type u = BtTable then split_table G (sg_units s)
          else if mu_block_type u = BtCode then split_code G (sg_units s)
          else split_text G (sg_units s))"

subsection \<open>Merging tiny chunks\<close>

type_synonym entry = "chunk_candidate \<times> semantic_boundary option \<times> semantic_boundary option"

definition merge_candidates ::
  "size_guard \<Rightarrow> chunk_candidate \<Rightarrow> chunk_candidate \<Rightarrow> chunk_candidate option" where
  "merge_candidates G l r =
     (if cc_chunk_type l \<noteq> cc_chunk_type r \<or> cc_chunk_type l = ''code'' \<or> cc_chunk_type l = ''table''
      then None
      else (let combined = strip (cc_content l @ [10, 10] @ cc_content r)
            in if \<not> fits G combined then None
               else Some (l\<lparr>cc_content := combined,
                 cc_source_unit_ids := cc_source_unit_ids l @ cc_source_unit_ids r,
                 cc_page_end := max (cc_page_end l) (cc_page_end r),
                 cc_metadata := \<lparr>sm_action = ''tiny_merge'', sm_counts = None\<rparr>,
                 cc_boundaries := cc_boundaries l @ cc_boundaries r\<rparr>)))"

text \<open>\<open>_boundary_score(before) <= _boundary_score(after)\<close>, where no boundary scores infinity.\<close>

definition score_le :: "semantic_boundary option \<Rightarrow> semantic_boundary option \<Rightarrow> bool" where
  "score_le a b =
     (case b of None \<Rightarrow> True
      | Some y \<Rightarrow> (case a of None \<Rightarrow> False | Some x \<Rightarrow> sb_boundary_score x \<le> sb_boundary_score y))"

definition tiny :: "size_guard \<Rightarrow> chunk_candidate \<Rightarrow> bool" where
  "tiny G c \<longleftrightarrow> int (zg_count G (cc_content c)) < zp_min_tokens (zg_policy G)"

definition remove_at :: "nat \<Rightarrow> 'a list \<Rightarrow> 'a list" where
  "remove_at i xs = take i xs @ drop (Suc i) xs"

function merge_loop :: "size_guard \<Rightarrow> entry list \<Rightarrow> nat \<Rightarrow> entry list" where
  "merge_loop G es i =
     (if length es \<le> i then es
      else (let (c, before, after) = es ! i
            in if \<not> tiny G c then merge_loop G es (Suc i)
               else (let left = (if i = 0 then None else merge_candidates G (fst (es ! (i - 1))) c);
                         right = (if Suc i < length es then merge_candidates G c (fst (es ! Suc i)) else None);
                         choose_left = (if left \<noteq> None \<and> right \<noteq> None then score_le before after else left \<noteq> None)
                     in case (if choose_left then left else None) of
                          Some m \<Rightarrow> merge_loop G
                            (remove_at i (es[i - 1 := (m, fst (snd (es ! (i - 1))), after)])) (i - 1)
                        | None \<Rightarrow>
                           (case right of
                              Some m \<Rightarrow> merge_loop G
                                (remove_at i (es[Suc i := (m, before, snd (snd (es ! Suc i)))])) i
                            | None \<Rightarrow> merge_loop G es (Suc i)))))"
  by pat_completeness auto
termination
  by (relation "measure (\<lambda>(G, es, i). 2 * length es - i)")
     (auto simp: remove_at_def split: if_splits)

declare merge_loop.simps [simp del]

subsection \<open>The guard\<close>

definition segment_entries ::
  "semantic_segment \<Rightarrow> chunk_candidate list \<Rightarrow> entry list" where
  "segment_entries s cs =
     map (\<lambda>(i, c). (c\<lparr>cc_boundaries := segment_boundaries s\<rparr>,
         if i = 0 then sg_boundary_before s else None,
         if i = length cs - 1 then sg_boundary_after s else None)) (enumerate_from 0 cs)"

definition apply_guard :: "size_guard \<Rightarrow> semantic_segment list \<Rightarrow> string + chunk_candidate list" where
  "apply_guard G segs =
     bind_res (traverse (\<lambda>s. bind_res (split_segment G s) (\<lambda>cs. Inr (segment_entries s cs))) segs) (\<lambda>ess.
       traverse (\<lambda>e. with_count G (fst e)) (merge_loop G (concat ess) 0))"

subsection \<open>Merging as steps\<close>

text \<open>The merge loop only ever replaces two neighbouring chunks by their merge.\<close>

inductive merge_step :: "size_guard \<Rightarrow> chunk_candidate list \<Rightarrow> chunk_candidate list \<Rightarrow> bool" for G where
  merge: "merge_candidates G a b = Some m \<Longrightarrow> merge_step G (xs @ [a, b] @ ys) (xs @ [m] @ ys)"

inductive_cases merge_stepE: "merge_step G cs ds"

lemma split_pair:
  "Suc i < length xs \<Longrightarrow> xs = take i xs @ [xs ! i, xs ! Suc i] @ drop (Suc (Suc i)) xs"
  by (simp add: Cons_nth_drop_Suc)

lemma remove_left:
  "Suc i < length es \<Longrightarrow>
     map fst (remove_at (Suc i) (es[i := (m, b, a)])) = take i (map fst es) @ [m] @ drop (Suc (Suc i)) (map fst es)"
  by (simp add: remove_at_def take_map drop_map take_Suc_conv_app_nth)

lemma remove_right:
  "Suc i < length es \<Longrightarrow>
     map fst (remove_at i (es[Suc i := (m, b, a)])) = take i (map fst es) @ [m] @ drop (Suc (Suc i)) (map fst es)"
  by (simp add: remove_at_def take_map drop_map drop_update_swap) (simp add: Cons_nth_drop_Suc [symmetric])

lemma merge_stepI:
  assumes "Suc i < length es" "merge_candidates G (fst (es ! i)) (fst (es ! Suc i)) = Some m"
  shows "merge_step G (map fst es) (take i (map fst es) @ [m] @ drop (Suc (Suc i)) (map fst es))"
proof -
  have "map fst es = take i (map fst es) @ [fst (es ! i), fst (es ! Suc i)] @ drop (Suc (Suc i)) (map fst es)"
    using split_pair [of i "map fst es"] assms(1) by simp
  then show ?thesis using merge_step.merge [OF assms(2)] by metis
qed

lemma merge_loop_steps: "(merge_step G)\<^sup>*\<^sup>* (map fst es) (map fst (merge_loop G es i))"
proof (induction G es i rule: merge_loop.induct)
  case (1 G es i)
  show ?case
  proof (cases "length es \<le> i")
    case True
    then show ?thesis by (simp add: merge_loop.simps)
  next
    case False
    obtain c before after where e: "es ! i = (c, before, after)" by (metis surj_pair)
    show ?thesis
    proof (cases "tiny G c")
      case no: False
      then show ?thesis
        using "1.IH"(1) [OF False refl e [symmetric] refl no] e no False by (subst merge_loop.simps) simp
    next
      case t: True
      then have tt: "\<not> \<not> tiny G c" by simp
      let ?left = "if i = 0 then None else merge_candidates G (fst (es ! (i - 1))) c"
      let ?right = "if Suc i < length es then merge_candidates G c (fst (es ! Suc i)) else None"
      let ?choose = "if ?left \<noteq> None \<and> ?right \<noteq> None then score_le before after else ?left \<noteq> None"
      show ?thesis
      proof (cases "if ?choose then ?left else None")
        case (Some m)
        then have left: "?left = Some m" by (auto split: if_splits)
        then obtain k where k: "i = Suc k" by (cases i) auto
        have step: "merge_step G (map fst es)
            (map fst (remove_at i (es[i - 1 := (m, fst (snd (es ! (i - 1))), after)])))"
          using merge_stepI [of k es G m] remove_left [of k es] left False e k by simp
        have "merge_loop G es i
            = merge_loop G (remove_at i (es[i - 1 := (m, fst (snd (es ! (i - 1))), after)])) (i - 1)"
          using Some False t by (subst merge_loop.simps) (simp add: e)
        then show ?thesis
          using "1.IH"(4) [OF False refl e [symmetric] refl tt refl refl refl Some] t step
          by (simp add: converse_rtranclp_into_rtranclp)
      next
        case none: None
        show ?thesis
        proof (cases "?right")
          case None
          have "merge_loop G es i = merge_loop G es (Suc i)"
            using none None False t by (subst merge_loop.simps) (simp add: e)
          then show ?thesis
            using "1.IH"(2) [OF False refl e [symmetric] refl tt refl refl refl none None] t by simp
        next
          case (Some m)
          then have i: "Suc i < length es" by (auto split: if_splits)
          have step: "merge_step G (map fst es)
              (map fst (remove_at i (es[Suc i := (m, before, snd (snd (es ! Suc i)))])))"
            using merge_stepI [of i es G m] remove_right [of i es] Some i e by simp
          have "merge_loop G es i
              = merge_loop G (remove_at i (es[Suc i := (m, before, snd (snd (es ! Suc i)))])) i"
            using none Some False t by (subst merge_loop.simps) (simp add: e)
          then show ?thesis
            using "1.IH"(3) [OF False refl e [symmetric] refl tt refl refl refl none Some] t step
            by (simp add: converse_rtranclp_into_rtranclp)
        qed
      qed
    qed
  qed
qed

lemma merge_loop_all:
  assumes "\<forall>c \<in> fst ` set es. P c"
    and "\<And>a b m. merge_candidates G a b = Some m \<Longrightarrow> P a \<Longrightarrow> P b \<Longrightarrow> P m"
  shows "\<forall>c \<in> fst ` set (merge_loop G es i). P c"
proof -
  have "(merge_step G)\<^sup>*\<^sup>* cs ds \<Longrightarrow> \<forall>c \<in> set cs. P c \<Longrightarrow> \<forall>c \<in> set ds. P c" for cs ds
  proof (induction rule: rtranclp_induct)
    case (step y z)
    from step.hyps(2) show ?case
      using step.IH [OF step.prems] assms(2) by (cases rule: merge_step.cases) auto
  qed
  from this [OF merge_loop_steps] assms(1) show ?thesis by simp
qed

lemma merge_loop_concat:
  assumes "\<And>a b m. merge_candidates G a b = Some m \<Longrightarrow> f m = f a @ f b"
  shows "concat (map (f \<circ> fst) (merge_loop G es i)) = concat (map (f \<circ> fst) es)"
proof -
  have "(merge_step G)\<^sup>*\<^sup>* cs ds \<Longrightarrow> concat (map f ds) = concat (map f cs)" for cs ds
  proof (induction rule: rtranclp_induct)
    case (step y z)
    from step.hyps(2) show ?case
      using step.IH assms by (cases rule: merge_step.cases) auto
  qed simp
  from this [OF merge_loop_steps [of G es i]] show ?thesis by simp
qed

subsection \<open>Every emitted chunk fits\<close>

lemma with_count_Inr:
  "with_count G c = Inr d \<longleftrightarrow> fits G (cc_content c) \<and> d = c\<lparr>cc_metadata := (cc_metadata c)\<lparr>sm_counts := Some
          \<lparr>sc_min_tokens = zp_min_tokens (zg_policy G),
           sc_target_tokens = zp_target_tokens (zg_policy G),
           sc_max_tokens = zp_max_tokens (zg_policy G),
           sc_token_count = zg_count G (cc_content c)\<rparr>\<rparr>\<rparr>"
  by (auto simp: with_count_def)

lemma with_count_fits: "with_count G c = Inr d \<Longrightarrow> fits G (cc_content d)"
  by (auto simp: with_count_Inr)

lemma with_count_ok: "fits G (cc_content c) \<Longrightarrow> is_ok (with_count G c)"
  by (simp add: with_count_def)

lemma traverse_with_count_fits:
  "traverse (\<lambda>x. with_count G (h x)) xs = Inr ds \<Longrightarrow> d \<in> set ds \<Longrightarrow> fits G (cc_content d)"
  by (auto dest: traverse_Inr_all with_count_fits)

lemma safe_candidate_fits: "safe_candidate G c = Inr ds \<Longrightarrow> d \<in> set ds \<Longrightarrow> fits G (cc_content d)"
  by (fastforce simp: safe_candidate_def table_fallback_def code_fallback_def hard_fallback_def
      bind_res_Inr_iff split: if_splits prod.splits
      dest: traverse_Inr_all with_count_fits traverse_with_count_fits)

lemma force_safe_fits:
  assumes "force_safe G cs = Inr ds" "d \<in> set ds" shows "fits G (cc_content d)"
proof -
  obtain css where css: "traverse (safe_candidate G) cs = Inr css" and "ds = concat css"
    using assms(1) by (auto simp: force_safe_def bind_res_Inr_iff)
  with assms(2) obtain es where "es \<in> set css" "d \<in> set es" by auto
  with traverse_Inr_all [OF css] safe_candidate_fits show ?thesis by blast
qed

lemma split_segment_fits: "split_segment G s = Inr cs \<Longrightarrow> c \<in> set cs \<Longrightarrow> fits G (cc_content c)"
  by (auto simp: split_segment_def split_table_def split_code_def split_text_def bind_res_Inr_iff Let_def
      split: list.splits if_splits prod.splits dest: force_safe_fits traverse_with_count_fits)

lemma merge_candidates_fits: "merge_candidates G a b = Some m \<Longrightarrow> fits G (cc_content m)"
  by (auto simp: merge_candidates_def Let_def split: if_splits)

lemma segment_entries_contents:
  "map (cc_content \<circ> fst) (segment_entries s cs) = map cc_content cs"
  "map (cc_source_unit_ids \<circ> fst) (segment_entries s cs) = map cc_source_unit_ids cs"
  by (rule nth_equalityI; simp add: segment_entries_def case_prod_unfold)+

lemma merge_loop_fits:
  assumes "\<And>s cs. s \<in> set segs \<Longrightarrow> split_segment G s = Inr cs \<Longrightarrow> \<forall>c \<in> set cs. fits G (cc_content c)"
    and "traverse (\<lambda>s. bind_res (split_segment G s) (\<lambda>cs. Inr (segment_entries s cs))) segs = Inr ess"
  shows "\<forall>c \<in> fst ` set (merge_loop G (concat ess) 0). fits G (cc_content c)"
proof (rule merge_loop_all)
  show "\<forall>c \<in> fst ` set (concat ess). fits G (cc_content c)"
  proof
    fix c assume "c \<in> fst ` set (concat ess)"
    then obtain es where es: "es \<in> set ess" "c \<in> set (map fst es)" by auto
    from traverse_Inr_all [OF assms(2) es(1)] obtain s cs where s: "s \<in> set segs"
      "split_segment G s = Inr cs" "es = segment_entries s cs"
      by (auto simp: bind_res_Inr_iff)
    have "cc_content c \<in> set (map (cc_content \<circ> fst) es)" using es(2) by auto
    then have "cc_content c \<in> set (map cc_content cs)" unfolding s(3) segment_entries_contents .
    then show "fits G (cc_content c)" using assms(1) [OF s(1,2)] by auto
  qed
qed (rule merge_candidates_fits)

text \<open>The count after the merge loop never raises.\<close>

lemma apply_guard_cases:
  "(\<exists>e. apply_guard G segs = Inl e \<and> (\<exists>s \<in> set segs. split_segment G s = Inl e))
   \<or> (\<exists>ess out. traverse (\<lambda>s. bind_res (split_segment G s) (\<lambda>cs. Inr (segment_entries s cs))) segs = Inr ess
        \<and> apply_guard G segs = Inr out
        \<and> traverse (\<lambda>e. with_count G (fst e)) (merge_loop G (concat ess) 0) = Inr out)"
proof (cases "traverse (\<lambda>s. bind_res (split_segment G s) (\<lambda>cs. Inr (segment_entries s cs))) segs")
  case (Inl e)
  from traverse_Inl [OF this] have "\<exists>s \<in> set segs. split_segment G s = Inl e"
    by (auto simp: bind_res_Inl_iff)
  with Inl show ?thesis by (simp add: apply_guard_def)
next
  case (Inr ess)
  have "\<forall>c \<in> fst ` set (merge_loop G (concat ess) 0). fits G (cc_content c)"
    by (rule merge_loop_fits [OF _ Inr]) (use split_segment_fits in blast)
  then have "is_ok (traverse (\<lambda>e. with_count G (fst e)) (merge_loop G (concat ess) 0))"
    by (intro traverse_is_ok) (auto intro: with_count_ok)
  then obtain out where "traverse (\<lambda>e. with_count G (fst e)) (merge_loop G (concat ess) 0) = Inr out"
    by (auto simp: is_ok_iff)
  with Inr show ?thesis by (simp add: apply_guard_def)
qed

subsection \<open>No text is lost\<close>

definition text_segment :: "semantic_segment \<Rightarrow> bool" where
  "text_segment s \<longleftrightarrow> (\<forall>u \<in> set (sg_units s). mu_block_type u \<noteq> BtCode \<and> mu_block_type u \<noteq> BtTable)"

definition plain_heading :: "size_guard \<Rightarrow> semantic_segment \<Rightarrow> bool" where
  "plain_heading G s \<longleftrightarrow> \<not> zg_heading G \<or> (\<forall>u \<in> set (sg_units s). mu_heading_path u = [])"

lemma text_groups_concat:
  "concat (map fst (text_groups G cur us)) = cur @ us \<and> (\<forall>g \<in> set (text_groups G cur us). fst g \<noteq> [])"
  by (induction us arbitrary: cur) auto

lemma text_groups_member:
  assumes "g \<in> set (text_groups G [] us)" shows "set (fst g) \<subseteq> set us" "fst g \<noteq> []"
proof -
  note groups = text_groups_concat [of G "[]" us]
  have "set (fst g) \<subseteq> set (concat (map fst (text_groups G [] us)))" using assms by auto
  also have "\<dots> = set us" using groups by (simp only: append_Nil)
  finally show "set (fst g) \<subseteq> set us" .
  show "fst g \<noteq> []" using groups assms by blast
qed

lemma safe_text_contents:
  assumes "safe_candidate G c = Inr ds" "cc_chunk_type c \<noteq> ''code''" "cc_chunk_type c \<noteq> ''table''"
  shows "concat (map cc_content ds) = cc_content c"
proof (cases "fits G (cc_content c)")
  case True
  with assms(1) show ?thesis by (auto simp: safe_candidate_def bind_res_Inr_iff with_count_Inr)
next
  case False
  with assms obtain ps where ps: "greedy_pieces (fits G) (nat (max 1 (zp_max_tokens (zg_policy G))))
      ''unable to produce token-safe chunk'' (cc_content c) = Inr ps"
    and ds: "traverse (\<lambda>p. with_count G (with_action ''hard_fallback'' (c\<lparr>cc_content := p\<rparr>))) ps = Inr ds"
    by (auto simp: safe_candidate_def hard_fallback_def bind_res_Inr_iff)
  have "map cc_content ds = map (\<lambda>p. p) ps"
    by (rule traverse_preserves [OF ds]) (auto simp: with_count_Inr with_action_def)
  with greedy_pieces_sound [OF ps] show ?thesis by simp
qed

lemma safe_text_units:
  assumes "safe_candidate G c = Inr ds" "cc_chunk_type c \<noteq> ''code''" "cc_chunk_type c \<noteq> ''table''"
  shows "\<forall>d \<in> set ds. cc_source_unit_ids d = cc_source_unit_ids c"
    and "fits G [] \<Longrightarrow> ds \<noteq> []"
proof -
  show "\<forall>d \<in> set ds. cc_source_unit_ids d = cc_source_unit_ids c"
    using assms
    by (fastforce simp: safe_candidate_def hard_fallback_def bind_res_Inr_iff with_count_Inr with_action_def
        split: if_splits dest: traverse_Inr_all)
  show "ds \<noteq> []" if "fits G []"
  proof
    assume "ds = []"
    with safe_text_contents [OF assms] have "cc_content c = []" by simp
    with that have "fits G (cc_content c)" by simp
    with assms(1) \<open>ds = []\<close> show False by (auto simp: safe_candidate_def bind_res_Inr_iff)
  qed
qed

lemma make_chunk_type:
  "us \<noteq> [] \<Longrightarrow> text_segment s \<Longrightarrow> set us \<subseteq> set (sg_units s) \<Longrightarrow>
     cc_chunk_type (make_chunk G us a) \<noteq> ''code'' \<and> cc_chunk_type (make_chunk G us a) \<noteq> ''table''"
  by (cases us) (auto simp: make_chunk_def text_segment_def)

lemma split_text_segment:
  assumes "text_segment s" "split_segment G s = Inr cs"
  shows "plain_heading G s \<Longrightarrow>
      concat (map (nonspace \<circ> cc_content) cs) = concat (map (nonspace \<circ> mu_text) (sg_units s))"
    and "fits G [] \<Longrightarrow>
      \<Union> (set (map (set \<circ> cc_source_unit_ids) cs)) = \<Union> (set (map (set \<circ> mu_source_unit_ids) (sg_units s)))"
proof -
  let ?gs = "text_groups G [] (sg_units s)"
  note groups = text_groups_concat [of G "[]" "sg_units s"]
  note sub = text_groups_member [where G = G and us = "sg_units s"]
  have "split_text G (sg_units s) = Inr cs"
    using assms by (auto simp: split_segment_def text_segment_def split_text_def force_safe_def split: list.splits)
  then obtain css where css: "traverse (safe_candidate G) (map (\<lambda>(g, a). make_chunk G g a) ?gs) = Inr css"
    and cs: "cs = concat css"
    by (auto simp: split_text_def force_safe_def bind_res_Inr_iff)
  have kinds: "cc_chunk_type c \<noteq> ''code'' \<and> cc_chunk_type c \<noteq> ''table''"
    if "c \<in> set (map (\<lambda>(g, a). make_chunk G g a) ?gs)" for c
    using that sub make_chunk_type [OF _ assms(1)] by fastforce
  show "concat (map (nonspace \<circ> cc_content) cs) = concat (map (nonspace \<circ> mu_text) (sg_units s))"
    if plain: "plain_heading G s"
  proof -
    have "map (\<lambda>ds. nonspace (concat (map cc_content ds))) css
        = map (nonspace \<circ> cc_content) (map (\<lambda>(g, a). make_chunk G g a) ?gs)"
      using kinds by (intro traverse_preserves [OF css]) (simp add: safe_text_contents)
    also have "\<dots> = map (\<lambda>g. concat (map (nonspace \<circ> mu_text) (fst g))) ?gs"
    proof (rule nth_equalityI)
      fix i assume "i < length (map (nonspace \<circ> cc_content) (map (\<lambda>(g, a). make_chunk G g a) ?gs))"
      then have g: "?gs ! i \<in> set ?gs" by simp
      have "mu_heading_path (hd (fst (?gs ! i))) = [] \<or> \<not> zg_heading G"
        using plain subsetD [OF sub(1) [OF g] hd_in_set [OF sub(2) [OF g]]]
        by (auto simp: plain_heading_def)
      then have "nonspace (render (zg_heading G) (fst (?gs ! i)))
          = concat (map (nonspace \<circ> mu_text) (fst (?gs ! i)))"
        using nonspace_render sub(2) [OF g] by blast
      then show "map (nonspace \<circ> cc_content) (map (\<lambda>(g, a). make_chunk G g a) ?gs) ! i
          = map (\<lambda>g. concat (map (nonspace \<circ> mu_text) (fst g))) ?gs ! i"
        using \<open>i < _\<close> by (simp add: case_prod_unfold make_chunk_def)
    qed simp
    finally have "concat (map (\<lambda>ds. nonspace (concat (map cc_content ds))) css)
        = concat (map (\<lambda>g. concat (map (nonspace \<circ> mu_text) (fst g))) ?gs)" by simp
    also have "\<dots> = concat (map (nonspace \<circ> mu_text) (concat (map fst ?gs)))"
      by (simp add: concat_map_concat comp_def)
    finally show ?thesis
      using groups by (simp add: cs nonspace_concat concat_map_concat comp_def)
  qed
  show "\<Union> (set (map (set \<circ> cc_source_unit_ids) cs)) = \<Union> (set (map (set \<circ> mu_source_unit_ids) (sg_units s)))"
    if "fits G []"
  proof -
    have "map (\<lambda>ds. \<Union> (set (map (set \<circ> cc_source_unit_ids) ds))) css
        = map (set \<circ> cc_source_unit_ids) (map (\<lambda>(g, a). make_chunk G g a) ?gs)"
    proof (rule traverse_preserves [OF css])
      fix c ds assume "c \<in> set (map (\<lambda>(g, a). make_chunk G g a) ?gs)" "safe_candidate G c = Inr ds"
      with safe_text_units [of G c ds] kinds that
      have "\<forall>d \<in> set ds. cc_source_unit_ids d = cc_source_unit_ids c" "ds \<noteq> []" by blast+
      then show "\<Union> (set (map (set \<circ> cc_source_unit_ids) ds)) = (set \<circ> cc_source_unit_ids) c"
        by (cases ds) auto
    qed
    from arg_cong [OF this, of "\<lambda>xs. \<Union> (set xs)"]
    have "(\<Union>d \<in> set cs. set (cc_source_unit_ids d))
        = (\<Union>g \<in> set ?gs. set (cc_source_unit_ids (make_chunk G (fst g) (snd g))))"
      by (simp add: cs case_prod_unfold)
    also have "\<dots> = (\<Union>u \<in> set (concat (map fst ?gs)). set (mu_source_unit_ids u))"
      by (simp add: make_chunk_def)
    finally show ?thesis using groups by simp
  qed
qed

lemma split_text_subseq:
  assumes "text_segment s" "split_segment G s = Inr cs"
  shows "subseq (concat (map (nonspace \<circ> mu_text) (sg_units s))) (concat (map (nonspace \<circ> cc_content) cs))"
proof -
  let ?gs = "text_groups G [] (sg_units s)"
  have groups: "sg_units s = concat (map fst ?gs)" using text_groups_concat [of G "[]" "sg_units s"] by simp
  have "split_text G (sg_units s) = Inr cs"
    using assms by (auto simp: split_segment_def text_segment_def split_text_def force_safe_def split: list.splits)
  then obtain css where css: "traverse (safe_candidate G) (map (\<lambda>(g, a). make_chunk G g a) ?gs) = Inr css"
    and cs: "cs = concat css"
    by (auto simp: split_text_def force_safe_def bind_res_Inr_iff)
  have kinds: "cc_chunk_type c \<noteq> ''code'' \<and> cc_chunk_type c \<noteq> ''table''"
    if "c \<in> set (map (\<lambda>(g, a). make_chunk G g a) ?gs)" for c
    using that text_groups_member [where G = G and us = "sg_units s"] make_chunk_type [OF _ assms(1)] by fastforce
  have "map (\<lambda>ds. nonspace (concat (map cc_content ds))) css
      = map (nonspace \<circ> cc_content) (map (\<lambda>(g, a). make_chunk G g a) ?gs)"
    using kinds by (intro traverse_preserves [OF css]) (simp add: safe_text_contents)
  then have contents: "concat (map (nonspace \<circ> cc_content) cs) = concat (map (\<lambda>g. nonspace (render (zg_heading G) (fst g))) ?gs)"
    by (simp add: cs nonspace_concat concat_map_concat comp_def make_chunk_def case_prod_unfold)
  have "list_all2 subseq (map (\<lambda>g. concat (map (nonspace \<circ> mu_text) (fst g))) ?gs)
      (map (\<lambda>g. nonspace (render (zg_heading G) (fst g))) ?gs)"
    by (simp add: list_all2_conv_all_nth nonspace_render_subseq)
  from subseq_concat [OF this]
  have "subseq (concat (map (nonspace \<circ> mu_text) (concat (map fst ?gs)))) (concat (map (nonspace \<circ> cc_content) cs))"
    unfolding contents by (simp add: concat_map_concat comp_def)
  then show ?thesis using groups by simp
qed

lemma merge_candidates_parts:
  assumes "merge_candidates G a b = Some m"
  shows "nonspace (cc_content m) = nonspace (cc_content a) @ nonspace (cc_content b)"
    "cc_source_unit_ids m = cc_source_unit_ids a @ cc_source_unit_ids b"
  using assms by (auto simp: merge_candidates_def Let_def split: if_splits)

text \<open>The chunks before and after merging and counting, for a quantity both respect.\<close>

lemma apply_guard_split:
  assumes out: "apply_guard G segs = Inr out"
    and merge: "\<And>a b m. merge_candidates G a b = Some m \<Longrightarrow> f m = f a @ f b"
    and count: "\<And>c d. with_count G c = Inr d \<Longrightarrow> f d = f c"
    and bounds: "\<And>c bs. f (c\<lparr>cc_boundaries := bs\<rparr>) = f c"
  obtains css where "traverse (split_segment G) segs = Inr css"
    "concat (map f out) = concat (map (\<lambda>cs. concat (map f cs)) css)"
proof -
  from apply_guard_cases [of G segs] out obtain ess where
    ess: "traverse (\<lambda>s. bind_res (split_segment G s) (\<lambda>cs. Inr (segment_entries s cs))) segs = Inr ess"
    and run: "traverse (\<lambda>e. with_count G (fst e)) (merge_loop G (concat ess) 0) = Inr out"
    by auto
  obtain css where css: "traverse (split_segment G) segs = Inr css"
    using ess by (induction segs arbitrary: ess) (auto simp: bind_res_Inr_iff)
  have "map f out = map (f \<circ> fst) (merge_loop G (concat ess) 0)"
    by (rule traverse_preserves [OF run]) (simp add: count)
  then have "concat (map f out) = concat (map (f \<circ> fst) (concat ess))"
    using merge_loop_concat [of G f, OF merge] by simp
  also have "\<dots> = concat (map (\<lambda>es. concat (map (f \<circ> fst) es)) ess)"
    by (simp add: concat_map_concat comp_def)
  also have "map (\<lambda>es. concat (map (f \<circ> fst) es)) ess = map (\<lambda>cs. concat (map f cs)) css"
  proof (rule nth_equalityI)
    show "length (map (\<lambda>es. concat (map (f \<circ> fst) es)) ess) = length (map (\<lambda>cs. concat (map f cs)) css)"
      using traverse_Inr_length [OF ess] traverse_Inr_length [OF css] by simp
    fix i assume i: "i < length (map (\<lambda>es. concat (map (f \<circ> fst) es)) ess)"
    then have "i < length segs" using traverse_Inr_length [OF ess] by simp
    from traverse_Inr_nth [OF ess this] traverse_Inr_nth [OF css this]
    have e: "ess ! i = segment_entries (segs ! i) (css ! i)" by simp
    have "map (f \<circ> fst) (ess ! i) = map f (css ! i)"
      by (rule nth_equalityI) (simp_all add: e segment_entries_def case_prod_unfold bounds)
    then show "map (\<lambda>es. concat (map (f \<circ> fst) es)) ess ! i = map (\<lambda>cs. concat (map f cs)) css ! i"
      using i traverse_Inr_length [OF ess] traverse_Inr_length [OF css] by simp
  qed
  finally show thesis by (rule that [OF css])
qed

lemma apply_guard_concat:
  assumes "apply_guard G segs = Inr out"
    and "\<And>a b m. merge_candidates G a b = Some m \<Longrightarrow> f m = f a @ f b"
    and "\<And>c d. with_count G c = Inr d \<Longrightarrow> f d = f c"
    and "\<And>c bs. f (c\<lparr>cc_boundaries := bs\<rparr>) = f c"
    and segment: "\<And>s cs. s \<in> set segs \<Longrightarrow> split_segment G s = Inr cs \<Longrightarrow> concat (map f cs) = g s"
  shows "concat (map f out) = concat (map g segs)"
proof -
  obtain css where css: "traverse (split_segment G) segs = Inr css"
    and eq: "concat (map f out) = concat (map (\<lambda>cs. concat (map f cs)) css)"
    using apply_guard_split [OF assms(1-4)] by blast
  have "map (\<lambda>cs. concat (map f cs)) css = map g segs"
    by (rule traverse_preserves [OF css]) (rule segment)
  with eq show ?thesis by simp
qed

lemma split_text_total:
  assumes "\<forall>c. fits G [c]" "text_segment s"
  shows "is_ok (split_segment G s)"
proof -
  let ?gs = "text_groups G [] (sg_units s)"
  note groups = text_groups_concat [of G "[]" "sg_units s"]
  have "is_ok (safe_candidate G (make_chunk G (fst g) (snd g)))" if g: "g \<in> set ?gs" for g
  proof (cases "fits G (cc_content (make_chunk G (fst g) (snd g)))")
    case True
    then show ?thesis by (simp add: safe_candidate_def with_count_def)
  next
    case False
    let ?c = "make_chunk G (fst g) (snd g)"
    have kind: "cc_chunk_type ?c \<noteq> ''code''" "cc_chunk_type ?c \<noteq> ''table''"
      using make_chunk_type [OF _ assms(2)] text_groups_member [OF g] by blast+
    obtain ps where ps: "greedy_pieces (fits G) (nat (max 1 (zp_max_tokens (zg_policy G))))
        ''unable to produce token-safe chunk'' (cc_content ?c) = Inr ps"
      using greedy_pieces_total [of "cc_content ?c" "fits G"] assms(1) by (fastforce simp: is_ok_iff)
    have "is_ok (traverse (\<lambda>p. with_count G (with_action ''hard_fallback'' (?c\<lparr>cc_content := p\<rparr>))) ps)"
      using greedy_pieces_sound [OF ps]
      by (intro traverse_is_ok) (auto intro!: with_count_ok simp: with_action_def)
    then show ?thesis using False kind by (simp add: safe_candidate_def hard_fallback_def ps)
  qed
  then have "is_ok (traverse (safe_candidate G) (map (\<lambda>(g, a). make_chunk G g a) ?gs))"
    by (intro traverse_is_ok) auto
  then have "is_ok (split_text G (sg_units s))"
    by (auto simp: split_text_def force_safe_def is_ok_iff)
  then show ?thesis
    using assms(2) by (auto simp: split_segment_def text_segment_def split: list.split)
qed

lemma guard_fits:
  assumes "apply_guard G segs = Inr out" "c \<in> set out"
  shows "fits G (cc_content c)"
proof -
  from apply_guard_cases [of G segs] assms(1) obtain ess where
    "traverse (\<lambda>e. with_count G (fst e)) (merge_loop G (concat ess) 0) = Inr out" by auto
  from traverse_Inr_all [OF this assms(2)] with_count_fits show ?thesis by blast
qed

lemma guard_preserves_text:
  assumes "apply_guard G segs = Inr out" "\<forall>s \<in> set segs. text_segment s \<and> plain_heading G s"
  shows "concat (map (nonspace \<circ> cc_content) out)
       = concat (map (nonspace \<circ> mu_text) (concat (map sg_units segs)))"
proof -
  have "concat (map (nonspace \<circ> cc_content) out)
      = concat (map (\<lambda>s. concat (map (nonspace \<circ> mu_text) (sg_units s))) segs)"
    by (rule apply_guard_concat [OF assms(1)])
       (use assms(2) in \<open>auto simp: merge_candidates_parts with_count_Inr split_text_segment(1)\<close>)
  then show ?thesis by (simp add: concat_map_concat comp_def)
qed

text \<open>With headings in the chunks the text is still there, in order.\<close>

lemma guard_keeps_text:
  assumes "apply_guard G segs = Inr out" "\<forall>s \<in> set segs. text_segment s"
  shows "subseq (concat (map (nonspace \<circ> mu_text) (concat (map sg_units segs)))) (concat (map (nonspace \<circ> cc_content) out))"
proof -
  obtain css where css: "traverse (split_segment G) segs = Inr css"
    and eq: "concat (map (nonspace \<circ> cc_content) out) = concat (map (\<lambda>cs. concat (map (nonspace \<circ> cc_content) cs)) css)"
    by (rule apply_guard_split [OF assms(1), where f = "nonspace \<circ> cc_content"])
      (auto simp: merge_candidates_parts with_count_Inr)
  have "subseq (concat (map (\<lambda>s. concat (map (nonspace \<circ> mu_text) (sg_units s))) segs))
      (concat (map (\<lambda>cs. concat (map (nonspace \<circ> cc_content) cs)) css))"
    by (rule traverse_subseq [OF css]) (use assms(2) split_text_subseq in blast)
  then show ?thesis unfolding eq by (simp add: concat_map_concat comp_def)
qed

lemma guard_returns:
  assumes "\<forall>c. fits G [c]" "\<forall>s \<in> set segs. text_segment s"
  shows "\<exists>out. apply_guard G segs = Inr out"
  using apply_guard_cases [of G segs] split_text_total [OF assms(1)] assms(2)
  by (metis is_ok_simps(1))

subsection \<open>Provenance stays in the segment\<close>

definition ids_of :: "semantic_unit list \<Rightarrow> string set" where
  "ids_of us = (\<Union>u \<in> set us. set (mu_source_unit_ids u))"

definition within_ids :: "string set \<Rightarrow> chunk_candidate \<Rightarrow> bool" where
  "within_ids S c \<longleftrightarrow> set (cc_source_unit_ids c) \<subseteq> S"

lemma pack_all:
  "pack fit emit finer cur gs = Inr cs \<Longrightarrow> (\<And>ls. P (emit ls)) \<Longrightarrow>
     (\<And>g fs. finer g = Inr fs \<Longrightarrow> \<forall>f \<in> set fs. P f) \<Longrightarrow> \<forall>c \<in> set cs. P c"
proof (induction gs arbitrary: cur cs)
  case (Cons g gs)
  let ?full = "cur \<noteq> [] \<and> \<not> fit (cur @ g)"
  let ?cur = "if ?full then [] else cur"
  show ?case
  proof (cases "?cur = [] \<and> \<not> fit g")
    case True
    with Cons.prems(1) obtain fs rest where "finer g = Inr fs" "pack fit emit finer [] gs = Inr rest"
      and cs: "cs = (if ?full then [emit cur] else []) @ fs @ rest"
      by (auto simp: Let_def bind_res_Inr_iff)
    with Cons.IH [of "[]" rest] Cons.prems(2,3) show ?thesis by (auto split: if_splits)
  next
    case False
    with Cons.prems(1) obtain rest where "pack fit emit finer (?cur @ g) gs = Inr rest"
      and cs: "cs = (if ?full then [emit cur] else []) @ rest"
      by (simp only: pack.simps Let_def if_False bind_res_Inr_iff) auto
    with Cons.IH [of "?cur @ g" rest] Cons.prems(2,3) show ?thesis by (auto split: if_splits)
  qed
qed (auto split: if_splits)

lemma with_count_within: "with_count G c = Inr d \<Longrightarrow> within_ids S d = within_ids S c"
  by (auto simp: with_count_Inr within_ids_def)

lemma code_chunk_within: "set (mu_source_unit_ids src) \<subseteq> S \<Longrightarrow> within_ids S (code_chunk G src fen lang a ls)"
  by (simp add: code_chunk_def make_chunk_def within_ids_def)

lemma code_line_fragments_within:
  "code_line_fragments G src lang fen l = Inr fs \<Longrightarrow> set (mu_source_unit_ids src) \<subseteq> S \<Longrightarrow>
     \<forall>f \<in> set fs. within_ids S f"
  by (auto simp: code_line_fragments_def bind_res_Inr_iff code_chunk_within)

lemma code_group_fragments_within:
  assumes "code_group_fragments G src lang fen g = Inr fs" "set (mu_source_unit_ids src) \<subseteq> S"
  shows "\<forall>f \<in> set fs. within_ids S f"
  using assms(1) unfolding code_group_fragments_def
proof (rule pack_all)
  show "within_ids S (code_chunk G src fen lang ''code_blank_line_split'' ls)" for ls
    by (rule code_chunk_within [OF assms(2)])
  show "\<forall>f \<in> set fs. within_ids S f" if "code_line_groups G src lang fen g = Inr fs" for g fs
    using that unfolding code_line_groups_def
    by (rule pack_all)
       (rule code_chunk_within [OF assms(2)], erule code_line_fragments_within [OF _ assms(2)])
qed

lemma safe_candidate_within:
  assumes "safe_candidate G c = Inr ds" "within_ids S c" shows "\<forall>d \<in> set ds. within_ids S d"
proof -
  have counted: "\<forall>d \<in> set ds. within_ids S d"
    if "traverse (\<lambda>x. with_count G (h x)) xs = Inr ds" "\<forall>x \<in> set xs. within_ids S (h x)" for h xs ds
    using that traverse_Inr_all [OF that(1)] with_count_within by blast
  consider "bind_res (with_count G c) (\<lambda>c. Inr [c]) = Inr ds" | "table_fallback G c = Inr ds"
    | "code_fallback G c = Inr ds" | "hard_fallback G c = Inr ds"
    using assms(1) by (auto simp: safe_candidate_def split: if_splits)
  then show ?thesis
  proof cases
    case 1
    then show ?thesis using with_count_within assms(2) by (auto simp: bind_res_Inr_iff)
  next
    case 2
    then obtain ts where "traverse (\<lambda>t. with_count G (with_action ''table_structure_fallback''
        (c\<lparr>cc_content := t\<rparr>))) ts = Inr ds"
      by (auto simp: table_fallback_def bind_res_Inr_iff)
    from counted [OF this] assms(2) show ?thesis by (simp add: within_ids_def with_action_def)
  next
    case 4
    then obtain ts where "traverse (\<lambda>t. with_count G (with_action ''hard_fallback''
        (c\<lparr>cc_content := t\<rparr>))) ts = Inr ds"
      by (auto simp: hard_fallback_def bind_res_Inr_iff)
    from counted [OF this] assms(2) show ?thesis by (simp add: within_ids_def with_action_def)
  next
    case 3
    obtain fen body lang where fp: "fence_parts (cc_content c) = (fen, body, lang)" by (metis surj_pair)
    let ?src = "\<lparr>mu_unit_id = ''size-guard-code-fallback'', mu_text = cc_content c,
                 mu_source_unit_ids = cc_source_unit_ids c, mu_page_start = cc_page_start c,
                 mu_page_end = cc_page_end c, mu_heading_path = cc_heading_path c,
                 mu_block_type = BtCode, mu_order = 0\<rparr>"
    from 3 obtain fss where fss: "traverse (\<lambda>line. bind_res (code_line_fragments G ?src lang fen line)
             (\<lambda>fs. traverse (\<lambda>f. with_count G (with_action ''code_structure_fallback'' f)) fs))
             (splitlines (if fen then body else cc_content c)) = Inr fss" and ds: "ds = concat fss"
      by (auto simp: code_fallback_def fp bind_res_Inr_iff)
    have "\<forall>d \<in> set es. within_ids S d" if "es \<in> set fss" for es
    proof -
      from traverse_Inr_all [OF fss that] obtain line fs where
        "code_line_fragments G ?src lang fen line = Inr fs"
        and es: "traverse (\<lambda>f. with_count G (with_action ''code_structure_fallback'' f)) fs = Inr es"
        by (auto simp: bind_res_Inr_iff)
      with code_line_fragments_within [of G ?src lang fen line fs S] assms(2)
      have "\<forall>f \<in> set fs. within_ids S f" by (simp add: within_ids_def)
      with counted [OF es] show ?thesis by (simp add: within_ids_def with_action_def)
    qed
    then show ?thesis by (auto simp: ds)
  qed
qed

lemma force_safe_within:
  assumes "force_safe G cs = Inr ds" "\<forall>c \<in> set cs. within_ids S c" shows "\<forall>d \<in> set ds. within_ids S d"
proof -
  obtain css where css: "traverse (safe_candidate G) cs = Inr css" and "ds = concat css"
    using assms(1) by (auto simp: force_safe_def bind_res_Inr_iff)
  with traverse_Inr_all [OF css] safe_candidate_within assms(2) show ?thesis by fastforce
qed

lemma make_chunk_within: "ids_of us \<subseteq> S \<Longrightarrow> within_ids S (make_chunk G us a)"
  by (simp add: make_chunk_def within_ids_def ids_of_def)

lemma split_segment_within:
  assumes "split_segment G s = Inr cs" shows "\<forall>c \<in> set cs. within_ids (ids_of (sg_units s)) c"
proof (cases "sg_units s")
  case Nil
  with assms show ?thesis by (simp add: split_segment_def)
next
  case (Cons u us)
  let ?S = "ids_of (sg_units s)"
  have hd: "set (mu_source_unit_ids u) \<subseteq> ?S" by (auto simp: Cons ids_of_def)
  consider "split_table G (sg_units s) = Inr cs" | "split_code G (sg_units s) = Inr cs"
    | "split_text G (sg_units s) = Inr cs"
    using assms by (auto simp: split_segment_def Cons split: if_splits)
  then show ?thesis
  proof cases
    case 1
    then obtain ts where ts: "traverse (\<lambda>c. with_count G (make_chunk G [u\<lparr>mu_text := c\<rparr>] ''table_row_split'')) ts = Inr cs"
      by (auto simp: split_table_def Cons bind_res_Inr_iff)
    show ?thesis
    proof
      fix c assume "c \<in> set cs"
      from traverse_Inr_all [OF ts this] obtain t where
        "with_count G (make_chunk G [u\<lparr>mu_text := t\<rparr>] ''table_row_split'') = Inr c" by blast
      moreover have "within_ids ?S (make_chunk G [u\<lparr>mu_text := t\<rparr>] ''table_row_split'')"
        using hd by (intro make_chunk_within) (simp add: ids_of_def)
      ultimately show "within_ids ?S c" using with_count_within by blast
    qed
  next
    case 2
    then obtain fen body lang lines chunks where
      "pack (\<lambda>ls. fits G (code_text fen lang ls)) (code_chunk G u fen lang ''code_line_split'')
         (code_group_fragments G u lang fen) [] (code_groups_from [] lines) = Inr chunks"
      and fs: "force_safe G chunks = Inr cs"
      by (auto simp: split_code_def Cons Let_def bind_res_Inr_iff split: prod.splits)
    from this(1) have "\<forall>c \<in> set chunks. within_ids ?S c"
      by (rule pack_all) (rule code_chunk_within [OF hd], erule code_group_fragments_within [OF _ hd])
    with force_safe_within [OF fs] show ?thesis by blast
  next
    case 3
    then have fs: "force_safe G (map (\<lambda>(g, a). make_chunk G g a) (text_groups G [] (sg_units s))) = Inr cs"
      by (simp add: split_text_def)
    have "within_ids ?S (make_chunk G (fst g) (snd g))" if "g \<in> set (text_groups G [] (sg_units s))" for g
      using text_groups_member(1) [OF that] by (intro make_chunk_within) (auto simp: ids_of_def)
    then have "\<forall>c \<in> set (map (\<lambda>(g, a). make_chunk G g a) (text_groups G [] (sg_units s))). within_ids ?S c"
      by auto
    with force_safe_within [OF fs] show ?thesis by blast
  qed
qed

lemma guard_within:
  assumes "apply_guard G segs = Inr out" "c \<in> set out"
  shows "within_ids (ids_of (concat (map sg_units segs))) c"
proof -
  let ?S = "ids_of (concat (map sg_units segs))"
  from apply_guard_cases [of G segs] assms(1) obtain ess where
    ess: "traverse (\<lambda>s. bind_res (split_segment G s) (\<lambda>cs. Inr (segment_entries s cs))) segs = Inr ess"
    and run: "traverse (\<lambda>e. with_count G (fst e)) (merge_loop G (concat ess) 0) = Inr out" by auto
  have "\<forall>c \<in> fst ` set (concat ess). within_ids ?S c"
  proof
    fix c assume "c \<in> fst ` set (concat ess)"
    then obtain es where es: "es \<in> set ess" "c \<in> set (map fst es)" by auto
    from traverse_Inr_all [OF ess es(1)] obtain s cs where s: "s \<in> set segs"
      "split_segment G s = Inr cs" "es = segment_entries s cs"
      by (auto simp: bind_res_Inr_iff)
    have "cc_source_unit_ids c \<in> set (map (cc_source_unit_ids \<circ> fst) es)" using es(2) by auto
    then have "cc_source_unit_ids c \<in> set (map cc_source_unit_ids cs)" unfolding s(3) segment_entries_contents .
    then obtain x where "x \<in> set cs" "cc_source_unit_ids c = cc_source_unit_ids x" by auto
    then have "set (cc_source_unit_ids c) \<subseteq> ids_of (sg_units s)"
      using split_segment_within [OF s(2)] by (simp add: within_ids_def)
    also have "\<dots> \<subseteq> ?S" using s(1) by (auto simp: ids_of_def)
    finally show "within_ids ?S c" by (simp add: within_ids_def)
  qed
  then have "\<forall>c \<in> fst ` set (merge_loop G (concat ess) 0). within_ids ?S c"
    by (rule merge_loop_all) (auto simp: within_ids_def merge_candidates_parts)
  with traverse_Inr_all [OF run assms(2)] with_count_within show ?thesis by blast
qed

subsection \<open>Properties\<close>

text \<open>C8. Every chunk the guard emits fits the token limit and carries its own token count, and
  when the guard raises it is because a segment could not be split: merging tiny chunks never
  produces one that the final check refuses.\<close>

theorem apply_guard_safe:
  "case apply_guard G segs of
     Inr out \<Rightarrow> list_all (\<lambda>c. fits G (cc_content c)
       \<and> map_option sc_token_count (sm_counts (cc_metadata c)) = Some (zg_count G (cc_content c))) out
   | Inl e \<Rightarrow> list_ex (\<lambda>s. split_segment G s = Inl e) segs"
proof -
  have counted: "fits G (cc_content d)
      \<and> map_option sc_token_count (sm_counts (cc_metadata d)) = Some (zg_count G (cc_content d))"
    if "with_count G c = Inr d" for c d
    using that by (auto simp: with_count_Inr)
  show ?thesis
  proof (cases "apply_guard G segs")
    case (Inl e)
    with apply_guard_cases [of G segs] show ?thesis by (auto simp: list_ex_iff)
  next
    case (Inr out)
    from apply_guard_cases [of G segs] Inr obtain ess where
      run: "traverse (\<lambda>e. with_count G (fst e)) (merge_loop G (concat ess) 0) = Inr out"
      by auto
    from traverse_Inr_all [OF run] Inr counted show ?thesis by (auto simp: list_all_iff)
  qed
qed

text \<open>C9. The guard always returns on text when a single character fits the limit, whatever the
  tokenizer otherwise counts.\<close>

theorem apply_guard_text_total:
  assumes "\<forall>c. fits G [c]" "\<forall>s \<in> set segs. text_segment s"
  shows "\<exists>out. apply_guard G segs = Inr out"
  using guard_returns [OF assms] .

text \<open>Splitting, falling back to characters and merging lose and reorder no text: apart from
  white space, the chunks read one after the other are the text of the segments (heading context
  aside, which the renderer repeats in front of every chunk).\<close>

theorem apply_guard_preserves_text:
  assumes "apply_guard G segs = Inr out" "\<forall>s \<in> set segs. text_segment s \<and> plain_heading G s"
  shows "concat (map (nonspace \<circ> cc_content) out)
       = concat (map (nonspace \<circ> mu_text) (concat (map sg_units segs)))"
  using guard_preserves_text [OF assms] .

text \<open>Provenance survives: a unit is named as a source by some chunk exactly when it is part
  of a segment.\<close>

theorem apply_guard_preserves_units:
  assumes "apply_guard G segs = Inr out" "\<forall>s \<in> set segs. text_segment s" "fits G []"
  shows "set (concat (map cc_source_unit_ids out))
       = set (concat (map mu_source_unit_ids (concat (map sg_units segs))))"
proof -
  from apply_guard_cases [of G segs] assms(1) obtain ess where
    ess: "traverse (\<lambda>s. bind_res (split_segment G s) (\<lambda>cs. Inr (segment_entries s cs))) segs = Inr ess"
    and run: "traverse (\<lambda>e. with_count G (fst e)) (merge_loop G (concat ess) 0) = Inr out"
    by auto
  have "map cc_source_unit_ids out = map (cc_source_unit_ids \<circ> fst) (merge_loop G (concat ess) 0)"
    by (rule traverse_preserves [OF run]) (auto simp: with_count_Inr)
  then have "concat (map cc_source_unit_ids out) = concat (map (cc_source_unit_ids \<circ> fst) (concat ess))"
    using merge_loop_concat [of G cc_source_unit_ids] merge_candidates_parts(2) by metis
  moreover have "map (\<lambda>es. set (concat (map (cc_source_unit_ids \<circ> fst) es))) ess
      = map (\<lambda>s. set (concat (map mu_source_unit_ids (sg_units s)))) segs"
  proof (rule traverse_preserves [OF ess])
    fix s es assume s: "s \<in> set segs" "bind_res (split_segment G s) (\<lambda>cs. Inr (segment_entries s cs)) = Inr es"
    then obtain cs where cs: "split_segment G s = Inr cs" "es = segment_entries s cs"
      by (auto simp: bind_res_Inr_iff)
    show "set (concat (map (cc_source_unit_ids \<circ> fst) es)) = set (concat (map mu_source_unit_ids (sg_units s)))"
      using split_text_segment(2) [OF _ cs(1) assms(3)] assms(2) s(1)
      by (simp add: cs(2) segment_entries_contents)
  qed
  from arg_cong [OF this, of "\<lambda>xs. \<Union> (set xs)"]
  have "(\<Union>es \<in> set ess. set (concat (map (cc_source_unit_ids \<circ> fst) es)))
      = (\<Union>s \<in> set segs. set (concat (map mu_source_unit_ids (sg_units s))))" by simp
  ultimately show ?thesis by (simp add: image_comp comp_def)
qed

subsection \<open>Instances\<close>

definition sample_unit :: "string \<Rightarrow> ustr \<Rightarrow> semantic_unit" where
  "sample_unit i s =
     \<lparr>mu_unit_id = i, mu_text = s, mu_source_unit_ids = [i], mu_page_start = 1, mu_page_end = 1,
      mu_heading_path = [], mu_block_type = BtParagraph, mu_order = 0\<rparr>"

definition sample_segment :: "semantic_unit list \<Rightarrow> semantic_segment" where
  "sample_segment us = \<lparr>sg_units = us, sg_boundary_before = None, sg_boundary_after = None\<rparr>"

text \<open>A guard that counts characters, with room for four of them.\<close>

definition sample_guard :: size_guard where
  "sample_guard =
     \<lparr>zg_count = length, zg_policy = \<lparr>zp_min_tokens = 2, zp_target_tokens = 3, zp_max_tokens = 4\<rparr>,
      zg_heading = True\<rparr>"

definition sample_segments :: "semantic_segment list" where
  "sample_segments =
     [sample_segment [sample_unit ''u1'' (lit ''abcdef'')], sample_segment [sample_unit ''u2'' (lit ''x'')],
      sample_segment [sample_unit ''u3'' (lit ''y'')]]"

lemma sample_segments_plain:
  "\<forall>s \<in> set sample_segments. text_segment s \<and> plain_heading sample_guard s"
  by (simp add: sample_segments_def sample_segment_def sample_unit_def text_segment_def plain_heading_def)

lemma apply_guard_text_total_witness:
  "\<exists>out. apply_guard sample_guard sample_segments = Inr out"
  by (rule apply_guard_text_total)
     (use sample_segments_plain in \<open>auto simp: fits_def sample_guard_def\<close>)

lemma sample_guard_returns: "\<exists>out. apply_guard sample_guard sample_segments = Inr out"
  by (rule guard_returns)
     (use sample_segments_plain in \<open>auto simp: fits_def sample_guard_def\<close>)

lemma apply_guard_preserves_text_witness:
  "\<exists>out. apply_guard sample_guard sample_segments = Inr out
     \<and> concat (map (nonspace \<circ> cc_content) out) = lit ''abcdefxy''"
proof -
  obtain out where out: "apply_guard sample_guard sample_segments = Inr out"
    using sample_guard_returns by blast
  from apply_guard_preserves_text [OF this sample_segments_plain] out show ?thesis
    by (simp add: sample_segments_def sample_segment_def sample_unit_def lit_def nonspace_def
        py_isspace_def)
qed

lemma apply_guard_preserves_units_witness:
  "\<exists>out. apply_guard sample_guard sample_segments = Inr out
     \<and> set (concat (map cc_source_unit_ids out)) = {''u1'', ''u2'', ''u3''}"
proof -
  obtain out where out: "apply_guard sample_guard sample_segments = Inr out"
    using sample_guard_returns by blast
  have "\<forall>s \<in> set sample_segments. text_segment s" "fits sample_guard []"
    using sample_segments_plain by (auto simp: fits_def sample_guard_def)
  from apply_guard_preserves_units [OF out this] out show ?thesis
    by (simp add: sample_segments_def sample_segment_def sample_unit_def)
qed

end
