(* ===== verification/Hybrid_Pipeline.thy ===== *)
theory Hybrid_Pipeline
  imports Structure_Chunker Semantic_Chunker Size_Guard
begin

text \<open>
  The hybrid chunking pipeline (pipeline.py in backend/app/domain/rag/chunking/v3): regions,
  their semantic segments and the size guard composed, the metadata written to every chunk, and
  the diagnostics of a run. The digest of the content is a parameter (\<open>sha256\<close>).
\<close>

subsection \<open>Metadata\<close>

record source_span =
  ps_source_locator :: string
  ps_page :: "int option"
  ps_block_index :: int
  ps_char_start :: "int option"
  ps_char_end :: "int option"

record provenance_values =
  pv_file_type :: "string list"
  pv_processing_mode :: "string list"
  pv_source_element :: "string list"
  pv_source_format :: "string list"

record compatibility_metadata =
  cm_source_type :: "string option"
  cm_processing_source_type :: "string option option"
  cm_page_number :: "int option"

record chunk_metadata =
  hm_size_guard :: size_meta
  hm_compatibility :: compatibility_metadata
  hm_chunk_schema_version :: string
  hm_chunking_strategy :: string
  hm_chunking_policy_version :: ustr
  hm_heading_path :: "ustr list"
  hm_page_start :: "int option"
  hm_page_end :: "int option"
  hm_source_block_indexes :: "int list"
  hm_source_spans :: "source_span list"
  hm_source_unit_ids :: "string list"
  hm_source_provenance :: provenance_values
  hm_file_type :: "string option"
  hm_processing_mode :: "string option"
  hm_source_element :: "string option"
  hm_source_format :: "string option"
  hm_source_location_kind :: "string option"
  hm_region_id :: string
  hm_boundary_before :: string
  hm_heading_prefix_in_content :: bool
  hm_window_size :: int
  hm_boundaries :: "semantic_boundary list"
  hm_content_hash :: string

record hybrid_chunk =
  hc_content :: ustr
  hc_chunk_type :: string
  hc_heading_path :: "ustr list"
  hc_source_unit_ids :: "string list"
  hc_page_start :: int
  hc_page_end :: int
  hc_metadata :: chunk_metadata
  hc_boundaries :: "semantic_boundary list"

text \<open>\<open>sorted({str(v) for v in values if v is not None})\<close>\<close>

definition provenance_set :: "string option list \<Rightarrow> string list" where
  "provenance_set vs = sort (remdups (map the (filter (\<lambda>v. v \<noteq> None) vs)))"

definition provenance_of_units :: "structural_unit list \<Rightarrow> provenance_values" where
  "provenance_of_units us =
     \<lparr>pv_file_type = provenance_set (map (\<lambda>u. Some (file_type_value (db_file_type (su_block u)))) us),
      pv_processing_mode = provenance_set (map (\<lambda>u. Some (db_processing_mode (su_block u))) us),
      pv_source_element = provenance_set (map (\<lambda>u. Some (db_source_element (su_block u))) us),
      pv_source_format = provenance_set (map (\<lambda>u. db_source_format (su_block u)) us)\<rparr>"

fun location_kind_of :: "file_type \<Rightarrow> string" where
  "location_kind_of FtPdf = ''page''"
| "location_kind_of FtPptx = ''slide''"
| "location_kind_of FtImage = ''image''"
| "location_kind_of FtText = ''text''"

definition source_location_kind :: "structural_unit list \<Rightarrow> string option" where
  "source_location_kind us =
     (case remdups (map (db_file_type \<circ> su_block) us) of
        [t] \<Rightarrow> Some (location_kind_of t) | _ \<Rightarrow> None)"

fun single_provenance_value :: "string list \<Rightarrow> string option" where
  "single_provenance_value [v] = Some v"
| "single_provenance_value _ = None"

definition str_of_int :: "int \<Rightarrow> string" where
  "str_of_int i = (if i < 0 then ''-'' @ str_of_nat (nat (- i)) else str_of_nat (nat i))"

definition paged :: "string option \<Rightarrow> bool" where
  "paged kind \<longleftrightarrow> kind = Some ''page'' \<or> kind = Some ''slide''"

definition source_locator :: "string \<Rightarrow> string option \<Rightarrow> int \<Rightarrow> int \<Rightarrow> string" where
  "source_locator document_id kind page block_index =
     (if paged kind
      then document_id @ '':'' @ the kind @ '':'' @ str_of_int page @ '':block:'' @ str_of_int block_index
      else if kind = Some ''image'' \<or> kind = Some ''text''
      then document_id @ '':'' @ the kind @ '':block:'' @ str_of_int block_index
      else document_id @ '':block:'' @ str_of_int block_index)"

definition compatibility_of ::
  "provenance_values \<Rightarrow> string option \<Rightarrow> chunk_candidate \<Rightarrow> compatibility_metadata" where
  "compatibility_of pv kind c =
     (let ft = single_provenance_value (pv_file_type pv);
          uploaded = ft \<in> {Some ''pdf'', Some ''pptx'', Some ''image''}
      in \<lparr>cm_source_type =
            (if ft = Some ''text''
             then Some (if single_provenance_value (pv_source_format pv) = Some ''markdown''
                        then ''markdown'' else ''text'')
             else if uploaded then Some ''uploaded_document'' else None),
          cm_processing_source_type =
            (if uploaded
             then Some (if ft = Some ''image'' then single_provenance_value (pv_processing_mode pv) else ft)
             else None),
          cm_page_number =
            (if paged kind \<and> cc_page_start c = cc_page_end c then Some (cc_page_start c) else None)\<rparr>)"

definition with_metadata ::
  "(ustr \<Rightarrow> string) \<Rightarrow> hybrid_policy \<Rightarrow> string \<Rightarrow> structural_region \<Rightarrow> chunk_candidate \<Rightarrow> hybrid_chunk" where
  "with_metadata sha256 P document_id r c =
     (let us = filter (\<lambda>u. su_unit_id u \<in> set (cc_source_unit_ids c)) (sr_units r);
          pv = provenance_of_units us;
          kind = source_location_kind us
      in \<lparr>hc_content = cc_content c, hc_chunk_type = cc_chunk_type c,
          hc_heading_path = cc_heading_path c, hc_source_unit_ids = cc_source_unit_ids c,
          hc_page_start = cc_page_start c, hc_page_end = cc_page_end c,
          hc_metadata =
            \<lparr>hm_size_guard = cc_metadata c,
             hm_compatibility = compatibility_of pv kind c,
             hm_chunk_schema_version = ''v3'',
             hm_chunking_strategy = ''hybrid_structure_semantic_size_v3'',
             hm_chunking_policy_version = hp_policy_version P,
             hm_heading_path = cc_heading_path c,
             hm_page_start = (if paged kind then Some (cc_page_start c) else None),
             hm_page_end = (if paged kind then Some (cc_page_end c) else None),
             hm_source_block_indexes = map su_block_index us,
             hm_source_spans = map (\<lambda>u.
               \<lparr>ps_source_locator = source_locator document_id kind (su_page_number u) (su_block_index u),
                ps_page = (if paged kind then Some (su_page_number u) else None),
                ps_block_index = su_block_index u,
                ps_char_start = db_source_char_start (su_block u),
                ps_char_end = db_source_char_end (su_block u)\<rparr>) us,
             hm_source_unit_ids = cc_source_unit_ids c,
             hm_source_provenance = pv,
             hm_file_type = single_provenance_value (pv_file_type pv),
             hm_processing_mode = single_provenance_value (pv_processing_mode pv),
             hm_source_element = single_provenance_value (pv_source_element pv),
             hm_source_format = single_provenance_value (pv_source_format pv),
             hm_source_location_kind = kind,
             hm_region_id = sr_region_id r,
             hm_boundary_before = boundary_strength_value (sr_boundary_before r),
             hm_heading_prefix_in_content = (cc_heading_path c \<noteq> [] \<and> sr_region_type r = ''text''),
             hm_window_size = sp_window_size (hp_semantic P),
             hm_boundaries = cc_boundaries c,
             hm_content_hash = sha256 (cc_content c)\<rparr>,
          hc_boundaries = cc_boundaries c\<rparr>)"

subsection \<open>The pipeline\<close>

record diagnostics =
  dg_semantic_regions :: nat
  dg_adaptive_threshold_regions :: nat
  dg_candidate_boundaries :: nat
  dg_selected_boundaries :: nat
  dg_relation_adjusted_boundaries :: nat
  dg_tiny_merges :: nat
  dg_hard_fallbacks :: nat

datatype chunking_error = SemanticFailed semantic_error | InvariantViolation string

definition action_count :: "string \<Rightarrow> hybrid_chunk list \<Rightarrow> nat" where
  "action_count a cs = length (filter (\<lambda>c. sm_action (hm_size_guard (hc_metadata c)) = a) cs)"

definition lift_error :: "('e \<Rightarrow> 'f) \<Rightarrow> 'e + 'a \<Rightarrow> 'f + 'a" where
  "lift_error f r = (case r of Inl e \<Rightarrow> Inl (f e) | Inr v \<Rightarrow> Inr v)"

lemma lift_error_Inr [simp]: "lift_error f r = Inr v \<longleftrightarrow> r = Inr v"
  by (cases r) (auto simp: lift_error_def)

definition chunk_region ::
  "unicode_db \<Rightarrow> encoder \<Rightarrow> (ustr \<Rightarrow> string) \<Rightarrow> size_guard \<Rightarrow> hybrid_policy \<Rightarrow> string \<Rightarrow> structural_region
     \<Rightarrow> chunking_error + semantic_boundary list \<times> hybrid_chunk list" where
  "chunk_region u enc sha256 G P document_id r =
     bind_res (lift_error SemanticFailed
         (split_with_trace u enc (nat (hp_semantic_batch_size P)) (hp_semantic P) r)) (\<lambda>sn.
     bind_res (lift_error InvariantViolation (apply_guard G (sn_segments sn))) (\<lambda>cs.
       Inr (sn_boundaries sn, map (with_metadata sha256 P document_id r) cs)))"

definition chunk_document ::
  "unicode_db \<Rightarrow> encoder \<Rightarrow> (ustr \<Rightarrow> string) \<Rightarrow> size_guard \<Rightarrow> hybrid_policy \<Rightarrow> document_block list \<Rightarrow> string
     \<Rightarrow> chunking_error + hybrid_chunk list \<times> diagnostics" where
  "chunk_document u enc sha256 G P blocks document_id =
     (let regions = build_regions blocks
      in bind_res (traverse (chunk_region u enc sha256 G P document_id) regions) (\<lambda>results.
         let chunks = concat (map snd results); traces = map fst results
         in Inr (chunks,
              \<lparr>dg_semantic_regions = length (filter (\<lambda>r. sr_region_type r = ''text'') regions),
               dg_adaptive_threshold_regions =
                 length (filter (list_ex (\<lambda>b. sb_adaptive_threshold b \<noteq> None)) traces),
               dg_candidate_boundaries = sum_list (map length traces),
               dg_selected_boundaries = sum_list (map (length \<circ> filter sb_selected) traces),
               dg_relation_adjusted_boundaries =
                 sum_list (map (length \<circ> filter (\<lambda>b. 0 < sb_continuation_score b)) traces),
               dg_tiny_merges = action_count ''tiny_merge'' chunks,
               dg_hard_fallbacks = action_count ''hard_fallback'' chunks\<rparr>)))"

subsection \<open>Lemmas\<close>

lemma with_metadata_simps [simp]:
  "hc_content (with_metadata h P d r c) = cc_content c"
  "hc_heading_path (with_metadata h P d r c) = cc_heading_path c"
  "hc_source_unit_ids (with_metadata h P d r c) = cc_source_unit_ids c"
  "hm_size_guard (hc_metadata (with_metadata h P d r c)) = cc_metadata c"
  "hm_region_id (hc_metadata (with_metadata h P d r c)) = sr_region_id r"
  "hm_content_hash (hc_metadata (with_metadata h P d r c)) = h (cc_content c)"
  by (simp_all add: with_metadata_def Let_def)

lemma chunk_region_parts:
  assumes "chunk_region u enc h G P d r = Inr (bs, cs)"
  obtains sn gs where
    "split_with_trace u enc (nat (hp_semantic_batch_size P)) (hp_semantic P) r = Inr sn"
    "apply_guard G (sn_segments sn) = Inr gs" "bs = sn_boundaries sn"
    "cs = map (with_metadata h P d r) gs"
  using assms by (auto simp: chunk_region_def bind_res_Inr_iff)

text \<open>On a text region whose headings are not rendered, the chunks carry the text of the region.\<close>

lemma chunk_region_text:
  assumes "chunk_region u enc h G P d r = Inr (bs, cs)" "\<not> zg_heading G"
    "\<forall>v \<in> set (sr_units r). su_block_type v \<noteq> BtCode \<and> su_block_type v \<noteq> BtTable"
  shows "concat (map (nonspace \<circ> hc_content) cs) = concat (map (nonspace \<circ> su_text) (sr_units r))"
proof -
  from assms(1) obtain sn gs where
    sn: "split_with_trace u enc (nat (hp_semantic_batch_size P)) (hp_semantic P) r = Inr sn"
    and gs: "apply_guard G (sn_segments sn) = Inr gs" and cs: "cs = map (with_metadata h P d r) gs"
    by (rule chunk_region_parts)
  have "text_segment s \<and> plain_heading G s" if s: "s \<in> set (sn_segments sn)" for s
  proof -
    have "set (sg_units s) \<subseteq> set (concat (map sg_units (sn_segments sn)))" using s by auto
    also have "\<dots> = set (region_units (hp_semantic P) r)" using segments_partition_units [OF sn] by simp
    finally have "text_segment s"
      using region_units_source assms(3) unfolding text_segment_def by (metis subsetD)
    with assms(2) show ?thesis by (simp add: plain_heading_def)
  qed
  then have "concat (map (nonspace \<circ> cc_content) gs)
      = concat (map (nonspace \<circ> mu_text) (concat (map sg_units (sn_segments sn))))"
    using guard_preserves_text [OF gs] by blast
  with split_with_trace_text [OF sn] show ?thesis by (simp add: cs comp_def)
qed

text \<open>The text of the units that are neither code nor tables is in the chunks of their region, whether or
  not these repeat the headings.\<close>

definition prose_units :: "structural_region \<Rightarrow> structural_unit list" where
  "prose_units r = filter (\<lambda>v. su_block_type v \<noteq> BtCode \<and> su_block_type v \<noteq> BtTable) (sr_units r)"

lemma chunk_region_prose:
  assumes "chunk_region u enc h G P d r = Inr (bs, cs)" "region_ok n r"
  shows "subseq (concat (map (nonspace \<circ> su_text) (prose_units r))) (concat (map (nonspace \<circ> hc_content) cs))"
proof (cases "prose_units r = sr_units r")
  case True
  from assms(1) obtain sn gs where
    sn: "split_with_trace u enc (nat (hp_semantic_batch_size P)) (hp_semantic P) r = Inr sn"
    and gs: "apply_guard G (sn_segments sn) = Inr gs" and cs: "cs = map (with_metadata h P d r) gs"
    by (rule chunk_region_parts)
  have plain: "\<forall>v \<in> set (sr_units r). su_block_type v \<noteq> BtCode \<and> su_block_type v \<noteq> BtTable"
    using True by (simp add: prose_units_def filter_id_conv)
  have "text_segment s" if s: "s \<in> set (sn_segments sn)" for s
  proof -
    have "set (sg_units s) \<subseteq> set (concat (map sg_units (sn_segments sn)))" using s by auto
    also have "\<dots> = set (region_units (hp_semantic P) r)" using segments_partition_units [OF sn] by simp
    finally show ?thesis
      using region_units_source plain unfolding text_segment_def by (metis subsetD)
  qed
  then have "subseq (concat (map (nonspace \<circ> mu_text) (concat (map sg_units (sn_segments sn)))))
      (concat (map (nonspace \<circ> cc_content) gs))"
    using guard_keeps_text [OF gs] by blast
  with split_with_trace_text [OF sn] True show ?thesis by (simp add: cs comp_def)
next
  case False
  then obtain v where v: "v \<in> set (sr_units r)" "su_block_type v = BtCode \<or> su_block_type v = BtTable"
    by (auto simp: prose_units_def filter_id_conv)
  from assms(2) v(1) have "sr_region_type r = region_type (su_block_type v)" by (simp add: region_ok_def)
  with v(2) have "sr_region_type r \<noteq> ''text''" by (auto simp: region_type_def)
  with assms(2) have "length (sr_units r) = 1" by (simp add: region_ok_def)
  with v(1) have "sr_units r = [v]" by (cases "sr_units r") simp_all
  with v(2) have "prose_units r = []" by (auto simp: prose_units_def)
  then show ?thesis by simp
qed

lemma chunk_document_parts:
  assumes "chunk_document u enc h G P blocks d = Inr (chunks, dg)"
  obtains results where
    "traverse (chunk_region u enc h G P d) (build_regions blocks) = Inr results"
    "chunks = concat (map snd results)"
    "dg_candidate_boundaries dg = sum_list (map (length \<circ> fst) results)"
    "dg_selected_boundaries dg = sum_list (map (length \<circ> filter sb_selected \<circ> fst) results)"
  using assms by (auto simp: chunk_document_def Let_def bind_res_Inr_iff comp_assoc)

lemma units_of_text: "concat (map (nonspace \<circ> su_text) (units_of rs))
    = concat (map (\<lambda>r. concat (map (nonspace \<circ> su_text) (sr_units r))) rs)"
  by (simp add: units_of_def concat_map_concat comp_def)

lemma chunk_region_chunk:
  assumes "chunk_region u enc h G P d r = Inr (bs, cs)" "c \<in> set cs"
  shows "fits G (hc_content c) \<and> hm_content_hash (hc_metadata c) = h (hc_content c)
       \<and> hm_region_id (hc_metadata c) = sr_region_id r
       \<and> set (hc_source_unit_ids c) \<subseteq> su_unit_id ` set (sr_units r)"
proof -
  from assms(1) obtain sn gs where
    sn: "split_with_trace u enc (nat (hp_semantic_batch_size P)) (hp_semantic P) r = Inr sn"
    and gs: "apply_guard G (sn_segments sn) = Inr gs" and cs: "cs = map (with_metadata h P d r) gs"
    by (rule chunk_region_parts)
  from assms(2) cs obtain g where g: "g \<in> set gs" "c = with_metadata h P d r g" by auto
  have "ids_of (region_units (hp_semantic P) r) \<subseteq> su_unit_id ` set (sr_units r)"
    using region_units_source unfolding ids_of_def by fastforce
  moreover have "set (cc_source_unit_ids g) \<subseteq> ids_of (region_units (hp_semantic P) r)"
    using guard_within [OF gs g(1)] segments_partition_units [OF sn] by (simp add: within_ids_def)
  ultimately show ?thesis using guard_fits [OF gs g(1)] g(2) by auto
qed

subsection \<open>Properties\<close>

text \<open>A block of running text: not a heading, a slide title, code or a table.\<close>

definition is_prose :: "document_block \<Rightarrow> bool" where
  "is_prose b \<longleftrightarrow> is_content b \<and> db_block_type b \<noteq> BtCode \<and> db_block_type b \<noteq> BtTable"

lemma prose_of_units:
  "concat (map (\<lambda>r. concat (map (nonspace \<circ> su_text) (prose_units r))) (build_regions blocks))
     = concat (map (nonspace \<circ> db_text) (filter is_prose blocks))"
proof -
  let ?us = "units_of (build_regions blocks)" and ?p = "\<lambda>v. su_block_type v \<noteq> BtCode \<and> su_block_type v \<noteq> BtTable"
  have f: "su_text v = db_text (su_block v) \<and> su_block_type v = db_block_type (su_block v)" if "v \<in> set ?us" for v
    using regions_faithful [OF that] by (simp add: faithful_def)
  have "concat (map (\<lambda>r. concat (map (nonspace \<circ> su_text) (prose_units r))) (build_regions blocks))
      = concat (map (nonspace \<circ> su_text) (filter ?p ?us))"
    by (simp add: units_of_def prose_units_def filter_concat concat_map_concat comp_def)
  also have "map (nonspace \<circ> su_text) (filter ?p ?us)
      = map (nonspace \<circ> db_text) (map su_block (filter (\<lambda>v. db_block_type (su_block v) \<noteq> BtCode \<and> db_block_type (su_block v) \<noteq> BtTable) ?us))"
    using f by (auto cong: filter_cong map_cong)
  also have "map su_block (filter (\<lambda>v. db_block_type (su_block v) \<noteq> BtCode \<and> db_block_type (su_block v) \<noteq> BtTable) ?us)
      = filter (\<lambda>b. db_block_type b \<noteq> BtCode \<and> db_block_type b \<noteq> BtTable) (map su_block ?us)"
    by (simp add: filter_map comp_def)
  also have "map su_block ?us = filter is_content blocks" using build_regions_inv [of blocks] by simp
  also have "filter (\<lambda>b. db_block_type b \<noteq> BtCode \<and> db_block_type b \<noteq> BtTable) (filter is_content blocks) = filter is_prose blocks"
    by (auto simp: is_prose_def intro: filter_cong)
  finally show ?thesis .
qed

lemma chunk_document_text:
  assumes "chunk_document u enc sha256 G P blocks d = Inr (chunks, dg)" "\<not> zg_heading G"
    "\<forall>b \<in> set blocks. db_block_type b \<noteq> BtCode \<and> db_block_type b \<noteq> BtTable"
  shows "concat (map (nonspace \<circ> hc_content) chunks)
       = concat (map (nonspace \<circ> db_text) (filter is_content blocks))"
proof -
  from assms(1) obtain results where
    res: "traverse (chunk_region u enc sha256 G P d) (build_regions blocks) = Inr results"
    and chunks: "chunks = concat (map snd results)"
    by (rule chunk_document_parts)
  have blocks: "map su_block (units_of (build_regions blocks)) = filter is_content blocks"
    using build_regions_inv [of blocks] by simp
  have plain: "su_block_type v \<noteq> BtCode \<and> su_block_type v \<noteq> BtTable"
    if "r \<in> set (build_regions blocks)" "v \<in> set (sr_units r)" for r v
  proof -
    have v: "v \<in> set (units_of (build_regions blocks))" using that by (auto simp: units_of_def)
    then have "su_block v \<in> set (map su_block (units_of (build_regions blocks)))" by simp
    then have "su_block v \<in> set blocks" unfolding blocks by simp
    with assms(3) regions_faithful [OF v] show ?thesis by (simp add: faithful_def)
  qed
  have "map (\<lambda>x. concat (map (nonspace \<circ> hc_content) (snd x))) results
      = map (\<lambda>r. concat (map (nonspace \<circ> su_text) (sr_units r))) (build_regions blocks)"
  proof (rule traverse_preserves [OF res])
    fix r x assume r: "r \<in> set (build_regions blocks)" "chunk_region u enc sha256 G P d r = Inr x"
    obtain bs cs where x: "x = (bs, cs)" by fastforce
    have "\<forall>v \<in> set (sr_units r). su_block_type v \<noteq> BtCode \<and> su_block_type v \<noteq> BtTable"
      using plain [OF r(1)] by blast
    with chunk_region_text [OF r(2) [unfolded x] assms(2)]
    show "concat (map (nonspace \<circ> hc_content) (snd x)) = concat (map (nonspace \<circ> su_text) (sr_units r))"
      by (simp add: x)
  qed
  then have "concat (map (nonspace \<circ> hc_content) chunks)
      = concat (map (nonspace \<circ> su_text) (units_of (build_regions blocks)))"
    by (simp only: chunks units_of_def concat_map_concat map_map comp_def)
  also have "map (nonspace \<circ> su_text) (units_of (build_regions blocks))
      = map (nonspace \<circ> db_text) (map su_block (units_of (build_regions blocks)))"
    using regions_faithful [of _ blocks] by (simp add: faithful_def)
  finally show ?thesis unfolding blocks .
qed

text \<open>C6. End to end, the chunker loses and reorders no running text. For every encoder, tokenizer and
  policy, whether or not the chunks repeat the headings and whatever else the document holds, the texts of
  the blocks that are neither headings, slide titles, code nor tables are found in the contents of the
  chunks one after the other, white space aside. When headings are not repeated and the document has
  no code and no tables, the contents are exactly these texts: nothing is repeated or added either.\<close>

theorem chunk_document_preserves_text:
  assumes "chunk_document u enc sha256 G P blocks d = Inr (chunks, dg)"
  shows "subseq (concat (map (nonspace \<circ> db_text) (filter is_prose blocks))) (concat (map (nonspace \<circ> hc_content) chunks))
    \<and> (\<not> zg_heading G \<and> list_all (\<lambda>b. db_block_type b \<noteq> BtCode \<and> db_block_type b \<noteq> BtTable) blocks
       \<longrightarrow> concat (map (nonspace \<circ> hc_content) chunks) = concat (map (nonspace \<circ> db_text) (filter is_prose blocks)))"
proof (intro conjI impI)
  from assms obtain results where
    res: "traverse (chunk_region u enc sha256 G P d) (build_regions blocks) = Inr results"
    and chunks: "chunks = concat (map snd results)"
    by (rule chunk_document_parts)
  have "subseq (concat (map (\<lambda>r. concat (map (nonspace \<circ> su_text) (prose_units r))) (build_regions blocks)))
      (concat (map (\<lambda>x. concat (map (nonspace \<circ> hc_content) (snd x))) results))"
  proof (rule traverse_subseq [OF res])
    fix r x assume r: "r \<in> set (build_regions blocks)" "chunk_region u enc sha256 G P d r = Inr x"
    obtain bs cs where x: "x = (bs, cs)" by fastforce
    obtain n where "region_ok n r"
      using build_regions_inv [of blocks] r(1) by (auto simp: regions_ok_def in_set_conv_nth)
    from chunk_region_prose [OF r(2) [unfolded x] this]
    show "subseq (concat (map (nonspace \<circ> su_text) (prose_units r))) (concat (map (nonspace \<circ> hc_content) (snd x)))"
      by (simp add: x)
  qed
  then show "subseq (concat (map (nonspace \<circ> db_text) (filter is_prose blocks))) (concat (map (nonspace \<circ> hc_content) chunks))"
    unfolding chunks prose_of_units by (simp add: concat_map_concat comp_def)
next
  assume a: "\<not> zg_heading G \<and> list_all (\<lambda>b. db_block_type b \<noteq> BtCode \<and> db_block_type b \<noteq> BtTable) blocks"
  then have "filter is_prose blocks = filter is_content blocks"
    by (auto simp: is_prose_def list_all_iff intro: filter_cong)
  with chunk_document_text [OF assms] a
  show "concat (map (nonspace \<circ> hc_content) chunks) = concat (map (nonspace \<circ> db_text) (filter is_prose blocks))"
    by (simp add: list_all_iff)
qed

text \<open>C7. Every chunk of a document fits the token limit, carries the digest of its own content,
  names the region it comes from and only units of that region.\<close>

theorem chunk_document_chunks_sound:
  assumes "chunk_document u enc sha256 G P blocks d = Inr (chunks, dg)" "c \<in> set chunks"
  shows "fits G (hc_content c) \<and> hm_content_hash (hc_metadata c) = sha256 (hc_content c)
       \<and> (\<exists>r \<in> set (build_regions blocks). hm_region_id (hc_metadata c) = sr_region_id r
            \<and> set (hc_source_unit_ids c) \<subseteq> su_unit_id ` set (sr_units r))"
proof -
  from assms(1) obtain results where
    res: "traverse (chunk_region u enc sha256 G P d) (build_regions blocks) = Inr results"
    and chunks: "chunks = concat (map snd results)"
    by (rule chunk_document_parts)
  with assms(2) obtain bs cs where x: "(bs, cs) \<in> set results" "c \<in> set cs" by auto
  from traverse_Inr_all [OF res x(1)] obtain r where
    r: "r \<in> set (build_regions blocks)" "chunk_region u enc sha256 G P d r = Inr (bs, cs)" by blast
  from chunk_region_chunk [OF r(2) x(2)] r(1) show ?thesis by auto
qed

text \<open>The diagnostics of a run under a valid policy: at most half of the candidate boundaries
  of a document are selected.\<close>

theorem chunk_document_diagnostics:
  assumes "chunk_document u enc sha256 G P blocks d = Inr (chunks, dg)"
    "check_semantic_policy (hp_semantic P) = Inr (hp_semantic P)"
  shows "2 * dg_selected_boundaries dg \<le> dg_candidate_boundaries dg"
proof -
  from assms(1) obtain results where
    res: "traverse (chunk_region u enc sha256 G P d) (build_regions blocks) = Inr results"
    and dg: "dg_candidate_boundaries dg = sum_list (map (length \<circ> fst) results)"
      "dg_selected_boundaries dg = sum_list (map (length \<circ> filter sb_selected \<circ> fst) results)"
    by (rule chunk_document_parts)
  have nn: "0 \<le> sp_mad_multiplier (hp_semantic P)"
    using assms(2) by (auto simp: check_semantic_policy_def split: if_splits)
  have "2 * length (filter sb_selected (fst x)) \<le> length (fst x)" if x: "x \<in> set results" for x
  proof -
    obtain bs cs where xe: "x = (bs, cs)" by fastforce
    from traverse_Inr_all [OF res x] obtain r where "chunk_region u enc sha256 G P d r = Inr (bs, cs)"
      by (auto simp: xe)
    then obtain sn where "split_with_trace u enc (nat (hp_semantic_batch_size P)) (hp_semantic P) r = Inr sn"
      "bs = sn_boundaries sn" by (rule chunk_region_parts)
    with trace_minority [OF _ nn] show ?thesis by (simp add: xe)
  qed
  then have "sum_list (map (\<lambda>x. 2 * length (filter sb_selected (fst x))) results)
      \<le> sum_list (map (\<lambda>x. length (fst x)) results)"
    by (intro sum_list_mono) auto
  then show ?thesis by (simp add: dg comp_def sum_list_const_mult)
qed

subsection \<open>Instances\<close>

definition sample_document :: "document_block list" where
  "sample_document = [sample_block BtHeading (lit ''T''), sample_block BtParagraph (lit ''abcdef'')]"

definition plain_guard :: size_guard where
  "plain_guard = sample_guard\<lparr>zg_heading := False\<rparr>"

lemma sample_document_chunks:
  "\<exists>r. chunk_document ascii_db length_encoder (\<lambda>_. ''h'') plain_guard default_hybrid_policy
     sample_document ''doc'' = Inr r"
proof -
  have single: "split_with_trace ascii_db length_encoder k default_semantic_policy r
      = Inr (whole_region (sr_region_id r) (region_units default_semantic_policy r))"
    if "length (region_units default_semantic_policy r) = 1" for k r
  proof -
    have "sp_max_semantic_units default_semantic_policy = 10000" by (simp add: default_semantic_policy_def)
    with that show ?thesis by (simp add: split_with_trace_def Let_def)
  qed
  let ?u = "make_unit (sample_block BtParagraph (lit ''abcdef'')) [lit ''T''] 1 1 None"
  let ?r = "\<lparr>sr_region_id = region_id 1, sr_heading_path = [lit ''T''], sr_units = [?u],
      sr_region_type = ''text'', sr_boundary_before = Soft, sr_boundary_after = Soft\<rparr>"
  have regions: "build_regions sample_document = [?r]"
    by (simp add: build_regions_def sample_document_def sample_block_def structure_step_def
        enter_page_def on_heading_def on_text_def initial_structure_def flush_def path_of_def
        region_type_def Let_def strip_def lstrip_def rstrip_def rstrip_of_def lit_def py_isspace_def)
  have units: "region_units default_semantic_policy ?r = [semantic_unit_of ?u 0 (lit ''abcdef'') None]"
    by (simp add: region_units_def default_semantic_policy_def pieces_of_def split_sentences_def
        cut_after_def lit_def py_isspace_def strip_def lstrip_def rstrip_def rstrip_of_def
        slices.simps make_unit_def sample_block_def Let_def)
  have "\<forall>c. fits plain_guard [c]" by (simp add: fits_def plain_guard_def sample_guard_def)
  moreover have "\<forall>s \<in> set (sn_segments (whole_region (region_id 1) [semantic_unit_of ?u 0 (lit ''abcdef'') None])).
      text_segment s"
    by (simp add: whole_region_def text_segment_def semantic_unit_of_def sample_block_def)
  ultimately obtain out where
    "apply_guard plain_guard (sn_segments (whole_region (region_id 1) [semantic_unit_of ?u 0 (lit ''abcdef'') None])) = Inr out"
    using guard_returns by blast
  moreover have "split_with_trace ascii_db length_encoder 64 default_semantic_policy ?r
      = Inr (whole_region (region_id 1) [semantic_unit_of ?u 0 (lit ''abcdef'') None])"
    using single [of ?r 64] unfolding units by simp
  moreover have "nat (hp_semantic_batch_size default_hybrid_policy) = 64"
    "hp_semantic default_hybrid_policy = default_semantic_policy"
    by (simp_all add: default_hybrid_policy_def)
  ultimately have "\<exists>x. chunk_region ascii_db length_encoder (\<lambda>_. ''h'') plain_guard default_hybrid_policy ''doc'' ?r = Inr x"
    by (simp only: chunk_region_def lift_error_def sum.case bind_res_simps) blast
  then show ?thesis by (auto simp: chunk_document_def regions Let_def)
qed

lemma chunk_document_preserves_text_witness:
  "\<exists>chunks dg. chunk_document ascii_db length_encoder (\<lambda>_. ''h'') plain_guard default_hybrid_policy
     sample_document ''doc'' = Inr (chunks, dg)
   \<and> concat (map (nonspace \<circ> hc_content) chunks) = lit ''abcdef''"
proof -
  obtain chunks dg where run: "chunk_document ascii_db length_encoder (\<lambda>_. ''h'') plain_guard
      default_hybrid_policy sample_document ''doc'' = Inr (chunks, dg)"
    using sample_document_chunks by auto
  have plain: "\<not> zg_heading plain_guard \<and> list_all (\<lambda>b. db_block_type b \<noteq> BtCode \<and> db_block_type b \<noteq> BtTable) sample_document"
    by (simp add: plain_guard_def sample_document_def sample_block_def)
  have "concat (map (nonspace \<circ> hc_content) chunks) = concat (map (nonspace \<circ> db_text) (filter is_prose sample_document))"
    using chunk_document_preserves_text [OF run] plain by blast
  with run show ?thesis
    by (simp add: sample_document_def sample_block_def is_prose_def is_content_def nonspace_def lit_def py_isspace_def)
qed

lemma chunk_document_chunks_sound_witness:
  "\<exists>chunks dg. chunk_document ascii_db length_encoder (\<lambda>_. ''h'') plain_guard default_hybrid_policy
     sample_document ''doc'' = Inr (chunks, dg)
   \<and> (\<forall>c \<in> set chunks. length (hc_content c) \<le> 4)"
proof -
  obtain chunks dg where run: "chunk_document ascii_db length_encoder (\<lambda>_. ''h'') plain_guard
      default_hybrid_policy sample_document ''doc'' = Inr (chunks, dg)"
    using sample_document_chunks by auto
  from chunk_document_chunks_sound [OF run] run show ?thesis
    by (auto simp: fits_def plain_guard_def sample_guard_def)
qed

lemma chunk_document_diagnostics_witness:
  "\<exists>chunks dg. chunk_document ascii_db length_encoder (\<lambda>_. ''h'') plain_guard default_hybrid_policy
     sample_document ''doc'' = Inr (chunks, dg)
   \<and> 2 * dg_selected_boundaries dg \<le> dg_candidate_boundaries dg"
proof -
  obtain chunks dg where run: "chunk_document ascii_db length_encoder (\<lambda>_. ''h'') plain_guard
      default_hybrid_policy sample_document ''doc'' = Inr (chunks, dg)"
    using sample_document_chunks by auto
  have "check_semantic_policy (hp_semantic default_hybrid_policy) = Inr (hp_semantic default_hybrid_policy)"
    by (simp add: check_semantic_policy_def default_hybrid_policy_def default_semantic_policy_def)
  from chunk_document_diagnostics [OF run this] run show ?thesis by blast
qed

end
