(* ===== verification/Chunk_Config.thy ===== *)
theory Chunk_Config
  imports Chunk_Domain Retrieval_Domain
begin

text \<open>
  Execution snapshots of the chunker (config.py in backend/app/domain/rag/chunking/v3): which
  strategy and policy a document was chunked with, written as a payload and read back with every
  version checked. The digest behind the policy fingerprint (\<open>sha256\<close> of the canonical JSON of
  policy, tokenizer and algorithm versions) is a parameter, a function of the policy and the
  tokenizer; so is \<open>py_repr\<close>, the \<open>str\<close> of a float, list or dictionary.
\<close>

datatype chunking_strategy = StrategyV2 | StrategyHybridV3

fun strategy_value :: "chunking_strategy \<Rightarrow> ustr" where
  "strategy_value StrategyV2 = lit ''v2''"
| "strategy_value StrategyHybridV3 = lit ''hybrid_v3''"

definition strategy_of :: "ustr \<Rightarrow> chunking_strategy option" where
  "strategy_of s = (if s = lit ''v2'' then Some StrategyV2
     else if s = lit ''hybrid_v3'' then Some StrategyHybridV3 else None)"

datatype parsing_profile = LegacyV2 | StructuredV3

fun profile_value :: "parsing_profile \<Rightarrow> ustr" where
  "profile_value LegacyV2 = lit ''legacy_v2''"
| "profile_value StructuredV3 = lit ''structured_v3''"

record execution_snapshot =
  xs_snapshot_version :: ustr
  xs_strategy :: chunking_strategy
  xs_parser_profile :: parsing_profile
  xs_parser_implementation_version :: ustr
  xs_chunking_implementation_version :: ustr
  xs_v3_policy :: "hybrid_policy option"
  xs_policy_fingerprint :: "ustr option"
  xs_tokenizer_id :: "ustr option"

definition snapshot_v2 :: execution_snapshot where
  "snapshot_v2 =
     \<lparr>xs_snapshot_version = lit ''chunking-execution-v1'', xs_strategy = StrategyV2,
      xs_parser_profile = LegacyV2, xs_parser_implementation_version = lit ''legacy-parser-v3'',
      xs_chunking_implementation_version = lit ''chunking-v2'', xs_v3_policy = None,
      xs_policy_fingerprint = None, xs_tokenizer_id = None\<rparr>"

type_synonym digest = "hybrid_policy \<Rightarrow> ustr \<Rightarrow> ustr"

definition policy_fingerprint :: "digest \<Rightarrow> hybrid_policy \<Rightarrow> ustr option \<Rightarrow> ustr" where
  "policy_fingerprint dig P tok =
     take 12 (dig P (case tok of Some t \<Rightarrow> if t \<noteq> [] then t else hp_tokenizer_id P
                     | None \<Rightarrow> hp_tokenizer_id P))"

definition snapshot_of_policy :: "digest \<Rightarrow> hybrid_policy \<Rightarrow> ustr \<Rightarrow> execution_snapshot" where
  "snapshot_of_policy dig P tok =
     \<lparr>xs_snapshot_version = lit ''chunking-execution-v1'', xs_strategy = StrategyHybridV3,
      xs_parser_profile = StructuredV3, xs_parser_implementation_version = lit ''document-parser-v4.1'',
      xs_chunking_implementation_version = lit ''hybrid-chunking-v3.1'', xs_v3_policy = Some P,
      xs_policy_fingerprint = Some (policy_fingerprint dig P (Some tok)), xs_tokenizer_id = Some tok\<rparr>"

definition snapshot_from_policy ::
  "digest \<Rightarrow> ustr \<Rightarrow> parsing_profile \<Rightarrow> hybrid_policy \<Rightarrow> ustr \<Rightarrow> string + execution_snapshot" where
  "snapshot_from_policy dig strategy profile P tok =
     (case strategy_of strategy of
        None \<Rightarrow> Inl ''not a valid ChunkingStrategy''
      | Some s \<Rightarrow>
          if s \<noteq> StrategyHybridV3 \<or> profile \<noteq> StructuredV3
          then Inl ''only V3 execution snapshots may carry a policy''
          else Inr (snapshot_of_policy dig P tok))"

subsection \<open>Writing\<close>

definition semantic_payload :: "semantic_policy \<Rightarrow> metadata" where
  "semantic_payload P =
     [(lit ''window_size'', JInt (sp_window_size P)),
      (lit ''min_boundary_samples'', JInt (sp_min_boundary_samples P)),
      (lit ''mad_multiplier'', JFloat (sp_mad_multiplier P)),
      (lit ''local_window_weight'', JFloat (sp_local_window_weight P)),
      (lit ''adjacent_weight'', JFloat (sp_adjacent_weight P)),
      (lit ''relation_penalty_weight'', JFloat (sp_relation_penalty_weight P)),
      (lit ''max_semantic_units'', JInt (sp_max_semantic_units P)),
      (lit ''max_semantic_unit_chars'', JInt (sp_max_semantic_unit_chars P))]"

definition size_payload :: "size_policy \<Rightarrow> metadata" where
  "size_payload P =
     [(lit ''min_tokens'', JInt (zp_min_tokens P)), (lit ''target_tokens'', JInt (zp_target_tokens P)),
      (lit ''max_tokens'', JInt (zp_max_tokens P))]"

definition policy_payload :: "hybrid_policy \<Rightarrow> metadata" where
  "policy_payload P =
     [(lit ''semantic'', JDict (semantic_payload (hp_semantic P))),
      (lit ''size'', JDict (size_payload (hp_size P))),
      (lit ''include_heading_context'', JBool (hp_include_heading_context P)),
      (lit ''semantic_batch_size'', JInt (hp_semantic_batch_size P)),
      (lit ''policy_version'', JStr (hp_policy_version P)),
      (lit ''tokenizer_id'', JStr (hp_tokenizer_id P))]"

definition json_option :: "('a \<Rightarrow> json) \<Rightarrow> 'a option \<Rightarrow> json" where
  "json_option f v = (case v of None \<Rightarrow> JNull | Some x \<Rightarrow> f x)"

definition to_payload :: "execution_snapshot \<Rightarrow> metadata" where
  "to_payload x =
     [(lit ''snapshot_version'', JStr (xs_snapshot_version x)),
      (lit ''strategy'', JStr (strategy_value (xs_strategy x))),
      (lit ''parser_profile'', JStr (profile_value (xs_parser_profile x))),
      (lit ''parser_implementation_version'', JStr (xs_parser_implementation_version x)),
      (lit ''chunking_implementation_version'', JStr (xs_chunking_implementation_version x)),
      (lit ''policy_fingerprint'', json_option JStr (xs_policy_fingerprint x)),
      (lit ''tokenizer_id'', json_option JStr (xs_tokenizer_id x)),
      (lit ''v3_policy'', json_option (JDict \<circ> policy_payload) (xs_v3_policy x))]"

subsection \<open>Reading\<close>

definition py_str :: "(json \<Rightarrow> ustr) \<Rightarrow> json \<Rightarrow> ustr" where
  "py_str py_repr v =
     (case v of JStr s \<Rightarrow> s | JNull \<Rightarrow> lit ''None'' | JBool b \<Rightarrow> lit (if b then ''True'' else ''False'')
      | JInt i \<Rightarrow> lit (if i < 0 then ''-'' @ str_of_nat (nat (- i)) else str_of_nat (nat i))
      | other \<Rightarrow> py_repr other)"

text \<open>\<open>dict(value)\<close>\<close>

definition json_pair :: "json \<Rightarrow> string + ustr \<times> json" where
  "json_pair v =
     (case v of JList [JStr k, w] \<Rightarrow> Inr (k, w) | JStr [a, b] \<Rightarrow> Inr ([a], JStr [b])
      | _ \<Rightarrow> Inl ''cannot convert dictionary update sequence'')"

definition json_dict :: "json \<Rightarrow> string + metadata" where
  "json_dict v =
     (case v of JDict d \<Rightarrow> Inr d
      | JStr [] \<Rightarrow> Inr []
      | JList xs \<Rightarrow> bind_res (traverse json_pair xs) (\<lambda>kvs. Inr (dict_of kvs))
      | _ \<Rightarrow> Inl ''object is not iterable'')"

definition int_field :: "metadata \<Rightarrow> string \<Rightarrow> int \<Rightarrow> string \<Rightarrow> string + int" where
  "int_field d key fallback err =
     (case map_of d (lit key) of None \<Rightarrow> Inr fallback | Some (JInt i) \<Rightarrow> Inr i | Some _ \<Rightarrow> Inl err)"

definition number_field :: "metadata \<Rightarrow> string \<Rightarrow> pyfloat \<Rightarrow> string \<Rightarrow> string + pyfloat" where
  "number_field d key fallback err =
     (case map_of d (lit key) of None \<Rightarrow> Inr fallback
      | Some v \<Rightarrow> (case num_of v of Some r \<Rightarrow> Inr r | None \<Rightarrow> Inl err))"

definition known_keys :: "string list \<Rightarrow> metadata \<Rightarrow> string + unit" where
  "known_keys keys d =
     require (\<forall>kv \<in> set d. fst kv \<in> set (map lit keys)) ''got an unexpected keyword argument''"

definition read_semantic :: "metadata \<Rightarrow> string + semantic_policy" where
  "read_semantic d =
     bind_res (known_keys [''window_size'', ''min_boundary_samples'', ''mad_multiplier'',
        ''local_window_weight'', ''adjacent_weight'', ''relation_penalty_weight'',
        ''max_semantic_units'', ''max_semantic_unit_chars''] d) (\<lambda>_.
     let controls = ''semantic controls must be positive integers'';
         weights = ''semantic weights must be between 0 and 1'' in
     bind_res (int_field d ''window_size'' 2 controls) (\<lambda>w.
     bind_res (int_field d ''min_boundary_samples'' 5 controls) (\<lambda>m.
     bind_res (int_field d ''max_semantic_units'' 10000 controls) (\<lambda>mu.
     bind_res (int_field d ''max_semantic_unit_chars'' 2000 controls) (\<lambda>mc.
     bind_res (number_field d ''mad_multiplier'' (3 / 2)
        ''mad_multiplier must be a positive finite number'') (\<lambda>mad.
     bind_res (number_field d ''local_window_weight'' (65 / 100) weights) (\<lambda>lw.
     bind_res (number_field d ''adjacent_weight'' (35 / 100) weights) (\<lambda>aw.
     bind_res (number_field d ''relation_penalty_weight'' (20 / 100) weights) (\<lambda>rw.
       check_semantic_policy
         \<lparr>sp_window_size = w, sp_min_boundary_samples = m, sp_mad_multiplier = mad,
          sp_local_window_weight = lw, sp_adjacent_weight = aw, sp_relation_penalty_weight = rw,
          sp_max_semantic_units = mu, sp_max_semantic_unit_chars = mc\<rparr>)))))))))"

definition read_size :: "metadata \<Rightarrow> string + size_policy" where
  "read_size d =
     bind_res (known_keys [''min_tokens'', ''target_tokens'', ''max_tokens''] d) (\<lambda>_.
     let err = ''size controls must be positive integers'' in
     bind_res (int_field d ''min_tokens'' 120 err) (\<lambda>a.
     bind_res (int_field d ''target_tokens'' 320 err) (\<lambda>b.
     bind_res (int_field d ''max_tokens'' 512 err) (\<lambda>c.
       check_size_policy \<lparr>zp_min_tokens = a, zp_target_tokens = b, zp_max_tokens = c\<rparr>))))"

definition get_or :: "metadata \<Rightarrow> string \<Rightarrow> json \<Rightarrow> json" where
  "get_or d key fallback = (case map_of d (lit key) of None \<Rightarrow> fallback | Some v \<Rightarrow> v)"

definition policy_from_mapping :: "(json \<Rightarrow> ustr) \<Rightarrow> metadata \<Rightarrow> string + hybrid_policy" where
  "policy_from_mapping py_repr d =
     bind_res (json_dict (get_or d ''semantic'' (JDict []))) (\<lambda>sd.
     bind_res (json_dict (get_or d ''size'' (JDict []))) (\<lambda>zd.
     bind_res (read_semantic sd) (\<lambda>sem.
     bind_res (read_size zd) (\<lambda>siz.
     bind_res (int_field d ''semantic_batch_size'' 64
        ''semantic_batch_size must be a positive integer'') (\<lambda>batch.
       check_hybrid_policy
         \<lparr>hp_semantic = sem, hp_size = siz,
          hp_include_heading_context = truthy (get_or d ''include_heading_context'' (JBool True)),
          hp_semantic_batch_size = batch,
          hp_policy_version = py_str py_repr (get_or d ''policy_version'' (JStr (lit ''hybrid-v3.1''))),
          hp_tokenizer_id = py_str py_repr (get_or d ''tokenizer_id'' (JStr (lit ''cl100k_base'')))\<rparr>)))))"

definition read_v2 :: "metadata \<Rightarrow> string + execution_snapshot" where
  "read_v2 d =
     (if list_ex (\<lambda>(k, v). meta_get d k \<noteq> JStr v)
          [(''snapshot_version'', xs_snapshot_version snapshot_v2),
           (''parser_profile'', profile_value (xs_parser_profile snapshot_v2)),
           (''parser_implementation_version'', xs_parser_implementation_version snapshot_v2),
           (''chunking_implementation_version'', xs_chunking_implementation_version snapshot_v2)]
      then Inl ''V2 execution snapshot implementation identity is incompatible''
      else if list_ex (\<lambda>k. meta_get d k \<noteq> JNull) [''v3_policy'', ''policy'', ''policy_fingerprint'', ''tokenizer_id'']
      then Inl ''V2 execution snapshot must not carry V3 policy fields''
      else Inr snapshot_v2)"

definition read_v3 :: "(json \<Rightarrow> ustr) \<Rightarrow> digest \<Rightarrow> metadata \<Rightarrow> string + execution_snapshot" where
  "read_v3 py_repr dig d =
     (if list_ex (\<lambda>k. meta_get d k = JNull \<or> meta_get d k = JStr [])
          [''snapshot_version'', ''parser_profile'', ''parser_implementation_version'',
           ''chunking_implementation_version'', ''v3_policy'', ''policy_fingerprint'', ''tokenizer_id'']
      then Inl ''V3 execution snapshot is missing required version identity''
      else case meta_get d ''v3_policy'' of
        JDict pd \<Rightarrow>
          bind_res (policy_from_mapping py_repr pd) (\<lambda>P.
            let tok = py_str py_repr (meta_get d ''tokenizer_id'');
                x = snapshot_of_policy dig P tok
            in if hp_tokenizer_id P \<noteq> tok
               then Inl ''V3 execution snapshot tokenizer does not match policy''
               else if list_ex (\<lambda>(k, v). meta_get d k \<noteq> JStr v)
                   [(''snapshot_version'', xs_snapshot_version x),
                    (''parser_profile'', profile_value (xs_parser_profile x)),
                    (''parser_implementation_version'', xs_parser_implementation_version x),
                    (''chunking_implementation_version'', xs_chunking_implementation_version x),
                    (''policy_fingerprint'', policy_fingerprint dig P (Some tok))]
               then Inl ''V3 execution snapshot implementation identity is incompatible''
               else Inr x)
      | _ \<Rightarrow> Inl ''V3 execution snapshot policy must be an object'')"

definition from_payload :: "(json \<Rightarrow> ustr) \<Rightarrow> digest \<Rightarrow> metadata \<Rightarrow> string + execution_snapshot" where
  "from_payload py_repr dig d =
     (case map_of d (lit ''strategy'') of
        None \<Rightarrow> Inl ''execution snapshot has an invalid strategy''
      | Some v \<Rightarrow>
         (case strategy_of (py_str py_repr v) of
            None \<Rightarrow> Inl ''execution snapshot has an invalid strategy''
          | Some StrategyV2 \<Rightarrow> read_v2 d
          | Some StrategyHybridV3 \<Rightarrow> read_v3 py_repr dig d))"

text \<open>\<open>lower\<close> is \<open>str.lower\<close>.\<close>

definition strategy_from_env :: "(ustr \<Rightarrow> ustr) \<Rightarrow> (string \<rightharpoonup> ustr) \<Rightarrow> chunking_strategy" where
  "strategy_from_env lower environ =
     (let raw = (case environ ''FEATURE_HYBRID_CHUNKING_V3'' of Some v \<Rightarrow> v | None \<Rightarrow> lit ''true'');
          enabled = lower (strip raw)
      in if enabled \<in> set (map lit [''1'', ''true'', ''yes'', ''on'']) then StrategyHybridV3 else StrategyV2)"

definition valid_policy :: "hybrid_policy \<Rightarrow> bool" where
  "valid_policy P \<longleftrightarrow> is_ok (check_hybrid_policy P) \<and> is_ok (check_semantic_policy (hp_semantic P))
     \<and> is_ok (check_size_policy (hp_size P))"

subsection \<open>Reading what was written\<close>

lemma check_Inr:
  "check_semantic_policy S = Inr T \<Longrightarrow> T = S" "check_size_policy Z = Inr Y \<Longrightarrow> Y = Z"
  "check_hybrid_policy P = Inr Q \<Longrightarrow> Q = P"
  by (auto simp: check_semantic_policy_def check_size_policy_def check_hybrid_policy_def split: if_splits)

lemma check_idem:
  "check_semantic_policy S = Inr T \<Longrightarrow> check_semantic_policy T = Inr T"
  "check_size_policy Z = Inr Y \<Longrightarrow> check_size_policy Y = Inr Y"
  "check_hybrid_policy P = Inr Q \<Longrightarrow> check_hybrid_policy Q = Inr Q"
  using check_Inr by metis+

lemma read_semantic_valid: "read_semantic d = Inr S \<Longrightarrow> check_semantic_policy S = Inr S"
  unfolding read_semantic_def Let_def bind_res_Inr_iff by (elim exE conjE) (rule check_idem)

lemma read_size_valid: "read_size d = Inr Z \<Longrightarrow> check_size_policy Z = Inr Z"
  unfolding read_size_def Let_def bind_res_Inr_iff by (elim exE conjE) (rule check_idem)

lemma policy_from_mapping_valid:
  assumes "policy_from_mapping r d = Inr P" shows "valid_policy P"
proof -
  from assms obtain sd zd sem siz batch h v t where
    "read_semantic sd = Inr sem" "read_size zd = Inr siz"
    and P: "check_hybrid_policy \<lparr>hp_semantic = sem, hp_size = siz, hp_include_heading_context = h,
      hp_semantic_batch_size = batch, hp_policy_version = v, hp_tokenizer_id = t\<rparr> = Inr P"
    unfolding policy_from_mapping_def bind_res_Inr_iff by blast
  then have "check_semantic_policy sem = Inr sem" "check_size_policy siz = Inr siz"
    using read_semantic_valid read_size_valid by blast+
  with check_Inr(3) [OF P] check_idem(3) [OF P] show ?thesis by (simp add: valid_policy_def)
qed

lemma read_semantic_payload: "read_semantic (semantic_payload S) = check_semantic_policy S"
  by (cases S) (simp add: read_semantic_def semantic_payload_def known_keys_def int_field_def number_field_def
      require_def Let_def)

lemma read_size_payload: "read_size (size_payload Z) = check_size_policy Z"
  by (cases Z) (simp add: read_size_def size_payload_def known_keys_def int_field_def require_def Let_def)

lemma policy_roundtrip:
  assumes "valid_policy P" shows "policy_from_mapping r (policy_payload P) = Inr P"
proof -
  have "check_semantic_policy (hp_semantic P) = Inr (hp_semantic P)"
    "check_size_policy (hp_size P) = Inr (hp_size P)" "check_hybrid_policy P = Inr P"
    using assms check_Inr by (auto simp: valid_policy_def is_ok_iff)
  then show ?thesis
    by (cases P) (simp add: policy_from_mapping_def policy_payload_def get_or_def json_dict_def int_field_def
        read_semantic_payload read_size_payload py_str_def)
qed

lemma v3_roundtrip:
  assumes "valid_policy P" "hp_tokenizer_id P \<noteq> []" "dig P (hp_tokenizer_id P) \<noteq> []"
  shows "from_payload r dig (to_payload (snapshot_of_policy dig P (hp_tokenizer_id P)))
           = Inr (snapshot_of_policy dig P (hp_tokenizer_id P))"
proof -
  have "policy_fingerprint dig P (Some (hp_tokenizer_id P)) \<noteq> []"
    using assms(2,3) by (simp add: policy_fingerprint_def)
  then show ?thesis
    using assms
    by (simp add: from_payload_def to_payload_def snapshot_of_policy_def strategy_of_def py_str_def
        read_v3_def meta_get_def json_option_def policy_roundtrip Let_def lit_def)
qed

text \<open>C10. A snapshot survives storage: reading back the payload of a V3 snapshot of a valid
  policy under the policy's own tokenizer gives the snapshot, and so does the payload of the V2
  snapshot.\<close>

theorem snapshot_roundtrip:
  assumes "valid_policy P" "hp_tokenizer_id P \<noteq> []" "dig P (hp_tokenizer_id P) \<noteq> []"
  shows "from_payload r dig (to_payload (snapshot_of_policy dig P (hp_tokenizer_id P)))
           = Inr (snapshot_of_policy dig P (hp_tokenizer_id P))
       \<and> from_payload r dig (to_payload snapshot_v2) = Inr snapshot_v2"
proof
  show "from_payload r dig (to_payload snapshot_v2) = Inr snapshot_v2"
    by (simp add: from_payload_def to_payload_def snapshot_v2_def strategy_of_def py_str_def
        read_v2_def meta_get_def json_option_def lit_def)
qed (use v3_roundtrip [of P dig r] assms in simp)

text \<open>Nothing else is accepted: a payload that reads successfully gives the V2 snapshot or the
  snapshot of a valid policy under its own tokenizer, and the stored fingerprint is the one this
  policy has, so a payload whose policy was altered without its digest is refused.\<close>

theorem from_payload_sound:
  assumes "from_payload r dig d = Inr x"
  shows "x = snapshot_v2
       \<or> (\<exists>P. valid_policy P \<and> x = snapshot_of_policy dig P (hp_tokenizer_id P)
            \<and> meta_get d ''policy_fingerprint'' = JStr (policy_fingerprint dig P (Some (hp_tokenizer_id P))))"
proof -
  from assms consider "read_v2 d = Inr x" | "read_v3 r dig d = Inr x"
    by (auto simp: from_payload_def split: option.splits chunking_strategy.splits)
  then show ?thesis
  proof cases
    case 1
    then show ?thesis by (simp add: read_v2_def split: if_splits)
  next
    case 2
    then obtain pd P where P: "policy_from_mapping r pd = Inr P"
      and x: "x = snapshot_of_policy dig P (hp_tokenizer_id P)"
        "meta_get d ''policy_fingerprint'' = JStr (policy_fingerprint dig P (Some (hp_tokenizer_id P)))"
      by (auto simp: read_v3_def Let_def bind_res_Inr_iff split: if_splits json.splits)
    from policy_from_mapping_valid [OF P] x show ?thesis by blast
  qed
qed

subsection \<open>Instances\<close>

lemma default_policy_valid: "valid_policy default_hybrid_policy"
  by (simp add: valid_policy_def check_hybrid_policy_def check_semantic_policy_def
      check_size_policy_def default_hybrid_policy_def default_semantic_policy_def default_size_policy_def)

definition sample_digest :: digest where
  "sample_digest P tok = lit ''d1'' @ tok"

lemma snapshot_roundtrip_witness:
  "from_payload (\<lambda>_. []) sample_digest (to_payload (snapshot_of_policy sample_digest default_hybrid_policy
      (hp_tokenizer_id default_hybrid_policy)))
   = Inr (snapshot_of_policy sample_digest default_hybrid_policy (hp_tokenizer_id default_hybrid_policy))"
  by (rule snapshot_roundtrip [THEN conjunct1])
     (simp_all add: default_policy_valid, simp_all add: default_hybrid_policy_def sample_digest_def lit_def)

lemma from_payload_sound_witness:
  "\<exists>P. valid_policy P
     \<and> meta_get (to_payload (snapshot_of_policy sample_digest default_hybrid_policy
         (hp_tokenizer_id default_hybrid_policy))) ''policy_fingerprint''
       = JStr (policy_fingerprint sample_digest P (Some (hp_tokenizer_id P)))"
proof -
  let ?x = "snapshot_of_policy sample_digest default_hybrid_policy (hp_tokenizer_id default_hybrid_policy)"
  have "from_payload (\<lambda>_. []) sample_digest (to_payload ?x) = Inr ?x"
    by (rule v3_roundtrip) (simp_all add: default_policy_valid,
        simp_all add: default_hybrid_policy_def sample_digest_def lit_def)
  moreover have "?x \<noteq> snapshot_v2" by (simp add: snapshot_of_policy_def snapshot_v2_def)
  ultimately show ?thesis using from_payload_sound by blast
qed

end
