(* ===== verification/Evidence.thy ===== *)
theory Evidence
  imports Retrieval_Domain Greedy_Selection
begin

text \<open>
  The factual evidence of a tutor run (src/adaptive_tutor/tutor/evidence.py, with
  \<open>normalize_chunk_text\<close>, \<open>content_hash\<close> and the feature flags of t3_contracts.py): evidence
  items built from retrieved chunks, the merge that keeps one item per id and refuses a changed
  content, the selection under the item and character budgets, and the snapshot that grounding
  checks citations against. \<open>sha256\<close> (of the UTF-8 text, as a hex string) is a parameter.
\<close>

subsection \<open>Content hashes\<close>

type_synonym sha = "ustr \<Rightarrow> string"

fun replace_crlf :: "ustr \<Rightarrow> ustr" where
  "replace_crlf [] = []"
| "replace_crlf (c # cs) =
     (if c = 13 \<and> cs \<noteq> [] \<and> hd cs = 10 then 10 # replace_crlf (tl cs) else c # replace_crlf cs)"

definition newlines :: "ustr \<Rightarrow> ustr" where
  "newlines s = map (\<lambda>c. if c = 13 then 10 else c) (replace_crlf s)"

text \<open>\<open>re.sub(r"[ \t]+$", "", s, flags=re.MULTILINE)\<close>: a run of blanks goes when the end of the
  text or a line feed follows it.\<close>

fun trim_lines :: "ustr \<Rightarrow> ustr" where
  "trim_lines [] = []"
| "trim_lines (c # cs) =
     (let rest = trim_lines cs
      in if (c = 32 \<or> c = 9) \<and> (rest = [] \<or> hd rest = 10) then rest else c # rest)"

definition normalize_chunk_text :: "ustr \<Rightarrow> ustr" where
  "normalize_chunk_text s = rstrip (trim_lines (newlines s))"

definition content_hash :: "sha \<Rightarrow> ustr \<Rightarrow> string" where
  "content_hash sha256 s = sha256 (normalize_chunk_text s)"

subsection \<open>Items\<close>

datatype evidence_source = SrcRag | SrcTool

record evidence_item =
  ev_id :: ustr
  ev_source :: evidence_source
  ev_content :: ustr
  ev_hash :: string
  ev_label :: ustr
  ev_title :: "ustr option"
  ev_url :: "ustr option"
  ev_trusted :: int
  ev_document_id :: "ustr option"
  ev_chunk_id :: "ustr option"
  ev_tool_name :: "ustr option"
  ev_fingerprint :: "ustr option"
  ev_metadata :: metadata

definition blank :: "ustr option \<Rightarrow> bool" where
  "blank v \<longleftrightarrow> v = None \<or> v = Some []"

definition validate_provenance :: "evidence_item \<Rightarrow> string + evidence_item" where
  "validate_provenance e =
     (case ev_source e of
        SrcRag \<Rightarrow>
          (if blank (ev_document_id e) \<or> blank (ev_chunk_id e)
           then Inl ''RAG evidence requires document_id and chunk_id''
           else if ev_tool_name e \<noteq> None \<or> ev_fingerprint e \<noteq> None
           then Inl ''RAG evidence cannot contain tool provenance''
           else Inr e)
      | SrcTool \<Rightarrow>
          (if blank (ev_tool_name e) then Inl ''Tool evidence requires tool_name''
           else if ev_document_id e \<noteq> None \<or> ev_chunk_id e \<noteq> None
           then Inl ''Tool evidence cannot contain RAG provenance''
           else Inr e))"

definition make_evidence :: "evidence_item \<Rightarrow> string + evidence_item" where
  "make_evidence e =
     (if 1 \<le> length (ev_id e) \<and> length (ev_id e) \<le> 512 \<and> ev_content e \<noteq> []
         \<and> length (ev_hash e) = 64 \<and> ev_label e \<noteq> [] \<and> 0 \<le> ev_trusted e \<and> ev_trusted e \<le> 5
      then validate_provenance e
      else Inl ''ValidationError'')"

record retrieved_chunk =
  rch_chunk_id :: ustr
  rch_document_id :: ustr
  rch_content :: ustr
  rch_label :: ustr
  rch_title :: "ustr option"
  rch_url :: "ustr option"
  rch_trusted :: int
  rch_metadata :: metadata

definition rag_evidence_id :: "ustr \<Rightarrow> ustr \<Rightarrow> ustr" where
  "rag_evidence_id document_id chunk_id = lit ''rag:'' @ document_id @ lit '':'' @ chunk_id"

definition tool_evidence_id :: "sha \<Rightarrow> ustr \<Rightarrow> ustr \<Rightarrow> string \<Rightarrow> ustr" where
  "tool_evidence_id sha256 tool_name url hash =
     lit ''tool:'' @ tool_name @ lit '':'' @ lit (take 24 (sha256 (url @ [10] @ lit hash)))"

fun copy_metadata :: "json \<Rightarrow> json" where
  "copy_metadata (JDict d) = JDict (map (\<lambda>(k, v). (k, copy_metadata v)) d)"
| "copy_metadata (JList xs) = JList (map copy_metadata xs)"
| "copy_metadata v = v"

definition evidence_from_retrieved_chunk :: "sha \<Rightarrow> retrieved_chunk \<Rightarrow> string + evidence_item" where
  "evidence_from_retrieved_chunk sha256 c = make_evidence
     \<lparr>ev_id = rag_evidence_id (rch_document_id c) (rch_chunk_id c), ev_source = SrcRag,
      ev_content = rch_content c, ev_hash = content_hash sha256 (rch_content c),
      ev_label = rch_label c, ev_title = rch_title c, ev_url = rch_url c,
      ev_trusted = rch_trusted c, ev_document_id = Some (rch_document_id c),
      ev_chunk_id = Some (rch_chunk_id c), ev_tool_name = None, ev_fingerprint = None,
      ev_metadata = map (\<lambda>(k, v). (k, copy_metadata v)) (rch_metadata c)\<rparr>"

subsection \<open>Merging\<close>

datatype evidence_error = EvidenceInvariantError ustr

fun merge_evidence_loop ::
  "(ustr \<Rightarrow> evidence_item option) \<Rightarrow> evidence_item list \<Rightarrow> evidence_item list
     \<Rightarrow> evidence_error + evidence_item list" where
  "merge_evidence_loop by_id merged [] = Inr merged"
| "merge_evidence_loop by_id merged (item # items) =
     (case by_id (ev_id item) of
        None \<Rightarrow> merge_evidence_loop (by_id(ev_id item \<mapsto> item)) (merged @ [item]) items
      | Some previous \<Rightarrow>
          (if ev_hash previous \<noteq> ev_hash item
           then Inl (EvidenceInvariantError (lit ''evidence hash conflict: '' @ ev_id item))
           else merge_evidence_loop by_id merged items))"

definition evidence_by_id :: "evidence_item list \<Rightarrow> ustr \<Rightarrow> evidence_item option" where
  "evidence_by_id es = map_of (rev (map (\<lambda>e. (ev_id e, e)) es))"

definition merge_evidence_items ::
  "evidence_item list \<Rightarrow> evidence_item list \<Rightarrow> evidence_error + evidence_item list" where
  "merge_evidence_items existing incoming =
     merge_evidence_loop (evidence_by_id existing) existing incoming"

subsection \<open>Selection\<close>

record evidence_policy =
  evp_max_items :: nat
  evp_max_total_chars :: nat

definition default_evidence_policy :: evidence_policy where
  "default_evidence_policy = \<lparr>evp_max_items = 20, evp_max_total_chars = 32000\<rparr>"

definition valid_evidence_policy :: "evidence_policy \<Rightarrow> bool" where
  "valid_evidence_policy P \<longleftrightarrow>
     1 \<le> evp_max_items P \<and> evp_max_items P \<le> 100 \<and> 1000 \<le> evp_max_total_chars P"

record evidence_selection =
  es_items :: "evidence_item list"
  es_skipped_items :: nat
  es_skipped_chars :: nat

fun select_evidence_loop ::
  "evidence_policy \<Rightarrow> evidence_item list \<Rightarrow> nat \<Rightarrow> nat \<Rightarrow> evidence_item list \<Rightarrow> evidence_selection" where
  "select_evidence_loop P selected used skipped [] =
     \<lparr>es_items = selected, es_skipped_items = 0, es_skipped_chars = skipped\<rparr>"
| "select_evidence_loop P selected used skipped (item # items) =
     (if evp_max_items P \<le> length selected
      then \<lparr>es_items = selected, es_skipped_items = length (item # items),
            es_skipped_chars = skipped\<rparr>
      else if evp_max_total_chars P < used + length (ev_content item)
      then select_evidence_loop P selected used (skipped + 1) items
      else select_evidence_loop P (selected @ [item]) (used + length (ev_content item)) skipped items)"

definition select_evidence_items ::
  "evidence_item list \<Rightarrow> evidence_policy option \<Rightarrow> evidence_selection" where
  "select_evidence_items evidence policy =
     (let P = (case policy of None \<Rightarrow> default_evidence_policy | Some P \<Rightarrow> P)
      in select_evidence_loop P [] 0 0 evidence)"

subsection \<open>Snapshots\<close>

record snapshot_item =
  sni_evidence_id :: ustr
  sni_hash :: string
  sni_source :: evidence_source

record evidence_snapshot =
  snp_id :: ustr
  snp_run_id :: ustr
  snp_retrieval_run_id :: ustr
  snp_context :: "snapshot_item list"

text \<open>\<open>uuid4\<close> is the argument \<open>uuid\<close>.\<close>

definition build_evidence_snapshot ::
  "ustr \<Rightarrow> ustr \<Rightarrow> ustr \<Rightarrow> evidence_item list \<Rightarrow> evidence_snapshot" where
  "build_evidence_snapshot uuid run_id retrieval_run_id evidence =
     \<lparr>snp_id = lit ''snapshot-'' @ uuid, snp_run_id = run_id, snp_retrieval_run_id = retrieval_run_id,
      snp_context = map (\<lambda>e. \<lparr>sni_evidence_id = ev_id e, sni_hash = ev_hash e,
                              sni_source = ev_source e\<rparr>) evidence\<rparr>"

record llm_evidence =
  llm_evidence_id :: ustr
  llm_source :: evidence_source
  llm_label :: ustr
  llm_title :: "ustr option"
  llm_url :: "ustr option"
  llm_trusted :: int
  llm_content :: ustr

definition evidence_to_llm_context :: "evidence_item list \<Rightarrow> llm_evidence list" where
  "evidence_to_llm_context = map (\<lambda>e.
     \<lparr>llm_evidence_id = ev_id e, llm_source = ev_source e, llm_label = ev_label e,
      llm_title = ev_title e, llm_url = ev_url e, llm_trusted = ev_trusted e,
      llm_content = ev_content e\<rparr>)"

subsection \<open>Feature flags\<close>

definition flag_of :: "(string, bool) dict \<Rightarrow> string \<Rightarrow> bool" where
  "flag_of flags k = (case map_of flags k of None \<Rightarrow> False | Some b \<Rightarrow> b)"

definition validate_feature_flags :: "(string, bool) dict \<Rightarrow> string + unit" where
  "validate_feature_flags flags =
     (if flag_of flags ''FEATURE_GROUNDING_V2'' \<and> \<not> flag_of flags ''FEATURE_STRUCTURED_ANSWER_V2''
      then Inl ''FEATURE_GROUNDING_V2 requires FEATURE_STRUCTURED_ANSWER_V2''
      else if flag_of flags ''FEATURE_EVIDENCE_PIPELINE_V2''
            \<and> \<not> flag_of flags ''FEATURE_STRUCTURED_ANSWER_V2''
      then Inl ''FEATURE_EVIDENCE_PIPELINE_V2 requires FEATURE_STRUCTURED_ANSWER_V2''
      else if flag_of flags ''FEATURE_EVIDENCE_PIPELINE_V2'' \<and> \<not> flag_of flags ''FEATURE_GROUNDING_V2''
      then Inl ''FEATURE_EVIDENCE_PIPELINE_V2 requires FEATURE_GROUNDING_V2''
      else Inr ())"

definition feature_names :: "string list" where
  "feature_names =
     [''FEATURE_STRUCTURED_ANSWER_V2'', ''FEATURE_GROUNDING_V2'',
      ''FEATURE_ASSESSMENT_INTELLIGENCE_V2'', ''FEATURE_PLANNER_PROPOSAL_V2'',
      ''FEATURE_MCP_TOOL_ROUTER_V2'', ''FEATURE_AGENT_TOOL_LOOP_V1'', ''FEATURE_EVIDENCE_PIPELINE_V2'']"

text \<open>\<open>lower\<close> is \<open>str.lower\<close>.\<close>

definition feature_flags_from_env ::
  "(ustr \<Rightarrow> ustr) \<Rightarrow> (string \<Rightarrow> ustr option) \<Rightarrow> string + (string, bool) dict" where
  "feature_flags_from_env lower environ =
     (let flags = map (\<lambda>name. (name,
            lower (strip (case environ name of None \<Rightarrow> lit ''false'' | Some v \<Rightarrow> v))
              \<in> lit ` {''1'', ''true'', ''yes'', ''on''})) feature_names
      in bind_res (validate_feature_flags flags) (\<lambda>_. Inr flags))"

subsection \<open>The normal form of a text\<close>

lemma newlines_no_cr: "13 \<notin> set (newlines s)"
  by (auto simp: newlines_def)

lemma newlines_id: "13 \<notin> set s \<Longrightarrow> newlines s = s"
proof -
  assume no: "13 \<notin> set s"
  have "replace_crlf t = t" if "13 \<notin> set t" for t
    using that by (induction t rule: replace_crlf.induct) auto
  with no have "newlines s = map (\<lambda>c. if c = 13 then 10 else c) s"
    by (simp add: newlines_def)
  also have "\<dots> = s" using no by (auto intro!: map_idI)
  finally show ?thesis .
qed

fun trimmed :: "ustr \<Rightarrow> bool" where
  "trimmed [] = True"
| "trimmed (c # cs) \<longleftrightarrow> (c = 32 \<or> c = 9 \<longrightarrow> cs \<noteq> [] \<and> hd cs \<noteq> 10) \<and> trimmed cs"

lemma trimmed_trim_lines: "trimmed (trim_lines s)"
  by (induction s) (auto simp: Let_def)

lemma trim_lines_id: "trimmed s \<Longrightarrow> trim_lines s = s"
  by (induction s) (auto simp: Let_def)

lemma set_trim_lines: "set (trim_lines s) \<subseteq> set s"
  by (induction s) (auto simp: Let_def)

lemma rstrip_Nil [simp]: "rstrip [] = []"
  by (simp add: rstrip_def rstrip_of_def)

lemma rstrip_Cons: "rstrip (c # cs) = (if rstrip cs = [] \<and> py_isspace c then [] else c # rstrip cs)"
  by (auto simp: rstrip_def rstrip_of_def dropWhile_append dropWhile_eq_Nil_conv)

lemma hd_rstrip: "rstrip cs \<noteq> [] \<Longrightarrow> hd (rstrip cs) = hd cs"
  by (cases cs) (auto simp: rstrip_Cons split: if_splits)

lemma trimmed_rstrip: "trimmed s \<Longrightarrow> trimmed (rstrip s)"
proof (induction s)
  case (Cons c cs)
  then show ?case
    by (auto simp: rstrip_Cons hd_rstrip py_isspace_def)
qed simp

lemma set_rstrip: "set (rstrip s) \<subseteq> set s"
  using rstrip_of_prefix [of py_isspace s] set_mono_prefix by (auto simp: rstrip_def)

text \<open>Two texts that differ in line-ending style, in blanks before a line end or in trailing
  whitespace have the same hash: the normal form is a fixed point of the normalisation, so the
  hash of an evidence item can be recomputed from its normalised text.\<close>

theorem content_hash_normal_form:
  "content_hash sha256 (normalize_chunk_text s) = content_hash sha256 s"
proof -
  let ?n = "normalize_chunk_text s"
  have "13 \<notin> set ?n"
    using newlines_no_cr [of s] set_trim_lines [of "newlines s"] set_rstrip [of "trim_lines (newlines s)"]
    by (auto simp: normalize_chunk_text_def)
  then have "newlines ?n = ?n" by (rule newlines_id)
  moreover have "trim_lines ?n = ?n"
    unfolding normalize_chunk_text_def by (intro trim_lines_id trimmed_rstrip trimmed_trim_lines)
  moreover have "rstrip ?n = ?n" by (simp add: normalize_chunk_text_def rstrip_def)
  ultimately have "normalize_chunk_text ?n = ?n"
    by (simp add: normalize_chunk_text_def [of ?n])
  then show ?thesis by (simp add: content_hash_def)
qed

subsection \<open>Merging keeps one content per id\<close>

definition same_content_per_id :: "evidence_item list \<Rightarrow> bool" where
  "same_content_per_id es \<longleftrightarrow>
     (\<forall>a \<in> set es. \<forall>b \<in> set es. ev_id a = ev_id b \<longrightarrow> ev_hash a = ev_hash b)"

definition tracks :: "(ustr \<Rightarrow> evidence_item option) \<Rightarrow> evidence_item list \<Rightarrow> bool" where
  "tracks by_id merged \<longleftrightarrow> distinct (map ev_id merged)
     \<and> (\<forall>k e. by_id k = Some e \<longleftrightarrow> e \<in> set merged \<and> ev_id e = k)"

lemma tracks_None: "tracks by_id merged \<Longrightarrow> by_id k = None \<longleftrightarrow> k \<notin> ev_id ` set merged"
  unfolding tracks_def by (metis (no_types, lifting) image_iff not_None_eq)

lemma tracks_snoc:
  "tracks by_id merged \<Longrightarrow> by_id (ev_id e) = None \<Longrightarrow> tracks (by_id(ev_id e \<mapsto> e)) (merged @ [e])"
  using tracks_None [of by_id merged "ev_id e"] by (auto simp: tracks_def image_iff)

lemma tracks_by_id: "distinct (map ev_id es) \<Longrightarrow> tracks (evidence_by_id es) es"
  by (auto simp: tracks_def evidence_by_id_def o_def rev_map [symmetric] map_of_wf_dict_iff)

definition agree :: "evidence_item \<Rightarrow> evidence_item \<Rightarrow> bool" where
  "agree a b \<longleftrightarrow> (ev_id a = ev_id b \<longrightarrow> ev_hash a = ev_hash b)"

lemma agree_sym: "agree a b \<Longrightarrow> agree b a"
  by (simp add: agree_def)

lemma agree_refl [simp]: "agree a a"
  by (simp add: agree_def)

lemma same_content_per_id_iff: "same_content_per_id es \<longleftrightarrow> (\<forall>a \<in> set es. \<forall>b \<in> set es. agree a b)"
  by (simp add: same_content_per_id_def agree_def)

lemma merge_evidence_loop_ok:
  assumes "tracks by_id merged"
  shows "is_ok (merge_evidence_loop by_id merged items) \<longleftrightarrow>
           (\<forall>a \<in> set items. \<forall>b \<in> set merged \<union> set items. agree a b)"
  using assms
proof (induction items arbitrary: by_id merged)
  case (Cons item items)
  have first: "(\<forall>b \<in> set merged. agree item b) \<longleftrightarrow>
      (\<forall>e. by_id (ev_id item) = Some e \<longrightarrow> ev_hash e = ev_hash item)"
    using Cons.prems by (auto simp: tracks_def agree_def)
  show ?case
  proof (cases "by_id (ev_id item)")
    case None
    then have "\<forall>b \<in> set merged. agree item b" using first by simp
    moreover have "is_ok (merge_evidence_loop by_id merged (item # items)) \<longleftrightarrow>
        (\<forall>a \<in> set items. \<forall>b \<in> set (merged @ [item]) \<union> set items. agree a b)"
      using Cons.IH [OF tracks_snoc [OF Cons.prems None]] None by (simp del: fun_upd_apply)
    ultimately show ?thesis by (auto intro: agree_sym)
  next
    case (Some previous)
    then have prev: "previous \<in> set merged" "ev_id previous = ev_id item"
      using Cons.prems by (auto simp: tracks_def)
    show ?thesis
    proof (cases "ev_hash previous = ev_hash item")
      case True
      have same: "agree a item \<longleftrightarrow> agree a previous" for a
        using True prev by (simp add: agree_def)
      have "\<forall>b \<in> set merged. agree item b" using first Some True by simp
      moreover have "is_ok (merge_evidence_loop by_id merged (item # items)) \<longleftrightarrow>
          (\<forall>a \<in> set items. \<forall>b \<in> set merged \<union> set items. agree a b)"
        using Cons.IH [OF Cons.prems] Some True by simp
      ultimately show ?thesis using same prev(1) by (auto intro: agree_sym)
    next
      case False
      then have "\<not> agree item previous" using prev by (auto simp: agree_def)
      then show ?thesis using Some prev(1) False by auto
    qed
  qed
qed simp

lemma merge_evidence_loop_out:
  "tracks by_id merged \<Longrightarrow> merge_evidence_loop by_id merged items = Inr out \<Longrightarrow>
     prefix merged out \<and> distinct (map ev_id out) \<and> set out \<subseteq> set merged \<union> set items
   \<and> ev_id ` set out = ev_id ` (set merged \<union> set items)"
proof (induction items arbitrary: by_id merged)
  case Nil
  then show ?case by (auto simp: tracks_def)
next
  case (Cons item items)
  show ?case
  proof (cases "by_id (ev_id item)")
    case None
    then have "merge_evidence_loop (by_id(ev_id item \<mapsto> item)) (merged @ [item]) items = Inr out"
      using Cons.prems(2) by simp
    from Cons.IH [OF tracks_snoc [OF Cons.prems(1) None] this]
    show ?thesis by (auto simp del: set_map dest: append_prefixD)
  next
    case (Some previous)
    then have "previous \<in> set merged" "ev_id previous = ev_id item"
      using Cons.prems by (auto simp: tracks_def)
    then have "ev_id item \<in> ev_id ` set merged" by (metis imageI)
    moreover have "merge_evidence_loop by_id merged items = Inr out"
      using Cons.prems(2) Some by (simp split: if_splits)
    ultimately show ?thesis
      using Cons.IH [OF Cons.prems(1)] by (simp add: image_Un insert_absorb) blast
  qed
qed

lemma merge_evidence_loop_absorb:
  "\<forall>e \<in> set items. \<exists>p. by_id (ev_id e) = Some p \<and> ev_hash p = ev_hash e \<Longrightarrow>
     merge_evidence_loop by_id merged items = Inr merged"
  by (induction items) auto

lemma merge_evidence_ok:
  assumes "distinct (map ev_id existing)"
  shows "is_ok (merge_evidence_items existing incoming) \<longleftrightarrow> same_content_per_id (existing @ incoming)"
proof -
  have old: "agree a b" if "a \<in> set existing" "b \<in> set existing" for a b
    using that assms by (auto simp: agree_def distinct_map dest: inj_onD)
  show ?thesis
    unfolding merge_evidence_items_def merge_evidence_loop_ok [OF tracks_by_id [OF assms]]
      same_content_per_id_iff
    using old by (auto intro: agree_sym)
qed

lemma merge_evidence_out:
  assumes "distinct (map ev_id existing)" "merge_evidence_items existing incoming = Inr out"
  shows "prefix existing out" "distinct (map ev_id out)" "set out \<subseteq> set existing \<union> set incoming"
    "ev_id ` set out = ev_id ` (set existing \<union> set incoming)"
  using merge_evidence_loop_out [OF tracks_by_id [OF assms(1)], of incoming out] assms(2)
  by (simp_all add: merge_evidence_items_def)

lemma merge_evidence_again:
  assumes "distinct (map ev_id existing)" "merge_evidence_items existing incoming = Inr out"
  shows "merge_evidence_items out incoming = Inr out"
proof -
  note out = merge_evidence_out [OF assms]
  have same: "same_content_per_id (existing @ incoming)"
    using merge_evidence_ok [OF assms(1), of incoming] assms(2) by simp
  have "\<exists>p. evidence_by_id out (ev_id e) = Some p \<and> ev_hash p = ev_hash e" if e: "e \<in> set incoming" for e
  proof -
    obtain p where p: "p \<in> set out" "ev_id p = ev_id e"
      using e out(4) by (metis (no_types, lifting) UnI2 imageE imageI)
    moreover have "evidence_by_id out (ev_id e) = Some p"
      using p tracks_by_id [OF out(2)] by (simp add: tracks_def)
    moreover have "ev_hash p = ev_hash e"
      using same p e out(3) by (auto simp: same_content_per_id_def)
    ultimately show ?thesis by blast
  qed
  then show ?thesis
    by (simp add: merge_evidence_items_def merge_evidence_loop_absorb)
qed

text \<open>Merging new evidence into a run's evidence with distinct ids succeeds exactly when no id
  carries two different contents, and then extends the list: the earlier items stay in front
  unchanged, ids stay distinct, every id of either list is present, and merging the same
  evidence again changes nothing.\<close>

theorem merge_evidence_spec:
  assumes "distinct (map ev_id existing)"
  shows "case merge_evidence_items existing incoming of
      Inl _ \<Rightarrow> \<not> same_content_per_id (existing @ incoming)
    | Inr out \<Rightarrow> same_content_per_id (existing @ incoming)
        \<and> prefix existing out \<and> distinct (map ev_id out)
        \<and> set out \<subseteq> set existing \<union> set incoming
        \<and> ev_id ` set out = ev_id ` (set existing \<union> set incoming)
        \<and> merge_evidence_items out incoming = Inr out"
proof (cases "merge_evidence_items existing incoming")
  case (Inl e)
  then show ?thesis using merge_evidence_ok [OF assms, of incoming] by simp
next
  case (Inr out)
  then show ?thesis
    using merge_evidence_ok [OF assms, of incoming] merge_evidence_out [OF assms Inr]
      merge_evidence_again [OF assms Inr] by simp
qed

definition sample_item :: "ustr \<Rightarrow> string \<Rightarrow> evidence_item" where
  "sample_item i h = \<lparr>ev_id = i, ev_source = SrcTool, ev_content = lit ''text'', ev_hash = h,
     ev_label = lit ''l'', ev_title = None, ev_url = None, ev_trusted = 3, ev_document_id = None,
     ev_chunk_id = None, ev_tool_name = Some (lit ''t''), ev_fingerprint = None, ev_metadata = []\<rparr>"

lemma merge_evidence_spec_witness:
  "merge_evidence_items [sample_item (lit ''a'') ''h''] [sample_item (lit ''a'') ''h'', sample_item (lit ''b'') ''k'']
     = Inr [sample_item (lit ''a'') ''h'', sample_item (lit ''b'') ''k'']
   \<and> merge_evidence_items [sample_item (lit ''a'') ''h'', sample_item (lit ''b'') ''k'']
       [sample_item (lit ''a'') ''h'', sample_item (lit ''b'') ''k'']
     = Inr [sample_item (lit ''a'') ''h'', sample_item (lit ''b'') ''k'']"
proof -
  have run: "merge_evidence_items [sample_item (lit ''a'') ''h''] [sample_item (lit ''a'') ''h'', sample_item (lit ''b'') ''k'']
     = Inr [sample_item (lit ''a'') ''h'', sample_item (lit ''b'') ''k'']"
    by (simp add: merge_evidence_items_def evidence_by_id_def sample_item_def)
  have "distinct (map ev_id [sample_item (lit ''a'') ''h''])" by simp
  note spec = merge_evidence_spec [OF this, of "[sample_item (lit ''a'') ''h'', sample_item (lit ''b'') ''k'']"]
  show ?thesis
    using spec unfolding run sum.case by (intro conjI refl) blast
qed

subsection \<open>Selection within the budgets\<close>

definition evidence_chars :: "evidence_item list \<Rightarrow> nat" where
  "evidence_chars es = sum_list (map (\<lambda>e. length (ev_content e)) es)"

definition evidence_admitted :: "evidence_policy \<Rightarrow> evidence_item list \<Rightarrow> evidence_item \<Rightarrow> bool" where
  "evidence_admitted P sel e \<longleftrightarrow> length sel < evp_max_items P
     \<and> evidence_chars sel + length (ev_content e) \<le> evp_max_total_chars P"

definition evidence_run ::
  "evidence_policy \<Rightarrow> evidence_item list \<Rightarrow> evidence_item list \<Rightarrow> unit + evidence_item list" where
  "evidence_run P sel es = Inr (es_items (select_evidence_loop P sel (evidence_chars sel) 0 es))"

lemma select_evidence_items_skip:
  "es_items (select_evidence_loop P sel used n es) = es_items (select_evidence_loop P sel used m es)"
proof (induction es arbitrary: sel used n m)
  case (Cons e es)
  show ?case
    by (cases "length sel < evp_max_items P"; cases "evp_max_total_chars P < used + length (ev_content e)")
       (simp_all add: Cons.IH [of _ _ "Suc n" "Suc m"] Cons.IH [of _ _ n m])
qed simp

lemma evidence_chars_simps [simp]:
  "evidence_chars [] = 0" "evidence_chars (sel @ [e]) = evidence_chars sel + length (ev_content e)"
  by (simp_all add: evidence_chars_def)

interpretation evidence: budgeted_selection
  "evidence_run P" "evidence_admitted P" evidence_chars "evp_max_total_chars P" "evp_max_items P" for P
proof
  fix sel es e out
  show "evidence_run P sel [] = Inr sel" by (simp add: evidence_run_def)
  show "out = sel \<or> evidence_run P sel es = Inr out
      \<or> evidence_admitted P sel e \<and> evidence_run P (sel @ [e]) es = Inr out"
    if "evidence_run P sel (e # es) = Inr out"
    using that select_evidence_items_skip [of P sel "evidence_chars sel" 0 es 1]
    by (auto simp: evidence_run_def evidence_admitted_def split: if_splits)
qed (auto simp: evidence_admitted_def)

lemma select_evidence_counts:
  "length (es_items r) + es_skipped_items r + es_skipped_chars r = length sel + n + length es"
  if "r = select_evidence_loop P sel used n es"
  using that by (induction P sel used n es rule: select_evidence_loop.induct) auto

lemma select_evidence_extends:
  "prefix sel (es_items (select_evidence_loop P sel used n es))"
  by (induction P sel used n es rule: select_evidence_loop.induct) (auto dest: append_prefixD)

lemma evidence_chars_prefix: "prefix a b \<Longrightarrow> evidence_chars a \<le> evidence_chars b"
  by (auto simp: prefix_def evidence_chars_def)

lemma select_evidence_maximal:
  "e \<in> set es \<Longrightarrow> e \<notin> set (es_items r) \<Longrightarrow> r = select_evidence_loop P sel (evidence_chars sel) n es \<Longrightarrow>
     evp_max_items P \<le> length (es_items r)
   \<or> evp_max_total_chars P < evidence_chars (es_items r) + length (ev_content e)"
proof (induction es arbitrary: sel n)
  case (Cons x es)
  show ?case
  proof (cases "length sel < evp_max_items P")
    case full: True
    show ?thesis
    proof (cases "evp_max_total_chars P < evidence_chars sel + length (ev_content x)")
      case True
      then have r: "r = select_evidence_loop P sel (evidence_chars sel) (n + 1) es"
        using Cons.prems full by simp
      show ?thesis
      proof (cases "e = x")
        case eq: True
        have "evidence_chars sel \<le> evidence_chars (es_items r)"
          unfolding r by (intro evidence_chars_prefix select_evidence_extends)
        with True eq show ?thesis by simp
      next
        case False
        with Cons.prems have "e \<in> set es" by simp
        from Cons.IH [OF this Cons.prems(2) r] show ?thesis .
      qed
    next
      case False
      then have r: "r = select_evidence_loop P (sel @ [x]) (evidence_chars (sel @ [x])) n es"
        using Cons.prems full by simp
      have "prefix (sel @ [x]) (es_items r)"
        unfolding r by (rule select_evidence_extends)
      then have "x \<in> set (es_items r)" by (auto simp: prefix_def)
      with Cons.prems have "e \<in> set es" by auto
      from Cons.IH [OF this Cons.prems(2) r] show ?thesis .
    qed
  next
    case False
    then show ?thesis using Cons.prems by simp
  qed
qed simp

text \<open>The evidence handed to the teacher is a subsequence of the run's evidence that keeps both
  budgets; every item is either selected or counted in one of the two skip counters; and the
  selection is maximal: an item that was left out either found the item budget used up or does
  not fit into what the selection leaves of the character budget.\<close>

theorem select_evidence_spec:
  "let r = select_evidence_items evidence policy;
       P = (case policy of None \<Rightarrow> default_evidence_policy | Some P \<Rightarrow> P)
   in subseq (es_items r) evidence \<and> length (es_items r) \<le> evp_max_items P
    \<and> evidence_chars (es_items r) \<le> evp_max_total_chars P
    \<and> length (es_items r) + es_skipped_items r + es_skipped_chars r = length evidence
    \<and> (\<forall>e \<in> set evidence. e \<in> set (es_items r) \<or> evp_max_items P \<le> length (es_items r)
        \<or> evp_max_total_chars P < evidence_chars (es_items r) + length (ev_content e))"
proof -
  define P where "P = (case policy of None \<Rightarrow> default_evidence_policy | Some P \<Rightarrow> P)"
  define r where "r = select_evidence_items evidence policy"
  have r: "r = select_evidence_loop P [] (evidence_chars []) 0 evidence"
    by (simp add: r_def P_def select_evidence_items_def Let_def)
  then have run: "evidence_run P [] evidence = Inr (es_items r)"
    by (simp add: evidence_run_def)
  show ?thesis
    unfolding Let_def P_def [symmetric] r_def [symmetric]
    using evidence.run_subseq [OF run] evidence.run_within_budget [OF run]
      evidence.run_within_count [OF run] select_evidence_counts [OF r]
      select_evidence_maximal [OF _ _ r] by auto
qed

lemma select_evidence_spec_witness:
  "es_items (select_evidence_items [sample_item (lit ''a'') ''h'', sample_item (lit ''b'') ''k'']
      (Some \<lparr>evp_max_items = 1, evp_max_total_chars = 1000\<rparr>)) = [sample_item (lit ''a'') ''h'']
   \<and> es_skipped_items (select_evidence_items [sample_item (lit ''a'') ''h'', sample_item (lit ''b'') ''k'']
      (Some \<lparr>evp_max_items = 1, evp_max_total_chars = 1000\<rparr>)) = 1"
  using select_evidence_spec [of "[sample_item (lit ''a'') ''h'', sample_item (lit ''b'') ''k'']"
      "Some \<lparr>evp_max_items = 1, evp_max_total_chars = 1000\<rparr>"]
  by (simp add: select_evidence_items_def Let_def sample_item_def)

subsection \<open>Evidence from retrieval\<close>

lemma copy_metadata_id [simp]: "copy_metadata v = v"
  by (induction v rule: copy_metadata.induct) (auto intro!: map_idI)

text \<open>The provenance of an item never mixes: an item that passed the constructor carries either
  a document and a chunk id or a tool name, as its source type says.\<close>

lemma make_evidence_provenance:
  "make_evidence e = Inr f \<Longrightarrow> f = e \<and> ev_content e \<noteq> [] \<and> length (ev_hash e) = 64
     \<and> (ev_source e = SrcRag \<longrightarrow> \<not> blank (ev_document_id e) \<and> \<not> blank (ev_chunk_id e)
          \<and> ev_tool_name e = None \<and> ev_fingerprint e = None)
     \<and> (ev_source e = SrcTool \<longrightarrow> \<not> blank (ev_tool_name e) \<and> ev_document_id e = None
          \<and> ev_chunk_id e = None)"
  by (auto simp: make_evidence_def validate_provenance_def split: if_splits evidence_source.splits)

text \<open>Feature flags read from the environment respect their dependencies: the evidence
  pipeline needs grounding, which needs structured answers.\<close>

theorem feature_flags_sound:
  "case feature_flags_from_env lower environ of
     Inl e \<Rightarrow> e \<noteq> []
   | Inr flags \<Rightarrow> map fst flags = feature_names
       \<and> (flag_of flags ''FEATURE_EVIDENCE_PIPELINE_V2'' \<longrightarrow> flag_of flags ''FEATURE_GROUNDING_V2'')
       \<and> (flag_of flags ''FEATURE_GROUNDING_V2'' \<longrightarrow> flag_of flags ''FEATURE_STRUCTURED_ANSWER_V2'')"
proof (cases "feature_flags_from_env lower environ")
  case (Inl e)
  then show ?thesis
    by (auto simp: feature_flags_from_env_def Let_def bind_res_Inl_iff validate_feature_flags_def
        split: if_splits)
next
  case (Inr flags)
  then have "validate_feature_flags flags = Inr ()" "map fst flags = feature_names"
    by (auto simp: feature_flags_from_env_def Let_def bind_res_Inr_iff o_def)
  with Inr show ?thesis by (auto simp: validate_feature_flags_def split: if_splits)
qed

lemma feature_flags_sound_witness:
  "feature_flags_from_env id (\<lambda>k. if k = ''FEATURE_GROUNDING_V2'' then Some (lit ''on'') else None)
     = Inl ''FEATURE_GROUNDING_V2 requires FEATURE_STRUCTURED_ANSWER_V2''
   \<and> (''FEATURE_GROUNDING_V2 requires FEATURE_STRUCTURED_ANSWER_V2'' :: string) \<noteq> []"
proof -
  have strips: "strip (lit ''on'') = lit ''on''" "strip (lit ''false'') = lit ''false''"
    by (simp_all add: strip_def lstrip_def rstrip_def rstrip_of_def py_isspace_def lit_def)
  have run: "feature_flags_from_env id (\<lambda>k. if k = ''FEATURE_GROUNDING_V2'' then Some (lit ''on'') else None)
     = Inl ''FEATURE_GROUNDING_V2 requires FEATURE_STRUCTURED_ANSWER_V2''"
    by (simp add: feature_flags_from_env_def feature_names_def validate_feature_flags_def flag_of_def
        strips)
  show ?thesis
    using feature_flags_sound [of id
      "\<lambda>k. if k = ''FEATURE_GROUNDING_V2'' then Some (lit ''on'') else None"]
    unfolding run sum.case by blast
qed

end
