(* ===== verification/Tutor_State.thy ===== *)
theory Tutor_State
  imports Evidence
begin

text \<open>
  The state of a tutor run (src/adaptive_tutor/tutor/models.py) and the contracts of the bounded
  agent loop (agent_contracts.py, with the policy and the storage of the loop state from
  agent_controller.py). The loop state lives in \<open>execution.agent_state\<close> as the dump of its model;
  an empty dictionary there is \<open>None\<close>.
\<close>

subsection \<open>Agent contracts\<close>

datatype safety_class = ReadOnly | ProposalOnly

record tool_spec =
  ts_name :: ustr
  ts_description :: ustr
  ts_input_schema :: metadata
  ts_safety :: safety_class
  ts_visible :: bool

record agent_tool_call =
  atc_tool :: ustr
  atc_arguments :: metadata

datatype agent_action = ActAnswer | ActCallTool

datatype reason_code =
    ContextSufficient | ExternalInformationNeeded | ToolResultSufficient | ToolFailedFallback
  | BudgetExhausted | InvalidModelOutput | DuplicateToolCall

record agent_decision =
  dec_action :: agent_action
  dec_call :: "agent_tool_call option"
  dec_reason :: reason_code

definition validate_action :: "agent_decision \<Rightarrow> string + agent_decision" where
  "validate_action d =
     (if dec_action d = ActCallTool \<and> dec_call d = None then Inl ''call_tool requires tool_call''
      else if dec_action d = ActAnswer \<and> dec_call d \<noteq> None
      then Inl ''answer cannot include tool_call''
      else Inr d)"

datatype error_code =
    UpstreamTimeout | UpstreamInvalidStructuredOutput | RetrievalSnapshotMismatch
  | CitationProvenanceInvalid | IdempotencyConflict | PlanVersionConflict
  | PlanProposalNotActionable | ToolNotAllowed | ToolBudgetExceeded | ToolArgumentInvalid
  | ToolTimeout | ToolResultTooLarge | ToolExecutionFailed | ToolEvidenceMappingFailed

fun code_value :: "error_code \<Rightarrow> string" where
  "code_value UpstreamTimeout = ''T3_UPSTREAM_TIMEOUT''"
| "code_value UpstreamInvalidStructuredOutput = ''T3_UPSTREAM_INVALID_STRUCTURED_OUTPUT''"
| "code_value RetrievalSnapshotMismatch = ''T3_RETRIEVAL_SNAPSHOT_MISMATCH''"
| "code_value CitationProvenanceInvalid = ''T3_CITATION_PROVENANCE_INVALID''"
| "code_value IdempotencyConflict = ''T3_IDEMPOTENCY_CONFLICT''"
| "code_value PlanVersionConflict = ''T3_PLAN_VERSION_CONFLICT''"
| "code_value PlanProposalNotActionable = ''T3_PLAN_PROPOSAL_NOT_ACTIONABLE''"
| "code_value ToolNotAllowed = ''T3_TOOL_NOT_ALLOWED''"
| "code_value ToolBudgetExceeded = ''T3_TOOL_BUDGET_EXCEEDED''"
| "code_value ToolArgumentInvalid = ''T3_TOOL_ARGUMENT_INVALID''"
| "code_value ToolTimeout = ''T3_TOOL_TIMEOUT''"
| "code_value ToolResultTooLarge = ''T3_TOOL_RESULT_TOO_LARGE''"
| "code_value ToolExecutionFailed = ''T3_TOOL_EXECUTION_FAILED''"
| "code_value ToolEvidenceMappingFailed = ''T3_TOOL_EVIDENCE_MAPPING_FAILED''"

fun reason_value :: "reason_code \<Rightarrow> string" where
  "reason_value ContextSufficient = ''context_sufficient''"
| "reason_value ExternalInformationNeeded = ''external_information_needed''"
| "reason_value ToolResultSufficient = ''tool_result_sufficient''"
| "reason_value ToolFailedFallback = ''tool_failed_fallback''"
| "reason_value BudgetExhausted = ''budget_exhausted''"
| "reason_value InvalidModelOutput = ''invalid_model_output''"
| "reason_value DuplicateToolCall = ''duplicate_tool_call''"

record observation =
  ob_tool :: ustr
  ob_arguments :: metadata
  ob_fingerprint :: ustr
  ob_success :: bool
  ob_value :: "json option"
  ob_error :: "string option"
  ob_cache_hit :: bool
  ob_truncated :: bool

record loop_state =
  ls_active :: bool
  ls_count :: nat
  ls_max :: nat
  ls_pending :: "agent_tool_call option"
  ls_observations :: "observation list"
  ls_last_reason :: "string option"
  ls_stop :: "string option"

definition initial_loop :: loop_state where
  "initial_loop = \<lparr>ls_active = False, ls_count = 0, ls_max = 4, ls_pending = None,
     ls_observations = [], ls_last_reason = None, ls_stop = None\<rparr>"

subsection \<open>Workflow state\<close>

record conversation_turn =
  ct_user :: ustr
  ct_assistant :: ustr

record conversation_state =
  cv_thread_id :: ustr
  cv_user_id :: ustr
  cv_message :: ustr
  cv_summary :: ustr
  cv_turns :: "conversation_turn list"
  cv_intent :: "ustr option"
  cv_entities :: "ustr list"

record learning_state =
  lr_goal_id :: ustr
  lr_active_plan :: metadata
  lr_current_task :: "metadata option"
  lr_preferences :: metadata
  lr_mastery_summary :: metadata
  lr_recent_events :: "metadata list"

record evidence_state =
  es_query :: ustr
  es_chunk_ids :: "ustr list"
  es_scores :: "(ustr, pyfloat) dict"
  es_context_ids :: "ustr list"
  es_citation_ids :: "ustr list"
  es_grounding :: metadata

record tool_call_record =
  tc_tool :: ustr
  tc_fingerprint :: ustr
  tc_success :: bool
  tc_cache_hit :: bool
  tc_truncated :: bool
  tc_error :: "string option"

record execution_state =
  ex_run_id :: ustr
  ex_graph_version :: ustr
  ex_agent_state :: "loop_state option"
  ex_tool_calls :: "tool_call_record list"
  ex_latency :: "int option"
  ex_retry_count :: int

record workflow_state =
  wf_conversation :: conversation_state
  wf_learning :: learning_state
  wf_evidence :: evidence_state
  wf_execution :: execution_state

definition load_agent_loop_state :: "workflow_state \<Rightarrow> loop_state" where
  "load_agent_loop_state w =
     (case ex_agent_state (wf_execution w) of None \<Rightarrow> initial_loop | Some l \<Rightarrow> l)"

definition save_agent_loop_state :: "workflow_state \<Rightarrow> loop_state \<Rightarrow> workflow_state" where
  "save_agent_loop_state w l =
     w\<lparr>wf_execution := (wf_execution w)\<lparr>ex_agent_state := Some l\<rparr>\<rparr>"

lemma load_save [simp]: "load_agent_loop_state (save_agent_loop_state w l) = l"
  by (simp add: load_agent_loop_state_def save_agent_loop_state_def)

subsection \<open>The loop's policy\<close>

text \<open>\<open>int(s)\<close>: white space around, an optional sign, digits with single underscores between.\<close>

definition py_int :: "unicode_db \<Rightarrow> ustr \<Rightarrow> int option" where
  "py_int u s =
     (let t = strip s;
          body = (if t \<noteq> [] \<and> (hd t = 45 \<or> hd t = 43) then tl t else t);
          parts = split_on 95 body
      in if [] \<in> set parts then None
         else map_option (\<lambda>n. if t \<noteq> [] \<and> hd t = 45 then - int n else int n)
                (int_of_digits u (concat parts)))"

definition agent_loop_policy_from_env ::
  "unicode_db \<Rightarrow> (string \<Rightarrow> ustr option) \<Rightarrow> string + nat" where
  "agent_loop_policy_from_env u environ =
     (let stripped = strip (case environ ''AGENT_MAX_DECISIONS'' of None \<Rightarrow> lit ''4'' | Some v \<Rightarrow> v);
          raw = (if stripped = [] then lit ''4'' else stripped)
      in case py_int u raw of
           Some n \<Rightarrow>
             if 1 \<le> n \<and> n \<le> 8 then Inr (nat n)
             else Inl ''AGENT_MAX_DECISIONS must be an integer between 1 and 8''
         | None \<Rightarrow> Inl ''AGENT_MAX_DECISIONS must be an integer between 1 and 8'')"

lemma policy_range: "agent_loop_policy_from_env u environ = Inr m \<Longrightarrow> 1 \<le> m \<and> m \<le> 8"
  by (auto simp: agent_loop_policy_from_env_def Let_def split: option.splits if_splits)

end
