(* ===== verification/Tool_Router.thy ===== *)
theory Tool_Router
  imports Tutor_State
begin

text \<open>
  The tool router (src/adaptive_tutor/tutor/tool_router.py): a registry of tools, a budget of
  calls per run, a cache keyed by user, run and call, and the guards around a handler: size limits
  on arguments and results, the cut to a number of items and characters, the filter on
  instructions hidden in tool text, and the mapping of a result to evidence.

  Handlers, argument models, evidence mappers and completion callbacks are ports. A handler
  returns a JSON value or a \<open>HandlerResult\<close>, raises, or asks for an approval, in time or slower than
  the timeout. Where a handler is called the model notes the run in \<open>rs_handled\<close>, which is no part
  of the program. \<open>json.dumps\<close>, SHA-256 and the case folding of the \<open>re\<close> module are
  parameters.
\<close>

subsection \<open>Filtering untrusted text\<close>

definition phrases :: "ustr list" where
  "phrases = [lit ''ignore previous instructions'', lit ''system prompt'', lit ''developer message'']"

definition filtered :: ustr where
  "filtered = lit ''[filtered untrusted instruction]''"

text \<open>\<open>ci c d\<close>: the characters match under \<open>re.IGNORECASE\<close>.\<close>

fun prefix_ci :: "(nat \<Rightarrow> nat \<Rightarrow> bool) \<Rightarrow> ustr \<Rightarrow> ustr \<Rightarrow> bool" where
  "prefix_ci ci [] s = True"
| "prefix_ci ci (p # ps) [] = False"
| "prefix_ci ci (p # ps) (c # cs) = (ci p c \<and> prefix_ci ci ps cs)"

function (sequential) sanitize_untrusted_tool_text :: "(nat \<Rightarrow> nat \<Rightarrow> bool) \<Rightarrow> ustr \<Rightarrow> ustr" where
  "sanitize_untrusted_tool_text ci [] = []"
| "sanitize_untrusted_tool_text ci (c # cs) =
     (case find (\<lambda>p. prefix_ci ci p (c # cs)) phrases of
        Some p \<Rightarrow> filtered @ sanitize_untrusted_tool_text ci (drop (length p) (c # cs))
      | None \<Rightarrow> c # sanitize_untrusted_tool_text ci cs)"
  by pat_completeness auto
termination
proof (relation "measure (\<lambda>(_, s). length s)", goal_cases)
  case (3 ci c cs p)
  then have "p \<in> set phrases" by (metis find_Some_iff nth_mem)
  then show ?case by (auto simp: phrases_def)
qed simp_all

text \<open>\<open>_sanitize\<close>: the strings of a value are filtered, keys are kept.\<close>

fun sanitize_value :: "(nat \<Rightarrow> nat \<Rightarrow> bool) \<Rightarrow> json \<Rightarrow> json" where
  "sanitize_value ci (JStr s) = JStr (sanitize_untrusted_tool_text ci s)"
| "sanitize_value ci (JList xs) = JList (map (sanitize_value ci) xs)"
| "sanitize_value ci (JDict d) = JDict (map (\<lambda>(k, v). (k, sanitize_value ci v)) d)"
| "sanitize_value ci v = v"

subsection \<open>Policy, results and ports\<close>

record tool_policy =
  tp_max_calls :: nat
  tp_max_argument_bytes :: nat
  tp_max_raw_bytes :: nat
  tp_max_chars :: nat
  tp_max_items :: nat

definition default_tool_policy :: tool_policy where
  "default_tool_policy = \<lparr>tp_max_calls = 5, tp_max_argument_bytes = 16384, tp_max_raw_bytes = 262144,
     tp_max_chars = 32000, tp_max_items = 50\<rparr>"

record tool_result =
  tr_value :: json
  tr_cache_hit :: bool
  tr_truncated :: bool
  tr_untrusted :: bool
  tr_fingerprint :: ustr
  tr_evidence :: "evidence_item list"

record approval_interrupt =
  ai_server_id :: ustr
  ai_tool_name :: ustr
  ai_arguments :: metadata

datatype raw_result = Plain json | HandlerResult json bool

fun raw_value :: "raw_result \<Rightarrow> json" where
  "raw_value (Plain v) = v"
| "raw_value (HandlerResult v _) = v"

fun raw_truncated :: "raw_result \<Rightarrow> bool" where
  "raw_truncated (Plain _) = False"
| "raw_truncated (HandlerResult _ t) = t"

text \<open>\<open>HSlow h\<close>: the outcome \<open>h\<close>, later than the timeout of a worker.\<close>

datatype handler_outcome =
    HReturn raw_result
  | HSlow handler_outcome
  | HApproval approval_interrupt
  | HRaise port_error

fun awaited :: "handler_outcome \<Rightarrow> handler_outcome" where
  "awaited (HSlow h) = awaited h"
| "awaited h = h"

text \<open>What leaves the router other than a result: a \<open>ToolRouterError\<close>, the approval interrupt, or
  an exception the router does not handle.\<close>

datatype tool_failure =
    RouterError error_code
  | ApprovalNeeded approval_interrupt
  | Escaped port_error

type_synonym handler_port = "metadata \<Rightarrow> handler_outcome"
type_synonym completion_port = "metadata \<Rightarrow> raw_result option \<Rightarrow> string \<Rightarrow> port_error option"
type_synonym mapper_port = "json \<Rightarrow> ustr \<Rightarrow> port_error + evidence_item list"

record registered_tool =
  rt_spec :: tool_spec
  rt_handler :: handler_port
  rt_argument_model :: "(metadata \<Rightarrow> metadata option) option"
  rt_legacy_handler :: "handler_port option"
  rt_mapper :: "mapper_port option"
  rt_completion :: "completion_port option"

datatype registry_value = PlainTool handler_port | Registered registered_tool

record router_config =
  rc_registry :: "(ustr, registry_value) dict"
  rc_policy :: tool_policy
  rc_allow_proposals :: bool
  rc_dumps_sorted :: "json \<Rightarrow> ustr"
  rc_dumps :: "json \<Rightarrow> ustr"
  rc_sha256 :: sha
  rc_ci :: "nat \<Rightarrow> nat \<Rightarrow> bool"

type_synonym cache_key = "ustr \<times> ustr \<times> ustr"

record router_state =
  rs_cache :: "cache_key \<Rightarrow> tool_result option"
  rs_calls :: "ustr \<Rightarrow> nat"
  rs_handled :: "ustr list"

definition initial_router :: router_state where
  "initial_router = \<lparr>rs_cache = (\<lambda>_. None), rs_calls = (\<lambda>_. 0), rs_handled = []\<rparr>"

text \<open>The length of a text in UTF-8; a lone surrogate cannot be encoded.\<close>

fun utf8_length :: "ustr \<Rightarrow> nat option" where
  "utf8_length [] = Some 0"
| "utf8_length (c # cs) =
     (if 55296 \<le> c \<and> c \<le> 57343 then None
      else map_option ((+) (if c < 128 then 1 else if c < 2048 then 2 else if c < 65536 then 3 else 4))
             (utf8_length cs))"

definition unicode_encode_error :: port_error where
  "unicode_encode_error = PortError ''UnicodeEncodeError'' [''UnicodeError'', ''ValueError'', ''Exception'']"

definition list_agent_tools :: "router_config \<Rightarrow> tool_spec list" where
  "list_agent_tools cfg =
     concat (map (\<lambda>entry. case entry of
        PlainTool _ \<Rightarrow> []
      | Registered t \<Rightarrow>
          if ts_visible (rt_spec t) \<and> (ts_safety (rt_spec t) = ReadOnly \<or> rc_allow_proposals cfg)
          then [rt_spec t] else []) (dict_values (rc_registry cfg)))"

subsection \<open>Normalising a result\<close>

definition normalize_value :: "router_config \<Rightarrow> json \<Rightarrow> json \<times> bool" where
  "normalize_value cfg value =
     (let n = tp_max_items (rc_policy cfg) in
      case value of
        JList xs \<Rightarrow> (JList (map (sanitize_value (rc_ci cfg)) (take n xs)), n < length xs)
      | JDict d \<Rightarrow>
          (case map_of d (lit ''items'') of
             Some (JList items) \<Rightarrow>
               (sanitize_value (rc_ci cfg) (JDict (dict_set (lit ''items'') (JList (take n items)) d)),
                n < length items)
           | _ \<Rightarrow> (sanitize_value (rc_ci cfg) value, False))
      | _ \<Rightarrow> (sanitize_value (rc_ci cfg) value, False))"

definition notify_completion ::
  "completion_port option \<Rightarrow> metadata \<Rightarrow> raw_result option \<Rightarrow> string \<Rightarrow> tool_failure + unit" where
  "notify_completion completion arguments value status =
     (case completion of
        None \<Rightarrow> Inr ()
      | Some call \<Rightarrow> (case call arguments value status of None \<Rightarrow> Inr () | Some e \<Rightarrow> Inl (Escaped e)))"

definition failed_with ::
  "completion_port option \<Rightarrow> metadata \<Rightarrow> error_code \<Rightarrow> tool_failure + 'a" where
  "failed_with completion arguments code =
     bind_res (notify_completion completion arguments None ''failed'') (\<lambda>_. Inl (RouterError code))"

text \<open>The call of the handler: on a worker thread with the timeout, or directly, as long as it takes.\<close>

definition call_handler ::
  "bool \<Rightarrow> handler_port \<Rightarrow> completion_port option \<Rightarrow> metadata \<Rightarrow> tool_failure + raw_result" where
  "call_handler use_worker handler completion arguments =
     (case (if use_worker then handler arguments else awaited (handler arguments)) of
        HReturn raw \<Rightarrow> Inr raw
      | HSlow _ \<Rightarrow> failed_with completion arguments ToolTimeout
      | HApproval a \<Rightarrow> Inl (ApprovalNeeded a)
      | HRaise e \<Rightarrow> failed_with completion arguments ToolExecutionFailed)"

text \<open>What happens to the value a handler returned.\<close>

definition finish_call ::
  "router_config \<Rightarrow> mapper_port option \<Rightarrow> ustr \<Rightarrow> json \<Rightarrow> bool \<Rightarrow> tool_failure + tool_result" where
  "finish_call cfg mapper fingerprint raw handler_truncated =
     (case utf8_length (rc_dumps cfg raw) of
        None \<Rightarrow> Inl (Escaped unicode_encode_error)
      | Some bytes \<Rightarrow>
          if tp_max_raw_bytes (rc_policy cfg) < bytes then Inl (RouterError ToolResultTooLarge)
          else (let (value, cut) = normalize_value cfg raw;
                    normalized = rc_dumps cfg value;
                    long = tp_max_chars (rc_policy cfg) < length normalized;
                    value = (if long then JStr (take (tp_max_chars (rc_policy cfg)) normalized) else value);
                    truncated = (cut \<or> handler_truncated \<or> long)
                in case mapper of
                     None \<Rightarrow> Inr \<lparr>tr_value = value, tr_cache_hit = False, tr_truncated = truncated,
                       tr_untrusted = True, tr_fingerprint = fingerprint, tr_evidence = []\<rparr>
                   | Some f \<Rightarrow>
                       (case f value fingerprint of
                          Inl _ \<Rightarrow> Inl (RouterError ToolEvidenceMappingFailed)
                        | Inr items \<Rightarrow> Inr \<lparr>tr_value = value, tr_cache_hit = False,
                            tr_truncated = truncated, tr_untrusted = True,
                            tr_fingerprint = fingerprint, tr_evidence = items\<rparr>)))"

subsection \<open>Execution\<close>

definition fingerprint_of :: "router_config \<Rightarrow> ustr \<Rightarrow> ustr \<Rightarrow> ustr" where
  "fingerprint_of cfg tool_name argument_json = lit (rc_sha256 cfg (tool_name @ [10] @ argument_json))"

definition run_tool ::
  "router_config \<Rightarrow> ustr \<Rightarrow> ustr \<Rightarrow> ustr \<Rightarrow> metadata \<Rightarrow> handler_port \<Rightarrow> bool \<Rightarrow> mapper_port option
     \<Rightarrow> completion_port option \<Rightarrow> router_state \<Rightarrow> (tool_failure + tool_result) \<times> router_state" where
  "run_tool cfg run_id user_id tool_name arguments handler use_worker mapper completion st =
     (if map_of (rc_registry cfg) tool_name = None then (Inl (RouterError ToolNotAllowed), st)
      else
     (let argument_json = rc_dumps_sorted cfg (JDict arguments) in
      case utf8_length argument_json of
        None \<Rightarrow> (Inl (Escaped unicode_encode_error), st)
      | Some bytes \<Rightarrow>
          if tp_max_argument_bytes (rc_policy cfg) < bytes then (Inl (RouterError ToolArgumentInvalid), st)
          else
         (let fingerprint = fingerprint_of cfg tool_name argument_json;
              key = (user_id, run_id, fingerprint) in
          case rs_cache st key of
            Some cached \<Rightarrow> (Inr (cached\<lparr>tr_cache_hit := True\<rparr>), st)
          | None \<Rightarrow>
              if tp_max_calls (rc_policy cfg) \<le> rs_calls st run_id
              then (Inl (RouterError ToolBudgetExceeded), st)
              else
             (let st = st\<lparr>rs_calls := (rs_calls st)(run_id := rs_calls st run_id + 1)\<rparr>;
                  st = st\<lparr>rs_handled := rs_handled st @ [run_id]\<rparr>;
                  outcome =
                    bind_res (call_handler use_worker handler completion arguments) (\<lambda>raw.
                    bind_res (notify_completion completion arguments (Some raw) ''success'') (\<lambda>_.
                    finish_call cfg mapper fingerprint (raw_value raw) (raw_truncated raw)))
              in case outcome of
                   Inl e \<Rightarrow> (Inl e, st)
                 | Inr r \<Rightarrow> (Inr r, st\<lparr>rs_cache := (rs_cache st)(key \<mapsto> r)\<rparr>)))))"

definition legacy_handler :: "registry_value \<Rightarrow> handler_port" where
  "legacy_handler entry =
     (case entry of
        PlainTool h \<Rightarrow> h
      | Registered t \<Rightarrow> (case rt_legacy_handler t of Some h \<Rightarrow> h | None \<Rightarrow> rt_handler t))"

definition execute_tool ::
  "router_config \<Rightarrow> ustr \<Rightarrow> ustr \<Rightarrow> ustr \<Rightarrow> metadata \<Rightarrow> router_state
     \<Rightarrow> (tool_failure + tool_result) \<times> router_state" where
  "execute_tool cfg run_id user_id tool_name arguments st =
     (case map_of (rc_registry cfg) tool_name of
        None \<Rightarrow> (Inl (RouterError ToolNotAllowed), st)
      | Some entry \<Rightarrow>
          run_tool cfg run_id user_id tool_name arguments (legacy_handler entry)
            (case entry of PlainTool _ \<Rightarrow> True | Registered t \<Rightarrow> rt_legacy_handler t = None)
            (case entry of PlainTool _ \<Rightarrow> None | Registered t \<Rightarrow> rt_mapper t) None st)"

definition execute_agent ::
  "router_config \<Rightarrow> ustr \<Rightarrow> ustr \<Rightarrow> ustr \<Rightarrow> metadata \<Rightarrow> router_state
     \<Rightarrow> (tool_failure + tool_result) \<times> router_state" where
  "execute_agent cfg run_id user_id tool_name arguments st =
     (case map_of (rc_registry cfg) tool_name of
        Some (Registered t) \<Rightarrow>
          if \<not> ts_visible (rt_spec t)
             \<or> ts_safety (rt_spec t) \<noteq> ReadOnly \<and> \<not> rc_allow_proposals cfg
          then (Inl (RouterError ToolNotAllowed), st)
          else (case (case rt_argument_model t of None \<Rightarrow> Some arguments | Some m \<Rightarrow> m arguments) of
                  None \<Rightarrow> (Inl (RouterError ToolArgumentInvalid), st)
                | Some args \<Rightarrow>
                    run_tool cfg run_id user_id tool_name args (rt_handler t) True (rt_mapper t)
                      (rt_completion t) st)
      | _ \<Rightarrow> (Inl (RouterError ToolNotAllowed), st))"

text \<open>A sequence of calls, as the workflows of several runs make them.\<close>

datatype tool_op =
    Execute (op_run: ustr) (op_user: ustr) ustr metadata
  | ExecuteAgent (op_run: ustr) (op_user: ustr) ustr metadata

fun run_op :: "router_config \<Rightarrow> tool_op \<Rightarrow> router_state \<Rightarrow> (tool_failure + tool_result) \<times> router_state" where
  "run_op cfg (Execute run user tool args) st = execute_tool cfg run user tool args st"
| "run_op cfg (ExecuteAgent run user tool args) st = execute_agent cfg run user tool args st"

fun run_ops :: "router_config \<Rightarrow> tool_op list \<Rightarrow> router_state \<Rightarrow> (tool_failure + tool_result) list \<times> router_state" where
  "run_ops cfg [] st = ([], st)"
| "run_ops cfg (x # xs) st =
     (let (r, st') = run_op cfg x st; (rs, st'') = run_ops cfg xs st' in (r # rs, st''))"

subsection \<open>The filter leaves no phrase\<close>

fun contains_ci :: "(nat \<Rightarrow> nat \<Rightarrow> bool) \<Rightarrow> ustr \<Rightarrow> ustr \<Rightarrow> bool" where
  "contains_ci ci p [] = prefix_ci ci p []"
| "contains_ci ci p (c # cs) = (prefix_ci ci p (c # cs) \<or> contains_ci ci p cs)"

text \<open>What the \<open>re\<close> module guarantees of its case folding on the characters involved: an ASCII
  character matches itself and its other case only.\<close>

definition ascii_folding :: "(nat \<Rightarrow> nat \<Rightarrow> bool) \<Rightarrow> bool" where
  "ascii_folding ci \<longleftrightarrow> (\<forall>p c. p < 128 \<longrightarrow> c < 128 \<longrightarrow>
     (ci p c \<longleftrightarrow> (if 65 \<le> p \<and> p \<le> 90 then p + 32 else p) = (if 65 \<le> c \<and> c \<le> 90 then c + 32 else c)))"

lemma prefix_ci_append:
  "prefix_ci ci p (s @ t) \<longleftrightarrow>
     prefix_ci ci (take (length s) p) s \<and> prefix_ci ci (drop (length s) p) t"
  if "length s \<le> length p"
  using that
proof (induction ci p s arbitrary: t rule: prefix_ci.induct)
  case (1 ci s)
  then show ?case by simp
qed simp_all

lemma prefix_ci_take: "prefix_ci ci p s \<Longrightarrow> prefix_ci ci (take n p) s"
  by (induction ci p s arbitrary: n rule: prefix_ci.induct) (auto simp: take_Cons' split: nat.split)

lemma prefix_ci_nth: "prefix_ci ci p s \<longleftrightarrow> length p \<le> length s \<and> (\<forall>i < length p. ci (p ! i) (s ! i))"
proof (induction ci p s rule: prefix_ci.induct)
  case (3 ci p ps c cs)
  then show ?case by (auto simp: nth_Cons' less_Suc_eq_0_disj)
qed simp_all

definition ascii_lowercase :: "ustr \<Rightarrow> bool" where
  "ascii_lowercase s \<longleftrightarrow> (\<forall>c \<in> set s. c < 128 \<and> \<not> (65 \<le> c \<and> c \<le> 90))"

lemma ci_lowercase:
  "ascii_folding ci \<Longrightarrow> ascii_lowercase p \<Longrightarrow> ascii_lowercase t \<Longrightarrow> a \<in> set p \<Longrightarrow> b \<in> set t \<Longrightarrow>
     ci a b \<longleftrightarrow> a = b"
  by (auto simp: ascii_folding_def ascii_lowercase_def)

lemma lit_lowercase: "list_all (\<lambda>c. of_char c < (128::nat) \<and> \<not> ((65::nat) \<le> of_char c \<and> of_char c \<le> (90::nat))) s
    \<Longrightarrow> ascii_lowercase (lit s)"
  by (auto simp: ascii_lowercase_def lit_def list_all_iff)

lemma phrases_lowercase: "p \<in> set phrases \<Longrightarrow> ascii_lowercase p"
  by (auto simp: phrases_def intro!: lit_lowercase)

lemma filtered_lowercase: "ascii_lowercase filtered"
  by (auto simp: filtered_def intro!: lit_lowercase)

lemma phrases_length: "p \<in> set phrases \<Longrightarrow> 0 < length p"
  by (auto simp: phrases_def lit_def)

lemma filtered_hd: "filtered = 91 # tl filtered"
  by (simp add: filtered_def lit_def)

lemma filtered_start [simp]: "filtered \<noteq> []" "filtered ! 0 = 91"
  by (subst filtered_hd, simp)+

lemma length_filtered: "length filtered = 32"
  by (simp add: filtered_def eval_nat_numeral)

lemma phrases_differ:
  "list_all (\<lambda>p. list_all (\<lambda>k. list_ex (\<lambda>(a, b). a \<noteq> b) (zip p (drop k ''[filtered untrusted instruction]'')))
     [0..<32]) [''ignore previous instructions'', ''system prompt'', ''developer message'']"
  by code_simp

lemma differ_lit:
  assumes "list_ex (\<lambda>(a, b). a \<noteq> b) (zip q (drop k f))"
  shows "\<exists>i < length (lit q). k + i < length (lit f) \<and> lit q ! i \<noteq> lit f ! (k + i)"
proof -
  from assms obtain i where "i < length q" "i < length (drop k f)" "q ! i \<noteq> drop k f ! i"
    by (auto simp: list_ex_iff in_set_zip)
  then show ?thesis by (intro exI [of _ i]) (auto simp: lit_def nth_drop)
qed

lemma phrase_differs:
  assumes "p \<in> set phrases" "k < length filtered"
  shows "\<exists>i < length p. k + i < length filtered \<and> p ! i \<noteq> filtered ! (k + i)"
proof -
  from assms(1) obtain q where q: "p = lit q"
    "q \<in> set [''ignore previous instructions'', ''system prompt'', ''developer message'']"
    by (auto simp: phrases_def)
  from assms(2) have "k \<in> set [0..<32]" by (simp add: length_filtered)
  with phrases_differ q(2)
  have "list_ex (\<lambda>(a, b). a \<noteq> b) (zip q (drop k ''[filtered untrusted instruction]''))"
    unfolding list_all_iff by blast
  from differ_lit [OF this] show ?thesis
    unfolding q(1) filtered_def .
qed

lemma sanitize_take:
  assumes "n \<le> length (sanitize_untrusted_tool_text ci s)"
    "\<forall>i < n. sanitize_untrusted_tool_text ci s ! i \<noteq> 91"
  shows "n \<le> length s \<and> take n (sanitize_untrusted_tool_text ci s) = take n s"
  using assms
proof (induction ci s arbitrary: n rule: sanitize_untrusted_tool_text.induct)
  case (2 ci c cs)
  show ?case
  proof (cases n)
    case (Suc m)
    show ?thesis
    proof (cases "find (\<lambda>p. prefix_ci ci p (c # cs)) phrases")
      case None
      then have out: "sanitize_untrusted_tool_text ci (c # cs) = c # sanitize_untrusted_tool_text ci cs"
        by simp
      have "\<forall>i < m. sanitize_untrusted_tool_text ci cs ! i \<noteq> 91"
        using "2.prems"(2) Suc unfolding out by (metis Suc_less_eq nth_Cons_Suc)
      with "2.IH"(1) [OF None, of m] "2.prems"(1) Suc show ?thesis unfolding out by simp
    next
      case (Some p)
      then have "sanitize_untrusted_tool_text ci (c # cs) ! 0 = 91"
        by (simp add: nth_append)
      with "2.prems"(2) Suc show ?thesis by blast
    qed
  qed simp
qed simp

lemma sanitize_no_prefix:
  assumes "ascii_folding ci" "p \<in> set phrases"
  shows "\<not> prefix_ci ci p (sanitize_untrusted_tool_text ci s)"
proof
  let ?out = "sanitize_untrusted_tool_text ci s"
  assume pre: "prefix_ci ci p ?out"
  have len: "length p \<le> length ?out" using pre by (simp add: prefix_ci_nth)
  have "?out ! i \<noteq> 91" if "i < length p" for i
  proof
    assume eq: "?out ! i = 91"
    have "ci (p ! i) 91" using pre that eq by (metis prefix_ci_nth)
    moreover have "p ! i \<in> set p" using that by simp
    moreover have "91 \<in> set filtered" by (subst filtered_hd) simp
    ultimately have "p ! i = 91"
      using ci_lowercase [OF assms(1) phrases_lowercase [OF assms(2)] filtered_lowercase] by blast
    moreover have "91 \<notin> set p" using assms(2) by (auto simp: phrases_def lit_def)
    ultimately show False using that by (metis nth_mem)
  qed
  with sanitize_take [OF len] have s: "length p \<le> length s" "take (length p) ?out = take (length p) s"
    by auto
  have "prefix_ci ci p s"
    using pre s by (auto simp: prefix_ci_nth) (metis nth_take)
  moreover from s(1) phrases_length [OF assms(2)] obtain c cs where cs: "s = c # cs" by (cases s) auto
  ultimately have "find (\<lambda>p. prefix_ci ci p (c # cs)) phrases \<noteq> None"
    using assms(2) by (auto simp: find_None_iff)
  then have "?out ! 0 = 91"
    unfolding cs by (auto simp: nth_append)
  with \<open>\<And>i. i < length p \<Longrightarrow> ?out ! i \<noteq> 91\<close> phrases_length [OF assms(2)] show False by blast
qed

lemma contains_ci_append:
  "contains_ci ci p (s @ t) \<longleftrightarrow> (\<exists>k < length s. prefix_ci ci p (drop k s @ t)) \<or> contains_ci ci p t"
proof (induction s)
  case (Cons c s)
  have "(\<exists>k < length (c # s). prefix_ci ci p (drop k (c # s) @ t)) \<longleftrightarrow>
      prefix_ci ci p (c # s @ t) \<or> (\<exists>k < length s. prefix_ci ci p (drop k s @ t))"
    by (auto simp: less_Suc_eq_0_disj)
  with Cons show ?case by auto
qed simp

lemma filtered_no_prefix:
  assumes "ascii_folding ci" "p \<in> set phrases" "k < length filtered"
  shows "\<not> prefix_ci ci p (drop k filtered @ t)"
proof
  assume pre: "prefix_ci ci p (drop k filtered @ t)"
  obtain i where i: "i < length p" "k + i < length filtered" "p ! i \<noteq> filtered ! (k + i)"
    using phrase_differs [OF assms(2,3)] by blast
  have "ci (p ! i) ((drop k filtered @ t) ! i)" using pre i(1) unfolding prefix_ci_nth by blast
  moreover have "i < length (drop k filtered)" using i(2) by simp
  ultimately have "ci (p ! i) (filtered ! (k + i))"
    using i(2) unfolding nth_append by (simp only: if_P nth_drop)
  then have "p ! i = filtered ! (k + i)"
    using ci_lowercase [OF assms(1) phrases_lowercase [OF assms(2)] filtered_lowercase] i(1,2) nth_mem
    by blast
  with i(3) show False by blast
qed

text \<open>A filtered text contains none of the phrases, in any capitalisation, not even one put together
  from the pieces around a replacement.\<close>

lemma sanitize_filters:
  assumes "ascii_folding ci" "p \<in> set phrases"
  shows "\<not> contains_ci ci p (sanitize_untrusted_tool_text ci s)"
proof -
  obtain q ps where p: "p = q # ps" using phrases_length [OF assms(2)] by (cases p) auto
  have "length s \<le> n \<Longrightarrow> \<not> contains_ci ci p (sanitize_untrusted_tool_text ci s)" for n
  proof (induction n arbitrary: s)
    case 0
    then show ?case by (simp add: p)
  next
    case (Suc n)
    show ?case
    proof (cases s)
      case Nil
      then show ?thesis by (simp add: p)
    next
      case (Cons c cs)
      show ?thesis
      proof (cases "find (\<lambda>p. prefix_ci ci p (c # cs)) phrases")
        case None
        then have out: "sanitize_untrusted_tool_text ci s = c # sanitize_untrusted_tool_text ci cs"
          by (simp add: Cons)
        have "\<not> prefix_ci ci p (c # sanitize_untrusted_tool_text ci cs)"
          using sanitize_no_prefix [OF assms, of s] unfolding out .
        moreover have "\<not> contains_ci ci p (sanitize_untrusted_tool_text ci cs)"
          using Suc.prems Cons by (intro Suc.IH) simp
        ultimately show ?thesis by (simp add: out)
      next
        case (Some r)
        then have "r \<in> set phrases" by (metis find_Some_iff nth_mem)
        then have r: "0 < length r" by (rule phrases_length)
        have "\<not> contains_ci ci p (sanitize_untrusted_tool_text ci (drop (length r) (c # cs)))"
          using Suc.prems Cons r by (intro Suc.IH) (cases r, simp_all)
        moreover have "sanitize_untrusted_tool_text ci s
            = filtered @ sanitize_untrusted_tool_text ci (drop (length r) (c # cs))"
          using Some by (simp add: Cons)
        ultimately show ?thesis
          using filtered_no_prefix [OF assms] by (simp add: contains_ci_append)
      qed
    qed
  qed
  then show ?thesis by blast
qed

text \<open>\<open>json_strings\<close> lists the texts of a value that the filter covers: all but the keys.\<close>

fun json_strings :: "json \<Rightarrow> ustr list" where
  "json_strings (JStr s) = [s]"
| "json_strings (JList xs) = concat (map json_strings xs)"
| "json_strings (JDict d) = concat (map (\<lambda>(k, v). json_strings v) d)"
| "json_strings _ = []"

lemma sanitize_value_strings:
  "t \<in> set (json_strings (sanitize_value ci v)) \<Longrightarrow> \<exists>s. t = sanitize_untrusted_tool_text ci s"
  by (induction ci v rule: sanitize_value.induct) auto

subsection \<open>Budgets\<close>

lemma run_tool_frame:
  assumes "run_tool cfg run user tool args h worker mapper completion st = (r, st')"
  shows "(\<forall>k. k \<noteq> run \<longrightarrow> rs_calls st' k = rs_calls st k)
    \<and> (\<forall>u k f. k \<noteq> run \<longrightarrow> rs_cache st' (u, k, f) = rs_cache st (u, k, f))
    \<and> (rs_calls st run \<le> tp_max_calls (rc_policy cfg) \<longrightarrow> rs_calls st' run \<le> tp_max_calls (rc_policy cfg))"
  using assms
  by (auto simp: run_tool_def Let_def split: if_splits option.splits sum.splits)

lemma run_op_frame:
  assumes "run_op cfg x st = (r, st')"
  shows "(\<forall>k. k \<noteq> op_run x \<longrightarrow> rs_calls st' k = rs_calls st k)
    \<and> (\<forall>u k f. k \<noteq> op_run x \<longrightarrow> rs_cache st' (u, k, f) = rs_cache st (u, k, f))
    \<and> (rs_calls st (op_run x) \<le> tp_max_calls (rc_policy cfg) \<longrightarrow>
         rs_calls st' (op_run x) \<le> tp_max_calls (rc_policy cfg))"
proof (cases x)
  case (Execute run user tool args)
  with assms run_tool_frame show ?thesis
    by (auto simp: execute_tool_def split: option.splits dest!: run_tool_frame)
next
  case (ExecuteAgent run user tool args)
  with assms show ?thesis
    by (auto simp: execute_agent_def split: option.splits registry_value.splits if_splits dest!: run_tool_frame)
qed

text \<open>The part of the router's state that belongs to one run.\<close>

definition same_run :: "ustr \<Rightarrow> router_state \<Rightarrow> router_state \<Rightarrow> bool" where
  "same_run k st st' \<longleftrightarrow> rs_calls st k = rs_calls st' k
     \<and> (\<forall>u f. rs_cache st (u, k, f) = rs_cache st' (u, k, f))"

lemma run_tool_same_run:
  assumes "same_run run st1 st2"
  shows "fst (run_tool cfg run user tool args h worker mapper completion st1)
       = fst (run_tool cfg run user tool args h worker mapper completion st2)
    \<and> same_run run (snd (run_tool cfg run user tool args h worker mapper completion st1))
        (snd (run_tool cfg run user tool args h worker mapper completion st2))"
proof -
  have c: "rs_cache st1 (user, run, f) = rs_cache st2 (user, run, f)" for f
    using assms by (simp add: same_run_def)
  have n: "rs_calls st1 run = rs_calls st2 run" using assms by (simp add: same_run_def)
  show ?thesis
    using assms
    by (auto simp: run_tool_def Let_def c n same_run_def split: option.splits sum.splits)
qed

lemma run_op_same_run:
  assumes "same_run (op_run x) st1 st2"
  shows "fst (run_op cfg x st1) = fst (run_op cfg x st2)
    \<and> same_run (op_run x) (snd (run_op cfg x st1)) (snd (run_op cfg x st2))"
proof (cases x)
  case (Execute run user tool args)
  with assms run_tool_same_run show ?thesis
    by (auto simp: execute_tool_def split: option.splits)
next
  case (ExecuteAgent run user tool args)
  with assms run_tool_same_run show ?thesis
    by (auto simp: execute_agent_def split: option.splits registry_value.splits)
qed

lemma run_op_other:
  assumes "op_run x \<noteq> k"
  shows "same_run k (snd (run_op cfg x st)) st"
  using run_op_frame [of cfg x st "fst (run_op cfg x st)" "snd (run_op cfg x st)"] assms
  by (auto simp: same_run_def)

lemma same_run_sym: "same_run k a b \<Longrightarrow> same_run k b a"
  and same_run_trans: "same_run k a b \<Longrightarrow> same_run k b c \<Longrightarrow> same_run k a c"
  by (auto simp: same_run_def)

lemma run_ops_project:
  "same_run k st1 st2 \<Longrightarrow>
     map snd (filter (\<lambda>(x, r). op_run x = k) (zip xs (fst (run_ops cfg xs st1))))
       = fst (run_ops cfg (filter (\<lambda>x. op_run x = k) xs) st2)"
proof (induction xs arbitrary: st1 st2)
  case (Cons x xs)
  obtain r1 t1 where op1: "run_op cfg x st1 = (r1, t1)" by fastforce
  obtain r2 t2 where op2: "run_op cfg x st2 = (r2, t2)" by fastforce
  show ?case
  proof (cases "op_run x = k")
    case True
    with run_op_same_run [of x st1 st2 cfg] Cons.prems op1 op2
    have "r1 = r2" "same_run k t1 t2" by simp_all
    with Cons.IH [OF this(2)] True op1 op2 show ?thesis by (simp add: case_prod_unfold Let_def)
  next
    case False
    with run_op_other [of x k cfg st1] op1 Cons.prems have "same_run k t1 st2"
      by (auto intro: same_run_trans)
    with Cons.IH [OF this] False op1 show ?thesis by (simp add: case_prod_unfold Let_def)
  qed
qed simp

text \<open>C17. Runs do not see each other through the router: in any interleaving of the calls of several
  runs, each run gets exactly the results it would get alone, cache hits and budget errors
  included.\<close>

theorem runs_do_not_interfere:
  "map snd (filter (\<lambda>(x, r). op_run x = k) (zip xs (fst (run_ops cfg xs st))))
     = fst (run_ops cfg (filter (\<lambda>x. op_run x = k) xs) st)"
  by (rule run_ops_project) (simp add: same_run_def)

text \<open>Fresh results are the ones a handler produced; the rest are cache hits.\<close>

definition fresh :: "ustr \<Rightarrow> tool_op \<times> (tool_failure + tool_result) \<Rightarrow> bool" where
  "fresh k xr \<longleftrightarrow> op_run (fst xr) = k
     \<and> (case snd xr of Inl _ \<Rightarrow> False | Inr v \<Rightarrow> \<not> tr_cache_hit v)"

definition cache_sound :: "router_config \<Rightarrow> router_state \<Rightarrow> bool" where
  "cache_sound cfg st \<longleftrightarrow> (\<forall>u k f v. rs_cache st (u, k, f) = Some v \<longrightarrow> \<not> tr_cache_hit v)"

lemma finish_call_fresh:
  "finish_call cfg mapper fp raw flag = Inr v \<Longrightarrow> \<not> tr_cache_hit v \<and> tr_untrusted v \<and> tr_fingerprint v = fp"
  by (auto simp: finish_call_def Let_def case_prod_unfold split: option.splits if_splits sum.splits)

text \<open>The three ways a call ends: an error, a hit, a fresh result.\<close>

lemma run_tool_cases:
  assumes "run_tool cfg run user tool args h worker mapper completion st = (r, st')"
  obtains (error) e where "r = Inl e" "rs_cache st' = rs_cache st"
      "rs_calls st run \<le> rs_calls st' run"
    | (hit) f v where "rs_cache st (user, run, f) = Some v" "r = Inr (v\<lparr>tr_cache_hit := True\<rparr>)" "st' = st"
    | (new) f v raw flag where "rs_cache st (user, run, f) = None" "r = Inr v"
      "finish_call cfg mapper f raw flag = Inr v"
      "rs_calls st run < tp_max_calls (rc_policy cfg)"
      "rs_calls st' run = Suc (rs_calls st run)"
      "rs_cache st' = (rs_cache st)((user, run, f) \<mapsto> v)"
proof -
  show thesis
  proof (cases "map_of (rc_registry cfg) tool = None \<or> utf8_length (rc_dumps_sorted cfg (JDict args)) = None
      \<or> tp_max_argument_bytes (rc_policy cfg) < the (utf8_length (rc_dumps_sorted cfg (JDict args)))")
    case True
    with assms have "\<exists>e. r = Inl e \<and> st' = st"
      by (auto simp: run_tool_def Let_def split: if_splits option.splits)
    with error show ?thesis by blast
  next
    case False
    define f where "f = fingerprint_of cfg tool (rc_dumps_sorted cfg (JDict args))"
    show ?thesis
    proof (cases "rs_cache st (user, run, f)")
      case (Some v)
      with False assms show ?thesis
        by (intro hit [of f v]) (auto simp: run_tool_def Let_def f_def [symmetric] split: if_splits)
    next
      case None
      define outcome where "outcome = bind_res (call_handler worker h completion args) (\<lambda>raw.
          bind_res (notify_completion completion args (Some raw) ''success'') (\<lambda>_.
          finish_call cfg mapper f (raw_value raw) (raw_truncated raw)))"
      show ?thesis
      proof (cases "tp_max_calls (rc_policy cfg) \<le> rs_calls st run")
        case True
        with False None assms have "r = Inl (RouterError ToolBudgetExceeded)" "st' = st"
          by (auto simp: run_tool_def Let_def f_def [symmetric] split: if_splits)
        with error show ?thesis by blast
      next
        case room: False
        have run: "(r, st') =
            (case outcome of
               Inl e \<Rightarrow> (Inl e, st\<lparr>rs_calls := (rs_calls st)(run := rs_calls st run + 1), rs_handled := rs_handled st @ [run]\<rparr>)
             | Inr v \<Rightarrow> (Inr v, st\<lparr>rs_calls := (rs_calls st)(run := rs_calls st run + 1), rs_handled := rs_handled st @ [run],
                 rs_cache := (rs_cache st)((user, run, f) \<mapsto> v)\<rparr>))"
          using False None room assms
          by (auto simp: run_tool_def Let_def f_def [symmetric] outcome_def split: if_splits option.splits sum.splits)
        show ?thesis
        proof (cases outcome)
          case (Inl e)
          with run show ?thesis by (intro error [of e]) auto
        next
          case (Inr v)
          then obtain raw flag where "finish_call cfg mapper f raw flag = Inr v"
            by (auto simp: outcome_def bind_res_Inr_iff)
          with Inr run None room show ?thesis by (intro new [of f v raw flag]) auto
        qed
      qed
    qed
  qed
qed

lemma run_op_cases:
  assumes "run_op cfg x st = (r, st')"
  obtains (error) e where "r = Inl e" "rs_cache st' = rs_cache st"
      "rs_calls st (op_run x) \<le> rs_calls st' (op_run x)"
    | (hit) f v where "rs_cache st (op_user x, op_run x, f) = Some v"
      "r = Inr (v\<lparr>tr_cache_hit := True\<rparr>)" "st' = st"
    | (new) f v raw flag mapper where "rs_cache st (op_user x, op_run x, f) = None" "r = Inr v"
      "finish_call cfg mapper f raw flag = Inr v"
      "rs_calls st (op_run x) < tp_max_calls (rc_policy cfg)"
      "rs_calls st' (op_run x) = Suc (rs_calls st (op_run x))"
      "rs_cache st' = (rs_cache st)((op_user x, op_run x, f) \<mapsto> v)"
proof -
  note err = error and cached = hit and handled = new
  have tool: thesis if run: "run_tool cfg (op_run x) (op_user x) tool args h worker mapper completion st = (r, st')"
    for tool args h worker mapper completion
    using run
  proof (cases rule: run_tool_cases)
    case (error e)
    then show ?thesis by (rule err)
  next
    case (hit f v)
    then show ?thesis by (rule cached)
  next
    case (new f v raw flag)
    then show ?thesis by (rule handled)
  qed
  have refused: thesis if "\<exists>e. r = Inl e \<and> st' = st"
    using err that by blast
  show thesis
  proof (cases x)
    case (Execute run user name args)
    show ?thesis
    proof (cases "map_of (rc_registry cfg) name")
      case None
      with assms Execute have "\<exists>e. r = Inl e \<and> st' = st" by (auto simp: execute_tool_def)
      then show ?thesis by (rule refused)
    next
      case (Some entry)
      with assms Execute show ?thesis by (intro tool) (simp add: execute_tool_def)
    qed
  next
    case (ExecuteAgent run user name args)
    show ?thesis
    proof (cases "\<exists>e. r = Inl e \<and> st' = st")
      case True
      then show ?thesis by (rule refused)
    next
      case False
      with assms ExecuteAgent obtain t where t: "map_of (rc_registry cfg) name = Some (Registered t)"
        by (auto simp: execute_agent_def split: option.splits registry_value.splits)
      show ?thesis
      proof (cases "case rt_argument_model t of None \<Rightarrow> Some args | Some m \<Rightarrow> m args")
        case None
        with assms ExecuteAgent t False show ?thesis by (auto simp: execute_agent_def split: if_splits)
      next
        case (Some args')
        have "run_tool cfg (op_run x) (op_user x) name args' (rt_handler t) True (rt_mapper t) (rt_completion t) st
           = (r, st')"
          using assms ExecuteAgent t False Some by (auto simp: execute_agent_def split: if_splits)
        then show ?thesis by (rule tool)
      qed
    qed
  qed
qed

text \<open>The calls a run may make: no sequence of calls, over any number of runs, makes the handlers
  produce more results for a run than its budget, and the counter never passes the budget.\<close>

lemma fresh_count:
  assumes "run_ops cfg xs st = (rs, st')" "cache_sound cfg st" "rs_calls st k \<le> tp_max_calls (rc_policy cfg)"
  shows "length (filter (fresh k) (zip xs rs)) + rs_calls st k \<le> rs_calls st' k
    \<and> rs_calls st' k \<le> tp_max_calls (rc_policy cfg)"
  using assms
proof (induction xs arbitrary: st rs)
  case (Cons x xs)
  obtain r t where op: "run_op cfg x st = (r, t)" by fastforce
  from Cons.prems(1) obtain rs' where ops: "run_ops cfg xs t = (rs', st')" and out: "rs = r # rs'"
    by (auto simp: op case_prod_unfold Let_def prod_eq_iff)
  have frame: "rs_calls t k \<le> tp_max_calls (rc_policy cfg)"
    "k \<noteq> op_run x \<Longrightarrow> rs_calls t k = rs_calls st k"
    using run_op_frame [OF op] Cons.prems(3) by (cases "k = op_run x"; auto)+
  from op have step: "cache_sound cfg t \<and> (if fresh k (x, r) then 1 else 0) + rs_calls st k \<le> rs_calls t k"
  proof (cases rule: run_op_cases)
    case (error e)
    with Cons.prems(2) frame(2) show ?thesis
      by (cases "k = op_run x") (auto simp: cache_sound_def fresh_def)
  next
    case (hit f v)
    with Cons.prems(2) show ?thesis by (auto simp: fresh_def)
  next
    case (new f v raw flag mapper)
    with Cons.prems(2) finish_call_fresh [OF new(3)] frame(2) show ?thesis
      by (cases "k = op_run x") (auto simp: cache_sound_def fresh_def)
  qed
  with Cons.IH [OF ops _ frame(1)] show ?case by (auto simp: out)
qed simp

text \<open>A call is counted whenever a handler is called, whatever comes of it.\<close>

definition handlers_of :: "ustr \<Rightarrow> router_state \<Rightarrow> nat" where
  "handlers_of k st = count_list (rs_handled st) k"

lemma run_tool_handled:
  assumes "run_tool cfg run user tool args h worker mapper completion st = (r, st')"
  shows "handlers_of k st' + rs_calls st k = handlers_of k st + rs_calls st' k"
  using assms
  by (auto simp: run_tool_def Let_def handlers_of_def split: if_splits option.splits sum.splits)

lemma run_op_handled:
  assumes "run_op cfg x st = (r, st')"
  shows "handlers_of k st' + rs_calls st k = handlers_of k st + rs_calls st' k"
proof (cases x)
  case (Execute run user tool args)
  with assms show ?thesis
    by (auto simp: execute_tool_def split: option.splits dest!: run_tool_handled [where k = k])
next
  case (ExecuteAgent run user tool args)
  with assms show ?thesis
    by (auto simp: execute_agent_def split: option.splits registry_value.splits if_splits
        dest!: run_tool_handled [where k = k])
qed

lemma run_ops_handled:
  "run_ops cfg xs st = (rs, st') \<Longrightarrow> handlers_of k st' + rs_calls st k = handlers_of k st + rs_calls st' k"
proof (induction xs arbitrary: st rs)
  case (Cons x xs)
  obtain r t where op: "run_op cfg x st = (r, t)" by fastforce
  from Cons.prems obtain rs' where "run_ops cfg xs t = (rs', st')"
    by (auto simp: op case_prod_unfold Let_def prod_eq_iff)
  from Cons.IH [OF this] run_op_handled [OF op, of k] show ?case by simp
qed simp

text \<open>C15. The call budget holds for every sequence of calls of any number of runs: the handlers called
  for a run, those that fail, time out or ask for an approval included, are never more than the
  policy's limit, and every result of the run that is no cache hit has a handler call of its own.\<close>

theorem tool_budget:
  assumes "run_ops cfg xs initial_router = (rs, st)"
  shows "handlers_of k st \<le> tp_max_calls (rc_policy cfg)
    \<and> length (filter (fresh k) (zip xs rs)) \<le> handlers_of k st"
  using fresh_count [OF assms, of k] run_ops_handled [OF assms, of k]
  by (simp add: cache_sound_def initial_router_def handlers_of_def)

text \<open>Where a cached result comes from.\<close>

definition produced_by :: "tool_op list \<Rightarrow> (tool_failure + tool_result) list \<Rightarrow> ustr \<Rightarrow> ustr \<Rightarrow> tool_result \<Rightarrow> bool" where
  "produced_by xs rs k u v \<longleftrightarrow> (\<exists>i < length rs. i < length xs \<and> op_run (xs ! i) = k \<and> op_user (xs ! i) = u
     \<and> rs ! i = Inr v \<and> \<not> tr_cache_hit v)"

lemma produced_by_Cons: "produced_by xs rs k u v \<Longrightarrow> produced_by (x # xs) (r # rs) k u v"
  unfolding produced_by_def by (metis Suc_less_eq length_Cons nth_Cons_Suc)

lemma hits_produced:
  assumes "run_ops cfg xs st = (rs, st')" "rs ! j = Inr w" "j < length xs" "tr_cache_hit w"
  shows "\<exists>v. w = v\<lparr>tr_cache_hit := True\<rparr>
    \<and> ((\<exists>f. rs_cache st (op_user (xs ! j), op_run (xs ! j), f) = Some v)
        \<or> produced_by (take j xs) (take j rs) (op_run (xs ! j)) (op_user (xs ! j)) v)"
  using assms
proof (induction xs arbitrary: st rs j)
  case (Cons x xs)
  obtain r t where op: "run_op cfg x st = (r, t)" by fastforce
  from Cons.prems(1) obtain rs' where ops: "run_ops cfg xs t = (rs', st')" and out: "rs = r # rs'"
    by (auto simp: op case_prod_unfold Let_def prod_eq_iff)
  show ?case
  proof (cases j)
    case 0
    with Cons.prems(2) have "r = Inr w" by (simp add: out)
    from op show ?thesis
    proof (cases rule: run_op_cases)
      case (hit f v)
      with \<open>r = Inr w\<close> 0 show ?thesis by auto
    next
      case (new f v raw flag mapper)
      with finish_call_fresh [OF new(3)] \<open>r = Inr w\<close> Cons.prems(4) show ?thesis by simp
    qed (use \<open>r = Inr w\<close> in simp)
  next
    case (Suc i)
    with Cons.prems out have "rs' ! i = Inr w" "i < length xs" by simp_all
    from Cons.IH [OF ops this Cons.prems(4)] obtain v where v: "w = v\<lparr>tr_cache_hit := True\<rparr>"
      "(\<exists>f. rs_cache t (op_user (xs ! i), op_run (xs ! i), f) = Some v)
        \<or> produced_by (take i xs) (take i rs') (op_run (xs ! i)) (op_user (xs ! i)) v" by blast
    let ?goal = "(\<exists>f. rs_cache st (op_user (xs ! i), op_run (xs ! i), f) = Some v)
        \<or> produced_by (x # take i xs) (r # take i rs') (op_run (xs ! i)) (op_user (xs ! i)) v"
    from v(2) have ?goal
    proof
      assume "\<exists>f. rs_cache t (op_user (xs ! i), op_run (xs ! i), f) = Some v"
      then obtain f where f: "rs_cache t (op_user (xs ! i), op_run (xs ! i), f) = Some v" by blast
      from op show ?goal
      proof (cases rule: run_op_cases)
        case (error e)
        with f show ?thesis by auto
      next
        case (hit g u)
        with f show ?thesis by auto
      next
        case (new g u raw flag mapper)
        show ?thesis
        proof (cases "(op_user (xs ! i), op_run (xs ! i), f) = (op_user x, op_run x, g)")
          case True
          with new f have "u = v" by simp
          with new finish_call_fresh [OF new(3)] True
          have "produced_by (x # take i xs) (r # take i rs') (op_run (xs ! i)) (op_user (xs ! i)) v"
            unfolding produced_by_def by (intro exI [of _ 0]) simp
          then show ?thesis ..
        next
          case False
          with new f show ?thesis by auto
        qed
      qed
    qed (blast intro: produced_by_Cons)
    with v(1) Suc show ?thesis by (auto simp: out)
  qed
qed simp

text \<open>C16. A cache hit repeats an earlier answer of the same user in the same run, with the same value
  and evidence: nothing computed for another user or another run is ever returned.\<close>

theorem cache_hits_isolated:
  assumes "run_ops cfg xs initial_router = (rs, st)" "j < length xs" "rs ! j = Inr w" "tr_cache_hit w"
  shows "\<exists>i < j. op_run (xs ! i) = op_run (xs ! j) \<and> op_user (xs ! i) = op_user (xs ! j)
    \<and> rs ! i = Inr (w\<lparr>tr_cache_hit := False\<rparr>)"
proof -
  from hits_produced [OF assms(1,3,2,4)] obtain v where v: "w = v\<lparr>tr_cache_hit := True\<rparr>"
    "produced_by (take j xs) (take j rs) (op_run (xs ! j)) (op_user (xs ! j)) v"
    by (auto simp: initial_router_def)
  then obtain i where i: "i < length (take j rs)" "i < length (take j xs)"
    "op_run (take j xs ! i) = op_run (xs ! j)" "op_user (take j xs ! i) = op_user (xs ! j)"
    "take j rs ! i = Inr v" "\<not> tr_cache_hit v"
    unfolding produced_by_def by blast
  moreover from v(1) i(6) have "w\<lparr>tr_cache_hit := False\<rparr> = v" by (cases v) simp
  ultimately show ?thesis by (intro exI [of _ i]) auto
qed

subsection \<open>What a result may hold\<close>

definition items_within :: "nat \<Rightarrow> json \<Rightarrow> bool" where
  "items_within n v =
     (case v of
        JList xs \<Rightarrow> length xs \<le> n
      | JDict d \<Rightarrow> (case map_of d (lit ''items'') of Some (JList xs) \<Rightarrow> length xs \<le> n | _ \<Rightarrow> True)
      | _ \<Rightarrow> True)"

definition good_value :: "router_config \<Rightarrow> tool_result \<Rightarrow> bool" where
  "good_value cfg v \<longleftrightarrow> tr_untrusted v
     \<and> ((\<exists>t. tr_value v = JStr t \<and> length t \<le> tp_max_chars (rc_policy cfg) \<and> tr_truncated v)
        \<or> length (rc_dumps cfg (tr_value v)) \<le> tp_max_chars (rc_policy cfg)
          \<and> items_within (tp_max_items (rc_policy cfg)) (tr_value v)
          \<and> (\<forall>t \<in> set (json_strings (tr_value v)). \<forall>p \<in> set phrases. \<not> contains_ci (rc_ci cfg) p t))"

lemma map_of_sanitize:
  "map_of (map (\<lambda>(k, v). (k, sanitize_value ci v)) d) k = map_option (sanitize_value ci) (map_of d k)"
  by (induction d) auto

lemma items_within_sanitize_dict:
  assumes "\<And>xs. map_of d (lit ''items'') = Some (JList xs) \<Longrightarrow> length xs \<le> n"
  shows "items_within n (sanitize_value ci (JDict d))"
proof (cases "map_of d (lit ''items'')")
  case None
  then show ?thesis by (simp add: items_within_def map_of_sanitize)
next
  case (Some v)
  with assms show ?thesis by (cases v) (auto simp: items_within_def map_of_sanitize)
qed

lemma normalize_items: "items_within (tp_max_items (rc_policy cfg)) (fst (normalize_value cfg v))"
proof (cases v)
  case (JDict d)
  show ?thesis
  proof (cases "\<exists>xs. map_of d (lit ''items'') = Some (JList xs)")
    case True
    then obtain xs where xs: "map_of d (lit ''items'') = Some (JList xs)" by blast
    have "items_within (tp_max_items (rc_policy cfg)) (sanitize_value (rc_ci cfg)
        (JDict (dict_set (lit ''items'') (JList (take (tp_max_items (rc_policy cfg)) xs)) d)))"
      by (rule items_within_sanitize_dict) auto
    with JDict xs show ?thesis by (simp add: normalize_value_def Let_def)
  next
    case False
    then have "fst (normalize_value cfg v) = sanitize_value (rc_ci cfg) (JDict d)"
      by (auto simp: normalize_value_def JDict Let_def split: option.splits json.splits)
    moreover have "items_within (tp_max_items (rc_policy cfg)) (sanitize_value (rc_ci cfg) (JDict d))"
      using False by (intro items_within_sanitize_dict) blast
    ultimately show ?thesis by (simp only:)
  qed
qed (simp_all add: normalize_value_def Let_def items_within_def)

lemma normalize_strings:
  "t \<in> set (json_strings (fst (normalize_value cfg v))) \<Longrightarrow> \<exists>s. t = sanitize_untrusted_tool_text (rc_ci cfg) s"
proof -
  assume t: "t \<in> set (json_strings (fst (normalize_value cfg v)))"
  have "\<exists>w. fst (normalize_value cfg v) = sanitize_value (rc_ci cfg) w"
  proof (cases v)
    case (JList xs)
    then show ?thesis
      by (intro exI [of _ "JList (take (tp_max_items (rc_policy cfg)) xs)"])
         (simp add: normalize_value_def Let_def)
  next
    case (JDict d)
    then show ?thesis
      by (simp add: normalize_value_def Let_def del: sanitize_value.simps split: option.split json.split)
         blast
  qed (simp_all add: normalize_value_def Let_def del: sanitize_value.simps, blast+)
  with t sanitize_value_strings show ?thesis by metis
qed

lemma finish_call_good:
  assumes "finish_call cfg mapper fp raw flag = Inr v" "ascii_folding (rc_ci cfg)"
  shows "good_value cfg v"
proof -
  let ?w = "fst (normalize_value cfg raw)"
  have parts: "tr_untrusted v" "if tp_max_chars (rc_policy cfg) < length (rc_dumps cfg ?w)
      then tr_value v = JStr (take (tp_max_chars (rc_policy cfg)) (rc_dumps cfg ?w)) \<and> tr_truncated v
      else tr_value v = ?w"
    using assms(1)
    by (auto simp: finish_call_def Let_def case_prod_unfold split: option.splits if_splits sum.splits)
  show ?thesis
  proof (cases "tp_max_chars (rc_policy cfg) < length (rc_dumps cfg ?w)")
    case True
    with parts show ?thesis by (auto simp: good_value_def)
  next
    case False
    have "\<not> contains_ci (rc_ci cfg) p t" if "t \<in> set (json_strings ?w)" "p \<in> set phrases" for p t
      using normalize_strings [OF that(1)] sanitize_filters [OF assms(2) that(2)] by blast
    with False parts normalize_items [of cfg raw] show ?thesis by (simp add: good_value_def)
  qed
qed

definition cache_good :: "router_config \<Rightarrow> router_state \<Rightarrow> bool" where
  "cache_good cfg st \<longleftrightarrow> (\<forall>k v. rs_cache st k = Some v \<longrightarrow> good_value cfg v)"

lemma run_ops_good:
  assumes "run_ops cfg xs st = (rs, st')" "cache_good cfg st" "ascii_folding (rc_ci cfg)" "Inr v \<in> set rs"
  shows "good_value cfg v"
  using assms
proof (induction xs arbitrary: st rs)
  case (Cons x xs)
  obtain r t where op: "run_op cfg x st = (r, t)" by fastforce
  from Cons.prems(1) obtain rs' where ops: "run_ops cfg xs t = (rs', st')" and out: "rs = r # rs'"
    by (auto simp: op case_prod_unfold Let_def prod_eq_iff)
  from op have "cache_good cfg t \<and> (\<forall>w. r = Inr w \<longrightarrow> good_value cfg w)"
  proof (cases rule: run_op_cases)
    case (error e)
    with Cons.prems(2) show ?thesis by (simp add: cache_good_def)
  next
    case (hit f w)
    with Cons.prems(2) show ?thesis by (auto simp: cache_good_def good_value_def)
  next
    case (new f w raw flag mapper)
    with finish_call_good [OF new(3) Cons.prems(3)] Cons.prems(2) show ?thesis
      by (auto simp: cache_good_def)
  qed
  with Cons.IH [OF ops _ Cons.prems(3)] Cons.prems(4) out show ?case by auto
qed simp

text \<open>Every result a tool call returns, cached or fresh, is marked untrusted and either is a text
  cut to the character limit and flagged as truncated, or is within the character and item limits
  with none of the filtered phrases left in any of its texts.\<close>

theorem tool_results_bounded:
  assumes "run_ops cfg xs initial_router = (rs, st)" "ascii_folding (rc_ci cfg)" "Inr v \<in> set rs"
  shows "good_value cfg v"
  using run_ops_good [OF assms(1) _ assms(2,3)] by (simp add: cache_good_def initial_router_def)

subsection \<open>A run\<close>

definition ascii_ci :: "nat \<Rightarrow> nat \<Rightarrow> bool" where
  "ascii_ci p c \<longleftrightarrow> (if 65 \<le> p \<and> p \<le> 90 then p + 32 else p) = (if 65 \<le> c \<and> c \<le> 90 then c + 32 else c)"

lemma ascii_ci_folding: "ascii_folding ascii_ci"
  by (auto simp: ascii_folding_def ascii_ci_def)

definition sample_config :: router_config where
  "sample_config = \<lparr>rc_registry = [(lit ''clock'', PlainTool (\<lambda>_. HReturn (Plain (JInt 7))))],
     rc_policy = default_tool_policy, rc_allow_proposals = False, rc_dumps_sorted = (\<lambda>_. lit ''{}''),
     rc_dumps = (\<lambda>_. lit ''7''), rc_sha256 = (\<lambda>_. ''f''), rc_ci = ascii_ci\<rparr>"

definition sample_ops :: "tool_op list" where
  "sample_ops = [Execute (lit ''r'') (lit ''u'') (lit ''clock'') [], Execute (lit ''r'') (lit ''u'') (lit ''clock'') []]"

definition sample_result :: "bool \<Rightarrow> tool_result" where
  "sample_result hit = \<lparr>tr_value = JInt 7, tr_cache_hit = hit, tr_truncated = False, tr_untrusted = True,
     tr_fingerprint = lit ''f'', tr_evidence = []\<rparr>"

lemma sample_ops_run:
  "fst (run_ops sample_config sample_ops initial_router) = [Inr (sample_result False), Inr (sample_result True)]"
proof -
  have u: "utf8_length (lit ''{}'') = Some 2" "utf8_length (lit ''7'') = Some 1"
    by (simp_all add: lit_def)
  show ?thesis
    by (simp add: sample_ops_def execute_tool_def run_tool_def sample_config_def u Let_def
        default_tool_policy_def fingerprint_of_def initial_router_def legacy_handler_def call_handler_def
        notify_completion_def finish_call_def normalize_value_def sample_result_def)
qed

lemma sample_ops_eq:
  "run_ops sample_config sample_ops initial_router
     = ([Inr (sample_result False), Inr (sample_result True)], snd (run_ops sample_config sample_ops initial_router))"
  using sample_ops_run by (metis prod.collapse)

lemma tool_budget_witness:
  "length (filter (fresh (lit ''r'')) (zip sample_ops [Inr (sample_result False), Inr (sample_result True)]))
     \<le> tp_max_calls (rc_policy sample_config)"
  using tool_budget [OF sample_ops_eq, of "lit ''r''"] by simp

lemma cache_hits_isolated_witness:
  "\<exists>i < 1. op_run (sample_ops ! i) = op_run (sample_ops ! 1) \<and> op_user (sample_ops ! i) = op_user (sample_ops ! 1)
     \<and> [Inr (sample_result False), Inr (sample_result True)] ! i
         = (Inr ((sample_result True)\<lparr>tr_cache_hit := False\<rparr>) :: tool_failure + tool_result)"
  by (rule cache_hits_isolated [OF sample_ops_eq])
     (simp_all add: sample_ops_def sample_result_def)

lemma tool_results_bounded_witness: "good_value sample_config (sample_result True)"
  by (rule tool_results_bounded [OF sample_ops_eq])
     (simp_all add: sample_config_def ascii_ci_folding)

lemma sanitize_filters_witness:
  "\<not> contains_ci ascii_ci (lit ''system prompt'') (sanitize_untrusted_tool_text ascii_ci (lit ''the System Prompt''))"
  by (rule sanitize_filters [OF ascii_ci_folding]) (simp add: phrases_def)

end
