(* ===== verification/Grounding.thy ===== *)
theory Grounding
  imports Evidence
begin

text \<open>
  Structured answers and their citations (src/adaptive_tutor/tutor/grounding.py and the answer
  contracts of t3_contracts.py): the teacher's reply is parsed into a draft, its citations are
  checked against the evidence snapshot of the run, at most one repair is asked for, the claims
  are judged, and the citations the user sees are rebuilt from the evidence. The program has the
  pipeline twice, over retrieved chunks and over evidence items.

  The JSON reader \<open>json.loads\<close>, the repairing model call and the judge are parameters; the
  validation of a JSON value into a draft is modelled. A port that raises is an \<open>Inl\<close>.
\<close>

subsection \<open>The draft\<close>

datatype grounding_status =
    Supported | SemanticUnverified | RepairRequired | InsufficientEvidence | SafeRefusal | ValidationError

record citation_ref =
  cr_evidence_id :: "ustr option"
  cr_chunk_id :: "ustr option"
  cr_document_id :: "ustr option"

definition validate_provenance_mode :: "citation_ref \<Rightarrow> string + citation_ref" where
  "validate_provenance_mode r =
     (let has_evidence = cr_evidence_id r \<noteq> None;
          has_legacy = cr_chunk_id r \<noteq> None \<or> cr_document_id r \<noteq> None
      in if has_evidence = has_legacy then Inl ''citation must use exactly one provenance mode''
         else if has_legacy \<and> (cr_chunk_id r = None \<or> cr_document_id r = None)
         then Inl ''legacy citation requires chunk_id and document_id''
         else Inr r)"

record grounded_claim =
  gc_claim_id :: ustr
  gc_text :: ustr
  gc_refs :: "citation_ref list"

record answer_draft =
  ad_answer :: ustr
  ad_claims :: "grounded_claim list"
  ad_citations :: "citation_ref list"
  ad_insufficient :: bool
  ad_missing :: "ustr list"

record public_citation =
  pc_id :: string
  pc_title :: "ustr option"
  pc_source_type :: ustr
  pc_excerpt :: ustr
  pc_label :: ustr
  pc_source_title :: "ustr option"
  pc_source_url :: "ustr option"

text \<open>The constructor of \<open>PublicCitation\<close>: the source type must not be empty.\<close>

definition make_citation :: "public_citation \<Rightarrow> port_error + public_citation" where
  "make_citation c =
     (if 1 \<le> length (pc_id c) \<and> 1 \<le> length (pc_source_type c) \<and> length (pc_excerpt c) \<le> 500
      then Inr c else Inl (PortError ''ValidationError'' [''ValueError'']))"

subsection \<open>Validation of a JSON value\<close>

text \<open>The models forbid extra keys; a string field takes a string, a flag takes what pydantic
  reads as a truth value.\<close>

definition keys_within :: "metadata \<Rightarrow> string list \<Rightarrow> string + unit" where
  "keys_within d ks = require (\<forall>k \<in> set (map fst d). k \<in> lit ` set ks) ''extra_forbidden''"

definition str_field :: "metadata \<Rightarrow> string \<Rightarrow> nat \<Rightarrow> string + ustr" where
  "str_field d k min_length =
     (case map_of d (lit k) of
        Some (JStr s) \<Rightarrow> if min_length \<le> length s then Inr s else Inl ''string_too_short''
      | Some _ \<Rightarrow> Inl ''string_type''
      | None \<Rightarrow> Inl ''missing'')"

definition opt_str_field :: "metadata \<Rightarrow> string \<Rightarrow> string + ustr option" where
  "opt_str_field d k =
     (case map_of d (lit k) of
        None \<Rightarrow> Inr None
      | Some JNull \<Rightarrow> Inr None
      | Some (JStr s) \<Rightarrow> if s = [] then Inl ''string_too_short'' else Inr (Some s)
      | Some _ \<Rightarrow> Inl ''string_type'')"

definition list_field :: "metadata \<Rightarrow> string \<Rightarrow> (json \<Rightarrow> string + 'a) \<Rightarrow> string + 'a list" where
  "list_field d k item =
     (case map_of d (lit k) of
        None \<Rightarrow> Inr []
      | Some (JList xs) \<Rightarrow> traverse item xs
      | Some _ \<Rightarrow> Inl ''tuple_type'')"

text \<open>\<open>lower\<close> is \<open>str.lower\<close>.\<close>

definition bool_field :: "(ustr \<Rightarrow> ustr) \<Rightarrow> metadata \<Rightarrow> string \<Rightarrow> string + bool" where
  "bool_field lower d k =
     (case map_of d (lit k) of
        None \<Rightarrow> Inr False
      | Some (JBool b) \<Rightarrow> Inr b
      | Some (JInt i) \<Rightarrow> if i = 0 then Inr False else if i = 1 then Inr True else Inl ''bool_parsing''
      | Some (JFloat x) \<Rightarrow>
          if x = 0 then Inr False else if x = 1 then Inr True else Inl ''bool_parsing''
      | Some (JStr s) \<Rightarrow>
          if lower s \<in> lit ` {''0'', ''off'', ''f'', ''false'', ''n'', ''no''} then Inr False
          else if lower s \<in> lit ` {''1'', ''on'', ''t'', ''true'', ''y'', ''yes''} then Inr True
          else Inl ''bool_parsing''
      | Some _ \<Rightarrow> Inl ''bool_type'')"

definition str_item :: "json \<Rightarrow> string + ustr" where
  "str_item v = (case v of JStr s \<Rightarrow> Inr s | _ \<Rightarrow> Inl ''string_type'')"

definition ref_of_json :: "json \<Rightarrow> string + citation_ref" where
  "ref_of_json v =
     (case v of
        JDict d \<Rightarrow>
          bind_res (keys_within d [''evidence_id'', ''chunk_id'', ''document_id'']) (\<lambda>_.
          bind_res (opt_str_field d ''evidence_id'') (\<lambda>e.
          bind_res (opt_str_field d ''chunk_id'') (\<lambda>c.
          bind_res (opt_str_field d ''document_id'') (\<lambda>doc.
          validate_provenance_mode
            \<lparr>cr_evidence_id = e, cr_chunk_id = c, cr_document_id = doc\<rparr>))))
      | _ \<Rightarrow> Inl ''model_type'')"

definition claim_of_json :: "json \<Rightarrow> string + grounded_claim" where
  "claim_of_json v =
     (case v of
        JDict d \<Rightarrow>
          bind_res (keys_within d [''claim_id'', ''text'', ''citation_refs'']) (\<lambda>_.
          bind_res (str_field d ''claim_id'' 1) (\<lambda>i.
          bind_res (str_field d ''text'' 1) (\<lambda>t.
          bind_res (list_field d ''citation_refs'' ref_of_json) (\<lambda>refs.
          Inr \<lparr>gc_claim_id = i, gc_text = t, gc_refs = refs\<rparr>))))
      | _ \<Rightarrow> Inl ''model_type'')"

definition draft_of_json :: "(ustr \<Rightarrow> ustr) \<Rightarrow> metadata \<Rightarrow> string + answer_draft" where
  "draft_of_json lower d =
     bind_res (keys_within d [''answer'', ''claims'', ''citations'', ''insufficient_evidence'',
                              ''missing_information'']) (\<lambda>_.
     bind_res (str_field d ''answer'' 0) (\<lambda>a.
     bind_res (list_field d ''claims'' claim_of_json) (\<lambda>claims.
     bind_res (list_field d ''citations'' ref_of_json) (\<lambda>refs.
     bind_res (bool_field lower d ''insufficient_evidence'') (\<lambda>insufficient.
     bind_res (list_field d ''missing_information'' str_item) (\<lambda>missing.
     Inr \<lparr>ad_answer = a, ad_claims = claims, ad_citations = refs, ad_insufficient = insufficient,
          ad_missing = missing\<rparr>))))))"

record answer_reader =
  rd_json_loads :: "ustr \<Rightarrow> json option"
  rd_lower :: "ustr \<Rightarrow> ustr"

definition parse :: "answer_reader \<Rightarrow> ustr \<Rightarrow> string + answer_draft" where
  "parse rd raw =
     (case rd_json_loads rd raw of
        None \<Rightarrow> Inl ''JSONDecodeError''
      | Some (JDict d) \<Rightarrow> draft_of_json (rd_lower rd) d
      | Some _ \<Rightarrow> Inl ''structured answer must be a JSON object'')"

subsection \<open>Ports\<close>

type_synonym repair_port = "ustr \<Rightarrow> port_error + ustr"
type_synonym 'i judge_port = "grounded_claim \<Rightarrow> 'i list \<Rightarrow> port_error + bool"

text \<open>\<open>self.parser.parse(repair(prompt))\<close> under its \<open>except\<close> clause: a value or type error of the
  repair port counts as a draft that does not parse (\<open>None\<close>), any other exception leaves the
  pipeline.\<close>

definition parse_repaired ::
  "answer_reader \<Rightarrow> repair_port \<Rightarrow> ustr \<Rightarrow> port_error + answer_draft option" where
  "parse_repaired rd repair prompt =
     (case repair prompt of
        Inl e \<Rightarrow> if instance_of e [''ValueError'', ''TypeError''] then Inr None else Inl e
      | Inr raw \<Rightarrow> (case parse rd raw of Inl _ \<Rightarrow> Inr None | Inr d \<Rightarrow> Inr (Some d)))"

text \<open>\<open>any(not judge(claim, cited) for claim in claims)\<close>\<close>

fun any_rejected ::
  "'i judge_port \<Rightarrow> 'i list \<Rightarrow> grounded_claim list \<Rightarrow> port_error + bool" where
  "any_rejected judge cited [] = Inr False"
| "any_rejected judge cited (c # cs) =
     bind_res (judge c cited) (\<lambda>ok. if ok then any_rejected judge cited cs else Inr True)"

record ('i, 'k) grounding_evaluation =
  ge_status :: grounding_status
  ge_draft :: "answer_draft option"
  ge_public :: "public_citation list"
  ge_referenced :: "'i list"
  ge_repair_count :: nat
  ge_invalid :: "'k list"

definition claim_refs :: "answer_draft \<Rightarrow> citation_ref list" where
  "claim_refs d = concat (map gc_refs (ad_claims d))"

definition str_or :: "metadata \<Rightarrow> string \<Rightarrow> ustr \<Rightarrow> (json \<Rightarrow> ustr) \<Rightarrow> ustr" where
  "str_or m k dflt str = (case map_of m (lit k) of None \<Rightarrow> dflt | Some v \<Rightarrow> str v)"

subsection \<open>The pipeline over retrieved chunks\<close>

record retrieval_evidence =
  re_chunk_id :: ustr
  re_document_id :: ustr
  re_hash :: string

record retrieval_snapshot =
  rs_id :: ustr
  rs_run_id :: ustr
  rs_retrieval_run_id :: ustr
  rs_index_version :: ustr
  rs_context :: "retrieval_evidence list"

text \<open>\<open>str\<close> of a JSON value is the parameter \<open>str\<close>; the set of versions is sorted.\<close>

definition build_retrieval_snapshot ::
  "sha \<Rightarrow> (json \<Rightarrow> ustr) \<Rightarrow> ustr \<Rightarrow> ustr \<Rightarrow> ustr \<Rightarrow> retrieved_chunk list \<Rightarrow> retrieval_snapshot" where
  "build_retrieval_snapshot sha256 str uuid run_id retrieval_run_id chunks =
     (let versions = sorted_list_of_set (set (map (\<lambda>c. str (meta_get (rch_metadata c) ''index_version_id''))
            (filter (\<lambda>c. truthy (meta_get (rch_metadata c) ''index_version_id'')) chunks)));
          joined = join (lit '','') versions;
          index_version = (if length versions = 1 then hd versions
                           else if joined = [] then lit ''legacy'' else joined)
      in \<lparr>rs_id = lit ''snapshot-'' @ uuid, rs_run_id = run_id, rs_retrieval_run_id = retrieval_run_id,
          rs_index_version = index_version,
          rs_context = map (\<lambda>c. \<lparr>re_chunk_id = rch_chunk_id c, re_document_id = rch_document_id c,
                                 re_hash = content_hash sha256 (rch_content c)\<rparr>) chunks\<rparr>)"

type_synonym chunk_key = "ustr option \<times> ustr option"

definition chunk_ref :: "citation_ref \<Rightarrow> chunk_key" where
  "chunk_ref r = (cr_chunk_id r, cr_document_id r)"

definition chunk_key_of :: "retrieved_chunk \<Rightarrow> chunk_key" where
  "chunk_key_of c = (Some (rch_chunk_id c), Some (rch_document_id c))"

definition chunk_map :: "retrieved_chunk list \<Rightarrow> chunk_key \<Rightarrow> retrieved_chunk option" where
  "chunk_map chunks = map_of (rev (map (\<lambda>c. (chunk_key_of c, c)) chunks))"

definition invalid_chunk_citations ::
  "sha \<Rightarrow> answer_draft \<Rightarrow> retrieved_chunk list \<Rightarrow> retrieval_snapshot \<Rightarrow> ustr option list" where
  "invalid_chunk_citations sha256 d chunks snapshot =
     (let allowed = map (\<lambda>i. ((Some (re_chunk_id i), Some (re_document_id i)), Some (re_hash i)))
                      (rs_context snapshot);
          actual = map_option (\<lambda>c. content_hash sha256 (rch_content c)) \<circ> chunk_map chunks;
          top_level = map chunk_ref (ad_citations d)
      in fromkeys
           (map cr_chunk_id (filter (\<lambda>r. chunk_ref r \<notin> fst ` set allowed
               \<or> (chunk_ref r, actual (chunk_ref r)) \<notin> set allowed) (ad_citations d))
          @ map cr_chunk_id (filter (\<lambda>r. chunk_ref r \<notin> set top_level) (claim_refs d))))"

definition cited_chunks :: "answer_draft \<Rightarrow> retrieved_chunk list \<Rightarrow> retrieved_chunk list" where
  "cited_chunks d chunks = filter (\<lambda>c. chunk_key_of c \<in> set (map chunk_ref (claim_refs d))) chunks"

definition cite_chunk ::
  "(json \<Rightarrow> ustr) \<Rightarrow> nat \<Rightarrow> retrieved_chunk \<Rightarrow> port_error + public_citation" where
  "cite_chunk str n c = make_citation
     \<lparr>pc_id = ''c'' @ str_of_nat n, pc_title = rch_title c,
      pc_source_type = str_or (rch_metadata c) ''source_type'' (lit ''unknown'') str,
      pc_excerpt = take 500 (rch_content c), pc_label = rch_label c,
      pc_source_title = rch_title c, pc_source_url = rch_url c\<rparr>"

fun chunk_citations ::
  "(json \<Rightarrow> ustr) \<Rightarrow> (chunk_key \<Rightarrow> retrieved_chunk option) \<Rightarrow> chunk_key set
     \<Rightarrow> public_citation list \<Rightarrow> retrieved_chunk list \<Rightarrow> citation_ref list
     \<Rightarrow> port_error + public_citation list \<times> retrieved_chunk list" where
  "chunk_citations str chunk_of seen public referenced [] = Inr (public, referenced)"
| "chunk_citations str chunk_of seen public referenced (r # rs) =
     (if chunk_ref r \<in> seen then chunk_citations str chunk_of seen public referenced rs
      else (case chunk_of (chunk_ref r) of
              None \<Rightarrow> chunk_citations str chunk_of (insert (chunk_ref r) seen) public referenced rs
            | Some c \<Rightarrow> bind_res (cite_chunk str (length public + 1) c) (\<lambda>p.
                chunk_citations str chunk_of (insert (chunk_ref r) seen)
                  (public @ [p]) (referenced @ [c]) rs)))"

definition chunk_result ::
  "(json \<Rightarrow> ustr) \<Rightarrow> grounding_status \<Rightarrow> answer_draft option \<Rightarrow> retrieved_chunk list \<Rightarrow> nat
     \<Rightarrow> ustr option list \<Rightarrow> port_error + (retrieved_chunk, ustr option) grounding_evaluation" where
  "chunk_result str status draft chunks repair_count invalid =
     (case draft of
        Some d \<Rightarrow>
          if status = SafeRefusal \<or> status = ValidationError
          then Inr \<lparr>ge_status = status, ge_draft = draft, ge_public = [], ge_referenced = [],
                ge_repair_count = repair_count, ge_invalid = invalid\<rparr>
          else bind_res (chunk_citations str (chunk_map chunks) {} [] [] (ad_citations d))
                 (\<lambda>(public, referenced).
                    Inr \<lparr>ge_status = status, ge_draft = draft, ge_public = public,
                      ge_referenced = referenced, ge_repair_count = repair_count, ge_invalid = invalid\<rparr>)
      | None \<Rightarrow> Inr \<lparr>ge_status = status, ge_draft = None, ge_public = [], ge_referenced = [],
                  ge_repair_count = repair_count, ge_invalid = invalid\<rparr>)"

definition chunk_repair_prompt :: "ustr \<Rightarrow> ustr \<Rightarrow> string \<Rightarrow> ustr" where
  "chunk_repair_prompt question raw error_type =
     lit ''Return only a complete JSON GroundedAnswerDraft. Repair error: '' @ lit error_type
     @ lit ''. Question: '' @ question
     @ lit ''. Use only the citation IDs already present in the allowed evidence. Original draft: ''
     @ take 4000 raw"

text \<open>The checks that follow the provenance check.\<close>

definition conclude_chunks ::
  "(json \<Rightarrow> ustr) \<Rightarrow> retrieved_chunk judge_port option \<Rightarrow> answer_draft \<Rightarrow> retrieved_chunk list
     \<Rightarrow> nat \<Rightarrow> ustr option list \<Rightarrow> port_error + (retrieved_chunk, ustr option) grounding_evaluation" where
  "conclude_chunks str judge d chunks n invalid =
     (if invalid \<noteq> [] then chunk_result str SafeRefusal (Some d) chunks n invalid
      else if ad_insufficient d \<or> chunks = []
      then chunk_result str InsufficientEvidence (Some d) chunks n []
      else (case judge of
              None \<Rightarrow> chunk_result str SemanticUnverified (Some d) chunks n []
            | Some j \<Rightarrow>
                bind_res (any_rejected j (cited_chunks d chunks) (ad_claims d)) (\<lambda>rejected.
                  chunk_result str (if rejected then SafeRefusal else Supported)
                         (Some d) chunks n [])))"

text \<open>The provenance check with its repair, for a draft that parsed after \<open>n\<close> repairs.\<close>

definition check_chunks ::
  "answer_reader \<Rightarrow> sha \<Rightarrow> (json \<Rightarrow> ustr) \<Rightarrow> ustr \<Rightarrow> ustr \<Rightarrow> retrieved_chunk list \<Rightarrow> retrieval_snapshot
     \<Rightarrow> repair_port option \<Rightarrow> retrieved_chunk judge_port option \<Rightarrow> answer_draft \<Rightarrow> nat
     \<Rightarrow> port_error + (retrieved_chunk, ustr option) grounding_evaluation" where
  "check_chunks rd sha256 str raw question chunks snapshot repair judge d n =
     (let invalid = invalid_chunk_citations sha256 d chunks snapshot
      in if invalid \<noteq> [] \<and> repair \<noteq> None \<and> n = 0
         then bind_res (parse_repaired rd (the repair)
                 (chunk_repair_prompt question raw ''citation_provenance''))
               (\<lambda>repaired. case repaired of
                  None \<Rightarrow> chunk_result str SafeRefusal None chunks 1 invalid
                | Some d' \<Rightarrow> conclude_chunks str judge d' chunks 1
                    (invalid_chunk_citations sha256 d' chunks snapshot))
         else conclude_chunks str judge d chunks n invalid)"

definition evaluate_chunks ::
  "answer_reader \<Rightarrow> sha \<Rightarrow> (json \<Rightarrow> ustr) \<Rightarrow> ustr \<Rightarrow> ustr \<Rightarrow> retrieved_chunk list \<Rightarrow> retrieval_snapshot
     \<Rightarrow> repair_port option \<Rightarrow> retrieved_chunk judge_port option
     \<Rightarrow> port_error + (retrieved_chunk, ustr option) grounding_evaluation" where
  "evaluate_chunks rd sha256 str raw question chunks snapshot repair judge =
     (case parse rd raw of
        Inr d \<Rightarrow> check_chunks rd sha256 str raw question chunks snapshot repair judge d 0
      | Inl _ \<Rightarrow>
          (case repair of
             None \<Rightarrow> chunk_result str ValidationError None chunks 0 []
           | Some ask \<Rightarrow>
               bind_res (parse_repaired rd ask
                   (chunk_repair_prompt question raw ''structured_output''))
                 (\<lambda>repaired. case repaired of
                    None \<Rightarrow> chunk_result str ValidationError None chunks 1 []
                  | Some d \<Rightarrow>
                      check_chunks rd sha256 str raw question chunks snapshot repair judge d 1)))"

subsection \<open>The pipeline over evidence items\<close>

definition invalid_id :: "citation_ref \<Rightarrow> ustr" where
  "invalid_id r =
     (if \<not> blank (cr_evidence_id r) then the (cr_evidence_id r)
      else if \<not> blank (cr_chunk_id r) then the (cr_chunk_id r) else lit ''legacy'')"

definition snapshot_hashes :: "evidence_snapshot \<Rightarrow> ustr \<Rightarrow> string option" where
  "snapshot_hashes snapshot =
     map_of (rev (map (\<lambda>i. (sni_evidence_id i, sni_hash i)) (snp_context snapshot)))"

definition invalid_evidence_citations ::
  "sha \<Rightarrow> answer_draft \<Rightarrow> evidence_item list \<Rightarrow> evidence_snapshot \<Rightarrow> ustr list" where
  "invalid_evidence_citations sha256 d evidence snapshot =
     (let allowed = snapshot_hashes snapshot;
          actual = map_option (\<lambda>e. content_hash sha256 (ev_content e)) \<circ> evidence_by_id evidence;
          top_level = map cr_evidence_id (filter (\<lambda>r. cr_evidence_id r \<noteq> None) (ad_citations d))
      in fromkeys
           (map invalid_id (filter (\<lambda>r. case cr_evidence_id r of
                None \<Rightarrow> True
              | Some i \<Rightarrow> allowed i = None \<or> actual i \<noteq> allowed i) (ad_citations d))
          @ map invalid_id (filter (\<lambda>r. cr_evidence_id r = None \<or> cr_evidence_id r \<notin> set top_level)
              (claim_refs d))))"

definition cited_evidence :: "answer_draft \<Rightarrow> evidence_item list \<Rightarrow> evidence_item list" where
  "cited_evidence d evidence =
     filter (\<lambda>e. Some (ev_id e) \<in> set (map cr_evidence_id (claim_refs d))) evidence"

definition cite_evidence ::
  "(json \<Rightarrow> ustr) \<Rightarrow> nat \<Rightarrow> evidence_item \<Rightarrow> port_error + public_citation" where
  "cite_evidence str n e = make_citation
     \<lparr>pc_id = ''c'' @ str_of_nat n, pc_title = ev_title e,
      pc_source_type = (if ev_source e = SrcTool then lit ''tool''
                        else str_or (ev_metadata e) ''source_type'' (lit ''unknown'') str),
      pc_excerpt = take 500 (ev_content e), pc_label = ev_label e,
      pc_source_title = ev_title e, pc_source_url = ev_url e\<rparr>"

fun evidence_citations ::
  "(json \<Rightarrow> ustr) \<Rightarrow> (ustr \<Rightarrow> evidence_item option) \<Rightarrow> ustr set
     \<Rightarrow> public_citation list \<Rightarrow> evidence_item list \<Rightarrow> citation_ref list
     \<Rightarrow> port_error + public_citation list \<times> evidence_item list" where
  "evidence_citations str by_id seen public referenced [] = Inr (public, referenced)"
| "evidence_citations str by_id seen public referenced (r # rs) =
     (case cr_evidence_id r of
        None \<Rightarrow> evidence_citations str by_id seen public referenced rs
      | Some i \<Rightarrow>
          if i \<in> seen then evidence_citations str by_id seen public referenced rs
          else (case by_id i of
                  None \<Rightarrow> evidence_citations str by_id (insert i seen) public referenced rs
                | Some e \<Rightarrow> bind_res (cite_evidence str (length public + 1) e) (\<lambda>p.
                    evidence_citations str by_id (insert i seen)
                      (public @ [p]) (referenced @ [e]) rs)))"

definition evidence_result ::
  "(json \<Rightarrow> ustr) \<Rightarrow> grounding_status \<Rightarrow> answer_draft option \<Rightarrow> evidence_item list \<Rightarrow> nat
     \<Rightarrow> ustr list \<Rightarrow> port_error + (evidence_item, ustr) grounding_evaluation" where
  "evidence_result str status draft evidence repair_count invalid =
     (case draft of
        Some d \<Rightarrow>
          if status = SafeRefusal \<or> status = ValidationError
          then Inr \<lparr>ge_status = status, ge_draft = draft, ge_public = [], ge_referenced = [],
                ge_repair_count = repair_count, ge_invalid = invalid\<rparr>
          else bind_res (evidence_citations str (evidence_by_id evidence) {} [] [] (ad_citations d))
                 (\<lambda>(public, referenced).
                    Inr \<lparr>ge_status = status, ge_draft = draft, ge_public = public,
                      ge_referenced = referenced, ge_repair_count = repair_count, ge_invalid = invalid\<rparr>)
      | None \<Rightarrow> Inr \<lparr>ge_status = status, ge_draft = None, ge_public = [], ge_referenced = [],
                  ge_repair_count = repair_count, ge_invalid = invalid\<rparr>)"

definition evidence_repair_prompt :: "ustr \<Rightarrow> string \<Rightarrow> evidence_snapshot \<Rightarrow> ustr" where
  "evidence_repair_prompt question error_type snapshot =
     lit ''Return only GroundedAnswerDraft JSON. Repair error: '' @ lit error_type
     @ lit ''. Question: '' @ question @ lit ''.'' @ [10] @ lit ''Allowed evidence_id values:'' @ [10]
     @ join [10] (map (\<lambda>i. lit ''- '' @ sni_evidence_id i) (snp_context snapshot)) @ [10]
     @ lit ''Do not invent citation IDs. Use only the allowed evidence_id values.''"

definition conclude_evidence ::
  "(json \<Rightarrow> ustr) \<Rightarrow> evidence_item judge_port option \<Rightarrow> answer_draft \<Rightarrow> evidence_item list
     \<Rightarrow> nat \<Rightarrow> ustr list \<Rightarrow> port_error + (evidence_item, ustr) grounding_evaluation" where
  "conclude_evidence str judge d evidence n invalid =
     (if invalid \<noteq> [] then evidence_result str SafeRefusal (Some d) evidence n invalid
      else if ad_insufficient d \<or> evidence = []
      then evidence_result str InsufficientEvidence (Some d) evidence n []
      else (case judge of
              None \<Rightarrow> evidence_result str SemanticUnverified (Some d) evidence n []
            | Some j \<Rightarrow>
                bind_res (any_rejected j (cited_evidence d evidence) (ad_claims d)) (\<lambda>rejected.
                  evidence_result str (if rejected then SafeRefusal else Supported)
                         (Some d) evidence n [])))"

definition check_evidence ::
  "answer_reader \<Rightarrow> sha \<Rightarrow> (json \<Rightarrow> ustr) \<Rightarrow> ustr \<Rightarrow> evidence_item list \<Rightarrow> evidence_snapshot
     \<Rightarrow> repair_port option \<Rightarrow> evidence_item judge_port option \<Rightarrow> answer_draft \<Rightarrow> nat
     \<Rightarrow> port_error + (evidence_item, ustr) grounding_evaluation" where
  "check_evidence rd sha256 str question evidence snapshot repair judge d n =
     (let invalid = invalid_evidence_citations sha256 d evidence snapshot
      in if invalid \<noteq> [] \<and> repair \<noteq> None \<and> n = 0
         then bind_res (parse_repaired rd (the repair)
                 (evidence_repair_prompt question ''citation_provenance'' snapshot))
               (\<lambda>repaired. case repaired of
                  None \<Rightarrow> evidence_result str SafeRefusal None evidence 1 invalid
                | Some d' \<Rightarrow> conclude_evidence str judge d' evidence 1
                    (invalid_evidence_citations sha256 d' evidence snapshot))
         else conclude_evidence str judge d evidence n invalid)"

definition evaluate_evidence ::
  "answer_reader \<Rightarrow> sha \<Rightarrow> (json \<Rightarrow> ustr) \<Rightarrow> ustr \<Rightarrow> ustr \<Rightarrow> evidence_item list \<Rightarrow> evidence_snapshot
     \<Rightarrow> repair_port option \<Rightarrow> evidence_item judge_port option
     \<Rightarrow> port_error + (evidence_item, ustr) grounding_evaluation" where
  "evaluate_evidence rd sha256 str raw question evidence snapshot repair judge =
     (case parse rd raw of
        Inr d \<Rightarrow> check_evidence rd sha256 str question evidence snapshot repair judge d 0
      | Inl _ \<Rightarrow>
          (case repair of
             None \<Rightarrow> evidence_result str ValidationError None evidence 0 []
           | Some ask \<Rightarrow>
               bind_res (parse_repaired rd ask
                   (evidence_repair_prompt question ''structured_output'' snapshot))
                 (\<lambda>repaired. case repaired of
                    None \<Rightarrow> evidence_result str ValidationError None evidence 1 []
                  | Some d \<Rightarrow> check_evidence rd sha256 str question evidence snapshot repair judge d 1)))"

subsection \<open>Resolving citations\<close>

text \<open>Both pipelines rebuild the citations the user sees by one walk over the draft's references:
  a reference without a key or with one already seen is skipped, an unknown key is dropped, a
  known one is cited under the next number. \<open>backed\<close> is what a clean provenance check
  establishes of the item behind a reference.\<close>

locale citation_resolver =
  fixes walk :: "'k set \<Rightarrow> public_citation list \<Rightarrow> 'i list \<Rightarrow> citation_ref list
      \<Rightarrow> port_error + public_citation list \<times> 'i list"
    and ref_key :: "citation_ref \<Rightarrow> 'k option"
    and item_of :: "'k \<Rightarrow> 'i option"
    and cite :: "nat \<Rightarrow> 'i \<Rightarrow> port_error + public_citation"
    and invalid :: "answer_draft \<Rightarrow> 'z list"
    and backed :: "'k \<Rightarrow> 'i \<Rightarrow> bool"
  assumes walk_Nil: "walk seen public referenced [] = Inr (public, referenced)"
    and walk_skip: "ref_key r = None \<or> (\<exists>k \<in> seen. ref_key r = Some k) \<Longrightarrow>
      walk seen public referenced (r # rs) = walk seen public referenced rs"
    and walk_unknown: "ref_key r = Some k \<Longrightarrow> k \<notin> seen \<Longrightarrow> item_of k = None \<Longrightarrow>
      walk seen public referenced (r # rs) = walk (insert k seen) public referenced rs"
    and walk_cite: "ref_key r = Some k \<Longrightarrow> k \<notin> seen \<Longrightarrow> item_of k = Some i \<Longrightarrow>
      walk seen public referenced (r # rs) =
        bind_res (cite (length public + 1) i) (\<lambda>p.
          walk (insert k seen) (public @ [p]) (referenced @ [i]) rs)"
    and clean: "invalid d = [] \<Longrightarrow> r \<in> set (ad_citations d) \<Longrightarrow>
      \<exists>k i. ref_key r = Some k \<and> item_of k = Some i \<and> backed k i"
begin

definition keys :: "citation_ref list \<Rightarrow> 'k list" where
  "keys rs = map the (filter (\<lambda>k. k \<noteq> None) (map ref_key rs))"

definition resolved :: "'k list \<Rightarrow> 'i list" where
  "resolved ks = map the (filter (\<lambda>i. i \<noteq> None) (map item_of ks))"

definition cite_all :: "nat \<Rightarrow> 'i list \<Rightarrow> port_error + public_citation list" where
  "cite_all n xs = traverse (\<lambda>(n, i). cite n i) (enumerate_from n xs)"

lemma walk_from:
  "walk seen public referenced rs =
     (let new = resolved (fromkeys_from seen (keys rs))
      in bind_res (cite_all (length public + 1) new) (\<lambda>ps. Inr (public @ ps, referenced @ new)))"
proof (induction rs arbitrary: seen public referenced)
  case Nil
  then show ?case by (simp add: walk_Nil keys_def resolved_def cite_all_def)
next
  case (Cons r rs)
  show ?case
  proof (cases "ref_key r")
    case None
    then have "walk seen public referenced (r # rs) = walk seen public referenced rs"
      by (intro walk_skip) simp
    with Cons.IH None show ?thesis by (simp add: keys_def)
  next
    case (Some k)
    then have ks: "keys (r # rs) = k # keys rs" by (simp add: keys_def)
    show ?thesis
    proof (cases "k \<in> seen")
      case True
      with Some have "walk seen public referenced (r # rs) = walk seen public referenced rs"
        by (intro walk_skip) simp
      with Cons.IH True ks show ?thesis by simp
    next
      case new: False
      show ?thesis
      proof (cases "item_of k")
        case None
        from walk_unknown [OF Some new None] Cons.IH new ks None
        show ?thesis by (simp add: resolved_def)
      next
        case item: (Some i)
        define new_items where "new_items = resolved (fromkeys_from (insert k seen) (keys rs))"
        have "resolved (fromkeys_from seen (keys (r # rs))) = i # new_items"
          using new ks item by (simp add: resolved_def new_items_def)
        moreover from walk_cite [OF Some new item] Cons.IH
        have "walk seen public referenced (r # rs) =
            bind_res (cite (length public + 1) i) (\<lambda>p.
              bind_res (cite_all (length public + 2) new_items) (\<lambda>ps.
                Inr ((public @ [p]) @ ps, (referenced @ [i]) @ new_items)))"
          by (simp add: new_items_def Let_def)
        ultimately show ?thesis
          by (cases "cite (length public + 1) i")
             (simp_all add: cite_all_def Let_def bind_res_def split: sum.split)
      qed
    qed
  qed
qed

lemma walk_result:
  assumes "walk {} [] [] rs = Inr (public, referenced)"
  shows "referenced = resolved (fromkeys (keys rs))" and "cite_all 1 referenced = Inr public"
  using assms by (auto simp: walk_from Let_def fromkeys_def bind_res_Inr_iff)

lemma walk_clean:
  assumes "walk {} [] [] (ad_citations d) = Inr (public, referenced)" "invalid d = []"
  shows "\<forall>i \<in> set referenced. \<exists>k. item_of k = Some i \<and> backed k i"
    and "\<forall>r \<in> set (ad_citations d). \<exists>k. ref_key r = Some k \<and> item_of k \<in> Some ` set referenced"
    and "map item_of (fromkeys (map (the \<circ> ref_key) (ad_citations d))) = map Some referenced"
proof -
  have keyed: "\<forall>k \<in> set (map ref_key (ad_citations d)). k \<noteq> None"
    using clean [OF assms(2)] by fastforce
  then have ks: "keys (ad_citations d) = map (the \<circ> ref_key) (ad_citations d)"
    by (simp add: keys_def)
  have known: "\<exists>i. item_of k = Some i \<and> backed k i" if "k \<in> set (keys (ad_citations d))" for k
    using that clean [OF assms(2)] unfolding ks by fastforce
  then have all: "filter (\<lambda>i. i \<noteq> None) (map item_of (fromkeys (keys (ad_citations d))))
      = map item_of (fromkeys (keys (ad_citations d)))"
    by (auto simp: filter_id_conv)
  have ref: "referenced = map (the \<circ> item_of) (fromkeys (keys (ad_citations d)))"
    unfolding walk_result(1) [OF assms(1)] resolved_def all by simp
  show "\<forall>i \<in> set referenced. \<exists>k. item_of k = Some i \<and> backed k i"
    using known unfolding ref by fastforce
  show "map item_of (fromkeys (map (the \<circ> ref_key) (ad_citations d))) = map Some referenced"
    unfolding ref ks [symmetric] using known by fastforce
  show "\<forall>r \<in> set (ad_citations d). \<exists>k. ref_key r = Some k \<and> item_of k \<in> Some ` set referenced"
  proof
    fix r assume r: "r \<in> set (ad_citations d)"
    then obtain k i where k: "ref_key r = Some k" "item_of k = Some i"
      using clean [OF assms(2)] by blast
    with r have "k \<in> set (fromkeys (keys (ad_citations d)))"
      unfolding ks by (force simp: image_iff)
    with k show "\<exists>k. ref_key r = Some k \<and> item_of k \<in> Some ` set referenced"
      unfolding ref by (force simp: image_iff)
  qed
qed

end

definition chunk_backed :: "sha \<Rightarrow> retrieved_chunk list \<Rightarrow> retrieval_snapshot \<Rightarrow> chunk_key \<Rightarrow> retrieved_chunk \<Rightarrow> bool" where
  "chunk_backed sha256 chunks snapshot k c \<longleftrightarrow> c \<in> set chunks \<and> chunk_key_of c = k
     \<and> (\<exists>i \<in> set (rs_context snapshot). re_chunk_id i = rch_chunk_id c
          \<and> re_document_id i = rch_document_id c \<and> re_hash i = content_hash sha256 (rch_content c))"

lemma chunk_map_Some: "chunk_map chunks k = Some c \<Longrightarrow> c \<in> set chunks \<and> chunk_key_of c = k"
  by (auto simp: chunk_map_def dest!: map_of_SomeD)

interpretation chunk_walk: citation_resolver
  "chunk_citations str (chunk_map chunks)" "\<lambda>r. Some (chunk_ref r)" "chunk_map chunks" "cite_chunk str"
  "\<lambda>d. invalid_chunk_citations sha256 d chunks snapshot" "chunk_backed sha256 chunks snapshot"
  for str chunks sha256 snapshot
proof
  fix d r
  assume clean: "invalid_chunk_citations sha256 d chunks snapshot = []"
    and r: "r \<in> set (ad_citations d)"
  then have "(chunk_ref r, map_option (\<lambda>c. content_hash sha256 (rch_content c)) (chunk_map chunks (chunk_ref r)))
      \<in> set (map (\<lambda>i. ((Some (re_chunk_id i), Some (re_document_id i)), Some (re_hash i)))
              (rs_context snapshot))"
    by (auto simp: invalid_chunk_citations_def Let_def filter_empty_conv)
  then obtain i where i: "i \<in> set (rs_context snapshot)"
    "chunk_ref r = (Some (re_chunk_id i), Some (re_document_id i))"
    "map_option (\<lambda>c. content_hash sha256 (rch_content c)) (chunk_map chunks (chunk_ref r)) = Some (re_hash i)"
    by auto
  then obtain c where c: "chunk_map chunks (chunk_ref r) = Some c" "content_hash sha256 (rch_content c) = re_hash i"
    by auto
  with i chunk_map_Some [OF c(1)]
  have "chunk_backed sha256 chunks snapshot (chunk_ref r) c"
    by (auto simp: chunk_backed_def chunk_key_of_def intro!: bexI [of _ i])
  with c(1) show "\<exists>k i. Some (chunk_ref r) = Some k \<and> chunk_map chunks k = Some i
      \<and> chunk_backed sha256 chunks snapshot k i" by blast
qed auto

definition evidence_backed :: "sha \<Rightarrow> evidence_item list \<Rightarrow> evidence_snapshot \<Rightarrow> ustr \<Rightarrow> evidence_item \<Rightarrow> bool" where
  "evidence_backed sha256 evidence snapshot k e \<longleftrightarrow> e \<in> set evidence \<and> ev_id e = k
     \<and> (\<exists>i \<in> set (snp_context snapshot). sni_evidence_id i = ev_id e
          \<and> sni_hash i = content_hash sha256 (ev_content e))"

lemma evidence_by_id_Some: "evidence_by_id es k = Some e \<Longrightarrow> e \<in> set es \<and> ev_id e = k"
  by (auto simp: evidence_by_id_def dest!: map_of_SomeD)

interpretation evidence_walk: citation_resolver
  "evidence_citations str (evidence_by_id evidence)" cr_evidence_id "evidence_by_id evidence"
  "cite_evidence str" "\<lambda>d. invalid_evidence_citations sha256 d evidence snapshot"
  "evidence_backed sha256 evidence snapshot"
  for str evidence sha256 snapshot
proof
  fix d r
  assume clean: "invalid_evidence_citations sha256 d evidence snapshot = []"
    and r: "r \<in> set (ad_citations d)"
  then obtain k where k: "cr_evidence_id r = Some k" "snapshot_hashes snapshot k \<noteq> None"
    "map_option (\<lambda>e. content_hash sha256 (ev_content e)) (evidence_by_id evidence k)
       = snapshot_hashes snapshot k"
    by (fastforce simp: invalid_evidence_citations_def Let_def filter_empty_conv split: option.splits)
  from k(2) obtain h where h: "snapshot_hashes snapshot k = Some h" by blast
  obtain e where e: "evidence_by_id evidence k = Some e" "content_hash sha256 (ev_content e) = h"
  proof (cases "evidence_by_id evidence k")
    case None
    with k(3) h show thesis by simp
  next
    case (Some e)
    with k(3) h have "content_hash sha256 (ev_content e) = h" by simp
    with Some show thesis by (rule \<open>\<And>e. evidence_by_id evidence k = Some e \<Longrightarrow> content_hash sha256 (ev_content e) = h \<Longrightarrow> thesis\<close>)
  qed
  have "\<exists>i \<in> set (snp_context snapshot). sni_evidence_id i = k \<and> sni_hash i = h"
    using h by (auto simp: snapshot_hashes_def dest!: map_of_SomeD)
  with e evidence_by_id_Some [OF e(1)] have "evidence_backed sha256 evidence snapshot k e"
    by (auto simp: evidence_backed_def)
  with k(1) e(1) show "\<exists>k i. cr_evidence_id r = Some k \<and> evidence_by_id evidence k = Some i
      \<and> evidence_backed sha256 evidence snapshot k i" by blast
qed auto

subsection \<open>The pipeline over its outcomes\<close>

text \<open>The laws of a pipeline: \<open>result\<close> builds the evaluation and publishes nothing for a missing
  draft or a refusal, and the walk's citations otherwise; \<open>conclude\<close> orders the checks that follow
  the provenance check; \<open>check\<close> is the provenance check with its repair; \<open>run\<close> is the whole.\<close>

locale grounding_pipeline = citation_resolver walk ref_key item_of cite invalid backed
  for walk :: "'k set \<Rightarrow> public_citation list \<Rightarrow> 'i list \<Rightarrow> citation_ref list
      \<Rightarrow> port_error + public_citation list \<times> 'i list"
    and ref_key item_of cite and invalid :: "answer_draft \<Rightarrow> 'z list" and backed +
  fixes result :: "grounding_status \<Rightarrow> answer_draft option \<Rightarrow> nat \<Rightarrow> 'z list
      \<Rightarrow> port_error + ('i, 'z) grounding_evaluation"
    and cited :: "answer_draft \<Rightarrow> 'i list"
    and no_items :: bool
    and parsed :: "answer_draft option"
    and repaired :: "repair_port \<Rightarrow> string \<Rightarrow> port_error + answer_draft option"
    and conclude :: "'i judge_port option \<Rightarrow> answer_draft \<Rightarrow> nat \<Rightarrow> 'z list
      \<Rightarrow> port_error + ('i, 'z) grounding_evaluation"
    and check :: "repair_port option \<Rightarrow> 'i judge_port option \<Rightarrow> answer_draft \<Rightarrow> nat
      \<Rightarrow> port_error + ('i, 'z) grounding_evaluation"
    and run :: "repair_port option \<Rightarrow> 'i judge_port option \<Rightarrow> port_error + ('i, 'z) grounding_evaluation"
  assumes result_hidden: "d = None \<or> s = SafeRefusal \<or> s = ValidationError \<Longrightarrow>
      result s d n bad = Inr \<lparr>ge_status = s, ge_draft = d, ge_public = [], ge_referenced = [],
        ge_repair_count = n, ge_invalid = bad\<rparr>"
    and result_shown: "s \<noteq> SafeRefusal \<Longrightarrow> s \<noteq> ValidationError \<Longrightarrow>
      result s (Some a) n bad = bind_res (walk {} [] [] (ad_citations a)) (\<lambda>(public, referenced).
        Inr \<lparr>ge_status = s, ge_draft = Some a, ge_public = public, ge_referenced = referenced,
          ge_repair_count = n, ge_invalid = bad\<rparr>)"
    and conclude_eq: "conclude judge a n bad =
      (if bad \<noteq> [] then result SafeRefusal (Some a) n bad
       else if ad_insufficient a \<or> no_items then result InsufficientEvidence (Some a) n []
       else (case judge of
               None \<Rightarrow> result SemanticUnverified (Some a) n []
             | Some j \<Rightarrow> bind_res (any_rejected j (cited a) (ad_claims a)) (\<lambda>rejected.
                 result (if rejected then SafeRefusal else Supported) (Some a) n [])))"
    and check_eq: "check repair judge a n =
      (if invalid a \<noteq> [] \<and> repair \<noteq> None \<and> n = 0
       then bind_res (repaired (the repair) ''citation_provenance'')
              (\<lambda>r. case r of
                 None \<Rightarrow> result SafeRefusal None 1 (invalid a)
               | Some b \<Rightarrow> conclude judge b 1 (invalid b))
       else conclude judge a n (invalid a))"
    and run_eq: "run repair judge =
      (case parsed of
         Some a \<Rightarrow> check repair judge a 0
       | None \<Rightarrow>
          (case repair of
             None \<Rightarrow> result ValidationError None 0 []
           | Some ask \<Rightarrow> bind_res (repaired ask ''structured_output'')
               (\<lambda>r. case r of
                  None \<Rightarrow> result ValidationError None 1 []
                | Some a \<Rightarrow> check repair judge a 1)))"
begin

definition outcome :: "'i judge_port option \<Rightarrow> grounding_status \<Rightarrow> answer_draft option \<Rightarrow> 'z list \<Rightarrow> bool" where
  "outcome judge s d bad \<longleftrightarrow>
     (case d of
        None \<Rightarrow> s = ValidationError \<and> bad = [] \<or> s = SafeRefusal \<and> bad \<noteq> []
      | Some a \<Rightarrow> bad = invalid a
          \<and> (if bad \<noteq> [] then s = SafeRefusal
             else if ad_insufficient a \<or> no_items then s = InsufficientEvidence
             else (case judge of
                     None \<Rightarrow> s = SemanticUnverified
                   | Some j \<Rightarrow> any_rejected j (cited a) (ad_claims a) = Inr (s = SafeRefusal)
                       \<and> (s = SafeRefusal \<or> s = Supported))))"

lemma conclude_outcome:
  assumes "conclude judge a n (invalid a) = Inr e"
  shows "\<exists>s. result s (Some a) n (invalid a) = Inr e \<and> outcome judge s (Some a) (invalid a)"
  using assms unfolding outcome_def conclude_eq
  by (cases "invalid a = []"; cases "ad_insufficient a \<or> no_items"; cases judge)
     (auto simp: bind_res_Inr_iff split: if_splits)

lemma run_outcome:
  assumes "run repair judge = Inr e"
  obtains s d n bad where "result s d n bad = Inr e" "n \<le> (if repair = None then 0 else 1)"
    "outcome judge s d bad"
proof -
  note found = \<open>\<And>s d n bad. result s d n bad = Inr e \<Longrightarrow> n \<le> (if repair = None then 0 else 1)
    \<Longrightarrow> outcome judge s d bad \<Longrightarrow> thesis\<close>
  have concluded: thesis if "n \<le> (if repair = None then 0 else 1)" "conclude judge a n (invalid a) = Inr e"
    for a n
    using conclude_outcome [OF that(2)] found that(1) by blast
  have checked: thesis if checks: "check repair judge a n = Inr e"
    and n: "n \<le> (if repair = None then 0 else 1)" for a n
  proof (cases "invalid a \<noteq> [] \<and> repair \<noteq> None \<and> n = 0")
    case True
    obtain r where r: "(case r of
          None \<Rightarrow> result SafeRefusal None 1 (invalid a)
        | Some b \<Rightarrow> conclude judge b 1 (invalid b)) = Inr e"
      using checks unfolding check_eq if_P [OF True] bind_res_Inr_iff by blast
    show ?thesis
    proof (cases r)
      case None
      with r True show ?thesis
        by (intro found [of SafeRefusal None 1 "invalid a"]) (simp_all add: outcome_def)
    next
      case (Some b)
      with r True show ?thesis by (intro concluded [of 1 b]) simp_all
    qed
  next
    case False
    with checks n show ?thesis by (intro concluded [of n a]) (simp_all only: check_eq if_not_P if_False)
  qed
  show thesis
  proof (cases parsed)
    case (Some a)
    with assms checked [of a 0] show ?thesis by (simp add: run_eq)
  next
    case None
    show ?thesis
    proof (cases repair)
      case no_port: None
      with None assms found [of ValidationError None 0 "[]"] show ?thesis
        by (simp add: run_eq outcome_def)
    next
      case (Some ask)
      obtain r where r: "(case r of
          None \<Rightarrow> result ValidationError None 1 []
        | Some a \<Rightarrow> check repair judge a 1) = Inr e"
        using assms unfolding run_eq None Some option.case bind_res_Inr_iff by blast
      with found [of ValidationError None 1 "[]"] checked [of _ 1] Some show ?thesis
        by (cases r) (auto simp: outcome_def)
    qed
  qed
qed

text \<open>What an evaluation shows, by its status.\<close>

lemma result_Inr:
  assumes "result s d n bad = Inr e" "outcome judge s d bad"
  shows "ge_status e = s" "ge_draft e = d" "ge_repair_count e = n" "ge_invalid e = bad"
    and "if s = SafeRefusal \<or> s = ValidationError then ge_public e = [] \<and> ge_referenced e = []
      else (\<exists>a. d = Some a \<and> invalid a = []
              \<and> walk {} [] [] (ad_citations a) = Inr (ge_public e, ge_referenced e))"
proof -
  have "ge_status e = s \<and> ge_draft e = d \<and> ge_repair_count e = n \<and> ge_invalid e = bad
    \<and> (if s = SafeRefusal \<or> s = ValidationError then ge_public e = [] \<and> ge_referenced e = []
      else (\<exists>a. d = Some a \<and> invalid a = []
              \<and> walk {} [] [] (ad_citations a) = Inr (ge_public e, ge_referenced e)))"
  proof (cases "s = SafeRefusal \<or> s = ValidationError")
    case True
    with assms(1) result_hidden [of d s n bad] show ?thesis by auto
  next
    case False
    with assms(2) obtain a where a: "d = Some a" "bad = invalid a" "invalid a = []"
      by (cases d) (auto simp: outcome_def split: if_splits)
    with False assms(1) show ?thesis
      by (auto simp: result_shown bind_res_Inr_iff)
  qed
  then show "ge_status e = s" "ge_draft e = d" "ge_repair_count e = n" "ge_invalid e = bad"
    "if s = SafeRefusal \<or> s = ValidationError then ge_public e = [] \<and> ge_referenced e = []
      else (\<exists>a. d = Some a \<and> invalid a = []
              \<and> walk {} [] [] (ad_citations a) = Inr (ge_public e, ge_referenced e))"
    by blast+
qed

lemma published:
  assumes "run repair judge = Inr e"
  shows "\<forall>i \<in> set (ge_referenced e). \<exists>k. item_of k = Some i \<and> backed k i"
    and "cite_all 1 (ge_referenced e) = Inr (ge_public e)"
    and "if ge_status e = SafeRefusal \<or> ge_status e = ValidationError then ge_public e = []
      else (\<exists>a. ge_draft e = Some a \<and> invalid a = []
        \<and> map item_of (fromkeys (map (the \<circ> ref_key) (ad_citations a))) = map Some (ge_referenced e))"
proof -
  from assms obtain s d n bad where r: "result s d n bad = Inr e" "outcome judge s d bad"
    by (rule run_outcome)
  note e = result_Inr [OF r]
  have "(\<forall>i \<in> set (ge_referenced e). \<exists>k. item_of k = Some i \<and> backed k i)
      \<and> cite_all 1 (ge_referenced e) = Inr (ge_public e)
      \<and> (if s = SafeRefusal \<or> s = ValidationError then ge_public e = []
         else (\<exists>a. ge_draft e = Some a \<and> invalid a = []
           \<and> map item_of (fromkeys (map (the \<circ> ref_key) (ad_citations a))) = map Some (ge_referenced e)))"
  proof (cases "s = SafeRefusal \<or> s = ValidationError")
    case True
    with e(5) show ?thesis by (simp add: cite_all_def)
  next
    case False
    with e(5) obtain a where a: "d = Some a" "invalid a = []"
      "walk {} [] [] (ad_citations a) = Inr (ge_public e, ge_referenced e)" by auto
    from False a(1,2) walk_clean [OF a(3,2)] walk_result(2) [OF a(3)] e(2) show ?thesis by simp
  qed
  then show "\<forall>i \<in> set (ge_referenced e). \<exists>k. item_of k = Some i \<and> backed k i"
    "cite_all 1 (ge_referenced e) = Inr (ge_public e)"
    "if ge_status e = SafeRefusal \<or> ge_status e = ValidationError then ge_public e = []
      else (\<exists>a. ge_draft e = Some a \<and> invalid a = []
        \<and> map item_of (fromkeys (map (the \<circ> ref_key) (ad_citations a))) = map Some (ge_referenced e))"
    unfolding e(1) by blast+
qed

lemma supported:
  assumes "run repair judge = Inr e" "ge_status e = Supported"
  shows "\<exists>a j. ge_draft e = Some a \<and> judge = Some j \<and> \<not> ad_insufficient a \<and> \<not> no_items
    \<and> any_rejected j (cited a) (ad_claims a) = Inr False"
proof -
  from assms(1) obtain s d n bad where r: "result s d n bad = Inr e" "outcome judge s d bad"
    by (rule run_outcome)
  note e = result_Inr [OF r]
  from assms(2) e(1) have "s = Supported" by simp
  with r(2) e(2) show ?thesis
    by (cases d; cases judge) (auto simp: outcome_def split: if_splits)
qed

lemma repair_bound:
  assumes "run repair judge = Inr e"
  shows "ge_repair_count e \<le> (if repair = None then 0 else 1)"
  using assms by (rule run_outcome) (metis result_Inr(3))

text \<open>With ports that answer and citable items the pipeline returns.\<close>

lemma any_rejected_ok:
  "\<forall>c \<in> set cs. is_ok (j c xs) \<Longrightarrow> is_ok (any_rejected j xs cs)"
proof (induction cs)
  case (Cons c cs)
  then show ?case by (cases "j c xs") auto
qed simp

lemma result_returns:
  assumes "\<And>n k i. item_of k = Some i \<Longrightarrow> is_ok (cite n i)"
  shows "is_ok (result s (Some a) n bad)"
proof (cases "s = SafeRefusal \<or> s = ValidationError")
  case True
  with result_hidden [of "Some a" s n bad] show ?thesis by auto
next
  case False
  have "is_ok (cite_all 1 (resolved ks))" for ks
    unfolding cite_all_def
  proof (rule traverse_is_ok, clarify)
    fix m i assume "(m, i) \<in> set (enumerate_from 1 (resolved ks))"
    then have "i \<in> set (resolved ks)"
      using map_snd_enumerate_from [of 1 "resolved ks"] by (metis image_eqI list.set_map snd_conv)
    then obtain k where "item_of k = Some i" by (auto simp: resolved_def)
    then show "is_ok (cite m i)" by (rule assms)
  qed
  then obtain ps where "cite_all 1 (resolved (fromkeys (keys (ad_citations a)))) = Inr ps"
    by (auto simp: is_ok_iff)
  with False show ?thesis by (simp add: result_shown walk_from Let_def fromkeys_def)
qed

lemma run_returns:
  assumes "\<And>ask kind. repair = Some ask \<Longrightarrow> is_ok (repaired ask kind)"
    and "\<And>j c xs. judge = Some j \<Longrightarrow> is_ok (j c xs)"
    and "\<And>n k i. item_of k = Some i \<Longrightarrow> is_ok (cite n i)"
  shows "is_ok (run repair judge)"
proof -
  note shown = result_returns [OF assms(3)]
  have hidden: "is_ok (result s None n bad)" for s n bad using result_hidden [of None] by simp
  have conclude: "is_ok (conclude judge a n bad)" for a n bad
  proof (cases judge)
    case (Some j)
    then have "is_ok (any_rejected j (cited a) (ad_claims a))"
      using assms(2) by (intro any_rejected_ok) blast
    then obtain b where "any_rejected j (cited a) (ad_claims a) = Inr b" by (auto simp: is_ok_iff)
    with Some shown show ?thesis by (simp add: conclude_eq)
  qed (simp add: conclude_eq shown)
  have check: "is_ok (check repair judge a n)" for a n
  proof (cases repair)
    case (Some ask)
    obtain r where "repaired ask ''citation_provenance'' = Inr r"
      using assms(1) [OF Some] by (auto simp: is_ok_iff)
    with Some conclude hidden show ?thesis by (cases r) (simp_all add: check_eq)
  qed (simp add: check_eq conclude)
  show ?thesis
  proof (cases repair)
    case (Some ask)
    obtain r where "repaired ask ''structured_output'' = Inr r"
      using assms(1) [OF Some] by (auto simp: is_ok_iff)
    with Some check hidden show ?thesis by (cases parsed; cases r) (simp_all add: run_eq)
  next
    case None
    with check hidden show ?thesis by (cases parsed) (auto simp: run_eq)
  qed
qed

end

lemma any_rejected_False:
  "any_rejected j cited cs = Inr False \<Longrightarrow> \<forall>c \<in> set cs. j c cited = Inr True"
  by (induction cs) (auto simp: bind_res_Inr_iff split: if_splits)

definition draft_of :: "'e + answer_draft \<Rightarrow> answer_draft option" where
  "draft_of r = (case r of Inl _ \<Rightarrow> None | Inr d \<Rightarrow> Some d)"

interpretation evidence_pipeline: grounding_pipeline
  "evidence_citations str (evidence_by_id evidence)" cr_evidence_id "evidence_by_id evidence"
  "cite_evidence str" "\<lambda>d. invalid_evidence_citations sha256 d evidence snapshot"
  "evidence_backed sha256 evidence snapshot" "\<lambda>s d n bad. evidence_result str s d evidence n bad"
  "\<lambda>a. cited_evidence a evidence" "evidence = []" "draft_of (parse rd raw)"
  "\<lambda>ask kind. parse_repaired rd ask (evidence_repair_prompt question kind snapshot)"
  "\<lambda>judge a n bad. conclude_evidence str judge a evidence n bad"
  "check_evidence rd sha256 str question evidence snapshot"
  "evaluate_evidence rd sha256 str raw question evidence snapshot"
  for str evidence sha256 snapshot rd raw question
proof
  fix s d n bad a repair judge
  show "evidence_result str s d evidence n bad = Inr \<lparr>ge_status = s, ge_draft = d, ge_public = [],
      ge_referenced = [], ge_repair_count = n, ge_invalid = bad\<rparr>"
    if "d = None \<or> s = SafeRefusal \<or> s = ValidationError"
    using that by (cases d) (auto simp: evidence_result_def)
  show "evidence_result str s (Some a) evidence n bad
      = bind_res (evidence_citations str (evidence_by_id evidence) {} [] [] (ad_citations a)) (\<lambda>(public, referenced).
          Inr \<lparr>ge_status = s, ge_draft = Some a, ge_public = public, ge_referenced = referenced,
            ge_repair_count = n, ge_invalid = bad\<rparr>)"
    if "s \<noteq> SafeRefusal" "s \<noteq> ValidationError"
    using that by (simp add: evidence_result_def)
qed (simp_all add: conclude_evidence_def check_evidence_def evaluate_evidence_def draft_of_def Let_def
       split: sum.split)

interpretation chunk_pipeline: grounding_pipeline
  "chunk_citations str (chunk_map chunks)" "\<lambda>r. Some (chunk_ref r)" "chunk_map chunks" "cite_chunk str"
  "\<lambda>d. invalid_chunk_citations sha256 d chunks snapshot" "chunk_backed sha256 chunks snapshot"
  "\<lambda>s d n bad. chunk_result str s d chunks n bad"
  "\<lambda>a. cited_chunks a chunks" "chunks = []" "draft_of (parse rd raw)"
  "\<lambda>ask kind. parse_repaired rd ask (chunk_repair_prompt question raw kind)"
  "\<lambda>judge a n bad. conclude_chunks str judge a chunks n bad"
  "check_chunks rd sha256 str raw question chunks snapshot"
  "evaluate_chunks rd sha256 str raw question chunks snapshot"
  for str chunks sha256 snapshot rd raw question
proof
  fix s d n bad a repair judge
  show "chunk_result str s d chunks n bad = Inr \<lparr>ge_status = s, ge_draft = d, ge_public = [],
      ge_referenced = [], ge_repair_count = n, ge_invalid = bad\<rparr>"
    if "d = None \<or> s = SafeRefusal \<or> s = ValidationError"
    using that by (cases d) (auto simp: chunk_result_def)
  show "chunk_result str s (Some a) chunks n bad
      = bind_res (chunk_citations str (chunk_map chunks) {} [] [] (ad_citations a)) (\<lambda>(public, referenced).
          Inr \<lparr>ge_status = s, ge_draft = Some a, ge_public = public, ge_referenced = referenced,
            ge_repair_count = n, ge_invalid = bad\<rparr>)"
    if "s \<noteq> SafeRefusal" "s \<noteq> ValidationError"
    using that by (simp add: chunk_result_def)
qed (simp_all add: conclude_chunks_def check_chunks_def evaluate_chunks_def draft_of_def Let_def
       split: sum.split)

subsection \<open>Properties\<close>

lemma evidence_keys:
  "map (evidence_by_id es) ks = map Some items \<Longrightarrow> ks = map ev_id items"
proof (induction ks arbitrary: items)
  case (Cons k ks)
  then show ?case by (cases items) (auto dest: evidence_by_id_Some)
qed simp

lemma chunk_keys:
  "map (chunk_map cs) ks = map Some items \<Longrightarrow> ks = map chunk_key_of items"
proof (induction ks arbitrary: items)
  case (Cons k ks)
  then show ?case by (cases items) (auto dest: chunk_map_Some)
qed simp

text \<open>The repair port is asked with one prompt at most: what it would answer to any other prompt does
  not matter, and nothing it would answer matters when the count of repairs is zero.\<close>

definition asks_once :: "(repair_port \<Rightarrow> port_error + ('i, 'z) grounding_evaluation) \<Rightarrow> repair_port \<Rightarrow> nat \<Rightarrow> bool" where
  "asks_once evaluate asked n \<longleftrightarrow>
     (\<exists>prompt. \<forall>ask. (0 < n \<longrightarrow> ask prompt = asked prompt) \<longrightarrow> evaluate ask = evaluate asked)"

lemma asks_onceI: "(\<And>ask. (0 < n \<longrightarrow> ask prompt = asked prompt) \<Longrightarrow> evaluate ask = evaluate asked) \<Longrightarrow> asks_once evaluate asked n"
  unfolding asks_once_def by blast

lemma parse_repaired_cong: "ask prompt = ask' prompt \<Longrightarrow> parse_repaired rd ask prompt = parse_repaired rd ask' prompt"
  by (simp add: parse_repaired_def)

lemma evidence_result_count: "evidence_result str status draft evidence n invalid = Inr e \<Longrightarrow> ge_repair_count e = n"
  by (auto simp: evidence_result_def bind_res_Inr_iff split: option.splits if_splits)

lemma conclude_evidence_count: "conclude_evidence str judge d evidence n invalid = Inr e \<Longrightarrow> ge_repair_count e = n"
  by (auto simp: conclude_evidence_def bind_res_Inr_iff split: option.splits if_splits dest: evidence_result_count)

lemma evidence_asks_once:
  assumes "evaluate_evidence rd sha256 str raw question evidence snapshot (Some asked) judge = Inr e"
  shows "asks_once (\<lambda>ask. evaluate_evidence rd sha256 str raw question evidence snapshot (Some ask) judge) asked (ge_repair_count e)"
proof (cases "parse rd raw")
  case (Inr d)
  let ?p = "evidence_repair_prompt question ''citation_provenance'' snapshot"
  show ?thesis
  proof (rule asks_onceI [where prompt = ?p])
    fix ask assume a: "0 < ge_repair_count e \<longrightarrow> ask ?p = asked ?p"
    show "evaluate_evidence rd sha256 str raw question evidence snapshot (Some ask) judge
      = evaluate_evidence rd sha256 str raw question evidence snapshot (Some asked) judge"
    proof (cases "invalid_evidence_citations sha256 d evidence snapshot = []")
      case True
      with Inr show ?thesis by (simp add: evaluate_evidence_def check_evidence_def)
    next
      case False
      with assms Inr obtain r where "parse_repaired rd asked ?p = Inr r"
        and "(case r of None \<Rightarrow> evidence_result str SafeRefusal None evidence (Suc 0) (invalid_evidence_citations sha256 d evidence snapshot)
           | Some d' \<Rightarrow> conclude_evidence str judge d' evidence (Suc 0) (invalid_evidence_citations sha256 d' evidence snapshot)) = Inr e"
        by (auto simp: evaluate_evidence_def check_evidence_def bind_res_Inr_iff)
      then have "ge_repair_count e = 1"
        by (auto split: option.splits dest: evidence_result_count conclude_evidence_count)
      with a have "parse_repaired rd ask ?p = parse_repaired rd asked ?p" by (intro parse_repaired_cong) simp
      with Inr False show ?thesis by (simp add: evaluate_evidence_def check_evidence_def)
    qed
  qed
next
  case (Inl x)
  let ?p = "evidence_repair_prompt question ''structured_output'' snapshot"
  from assms Inl obtain r where "parse_repaired rd asked ?p = Inr r"
    and r: "(case r of None \<Rightarrow> evidence_result str ValidationError None evidence (Suc 0) []
       | Some d \<Rightarrow> check_evidence rd sha256 str question evidence snapshot (Some asked) judge d (Suc 0)) = Inr e"
    by (auto simp: evaluate_evidence_def bind_res_Inr_iff)
  then have n: "ge_repair_count e = 1"
    by (auto simp: check_evidence_def split: option.splits dest: evidence_result_count conclude_evidence_count)
  show ?thesis
  proof (rule asks_onceI [where prompt = ?p])
    fix ask assume "0 < ge_repair_count e \<longrightarrow> ask ?p = asked ?p"
    with n have "parse_repaired rd ask ?p = parse_repaired rd asked ?p" by (intro parse_repaired_cong) simp
    moreover have "check_evidence rd sha256 str question evidence snapshot (Some ask) judge d 1
      = check_evidence rd sha256 str question evidence snapshot (Some asked) judge d 1" for d
      by (simp add: check_evidence_def)
    ultimately show "evaluate_evidence rd sha256 str raw question evidence snapshot (Some ask) judge
      = evaluate_evidence rd sha256 str raw question evidence snapshot (Some asked) judge"
      using Inl by (simp add: evaluate_evidence_def cong: option.case_cong)
  qed
qed

text \<open>C11. What the user sees of an answer is backed by evidence: every published citation is built
  from an evidence item whose id is in the run's snapshot with the hash of the content it has
  now, in the order of the draft's citations and numbered from one. A refusal or a validation
  error publishes nothing; any other outcome publishes every distinct citation of the draft, none
  dropped. The model is asked for at most one repair, and the count says so: without a repair port it
  is zero, otherwise zero or one, the outcome depends on the answer to a single prompt, and on no
  answer at all when the count is zero.\<close>

theorem evidence_grounding_safe:
  assumes "evaluate_evidence rd sha256 str raw question evidence snapshot repair judge = Inr e"
  shows "(\<forall>i \<in> set (ge_referenced e). evidence_backed sha256 evidence snapshot (ev_id i) i)
    \<and> traverse (\<lambda>(n, i). cite_evidence str n i) (enumerate_from 1 (ge_referenced e)) = Inr (ge_public e)
    \<and> (if ge_status e = SafeRefusal \<or> ge_status e = ValidationError then ge_public e = []
       else (\<exists>a. ge_draft e = Some a \<and> map ev_id (ge_referenced e)
               = fromkeys (map (the \<circ> cr_evidence_id) (ad_citations a))))
    \<and> ge_repair_count e \<le> (if repair = None then 0 else 1)
    \<and> (\<forall>asked \<in> set_option repair. asks_once
          (\<lambda>ask. evaluate_evidence rd sha256 str raw question evidence snapshot (Some ask) judge) asked (ge_repair_count e))"
proof (intro conjI)
  show "\<forall>i \<in> set (ge_referenced e). evidence_backed sha256 evidence snapshot (ev_id i) i"
    using evidence_pipeline.published(1) [OF assms] by (auto simp: evidence_backed_def)
  show "traverse (\<lambda>(n, i). cite_evidence str n i) (enumerate_from 1 (ge_referenced e)) = Inr (ge_public e)"
    by (rule evidence_pipeline.published(2) [OF assms, unfolded evidence_walk.cite_all_def])
  show "if ge_status e = SafeRefusal \<or> ge_status e = ValidationError then ge_public e = []
       else (\<exists>a. ge_draft e = Some a \<and> map ev_id (ge_referenced e)
               = fromkeys (map (the \<circ> cr_evidence_id) (ad_citations a)))"
    using evidence_pipeline.published(3) [OF assms] by (auto dest: evidence_keys split: if_splits)
  show "ge_repair_count e \<le> (if repair = None then 0 else 1)"
    by (rule evidence_pipeline.repair_bound [OF assms])
  show "\<forall>asked \<in> set_option repair. asks_once
      (\<lambda>ask. evaluate_evidence rd sha256 str raw question evidence snapshot (Some ask) judge) asked (ge_repair_count e)"
    using assms evidence_asks_once by auto
qed

text \<open>The same guarantee for the pipeline over retrieved chunks: a published citation names a
  chunk of the run whose chunk id, document id and content hash are together in the snapshot.\<close>

theorem chunk_grounding_safe:
  assumes "evaluate_chunks rd sha256 str raw question chunks snapshot repair judge = Inr e"
  shows "(\<forall>c \<in> set (ge_referenced e). chunk_backed sha256 chunks snapshot (chunk_key_of c) c)
    \<and> traverse (\<lambda>(n, c). cite_chunk str n c) (enumerate_from 1 (ge_referenced e)) = Inr (ge_public e)
    \<and> (if ge_status e = SafeRefusal \<or> ge_status e = ValidationError then ge_public e = []
       else (\<exists>a. ge_draft e = Some a
               \<and> map chunk_key_of (ge_referenced e) = fromkeys (map chunk_ref (ad_citations a))))
    \<and> ge_repair_count e \<le> (if repair = None then 0 else 1)"
proof (intro conjI)
  show "\<forall>c \<in> set (ge_referenced e). chunk_backed sha256 chunks snapshot (chunk_key_of c) c"
    using chunk_pipeline.published(1) [OF assms] by (auto simp: chunk_backed_def)
  show "traverse (\<lambda>(n, c). cite_chunk str n c) (enumerate_from 1 (ge_referenced e)) = Inr (ge_public e)"
    by (rule chunk_pipeline.published(2) [OF assms, unfolded chunk_walk.cite_all_def])
  show "if ge_status e = SafeRefusal \<or> ge_status e = ValidationError then ge_public e = []
       else (\<exists>a. ge_draft e = Some a
               \<and> map chunk_key_of (ge_referenced e) = fromkeys (map chunk_ref (ad_citations a)))"
    using chunk_pipeline.published(3) [OF assms] by (auto simp: o_def dest: chunk_keys split: if_splits)
  show "ge_repair_count e \<le> (if repair = None then 0 else 1)"
    by (rule chunk_pipeline.repair_bound [OF assms])
qed

text \<open>An answer is reported as supported only when there is evidence, the model did not declare
  it insufficient, the judge exists and accepted every claim on the evidence the claims cite, and
  each claim cites only evidence that the answer lists.\<close>

theorem evidence_grounding_supported:
  assumes "evaluate_evidence rd sha256 str raw question evidence snapshot repair judge = Inr e"
    and "ge_status e = Supported"
  shows "\<exists>a j. ge_draft e = Some a \<and> judge = Some j \<and> evidence \<noteq> [] \<and> \<not> ad_insufficient a
    \<and> (\<forall>c \<in> set (ad_claims a). j c (cited_evidence a evidence) = Inr True)
    \<and> (\<forall>r \<in> set (claim_refs a). cr_evidence_id r \<in> Some ` ev_id ` set (ge_referenced e))"
proof -
  from evidence_pipeline.supported [OF assms] obtain a j where a: "ge_draft e = Some a" "judge = Some j"
    "\<not> ad_insufficient a" "evidence \<noteq> []"
    "any_rejected j (cited_evidence a evidence) (ad_claims a) = Inr False" by blast
  from evidence_pipeline.published(3) [OF assms(1)] assms(2) a(1)
  have clean: "invalid_evidence_citations sha256 a evidence snapshot = []"
    and ids: "map ev_id (ge_referenced e) = fromkeys (map (the \<circ> cr_evidence_id) (ad_citations a))"
    by (auto dest: evidence_keys)
  have "cr_evidence_id r \<in> Some ` ev_id ` set (ge_referenced e)" if r: "r \<in> set (claim_refs a)" for r
  proof -
    have "cr_evidence_id r \<noteq> None \<and> cr_evidence_id r \<in> set (map cr_evidence_id (ad_citations a))"
      using clean r by (auto simp: invalid_evidence_citations_def Let_def filter_empty_conv)
    then obtain r' i where "r' \<in> set (ad_citations a)" "cr_evidence_id r' = Some i" "cr_evidence_id r = Some i"
      by (metis (no_types, lifting) imageE list.set_map not_None_eq)
    moreover from this have "i \<in> set (map ev_id (ge_referenced e))"
      unfolding ids by (force simp: image_iff)
    ultimately show ?thesis by auto
  qed
  with a any_rejected_False [OF a(5)] show ?thesis by blast
qed

lemma cite_ok:
  "pc_source_type c \<noteq> [] \<Longrightarrow> pc_id c \<noteq> [] \<Longrightarrow> length (pc_excerpt c) \<le> 500 \<Longrightarrow> is_ok (make_citation c)"
  by (simp add: make_citation_def Suc_le_eq)

text \<open>The pipelines do not raise on their own: with a repair port that answers, or fails with a
  value or type error, and a judge that answers, both return an evaluation for every reply of the
  model, malformed ones included, as long as no item of the run carries an empty source type in
  its metadata (the citation of such an item fails its validation outside the \<open>except\<close> clauses).\<close>

theorem grounding_returns:
  assumes "\<And>ask p e. repair = Some ask \<Longrightarrow> ask p = Inl e \<Longrightarrow> instance_of e [''ValueError'', ''TypeError'']"
    and "\<And>j c xs. judge = Some j \<Longrightarrow> is_ok (j c xs)"
    and "\<And>j c xs. chunk_judge = Some j \<Longrightarrow> is_ok (j c xs)"
    and "\<forall>i \<in> set evidence. str_or (ev_metadata i) ''source_type'' (lit ''unknown'') str \<noteq> []"
    and "\<forall>c \<in> set chunks. str_or (rch_metadata c) ''source_type'' (lit ''unknown'') str \<noteq> []"
  shows "is_ok (evaluate_evidence rd sha256 str raw question evidence snapshot repair judge)
       \<and> is_ok (evaluate_chunks rd sha256 str raw question chunks chunk_snapshot repair chunk_judge)"
proof -
  have ports: "is_ok (parse_repaired rd ask p)" if "repair = Some ask" for ask p
    using assms(1) [OF that]
    by (cases "ask p") (auto simp: parse_repaired_def split: sum.splits)
  have tool: "lit ''tool'' \<noteq> []" by (simp add: lit_def)
  have items: "is_ok (cite_evidence str n i)" if "evidence_by_id evidence k = Some i" for n k i
    using evidence_by_id_Some [OF that] assms(4) tool
    by (auto simp: cite_evidence_def intro!: cite_ok)
  have cited: "is_ok (cite_chunk str n c)" if "chunk_map chunks k = Some c" for n k c
    using chunk_map_Some [OF that] assms(5)
    by (auto simp: cite_chunk_def intro!: cite_ok)
  show ?thesis
    by (intro conjI evidence_pipeline.run_returns chunk_pipeline.run_returns ports items cited
        assms(2,3))
qed

subsection \<open>A run\<close>

definition sample_reader :: answer_reader where
  "sample_reader =
     \<lparr>rd_json_loads = (\<lambda>_. Some (JDict
        [(lit ''answer'', JStr (lit ''a'')),
         (lit ''claims'', JList [JDict [(lit ''claim_id'', JStr (lit ''k'')), (lit ''text'', JStr (lit ''t'')),
            (lit ''citation_refs'', JList [JDict [(lit ''evidence_id'', JStr (lit ''e1''))]])]]),
         (lit ''citations'', JList [JDict [(lit ''evidence_id'', JStr (lit ''e1''))]])])),
      rd_lower = id\<rparr>"

definition sample_ref :: citation_ref where
  "sample_ref = \<lparr>cr_evidence_id = Some (lit ''e1''), cr_chunk_id = None, cr_document_id = None\<rparr>"

definition sample_draft :: answer_draft where
  "sample_draft = \<lparr>ad_answer = lit ''a'',
     ad_claims = [\<lparr>gc_claim_id = lit ''k'', gc_text = lit ''t'', gc_refs = [sample_ref]\<rparr>],
     ad_citations = [sample_ref], ad_insufficient = False, ad_missing = []\<rparr>"

lemma sample_parse: "parse sample_reader raw = Inr sample_draft"
  by (simp add: parse_def sample_reader_def draft_of_json_def keys_within_def str_field_def
      list_field_def claim_of_json_def ref_of_json_def opt_str_field_def bool_field_def
      validate_provenance_mode_def require_def sample_draft_def sample_ref_def)
     (simp add: lit_def)?

definition sample_snapshot :: evidence_snapshot where
  "sample_snapshot = build_evidence_snapshot [] [] [] [sample_item (lit ''e1'') ''h'']"

definition accept :: "'i judge_port" where
  "accept c xs = Inr True"

definition sample_citation :: public_citation where
  "sample_citation = \<lparr>pc_id = ''c'' @ str_of_nat 1, pc_title = None, pc_source_type = lit ''tool'',
     pc_excerpt = lit ''text'', pc_label = lit ''l'', pc_source_title = None, pc_source_url = None\<rparr>"

lemma sample_run:
  "evaluate_evidence sample_reader (\<lambda>_. ''h'') (\<lambda>_. []) [] [] [sample_item (lit ''e1'') ''h'']
     sample_snapshot None (Some accept)
   = Inr \<lparr>ge_status = Supported, ge_draft = Some sample_draft,
      ge_public = [sample_citation],
      ge_referenced = [sample_item (lit ''e1'') ''h''], ge_repair_count = 0, ge_invalid = []\<rparr>"
proof -
  have ids: "evidence_by_id [sample_item (lit ''e1'') ''h''] (lit ''e1'') = Some (sample_item (lit ''e1'') ''h'')"
    by (simp add: evidence_by_id_def sample_item_def)
  have clean: "invalid_evidence_citations (\<lambda>_. ''h'') sample_draft [sample_item (lit ''e1'') ''h'']
      sample_snapshot = []"
    by (simp add: invalid_evidence_citations_def Let_def sample_draft_def sample_ref_def claim_refs_def
        sample_snapshot_def build_evidence_snapshot_def snapshot_hashes_def ids content_hash_def)
       (simp add: sample_item_def)
  have cite: "cite_evidence (\<lambda>_. []) (Suc 0) (sample_item (lit ''e1'') ''h'') = Inr sample_citation"
    by (simp add: cite_evidence_def make_citation_def sample_item_def sample_citation_def) (simp add: lit_def)?
  have walk: "evidence_citations (\<lambda>_. []) (evidence_by_id [sample_item (lit ''e1'') ''h'']) {} [] []
      (ad_citations sample_draft)
    = Inr ([sample_citation], [sample_item (lit ''e1'') ''h''])"
    by (simp add: sample_draft_def sample_ref_def ids cite)
  have "any_rejected accept xs cs = Inr False" for xs :: "evidence_item list" and cs
    by (induction cs) (simp_all add: accept_def)
  then show ?thesis
    by (simp add: evaluate_evidence_def sample_parse check_evidence_def clean conclude_evidence_def
        evidence_result_def walk Let_def) (simp add: sample_draft_def)
qed

lemma evidence_grounding_safe_witness:
  "evidence_backed (\<lambda>_. ''h'') [sample_item (lit ''e1'') ''h''] sample_snapshot (lit ''e1'')
     (sample_item (lit ''e1'') ''h'')"
  using conjunct1 [OF evidence_grounding_safe [OF sample_run]] by (simp add: sample_item_def)

lemma evidence_grounding_supported_witness:
  "\<exists>a j. Some sample_draft = Some a \<and> Some accept = Some j
     \<and> (\<forall>r \<in> set (claim_refs a). cr_evidence_id r \<in> Some ` ev_id ` set [sample_item (lit ''e1'') ''h''])"
  using evidence_grounding_supported [OF sample_run] by force

definition sample_chunk :: retrieved_chunk where
  "sample_chunk = \<lparr>rch_chunk_id = lit ''c'', rch_document_id = lit ''d'', rch_content = lit ''text'',
     rch_label = lit ''l'', rch_title = None, rch_url = None, rch_trusted = 3, rch_metadata = []\<rparr>"

definition chunk_reader :: answer_reader where
  "chunk_reader = \<lparr>rd_json_loads = (\<lambda>_. Some (JDict
        [(lit ''answer'', JStr (lit ''a'')),
         (lit ''citations'', JList [JDict [(lit ''chunk_id'', JStr (lit ''c'')),
            (lit ''document_id'', JStr (lit ''d''))]])])), rd_lower = id\<rparr>"

definition chunk_draft :: answer_draft where
  "chunk_draft = \<lparr>ad_answer = lit ''a'', ad_claims = [],
     ad_citations = [\<lparr>cr_evidence_id = None, cr_chunk_id = Some (lit ''c''), cr_document_id = Some (lit ''d'')\<rparr>],
     ad_insufficient = False, ad_missing = []\<rparr>"

lemma chunk_parse: "parse chunk_reader raw = Inr chunk_draft"
  by (simp add: parse_def chunk_reader_def draft_of_json_def keys_within_def str_field_def
      list_field_def ref_of_json_def opt_str_field_def bool_field_def
      validate_provenance_mode_def require_def chunk_draft_def)
     (simp add: lit_def)?

lemma chunk_run:
  "evaluate_chunks chunk_reader (\<lambda>_. ''h'') (\<lambda>_. []) [] [] [sample_chunk]
     (build_retrieval_snapshot (\<lambda>_. ''h'') (\<lambda>_. []) [] [] [] [sample_chunk]) None None
   = Inr \<lparr>ge_status = SemanticUnverified, ge_draft = Some chunk_draft,
      ge_public = [sample_citation\<lparr>pc_source_type := lit ''unknown''\<rparr>], ge_referenced = [sample_chunk],
      ge_repair_count = 0, ge_invalid = []\<rparr>"
proof -
  have found: "chunk_map [sample_chunk] (Some (lit ''c''), Some (lit ''d'')) = Some sample_chunk"
    by (simp add: chunk_map_def chunk_key_of_def sample_chunk_def)
  have clean: "invalid_chunk_citations (\<lambda>_. ''h'') chunk_draft [sample_chunk]
      (build_retrieval_snapshot (\<lambda>_. ''h'') (\<lambda>_. []) [] [] [] [sample_chunk]) = []"
    by (simp add: invalid_chunk_citations_def Let_def chunk_draft_def claim_refs_def chunk_ref_def
        build_retrieval_snapshot_def found content_hash_def)
       (simp add: sample_chunk_def)
  have "ad_citations chunk_draft
      = [\<lparr>cr_evidence_id = None, cr_chunk_id = Some (lit ''c''), cr_document_id = Some (lit ''d'')\<rparr>]"
    by (simp add: chunk_draft_def)
  moreover have cite: "cite_chunk (\<lambda>_. []) (Suc 0) sample_chunk
      = Inr (sample_citation\<lparr>pc_source_type := lit ''unknown''\<rparr>)"
    by (simp add: cite_chunk_def make_citation_def sample_chunk_def str_or_def
        sample_citation_def) (simp add: lit_def)?
  ultimately have walk: "chunk_citations (\<lambda>_. []) (chunk_map [sample_chunk]) {} [] [] (ad_citations chunk_draft)
      = Inr ([sample_citation\<lparr>pc_source_type := lit ''unknown''\<rparr>], [sample_chunk])"
    by (simp add: chunk_ref_def found cite)
  show ?thesis
    by (simp add: evaluate_chunks_def chunk_parse check_chunks_def clean conclude_chunks_def
        chunk_result_def walk Let_def) (simp add: chunk_draft_def)
qed

lemma chunk_grounding_safe_witness:
  "chunk_backed (\<lambda>_. ''h'') [sample_chunk]
     (build_retrieval_snapshot (\<lambda>_. ''h'') (\<lambda>_. []) [] [] [] [sample_chunk])
     (chunk_key_of sample_chunk) sample_chunk"
  using conjunct1 [OF chunk_grounding_safe [OF chunk_run]] by simp

lemma grounding_returns_witness:
  "is_ok (evaluate_evidence sample_reader (\<lambda>_. ''h'') (\<lambda>_. []) [] [] [sample_item (lit ''e1'') ''h'']
      sample_snapshot (Some (\<lambda>_. Inl (PortError ''ValueError'' []))) (Some accept))
   \<and> is_ok (evaluate_chunks sample_reader (\<lambda>_. ''h'') (\<lambda>_. []) [] [] []
      (build_retrieval_snapshot (\<lambda>_. ''h'') (\<lambda>_. []) [] [] [] []) (Some (\<lambda>_. Inl (PortError ''ValueError'' [])))
      None)"
proof (rule grounding_returns)
  show "instance_of e [''ValueError'', ''TypeError'']"
    if "Some (\<lambda>_. Inl (PortError ''ValueError'' [])) = Some ask" "ask p = Inl e" for ask :: repair_port and p e
  proof -
    from that(1) have "ask = (\<lambda>_. Inl (PortError ''ValueError'' []))" by (metis option.inject)
    with that(2) have "e = PortError ''ValueError'' []" by simp
    then show ?thesis by (simp add: instance_of_def)
  qed
  show "is_ok (j c xs)" if "Some accept = Some j" for j :: "evidence_item judge_port" and c xs
    using that by (auto simp: accept_def)
qed (simp_all add: str_or_def sample_item_def lit_def)

definition untyped_item :: evidence_item where
  "untyped_item = (sample_item (lit ''e1'') ''h'')
     \<lparr>ev_source := SrcRag, ev_metadata := [(lit ''source_type'', JStr [])]\<rparr>"

text \<open>An item whose metadata names the empty source type does raise: the evaluation of an answer
  that cites it ends in a ValidationError instead of an evaluation, where the other malformed
  inputs end in a status.\<close>

lemma empty_source_type_raises:
  "evaluate_evidence sample_reader (\<lambda>_. ''h'') (\<lambda>v. case v of JStr s \<Rightarrow> s | _ \<Rightarrow> []) [] [] [untyped_item]
     (build_evidence_snapshot [] [] [] [untyped_item]) None None
   = Inl (PortError ''ValidationError'' [''ValueError''])"
proof -
  have ids: "evidence_by_id [untyped_item] (lit ''e1'') = Some untyped_item"
    by (simp add: evidence_by_id_def untyped_item_def sample_item_def)
  have clean: "invalid_evidence_citations (\<lambda>_. ''h'') sample_draft [untyped_item]
      (build_evidence_snapshot [] [] [] [untyped_item]) = []"
    by (simp add: invalid_evidence_citations_def Let_def sample_draft_def sample_ref_def claim_refs_def
        build_evidence_snapshot_def snapshot_hashes_def ids content_hash_def)
       (simp add: untyped_item_def sample_item_def)
  have cite: "cite_evidence (\<lambda>v. case v of JStr s \<Rightarrow> s | _ \<Rightarrow> []) (Suc 0) untyped_item
      = Inl (PortError ''ValidationError'' [''ValueError''])"
    by (simp add: cite_evidence_def make_citation_def untyped_item_def sample_item_def str_or_def)
  have "ad_citations sample_draft = [sample_ref]" "cr_evidence_id sample_ref = Some (lit ''e1'')"
    "\<not> ad_insufficient sample_draft"
    by (simp_all add: sample_draft_def sample_ref_def)
  then show ?thesis
    by (simp add: evaluate_evidence_def sample_parse check_evidence_def clean conclude_evidence_def
        evidence_result_def ids cite Let_def)
qed

end
