(* ===== verification/History.thy ===== *)
theory History
  imports Tutor_State
begin

text \<open>
  The bounded conversation history (src/adaptive_tutor/tutor/history.py): messages are cleaned and
  cut, older turns are folded into a summary when the turn or token budget is reached, and a saved
  history is restored only into a run of the same thread, user and goal.
\<close>

definition MAX_HISTORY_MESSAGE_CHARS :: nat where "MAX_HISTORY_MESSAGE_CHARS = 16384"
definition MAX_CONVERSATION_SUMMARY_CHARS :: nat where "MAX_CONVERSATION_SUMMARY_CHARS = 4000"
definition SUMMARY_MESSAGE_CHARS :: nat where "SUMMARY_MESSAGE_CHARS = 600"

record history_policy =
  hp_max_turns :: int
  hp_max_estimated_tokens :: int

definition check_history_policy :: "history_policy \<Rightarrow> string + history_policy" where
  "check_history_policy P =
     (if hp_max_turns P \<le> 0 then Inl ''history max_turns must be positive''
      else if hp_max_estimated_tokens P \<le> 0 then Inl ''history max_estimated_tokens must be positive''
      else Inr P)"

text \<open>The ellipsis is U+2026.\<close>

definition clean_chars :: "ustr \<Rightarrow> ustr" where
  "clean_chars s = strip (map (\<lambda>c. if c = 10 \<or> c = 9 \<or> 32 \<le> c then c else 32) s)"

definition safe_text :: "nat \<Rightarrow> ustr \<Rightarrow> ustr" where
  "safe_text max_chars value =
     (let normalized = clean_chars value
      in if length normalized \<le> max_chars then normalized
         else rstrip (take (max_chars - 1) normalized) @ [8230])"

definition safe_turn :: "conversation_turn \<Rightarrow> conversation_turn" where
  "safe_turn t = \<lparr>ct_user = safe_text MAX_HISTORY_MESSAGE_CHARS (ct_user t),
                  ct_assistant = safe_text MAX_HISTORY_MESSAGE_CHARS (ct_assistant t)\<rparr>"

text \<open>\<open>ceil(characters / 4)\<close>\<close>

definition estimated_tokens :: "ustr \<Rightarrow> conversation_turn list \<Rightarrow> int" where
  "estimated_tokens summary turns =
     (let characters = length summary + sum_list (map (\<lambda>t. length (ct_user t) + length (ct_assistant t)) turns)
      in ceiling (real characters / 4))"

definition tail_text :: "int \<Rightarrow> ustr \<Rightarrow> ustr" where
  "tail_text max_chars value =
     (if max_chars \<le> 0 then []
      else if int (length value) \<le> max_chars then value
      else if max_chars = 1 then [8230]
      else 8230 # drop (length value - nat (max_chars - 1)) value)"

definition turn_section :: "conversation_turn \<Rightarrow> ustr" where
  "turn_section t = lit ''User: '' @ safe_text SUMMARY_MESSAGE_CHARS (ct_user t) @ [10]
     @ lit ''Assistant: '' @ safe_text SUMMARY_MESSAGE_CHARS (ct_assistant t)"

definition deterministic_summary :: "ustr \<Rightarrow> conversation_turn list \<Rightarrow> ustr" where
  "deterministic_summary existing turns =
     (let recent = join [10] (map turn_section turns)
      in if MAX_CONVERSATION_SUMMARY_CHARS \<le> length recent
         then tail_text (int MAX_CONVERSATION_SUMMARY_CHARS) recent
         else if existing = [] then recent
         else (let label = lit ''Earlier summary: '';
                   earlier_budget = int MAX_CONVERSATION_SUMMARY_CHARS - int (length recent) - 1
                     - int (length label)
               in if earlier_budget \<le> 0 then recent
                  else label @ tail_text earlier_budget existing @ [10] @ recent))"

definition compact_older_turns ::
  "ustr \<Rightarrow> conversation_turn list \<Rightarrow> ustr \<times> conversation_turn list" where
  "compact_older_turns existing turns =
     (if turns = [] then (existing, [])
      else (let older = butlast turns
            in (if older \<noteq> [] then deterministic_summary existing older else existing, [last turns])))"

definition bound_history ::
  "history_policy \<Rightarrow> ustr \<Rightarrow> conversation_turn list \<Rightarrow> ustr \<times> conversation_turn list" where
  "bound_history P summary turns =
     (if hp_max_turns P \<le> int (length turns)
         \<or> hp_max_estimated_tokens P \<le> estimated_tokens summary turns
      then compact_older_turns summary turns else (summary, turns))"

definition same_scope :: "workflow_state \<Rightarrow> workflow_state \<Rightarrow> bool" where
  "same_scope current saved \<longleftrightarrow>
     cv_thread_id (wf_conversation current) = cv_thread_id (wf_conversation saved)
   \<and> cv_user_id (wf_conversation current) = cv_user_id (wf_conversation saved)
   \<and> lr_goal_id (wf_learning current) = lr_goal_id (wf_learning saved)"

definition restore_safe_conversation ::
  "history_policy \<Rightarrow> workflow_state \<Rightarrow> workflow_state option \<Rightarrow> workflow_state" where
  "restore_safe_conversation P current saved =
     (case saved of
        None \<Rightarrow> current
      | Some s \<Rightarrow>
          if \<not> same_scope current s then current
          else (let (summary, turns) = bound_history P
                      (safe_text MAX_CONVERSATION_SUMMARY_CHARS (cv_summary (wf_conversation s)))
                      (map safe_turn (cv_turns (wf_conversation s)))
                in current\<lparr>wf_conversation := (wf_conversation current)
                     \<lparr>cv_summary := summary, cv_turns := turns\<rparr>\<rparr>))"

definition conversation_context ::
  "conversation_state \<Rightarrow> (ustr \<times> conversation_turn list) option" where
  "conversation_context c =
     (let summary = safe_text MAX_CONVERSATION_SUMMARY_CHARS (cv_summary c);
          turns = map safe_turn (cv_turns c)
      in if summary = [] \<and> turns = [] then None else Some (summary, turns))"

definition record_completed_turn ::
  "history_policy \<Rightarrow> workflow_state \<Rightarrow> ustr \<Rightarrow> ustr \<Rightarrow> workflow_state" where
  "record_completed_turn P w user_message assistant_message =
     (let c = wf_conversation w;
          turn = \<lparr>ct_user = safe_text MAX_HISTORY_MESSAGE_CHARS user_message,
                  ct_assistant = safe_text MAX_HISTORY_MESSAGE_CHARS assistant_message\<rparr>;
          (summary, turns) = bound_history P
            (safe_text MAX_CONVERSATION_SUMMARY_CHARS (cv_summary c))
            (map safe_turn (cv_turns c) @ [turn])
      in w\<lparr>wf_conversation := c\<lparr>cv_message := safe_text MAX_HISTORY_MESSAGE_CHARS user_message,
             cv_summary := summary, cv_turns := turns\<rparr>\<rparr>)"

subsection \<open>Cleaned text\<close>

definition clean :: "ustr \<Rightarrow> bool" where
  "clean s \<longleftrightarrow> (\<forall>c \<in> set s. c = 10 \<or> c = 9 \<or> 32 \<le> c)"

lemma set_strip: "set (strip s) \<subseteq> set s"
proof -
  obtain u v where "s = u @ strip s @ v"
    using contains_strip [of s] by (auto simp: contains_iff)
  then have "set s = set u \<union> set (strip s) \<union> set v" by (metis set_append sup_assoc)
  then show ?thesis by blast
qed

lemma clean_clean_chars: "clean (clean_chars s)"
  using set_strip by (fastforce simp: clean_def clean_chars_def)

lemma clean_chars_id: "clean s \<Longrightarrow> clean_chars s = strip s"
proof -
  assume "clean s"
  then have "map (\<lambda>c. if c = 10 \<or> c = 9 \<or> 32 \<le> c then c else 32) s = s"
    by (auto simp: clean_def intro!: map_idI)
  then show ?thesis by (simp add: clean_chars_def)
qed

lemma strip_fix_iff:
  "strip s = s \<longleftrightarrow> s = [] \<or> \<not> py_isspace (hd s) \<and> \<not> py_isspace (last s)"
proof
  assume fix_s: "strip s = s"
  show "s = [] \<or> \<not> py_isspace (hd s) \<and> \<not> py_isspace (last s)"
  proof (cases "s = []")
    case False
    have "length (lstrip s) \<le> length s" by (simp add: lstrip_def length_dropWhile_le)
    moreover have "length (strip s) \<le> length (lstrip s)"
      by (simp add: strip_def rstrip_def length_rstrip_of)
    ultimately have len: "length (lstrip s) = length s" using fix_s by simp
    then have l: "lstrip s = s"
      unfolding lstrip_def by (metis append_same_eq length_append add_diff_cancel_right' append_self_conv2
          diff_self_eq_0 length_0_conv takeWhile_dropWhile_id)
    then have "\<not> py_isspace (hd s)" using False by (simp add: lstrip_def dropWhile_idem_hd)
    moreover have "rstrip s = s" using fix_s l by (simp add: strip_def)
    then have "\<not> py_isspace (last s)"
      using False by (metis dropWhile_idem_hd hd_rev rev_is_Nil_conv rev_rev_ident rstrip_def rstrip_of_def)
    ultimately show ?thesis by simp
  qed simp
next
  assume "s = [] \<or> \<not> py_isspace (hd s) \<and> \<not> py_isspace (last s)"
  then show "strip s = s"
  proof
    assume ends: "\<not> py_isspace (hd s) \<and> \<not> py_isspace (last s)"
    show ?thesis
    proof (cases "s = []")
      case False
      with ends have "lstrip s = s" by (simp add: lstrip_def dropWhile_idem_hd)
      moreover from False ends have "dropWhile py_isspace (rev s) = rev s"
        by (simp add: dropWhile_idem_hd hd_rev)
      ultimately show ?thesis by (simp add: strip_def rstrip_def rstrip_of_def)
    qed (simp add: strip_def lstrip_def)
  qed (simp add: strip_def lstrip_def)
qed

lemma hd_rstrip_take: "xs \<noteq> [] \<Longrightarrow> \<not> py_isspace (hd xs) \<Longrightarrow> 0 < n \<Longrightarrow>
    rstrip (take n xs) \<noteq> [] \<and> hd (rstrip (take n xs)) = hd xs"
proof -
  assume xs: "xs \<noteq> []" "\<not> py_isspace (hd xs)" "0 < n"
  then obtain y ys m where "xs = y # ys" "n = Suc m" by (cases xs; cases n) auto
  with xs show ?thesis by (simp add: rstrip_Cons)
qed

lemma safe_text_length: "0 < n \<Longrightarrow> length (safe_text n s) \<le> n"
  using length_rstrip_of [of py_isspace "take (n - 1) (clean_chars s)"]
  by (auto simp: safe_text_def Let_def rstrip_def)

lemma safe_text_clean: "clean (safe_text n s)"
proof -
  have "set (rstrip (take m t)) \<subseteq> set t" for m t
    using set_rstrip [of "take m t"] set_take_subset [of m t] by blast
  then show ?thesis
    using clean_clean_chars [of s] by (fastforce simp: safe_text_def Let_def clean_def)
qed

lemma safe_text_strip: "strip (safe_text n s) = safe_text n s"
proof (cases "length (clean_chars s) \<le> n")
  case True
  then show ?thesis by (simp add: safe_text_def clean_chars_def)
next
  case False
  then have t: "safe_text n s = rstrip (take (n - 1) (clean_chars s)) @ [8230]"
    by (simp add: safe_text_def)
  have ends: "clean_chars s \<noteq> []" "\<not> py_isspace (hd (clean_chars s))"
    using False strip_fix_iff [of "clean_chars s"] by (auto simp: clean_chars_def)
  have "\<not> py_isspace (hd (safe_text n s))"
  proof (cases "n - 1")
    case 0
    then show ?thesis by (simp add: t py_isspace_def)
  next
    case (Suc m)
    with hd_rstrip_take [OF ends, of "n - 1"] show ?thesis using ends by (simp add: t)
  qed
  then show ?thesis
    by (subst strip_fix_iff) (simp add: t py_isspace_def)
qed

lemma safe_text_fix:
  assumes "clean s" "length s \<le> n"
  shows "safe_text n s = strip s"
  using assms length_strip [of s] by (simp add: safe_text_def clean_chars_id)

lemma safe_text_idem [simp]: "0 < n \<Longrightarrow> safe_text n (safe_text n s) = safe_text n s"
  by (simp add: safe_text_fix safe_text_clean safe_text_length safe_text_strip)

lemma safe_turn_idem [simp]: "safe_turn (safe_turn t) = safe_turn t"
  by (simp add: safe_turn_def MAX_HISTORY_MESSAGE_CHARS_def)

subsection \<open>The summary\<close>

lemma tail_text_length: "0 \<le> n \<Longrightarrow> int (length (tail_text n s)) \<le> n"
  by (auto simp: tail_text_def)

lemma tail_text_clean: "clean s \<Longrightarrow> clean (tail_text n s)"
  using set_drop_subset by (fastforce simp: tail_text_def clean_def)

lemma clean_append [simp]: "clean (s @ t) \<longleftrightarrow> clean s \<and> clean t"
  by (auto simp: clean_def)

lemma clean_Cons [simp]: "clean (c # s) \<longleftrightarrow> (c = 10 \<or> c = 9 \<or> 32 \<le> c) \<and> clean s"
  by (auto simp: clean_def)

lemma clean_join: "\<forall>s \<in> set ss. clean s \<Longrightarrow> clean (join [10] ss)"
  by (induction "[10::nat]" ss rule: join.induct) (auto simp: clean_def)

lemma clean_section: "clean (turn_section t)"
  by (simp add: turn_section_def safe_text_clean) (simp add: lit_def clean_def)

lemma deterministic_summary_bound: "length (deterministic_summary existing turns) \<le> 4000"
proof -
  let ?recent = "join [10] (map turn_section turns)"
  define budget where "budget = 4000 - int (length ?recent) - 1 - int (length (lit ''Earlier summary: ''))"
  have "int (length (tail_text budget existing)) \<le> budget" if "0 < budget"
    using that by (intro tail_text_length) simp
  moreover have "int (length (tail_text 4000 ?recent)) \<le> 4000" by (rule tail_text_length) simp
  ultimately show ?thesis
    by (auto simp: deterministic_summary_def Let_def MAX_CONVERSATION_SUMMARY_CHARS_def budget_def)
qed

lemma deterministic_summary_clean: "clean existing \<Longrightarrow> clean (deterministic_summary existing turns)"
  by (auto simp: deterministic_summary_def Let_def clean_section intro!: clean_join tail_text_clean)
     (auto simp: lit_def clean_def)

lemma bound_history_summary:
  assumes "bound_history P summary turns = (summary', turns')" "clean summary" "length summary \<le> 4000"
  shows "clean summary' \<and> length summary' \<le> 4000"
  using assms deterministic_summary_bound deterministic_summary_clean
  by (auto simp: bound_history_def compact_older_turns_def Let_def split: if_splits)

lemma bound_history_turns:
  assumes "bound_history P summary turns = (summary', turns')" "turns \<noteq> []"
  shows "turns' \<noteq> []" "last turns' = last turns" "set turns' \<subseteq> set turns"
    "length turns' = 1 \<or> int (length turns') < hp_max_turns P
      \<and> estimated_tokens summary' turns' < hp_max_estimated_tokens P \<and> turns' = turns"
  using assms by (auto simp: bound_history_def compact_older_turns_def Let_def split: if_splits)

subsection \<open>Properties\<close>

lemma record_parts:
  assumes "bound_history P (safe_text MAX_CONVERSATION_SUMMARY_CHARS (cv_summary (wf_conversation w)))
      (map safe_turn (cv_turns (wf_conversation w)) @
        [\<lparr>ct_user = safe_text MAX_HISTORY_MESSAGE_CHARS u, ct_assistant = safe_text MAX_HISTORY_MESSAGE_CHARS a\<rparr>])
      = (summary, turns)"
  shows "record_completed_turn P w u a = w\<lparr>wf_conversation := (wf_conversation w)
    \<lparr>cv_message := safe_text MAX_HISTORY_MESSAGE_CHARS u, cv_summary := summary, cv_turns := turns\<rparr>\<rparr>"
  using assms by (simp add: record_completed_turn_def Let_def)

text \<open>What a completed turn leaves in the state: the summary and every message within their
  limits, the new turn last, and either that turn alone or a history strictly below both budgets.
  Nothing but the message, the summary and the turns changes.\<close>

theorem history_bounded:
  "let c = wf_conversation (record_completed_turn P w u a)
   in length (cv_summary c) \<le> 4000
    \<and> (\<forall>t \<in> set (cv_turns c). length (ct_user t) \<le> 16384 \<and> length (ct_assistant t) \<le> 16384)
    \<and> cv_turns c \<noteq> [] \<and> last (cv_turns c) = \<lparr>ct_user = safe_text 16384 u, ct_assistant = safe_text 16384 a\<rparr>
    \<and> (length (cv_turns c) = 1 \<or> int (length (cv_turns c)) < hp_max_turns P
        \<and> estimated_tokens (cv_summary c) (cv_turns c) < hp_max_estimated_tokens P)
    \<and> record_completed_turn P w u a = w\<lparr>wf_conversation := (wf_conversation w)
        \<lparr>cv_message := cv_message c, cv_summary := cv_summary c, cv_turns := cv_turns c\<rparr>\<rparr>"
proof -
  let ?s = "safe_text MAX_CONVERSATION_SUMMARY_CHARS (cv_summary (wf_conversation w))"
  let ?new = "\<lparr>ct_user = safe_text MAX_HISTORY_MESSAGE_CHARS u, ct_assistant = safe_text MAX_HISTORY_MESSAGE_CHARS a\<rparr>"
  let ?ts = "map safe_turn (cv_turns (wf_conversation w)) @ [?new]"
  obtain summary turns where b: "bound_history P ?s ?ts = (summary, turns)" by fastforce
  have s: "clean ?s" "length ?s \<le> 4000"
    by (simp_all add: safe_text_clean MAX_CONVERSATION_SUMMARY_CHARS_def safe_text_length)
  have "\<forall>t \<in> set ?ts. length (ct_user t) \<le> 16384 \<and> length (ct_assistant t) \<le> 16384"
    by (auto simp: safe_turn_def MAX_HISTORY_MESSAGE_CHARS_def intro!: safe_text_length)
  with bound_history_turns(3) [OF b]
  have m: "\<forall>t \<in> set turns. length (ct_user t) \<le> 16384 \<and> length (ct_assistant t) \<le> 16384" by blast
  show ?thesis
    unfolding Let_def record_parts [OF b]
    using bound_history_summary [OF b s] bound_history_turns [OF b] m
    by (auto simp: MAX_HISTORY_MESSAGE_CHARS_def)
qed

lemma estimated_tokens_mono:
  "length s \<le> length s' \<Longrightarrow> estimated_tokens s ts \<le> estimated_tokens s' ts"
  by (auto simp: estimated_tokens_def Let_def intro!: ceiling_mono divide_right_mono)

lemma bound_history_again:
  assumes "length turns = 1 \<or> int (length turns) < hp_max_turns P
      \<and> estimated_tokens summary turns < hp_max_estimated_tokens P"
    and "length s \<le> length summary"
  shows "bound_history P s turns = (s, turns)"
proof (cases "length turns = 1")
  case True
  then obtain t where "turns = [t]" by (auto simp: length_Suc_conv)
  then show ?thesis by (simp add: bound_history_def compact_older_turns_def)
next
  case False
  with assms estimated_tokens_mono [OF assms(2), of turns] show ?thesis
    by (simp add: bound_history_def)
qed

text \<open>C18. A saved history comes back as it was recorded: restoring it into a run of the same thread,
  user and goal gives the recorded turns and the recorded summary, its outer white space aside,
  and compacts nothing a second time.\<close>

theorem restore_recorded:
  assumes "saved = record_completed_turn P w u a" "same_scope current saved"
  shows "restore_safe_conversation P current (Some saved) = current\<lparr>wf_conversation := (wf_conversation current)
    \<lparr>cv_summary := strip (cv_summary (wf_conversation saved)), cv_turns := cv_turns (wf_conversation saved)\<rparr>\<rparr>"
proof -
  let ?s = "safe_text MAX_CONVERSATION_SUMMARY_CHARS (cv_summary (wf_conversation w))"
  let ?new = "\<lparr>ct_user = safe_text MAX_HISTORY_MESSAGE_CHARS u, ct_assistant = safe_text MAX_HISTORY_MESSAGE_CHARS a\<rparr>"
  let ?ts = "map safe_turn (cv_turns (wf_conversation w)) @ [?new]"
  obtain summary turns where b: "bound_history P ?s ?ts = (summary, turns)" by fastforce
  have s: "clean ?s" "length ?s \<le> 4000"
    by (simp_all add: safe_text_clean MAX_CONVERSATION_SUMMARY_CHARS_def safe_text_length)
  have saved: "cv_summary (wf_conversation saved) = summary" "cv_turns (wf_conversation saved) = turns"
    by (simp_all add: assms(1) record_parts [OF b])
  have "safe_turn t = t" if "t \<in> set turns" for t
  proof -
    from that bound_history_turns(3) [OF b] have "t \<in> set ?ts" by blast
    then show ?thesis by (auto simp: safe_turn_def MAX_HISTORY_MESSAGE_CHARS_def)
  qed
  then have "map safe_turn turns = turns" by (simp add: map_idI)
  moreover have "safe_text MAX_CONVERSATION_SUMMARY_CHARS summary = strip summary"
    using bound_history_summary [OF b s] by (simp add: safe_text_fix MAX_CONVERSATION_SUMMARY_CHARS_def)
  moreover have "bound_history P (strip summary) turns = (strip summary, turns)"
  proof (rule bound_history_again)
    show "length turns = 1 \<or> int (length turns) < hp_max_turns P
      \<and> estimated_tokens summary turns < hp_max_estimated_tokens P"
      using bound_history_turns(4) [OF b] by auto
  qed (rule length_strip)
  ultimately show ?thesis
    using assms(2) by (simp add: restore_safe_conversation_def saved)
qed

text \<open>C19. No history crosses a boundary: a checkpoint of another thread, user or goal leaves the run
  untouched, and one of the same scope contributes nothing but cleaned messages and a summary.\<close>

theorem restore_isolated:
  "restore_safe_conversation P current saved = current
   \<or> (\<exists>s summary turns. saved = Some s
        \<and> cv_thread_id (wf_conversation current) = cv_thread_id (wf_conversation s)
        \<and> cv_user_id (wf_conversation current) = cv_user_id (wf_conversation s)
        \<and> lr_goal_id (wf_learning current) = lr_goal_id (wf_learning s)
        \<and> restore_safe_conversation P current saved
            = current\<lparr>wf_conversation := (wf_conversation current)\<lparr>cv_summary := summary, cv_turns := turns\<rparr>\<rparr>
        \<and> length summary \<le> 4000
        \<and> set turns \<subseteq> safe_turn ` set (cv_turns (wf_conversation s)))"
proof (cases saved)
  case (Some s)
  show ?thesis
  proof (cases "same_scope current s")
    case True
    let ?s = "safe_text MAX_CONVERSATION_SUMMARY_CHARS (cv_summary (wf_conversation s))"
    obtain summary turns where b: "bound_history P ?s (map safe_turn (cv_turns (wf_conversation s))) = (summary, turns)"
      by fastforce
    have "clean ?s" "length ?s \<le> 4000"
      by (simp_all add: safe_text_clean MAX_CONVERSATION_SUMMARY_CHARS_def safe_text_length)
    with bound_history_summary [OF b] have "length summary \<le> 4000" by blast
    moreover have "set turns \<subseteq> safe_turn ` set (cv_turns (wf_conversation s))"
      using bound_history_turns(3) [OF b] b
      by (cases "cv_turns (wf_conversation s) = []")
         (auto simp: bound_history_def compact_older_turns_def split: if_splits)
    ultimately show ?thesis
      using Some True b by (auto simp: restore_safe_conversation_def same_scope_def)
  qed (simp add: restore_safe_conversation_def Some)
qed (simp add: restore_safe_conversation_def)

subsection \<open>A run\<close>

definition sample_workflow :: workflow_state where
  "sample_workflow =
     \<lparr>wf_conversation = \<lparr>cv_thread_id = lit ''t'', cv_user_id = lit ''u'', cv_message = [], cv_summary = [],
        cv_turns = [], cv_intent = None, cv_entities = []\<rparr>,
      wf_learning = \<lparr>lr_goal_id = lit ''g'', lr_active_plan = [], lr_current_task = None,
        lr_preferences = [], lr_mastery_summary = [], lr_recent_events = []\<rparr>,
      wf_evidence = \<lparr>es_query = [], es_chunk_ids = [], es_scores = [], es_context_ids = [],
        es_citation_ids = [], es_grounding = []\<rparr>,
      wf_execution = \<lparr>ex_run_id = lit ''r'', ex_graph_version = lit ''phase2-v1'', ex_agent_state = None,
        ex_tool_calls = [], ex_latency = None, ex_retry_count = 0\<rparr>\<rparr>"

definition sample_policy :: history_policy where
  "sample_policy = \<lparr>hp_max_turns = 12, hp_max_estimated_tokens = 16000\<rparr>"

lemma record_scope: "same_scope w (record_completed_turn P w u a)"
  by (simp add: same_scope_def record_completed_turn_def Let_def case_prod_unfold)

lemma restore_recorded_witness:
  "cv_turns (wf_conversation (restore_safe_conversation sample_policy sample_workflow
      (Some (record_completed_turn sample_policy sample_workflow (lit ''q'') (lit ''a'')))))
   = cv_turns (wf_conversation (record_completed_turn sample_policy sample_workflow (lit ''q'') (lit ''a'')))
   \<and> same_scope sample_workflow (record_completed_turn sample_policy sample_workflow (lit ''q'') (lit ''a''))"
  using restore_recorded [OF refl record_scope, of sample_policy sample_workflow "lit ''q''" "lit ''a''"]
    record_scope by simp

lemma history_bounded_witness:
  "length (cv_summary (wf_conversation
      (record_completed_turn sample_policy sample_workflow (lit ''q'') (lit ''a'')))) \<le> 4000"
  using history_bounded [of sample_policy sample_workflow "lit ''q''" "lit ''a''"] by (simp add: Let_def)

end
