(* ===== verification/Tutor_Graph.thy ===== *)
theory Tutor_Graph
  imports Tool_Router Grounding History
begin

text \<open>
  The tutor's workflow graph and its bounded agent loop (phase2/engine.py with
  tutor/agent_controller.py and tutor/workflow_services.py under src/adaptive_tutor): the
  controller's decision, the nodes \<open>agent_decide\<close> and \<open>tool_router\<close>, the routing functions and
  the edges of \<open>_build_graph\<close>. The other nodes and the model call are ports. LangGraph runs one
  node after another along the edges; a step relation on configurations is that run.

  The state of a run keeps the fields these nodes read or write; \<open>st_rest\<close> stands for the others.
  A tool request in the metadata of the user's request is a tool name with a dictionary of
  arguments. A call that needs an approval suspends the run until a decision is there.
\<close>

subsection \<open>State and environment\<close>

datatype trigger = Onboarding | Chat | TaskCompleted | AssessmentDue | AssessmentSubmitted | ManualReplan

datatype observer_action = Keep | Reduce | Remediate | Advance

datatype route = RouteDiagnostic | RouteTeaching | RouteAssessment | RouteObserve | RouteReplan

record tutor_request =
  rq_trigger :: trigger
  rq_user_id :: ustr
  rq_goal_id :: ustr
  rq_thread_id :: ustr
  rq_message :: ustr
  rq_tool_request :: "(ustr \<times> metadata) option"

record 'r tutor_state =
  st_workflow :: workflow_state
  st_route :: "route option"
  st_final_answer :: ustr
  st_decision :: "agent_decision option"
  st_tool_results :: "json list"
  st_evidence :: "evidence_item list"
  st_observer :: "observer_action option"
  st_audit :: "metadata list"
  st_actions :: "(string \<times> metadata) list"
  st_rest :: 'r

datatype node =
    LoadContext | Diagnosis | RetrieveContext | AgentDecide | ToolRouter | Teacher
  | BuildAssessment | GradeAssessment | Observer | Planner | MemoryGate | Persist

text \<open>What the model is asked, and the approval service: \<open>require_approval\<close>, the value
  \<open>interrupt\<close> returns (nothing while the run is suspended) and \<open>resolve_after_interrupt\<close>.\<close>

record controller_prompt =
  cp_message :: ustr
  cp_tools :: "tool_spec list"
  cp_observations :: "observation list"
  cp_max_decisions :: nat

datatype approval_reply = NoReply | Approve | Reject | InvalidReply

record approval_resolution =
  ar_failed :: bool
  ar_error_code :: "ustr option"
  ar_value :: json
  ar_cache_hit :: bool
  ar_truncated :: bool

record approval_port =
  ap_require :: "approval_interrupt \<Rightarrow> port_error option"
  ap_reply :: "approval_interrupt \<Rightarrow> approval_reply"
  ap_resolve :: "approval_interrupt \<Rightarrow> bool \<Rightarrow> port_error + approval_resolution"

datatype run_error =
    PortFailed port_error
  | RouterFailed error_code
  | EvidenceConflict evidence_error
  | ApprovalExecutionFailed ustr
  | BadConfiguration string

record 'r tutor_env =
  te_request :: tutor_request
  te_environ :: "string \<Rightarrow> ustr option"
  te_unicode :: unicode_db
  te_lower :: "ustr \<Rightarrow> ustr"
  te_router :: "router_config option"
  te_llm :: "'r tutor_state \<Rightarrow> controller_prompt \<Rightarrow> port_error + ustr"
  te_json_loads :: "ustr \<Rightarrow> json option"
  te_json_hash :: "json \<Rightarrow> ustr"
  te_approval :: "approval_port option"
  te_node :: "node \<Rightarrow> 'r tutor_state \<Rightarrow> port_error + 'r tutor_state"

definition audit :: "(string \<times> json) list \<Rightarrow> 'r tutor_state \<Rightarrow> 'r tutor_state" where
  "audit e s = s\<lparr>st_audit := st_audit s @ [map (\<lambda>(k, v). (lit k, v)) e]\<rparr>"

definition json_str :: "string \<Rightarrow> json" where
  "json_str s = JStr (lit s)"

definition json_opt :: "string option \<Rightarrow> json" where
  "json_opt v = (case v of None \<Rightarrow> JNull | Some s \<Rightarrow> json_str s)"

subsection \<open>The controller\<close>

definition fallback :: agent_decision where
  "fallback = \<lparr>dec_action = ActAnswer, dec_call = None, dec_reason = InvalidModelOutput\<rparr>"

definition reason_of :: "ustr \<Rightarrow> reason_code option" where
  "reason_of s = find (\<lambda>r. lit (reason_value r) = s)
     [ContextSufficient, ExternalInformationNeeded, ToolResultSufficient, ToolFailedFallback,
      BudgetExhausted, InvalidModelOutput, DuplicateToolCall]"

definition call_of_json :: "json \<Rightarrow> string + agent_tool_call" where
  "call_of_json v =
     (case v of
        JDict d \<Rightarrow>
          bind_res (keys_within d [''tool_name'', ''arguments'']) (\<lambda>_.
          bind_res (str_field d ''tool_name'' 1) (\<lambda>name.
          bind_res (require (length name \<le> 128) ''string_too_long'') (\<lambda>_.
          case map_of d (lit ''arguments'') of
            None \<Rightarrow> Inr \<lparr>atc_tool = name, atc_arguments = []\<rparr>
          | Some (JDict args) \<Rightarrow> Inr \<lparr>atc_tool = name, atc_arguments = args\<rparr>
          | Some _ \<Rightarrow> Inl ''dict_type'')))
      | _ \<Rightarrow> Inl ''model_type'')"

definition decision_of_json :: "json \<Rightarrow> string + agent_decision" where
  "decision_of_json v =
     (case v of
        JDict d \<Rightarrow>
          bind_res (keys_within d [''action'', ''tool_call'', ''reason_code'']) (\<lambda>_.
          bind_res (str_field d ''action'' 0) (\<lambda>a.
          bind_res (if a = lit ''answer'' then Inr ActAnswer
                    else if a = lit ''call_tool'' then Inr ActCallTool
                    else Inl ''literal_error'') (\<lambda>action.
          bind_res (case map_of d (lit ''tool_call'') of
                      None \<Rightarrow> Inr None
                    | Some JNull \<Rightarrow> Inr None
                    | Some c \<Rightarrow> bind_res (call_of_json c) (\<lambda>c. Inr (Some c))) (\<lambda>call.
          bind_res (str_field d ''reason_code'' 0) (\<lambda>r.
          case reason_of r of
            None \<Rightarrow> Inl ''literal_error''
          | Some reason \<Rightarrow>
              validate_action \<lparr>dec_action = action, dec_call = call, dec_reason = reason\<rparr>)))))
      | _ \<Rightarrow> Inl ''model_type'')"

definition decide :: "'r tutor_env \<Rightarrow> 'r tutor_state \<Rightarrow> tool_spec list \<Rightarrow> nat \<Rightarrow> agent_decision" where
  "decide env s tools max_decisions =
     (let prompt = \<lparr>cp_message = rq_message (te_request env), cp_tools = tools,
            cp_observations = ls_observations (load_agent_loop_state (st_workflow s)),
            cp_max_decisions = max_decisions\<rparr>
      in case te_llm env s prompt of
           Inl _ \<Rightarrow> fallback
         | Inr raw \<Rightarrow>
             (case te_json_loads env raw of
                None \<Rightarrow> fallback
              | Some v \<Rightarrow>
                  (case decision_of_json v of
                     Inl _ \<Rightarrow> fallback
                   | Inr d \<Rightarrow>
                       if dec_action d = ActCallTool
                          \<and> (case dec_call d of None \<Rightarrow> True
                              | Some c \<Rightarrow> atc_tool c \<notin> set (map ts_name tools))
                       then fallback else d)))"

subsection \<open>Node: agent\_decide\<close>

definition agent_tools :: "'r tutor_env \<Rightarrow> tool_spec list" where
  "agent_tools env = (case te_router env of None \<Rightarrow> [] | Some cfg \<Rightarrow> list_agent_tools cfg)"

definition agent_decide :: "'r tutor_env \<Rightarrow> 'r tutor_state \<Rightarrow> string + 'r tutor_state" where
  "agent_decide env s =
     bind_res (agent_loop_policy_from_env (te_unicode env) (te_environ env)) (\<lambda>m.
       let l = load_agent_loop_state (st_workflow s);
           (l', d) =
             (if m \<le> ls_count l
              then (l\<lparr>ls_active := False, ls_max := m, ls_pending := None,
                      ls_last_reason := Some ''budget_exhausted'', ls_stop := Some ''budget_exhausted''\<rparr>,
                    \<lparr>dec_action = ActAnswer, dec_call = None, dec_reason = BudgetExhausted\<rparr>)
              else (let d = decide env s (agent_tools env) m
                    in (l\<lparr>ls_active := (dec_action d = ActCallTool), ls_count := ls_count l + 1,
                          ls_max := m, ls_pending := dec_call d,
                          ls_last_reason := Some (reason_value (dec_reason d)),
                          ls_stop := (if dec_action d = ActCallTool then None
                                      else Some (reason_value (dec_reason d)))\<rparr>, d)))
       in Inr (audit [(''node'', json_str ''agent_decide''),
                 (''action'', json_str (if dec_action d = ActAnswer then ''answer'' else ''call_tool'')),
                 (''reason_code'', json_str (reason_value (dec_reason d))),
                 (''decision_count'', JInt (int (ls_count l'))), (''stop_reason'', json_opt (ls_stop l'))]
               (s\<lparr>st_workflow := save_agent_loop_state (st_workflow s) l', st_decision := Some d\<rparr>)))"

subsection \<open>Node: tool\_router\<close>

definition record_agent_tool_result ::
  "loop_state \<Rightarrow> observation \<Rightarrow> string option \<Rightarrow> 'r tutor_state \<Rightarrow> 'r tutor_state" where
  "record_agent_tool_result l ob stop s =
     (let l' = l\<lparr>ls_active := (stop = None), ls_pending := None,
                 ls_observations := ls_observations l @ [ob], ls_stop := stop\<rparr>;
          x = wf_execution (st_workflow s)
      in s\<lparr>st_workflow := (st_workflow s)\<lparr>wf_execution := x\<lparr>ex_agent_state := Some l',
             ex_tool_calls := ex_tool_calls x @
               [\<lparr>tc_tool = ob_tool ob, tc_fingerprint = ob_fingerprint ob, tc_success = ob_success ob,
                 tc_cache_hit = ob_cache_hit ob, tc_truncated = ob_truncated ob,
                 tc_error = ob_error ob\<rparr>]\<rparr>\<rparr>\<rparr>)"

definition record_tool_action ::
  "'r tutor_env \<Rightarrow> observation \<Rightarrow> nat \<Rightarrow> 'r tutor_state \<Rightarrow> 'r tutor_state" where
  "record_tool_action env ob evidence_count s =
     s\<lparr>st_actions := st_actions s @ [(''record_tool_call'',
        [(lit ''tool_name'', JStr (ob_tool ob)), (lit ''request_hash'', JStr (ob_fingerprint ob)),
         (lit ''status'', json_str (if ob_success ob then ''success'' else ''failed'')),
         (lit ''cache_hit'', JBool (ob_cache_hit ob)), (lit ''truncated'', JBool (ob_truncated ob)),
         (lit ''evidence_count'', JInt (int evidence_count)),
         (lit ''error_code'', json_opt (ob_error ob))])]\<rparr>"

definition failed_observation :: "agent_tool_call \<Rightarrow> ustr \<Rightarrow> string \<Rightarrow> observation" where
  "failed_observation c fingerprint code =
     \<lparr>ob_tool = atc_tool c, ob_arguments = atc_arguments c, ob_fingerprint = fingerprint,
      ob_success = False, ob_value = None, ob_error = Some code, ob_cache_hit = False,
      ob_truncated = False\<rparr>"

definition recoverable :: "error_code \<Rightarrow> bool" where
  "recoverable c \<longleftrightarrow> c = ToolTimeout \<or> c = ToolExecutionFailed \<or> c = ToolEvidenceMappingFailed"

datatype 'r node_result =
    NodeDone "'r tutor_state"
  | NodeFailed run_error
  | NodeSuspended approval_interrupt

definition tool_failed ::
  "'r tutor_env \<Rightarrow> agent_tool_call \<Rightarrow> ustr \<Rightarrow> loop_state \<Rightarrow> error_code \<Rightarrow> 'r tutor_state
     \<Rightarrow> 'r node_result" where
  "tool_failed env c fingerprint l code s =
     (let ob = failed_observation c fingerprint (code_value code);
          stop = (if recoverable code then None else Some (code_value code))
      in NodeDone (audit [(''node'', json_str ''tool_router''), (''status'', json_str ''failed''),
             (''error_code'', json_str (code_value code)), (''stop_reason'', json_opt stop)]
           (record_tool_action env ob 0 (record_agent_tool_result l ob stop s))))"

definition tool_succeeded ::
  "'r tutor_env \<Rightarrow> agent_tool_call \<Rightarrow> loop_state \<Rightarrow> tool_result \<Rightarrow> 'r tutor_state \<Rightarrow> 'r node_result" where
  "tool_succeeded env c l r s =
     (let duplicate = (tr_cache_hit r \<and> (\<exists>o' \<in> set (ls_observations l). ob_fingerprint o' = tr_fingerprint r));
          stop = (if duplicate then Some ''duplicate_tool_call'' else None);
          ob = \<lparr>ob_tool = atc_tool c, ob_arguments = atc_arguments c,
                ob_fingerprint = tr_fingerprint r, ob_success = True, ob_value = Some (tr_value r),
                ob_error = None, ob_cache_hit = tr_cache_hit r, ob_truncated = tr_truncated r\<rparr>;
          s1 = record_agent_tool_result l ob stop s;
          merged = (if duplicate then Inr (st_evidence s1)
                    else merge_evidence_items (st_evidence s1) (tr_evidence r))
      in case merged of
           Inl e \<Rightarrow> NodeFailed (EvidenceConflict e)
         | Inr evidence \<Rightarrow>
             NodeDone (audit [(''node'', json_str ''tool_router''), (''status'', json_str ''success''),
                 (''cache_hit'', JBool (tr_cache_hit r)), (''truncated'', JBool (tr_truncated r)),
                 (''evidence_count'', JInt (int (length (tr_evidence r)))),
                 (''stop_reason'', json_opt stop)]
               (record_tool_action env ob (length (tr_evidence r))
                 (s1\<lparr>st_tool_results := (if duplicate then st_tool_results s1
                                          else st_tool_results s1 @ [tr_value r]),
                     st_evidence := evidence\<rparr>))))"

definition resolve_approval ::
  "'r tutor_env \<Rightarrow> agent_tool_call \<Rightarrow> ustr \<Rightarrow> loop_state \<Rightarrow> approval_interrupt \<Rightarrow> 'r tutor_state
     \<Rightarrow> 'r node_result" where
  "resolve_approval env c fingerprint l a s =
     (case te_approval env of
        None \<Rightarrow> NodeFailed (RouterFailed ToolNotAllowed)
      | Some p \<Rightarrow>
          (case ap_require p a of
             Some e \<Rightarrow> NodeFailed (PortFailed e)
           | None \<Rightarrow>
               (case ap_reply p a of
                  NoReply \<Rightarrow> NodeSuspended a
                | InvalidReply \<Rightarrow> NodeFailed (RouterFailed ToolExecutionFailed)
                | reply \<Rightarrow>
                    (case ap_resolve p a (reply = Approve) of
                       Inl e \<Rightarrow> NodeFailed (PortFailed e)
                     | Inr res \<Rightarrow>
                         if ar_failed res
                         then if ar_error_code res = Some (lit ''mcp.tool_rejected'')
                              then (let ob = failed_observation c fingerprint ''mcp.tool_rejected''
                                    in NodeDone (record_tool_action env ob 0
                                         (record_agent_tool_result l ob None s)))
                              else NodeFailed (ApprovalExecutionFailed
                                     (if blank (ar_error_code res) then lit ''mcp.execution_failed''
                                      else the (ar_error_code res)))
                         else tool_succeeded env c l
                                \<lparr>tr_value = ar_value res, tr_cache_hit = ar_cache_hit res,
                                 tr_truncated = ar_truncated res, tr_untrusted = True,
                                 tr_fingerprint = fingerprint, tr_evidence = []\<rparr> s))))"

text \<open>\<open>tool_call.model_dump(mode="json")\<close>\<close>

definition call_json :: "agent_tool_call \<Rightarrow> json" where
  "call_json c = JDict [(lit ''tool_name'', JStr (atc_tool c)), (lit ''arguments'', JDict (atc_arguments c))]"

definition autonomous_call ::
  "'r tutor_env \<Rightarrow> router_config \<Rightarrow> agent_tool_call \<Rightarrow> 'r tutor_state \<Rightarrow> router_state
     \<Rightarrow> 'r node_result \<times> router_state" where
  "autonomous_call env cfg c s rs =
     (let l = load_agent_loop_state (st_workflow s);
          fingerprint = te_json_hash env (call_json c);
          (result, rs') = execute_agent cfg (ex_run_id (wf_execution (st_workflow s)))
            (rq_user_id (te_request env)) (atc_tool c) (atc_arguments c) rs
      in (case result of
            Inr r \<Rightarrow> tool_succeeded env c l r s
          | Inl (RouterError code) \<Rightarrow> tool_failed env c fingerprint l code s
          | Inl (ApprovalNeeded a) \<Rightarrow> resolve_approval env c fingerprint l a s
          | Inl (Escaped e) \<Rightarrow> NodeFailed (PortFailed e), rs'))"

definition requested_call ::
  "'r tutor_env \<Rightarrow> router_config \<Rightarrow> 'r tutor_state \<Rightarrow> router_state \<Rightarrow> 'r node_result \<times> router_state" where
  "requested_call env cfg s rs =
     (let (name, args) = (case rq_tool_request (te_request env) of None \<Rightarrow> ([], []) | Some c \<Rightarrow> c);
          (result, rs') = execute_tool cfg (ex_run_id (wf_execution (st_workflow s)))
            (rq_user_id (te_request env)) name args rs
      in (case result of
            Inr r \<Rightarrow>
              (case merge_evidence_items (st_evidence s) (tr_evidence r) of
                 Inl e \<Rightarrow> NodeFailed (EvidenceConflict e)
               | Inr evidence \<Rightarrow>
                   NodeDone (audit [(''node'', json_str ''tool_router''), (''status'', json_str ''success''),
                       (''cache_hit'', JBool (tr_cache_hit r)), (''truncated'', JBool (tr_truncated r)),
                       (''evidence_count'', JInt (int (length (tr_evidence r))))]
                     (s\<lparr>st_tool_results := st_tool_results s @ [tr_value r], st_evidence := evidence\<rparr>)))
          | Inl (RouterError code) \<Rightarrow>
              NodeDone (audit [(''node'', json_str ''tool_router''), (''status'', json_str ''failed''),
                (''error_code'', json_str (code_value code))] s)
          | Inl (ApprovalNeeded a) \<Rightarrow>
              NodeFailed (PortFailed (PortError ''ToolApprovalInterrupt'' [''RuntimeError'']))
          | Inl (Escaped e) \<Rightarrow> NodeFailed (PortFailed e), rs'))"

definition tool_router ::
  "'r tutor_env \<Rightarrow> 'r tutor_state \<Rightarrow> router_state \<Rightarrow> 'r node_result \<times> router_state" where
  "tool_router env s rs =
     (case te_router env of
        None \<Rightarrow> (NodeDone (audit [(''node'', json_str ''tool_router''),
                   (''status'', json_str ''not_configured'')] s), rs)
      | Some cfg \<Rightarrow>
          (let l = load_agent_loop_state (st_workflow s)
           in if ls_active l \<and> ls_pending l \<noteq> None
              then autonomous_call env cfg (the (ls_pending l)) s rs
              else requested_call env cfg s rs))"

subsection \<open>Routing\<close>

fun intent_route :: "trigger \<Rightarrow> node" where
  "intent_route Onboarding = Diagnosis"
| "intent_route Chat = RetrieveContext"
| "intent_route TaskCompleted = Observer"
| "intent_route AssessmentDue = BuildAssessment"
| "intent_route AssessmentSubmitted = GradeAssessment"
| "intent_route ManualReplan = Observer"

definition route_after_observer :: "trigger \<Rightarrow> observer_action option \<Rightarrow> node" where
  "route_after_observer t d =
     (if t = ManualReplan then Planner
      else if t = Chat then MemoryGate
      else if d \<noteq> None \<and> d \<noteq> Some Keep then Planner
      else MemoryGate)"

definition has_agent_tools :: "'r tutor_env \<Rightarrow> bool" where
  "has_agent_tools env \<longleftrightarrow> agent_tools env \<noteq> []"

definition route_after_retrieval :: "'r tutor_env \<Rightarrow> string + node" where
  "route_after_retrieval env =
     bind_res (feature_flags_from_env (te_lower env) (te_environ env)) (\<lambda>flags.
       Inr (if flag_of flags ''FEATURE_MCP_TOOL_ROUTER_V2'' \<and> rq_tool_request (te_request env) \<noteq> None
            then ToolRouter
            else if flag_of flags ''FEATURE_AGENT_TOOL_LOOP_V1'' \<and> rq_trigger (te_request env) = Chat
                 \<and> has_agent_tools env
            then AgentDecide
            else Teacher))"

definition route_after_agent_decision :: "'r tutor_state \<Rightarrow> node" where
  "route_after_agent_decision s =
     (case st_decision s of
        Some d \<Rightarrow> if dec_action d = ActCallTool then ToolRouter else Teacher
      | None \<Rightarrow> Teacher)"

definition route_after_tool :: "'r tutor_state \<Rightarrow> node" where
  "route_after_tool s =
     (let l = load_agent_loop_state (st_workflow s)
      in if ls_active l \<and> (ls_stop l = None \<or> ls_stop l = Some []) then AgentDecide else Teacher)"

text \<open>The edges of the graph; \<open>None\<close> is \<open>END\<close>.\<close>

definition successor :: "'r tutor_env \<Rightarrow> node \<Rightarrow> 'r tutor_state \<Rightarrow> string + node option" where
  "successor env n s =
     (case n of
        LoadContext \<Rightarrow> Inr (Some (intent_route (rq_trigger (te_request env))))
      | Diagnosis \<Rightarrow> Inr (Some Planner)
      | RetrieveContext \<Rightarrow> bind_res (route_after_retrieval env) (\<lambda>n. Inr (Some n))
      | AgentDecide \<Rightarrow> Inr (Some (route_after_agent_decision s))
      | ToolRouter \<Rightarrow> Inr (Some (route_after_tool s))
      | Teacher \<Rightarrow> Inr (Some Observer)
      | BuildAssessment \<Rightarrow> Inr (Some Persist)
      | GradeAssessment \<Rightarrow> Inr (Some Observer)
      | Observer \<Rightarrow> Inr (Some (route_after_observer (rq_trigger (te_request env)) (st_observer s)))
      | Planner \<Rightarrow> Inr (Some MemoryGate)
      | MemoryGate \<Rightarrow> Inr (Some Persist)
      | Persist \<Rightarrow> Inr None)"

subsection \<open>Running the graph\<close>

definition diagnosis :: "'r tutor_state \<Rightarrow> 'r tutor_state" where
  "diagnosis s = audit [(''node'', json_str ''diagnosis''), (''status'', json_str ''ok'')]
     (s\<lparr>st_route := Some RouteDiagnostic,
        st_final_answer := lit ''Baseline diagnosis received; preparing an initial plan patch.''\<rparr>)"

definition run_node ::
  "'r tutor_env \<Rightarrow> node \<Rightarrow> 'r tutor_state \<Rightarrow> router_state \<Rightarrow> 'r node_result \<times> router_state" where
  "run_node env n s rs =
     (case n of
        AgentDecide \<Rightarrow>
          ((case agent_decide env s of Inl e \<Rightarrow> NodeFailed (BadConfiguration e) | Inr s' \<Rightarrow> NodeDone s'), rs)
      | ToolRouter \<Rightarrow> tool_router env s rs
      | Diagnosis \<Rightarrow> (NodeDone (diagnosis s), rs)
      | _ \<Rightarrow> ((case te_node env n s of Inl e \<Rightarrow> NodeFailed (PortFailed e) | Inr s' \<Rightarrow> NodeDone s'), rs))"

datatype 'r config =
    Running node "'r tutor_state" router_state
  | Suspended node "'r tutor_state" router_state approval_interrupt
  | Finished "'r tutor_state" router_state
  | Failed run_error

inductive graph_step :: "'r tutor_env \<Rightarrow> 'r config \<Rightarrow> 'r config \<Rightarrow> bool" for env where
  step_move: "run_node env n s rs = (NodeDone s', rs') \<Longrightarrow> successor env n s' = Inr (Some n') \<Longrightarrow>
     graph_step env (Running n s rs) (Running n' s' rs')"
| step_end: "run_node env n s rs = (NodeDone s', rs') \<Longrightarrow> successor env n s' = Inr None \<Longrightarrow>
     graph_step env (Running n s rs) (Finished s' rs')"
| step_route_fails: "run_node env n s rs = (NodeDone s', rs') \<Longrightarrow> successor env n s' = Inl e \<Longrightarrow>
     graph_step env (Running n s rs) (Failed (BadConfiguration e))"
| step_fails: "run_node env n s rs = (NodeFailed e, rs') \<Longrightarrow>
     graph_step env (Running n s rs) (Failed e)"
| step_suspends: "run_node env n s rs = (NodeSuspended a, rs') \<Longrightarrow>
     graph_step env (Running n s rs) (Suspended n s rs' a)"

inductive_cases step_from_running: "graph_step env (Running n s rs) c"

inductive_simps step_simps:
  "graph_step env (Finished s rs) c" "graph_step env (Failed e) c"
  "graph_step env (Suspended n s rs a) c"

text \<open>A run of a given number of steps, from the entry of the graph.\<close>

inductive graph_run :: "'r tutor_env \<Rightarrow> nat \<Rightarrow> 'r config \<Rightarrow> 'r config \<Rightarrow> bool" for env where
  run_refl: "graph_run env 0 c c"
| run_step: "graph_run env k c c' \<Longrightarrow> graph_step env c' c'' \<Longrightarrow> graph_run env (Suc k) c c''"

definition start :: "'r tutor_state \<Rightarrow> router_state \<Rightarrow> 'r config" where
  "start s rs = Running LoadContext s rs"

text \<open>What the graph relies on of the nodes it does not model: they keep the agent state and the
  recorded tool calls, and leave evidence ids distinct. The services behind them write other parts
  of the state.\<close>

definition ports_frame :: "'r tutor_env \<Rightarrow> bool" where
  "ports_frame env \<longleftrightarrow> (\<forall>n s s'. te_node env n s = Inr s' \<longrightarrow>
     ex_agent_state (wf_execution (st_workflow s')) = ex_agent_state (wf_execution (st_workflow s))
   \<and> ex_tool_calls (wf_execution (st_workflow s')) = ex_tool_calls (wf_execution (st_workflow s))
   \<and> (distinct (map ev_id (st_evidence s)) \<longrightarrow> distinct (map ev_id (st_evidence s'))))"

definition fresh_start :: "'r tutor_state \<Rightarrow> bool" where
  "fresh_start s \<longleftrightarrow> ex_agent_state (wf_execution (st_workflow s)) = None
     \<and> ex_tool_calls (wf_execution (st_workflow s)) = [] \<and> st_evidence s = []"

subsection \<open>One step\<close>

abbreviation loop_of :: "'r tutor_state \<Rightarrow> loop_state" where
  "loop_of s \<equiv> load_agent_loop_state (st_workflow s)"

abbreviation calls_of :: "'r tutor_state \<Rightarrow> tool_call_record list" where
  "calls_of s \<equiv> ex_tool_calls (wf_execution (st_workflow s))"

definition decision_limit :: "'r tutor_env \<Rightarrow> nat" where
  "decision_limit env =
     (case agent_loop_policy_from_env (te_unicode env) (te_environ env) of Inr m \<Rightarrow> m | Inl _ \<Rightarrow> 8)"

lemma decision_limit_bound: "decision_limit env \<le> 8"
  using policy_range by (auto simp: decision_limit_def split: sum.split)

lemma audit_simps [simp]:
  "st_workflow (audit e s) = st_workflow s" "st_evidence (audit e s) = st_evidence s"
  "st_decision (audit e s) = st_decision s"
  by (simp_all add: audit_def)

lemma record_tool_action_simps [simp]:
  "st_workflow (record_tool_action env ob n s) = st_workflow s"
  "st_evidence (record_tool_action env ob n s) = st_evidence s"
  by (simp_all add: record_tool_action_def)

lemma record_result_simps [simp]:
  "st_evidence (record_agent_tool_result l ob stop s) = st_evidence s"
  "loop_of (record_agent_tool_result l ob stop s)
     = l\<lparr>ls_active := (stop = None), ls_pending := None, ls_observations := ls_observations l @ [ob],
         ls_stop := stop\<rparr>"
  "length (calls_of (record_agent_tool_result l ob stop s)) = Suc (length (calls_of s))"
  by (simp_all add: record_agent_tool_result_def Let_def load_agent_loop_state_def)

lemma decide_calls: "dec_action (decide env s tools m) = ActCallTool \<Longrightarrow> dec_call (decide env s tools m) \<noteq> None"
  by (auto simp: decide_def fallback_def Let_def split: sum.splits option.splits if_splits)

lemma agent_decide_facts:
  assumes "agent_decide env s = Inr s'" "ls_count (loop_of s) \<le> decision_limit env"
  shows "st_evidence s' = st_evidence s" "calls_of s' = calls_of s"
    "ls_count (loop_of s') \<le> decision_limit env"
    "if route_after_agent_decision s' = ToolRouter
     then ls_active (loop_of s') \<and> ls_pending (loop_of s') \<noteq> None
        \<and> ls_count (loop_of s') = Suc (ls_count (loop_of s))
     else route_after_agent_decision s' = Teacher \<and> ls_count (loop_of s) \<le> ls_count (loop_of s')"
proof -
  obtain m where m: "agent_loop_policy_from_env (te_unicode env) (te_environ env) = Inr m"
    using assms(1) by (auto simp: agent_decide_def bind_res_Inr_iff)
  then have lim: "decision_limit env = m" by (simp add: decision_limit_def)
  show "st_evidence s' = st_evidence s" "calls_of s' = calls_of s"
    "ls_count (loop_of s') \<le> decision_limit env"
    using assms by (auto simp: agent_decide_def m lim Let_def save_agent_loop_state_def
        load_agent_loop_state_def split: if_splits)
  show "if route_after_agent_decision s' = ToolRouter
     then ls_active (loop_of s') \<and> ls_pending (loop_of s') \<noteq> None
        \<and> ls_count (loop_of s') = Suc (ls_count (loop_of s))
     else route_after_agent_decision s' = Teacher \<and> ls_count (loop_of s) \<le> ls_count (loop_of s')"
    using assms decide_calls [of env s "agent_tools env" m]
    by (auto simp: agent_decide_def m lim Let_def route_after_agent_decision_def split: if_splits)
qed

lemma merge_distinct:
  "merge_evidence_items es new = Inr out \<Longrightarrow> distinct (map ev_id es) \<Longrightarrow> distinct (map ev_id out)"
  using merge_evidence_out(2) by blast

text \<open>What an autonomous call leaves behind: one more recorded call and the loop closed or open as
  the stop reason says; the decision counter and the distinctness of evidence ids are kept.\<close>

definition recorded :: "loop_state \<Rightarrow> 'r tutor_state \<Rightarrow> 'r tutor_state \<Rightarrow> bool" where
  "recorded l s s' \<longleftrightarrow> ls_count (loop_of s') = ls_count l
     \<and> length (calls_of s') = Suc (length (calls_of s))
     \<and> (distinct (map ev_id (st_evidence s)) \<longrightarrow> distinct (map ev_id (st_evidence s')))"

lemma tool_failed_recorded:
  "tool_failed env c fp l code s = NodeDone s' \<Longrightarrow> recorded l s s'"
  by (auto simp: tool_failed_def recorded_def Let_def)

lemma tool_succeeded_recorded:
  "tool_succeeded env c l r s = NodeDone s' \<Longrightarrow> recorded l s s'"
  by (auto simp: tool_succeeded_def recorded_def Let_def split: sum.splits if_splits
      dest: merge_distinct)

lemma resolve_approval_recorded:
  "resolve_approval env c fp l a s = NodeDone s' \<Longrightarrow> recorded l s s'"
  by (auto simp: resolve_approval_def recorded_def Let_def
      split: option.splits approval_reply.splits sum.splits if_splits
      dest: tool_succeeded_recorded [unfolded recorded_def])

lemma autonomous_recorded:
  "autonomous_call env cfg c s rs = (NodeDone s', rs') \<Longrightarrow> recorded (loop_of s) s s'"
  by (auto simp: autonomous_call_def Let_def case_prod_unfold
      split: sum.splits tool_failure.splits
      dest: tool_succeeded_recorded tool_failed_recorded resolve_approval_recorded)

lemma requested_frame:
  "requested_call env cfg s rs = (NodeDone s', rs') \<Longrightarrow>
     st_workflow s' = st_workflow s
   \<and> (distinct (map ev_id (st_evidence s)) \<longrightarrow> distinct (map ev_id (st_evidence s')))"
  by (auto simp: requested_call_def Let_def case_prod_unfold
      split: sum.splits tool_failure.splits dest: merge_distinct)

lemma tool_router_facts:
  assumes "tool_router env s rs = (NodeDone s', rs')"
  shows "ls_count (loop_of s') = ls_count (loop_of s)"
    "distinct (map ev_id (st_evidence s)) \<longrightarrow> distinct (map ev_id (st_evidence s'))"
    "length (calls_of s') \<le> length (calls_of s)
        + (if ls_active (loop_of s) \<and> ls_pending (loop_of s) \<noteq> None then 1 else 0)"
    "\<not> ls_active (loop_of s) \<Longrightarrow> st_workflow s' = st_workflow s"
  using assms
  by (auto simp: tool_router_def Let_def recorded_def
      split: option.splits if_splits dest!: autonomous_recorded requested_frame)

lemma run_node_other:
  assumes "run_node env n s rs = (NodeDone s', rs')" "n \<noteq> AgentDecide" "n \<noteq> ToolRouter" "ports_frame env"
  shows "loop_of s' = loop_of s" "calls_of s' = calls_of s"
    "distinct (map ev_id (st_evidence s)) \<longrightarrow> distinct (map ev_id (st_evidence s'))"
  using assms
  by (cases n; auto simp: run_node_def diagnosis_def ports_frame_def load_agent_loop_state_def audit_def
      split: sum.splits)+

subsection \<open>The loop's invariant and the rank of a configuration\<close>

definition loop_inv :: "'r tutor_env \<Rightarrow> node \<Rightarrow> 'r tutor_state \<Rightarrow> bool" where
  "loop_inv env n s \<longleftrightarrow>
     ls_count (loop_of s) \<le> decision_limit env
   \<and> distinct (map ev_id (st_evidence s))
   \<and> length (calls_of s) + (if n = ToolRouter \<and> ls_active (loop_of s) then 1 else 0) \<le> ls_count (loop_of s)
   \<and> (n = LoadContext \<or> n = RetrieveContext \<longrightarrow> \<not> ls_active (loop_of s))
   \<and> (n = ToolRouter \<and> ls_active (loop_of s) \<longrightarrow> ls_pending (loop_of s) \<noteq> None)"

definition rank :: "'r tutor_env \<Rightarrow> node \<Rightarrow> 'r tutor_state \<Rightarrow> nat" where
  "rank env n s =
     (let c = decision_limit env - ls_count (loop_of s) in
      case n of
        Persist \<Rightarrow> 1 | MemoryGate \<Rightarrow> 2 | BuildAssessment \<Rightarrow> 2 | Planner \<Rightarrow> 3 | Observer \<Rightarrow> 4
      | Diagnosis \<Rightarrow> 4 | Teacher \<Rightarrow> 5 | GradeAssessment \<Rightarrow> 5
      | AgentDecide \<Rightarrow> 6 + 2 * c
      | ToolRouter \<Rightarrow> if ls_active (loop_of s) then 7 + 2 * c else 6
      | RetrieveContext \<Rightarrow> 7 + 2 * c
      | LoadContext \<Rightarrow> 8 + 2 * c)"

lemma agent_decide_step:
  assumes "run_node env AgentDecide s rs = (NodeDone s', rs')"
    "successor env AgentDecide s' = Inr (Some n')" "loop_inv env AgentDecide s"
  shows "loop_inv env n' s' \<and> rank env n' s' < rank env AgentDecide s"
proof -
  from assms(1) have d: "agent_decide env s = Inr s'" by (auto simp: run_node_def split: sum.splits)
  from assms(3) have le: "ls_count (loop_of s) \<le> decision_limit env" by (simp add: loop_inv_def)
  note facts = agent_decide_facts [OF d le]
  from assms(2) have n': "n' = route_after_agent_decision s'" by (simp add: successor_def)
  show ?thesis
  proof (cases "route_after_agent_decision s' = ToolRouter")
    case True
    with facts assms(3) n' show ?thesis by (auto simp: loop_inv_def rank_def Let_def)
  next
    case False
    with facts have t: "n' = Teacher" "ls_count (loop_of s) \<le> ls_count (loop_of s')" by (simp_all add: n')
    with facts assms(3) show ?thesis by (auto simp: loop_inv_def rank_def Let_def)
  qed
qed

lemma tool_router_step:
  assumes "run_node env ToolRouter s rs = (NodeDone s', rs')"
    "successor env ToolRouter s' = Inr (Some n')" "loop_inv env ToolRouter s"
  shows "loop_inv env n' s' \<and> rank env n' s' < rank env ToolRouter s"
proof -
  from assms(1) have t: "tool_router env s rs = (NodeDone s', rs')" by (simp add: run_node_def)
  note facts = tool_router_facts [OF t]
  from assms(2) have n': "n' = route_after_tool s'" by (simp add: successor_def)
  show ?thesis
  proof (cases "ls_active (loop_of s)")
    case True
    have "n' = AgentDecide \<or> n' = Teacher" by (simp add: n' route_after_tool_def Let_def)
    with True facts assms(3) show ?thesis by (auto simp: loop_inv_def rank_def Let_def)
  next
    case False
    with facts have w: "st_workflow s' = st_workflow s" by blast
    with False have "n' = Teacher" by (simp add: n' route_after_tool_def Let_def)
    with False w facts assms(3) show ?thesis by (auto simp: loop_inv_def rank_def Let_def)
  qed
qed

lemma other_step:
  assumes "run_node env n s rs = (NodeDone s', rs')" "successor env n s' = Inr (Some n')"
    "loop_inv env n s" "n \<noteq> AgentDecide" "n \<noteq> ToolRouter" "ports_frame env"
  shows "loop_inv env n' s' \<and> rank env n' s' < rank env n s"
proof -
  note facts = run_node_other [OF assms(1,4,5,6)]
  show ?thesis
  proof (cases n)
    case LoadContext
    with assms(2,3) facts show ?thesis
      by (cases "rq_trigger (te_request env)")
         (auto simp: successor_def loop_inv_def rank_def Let_def)
  next
    case RetrieveContext
    with assms(2) have "n' = ToolRouter \<or> n' = AgentDecide \<or> n' = Teacher"
      by (auto simp: successor_def route_after_retrieval_def bind_res_Inr_iff split: if_splits)
    with RetrieveContext assms(3) facts show ?thesis
      by (auto simp: loop_inv_def rank_def Let_def)
  next
    case Observer
    with assms(2) have "n' = Planner \<or> n' = MemoryGate"
      by (auto simp: successor_def route_after_observer_def split: if_splits)
    with Observer assms(3) facts show ?thesis
      by (auto simp: loop_inv_def rank_def Let_def)
  qed (use assms(2-5) facts in \<open>auto simp: successor_def loop_inv_def rank_def Let_def\<close>)
qed

lemma graph_step_inv:
  assumes "graph_step env (Running n s rs) (Running n' s' rs')" "loop_inv env n s" "ports_frame env"
  shows "loop_inv env n' s' \<and> rank env n' s' < rank env n s"
proof -
  from assms(1) have step: "run_node env n s rs = (NodeDone s', rs')" "successor env n s' = Inr (Some n')"
    by (auto elim: step_from_running)
  show ?thesis
  proof (cases "n = AgentDecide \<or> n = ToolRouter")
    case True
    with step assms(2) agent_decide_step tool_router_step show ?thesis by blast
  next
    case False
    with other_step [OF step assms(2) _ _ assms(3)] show ?thesis by blast
  qed
qed

lemma fresh_start_inv:
  "fresh_start s \<Longrightarrow> loop_inv env LoadContext s \<and> rank env LoadContext s = 2 * decision_limit env + 8"
  by (simp add: fresh_start_def loop_inv_def rank_def load_agent_loop_state_def initial_loop_def)

lemma rank_pos: "0 < rank env n s"
  by (cases n) (simp_all add: rank_def Let_def)

lemma graph_run_inv:
  assumes "graph_run env k (start s0 rs0) c" "fresh_start s0" "ports_frame env"
  shows "case c of
      Running n s rs \<Rightarrow> loop_inv env n s \<and> k + rank env n s \<le> 2 * decision_limit env + 8
    | _ \<Rightarrow> k \<le> 2 * decision_limit env + 8"
  using assms(1)
proof (induction k "start s0 rs0" c rule: graph_run.induct)
  case run_refl
  then show ?case using fresh_start_inv [OF assms(2)] by (simp add: start_def)
next
  case (run_step k c' c'')
  from run_step.hyps(3) obtain n s rs where c': "c' = Running n s rs"
    by (cases c') (auto simp: step_simps)
  with run_step.hyps(2) have inv: "loop_inv env n s" "k + rank env n s \<le> 2 * decision_limit env + 8"
    by simp_all
  show ?case
  proof (cases c'')
    case (Running n' s' rs')
    with graph_step_inv [OF _ inv(1) assms(3)] run_step.hyps(3) inv(2) c' show ?thesis
      by fastforce
  qed (use inv(2) rank_pos [of env n s] in simp_all)
qed

subsection \<open>Properties\<close>

text \<open>C12. The agent loop is bounded: in every configuration a run can reach, the controller has decided
  at most as often as the policy allows (never more than eight times), and every recorded tool call
  belongs to a decision of its own. The evidence of the run never holds two items with one id.\<close>

theorem agent_loop_bounded:
  assumes "graph_run env k (start s0 rs0) (Running n s rs)" "fresh_start s0" "ports_frame env"
  shows "ls_count (loop_of s) \<le> decision_limit env \<and> decision_limit env \<le> 8
    \<and> length (calls_of s) \<le> ls_count (loop_of s)
    \<and> distinct (map ev_id (st_evidence s))"
  using graph_run_inv [OF assms] decision_limit_bound [of env] by (auto simp: loop_inv_def)

text \<open>C13. Every run of the graph stops: no run has more than \<open>2 * m + 8\<close> steps for a policy of \<open>m\<close>
  decisions, so never more than 24, whatever the model answers and the tools return.\<close>

theorem graph_run_terminates:
  assumes "graph_run env k (start s0 rs0) c" "fresh_start s0" "ports_frame env"
  shows "k \<le> 2 * decision_limit env + 8 \<and> k \<le> 24"
proof -
  have "k \<le> 2 * decision_limit env + 8"
    using graph_run_inv [OF assms] by (cases c) auto
  with decision_limit_bound [of env] show ?thesis by simp
qed

lemma graph_progress: "\<exists>c. graph_step env (Running n s rs) c"
proof -
  obtain out rs' where r: "run_node env n s rs = (out, rs')" by fastforce
  show ?thesis
  proof (cases out)
    case (NodeDone s')
    show ?thesis
    proof (cases "successor env n s'")
      case (Inl e)
      with r NodeDone show ?thesis by (blast intro: step_route_fails)
    next
      case (Inr next_node)
      with r NodeDone show ?thesis by (cases next_node) (blast intro: step_end step_move)+
    qed
  next
    case (NodeFailed e)
    with r show ?thesis by (blast intro: step_fails)
  next
    case (NodeSuspended a)
    with r show ?thesis by (blast intro: step_suspends)
  qed
qed

subsection \<open>A run\<close>

definition sample_tool :: registered_tool where
  "sample_tool = \<lparr>rt_spec = \<lparr>ts_name = lit ''clock'', ts_description = lit ''time'', ts_input_schema = [],
       ts_safety = ReadOnly, ts_visible = True\<rparr>,
     rt_handler = (\<lambda>_. HReturn (Plain (JInt 7))), rt_argument_model = None, rt_legacy_handler = None,
     rt_mapper = None, rt_completion = None\<rparr>"

definition sample_env :: "unit tutor_env" where
  "sample_env = \<lparr>te_request = \<lparr>rq_trigger = Chat, rq_user_id = lit ''u'', rq_goal_id = lit ''g'',
       rq_thread_id = lit ''t'', rq_message = lit ''what time is it'', rq_tool_request = None\<rparr>,
     te_environ = (\<lambda>k. if k = ''FEATURE_AGENT_TOOL_LOOP_V1'' then Some (lit ''on'') else None),
     te_unicode = ascii_db, te_lower = id,
     te_router = Some (sample_config\<lparr>rc_registry := [(lit ''clock'', Registered sample_tool)]\<rparr>),
     te_llm = (\<lambda>_ _. Inr []),
     te_json_loads = (\<lambda>_. Some (JDict [(lit ''action'', JStr (lit ''call_tool'')),
        (lit ''tool_call'', JDict [(lit ''tool_name'', JStr (lit ''clock''))]),
        (lit ''reason_code'', JStr (lit ''external_information_needed''))])),
     te_json_hash = (\<lambda>_. lit ''h''), te_approval = None, te_node = (\<lambda>_ s. Inr s)\<rparr>"

definition sample_state :: "unit tutor_state" where
  "sample_state = \<lparr>st_workflow = sample_workflow, st_route = None, st_final_answer = [], st_decision = None,
     st_tool_results = [], st_evidence = [], st_observer = None, st_audit = [], st_actions = [],
     st_rest = ()\<rparr>"

lemma sample_env_frame: "ports_frame sample_env"
  by (auto simp: ports_frame_def sample_env_def)

lemma sample_fresh: "fresh_start sample_state"
  by (simp add: fresh_start_def sample_state_def sample_workflow_def)

lemma sample_flags: "route_after_retrieval sample_env = Inr AgentDecide"
proof -
  have strips: "strip (lit ''on'') = lit ''on''" "strip (lit ''false'') = lit ''false''"
    by (simp_all add: strip_def lstrip_def rstrip_def rstrip_of_def py_isspace_def lit_def)
  show ?thesis
    by (simp add: route_after_retrieval_def feature_flags_from_env_def feature_names_def
        validate_feature_flags_def flag_of_def strips sample_env_def has_agent_tools_def agent_tools_def
        list_agent_tools_def dict_values_def sample_tool_def Let_def)
qed

lemma sample_limit: "agent_loop_policy_from_env ascii_db (te_environ sample_env) = Inr 4"
proof -
  have "strip (lit ''4'') = lit ''4''"
    by (simp add: strip_def lstrip_def rstrip_def rstrip_of_def py_isspace_def lit_def)
  moreover have "py_int ascii_db (lit ''4'') = Some 4"
    unfolding py_int_def
    by (simp add: calculation Let_def)
       (simp add: lit_def split_on_def int_of_digits_def ascii_db_def)
  ultimately show ?thesis
    by (simp add: agent_loop_policy_from_env_def sample_env_def Let_def)
qed

lemma sample_decision: "decide sample_env s (agent_tools sample_env) 4
    = \<lparr>dec_action = ActCallTool, dec_call = Some \<lparr>atc_tool = lit ''clock'', atc_arguments = []\<rparr>,
       dec_reason = ExternalInformationNeeded\<rparr>"
  by (simp add: decide_def sample_env_def decision_of_json_def keys_within_def str_field_def require_def
      call_of_json_def reason_of_def validate_action_def agent_tools_def list_agent_tools_def
      dict_values_def sample_tool_def Let_def)

lemma sample_decide:
  obtains s where "agent_decide sample_env sample_state = Inr s" "route_after_agent_decision s = ToolRouter"
    "ls_count (loop_of s) = 1"
proof -
  have m: "agent_loop_policy_from_env (te_unicode sample_env) (te_environ sample_env) = Inr 4"
    using sample_limit by (simp add: sample_env_def)
  have l: "loop_of sample_state = initial_loop"
    by (simp add: load_agent_loop_state_def sample_state_def sample_workflow_def)
  have c: "ls_count initial_loop = 0" by (simp add: initial_loop_def)
  obtain s where s: "agent_decide sample_env sample_state = Inr s" "route_after_agent_decision s = ToolRouter"
    "ls_count (loop_of s) = 1"
    by (simp add: agent_decide_def m l c sample_decision Let_def route_after_agent_decision_def)
  then show thesis by (rule that)
qed

lemma graph_sample_run:
  obtains s rs where "graph_run sample_env 3 (start sample_state initial_router) (Running ToolRouter s rs)"
    "ls_count (loop_of s) = 1"
proof -
  obtain s where s: "agent_decide sample_env sample_state = Inr s" "route_after_agent_decision s = ToolRouter"
    "ls_count (loop_of s) = 1" by (rule sample_decide)
  have "graph_step sample_env (start sample_state initial_router) (Running RetrieveContext sample_state initial_router)"
    unfolding start_def by (rule step_move) (simp_all add: run_node_def successor_def sample_env_def)
  moreover have "graph_step sample_env (Running RetrieveContext sample_state initial_router)
      (Running AgentDecide sample_state initial_router)"
  proof (rule step_move)
    show "run_node sample_env RetrieveContext sample_state initial_router = (NodeDone sample_state, initial_router)"
      by (simp add: run_node_def sample_env_def)
  qed (simp add: successor_def sample_flags)
  moreover have "graph_step sample_env (Running AgentDecide sample_state initial_router)
      (Running ToolRouter s initial_router)"
    by (rule step_move) (simp_all add: run_node_def successor_def s)
  ultimately have "graph_run sample_env (Suc (Suc (Suc 0))) (start sample_state initial_router)
      (Running ToolRouter s initial_router)"
    by (meson run_refl run_step)
  with s(3) that show thesis by (simp add: numeral_3_eq_3)
qed

lemma agent_loop_bounded_witness:
  "\<exists>s rs. graph_run sample_env 3 (start sample_state initial_router) (Running ToolRouter s rs)
     \<and> ls_count (loop_of s) = 1 \<and> length (calls_of s) \<le> 1"
proof -
  obtain s rs where "graph_run sample_env 3 (start sample_state initial_router) (Running ToolRouter s rs)"
    "ls_count (loop_of s) = 1" by (rule graph_sample_run)
  with agent_loop_bounded [OF this(1) sample_fresh sample_env_frame] show ?thesis by auto
qed

lemma graph_run_terminates_witness:
  "\<exists>s rs. graph_run sample_env 3 (start sample_state initial_router) (Running ToolRouter s rs)
     \<and> (3::nat) \<le> 2 * decision_limit sample_env + 8"
proof -
  obtain s rs where "graph_run sample_env 3 (start sample_state initial_router) (Running ToolRouter s rs)"
    "ls_count (loop_of s) = 1" by (rule graph_sample_run)
  with graph_run_terminates [OF this(1) sample_fresh sample_env_frame] show ?thesis by blast
qed

end
