(* ===== verification/Memory_Domain.thy ===== *)
theory Memory_Domain
  imports Py_Text
begin

text \<open>
  Long-term memories: the commands that create them (src/src/adaptive_tutor/tutor/memory.py), the
  content models of the four memory types and the validation of a command
  (src/backend/app/domain/memory/validation.py, errors.py).

  A content tree is a \<open>pyvalue\<close>; \<open>VOther\<close> is a value of any other class, such as a tuple or a
  dictionary with a key that is not a string, which the code refuses. Instants are microseconds since
  the epoch in UTC. The ISO text of an instant and its reader, the canonical JSON bytes and SHA-256
  are fields of \<open>text_env\<close>.
\<close>

subsection \<open>Values, commands and errors\<close>

type_synonym py_date = "nat \<times> nat \<times> nat"

datatype pyvalue =
    VNone
  | VBool bool
  | VInt int
  | VFloat pyfloat
  | VNonFinite
  | VStr ustr
  | VDate py_date
  | VInstant int
  | VNaiveInstant
  | VList "pyvalue list"
  | VDict "(ustr \<times> pyvalue) list"
  | VOther

type_synonym content = "(ustr, pyvalue) dict"

datatype memory_type = LearningPreference | LongTermGoal | MasterySummary | LearningMilestone

datatype memory_source = ExplicitUser | LearningEvent | AssessmentSource | MasteryRecordSource | SystemDerived

datatype memory_error =
    UnsupportedMemoryType
  | InvalidMemoryContent
  | InvalidMemoryScope
  | MemoryScopeNotFound
  | MemoryNotFound
  | MemoryIdempotencyConflict
  | MemoryGateInvariantError string
  | MemoryGateLimitError
  | MemoryValueError string

record memory_command =
  mc_user :: ustr
  mc_goal :: "ustr option"
  mc_type :: memory_type
  mc_schema :: ustr
  mc_content :: content
  mc_source :: memory_source
  mc_source_ref :: "ustr option"
  mc_metadata :: content
  mc_importance :: pyfloat
  mc_confidence :: pyfloat
  mc_expires :: "int option"
  mc_key :: ustr

datatype read_instant = AwareInstant int | NaiveInstant | UnreadableInstant

record text_env =
  tx_db :: unicode_db
  tx_iso :: "int \<Rightarrow> ustr"
  tx_dump :: "int \<Rightarrow> ustr"
  tx_read :: "ustr \<Rightarrow> read_instant"
  tx_canonical :: "content \<Rightarrow> nat list"
  tx_sha :: "nat list \<Rightarrow> ustr"
  tx_utf8 :: "ustr \<Rightarrow> nat list"

subsection \<open>Normalisation of a content tree\<close>

definition forbidden_keys :: "ustr list" where
  "forbidden_keys = map lit
     [''messages'', ''raw_chat'', ''chat_history'', ''conversation_history'', ''transcript'', ''prompt'',
      ''system_prompt'', ''rag_text'', ''document_text'', ''document_content'', ''access_token'',
      ''refresh_token'', ''api_key'', ''password'']"

definition forbidden :: "text_env \<Rightarrow> ustr \<Rightarrow> bool" where
  "forbidden T key \<longleftrightarrow> u_casefold (tx_db T) (strip key) \<in> set forbidden_keys"

text \<open>The counter of visited nodes is the threaded state; the code shares it in a list of one element.\<close>

fun norm_value :: "text_env \<Rightarrow> nat \<Rightarrow> nat \<Rightarrow> pyvalue \<Rightarrow> memory_error + pyvalue \<times> nat"
  and norm_items :: "text_env \<Rightarrow> nat \<Rightarrow> nat \<Rightarrow> pyvalue list \<Rightarrow> memory_error + pyvalue list \<times> nat"
  and norm_entries :: "text_env \<Rightarrow> nat \<Rightarrow> nat \<Rightarrow> (ustr \<times> pyvalue) list \<Rightarrow> memory_error + (ustr \<times> pyvalue) list \<times> nat"
where
  "norm_value T depth nodes v =
     (if 1000 < Suc nodes \<or> 8 < depth then Inl InvalidMemoryContent
      else case v of
        VInstant t \<Rightarrow> Inr (VStr (tx_iso T t), Suc nodes)
      | VNone \<Rightarrow> Inr (v, Suc nodes)
      | VStr s \<Rightarrow> Inr (v, Suc nodes)
      | VBool b \<Rightarrow> Inr (v, Suc nodes)
      | VInt i \<Rightarrow> Inr (v, Suc nodes)
      | VFloat x \<Rightarrow> Inr (v, Suc nodes)
      | VDict d \<Rightarrow> if 100 < length d then Inl InvalidMemoryContent
                   else bind_res (norm_entries T (Suc depth) (Suc nodes) d) (\<lambda>(e, n). Inr (VDict e, n))
      | VList xs \<Rightarrow> if 100 < length xs then Inl InvalidMemoryContent
                   else bind_res (norm_items T (Suc depth) (Suc nodes) xs) (\<lambda>(ys, n). Inr (VList ys, n))
      | _ \<Rightarrow> Inl InvalidMemoryContent)"
| "norm_items T depth nodes [] = Inr ([], nodes)"
| "norm_items T depth nodes (x # xs) =
     bind_res (norm_value T depth nodes x) (\<lambda>(y, n).
       bind_res (norm_items T depth n xs) (\<lambda>(ys, m). Inr (y # ys, m)))"
| "norm_entries T depth nodes [] = Inr ([], nodes)"
| "norm_entries T depth nodes ((k, x) # d) =
     (if forbidden T k then Inl InvalidMemoryContent
      else bind_res (norm_value T depth nodes x) (\<lambda>(y, n).
        bind_res (norm_entries T depth n d) (\<lambda>(e, m). Inr ((k, y) # e, m))))"

definition normalize_dict :: "text_env \<Rightarrow> content \<Rightarrow> memory_error + content" where
  "normalize_dict T d =
     bind_res (norm_value T 1 0 (VDict d)) (\<lambda>(v, n). case v of VDict e \<Rightarrow> Inr e | _ \<Rightarrow> Inl InvalidMemoryContent)"

declare norm_value.simps [simp del]

lemma norm_idem:
  "norm_value T depth nodes v = Inr (w, n) \<Longrightarrow> norm_value T depth nodes w = Inr (w, n)"
  "norm_items T depth nodes xs = Inr (ys, n) \<Longrightarrow>
     norm_items T depth nodes ys = Inr (ys, n) \<and> length ys = length xs"
  "norm_entries T depth nodes d = Inr (e, n) \<Longrightarrow>
     norm_entries T depth nodes e = Inr (e, n) \<and> map fst e = map fst d"
proof (induction T depth nodes v and T depth nodes xs and T depth nodes d arbitrary: w n and ys n and e n
    rule: norm_value_norm_items_norm_entries.induct)
  case (1 T depth nodes v)
  have len: "length e = length d" if "map fst e = map fst d" for e d :: content
    using arg_cong [OF that, of length] by simp
  show ?case
  proof (cases v)
    case (VList xs)
    with "1.prems" obtain ys where "norm_items T (Suc depth) (Suc nodes) xs = Inr (ys, n)" "w = VList ys"
      by (auto simp: norm_value.simps [of T depth nodes "VList xs"] bind_res_Inr_iff split: if_splits)
    with "1.IH"(1) [of xs ys n] "1.prems" VList show ?thesis
      by (auto simp: norm_value.simps [of T depth nodes] split: if_splits)
  next
    case (VDict d)
    with "1.prems" obtain e where "norm_entries T (Suc depth) (Suc nodes) d = Inr (e, n)" "w = VDict e"
      by (auto simp: norm_value.simps [of T depth nodes "VDict d"] bind_res_Inr_iff split: if_splits)
    with "1.IH"(2) [of d e n] "1.prems" VDict len [of e d] show ?thesis
      by (auto simp: norm_value.simps [of T depth nodes] split: if_splits)
  qed (use "1.prems" in \<open>auto simp: norm_value.simps [of T depth nodes] split: if_splits\<close>)
next
  case (3 T depth nodes x xs)
  from "3.prems" obtain y k zs where "norm_value T depth nodes x = Inr (y, k)" "norm_items T depth k xs = Inr (zs, n)"
    "ys = y # zs" by (auto simp: bind_res_Inr_iff)
  with "3.IH"(1) [of y k] "3.IH"(2) [where ys = zs and n = n] show ?case by auto
next
  case (5 T depth nodes k x d)
  from "5.prems" obtain y m z where "norm_value T depth nodes x = Inr (y, m)" "norm_entries T depth m d = Inr (z, n)"
    "e = (k, y) # z" "\<not> forbidden T k" by (auto simp: bind_res_Inr_iff split: if_splits)
  with "5.IH"(1) [of y m] "5.IH"(2) [where e = z and n = n] show ?case by auto
qed simp_all

lemma normalize_dict_iff:
  "normalize_dict T d = Inr e \<longleftrightarrow> length d \<le> 100 \<and> (\<exists>n. norm_entries T 2 1 d = Inr (e, n))"
  unfolding normalize_dict_def norm_value.simps [of T 1 0 "VDict d"]
  by (auto simp: bind_res_Inr_iff numeral_2_eq_2 split: if_splits)

lemma normalize_dict_idem: "normalize_dict T d = Inr e \<Longrightarrow> normalize_dict T e = Inr e \<and> map fst e = map fst d"
proof -
  assume "normalize_dict T d = Inr e"
  then obtain n where d: "length d \<le> 100" "norm_entries T 2 1 d = Inr (e, n)"
    unfolding normalize_dict_iff by blast
  from norm_idem(3) [OF d(2)] have e: "norm_entries T 2 1 e = Inr (e, n)" "map fst e = map fst d" by auto
  have "length e = length d" using arg_cong [OF e(2), of length] by simp
  with d(1) e show ?thesis unfolding normalize_dict_iff by auto
qed

subsection \<open>Calendar dates\<close>

text \<open>\<open>date.fromisoformat\<close> on ten characters \<open>YYYY-MM-DD\<close> and its inverse \<open>isoformat\<close>. The code's own
  test with \<open>isdigit\<close> is weaker than the reader, whose error it maps to the same one.\<close>

definition leap_year :: "nat \<Rightarrow> bool" where
  "leap_year y \<longleftrightarrow> y mod 4 = 0 \<and> (y mod 100 \<noteq> 0 \<or> y mod 400 = 0)"

definition days_in_month :: "nat \<Rightarrow> nat \<Rightarrow> nat" where
  "days_in_month y m = (if m = 2 then (if leap_year y then 29 else 28) else if m \<in> {4, 6, 9, 11} then 30 else 31)"

fun date_ok :: "py_date \<Rightarrow> bool" where
  "date_ok (y, m, d) \<longleftrightarrow> 1 \<le> y \<and> y \<le> 9999 \<and> 1 \<le> m \<and> m \<le> 12 \<and> 1 \<le> d \<and> d \<le> days_in_month y m"

definition digit :: "nat \<Rightarrow> bool" where
  "digit c \<longleftrightarrow> 48 \<le> c \<and> c \<le> 57"

fun read_date :: "ustr \<Rightarrow> py_date option" where
  "read_date [a, b, c, d, s, e, f, t, g, h] =
     (let date = (1000 * (a - 48) + 100 * (b - 48) + 10 * (c - 48) + (d - 48),
                  10 * (e - 48) + (f - 48), 10 * (g - 48) + (h - 48))
      in if s = 45 \<and> t = 45 \<and> list_all digit [a, b, c, d, e, f, g, h] \<and> date_ok date
         then Some date else None)"
| "read_date _ = None"

fun date_text :: "py_date \<Rightarrow> ustr" where
  "date_text (y, m, d) =
     [48 + y div 1000 mod 10, 48 + y div 100 mod 10, 48 + y div 10 mod 10, 48 + y mod 10, 45,
      48 + m div 10 mod 10, 48 + m mod 10, 45, 48 + d div 10 mod 10, 48 + d mod 10]"

lemma four_digits: "1000 * (y div 1000 mod 10) + 100 * (y div 100 mod 10) + 10 * (y div 10 mod 10) + y mod 10 = y"
  if "y \<le> 9999" for y :: nat
  using that mod_mult2_eq [of y 10 10] mod_mult2_eq [of y 100 10] mod_mult2_eq [of y 1000 10] by simp

lemma two_digits: "10 * (m div 10 mod 10) + m mod 10 = m" if "m \<le> 99" for m :: nat
  using that mod_mult2_eq [of m 10 10] by simp

lemma last_digit: "m mod 10 \<le> 9" for m :: nat
  using mod_less_divisor [of 10 m] by linarith

lemma days_in_month_le: "days_in_month y m \<le> 31"
  by (simp add: days_in_month_def)

lemma read_date_text: "date_ok d \<Longrightarrow> read_date (date_text d) = Some d"
proof (cases d)
  case (fields y m k)
  assume "date_ok d"
  with fields have "y \<le> 9999" "m \<le> 99" "k \<le> 99" using days_in_month_le [of y m] by auto
  with \<open>date_ok d\<close> fields four_digits [OF \<open>y \<le> 9999\<close>] two_digits [OF \<open>m \<le> 99\<close>] two_digits [OF \<open>k \<le> 99\<close>]
  show ?thesis by (simp add: digit_def Let_def last_digit del: date_ok.simps)
qed

subsection \<open>The four content models\<close>

text \<open>The model library trims the characters of the Unicode property White_Space, which leaves out the
  four separators U+001C to U+001F that \<open>str.strip\<close> removes.\<close>

definition trim :: "ustr \<Rightarrow> ustr" where
  "trim s = strip_of (\<lambda>c. py_isspace c \<and> \<not> (28 \<le> c \<and> c \<le> 31)) s"

lemma trim_idem [simp]: "trim (trim s) = trim s"
  by (simp add: trim_def)

datatype pref_value = PText ustr | PFlag bool | PNumber pyfloat | PChoices "ustr list"

datatype memory_content =
    PreferenceContent ustr pref_value
  | GoalContent ustr ustr "py_date option"
  | MasteryContent ustr pyfloat pyfloat int ustr
  | MilestoneContent ustr ustr int "ustr list"

definition text_field :: "nat option \<Rightarrow> pyvalue option \<Rightarrow> ustr option" where
  "text_field limit v =
     (case v of
        Some (VStr s) \<Rightarrow> if trim s \<noteq> [] \<and> (\<forall>n \<in> set_option limit. length (trim s) \<le> n) then Some (trim s) else None
      | _ \<Rightarrow> None)"

definition numeric_field :: "pyfloat \<Rightarrow> pyvalue option \<Rightarrow> pyfloat option" where
  "numeric_field upper v =
     (case v of
        Some (VInt i) \<Rightarrow> if 0 \<le> i \<and> of_int i \<le> upper then Some (of_int i) else None
      | Some (VFloat x) \<Rightarrow> if 0 \<le> x \<and> x \<le> upper then Some x else None
      | _ \<Rightarrow> None)"

definition count_field :: "pyvalue option \<Rightarrow> int option" where
  "count_field v = (case v of Some (VInt i) \<Rightarrow> if 1 \<le> i then Some i else None | _ \<Rightarrow> None)"

fun text_item :: "pyvalue \<Rightarrow> ustr option" where
  "text_item (VStr s) = (if trim s = [] then None else Some (trim s))"
| "text_item _ = None"

definition texts_field :: "pyvalue option \<Rightarrow> ustr list option" where
  "texts_field v =
     (case v of
        Some (VList xs) \<Rightarrow> if xs \<noteq> [] \<and> length xs \<le> 20 \<and> list_all (\<lambda>x. text_item x \<noteq> None) xs
                          then Some (map (\<lambda>x. the (text_item x)) xs) else None
      | _ \<Rightarrow> None)"

definition preference_field :: "pyvalue option \<Rightarrow> pref_value option" where
  "preference_field v =
     (case v of
        Some (VStr s) \<Rightarrow> Some (PText (trim s))
      | Some (VBool b) \<Rightarrow> Some (PFlag b)
      | Some (VInt i) \<Rightarrow> Some (PNumber (of_int i))
      | Some (VFloat x) \<Rightarrow> Some (PNumber x)
      | _ \<Rightarrow> map_option PChoices (texts_field v))"

definition deadline_field :: "pyvalue option \<Rightarrow> py_date option option" where
  "deadline_field v =
     (case v of
        None \<Rightarrow> Some None
      | Some VNone \<Rightarrow> Some None
      | Some (VStr s) \<Rightarrow> map_option Some (read_date (strip s))
      | _ \<Rightarrow> None)"

definition instant_field :: "text_env \<Rightarrow> pyvalue option \<Rightarrow> int option" where
  "instant_field T v =
     (case v of
        Some (VStr s) \<Rightarrow>
          if 84 \<in> set (strip s) \<or> 32 \<in> set (strip s)
          then (case tx_read T (strip s) of AwareInstant t \<Rightarrow> Some t | _ \<Rightarrow> None) else None
      | _ \<Rightarrow> None)"

definition field :: "content \<Rightarrow> string \<Rightarrow> pyvalue option" where
  "field d name = map_of d (lit name)"

definition only_fields :: "string list \<Rightarrow> content \<Rightarrow> bool" where
  "only_fields names d \<longleftrightarrow> set (dict_keys d) \<subseteq> set (map lit names)"

text \<open>The text, number and list fields a model holds after parsing.\<close>

definition text_ok :: "nat option \<Rightarrow> ustr \<Rightarrow> bool" where
  "text_ok limit s \<longleftrightarrow> s \<noteq> [] \<and> trim s = s \<and> (\<forall>n \<in> set_option limit. length s \<le> n)"

definition texts_ok :: "ustr list \<Rightarrow> bool" where
  "texts_ok xs \<longleftrightarrow> xs \<noteq> [] \<and> length xs \<le> 20 \<and> list_all (text_ok None) xs"

fun pref_ok :: "pref_value \<Rightarrow> bool" where
  "pref_ok (PText s) = (trim s = s)"
| "pref_ok (PChoices xs) = texts_ok xs"
| "pref_ok _ = True"

fun content_ok :: "memory_content \<Rightarrow> bool" where
  "content_ok (PreferenceContent k v) = (text_ok (Some 64) k \<and> pref_ok v)"
| "content_ok (GoalContent t w d) = (text_ok (Some 200) t \<and> text_ok (Some 1000) w \<and> pred_option date_ok d)"
| "content_ok (MasteryContent node s c n v) =
     (text_ok None node \<and> 0 \<le> s \<and> s \<le> 100 \<and> 0 \<le> c \<and> c \<le> 1 \<and> 1 \<le> n \<and> text_ok None v)"
| "content_ok (MilestoneContent c t a refs) = (text_ok (Some 100) c \<and> text_ok (Some 300) t \<and> texts_ok refs)"

fun content_type :: "memory_content \<Rightarrow> memory_type" where
  "content_type (PreferenceContent k v) = LearningPreference"
| "content_type (GoalContent t w d) = LongTermGoal"
| "content_type (MasteryContent node s c n v) = MasterySummary"
| "content_type (MilestoneContent c t a refs) = LearningMilestone"

text \<open>\<open>model_validate\<close>: every field is read, and another key than the model's fields is refused.\<close>

definition read_fields2 :: "('a \<Rightarrow> 'b \<Rightarrow> 'c) \<Rightarrow> 'a option \<Rightarrow> 'b option \<Rightarrow> 'c option" where
  "read_fields2 f a b = (case (a, b) of (Some x, Some y) \<Rightarrow> Some (f x y) | _ \<Rightarrow> None)"

fun parse_content :: "text_env \<Rightarrow> memory_type \<Rightarrow> content \<Rightarrow> memory_content option" where
  "parse_content T LearningPreference d =
     (if \<not> only_fields [''preference_key'', ''preference_value''] d then None
      else read_fields2 PreferenceContent (text_field (Some 64) (field d ''preference_key''))
             (preference_field (field d ''preference_value'')))"
| "parse_content T LongTermGoal d =
     (if \<not> only_fields [''title'', ''target_outcome'', ''deadline''] d then None
      else read_fields2 (\<lambda>(t, w) k. GoalContent t w k)
             (read_fields2 Pair (text_field (Some 200) (field d ''title''))
               (text_field (Some 1000) (field d ''target_outcome'')))
             (deadline_field (field d ''deadline'')))"
| "parse_content T MasterySummary d =
     (if \<not> only_fields [''knowledge_node_id'', ''score'', ''confidence'', ''evidence_count'', ''calculation_version''] d
      then None
      else read_fields2 (\<lambda>((node, s), c) (n, v). MasteryContent node s c n v)
             (read_fields2 Pair
               (read_fields2 Pair (text_field None (field d ''knowledge_node_id'')) (numeric_field 100 (field d ''score'')))
               (numeric_field 1 (field d ''confidence'')))
             (read_fields2 Pair (count_field (field d ''evidence_count''))
               (text_field None (field d ''calculation_version''))))"
| "parse_content T LearningMilestone d =
     (if \<not> only_fields [''milestone_code'', ''title'', ''achieved_at'', ''evidence_refs''] d then None
      else read_fields2 (\<lambda>(c, t) (a, refs). MilestoneContent c t a refs)
             (read_fields2 Pair (text_field (Some 100) (field d ''milestone_code''))
               (text_field (Some 300) (field d ''title'')))
             (read_fields2 Pair (instant_field T (field d ''achieved_at'')) (texts_field (field d ''evidence_refs''))))"

text \<open>\<open>model_dump(mode="json")\<close>: the fields in the order of the class.\<close>

fun pref_dump :: "pref_value \<Rightarrow> pyvalue" where
  "pref_dump (PText s) = VStr s"
| "pref_dump (PFlag b) = VBool b"
| "pref_dump (PNumber x) = VFloat x"
| "pref_dump (PChoices xs) = VList (map VStr xs)"

fun dump_content :: "text_env \<Rightarrow> memory_content \<Rightarrow> content" where
  "dump_content T (PreferenceContent k v) =
     [(lit ''preference_key'', VStr k), (lit ''preference_value'', pref_dump v)]"
| "dump_content T (GoalContent t w d) =
     [(lit ''title'', VStr t), (lit ''target_outcome'', VStr w),
      (lit ''deadline'', case d of None \<Rightarrow> VNone | Some d \<Rightarrow> VStr (date_text d))]"
| "dump_content T (MasteryContent node s c n v) =
     [(lit ''knowledge_node_id'', VStr node), (lit ''score'', VFloat s), (lit ''confidence'', VFloat c),
      (lit ''evidence_count'', VInt n), (lit ''calculation_version'', VStr v)]"
| "dump_content T (MilestoneContent c t a refs) =
     [(lit ''milestone_code'', VStr c), (lit ''title'', VStr t), (lit ''achieved_at'', VStr (tx_dump T a)),
      (lit ''evidence_refs'', VList (map VStr refs))]"

subsection \<open>Parsing and dumping are inverse\<close>

lemma read_fields2_Some: "read_fields2 f a b = Some z \<longleftrightarrow> (\<exists>x y. a = Some x \<and> b = Some y \<and> z = f x y)"
  by (auto simp: read_fields2_def split: option.splits)

lemma text_field_ok: "text_field limit v = Some s \<Longrightarrow> text_ok limit s"
  by (auto simp: text_field_def text_ok_def split: option.splits pyvalue.splits if_splits)

lemma text_item_ok: "text_item x = Some s \<Longrightarrow> text_ok None s"
  by (cases x) (auto simp: text_ok_def split: if_splits)

lemma text_item_the: "\<exists>y. text_item x = Some y \<Longrightarrow> text_ok None (the (text_item x))"
  by (auto intro: text_item_ok)

lemma texts_field_ok: "texts_field v = Some xs \<Longrightarrow> texts_ok xs"
  by (auto simp: texts_field_def texts_ok_def list_all_iff intro!: text_item_the
      split: option.splits pyvalue.splits if_splits)

lemma numeric_field_ok: "numeric_field upper v = Some x \<Longrightarrow> 0 \<le> x \<and> x \<le> upper"
  by (auto simp: numeric_field_def split: option.splits pyvalue.splits if_splits)

lemma count_field_ok: "count_field v = Some n \<Longrightarrow> 1 \<le> n"
  by (auto simp: count_field_def split: option.splits pyvalue.splits if_splits)

lemma preference_field_ok: "preference_field v = Some p \<Longrightarrow> pref_ok p"
  by (auto simp: preference_field_def dest: texts_field_ok split: option.splits pyvalue.splits)

lemma read_date_ok: "read_date s = Some d \<Longrightarrow> date_ok d"
  by (cases s rule: read_date.cases) (auto simp: Let_def simp del: date_ok.simps split: if_splits)

lemma deadline_field_ok: "deadline_field v = Some d \<Longrightarrow> pred_option date_ok d"
  by (auto simp: deadline_field_def dest: read_date_ok split: option.splits pyvalue.splits)

lemma parse_content_ok: "parse_content T ty d = Some c \<Longrightarrow> content_ok c \<and> content_type c = ty"
  by (cases ty) (auto simp: read_fields2_Some simp del: date_ok.simps split: if_splits
      dest: text_field_ok texts_field_ok numeric_field_ok count_field_ok preference_field_ok deadline_field_ok)

text \<open>What the code relies on of the text ports: \<open>datetime.fromisoformat\<close> reads back what pydantic and
  \<open>isoformat\<close> write (the trailing Z from Python 3.11 on), and case folding keeps lower case ASCII.\<close>

definition text_env_ok :: "text_env \<Rightarrow> bool" where
  "text_env_ok T \<longleftrightarrow>
     (\<forall>t. strip (tx_dump T t) = tx_dump T t \<and> 84 \<in> set (tx_dump T t) \<and> tx_read T (tx_dump T t) = AwareInstant t)
   \<and> (\<forall>t. strip (tx_iso T t) = tx_iso T t \<and> 84 \<in> set (tx_iso T t) \<and> tx_read T (tx_iso T t) = AwareInstant t)
   \<and> (\<forall>s. (\<forall>c \<in> set s. 97 \<le> c \<and> c \<le> 122 \<or> c = 95) \<longrightarrow> u_casefold (tx_db T) s = s)"

lemma text_field_back: "text_ok limit s \<Longrightarrow> text_field limit (Some (VStr s)) = Some s"
  by (simp add: text_field_def text_ok_def)

lemma texts_field_back: "texts_ok xs \<Longrightarrow> texts_field (Some (VList (map VStr xs))) = Some xs"
  by (auto simp: texts_field_def texts_ok_def text_ok_def list_all_iff o_def intro: map_idI)

lemma preference_field_back: "pref_ok p \<Longrightarrow> preference_field (Some (pref_dump p)) = Some p"
  by (cases p) (simp_all add: preference_field_def texts_field_back)

lemma dropWhile_none: "\<forall>c \<in> set s. \<not> p c \<Longrightarrow> dropWhile p s = s"
  by (cases s) auto

lemma strip_no_space: "\<forall>c \<in> set s. \<not> py_isspace c \<Longrightarrow> strip s = s"
  by (simp add: strip_def rstrip_def lstrip_def rstrip_of_def dropWhile_none)

lemma strip_date_text: "strip (date_text d) = date_text d"
proof (rule strip_no_space)
  have "48 + n mod 10 < 58" for n :: nat using last_digit [of n] by linarith
  then show "\<forall>c \<in> set (date_text d). \<not> py_isspace c"
    by (cases d) (fastforce simp: py_isspace_def)
qed

lemma deadline_field_back:
  "pred_option date_ok d \<Longrightarrow> deadline_field (Some (case d of None \<Rightarrow> VNone | Some d \<Rightarrow> VStr (date_text d))) = Some d"
  by (cases d) (simp_all add: deadline_field_def strip_date_text read_date_text del: date_text.simps date_ok.simps)

lemma instant_field_back:
  "text_env_ok T \<Longrightarrow> instant_field T (Some (VStr (tx_dump T t))) = Some t"
  "text_env_ok T \<Longrightarrow> instant_field T (Some (VStr (tx_iso T t))) = Some t"
  by (simp_all add: instant_field_def text_env_ok_def)

lemmas fields_back = text_field_back texts_field_back preference_field_back deadline_field_back instant_field_back

lemma parse_dump:
  assumes "text_env_ok T" "content_ok c"
  shows "parse_content T (content_type c) (dump_content T c) = Some c"
  using assms
  by (cases c) (simp_all add: only_fields_def dict_keys_def field_def fields_back read_fields2_def numeric_field_def
      count_field_def)

subsection \<open>Normalising a dumped content changes nothing\<close>

definition flat :: "pyvalue \<Rightarrow> bool" where
  "flat v \<longleftrightarrow> v = VNone \<or> (\<exists>b. v = VBool b) \<or> (\<exists>i. v = VInt i) \<or> (\<exists>x. v = VFloat x) \<or> (\<exists>s. v = VStr s)
     \<or> (\<exists>xs. v = VList (map VStr xs) \<and> length xs \<le> 20)"

lemma norm_texts:
  "n + length xs \<le> 1000 \<Longrightarrow> norm_items T 3 n (map VStr xs) = Inr (map VStr xs, n + length xs)"
  by (induction xs arbitrary: n) (simp_all add: norm_value.simps [of T 3 _ "VStr _"])

lemma norm_flat: "flat v \<Longrightarrow> n + 21 \<le> 1000 \<Longrightarrow> \<exists>m \<le> n + 21. norm_value T 2 n v = Inr (v, m)"
  using norm_texts [of "Suc n" _ T]
  by (auto simp: flat_def norm_value.simps numeral_3_eq_3 numeral_2_eq_2)

lemma norm_flat_entries:
  "list_all (\<lambda>(k, v). \<not> forbidden T k \<and> flat v) d \<Longrightarrow> n + 21 * length d \<le> 1000 \<Longrightarrow>
     \<exists>m. norm_entries T 2 n d = Inr (d, m)"
proof (induction d arbitrary: n)
  case (Cons e d)
  obtain k v where e: "e = (k, v)" by (cases e)
  with Cons.prems norm_flat [of v n T] obtain m where "m \<le> n + 21" "norm_value T 2 n v = Inr (v, m)"
    by auto
  with Cons.IH [of m] Cons.prems e show ?case by auto
qed simp

lemma lower_no_space: "97 \<le> c \<and> c \<le> 122 \<or> c = 95 \<Longrightarrow> \<not> py_isspace c"
  by (auto simp: py_isspace_def)

text \<open>The keys of the contents and of the metadata the code itself writes.\<close>

definition field_names :: "string list" where
  "field_names = [''preference_key'', ''preference_value'', ''title'', ''target_outcome'', ''deadline'',
     ''knowledge_node_id'', ''score'', ''confidence'', ''evidence_count'', ''calculation_version'',
     ''milestone_code'', ''achieved_at'', ''evidence_refs'', ''assessment_id'']"

lemma field_names_lower: "list_all (\<lambda>f. list_all (\<lambda>c. 97 \<le> c \<and> c \<le> 122 \<or> c = 95) (lit f)) field_names"
  by code_simp

lemma field_names_allowed: "list_all (\<lambda>f. lit f \<notin> set forbidden_keys) field_names"
  by code_simp

lemma forbidden_field:
  assumes "text_env_ok T" "f \<in> set field_names"
  shows "\<not> forbidden T (lit f)"
proof -
  from assms(2) field_names_lower have *: "\<forall>c \<in> set (lit f). 97 \<le> c \<and> c \<le> 122 \<or> c = 95"
    unfolding list_all_iff by blast
  then have "strip (lit f) = lit f" by (intro strip_no_space) (metis lower_no_space)
  with * assms field_names_allowed show ?thesis by (auto simp: forbidden_def text_env_ok_def list_all_iff)
qed

lemma normalize_dump:
  assumes "text_env_ok T" "content_ok c"
  shows "normalize_dict T (dump_content T c) = Inr (dump_content T c)"
proof -
  have len: "length (dump_content T c) \<le> 5" by (cases c) auto
  have names: "fst ` set (dump_content T c) \<subseteq> lit ` set field_names"
    by (cases c) (auto simp: field_names_def)
  have flat: "\<forall>v \<in> snd ` set (dump_content T c). flat v"
  proof (cases c)
    case (PreferenceContent k v)
    with assms(2) show ?thesis by (cases v) (auto simp: flat_def texts_ok_def)
  next
    case (GoalContent t w d)
    then show ?thesis by (cases d) (auto simp: flat_def)
  qed (use assms(2) in \<open>auto simp: flat_def texts_ok_def\<close>)
  have "list_all (\<lambda>(k, v). \<not> forbidden T k \<and> flat v) (dump_content T c)"
    unfolding list_all_iff
  proof (intro ballI, clarify, intro conjI)
    fix k v assume "(k, v) \<in> set (dump_content T c)"
    then have "k \<in> fst ` set (dump_content T c)" "v \<in> snd ` set (dump_content T c)" by force+
    with names flat obtain f where "k = lit f" "f \<in> set field_names" "flat v" by blast
    with forbidden_field [OF assms(1)] show "\<not> forbidden T k" "flat v" by simp_all
  qed
  from norm_flat_entries [OF this, of 1] len show ?thesis unfolding normalize_dict_iff by simp
qed

subsection \<open>Validation of a command\<close>

definition validate_scope :: "memory_command \<Rightarrow> memory_error + unit" where
  "validate_scope cmd =
     (if mc_type cmd = LearningPreference \<and> mc_goal cmd \<noteq> None then Inl InvalidMemoryScope
      else require (\<not> (mc_type cmd \<in> {MasterySummary, LearningMilestone} \<and> mc_goal cmd = None)) InvalidMemoryScope)"

definition validate_source :: "memory_command \<Rightarrow> memory_error + unit" where
  "validate_source cmd =
     (if mc_source_ref cmd = Some [] then Inl InvalidMemoryContent
      else require (\<not> (mc_source cmd \<noteq> ExplicitUser \<and> mc_source_ref cmd \<in> {None, Some []})) InvalidMemoryContent)"

definition thirty_days :: int where
  "thirty_days = 30 * 24 * 60 * 60 * 1000000"

definition validate_expiry :: "int \<Rightarrow> memory_command \<Rightarrow> memory_error + unit" where
  "validate_expiry now cmd =
     (let expires = mc_expires cmd in
      if mc_type cmd = MasterySummary \<and> (case expires of None \<Rightarrow> True | Some t \<Rightarrow> now + thirty_days < t)
      then Inl InvalidMemoryContent
      else if mc_type cmd = LearningMilestone \<and> expires \<noteq> None then Inl InvalidMemoryContent
      else require (case expires of None \<Rightarrow> True | Some t \<Rightarrow> \<not> t \<le> now) InvalidMemoryContent)"

definition raw_content :: "memory_command \<Rightarrow> content" where
  "raw_content cmd =
     (case (mc_type cmd, field (mc_content cmd) ''deadline'') of
        (LongTermGoal, Some (VDate d)) \<Rightarrow> dict_set (lit ''deadline'') (VStr (date_text d)) (mc_content cmd)
      | _ \<Rightarrow> mc_content cmd)"

definition validate_memory_command :: "text_env \<Rightarrow> int \<Rightarrow> memory_command \<Rightarrow> memory_error + memory_command \<times> ustr" where
  "validate_memory_command T now cmd =
     bind_res (validate_scope cmd) (\<lambda>_.
     bind_res (validate_source cmd) (\<lambda>_.
     bind_res (validate_expiry now cmd) (\<lambda>_.
     bind_res (normalize_dict T (raw_content cmd)) (\<lambda>normalized.
     bind_res (normalize_dict T (mc_metadata cmd)) (\<lambda>metadata.
       case parse_content T (mc_type cmd) normalized of
         None \<Rightarrow> Inl InvalidMemoryContent
       | Some c \<Rightarrow>
           (let content = dump_content T c; encoded = tx_canonical T content in
            if 8192 < length encoded then Inl InvalidMemoryContent
            else Inr (cmd\<lparr>mc_content := content, mc_metadata := metadata\<rparr>, tx_sha T encoded)))))))"

text \<open>What a normalised tree is: JSON values only, at most eight levels, no forbidden key.\<close>

fun clean_value :: "text_env \<Rightarrow> nat \<Rightarrow> pyvalue \<Rightarrow> bool"
  and clean_items :: "text_env \<Rightarrow> nat \<Rightarrow> pyvalue list \<Rightarrow> bool"
  and clean_entries :: "text_env \<Rightarrow> nat \<Rightarrow> (ustr \<times> pyvalue) list \<Rightarrow> bool"
where
  "clean_value T depth (VDict d) \<longleftrightarrow> depth \<le> 8 \<and> length d \<le> 100 \<and> clean_entries T (Suc depth) d"
| "clean_value T depth (VList xs) \<longleftrightarrow> depth \<le> 8 \<and> length xs \<le> 100 \<and> clean_items T (Suc depth) xs"
| "clean_value T depth v \<longleftrightarrow> depth \<le> 8 \<and> (v = VNone \<or> (\<exists>b. v = VBool b) \<or> (\<exists>i. v = VInt i)
     \<or> (\<exists>x. v = VFloat x) \<or> (\<exists>s. v = VStr s))"
| "clean_items T depth [] \<longleftrightarrow> True"
| "clean_items T depth (x # xs) \<longleftrightarrow> clean_value T depth x \<and> clean_items T depth xs"
| "clean_entries T depth [] \<longleftrightarrow> True"
| "clean_entries T depth ((k, x) # d) \<longleftrightarrow> \<not> forbidden T k \<and> clean_value T depth x \<and> clean_entries T depth d"

lemma norm_clean:
  "norm_value T depth nodes v = Inr (w, n) \<Longrightarrow> clean_value T depth w"
  "norm_items T depth nodes xs = Inr (ys, n) \<Longrightarrow> clean_items T depth ys \<and> length ys = length xs"
  "norm_entries T depth nodes d = Inr (e, n) \<Longrightarrow> clean_entries T depth e \<and> length e = length d"
proof (induction T depth nodes v and T depth nodes xs and T depth nodes d arbitrary: w n and ys n and e n
    rule: norm_value_norm_items_norm_entries.induct)
  case (1 T depth nodes v)
  then show ?case
    by (cases v) (auto simp: norm_value.simps [of T depth nodes "VList _"] norm_value.simps [of T depth nodes "VDict _"]
        norm_value.simps [of T depth nodes VNone] norm_value.simps [of T depth nodes "VBool _"]
        norm_value.simps [of T depth nodes "VInt _"] norm_value.simps [of T depth nodes "VFloat _"]
        norm_value.simps [of T depth nodes "VStr _"] norm_value.simps [of T depth nodes "VInstant _"]
        norm_value.simps [of T depth nodes VNonFinite] norm_value.simps [of T depth nodes VNaiveInstant]
        norm_value.simps [of T depth nodes "VDate _"] norm_value.simps [of T depth nodes VOther]
        bind_res_Inr_iff split: if_splits)
next
  case (3 T depth nodes x xs)
  from "3.prems" obtain y k zs where "norm_value T depth nodes x = Inr (y, k)" "norm_items T depth k xs = Inr (zs, n)"
    "ys = y # zs" by (auto simp: bind_res_Inr_iff)
  with "3.IH"(1) [of y k] "3.IH"(2) [where ys = zs and n = n] show ?case by auto
next
  case (5 T depth nodes k x d)
  from "5.prems" obtain y m z where "norm_value T depth nodes x = Inr (y, m)" "norm_entries T depth m d = Inr (z, n)"
    "e = (k, y) # z" "\<not> forbidden T k" by (auto simp: bind_res_Inr_iff split: if_splits)
  with "5.IH"(1) [of y m] "5.IH"(2) [where e = z and n = n] show ?case by auto
qed simp_all

lemma normalize_dict_clean: "normalize_dict T d = Inr e \<Longrightarrow> clean_entries T 2 e"
  using norm_clean(3) unfolding normalize_dict_iff by blast

lemma validate_parts:
  assumes "validate_memory_command T now cmd = Inr (v, h)"
  obtains c metadata where "validate_scope cmd = Inr ()" "validate_source cmd = Inr ()" "validate_expiry now cmd = Inr ()"
    "normalize_dict T (mc_metadata cmd) = Inr metadata" "content_ok c" "content_type c = mc_type cmd"
    "length (tx_canonical T (dump_content T c)) \<le> 8192" "h = tx_sha T (tx_canonical T (dump_content T c))"
    "v = cmd\<lparr>mc_content := dump_content T c, mc_metadata := metadata\<rparr>"
proof -
  from assms obtain normalized metadata where n: "validate_scope cmd = Inr ()" "validate_source cmd = Inr ()"
    "validate_expiry now cmd = Inr ()" "normalize_dict T (mc_metadata cmd) = Inr metadata"
    "(case parse_content T (mc_type cmd) normalized of None \<Rightarrow> Inl InvalidMemoryContent
      | Some c \<Rightarrow> (let content = dump_content T c; encoded = tx_canonical T content in
          if 8192 < length encoded then Inl InvalidMemoryContent
          else Inr (cmd\<lparr>mc_content := content, mc_metadata := metadata\<rparr>, tx_sha T encoded))) = Inr (v, h)"
    unfolding validate_memory_command_def bind_res_Inr_iff by auto
  from n(5) obtain c where c: "parse_content T (mc_type cmd) normalized = Some c"
    "length (tx_canonical T (dump_content T c)) \<le> 8192" "h = tx_sha T (tx_canonical T (dump_content T c))"
    "v = cmd\<lparr>mc_content := dump_content T c, mc_metadata := metadata\<rparr>"
    by (auto simp: Let_def split: option.splits if_splits)
  from parse_content_ok [OF c(1)] show thesis using that [of metadata c] n(1-4) c(2-4) by blast
qed

lemma validate_same:
  "mc_type v = mc_type cmd \<Longrightarrow> mc_goal v = mc_goal cmd \<Longrightarrow> validate_scope v = validate_scope cmd"
  "mc_source v = mc_source cmd \<Longrightarrow> mc_source_ref v = mc_source_ref cmd \<Longrightarrow> validate_source v = validate_source cmd"
  "mc_type v = mc_type cmd \<Longrightarrow> mc_expires v = mc_expires cmd \<Longrightarrow> validate_expiry now v = validate_expiry now cmd"
  by (simp_all only: validate_scope_def validate_source_def validate_expiry_def)

lemma raw_content_dumped:
  "content_type c = mc_type cmd \<Longrightarrow> raw_content (cmd\<lparr>mc_content := dump_content T c, mc_metadata := m\<rparr>) = dump_content T c"
  by (cases c) (auto simp: raw_content_def field_def split: option.splits)

lemma validate_again:
  assumes T: "text_env_ok T" and v: "validate_memory_command T now cmd = Inr (v, h)"
    and later: "validate_expiry later cmd = Inr ()"
  shows "validate_memory_command T later v = Inr (v, h)"
proof -
  from v obtain c metadata where c: "validate_scope cmd = Inr ()" "validate_source cmd = Inr ()"
    "validate_expiry now cmd = Inr ()" "normalize_dict T (mc_metadata cmd) = Inr metadata" "content_ok c" "content_type c = mc_type cmd"
    "length (tx_canonical T (dump_content T c)) \<le> 8192" "h = tx_sha T (tx_canonical T (dump_content T c))"
    "v = cmd\<lparr>mc_content := dump_content T c, mc_metadata := metadata\<rparr>"
    by (rule validate_parts)
  have fields: "mc_type v = mc_type cmd" "mc_goal v = mc_goal cmd" "mc_source v = mc_source cmd"
    "mc_source_ref v = mc_source_ref cmd" "mc_expires v = mc_expires cmd" "mc_metadata v = metadata"
    by (simp_all add: c(9))
  note same = fields(1,6) validate_same(1) [OF fields(1,2)] validate_same(2) [OF fields(3,4)]
    validate_same(3) [OF fields(1,5), of later]
  have "raw_content v = dump_content T c" unfolding c(9) by (rule raw_content_dumped [OF c(6)])
  moreover have "parse_content T (mc_type v) (dump_content T c) = Some c"
    using parse_dump [OF T c(5)] c(6) same(1) by simp
  ultimately show ?thesis
    using c later normalize_dump [OF T c(5)] normalize_dict_idem [OF c(4)] same
    by (simp add: validate_memory_command_def Let_def)
qed

text \<open>C29. What validation makes of a command. Its content is the dump of a well-formed value of the model
  of its type, its metadata a JSON tree of at most eight levels without a forbidden key, all other
  fields are those of the command, the hash is that of the dumped content, and validating the result
  again, as the repository does, changes nothing.\<close>

theorem validated_command_canonical:
  assumes "text_env_ok T" "validate_memory_command T now cmd = Inr (v, h)"
  shows "(\<exists>c. content_ok c \<and> content_type c = mc_type cmd \<and> mc_content v = dump_content T c
              \<and> h = tx_sha T (tx_canonical T (dump_content T c)))
    \<and> clean_entries T 2 (mc_metadata v)
    \<and> v = cmd\<lparr>mc_content := mc_content v, mc_metadata := mc_metadata v\<rparr>
    \<and> validate_memory_command T now v = Inr (v, h)"
proof -
  from assms(2) obtain c metadata where c: "validate_scope cmd = Inr ()" "validate_source cmd = Inr ()"
    "validate_expiry now cmd = Inr ()"
    "normalize_dict T (mc_metadata cmd) = Inr metadata" "content_ok c" "content_type c = mc_type cmd"
    "length (tx_canonical T (dump_content T c)) \<le> 8192" "h = tx_sha T (tx_canonical T (dump_content T c))"
    "v = cmd\<lparr>mc_content := dump_content T c, mc_metadata := metadata\<rparr>"
    by (rule validate_parts)
  from validate_again [OF assms c(3)] normalize_dict_clean [OF c(4)] c(5-9) show ?thesis by auto
qed

text \<open>A sample environment: the ISO text of an instant is its number in unary between two letters T.\<close>

definition unary_instant :: "int \<Rightarrow> ustr" where
  "unary_instant t = 84 # replicate (if 0 \<le> t then 2 * nat t else 2 * nat (- t) + 1) 48 @ [84]"

definition sample_text_env :: text_env where
  "sample_text_env =
     \<lparr>tx_db = ascii_db, tx_iso = unary_instant, tx_dump = unary_instant,
      tx_read = (\<lambda>s. let n = length s - 2 in AwareInstant (if even n then int (n div 2) else - int (n div 2))),
      tx_canonical = (\<lambda>c. concat (map fst c)), tx_sha = (\<lambda>b. replicate 64 (97 + sum_list b mod 6)), tx_utf8 = (\<lambda>s. s)\<rparr>"

lemma sample_text_env_ok: "text_env_ok sample_text_env"
proof -
  have "strip (unary_instant t) = unary_instant t" for t
    by (rule strip_no_space) (auto simp: unary_instant_def py_isspace_def)
  moreover have "map (\<lambda>c. if 65 \<le> c \<and> c \<le> 90 then c + 32 else c) s = s"
    if "\<forall>c \<in> set s. 97 \<le> c \<and> c \<le> 122 \<or> c = 95" for s :: ustr
    using that by (intro map_idI) force
  ultimately show ?thesis by (simp add: text_env_ok_def sample_text_env_def ascii_db_def unary_instant_def)
qed

definition sample_preference :: memory_command where
  "sample_preference =
     \<lparr>mc_user = [1], mc_goal = None, mc_type = LearningPreference, mc_schema = lit ''memory-v1'',
      mc_content = [(lit ''preference_key'', VStr (lit '' tempo '')), (lit ''preference_value'', VStr (lit ''slow''))],
      mc_source = ExplicitUser, mc_source_ref = None, mc_metadata = [(lit ''title'', VInstant 7)],
      mc_importance = 1 / 2, mc_confidence = 1, mc_expires = None, mc_key = [2]\<rparr>"

lemma sample_validated:
  "validate_memory_command sample_text_env 0 sample_preference =
     Inr (sample_preference\<lparr>mc_content := [(lit ''preference_key'', VStr (lit ''tempo'')),
                                         (lit ''preference_value'', VStr (lit ''slow''))],
                           mc_metadata := [(lit ''title'', VStr (unary_instant 7))]\<rparr>,
          tx_sha sample_text_env (lit ''preference_key'' @ lit ''preference_value''))"
proof -
  have instant: "norm_value sample_text_env 2 (Suc 0) (VInstant 7) = Inr (VStr (unary_instant 7), 2)"
    by (simp add: norm_value.simps [of _ 2 "Suc 0" "VInstant 7"]) (simp add: sample_text_env_def)
  note allowed = forbidden_field [OF sample_text_env_ok, unfolded field_names_def, simplified]
  have "list_all (\<lambda>(k, v). \<not> forbidden sample_text_env k \<and> flat v) (mc_content sample_preference)"
    by (simp add: sample_preference_def flat_def allowed)
  from norm_flat_entries [OF this, of 1]
  have "normalize_dict sample_text_env (raw_content sample_preference) = Inr (mc_content sample_preference)"
    unfolding normalize_dict_iff by (simp add: raw_content_def sample_preference_def)
  moreover have "normalize_dict sample_text_env (mc_metadata sample_preference) = Inr [(lit ''title'', VStr (unary_instant 7))]"
    unfolding normalize_dict_iff by (simp add: sample_preference_def allowed instant)
  moreover have "parse_content sample_text_env LearningPreference (mc_content sample_preference)
      = Some (PreferenceContent (lit ''tempo'') (PText (lit ''slow'')))"
  proof -
    have "trim (lit '' tempo '') = lit ''tempo''" "trim (lit ''slow'') = lit ''slow''"
      by (simp_all add: trim_def strip_of_def rstrip_of_def py_isspace_def lit_def)
    then show ?thesis
      by (simp add: sample_preference_def only_fields_def dict_keys_def field_def read_fields2_def text_field_def
          preference_field_def) (simp add: lit_def)
  qed
  moreover have "validate_scope sample_preference = Inr ()" "validate_source sample_preference = Inr ()"
    "validate_expiry 0 sample_preference = Inr ()" "mc_type sample_preference = LearningPreference"
    by (simp_all add: validate_scope_def validate_source_def validate_expiry_def sample_preference_def require_def)
  ultimately show ?thesis
    by (simp add: validate_memory_command_def Let_def) (simp add: sample_text_env_def lit_def)
qed

theorem validated_command_canonical_witness:
  "\<exists>v h. validate_memory_command sample_text_env 0 sample_preference = Inr (v, h) \<and> clean_entries sample_text_env 2 (mc_metadata v)"
  using validated_command_canonical [OF sample_text_env_ok sample_validated] sample_validated by blast

end
