(* ===== verification/Memory_Gate.thy ===== *)
theory Memory_Gate
  imports Memory_Domain
begin

text \<open>
  Which memories may be written: candidates and privacy settings (src/src/adaptive_tutor/tutor/memory.py),
  the gate (src/backend/app/domain/memory/gate.py), the candidates derived from an assessment
  (src/backend/app/application/memory_candidate_service.py) and the call that combines explicit and
  derived candidates (memory_gate_service.py).
\<close>

subsection \<open>Candidates, settings and decisions\<close>

datatype candidate_origin = ExplicitStatement | SystemInference | LearningResult

record memory_candidate =
  ca_id :: ustr
  ca_origin :: candidate_origin
  ca_command :: memory_command
  ca_semantic :: ustr

record privacy_settings =
  ps_enabled :: bool
  ps_explicit :: bool
  ps_inference :: bool
  ps_results :: bool

datatype decision_kind = Approved | Rejected

record memory_decision =
  de_candidate :: memory_candidate
  de_kind :: decision_kind
  de_reason :: string

subsection \<open>The gate\<close>

fun origin_sources :: "candidate_origin \<Rightarrow> memory_source set" where
  "origin_sources ExplicitStatement = {ExplicitUser}"
| "origin_sources SystemInference = {SystemDerived}"
| "origin_sources LearningResult = {AssessmentSource, MasteryRecordSource, LearningEvent}"

definition check_candidate :: "text_env \<Rightarrow> ustr \<Rightarrow> ustr \<Rightarrow> int \<Rightarrow> memory_candidate \<Rightarrow> memory_error + unit" where
  "check_candidate T user goal now c =
     (let cmd = ca_command c in
      if mc_user cmd \<noteq> user then Inl (MemoryGateInvariantError ''user ownership'')
      else if mc_goal cmd \<noteq> None \<and> mc_goal cmd \<noteq> Some goal then Inl (MemoryGateInvariantError ''goal ownership'')
      else if mc_source cmd \<notin> origin_sources (ca_origin c) then Inl (MemoryGateInvariantError ''source mapping'')
      else (case validate_memory_command T now cmd of
              Inl e \<Rightarrow> Inl (MemoryGateInvariantError ''command'')
            | Inr v \<Rightarrow> Inr ()))"

fun origin_allowed :: "privacy_settings \<Rightarrow> candidate_origin \<Rightarrow> bool" where
  "origin_allowed s ExplicitStatement = ps_explicit s"
| "origin_allowed s SystemInference = ps_inference s"
| "origin_allowed s LearningResult = ps_results s"

definition privacy_rejection :: "privacy_settings \<Rightarrow> memory_candidate \<Rightarrow> string option" where
  "privacy_rejection s c =
     (if \<not> ps_enabled s then Some ''memory_privacy_disabled''
      else if origin_allowed s (ca_origin c) then None else Some ''source_privacy_disabled'')"

definition meets_confidence :: "memory_candidate \<Rightarrow> bool" where
  "meets_confidence c =
     (let cmd = ca_command c in
      if ca_origin c = SystemInference then 85 / 100 \<le> mc_confidence cmd
      else if mc_type cmd = MasterySummary
      then 6 / 10 \<le> mc_confidence cmd
           \<and> (case field (mc_content cmd) ''confidence'' of
                 Some (VInt i) \<Rightarrow> 6 / 10 \<le> (of_int i :: pyfloat)
               | Some (VFloat x) \<Rightarrow> 6 / 10 \<le> x
               | _ \<Rightarrow> False)
      else if mc_type cmd = LearningMilestone then 7 / 10 \<le> mc_confidence cmd
      else True)"

definition reject :: "memory_candidate \<Rightarrow> string \<Rightarrow> memory_decision" where
  "reject c reason = \<lparr>de_candidate = c, de_kind = Rejected, de_reason = reason\<rparr>"

definition judge :: "privacy_settings \<Rightarrow> memory_candidate \<Rightarrow> memory_decision" where
  "judge s c =
     (case privacy_rejection s c of
        Some reason \<Rightarrow> reject c reason
      | None \<Rightarrow>
          if \<not> meets_confidence c then reject c ''confidence_below_threshold''
          else \<lparr>de_candidate = c, de_kind = Approved, de_reason = ''policy_approved''\<rparr>)"

fun gate_loop ::
  "text_env \<Rightarrow> privacy_settings \<Rightarrow> ustr \<Rightarrow> ustr \<Rightarrow> int \<Rightarrow> ustr set \<Rightarrow> memory_candidate list \<Rightarrow> memory_error + memory_decision list"
where
  "gate_loop T s user goal now seen [] = Inr []"
| "gate_loop T s user goal now seen (c # cs) =
     bind_res (check_candidate T user goal now c) (\<lambda>_.
       let key = mc_key (ca_command c) in
       bind_res (gate_loop T s user goal now (insert key seen) cs) (\<lambda>ds.
         Inr ((if key \<in> seen then reject c ''duplicate_idempotency_key'' else judge s c) # ds)))"

definition candidate_limit :: nat where
  "candidate_limit = 32"

definition evaluate_memory_candidates ::
  "text_env \<Rightarrow> privacy_settings \<Rightarrow> ustr \<Rightarrow> ustr \<Rightarrow> int \<Rightarrow> memory_candidate list \<Rightarrow> memory_error + memory_decision list"
where
  "evaluate_memory_candidates T s user goal now cs =
     (if candidate_limit < length cs then Inl MemoryGateLimitError else gate_loop T s user goal now {} cs)"

subsection \<open>What an approved candidate has passed\<close>

definition approvable :: "text_env \<Rightarrow> privacy_settings \<Rightarrow> ustr \<Rightarrow> ustr \<Rightarrow> int \<Rightarrow> memory_candidate \<Rightarrow> bool" where
  "approvable T s user goal now c \<longleftrightarrow>
     mc_user (ca_command c) = user \<and> mc_goal (ca_command c) \<in> {None, Some goal}
   \<and> mc_source (ca_command c) \<in> origin_sources (ca_origin c)
   \<and> is_ok (validate_memory_command T now (ca_command c))
   \<and> ps_enabled s \<and> origin_allowed s (ca_origin c) \<and> meets_confidence c"

definition approved :: "memory_decision list \<Rightarrow> memory_decision list" where
  "approved ds = filter (\<lambda>d. de_kind d = Approved) ds"

lemma check_candidate_ok:
  "check_candidate T user goal now c = Inr u \<longleftrightarrow>
     mc_user (ca_command c) = user \<and> mc_goal (ca_command c) \<in> {None, Some goal}
   \<and> mc_source (ca_command c) \<in> origin_sources (ca_origin c)
   \<and> is_ok (validate_memory_command T now (ca_command c))"
  by (auto simp: check_candidate_def Let_def is_ok_iff split: sum.splits)

lemma judge_approved: "de_kind (judge s c) = Approved \<longleftrightarrow> ps_enabled s \<and> origin_allowed s (ca_origin c) \<and> meets_confidence c"
  by (auto simp: judge_def privacy_rejection_def reject_def split: option.splits)

lemma judge_candidate [simp]: "de_candidate (judge s c) = c" "de_candidate (reject c r) = c" "de_kind (reject c r) = Rejected"
  by (auto simp: judge_def reject_def split: option.splits)

lemma gate_loop_sound:
  assumes "gate_loop T s user goal now seen cs = Inr ds"
  shows "map de_candidate ds = cs"
    "\<forall>d \<in> set (approved ds). approvable T s user goal now (de_candidate d)"
    "distinct (map (\<lambda>d. mc_key (ca_command (de_candidate d))) (approved ds))"
    "\<forall>d \<in> set (approved ds). mc_key (ca_command (de_candidate d)) \<notin> seen"
  using assms
proof (induction cs arbitrary: seen ds)
  case (Cons c cs)
  let ?k = "mc_key (ca_command c)"
  {
    case 1
    with Cons.IH(1) show ?case by (auto simp: bind_res_Inr_iff Let_def)
  next
    case 2
    then obtain es where es: "gate_loop T s user goal now (insert ?k seen) cs = Inr es"
      "ds = (if ?k \<in> seen then reject c ''duplicate_idempotency_key'' else judge s c) # es"
      and c: "check_candidate T user goal now c = Inr ()"
      by (auto simp: bind_res_Inr_iff Let_def)
    have "approvable T s user goal now c" if "de_kind (judge s c) = Approved"
      using that c unfolding check_candidate_ok judge_approved approvable_def by simp
    with Cons.IH(2) [OF es(1)] es(2) show ?case by (auto simp: approved_def split: if_splits)
  next
    case 3
    then obtain es where "gate_loop T s user goal now (insert ?k seen) cs = Inr es"
      "ds = (if ?k \<in> seen then reject c ''duplicate_idempotency_key'' else judge s c) # es"
      by (auto simp: bind_res_Inr_iff Let_def)
    with Cons.IH(3) [of "insert ?k seen" es] Cons.IH(4) [of "insert ?k seen" es] show ?case
      by (auto simp: approved_def split: if_splits)
  next
    case 4
    then obtain es where "gate_loop T s user goal now (insert ?k seen) cs = Inr es"
      "ds = (if ?k \<in> seen then reject c ''duplicate_idempotency_key'' else judge s c) # es"
      by (auto simp: bind_res_Inr_iff Let_def)
    with Cons.IH(4) [of "insert ?k seen" es] show ?case by (auto simp: approved_def split: if_splits)
  }
qed (simp_all add: approved_def)

lemma evaluate_sound:
  assumes "evaluate_memory_candidates T s user goal now cs = Inr ds"
  shows "length cs \<le> 32" "map de_candidate ds = cs"
    "\<forall>d \<in> set (approved ds). approvable T s user goal now (de_candidate d)"
    "distinct (map (\<lambda>d. mc_key (ca_command (de_candidate d))) (approved ds))"
  using assms gate_loop_sound [of T s user goal now "{}" cs ds]
  by (auto simp: evaluate_memory_candidates_def candidate_limit_def split: if_splits)

text \<open>Checking one candidate again, as the writer does at its own time and settings.\<close>

lemma evaluate_single:
  "evaluate_memory_candidates T s user goal now [c] = Inr [d] \<Longrightarrow>
     de_candidate d = c \<and> (de_kind d = Approved \<longleftrightarrow> approvable T s user goal now c)"
  by (auto simp: evaluate_memory_candidates_def candidate_limit_def bind_res_Inr_iff check_candidate_ok approvable_def
      judge_approved)

text \<open>C30. What the gate approves. It answers every candidate in order and at most 32 of them; an approved one
  belongs to the user and to no other goal, comes from a source of its origin that the user's privacy
  settings allow, has the confidence its kind needs and a valid command, and no two approved ones share
  an idempotency key.\<close>

theorem gate_approves_safely:
  assumes "evaluate_memory_candidates T s user goal now cs = Inr ds"
  shows "length cs \<le> 32 \<and> map de_candidate ds = cs
    \<and> (\<forall>d \<in> set ds. de_kind d = Approved \<longrightarrow>
         (let c = de_candidate d; cmd = ca_command c in
          mc_user cmd = user \<and> mc_goal cmd \<in> {None, Some goal} \<and> mc_source cmd \<in> origin_sources (ca_origin c)
          \<and> ps_enabled s \<and> origin_allowed s (ca_origin c) \<and> meets_confidence c
          \<and> is_ok (validate_memory_command T now cmd)))
    \<and> distinct (map (\<lambda>d. mc_key (ca_command (de_candidate d))) (filter (\<lambda>d. de_kind d = Approved) ds))"
  using evaluate_sound [OF assms] by (auto simp: approved_def approvable_def Let_def)

definition sample_memory_candidate :: memory_candidate where
  "sample_memory_candidate = \<lparr>ca_id = [5], ca_origin = ExplicitStatement, ca_command = sample_preference, ca_semantic = [6]\<rparr>"

definition sample_settings :: privacy_settings where
  "sample_settings = \<lparr>ps_enabled = True, ps_explicit = True, ps_inference = False, ps_results = True\<rparr>"

lemma sample_approved:
  "evaluate_memory_candidates sample_text_env sample_settings [1] [3] 0 [sample_memory_candidate]
    = Inr [\<lparr>de_candidate = sample_memory_candidate, de_kind = Approved, de_reason = ''policy_approved''\<rparr>]"
proof -
  have "check_candidate sample_text_env [1] [3] 0 sample_memory_candidate = Inr ()"
    unfolding check_candidate_ok using sample_validated
    by (simp add: sample_memory_candidate_def is_ok_iff) (simp add: sample_preference_def)
  moreover have "judge sample_settings sample_memory_candidate
      = \<lparr>de_candidate = sample_memory_candidate, de_kind = Approved, de_reason = ''policy_approved''\<rparr>"
    by (simp add: judge_def privacy_rejection_def meets_confidence_def sample_settings_def sample_memory_candidate_def
        sample_preference_def)
  ultimately show ?thesis by (simp add: evaluate_memory_candidates_def candidate_limit_def)
qed

theorem gate_approves_safely_witness:
  "mc_user sample_preference = [1] \<and> is_ok (validate_memory_command sample_text_env 0 sample_preference)"
  using gate_approves_safely [OF sample_approved] by (simp add: Let_def sample_memory_candidate_def)

subsection \<open>Construction of commands and candidates\<close>

definition key_char :: "nat \<Rightarrow> bool" where
  "key_char c \<longleftrightarrow> 65 \<le> c \<and> c \<le> 90 \<or> 97 \<le> c \<and> c \<le> 122 \<or> 48 \<le> c \<and> c \<le> 57 \<or> c \<in> {58, 46, 95, 47, 45}"

definition make_command :: "memory_command \<Rightarrow> memory_error + memory_command" where
  "make_command raw =
     (let cmd = raw\<lparr>mc_user := trim (mc_user raw), mc_goal := map_option trim (mc_goal raw),
                   mc_schema := trim (mc_schema raw), mc_source_ref := map_option trim (mc_source_ref raw),
                   mc_key := trim (mc_key raw)\<rparr> in
      if mc_user cmd \<noteq> [] \<and> mc_goal cmd \<noteq> Some [] \<and> mc_schema cmd \<noteq> []
         \<and> 0 \<le> mc_importance cmd \<and> mc_importance cmd \<le> 1 \<and> 0 \<le> mc_confidence cmd \<and> mc_confidence cmd \<le> 1
         \<and> mc_key cmd \<noteq> [] \<and> length (mc_key cmd) \<le> 160 \<and> list_all key_char (mc_key cmd)
      then Inr cmd else Inl (MemoryValueError ''ValidationError''))"

definition make_candidate :: "text_env \<Rightarrow> candidate_origin \<Rightarrow> memory_command \<Rightarrow> ustr \<Rightarrow> memory_error + memory_candidate" where
  "make_candidate T origin cmd semantic =
     (let digest = tx_sha T (tx_utf8 T (mc_key cmd @ lit '':'' @ semantic @ lit '':memory-gate-v1'')) in
      if trim semantic \<noteq> [] \<and> length (trim semantic) \<le> 320
      then Inr \<lparr>ca_id = lit ''memory-candidate-'' @ take 32 digest, ca_origin = origin, ca_command = cmd,
                ca_semantic = trim semantic\<rparr>
      else Inl (MemoryValueError ''ValidationError''))"

fun memory_type_name :: "memory_type \<Rightarrow> string" where
  "memory_type_name LearningPreference = ''learning_preference''"
| "memory_type_name LongTermGoal = ''long_term_goal''"
| "memory_type_name MasterySummary = ''mastery_summary''"
| "memory_type_name LearningMilestone = ''learning_milestone''"

definition generated_key :: "text_env \<Rightarrow> ustr \<Rightarrow> memory_type \<Rightarrow> ustr \<Rightarrow> ustr" where
  "generated_key T source_ref ty semantic =
     lit ''memory-v1:generated:'' @ tx_sha T (tx_canonical T
       [(lit ''memory_type'', VStr (lit (memory_type_name ty))), (lit ''policy_version'', VStr (lit ''memory-gate-v1'')),
        (lit ''semantic_key'', VStr semantic), (lit ''source_ref_id'', VStr source_ref)])"

text \<open>\<open>UUID(str(value))\<close> is a parameter: the normal form of a request id, if it is one.\<close>

definition request_key :: "(ustr \<Rightarrow> ustr option) \<Rightarrow> ustr \<Rightarrow> memory_error + ustr" where
  "request_key uuid request =
     (case uuid request of None \<Rightarrow> Inl (MemoryValueError ''ValueError'')
                         | Some r \<Rightarrow> Inr (lit ''memory-v1:explicit:'' @ r))"

definition explicit_preference ::
  "text_env \<Rightarrow> (ustr \<Rightarrow> ustr option) \<Rightarrow> ustr \<Rightarrow> ustr \<Rightarrow> ustr \<Rightarrow> pyvalue \<Rightarrow> memory_error + memory_candidate" where
  "explicit_preference T uuid user request key v =
     bind_res (request_key uuid request) (\<lambda>idempotency.
     bind_res (make_command
       \<lparr>mc_user = user, mc_goal = None, mc_type = LearningPreference, mc_schema = lit ''memory-v1'',
        mc_content = [(lit ''preference_key'', VStr key), (lit ''preference_value'', v)],
        mc_source = ExplicitUser, mc_source_ref = None, mc_metadata = [], mc_importance = 1 / 2,
        mc_confidence = 1, mc_expires = None, mc_key = idempotency\<rparr>) (\<lambda>cmd.
       make_candidate T ExplicitStatement cmd (lit ''preference:'' @ strip key)))"

definition explicit_goal ::
  "text_env \<Rightarrow> (ustr \<Rightarrow> ustr option) \<Rightarrow> ustr \<Rightarrow> ustr \<Rightarrow> ustr \<Rightarrow> ustr \<Rightarrow> ustr \<Rightarrow> pyvalue \<Rightarrow> memory_error + memory_candidate" where
  "explicit_goal T uuid user goal request title outcome deadline =
     bind_res (request_key uuid request) (\<lambda>idempotency.
     bind_res (make_command
       \<lparr>mc_user = user, mc_goal = Some goal, mc_type = LongTermGoal, mc_schema = lit ''memory-v1'',
        mc_content = [(lit ''title'', VStr title), (lit ''target_outcome'', VStr outcome),
          (lit ''deadline'', case deadline of VDate d \<Rightarrow> VStr (date_text d) | v \<Rightarrow> v)],
        mc_source = ExplicitUser, mc_source_ref = None, mc_metadata = [], mc_importance = 7 / 10,
        mc_confidence = 1, mc_expires = None, mc_key = idempotency\<rparr>) (\<lambda>cmd.
       make_candidate T ExplicitStatement cmd (lit ''long_term_goal:'' @ goal)))"

subsection \<open>Candidates derived from an assessment\<close>

text \<open>The mastery update of the tutor (\<open>MasteryUpdate\<close> of phase2/schemas.py).\<close>

record node_update =
  nu_node :: ustr
  nu_previous :: pyfloat
  nu_new :: pyfloat
  nu_confidence :: pyfloat
  nu_count :: nat
  nu_version :: ustr

definition mastery_command :: "text_env \<Rightarrow> ustr \<Rightarrow> ustr \<Rightarrow> ustr \<Rightarrow> ustr \<Rightarrow> int \<Rightarrow> node_update \<Rightarrow> memory_command" where
  "mastery_command T user goal assessment attempt now u =
     \<lparr>mc_user = user, mc_goal = Some goal, mc_type = MasterySummary, mc_schema = lit ''memory-v1'',
      mc_content = [(lit ''knowledge_node_id'', VStr (nu_node u)), (lit ''score'', VFloat (nu_new u)),
        (lit ''confidence'', VFloat (nu_confidence u)), (lit ''evidence_count'', VInt (int (max 1 (nu_count u)))),
        (lit ''calculation_version'', VStr (nu_version u))],
      mc_source = AssessmentSource, mc_source_ref = Some attempt,
      mc_metadata = [(lit ''assessment_id'', VStr assessment)], mc_importance = 8 / 10,
      mc_confidence = nu_confidence u, mc_expires = Some (now + thirty_days),
      mc_key = generated_key T attempt MasterySummary (lit ''mastery:'' @ goal @ lit '':'' @ nu_node u)\<rparr>"

definition milestone_code :: "node_update \<Rightarrow> ustr" where
  "milestone_code u = lit ''mastery-80:'' @ nu_node u"

definition milestone_command :: "text_env \<Rightarrow> ustr \<Rightarrow> ustr \<Rightarrow> ustr \<Rightarrow> ustr \<Rightarrow> int \<Rightarrow> node_update \<Rightarrow> memory_command" where
  "milestone_command T user goal assessment attempt now u =
     \<lparr>mc_user = user, mc_goal = Some goal, mc_type = LearningMilestone, mc_schema = lit ''memory-v1'',
      mc_content = [(lit ''milestone_code'', VStr (milestone_code u)),
        (lit ''title'', VStr (lit ''Reached 80 mastery in '' @ nu_node u)), (lit ''achieved_at'', VInstant now),
        (lit ''evidence_refs'', VList [VStr attempt])],
      mc_source = AssessmentSource, mc_source_ref = Some attempt,
      mc_metadata = [(lit ''assessment_id'', VStr assessment)], mc_importance = 8 / 10,
      mc_confidence = nu_confidence u, mc_expires = None,
      mc_key = generated_key T attempt LearningMilestone (lit ''milestone:'' @ goal @ lit '':'' @ milestone_code u)\<rparr>"

definition reaches_milestone :: "node_update \<Rightarrow> bool" where
  "reaches_milestone u \<longleftrightarrow> nu_previous u < 80 \<and> 80 \<le> nu_new u \<and> 7 / 10 \<le> nu_confidence u"

definition update_candidates ::
  "text_env \<Rightarrow> ustr \<Rightarrow> ustr \<Rightarrow> ustr \<Rightarrow> ustr \<Rightarrow> int \<Rightarrow> node_update \<Rightarrow> memory_error + memory_candidate list" where
  "update_candidates T user goal assessment attempt now u =
     bind_res (make_command (mastery_command T user goal assessment attempt now u)) (\<lambda>cmd.
     bind_res (make_candidate T LearningResult cmd (lit ''mastery:'' @ goal @ lit '':'' @ nu_node u)) (\<lambda>c.
       if reaches_milestone u
       then bind_res (make_command (milestone_command T user goal assessment attempt now u)) (\<lambda>cmd.
            bind_res (make_candidate T LearningResult cmd (lit ''milestone:'' @ goal @ lit '':'' @ milestone_code u))
              (\<lambda>d. Inr [c, d]))
       else Inr [c]))"

definition build_learning_result_candidates ::
  "text_env \<Rightarrow> ustr \<Rightarrow> ustr \<Rightarrow> ustr \<Rightarrow> ustr \<Rightarrow> int \<Rightarrow> node_update list \<Rightarrow> memory_error + memory_candidate list" where
  "build_learning_result_candidates T user goal assessment attempt now us =
     bind_res (traverse (update_candidates T user goal assessment attempt now) us) (\<lambda>cs. Inr (concat cs))"

text \<open>\<open>result\<close> is the pair of ids of the assessment and the attempt, when there is one.\<close>

definition decide_memory_candidates ::
  "text_env \<Rightarrow> privacy_settings \<Rightarrow> ustr \<Rightarrow> ustr \<Rightarrow> int \<Rightarrow> memory_candidate list \<Rightarrow> (ustr \<times> ustr) option
     \<Rightarrow> node_update list \<Rightarrow> memory_error + memory_decision list"
where
  "decide_memory_candidates T s user goal now explicit result us =
     bind_res (case result of
                 Some (assessment, attempt) \<Rightarrow>
                   if us \<noteq> [] then build_learning_result_candidates T user goal assessment attempt now us else Inr []
               | None \<Rightarrow> Inr []) (\<lambda>derived.
       evaluate_memory_candidates T s user goal now (explicit @ derived))"

subsection \<open>Derived candidates pass the gate\<close>

definition plain :: "ustr \<Rightarrow> bool" where
  "plain s \<longleftrightarrow> s \<noteq> [] \<and> trim s = s"

lemma trim_ends: "plain s \<Longrightarrow> trim (x # xs @ s) = x # xs @ s" if "\<not> py_isspace x"
proof -
  assume "plain s"
  with strip_of_ends [of _ s] have "s \<noteq> []" "\<not> (py_isspace (last s) \<and> \<not> (28 \<le> last s \<and> last s \<le> 31))"
    unfolding plain_def trim_def by metis+
  with that show ?thesis unfolding trim_def by (intro strip_of_id) auto
qed

lemma plain_lit: "plain s \<Longrightarrow> \<not> py_isspace (of_char c) \<Longrightarrow> plain (lit (c # cs) @ s)"
  using trim_ends [of "of_char c" s "lit cs"] by (simp add: plain_def lit_def)

lemma plain_lit_append: "plain s \<Longrightarrow> \<not> py_isspace (of_char c) \<Longrightarrow> plain (lit (c # cs) @ ys @ s)"
  using trim_ends [of "of_char c" s "lit cs @ ys"] by (simp add: plain_def lit_def)

lemma plain_key: "s \<noteq> [] \<Longrightarrow> list_all key_char s \<Longrightarrow> plain s"
proof -
  assume s: "s \<noteq> []" "list_all key_char s"
  have "\<not> py_isspace c" if "key_char c" for c using that by (auto simp: key_char_def py_isspace_def)
  with s have "\<not> py_isspace (hd s)" "\<not> py_isspace (last s)" by (simp_all add: list_all_iff)
  with s(1) show ?thesis unfolding plain_def trim_def by (intro conjI strip_of_id) simp_all
qed

lemma make_command_plain:
  assumes "plain (mc_user raw)" "mc_goal raw = Some g" "plain g" "plain (mc_schema raw)" "mc_source_ref raw = Some r" "plain r"
    "0 \<le> mc_importance raw" "mc_importance raw \<le> 1" "0 \<le> mc_confidence raw" "mc_confidence raw \<le> 1"
    "mc_key raw \<noteq> []" "length (mc_key raw) \<le> 160" "list_all key_char (mc_key raw)"
  shows "make_command raw = Inr raw"
proof -
  have trims: "trim (mc_user raw) = mc_user raw" "map_option trim (mc_goal raw) = mc_goal raw"
    "trim (mc_schema raw) = mc_schema raw" "map_option trim (mc_source_ref raw) = mc_source_ref raw"
    "trim (mc_key raw) = mc_key raw"
    using assms plain_key [OF assms(11,13)] by (simp_all add: plain_def)
  from assms show ?thesis
    unfolding make_command_def trims by (cases raw) (simp add: plain_def Let_def)
qed

lemma make_candidate_ok:
  "trim semantic \<noteq> [] \<Longrightarrow> length (trim semantic) \<le> 320 \<Longrightarrow>
     \<exists>c. make_candidate T origin cmd semantic = Inr c \<and> ca_origin c = origin \<and> ca_command c = cmd"
  by (simp add: make_candidate_def Let_def)

lemma gate_loop_ok:
  "\<forall>c \<in> set cs. is_ok (check_candidate T user goal now c) \<Longrightarrow> is_ok (gate_loop T s user goal now seen cs)"
proof (induction cs arbitrary: seen)
  case (Cons c cs)
  from Cons.prems obtain u where "check_candidate T user goal now c = Inr u" by (auto simp: is_ok_iff)
  with Cons.IH [of "insert (mc_key (ca_command c)) seen"] Cons.prems show ?case
    by (auto simp: is_ok_iff Let_def)
qed simp

text \<open>Documented behaviour of the parts outside: a digest is 64 hexadecimal digits.\<close>

definition digest_ok :: "text_env \<Rightarrow> bool" where
  "digest_ok T \<longleftrightarrow> (\<forall>b. length (tx_sha T b) = 64 \<and> list_all key_char (tx_sha T b))"

definition update_ok :: "text_env \<Rightarrow> ustr \<Rightarrow> int \<Rightarrow> node_update \<Rightarrow> bool" where
  "update_ok T attempt now u \<longleftrightarrow>
     plain (nu_node u) \<and> length (nu_node u) \<le> 80 \<and> plain (nu_version u)
   \<and> 0 \<le> nu_new u \<and> nu_new u \<le> 100 \<and> 0 \<le> nu_confidence u \<and> nu_confidence u \<le> 1
   \<and> length (tx_canonical T (dump_content T (MasteryContent (nu_node u) (nu_new u) (nu_confidence u)
        (int (max 1 (nu_count u))) (nu_version u)))) \<le> 8192
   \<and> length (tx_canonical T (dump_content T (MilestoneContent (milestone_code u)
        (lit ''Reached 80 mastery in '' @ nu_node u) now [attempt]))) \<le> 8192"

lemma generated_key_ok:
  assumes "digest_ok T"
  shows "generated_key T r ty s \<noteq> []" "length (generated_key T r ty s) \<le> 160" "list_all key_char (generated_key T r ty s)"
proof -
  have "list_all key_char (lit ''memory-v1:generated:'')" by code_simp
  with assms show "list_all key_char (generated_key T r ty s)" by (simp add: generated_key_def digest_ok_def)
  from assms have "length (generated_key T r ty s) = 84" by (simp add: generated_key_def digest_ok_def)
  then show "generated_key T r ty s \<noteq> []" "length (generated_key T r ty s) \<le> 160" by auto
qed

definition derivable :: "text_env \<Rightarrow> ustr \<Rightarrow> ustr \<Rightarrow> ustr \<Rightarrow> bool" where
  "derivable T user goal attempt \<longleftrightarrow>
     text_env_ok T \<and> digest_ok T \<and> plain user \<and> plain goal \<and> length goal \<le> 200 \<and> plain attempt"

lemma metadata_ok:
  assumes "text_env_ok T"
  shows "normalize_dict T [(lit ''assessment_id'', VStr a)] = Inr [(lit ''assessment_id'', VStr a)]"
proof -
  have "\<not> forbidden T (lit ''assessment_id'')" by (rule forbidden_field [OF assms]) (simp add: field_names_def)
  then show ?thesis
    unfolding normalize_dict_iff using norm_flat_entries [of T "[(lit ''assessment_id'', VStr a)]" 1]
    by (simp add: flat_def)
qed

lemma mastery_command_ok:
  assumes d: "derivable T user goal attempt" and u: "update_ok T attempt now u"
  shows "make_command (mastery_command T user goal a attempt now u) = Inr (mastery_command T user goal a attempt now u)"
    "is_ok (validate_memory_command T now (mastery_command T user goal a attempt now u))"
proof -
  let ?cmd = "mastery_command T user goal a attempt now u"
  let ?c = "MasteryContent (nu_node u) (nu_new u) (nu_confidence u) (int (max 1 (nu_count u))) (nu_version u)"
  have version: "plain (lit ''memory-v1'')"
    by (rule plain_key) (simp_all add: lit_def key_char_def)
  show "make_command ?cmd = Inr ?cmd"
    using d u generated_key_ok [of T] version
    by (intro make_command_plain [where g = goal and r = attempt]) (auto simp: mastery_command_def derivable_def update_ok_def)
  from d have env: "text_env_ok T" by (simp add: derivable_def)
  have content: "raw_content ?cmd = dump_content T ?c" "mc_type ?cmd = content_type ?c"
    by (simp_all add: raw_content_def mastery_command_def)
  have ok: "content_ok ?c" using u by (auto simp: update_ok_def plain_def text_ok_def)
  have "validate_scope ?cmd = Inr ()" "validate_source ?cmd = Inr ()" "validate_expiry now ?cmd = Inr ()"
    using d by (auto simp: validate_scope_def validate_source_def validate_expiry_def mastery_command_def derivable_def
        plain_def require_def thirty_days_def)
  moreover have "mc_metadata ?cmd = [(lit ''assessment_id'', VStr a)]" by (simp add: mastery_command_def)
  ultimately show "is_ok (validate_memory_command T now ?cmd)"
    using normalize_dump [OF env ok] parse_dump [OF env ok] metadata_ok [OF env, of a] u
    by (simp add: validate_memory_command_def content Let_def update_ok_def del: dump_content.simps)
qed

lemma norm_attempt: "n \<le> 900 \<Longrightarrow> norm_value T 2 n (VList [VStr a]) = Inr (VList [VStr a], Suc (Suc n))"
  by (simp add: norm_value.simps [of T 2 n "VList _"] norm_value.simps [of T _ "Suc n" "VStr _"])

lemma milestone_normalized:
  assumes "text_env_ok T"
  shows "normalize_dict T (mc_content (milestone_command T user goal a attempt now u))
    = Inr (dump_content (T\<lparr>tx_dump := tx_iso T\<rparr>) (MilestoneContent (milestone_code u)
        (lit ''Reached 80 mastery in '' @ nu_node u) now [attempt]))"
proof -
  note allowed = forbidden_field [OF assms, unfolded field_names_def, simplified]
  have string: "norm_value T 2 n (VStr s) = Inr (VStr s, Suc n)" if "n \<le> 900" for n s
    using that by (simp add: norm_value.simps [of T 2 n "VStr s"])
  have instant: "norm_value T 2 n (VInstant t) = Inr (VStr (tx_iso T t), Suc n)" if "n \<le> 900" for n t
    using that by (simp add: norm_value.simps [of T 2 n "VInstant t"])
  show ?thesis
    unfolding normalize_dict_iff
    by (simp add: milestone_command_def allowed string instant norm_attempt)
qed

lemma parse_milestone_iso:
  assumes "text_env_ok T" "content_ok (MilestoneContent c t now refs)"
  shows "parse_content T LearningMilestone (dump_content (T\<lparr>tx_dump := tx_iso T\<rparr>) (MilestoneContent c t now refs))
    = Some (MilestoneContent c t now refs)"
  using assms by (simp add: only_fields_def dict_keys_def field_def fields_back read_fields2_def)

lemma milestone_command_ok:
  assumes d: "derivable T user goal attempt" and u: "update_ok T attempt now u"
  shows "make_command (milestone_command T user goal a attempt now u) = Inr (milestone_command T user goal a attempt now u)"
    "is_ok (validate_memory_command T now (milestone_command T user goal a attempt now u))"
proof -
  let ?cmd = "milestone_command T user goal a attempt now u"
  let ?c = "MilestoneContent (milestone_code u) (lit ''Reached 80 mastery in '' @ nu_node u) now [attempt]"
  have version: "plain (lit ''memory-v1'')"
    by (rule plain_key) (simp_all add: lit_def key_char_def)
  show "make_command ?cmd = Inr ?cmd"
    using d u generated_key_ok [of T] version
    by (intro make_command_plain [where g = goal and r = attempt]) (auto simp: milestone_command_def derivable_def update_ok_def)
  from d have env: "text_env_ok T" by (simp add: derivable_def)
  have "plain (milestone_code u)" "plain (lit ''Reached 80 mastery in '' @ nu_node u)"
    using u by (auto simp: milestone_code_def update_ok_def py_isspace_def intro!: plain_lit)
  then have ok: "content_ok ?c"
    using d u by (auto simp: update_ok_def plain_def text_ok_def texts_ok_def derivable_def milestone_code_def)
  have "validate_scope ?cmd = Inr ()" "validate_source ?cmd = Inr ()" "validate_expiry now ?cmd = Inr ()"
    using d by (auto simp: validate_scope_def validate_source_def validate_expiry_def milestone_command_def derivable_def
        plain_def require_def)
  moreover have "raw_content ?cmd = mc_content ?cmd" "mc_type ?cmd = LearningMilestone"
      "mc_metadata ?cmd = [(lit ''assessment_id'', VStr a)]"
    by (simp_all add: raw_content_def milestone_command_def)
  ultimately show "is_ok (validate_memory_command T now ?cmd)"
    using milestone_normalized [OF env, of user goal a attempt now u] parse_milestone_iso [OF env ok]
      metadata_ok [OF env, of a] u
    by (simp add: validate_memory_command_def Let_def update_ok_def del: dump_content.simps)
qed

lemma update_candidates_ok:
  assumes d: "derivable T user goal attempt" and u: "update_ok T attempt now u"
  shows "\<exists>cs. update_candidates T user goal a attempt now u = Inr cs \<and> 1 \<le> length cs \<and> length cs \<le> 2
    \<and> (\<forall>c \<in> set cs. ca_origin c = LearningResult \<and> is_ok (check_candidate T user goal now c))"
proof -
  have "plain (nu_node u)" using u by (simp add: update_ok_def)
  then have "plain (lit ''mastery:'' @ goal @ lit '':'' @ nu_node u)"
    "plain (lit ''milestone:'' @ goal @ lit '':'' @ milestone_code u)"
    using plain_lit_append [of "nu_node u" "CHR ''m''" "''astery:''" "goal @ lit '':''"]
      plain_lit_append [of "nu_node u" "CHR ''m''" "''ilestone:''" "goal @ lit '':'' @ lit ''mastery-80:''"]
    by (simp_all add: py_isspace_def milestone_code_def)
  then obtain c e where c: "make_candidate T LearningResult (mastery_command T user goal a attempt now u)
        (lit ''mastery:'' @ goal @ lit '':'' @ nu_node u) = Inr c"
      "ca_origin c = LearningResult" "ca_command c = mastery_command T user goal a attempt now u"
    and e: "make_candidate T LearningResult (milestone_command T user goal a attempt now u)
        (lit ''milestone:'' @ goal @ lit '':'' @ milestone_code u) = Inr e"
      "ca_origin e = LearningResult" "ca_command e = milestone_command T user goal a attempt now u"
    using make_candidate_ok [of "lit ''mastery:'' @ goal @ lit '':'' @ nu_node u"]
      make_candidate_ok [of "lit ''milestone:'' @ goal @ lit '':'' @ milestone_code u"] d u
    by (fastforce simp: plain_def derivable_def update_ok_def milestone_code_def)
  have "is_ok (check_candidate T user goal now c)" "is_ok (check_candidate T user goal now e)"
    using mastery_command_ok(2) [OF d u, of a] milestone_command_ok(2) [OF d u, of a] c(2,3) e(2,3)
    by (auto simp: check_candidate_def is_ok_iff mastery_command_def milestone_command_def Let_def)
  with c e mastery_command_ok(1) [OF d u, of a] milestone_command_ok(1) [OF d u, of a] show ?thesis
    by (simp add: update_candidates_def)
qed

lemma derived_candidates_ok:
  assumes d: "derivable T user goal attempt" and us: "\<forall>u \<in> set us. update_ok T attempt now u"
  shows "\<exists>cs. build_learning_result_candidates T user goal a attempt now us = Inr cs
    \<and> length us \<le> length cs \<and> length cs \<le> 2 * length us
    \<and> (\<forall>c \<in> set cs. ca_origin c = LearningResult \<and> is_ok (check_candidate T user goal now c))"
  using us
proof (induction us)
  case (Cons u us)
  then obtain cs es where "update_candidates T user goal a attempt now u = Inr cs" "1 \<le> length cs" "length cs \<le> 2"
    "traverse (update_candidates T user goal a attempt now) us = Inr es" "length us \<le> length (concat es)"
    "length (concat es) \<le> 2 * length us"
    "\<forall>c \<in> set cs \<union> set (concat es). ca_origin c = LearningResult \<and> is_ok (check_candidate T user goal now c)"
    using update_candidates_ok [OF d, of now u a]
    by (auto simp: build_learning_result_candidates_def bind_res_Inr_iff) (metis UN_iff Un_iff)
  then show ?case by (auto simp: build_learning_result_candidates_def)
qed (simp add: build_learning_result_candidates_def)

text \<open>The candidates derived from an assessment pass the gate: with sound ids and updates on at most
  sixteen nodes the decision never raises, every node gets a decision, and nothing is approved for
  a user who does not allow memories from learning results.\<close>

theorem derived_candidates_decided:
  assumes d: "derivable T user goal attempt" and us: "\<forall>u \<in> set us. update_ok T attempt now u" and few: "length us \<le> 16"
  shows "\<exists>ds. decide_memory_candidates T s user goal now [] (Some (a, attempt)) us = Inr ds
    \<and> length us \<le> length ds \<and> length ds \<le> 2 * length us
    \<and> (ps_enabled s \<and> ps_results s \<or> (\<forall>d \<in> set ds. de_kind d = Rejected))"
proof -
  obtain cs where cs: "build_learning_result_candidates T user goal a attempt now us = Inr cs"
    "length us \<le> length cs" "length cs \<le> 2 * length us"
    "\<forall>c \<in> set cs. ca_origin c = LearningResult \<and> is_ok (check_candidate T user goal now c)"
    using derived_candidates_ok [OF d us] by blast
  from gate_loop_ok [of cs T user goal now s "{}"] cs(4) obtain ds where
    "gate_loop T s user goal now {} cs = Inr ds" by (auto simp: is_ok_iff)
  then have ds: "evaluate_memory_candidates T s user goal now cs = Inr ds"
    using cs(3) few by (simp add: evaluate_memory_candidates_def candidate_limit_def)
  have "decide_memory_candidates T s user goal now [] (Some (a, attempt)) us = Inr ds"
    using ds cs(1,3) by (cases us) (auto simp: decide_memory_candidates_def)
  moreover note sound = evaluate_sound [OF ds]
  have "length ds = length cs" using arg_cong [OF sound(2), of length] by simp
  moreover have "de_kind d = Rejected" if "d \<in> set ds" "\<not> (ps_enabled s \<and> ps_results s)" for d
  proof (rule ccontr)
    assume "de_kind d \<noteq> Rejected"
    with that sound(3) have "ps_enabled s" "origin_allowed s (ca_origin (de_candidate d))"
      by (cases "de_kind d"; force simp: approved_def approvable_def)+
    moreover have "de_candidate d \<in> set cs" using that(1) sound(2) by force
    ultimately show False using that(2) cs(4) by auto
  qed
  ultimately show ?thesis using cs(2,3) by auto
qed

definition sample_updates :: "node_update list" where
  "sample_updates = [\<lparr>nu_node = [97], nu_previous = 70, nu_new = 85, nu_confidence = 3 / 4, nu_count = 2, nu_version = [118]\<rparr>]"

theorem derived_candidates_decided_witness:
  "\<exists>ds. decide_memory_candidates sample_text_env sample_settings [117] [103] 0 [] (Some ([115], [116])) sample_updates = Inr ds
    \<and> 1 \<le> length ds"
proof -
  have plain: "plain [97]" "plain [118]" "plain [117]" "plain [103]" "plain [116]"
    by (simp_all add: plain_key key_char_def)
  have "digest_ok sample_text_env"
  proof -
    have "key_char (97 + n mod 6)" for n :: nat
      using mod_less_divisor [of 6 n] by (simp add: key_char_def)
    then show ?thesis by (simp add: digest_ok_def sample_text_env_def list_all_iff)
  qed
  with plain have d: "derivable sample_text_env [117] [103] [116]" by (simp add: derivable_def sample_text_env_ok)
  have "\<forall>u \<in> set sample_updates. update_ok sample_text_env [116] 0 u"
    using plain by (simp add: sample_updates_def update_ok_def sample_text_env_def)
  from derived_candidates_decided [OF d this, of sample_settings "[115]"] show ?thesis
    by (auto simp: sample_updates_def)
qed

end
