(* ===== verification/Replanning.thy ===== *)
theory Replanning
  imports Tutor_Graph Memory_Gate
begin

text \<open>
  The observer and the planner of the tutor (src/src/adaptive_tutor/phase2/replanning.py,
  planner_proposals.py, tutor/learning_services.py): learning signals with defaults for missing
  data, the decision they lead to, the plan adjustment built from it and the validation of a proposal.

  A signals dictionary is either empty (\<open>None\<close>) or has every key of \<open>build_observer_signals\<close>, so it is
  a record; \<open>None\<close> in a field is the value \<open>None\<close>. Free-form dictionaries are \<open>metadata\<close>.
\<close>

subsection \<open>Signals\<close>

record tutor_signals =
  sg_completion :: "pyfloat option"
  sg_correctness :: "pyfloat option"
  sg_delta :: "pyfloat option"
  sg_low_nodes :: "metadata list"
  sg_tags :: "ustr list"
  sg_attempts :: "metadata list"
  sg_queue :: "json option"
  sg_phase :: "metadata option"
  sg_missing :: "(string, string) dict"
  sg_automatic :: "bool option"
  sg_gate :: "string option"

record replan_env =
  re_db :: unicode_db
  re_lower :: "ustr \<Rightarrow> ustr"
  re_str :: "json \<Rightarrow> ustr"
  re_float :: "ustr \<Rightarrow> pyfloat option"
  re_text :: "pyfloat \<Rightarrow> ustr"

text \<open>\<open>_rate_or_default\<close> and \<open>_number_or_default\<close>: the value and the note on a default, if one was taken.\<close>

definition rate_or_default :: "pyfloat option \<Rightarrow> pyfloat \<Rightarrow> string \<Rightarrow> string \<Rightarrow> pyfloat \<times> (string, string) dict" where
  "rate_or_default v d key label =
     (case v of None \<Rightarrow> (d, [(key, ''defaulted_to_'' @ label)])
      | Some x \<Rightarrow> (py_round (min 1 (max 0 x)) 4, []))"

definition number_or_default :: "pyfloat option \<Rightarrow> pyfloat \<Rightarrow> string \<Rightarrow> string \<Rightarrow> pyfloat \<times> (string, string) dict" where
  "number_or_default v d key label =
     (case v of None \<Rightarrow> (d, [(key, ''defaulted_to_'' @ label)]) | Some x \<Rightarrow> (py_round x 4, []))"

definition build_observer_signals ::
  "pyfloat option \<Rightarrow> pyfloat option \<Rightarrow> pyfloat option \<Rightarrow> metadata list \<Rightarrow> ustr list \<Rightarrow> metadata list
     \<Rightarrow> json option \<Rightarrow> metadata option \<Rightarrow> tutor_signals" where
  "build_observer_signals completion correctness delta low tags attempts queue phase =
     (let (c, m1) = rate_or_default completion (8 / 10) ''completion_rate_7d'' ''0.8'';
          (r, m2) = rate_or_default correctness (8 / 10) ''correctness_rate'' ''0.8'';
          (d, m3) = number_or_default delta 0 ''mastery_delta'' ''0''
      in \<lparr>sg_completion = Some c, sg_correctness = Some r, sg_delta = Some d, sg_low_nodes = low,
          sg_tags = sort (fromkeys tags), sg_attempts = attempts, sg_queue = queue, sg_phase = phase,
          sg_missing = m1 @ m2 @ m3, sg_automatic = None, sg_gate = None\<rparr>)"

subsection \<open>Decision\<close>

record tutor_decision =
  td_action :: observer_action
  td_evidence :: tutor_signals
  td_rationale :: string

definition bare_signals :: "pyfloat \<Rightarrow> pyfloat \<Rightarrow> pyfloat \<Rightarrow> tutor_signals" where
  "bare_signals c r d =
     \<lparr>sg_completion = Some c, sg_correctness = Some r, sg_delta = Some d, sg_low_nodes = [], sg_tags = [],
      sg_attempts = [], sg_queue = None, sg_phase = None, sg_missing = [], sg_automatic = None, sg_gate = None\<rparr>"

definition decide_observer_action :: "pyfloat \<Rightarrow> pyfloat \<Rightarrow> pyfloat \<Rightarrow> tutor_decision" where
  "decide_observer_action c r d =
     (if c < 6 / 10
      then \<lparr>td_action = Reduce, td_evidence = bare_signals c r d,
            td_rationale = ''Seven-day completion rate is below the V1 load threshold.''\<rparr>
      else if r < 6 / 10 \<or> d \<le> - 10
      then \<lparr>td_action = Remediate, td_evidence = bare_signals c r d,
            td_rationale = ''Recent correctness or mastery trend indicates a gap.''\<rparr>
      else if 9 / 10 \<le> c \<and> 9 / 10 \<le> r \<and> 5 \<le> d
      then \<lparr>td_action = Advance, td_evidence = bare_signals c r d,
            td_rationale = ''Recent performance is strong enough to unlock harder work.''\<rparr>
      else \<lparr>td_action = Keep, td_evidence = bare_signals c r d,
            td_rationale = ''Learning signals remain within the current plan.''\<rparr>)"

text \<open>\<open>str(v or "").lower()\<close> and \<open>float(v or 0)\<close> with 0 for a value that is no number.\<close>

definition lowered :: "replan_env \<Rightarrow> json \<Rightarrow> ustr" where
  "lowered E v = re_lower E (if \<not> truthy v then [] else case v of JStr s \<Rightarrow> s | _ \<Rightarrow> re_str E v)"

definition readiness :: "replan_env \<Rightarrow> json \<Rightarrow> pyfloat" where
  "readiness E v =
     (if \<not> truthy v then 0
      else case num_of v of
        Some x \<Rightarrow> x
      | None \<Rightarrow> (case v of JStr s \<Rightarrow> (case re_float E s of Some x \<Rightarrow> x | None \<Rightarrow> 0) | _ \<Rightarrow> 0))"

definition phase_graded :: "replan_env \<Rightarrow> metadata \<Rightarrow> bool" where
  "phase_graded E p \<longleftrightarrow> lowered E (meta_get p ''status'') = lit ''graded''"

definition phase_review :: "replan_env \<Rightarrow> metadata \<Rightarrow> bool" where
  "phase_review E p \<longleftrightarrow> lowered E (meta_get p ''next_action'') = lit ''review''
     \<or> readiness E (meta_get p ''readiness_score'') < 70"

text \<open>The gate of the phase assessment on a decision: the name of the gate with the decision.\<close>

definition phase_gate :: "replan_env \<Rightarrow> metadata \<Rightarrow> observer_action \<Rightarrow> (string \<times> observer_action \<times> string) option" where
  "phase_gate E p a =
     (if \<not> phase_graded E p \<and> a = Advance
      then Some (''assessment_not_graded'', Keep,
             ''Phase assessment must be graded before advancing the learning path.'')
      else if phase_graded E p \<and> phase_review E p
      then if a \<in> {Keep, Advance}
           then Some (''assessment_requires_review'', Remediate,
                  ''Phase assessment requires review before the learning path can advance.'')
           else None
      else None)"

text \<open>The signals of \<open>source or {}\<close>, rebuilt; \<open>None\<close> is the empty dictionary.\<close>

definition normalized_signals :: "tutor_signals option \<Rightarrow> tutor_signals" where
  "normalized_signals source =
     (let n = (case source of
                 None \<Rightarrow> build_observer_signals None None None [] [] [] None None
               | Some s \<Rightarrow> build_observer_signals (sg_completion s) (sg_correctness s) (sg_delta s)
                             (sg_low_nodes s) (sg_tags s) (sg_attempts s) (sg_queue s) (sg_phase s));
          missing = dict_update (case source of None \<Rightarrow> [] | Some s \<Rightarrow> sg_missing s) (sg_missing n)
      in n\<lparr>sg_missing := missing, sg_automatic := Some (missing = [])\<rparr>)"

definition number_or_zero :: "pyfloat option \<Rightarrow> pyfloat" where
  "number_or_zero v = (case v of Some x \<Rightarrow> x | None \<Rightarrow> 0)"

definition decide_observer_action_from_signals :: "replan_env \<Rightarrow> tutor_signals option \<Rightarrow> tutor_decision" where
  "decide_observer_action_from_signals E source =
     (let n = normalized_signals source;
          d = decide_observer_action (number_or_zero (sg_completion n)) (number_or_zero (sg_correctness n))
                (number_or_zero (sg_delta n))
      in case (case sg_phase n of None \<Rightarrow> None | Some p \<Rightarrow> phase_gate E p (td_action d)) of
           None \<Rightarrow> d\<lparr>td_evidence := n\<rparr>
         | Some (gate, a, why) \<Rightarrow>
             \<lparr>td_action = a, td_evidence = n\<lparr>sg_gate := Some gate\<rparr>, td_rationale = why\<rparr>)"


text \<open>Rebuilding signals that are already rounded and sorted changes nothing.\<close>

lemma py_round_idem [simp]: "py_round (py_round x n) n = py_round x n"
  by (rule py_round_fix [where k = "py_round_int (x * 10 ^ n)"]) (simp add: py_round_def)

lemma sort_fromkeys_idem [simp]: "sort (fromkeys (sort (fromkeys xs))) = sort (fromkeys xs)"
proof -
  have "fromkeys ys = ys" if "distinct ys" for ys :: "'a list"
  proof -
    have "fromkeys_from S ys = ys" if "distinct ys" "S \<inter> set ys = {}" for S and ys :: "'a list"
      using that by (induction ys arbitrary: S) auto
    then show ?thesis using that by (simp add: fromkeys_def)
  qed
  then show ?thesis by (simp add: sorted_sort_id)
qed

lemma rate_idem: "rate_or_default (Some (fst (rate_or_default v d k l))) d' k' l'
    = (fst (rate_or_default v d k l), [])" if "0 \<le> d" "d \<le> 1" "py_round d 4 = d"
proof (cases v)
  case (Some x)
  have "0 \<le> py_round (min 1 (max 0 x)) 4" "py_round (min 1 (max 0 x)) 4 \<le> 1"
    by (auto intro: py_round_nonneg py_round_le_1)
  with Some show ?thesis by (simp add: rate_or_default_def)
qed (use that in \<open>simp add: rate_or_default_def\<close>)

lemma number_idem: "number_or_default (Some (fst (number_or_default v d k l))) d' k' l'
    = (fst (number_or_default v d k l), [])" if "py_round d 4 = d"
  using that by (cases v) (simp_all add: number_or_default_def)

lemma default_rate_rounded [simp]: "py_round (4 / 5) 4 = (4 / 5 :: pyfloat)"
  by (rule py_round_fix [where k = 8000]) simp

text \<open>Normalised signals: complete, within range and stable.\<close>

lemma normalized_fields:
  "sg_completion (normalized_signals s)
     = Some (fst (rate_or_default (Option.bind s sg_completion) (8 / 10) ''completion_rate_7d'' ''0.8''))"
  "sg_correctness (normalized_signals s)
     = Some (fst (rate_or_default (Option.bind s sg_correctness) (8 / 10) ''correctness_rate'' ''0.8''))"
  "sg_delta (normalized_signals s) = Some (fst (number_or_default (Option.bind s sg_delta) 0 ''mastery_delta'' ''0''))"
  "sg_phase (normalized_signals s) = Option.bind s sg_phase"
  "sg_gate (normalized_signals s) = None"
  by (cases s; simp add: normalized_signals_def build_observer_signals_def Let_def split_beta)+

lemma rate_range: "0 \<le> d \<Longrightarrow> d \<le> 1 \<Longrightarrow> 0 \<le> fst (rate_or_default v d k l) \<and> fst (rate_or_default v d k l) \<le> 1"
  by (cases v) (auto simp: rate_or_default_def intro: py_round_nonneg py_round_le_1)

lemma normalized_idem: "normalized_signals (Some ((normalized_signals s)\<lparr>sg_gate := g\<rparr>)) = normalized_signals s"
proof -
  note idem = rate_idem [where d = "4 / 5"] number_idem [where d = 0]
  show ?thesis
    by (cases s; simp add: normalized_signals_def build_observer_signals_def Let_def split_beta idem)
qed

text \<open>What the decision without a phase says of the three numbers.\<close>

lemma decide_observer_action_cases:
  "td_action (decide_observer_action c r d) = Reduce \<longleftrightarrow> c < 6 / 10"
  "td_action (decide_observer_action c r d) = Remediate \<longleftrightarrow> 6 / 10 \<le> c \<and> (r < 6 / 10 \<or> d \<le> - 10)"
  "td_action (decide_observer_action c r d) = Advance \<longleftrightarrow> 9 / 10 \<le> c \<and> 9 / 10 \<le> r \<and> 5 \<le> d"
  by (auto simp: decide_observer_action_def)

lemma decided_cases:
  obtains "td_action (decide_observer_action_from_signals E s) =
      td_action (decide_observer_action (number_or_zero (sg_completion (normalized_signals s)))
        (number_or_zero (sg_correctness (normalized_signals s))) (number_or_zero (sg_delta (normalized_signals s))))"
      "\<forall>p \<in> set_option (Option.bind s sg_phase). phase_gate E p (td_action (decide_observer_action_from_signals E s)) = None"
  | p gate why where "Option.bind s sg_phase = Some p"
      "phase_gate E p (td_action (decide_observer_action (number_or_zero (sg_completion (normalized_signals s)))
        (number_or_zero (sg_correctness (normalized_signals s))) (number_or_zero (sg_delta (normalized_signals s)))))
        = Some (gate, td_action (decide_observer_action_from_signals E s), why)"
proof (cases "Option.bind s sg_phase")
  case None
  then show ?thesis
    by (intro that(1)) (simp_all add: decide_observer_action_from_signals_def Let_def normalized_fields)
next
  case (Some p)
  then show ?thesis
    by (cases "phase_gate E p (td_action (decide_observer_action (number_or_zero (sg_completion (normalized_signals s)))
        (number_or_zero (sg_correctness (normalized_signals s))) (number_or_zero (sg_delta (normalized_signals s)))))")
      (auto intro: that simp: decide_observer_action_from_signals_def Let_def normalized_fields)
qed

text \<open>A rate and a rise as the decision reads them.\<close>

definition strong_rate :: "pyfloat \<Rightarrow> bool" where
  "strong_rate c \<longleftrightarrow> 9 / 10 \<le> py_round (min 1 (max 0 c)) 4"

definition strong_rise :: "pyfloat \<Rightarrow> bool" where
  "strong_rise d \<longleftrightarrow> 5 \<le> py_round d 4"

lemma advance_measured:
  assumes "td_action (decide_observer_action_from_signals E source) = Advance"
  shows "\<exists>s c r d. source = Some s \<and> sg_completion s = Some c \<and> sg_correctness s = Some r \<and> sg_delta s = Some d
     \<and> strong_rate c \<and> strong_rate r \<and> strong_rise d
     \<and> (\<forall>p \<in> set_option (sg_phase s). phase_graded E p \<and> \<not> phase_review E p)"
proof (cases rule: decided_cases [of E source])
  case 1
  let ?n = "normalized_signals source"
  have n: "9 / 10 \<le> number_or_zero (sg_completion ?n)" "9 / 10 \<le> number_or_zero (sg_correctness ?n)"
    "5 \<le> number_or_zero (sg_delta ?n)"
    using iffD1 [OF decide_observer_action_cases(3) trans [OF 1(1) [symmetric] assms]] by auto
  from n obtain s where s: "source = Some s"
    by (cases source) (auto simp: normalized_fields number_or_zero_def rate_or_default_def)
  from n s obtain c r d where "sg_completion s = Some c" "sg_correctness s = Some r" "sg_delta s = Some d"
    by (cases "sg_completion s"; cases "sg_correctness s"; cases "sg_delta s")
      (auto simp: normalized_fields number_or_zero_def rate_or_default_def number_or_default_def)
  moreover have "phase_graded E p \<and> \<not> phase_review E p" if "sg_phase s = Some p" for p
    using 1(2) s that assms by (auto simp: phase_gate_def split: if_splits)
  ultimately show ?thesis
    using n s
    by (auto simp: strong_rate_def strong_rise_def normalized_fields number_or_zero_def rate_or_default_def number_or_default_def)
next
  case (2 p gate why)
  with assms show ?thesis by (auto simp: phase_gate_def split: if_splits)
qed

definition sample_signals :: tutor_signals where
  "sample_signals = build_observer_signals (Some (95 / 100)) (Some 1) (Some 6) [] [] [] None
     (Some [(lit ''status'', JStr (lit ''graded'')), (lit ''readiness_score'', JInt 90)])"

definition sample_replan_env :: replan_env where
  "sample_replan_env = \<lparr>re_db = ascii_db, re_lower = (\<lambda>s. s), re_str = (\<lambda>_. []), re_float = (\<lambda>_. None), re_text = (\<lambda>_. [])\<rparr>"

lemma sample_rounded [simp]: "py_round (19 / 20) 4 = (19 / 20 :: pyfloat)"
  by (rule py_round_fix [where k = 9500]) simp

lemma sample_advance: "td_action (decide_observer_action_from_signals sample_replan_env (Some sample_signals)) = Advance"
  by (simp add: decide_observer_action_from_signals_def normalized_signals_def sample_signals_def Let_def
      build_observer_signals_def rate_or_default_def number_or_default_def number_or_zero_def
      decide_observer_action_def phase_gate_def phase_graded_def phase_review_def lowered_def readiness_def
      meta_get_def sample_replan_env_def lit_def)

text \<open>
  Deciding again on the signals stored with a decision gives the same decision with the
  same signals and rationale: the planner, which may decide from the stored signals, agrees with
  the observer.
\<close>
theorem decide_again:
  "decide_observer_action_from_signals E (Some (td_evidence (decide_observer_action_from_signals E source)))
     = decide_observer_action_from_signals E source"
proof -
  obtain g where "td_evidence (decide_observer_action_from_signals E source) = (normalized_signals source)\<lparr>sg_gate := g\<rparr>"
  proof (cases "Option.bind source sg_phase")
    case None
    then show ?thesis
      by (intro that [of None])
        (simp add: decide_observer_action_from_signals_def Let_def normalized_fields)
  next
    case (Some p)
    then show ?thesis
      by (intro that [of "map_option fst (phase_gate E p (td_action (decide_observer_action
            (number_or_zero (sg_completion (normalized_signals source)))
            (number_or_zero (sg_correctness (normalized_signals source)))
            (number_or_zero (sg_delta (normalized_signals source))))))"])
        (simp add: decide_observer_action_from_signals_def Let_def normalized_fields split: option.splits prod.splits)
  qed
  then show ?thesis
    by (simp add: decide_observer_action_from_signals_def [of E "Some _"] normalized_idem)
      (simp add: decide_observer_action_from_signals_def)
qed

subsection \<open>Plan adjustments\<close>

text \<open>The statuses of \<open>PlannerProposal\<close> and of \<open>PlanAdjustment\<close>; only the latter can be \<open>applied\<close>.\<close>

datatype proposal_status = Proposed | Accepted | RejectedProposal | Expired | Superseded | ApplyFailed | Applied

datatype planner_error = PlannerTypeError | PlannerAttributeError | PlannerValueError string

record plan_adjustment =
  pa_id :: ustr
  pa_user :: ustr
  pa_goal :: ustr
  pa_previous :: "ustr option"
  pa_trigger :: string
  pa_decision :: observer_action
  pa_status :: proposal_status
  pa_policy :: string
  pa_automation :: bool
  pa_signals :: tutor_signals
  pa_request :: "ustr option"
  pa_before :: metadata
  pa_after :: metadata
  pa_patch :: metadata
  pa_summary :: metadata
  pa_rationale :: metadata
  pa_version :: int
  pa_expires :: int
  pa_risk :: string
  pa_confirm :: bool
  pa_operations :: "metadata list"

fun action_value :: "observer_action \<Rightarrow> string" where
  "action_value Keep = ''keep''"
| "action_value Reduce = ''reduce''"
| "action_value Remediate = ''remediate''"
| "action_value Advance = ''advance''"

fun patch_by_decision :: "observer_action \<Rightarrow> metadata" where
  "patch_by_decision Keep = [(lit ''no_change'', JBool True)]"
| "patch_by_decision Reduce = [(lit ''load_multiplier'', JFloat (8 / 10)), (lit ''defer_nonessential'', JBool True)]"
| "patch_by_decision Remediate = [(lit ''insert_review'', JBool True), (lit ''review_task_count'', JInt 2)]"
| "patch_by_decision Advance = [(lit ''unlock_next_nodes'', JBool True), (lit ''increase_difficulty'', JInt 1)]"

definition summary_of :: "observer_action \<Rightarrow> (string \<times> string) list \<Rightarrow> string \<Rightarrow> metadata" where
  "summary_of a changes why =
     [(lit ''decision'', json_str (action_value a)),
      (lit ''changes'', JList (map (\<lambda>(t, l). JDict [(lit ''type'', json_str t), (lit ''label'', json_str l)]) changes)),
      (lit ''summary'', json_str why)]"

fun summary_by_decision :: "observer_action \<Rightarrow> metadata" where
  "summary_by_decision Keep = summary_of Keep []
     ''Keep the current plan; structured learning signals are within range.''"
| "summary_by_decision Reduce = summary_of Reduce [(''load'', ''Reduce future daily load by 20%'')]
     ''Reduce workload because recent completion signals are below threshold.''"
| "summary_by_decision Remediate = summary_of Remediate [(''review'', ''Add review tasks for weak knowledge nodes'')]
     ''Add review because recent correctness or mastery trend indicates a gap.''"
| "summary_by_decision Advance = summary_of Advance [(''progression'', ''Unlock the next knowledge node'')]
     ''Advance because recent performance is strong.''"

text \<open>\<open>d.get(k, default)\<close>, and \<open>int(v)\<close>.\<close>

definition meta_default :: "metadata \<Rightarrow> string \<Rightarrow> json \<Rightarrow> json" where
  "meta_default m k d = (case map_of m (lit k) of None \<Rightarrow> d | Some v \<Rightarrow> v)"

definition int_of_json :: "replan_env \<Rightarrow> json \<Rightarrow> planner_error + int" where
  "int_of_json E v =
     (case v of
        JInt i \<Rightarrow> Inr i
      | JBool b \<Rightarrow> Inr (if b then 1 else 0)
      | JFloat x \<Rightarrow> Inr (if 0 \<le> x then \<lfloor>x\<rfloor> else \<lceil>x\<rceil>)
      | JStr s \<Rightarrow> (case py_int (re_db E) s of Some i \<Rightarrow> Inr i | None \<Rightarrow> Inl (PlannerValueError ''int''))
      | _ \<Rightarrow> Inl PlannerTypeError)"

definition dict_value :: "json \<Rightarrow> planner_error + metadata" where
  "dict_value v = (case v of JDict d \<Rightarrow> Inr d | _ \<Rightarrow> Inl PlannerAttributeError)"

definition json_id :: "ustr option \<Rightarrow> json" where
  "json_id v = (case v of None \<Rightarrow> JNull | Some s \<Rightarrow> JStr s)"

definition build_before_snapshot :: "metadata option \<Rightarrow> ustr option \<Rightarrow> planner_error + metadata" where
  "build_before_snapshot snapshot previous =
     (case snapshot of
        None \<Rightarrow> Inr [(lit ''active_plan_id'', json_id previous)]
      | Some [] \<Rightarrow> Inr [(lit ''active_plan_id'', json_id previous)]
      | Some s \<Rightarrow>
          bind_res (dict_value (meta_default s ''current_state'' (JDict []))) (\<lambda>state.
            Inr [(lit ''active_plan'', meta_default s ''active_plan'' (JDict [(lit ''id'', json_id previous)])),
                 (lit ''mastery_summary'', meta_default s ''mastery_summary'' (JDict [])),
                 (lit ''review_queue'', meta_default state ''review_queue'' (JList [])),
                 (lit ''current_task'', meta_get s ''current_task'')]))"

definition text_or_none :: "replan_env \<Rightarrow> pyfloat option \<Rightarrow> ustr" where
  "text_or_none E v = (case v of None \<Rightarrow> lit ''None'' | Some x \<Rightarrow> re_text E x)"

definition evidence_labels :: "replan_env \<Rightarrow> tutor_signals \<Rightarrow> ustr list" where
  "evidence_labels E s =
     [lit ''7-day completion rate: '' @ text_or_none E (sg_completion s),
      lit ''recent correctness rate: '' @ text_or_none E (sg_correctness s),
      lit ''mastery delta: '' @ text_or_none E (sg_delta s)]
     @ (if sg_low_nodes s \<noteq> [] then [lit ''low mastery nodes present''] else [])
     @ (if sg_tags s \<noteq> [] then [lit ''recent wrong-answer tags present''] else [])"

definition missing_json :: "tutor_signals \<Rightarrow> json" where
  "missing_json s = JDict (map (\<lambda>(k, v). (lit k, json_str v)) (sg_missing s))"

text \<open>Instants are microseconds; a proposal expires after 24 hours.\<close>

definition proposal_expires_at :: "int \<Rightarrow> int" where
  "proposal_expires_at created = created + 24 * 3600 * 1000000"

definition generate_plan_adjustment ::
  "replan_env \<Rightarrow> ustr \<Rightarrow> int \<Rightarrow> ustr \<Rightarrow> ustr \<Rightarrow> ustr option \<Rightarrow> tutor_decision \<Rightarrow> string \<Rightarrow> metadata option
     \<Rightarrow> tutor_signals option \<Rightarrow> ustr \<Rightarrow> planner_error + plan_adjustment" where
  "generate_plan_adjustment E new_id now user goal previous d trigger_type snapshot observed request =
     (let signals = (case observed of Some s \<Rightarrow> s | None \<Rightarrow> td_evidence d);
          a = td_action d
      in bind_res (build_before_snapshot snapshot previous) (\<lambda>before.
         bind_res (dict_value (meta_default before ''active_plan'' (JDict []))) (\<lambda>active.
         bind_res (int_of_json E (meta_default active ''version'' (JInt 1))) (\<lambda>version.
           Inr \<lparr>pa_id = lit ''adjustment-'' @ new_id, pa_user = user, pa_goal = goal, pa_previous = previous,
                pa_trigger = trigger_type, pa_decision = a, pa_status = Proposed,
                pa_policy = ''phase2-observer-v1'', pa_automation = (a \<noteq> Keep), pa_signals = signals,
                pa_request = (if request = [] then None else Some request),
                pa_before = before,
                pa_after = [(lit ''active_plan_id'', json_id previous),
                  (lit ''pending_patch'', JDict (patch_by_decision a)),
                  (lit ''change_summary'', JDict (summary_by_decision a))],
                pa_patch = patch_by_decision a, pa_summary = summary_by_decision a,
                pa_rationale = [(lit ''decision'', json_str (action_value a)),
                  (lit ''rationale'', json_str (td_rationale d)),
                  (lit ''evidence_labels'', JList (map JStr (evidence_labels E signals))),
                  (lit ''missing_data_strategy'', missing_json signals)],
                pa_version = version, pa_expires = proposal_expires_at now,
                pa_risk = (if a \<noteq> Keep then ''medium'' else ''low''), pa_confirm = (a \<noteq> Keep),
                pa_operations = map (\<lambda>(k, v). [(lit ''op'', JStr k), (lit ''value'', v)]) (patch_by_decision a)\<rparr>))))"

subsection \<open>Validation and life cycle of a proposal\<close>

record planner_proposal =
  pr_version :: int
  pr_expires :: int
  pr_status :: proposal_status
  pr_operations :: "metadata list"

definition allowed_operations :: "ustr list" where
  "allowed_operations = map lit
     [''load_multiplier'', ''defer_nonessential'', ''insert_review'', ''unlock_next_nodes'', ''increase_difficulty'']"

definition transition_proposal :: "proposal_status \<Rightarrow> string \<Rightarrow> planner_error + proposal_status" where
  "transition_proposal status action =
     (if status \<noteq> Proposed then Inl (PlannerValueError ''terminal proposal cannot transition'')
      else if action = ''accept'' then Inr Accepted
      else if action = ''reject'' then Inr RejectedProposal
      else Inl (PlannerValueError ''unsupported proposal action''))"

definition operation_allowed :: "metadata \<Rightarrow> bool" where
  "operation_allowed m \<longleftrightarrow> meta_get m ''op'' \<in> JStr ` set allowed_operations"

definition validate_proposal :: "planner_proposal \<Rightarrow> int \<Rightarrow> int \<Rightarrow> planner_error + planner_proposal" where
  "validate_proposal p current now =
     (if pr_status p \<noteq> Proposed then Inl (PlannerValueError ''proposal is not proposed'')
      else if pr_expires p \<le> now then Inl (PlannerValueError ''proposal is expired'')
      else if pr_version p \<noteq> current then Inl (PlannerValueError ''proposal plan version is stale'')
      else if \<not> list_all operation_allowed (pr_operations p)
      then Inl (PlannerValueError ''proposal operation is not allowed'')
      else Inr p)"

text \<open>The fields of an adjustment the validator reads.\<close>

definition proposal_of :: "plan_adjustment \<Rightarrow> planner_proposal" where
  "proposal_of a = \<lparr>pr_version = pa_version a, pr_expires = pa_expires a, pr_status = pa_status a,
     pr_operations = pa_operations a\<rparr>"

text \<open>
  A generated adjustment validates as a proposal exactly until its expiry, against the plan
  version it was made for, and only if it reduces or advances: the generator also emits the operations
  \<open>no_change\<close> and \<open>review_task_count\<close>, which the validator does not know.
\<close>
theorem generated_valid_iff:
  assumes "generate_plan_adjustment E new_id created user goal previous d trigger_type snapshot observed request = Inr adj"
  shows "is_ok (validate_proposal (proposal_of adj) current now) \<longleftrightarrow>
     now < created + 86400000000 \<and> current = pa_version adj \<and> td_action d \<in> {Reduce, Advance}"
proof -
  have "pa_status adj = Proposed" "pa_expires adj = created + 86400000000"
    "pa_operations adj = map (\<lambda>(k, v). [(lit ''op'', JStr k), (lit ''value'', v)]) (patch_by_decision (td_action d))"
    using assms by (auto simp: generate_plan_adjustment_def Let_def bind_res_Inr_iff proposal_expires_at_def)
  then show ?thesis
    by (cases "td_action d")
      (auto simp: validate_proposal_def proposal_of_def operation_allowed_def allowed_operations_def meta_get_def)
qed

definition sample_adjustment :: plan_adjustment where
  "sample_adjustment = (case generate_plan_adjustment sample_replan_env (lit ''1'') 0 (lit ''u'') (lit ''g'') (Some (lit ''p''))
     (decide_observer_action 1 1 6) ''manual'' None None [] of Inr a \<Rightarrow> a | Inl _ \<Rightarrow> undefined)"

lemma generated_valid_iff_witness:
  "is_ok (validate_proposal (proposal_of sample_adjustment) 1 5) \<longleftrightarrow>
     (5 :: int) < 0 + 86400000000 \<and> 1 = pa_version sample_adjustment
     \<and> td_action (decide_observer_action 1 1 6) \<in> {Reduce, Advance}"
  by (rule generated_valid_iff [of sample_replan_env "lit ''1''" 0 "lit ''u''" "lit ''g''" "Some (lit ''p'')"
        "decide_observer_action 1 1 6" "''manual''" None None "[]"])
    (simp add: sample_adjustment_def generate_plan_adjustment_def Let_def build_before_snapshot_def dict_value_def
      meta_default_def int_of_json_def)

end
