(* ===== verification/Learning_Nodes.thy ===== *)
theory Learning_Nodes
  imports Replanning
begin

text \<open>
  The observer, planner, memory and persistence nodes of the tutor graph
  (src/src/adaptive_tutor/tutor/learning_services.py, AssessmentService apart), on the state the
  graph of \<open>Tutor_Graph\<close> carries, and the graph with these nodes in place of the ports.
\<close>

subsection \<open>State\<close>

record attempt_result =
  at_assessment :: ustr
  at_attempt :: ustr
  at_score :: pyfloat
  at_tags :: "ustr list list"

datatype workflow_action =
    SaveAssessmentDraft ustr
  | SaveAttemptResult attempt_result
  | SaveMasteryUpdates "node_update list"
  | SavePlanAdjustment plan_adjustment
  | RefreshStateSnapshot ustr ustr ustr plan_adjustment
  | SaveMemory ustr ustr "memory_decision list"

record learning_rest =
  nr_signals :: "tutor_signals option"
  nr_observed :: "tutor_decision option"
  nr_snapshot :: "metadata option"
  nr_adjustment :: "plan_adjustment option"
  nr_draft :: "ustr option"
  nr_result :: "attempt_result option"
  nr_updates :: "node_update list"
  nr_memory :: "memory_decision list"
  nr_saved :: "workflow_action list"

type_synonym learning_tutor_state = "learning_rest tutor_state"

definition with_rest :: "(learning_rest \<Rightarrow> learning_rest) \<Rightarrow> learning_tutor_state \<Rightarrow> learning_tutor_state" where
  "with_rest f s = s\<lparr>st_rest := f (st_rest s)\<rparr>"

subsection \<open>The observer\<close>

definition low_node :: "node_update \<Rightarrow> metadata" where
  "low_node u = [(lit ''knowledge_node_id'', JStr (nu_node u)), (lit ''score'', JFloat (nu_new u))]"

definition attempt_entry :: "attempt_result \<Rightarrow> metadata" where
  "attempt_entry r = [(lit ''assessment_id'', JStr (at_assessment r)), (lit ''attempt_id'', JStr (at_attempt r)),
     (lit ''score'', JFloat (at_score r))]"

text \<open>\<open>min(..., default=0)\<close>\<close>

definition smallest_delta :: "node_update list \<Rightarrow> pyfloat" where
  "smallest_delta us = (case map (\<lambda>u. nu_new u - nu_previous u) us of [] \<Rightarrow> 0 | d # ds \<Rightarrow> min_by (\<lambda>x. x) d ds)"

text \<open>\<open>base.get(k, d)\<close>: the default counts only for the empty dictionary.\<close>

definition base_number :: "(tutor_signals \<Rightarrow> pyfloat option) \<Rightarrow> pyfloat \<Rightarrow> tutor_signals option \<Rightarrow> pyfloat option" where
  "base_number f d base = (case base of None \<Rightarrow> Some d | Some s \<Rightarrow> f s)"

definition base_list :: "(tutor_signals \<Rightarrow> 'a list) \<Rightarrow> tutor_signals option \<Rightarrow> 'a list" where
  "base_list f base = (case base of None \<Rightarrow> [] | Some s \<Rightarrow> f s)"

definition observed_signals ::
  "trigger \<Rightarrow> attempt_result option \<Rightarrow> node_update list \<Rightarrow> tutor_signals option \<Rightarrow> tutor_signals" where
  "observed_signals t result updates base =
     (let queue = Option.bind base sg_queue; phase = Option.bind base sg_phase
      in case result of
           Some r \<Rightarrow>
             build_observer_signals (base_number sg_completion (95 / 100) base) (Some (at_score r / 100))
               (Some (smallest_delta updates)) (map low_node (filter (\<lambda>u. nu_new u < 70) updates))
               (concat (at_tags r)) [attempt_entry r] queue phase
         | None \<Rightarrow>
             if t = TaskCompleted
             then build_observer_signals (base_number sg_completion (85 / 100) base)
                    (base_number sg_correctness (8 / 10) base) (base_number sg_delta 1 base)
                    (base_list sg_low_nodes base) (base_list sg_tags base) (base_list sg_attempts base) queue phase
             else build_observer_signals (Option.bind base sg_completion) (Option.bind base sg_correctness)
                    (Option.bind base sg_delta) (base_list sg_low_nodes base) (base_list sg_tags base)
                    (base_list sg_attempts base) queue phase)"

definition observe :: "replan_env \<Rightarrow> trigger \<Rightarrow> learning_tutor_state \<Rightarrow> learning_tutor_state" where
  "observe E t s =
     (let base = nr_signals (st_rest s);
          built = observed_signals t (nr_result (st_rest s)) (nr_updates (st_rest s)) base;
          signals = built\<lparr>sg_missing := dict_update (base_list sg_missing base) (sg_missing built)\<rparr>;
          d = decide_observer_action_from_signals E (Some signals)
      in audit [(''node'', json_str ''observer''), (''decision'', json_str (action_value (td_action d)))]
           (s\<lparr>st_observer := Some (td_action d),
              st_route := (if st_route s = Some RouteTeaching then st_route s else Some RouteObserve),
              st_rest := (st_rest s)\<lparr>nr_signals := Some (td_evidence d), nr_observed := Some d\<rparr>\<rparr>))"

subsection \<open>The planner\<close>

definition planner_failure :: "planner_error \<Rightarrow> port_error" where
  "planner_failure e =
     (case e of
        PlannerTypeError \<Rightarrow> PortError ''TypeError'' []
      | PlannerAttributeError \<Rightarrow> PortError ''AttributeError'' []
      | PlannerValueError _ \<Rightarrow> PortError ''ValueError'' [])"

text \<open>\<open>active_plan.get("id", "plan-1")\<close> as the field \<open>previous_plan_id: str | None\<close> accepts it.\<close>

definition previous_plan_id :: "metadata \<Rightarrow> planner_error + ustr option" where
  "previous_plan_id plan =
     (case meta_default plan ''id'' (json_str ''plan-1'') of
        JStr p \<Rightarrow> Inr (Some p)
      | JNull \<Rightarrow> Inr None
      | _ \<Rightarrow> Inl (PlannerValueError ''previous_plan_id''))"

fun trigger_value :: "trigger \<Rightarrow> string" where
  "trigger_value Onboarding = ''onboarding''"
| "trigger_value Chat = ''chat''"
| "trigger_value TaskCompleted = ''task_completed''"
| "trigger_value AssessmentDue = ''assessment_due''"
| "trigger_value AssessmentSubmitted = ''assessment_submitted''"
| "trigger_value ManualReplan = ''manual_replan''"

definition plan_node ::
  "replan_env \<Rightarrow> ustr \<Rightarrow> int \<Rightarrow> tutor_request \<Rightarrow> learning_tutor_state \<Rightarrow> port_error + learning_tutor_state" where
  "plan_node E new_id now rq s =
     (let rest = st_rest s;
          d = (case nr_observed rest of Some d \<Rightarrow> d | None \<Rightarrow> decide_observer_action_from_signals E (nr_signals rest));
          signals = (case nr_observed rest of Some _ \<Rightarrow> nr_signals rest | None \<Rightarrow> Some (td_evidence d));
          manual = (rq_trigger rq = ManualReplan);
          made = bind_res (previous_plan_id (lr_active_plan (wf_learning (st_workflow s)))) (\<lambda>previous.
            generate_plan_adjustment E new_id now (rq_user_id rq) (rq_goal_id rq) previous d
              (if manual then ''manual'' else trigger_value (rq_trigger rq)) (nr_snapshot rest) signals
              (if manual then rq_message rq else []))
      in case made of
           Inl e \<Rightarrow> Inl (planner_failure e)
         | Inr adj \<Rightarrow>
             Inr (audit [(''node'', json_str ''planner''), (''decision'', json_str (action_value (pa_decision adj)))]
               (s\<lparr>st_observer := Some (td_action d), st_route := Some RouteReplan,
                  st_final_answer := lit ''Plan adjustment proposed: '' @ lit (action_value (pa_decision adj)) @ lit ''.'',
                  st_rest := rest\<lparr>nr_observed := Some d, nr_signals := signals, nr_adjustment := Some adj\<rparr>\<rparr>)))"

subsection \<open>Memory gate and persistence\<close>

definition count_decisions :: "decision_kind \<Rightarrow> memory_decision list \<Rightarrow> int" where
  "count_decisions k ds = int (length (filter (\<lambda>d. de_kind d = k) ds))"

definition memory_node ::
  "(learning_tutor_state \<Rightarrow> port_error + memory_decision list) \<Rightarrow> learning_tutor_state \<Rightarrow> port_error + learning_tutor_state" where
  "memory_node gate s =
     bind_res (gate s) (\<lambda>ds.
       Inr (audit [(''node'', json_str ''memory_gate''), (''candidate_count'', JInt (int (length ds))),
              (''approved'', JInt (count_decisions Approved ds)), (''rejected'', JInt (count_decisions Rejected ds)),
              (''policy_version'', json_str ''memory-gate-v1'')]
            (with_rest (\<lambda>r. r\<lparr>nr_memory := ds\<rparr>) s)))"

definition build_actions :: "tutor_request \<Rightarrow> learning_rest \<Rightarrow> workflow_action list" where
  "build_actions rq r =
     (case (nr_draft r, nr_result r) of (Some a, None) \<Rightarrow> [SaveAssessmentDraft a] | _ \<Rightarrow> [])
     @ (case nr_result r of None \<Rightarrow> [] | Some x \<Rightarrow> [SaveAttemptResult x, SaveMasteryUpdates (nr_updates r)])
     @ (case nr_adjustment r of
          None \<Rightarrow> []
        | Some adj \<Rightarrow> [SavePlanAdjustment adj,
            RefreshStateSnapshot (rq_user_id rq) (rq_goal_id rq) (pa_id adj) adj])
     @ (if nr_memory r = [] then [] else [SaveMemory (rq_user_id rq) (rq_goal_id rq) (nr_memory r)])"

definition persist :: "tutor_request \<Rightarrow> learning_tutor_state \<Rightarrow> learning_tutor_state" where
  "persist rq s =
     audit [(''node'', json_str ''persist''), (''status'', json_str ''ok'')]
       (with_rest (\<lambda>r. r\<lparr>nr_saved := nr_saved r @ build_actions rq r\<rparr>) s)"

subsection \<open>The graph with these nodes\<close>

record node_ports =
  np_replan :: replan_env
  np_id :: ustr
  np_now :: int
  np_gate :: "learning_tutor_state \<Rightarrow> port_error + memory_decision list"

definition learning_env :: "node_ports \<Rightarrow> learning_rest tutor_env \<Rightarrow> learning_rest tutor_env" where
  "learning_env P env = env\<lparr>te_node := (\<lambda>n s.
     case n of
       Observer \<Rightarrow> Inr (observe (np_replan P) (rq_trigger (te_request env)) s)
     | Planner \<Rightarrow> plan_node (np_replan P) (np_id P) (np_now P) (te_request env) s
     | MemoryGate \<Rightarrow> memory_node (np_gate P) s
     | Persist \<Rightarrow> Inr (persist (te_request env) s)
     | _ \<Rightarrow> te_node env n s)\<rparr>"

text \<open>The part of the state these nodes own, which the remaining ports leave alone.\<close>

definition plan_part :: "learning_tutor_state \<Rightarrow> tutor_decision option \<times> plan_adjustment option \<times> workflow_action list" where
  "plan_part s = (nr_observed (st_rest s), nr_adjustment (st_rest s), nr_saved (st_rest s))"

definition plan_frame :: "learning_rest tutor_env \<Rightarrow> bool" where
  "plan_frame env \<longleftrightarrow> (\<forall>n s s'. te_node env n s = Inr s' \<longrightarrow> plan_part s' = plan_part s)"

lemma audit_rest [simp]: "st_rest (audit e s) = st_rest s" "st_observer (audit e s) = st_observer s"
  by (simp_all add: audit_def)

lemma record_tool_action_rest [simp]: "st_rest (record_tool_action env ob n s) = st_rest s"
  by (simp add: record_tool_action_def)

lemma record_result_rest [simp]: "st_rest (record_agent_tool_result l ob stop s) = st_rest s"
  by (simp add: record_agent_tool_result_def Let_def)

lemma agent_decide_rest: "agent_decide env s = Inr s' \<Longrightarrow> st_rest s' = st_rest s"
  by (auto simp: agent_decide_def bind_res_Inr_iff Let_def split: if_splits)

lemma tool_failed_rest: "tool_failed env c fp l code s = NodeDone s' \<Longrightarrow> st_rest s' = st_rest s"
  by (auto simp: tool_failed_def Let_def)

lemma tool_succeeded_rest: "tool_succeeded env c l r s = NodeDone s' \<Longrightarrow> st_rest s' = st_rest s"
  by (auto simp: tool_succeeded_def Let_def split: sum.splits)

lemma resolve_approval_rest: "resolve_approval env c fp l a s = NodeDone s' \<Longrightarrow> st_rest s' = st_rest s"
  by (auto simp: resolve_approval_def Let_def dest: tool_succeeded_rest
      split: option.splits approval_reply.splits sum.splits if_splits)

lemma tool_router_rest:
  assumes "tool_router env s rs = (NodeDone s', rs')" shows "st_rest s' = st_rest s"
proof -
  have "st_rest s' = st_rest s" if "autonomous_call env cfg c s rs = (NodeDone s', rs')" for cfg c
    using that by (auto simp: autonomous_call_def Let_def case_prod_unfold
        dest: tool_failed_rest tool_succeeded_rest resolve_approval_rest split: sum.splits tool_failure.splits)
  moreover have "st_rest s' = st_rest s" if "requested_call env cfg s rs = (NodeDone s', rs')" for cfg
    using that by (auto simp: requested_call_def Let_def case_prod_unfold split: sum.splits tool_failure.splits)
  ultimately show ?thesis
    using assms by (auto simp: tool_router_def Let_def split: option.splits if_splits)
qed

lemma learning_request [simp]: "te_request (learning_env P env) = te_request env"
  by (simp add: learning_env_def)

lemma run_node_frame:
  assumes "run_node (learning_env P env) n s rs = (NodeDone s', rs')" "plan_frame env"
    "n \<notin> {Observer, Planner, MemoryGate, Persist}"
  shows "plan_part s' = plan_part s"
  using assms agent_decide_rest [of "learning_env P env" s s'] tool_router_rest [of "learning_env P env" s rs s' rs']
  by (cases n) (auto simp: run_node_def plan_part_def plan_frame_def learning_env_def diagnosis_def split: sum.splits)

lemma run_node_learning:
  "run_node (learning_env P env) Observer s rs = (NodeDone s', rs') \<longleftrightarrow>
     s' = observe (np_replan P) (rq_trigger (te_request env)) s \<and> rs' = rs"
  "run_node (learning_env P env) Planner s rs = (NodeDone s', rs') \<longleftrightarrow>
     plan_node (np_replan P) (np_id P) (np_now P) (te_request env) s = Inr s' \<and> rs' = rs"
  "run_node (learning_env P env) MemoryGate s rs = (NodeDone s', rs') \<longleftrightarrow> memory_node (np_gate P) s = Inr s' \<and> rs' = rs"
  "run_node (learning_env P env) Persist s rs = (NodeDone s', rs') \<longleftrightarrow> s' = persist (te_request env) s \<and> rs' = rs"
  by (auto simp: run_node_def learning_env_def split: sum.splits)

text \<open>When a run proposes an adjustment, the nodes of a trigger, and the invariant of a run.\<close>

definition calls_for_plan :: "trigger \<Rightarrow> observer_action option \<Rightarrow> bool" where
  "calls_for_plan t a \<longleftrightarrow> t \<in> {ManualReplan, Onboarding}
     \<or> t \<in> {TaskCompleted, AssessmentSubmitted} \<and> a \<noteq> None \<and> a \<noteq> Some Keep"

fun nodes_of :: "trigger \<Rightarrow> node set" where
  "nodes_of Onboarding = {LoadContext, Diagnosis, Planner, MemoryGate, Persist}"
| "nodes_of Chat = {LoadContext, RetrieveContext, AgentDecide, ToolRouter, Teacher, Observer, MemoryGate, Persist}"
| "nodes_of TaskCompleted = {LoadContext, Observer, Planner, MemoryGate, Persist}"
| "nodes_of AssessmentDue = {LoadContext, BuildAssessment, Persist}"
| "nodes_of AssessmentSubmitted = {LoadContext, GradeAssessment, Observer, Planner, MemoryGate, Persist}"
| "nodes_of ManualReplan = {LoadContext, Observer, Planner, MemoryGate, Persist}"

definition plan_settled :: "tutor_request \<Rightarrow> learning_tutor_state \<Rightarrow> bool" where
  "plan_settled rq s \<longleftrightarrow>
     (nr_adjustment (st_rest s) \<noteq> None \<longleftrightarrow> calls_for_plan (rq_trigger rq) (st_observer s))
   \<and> (\<forall>a. nr_adjustment (st_rest s) = Some a \<longrightarrow>
        st_observer s = Some (pa_decision a) \<and> pa_user a = rq_user_id rq \<and> pa_goal a = rq_goal_id rq
        \<and> pa_status a = Proposed)"

definition plan_inv :: "tutor_request \<Rightarrow> node \<Rightarrow> learning_tutor_state \<Rightarrow> bool" where
  "plan_inv rq n s \<longleftrightarrow> n \<in> nodes_of (rq_trigger rq) \<and> nr_saved (st_rest s) = []
   \<and> (if n = Planner
      then nr_adjustment (st_rest s) = None \<and> (if rq_trigger rq = Onboarding then nr_observed (st_rest s) = None
             else st_observer s = map_option td_action (nr_observed (st_rest s))
                \<and> nr_observed (st_rest s) \<noteq> None \<and> calls_for_plan (rq_trigger rq) (st_observer s))
      else if n \<in> {MemoryGate, Persist} then plan_settled rq s
      else plan_part s = (None, None, []))"

lemma plan_node_settles:
  assumes "plan_node E i now rq s = Inr s'" "plan_inv rq Planner s"
  shows "plan_settled rq s' \<and> nr_saved (st_rest s') = []"
proof -
  have "pa_decision a = td_action d \<and> pa_user a = user \<and> pa_goal a = goal \<and> pa_status a = Proposed"
    if "generate_plan_adjustment E i now user goal prev d tt snap obs rt = Inr a" for user goal prev d tt snap obs rt a
    using that by (auto simp: generate_plan_adjustment_def Let_def bind_res_Inr_iff)
  with assms show ?thesis
    by (fastforce simp: plan_node_def Let_def bind_res_Inr_iff plan_settled_def plan_inv_def calls_for_plan_def
        split: sum.splits option.splits if_splits)
qed

lemma observe_inv:
  assumes "plan_inv rq Observer s" "s' = observe E (rq_trigger rq) s"
    "n = route_after_observer (rq_trigger rq) (st_observer s')"
  shows "plan_inv rq n s'"
  using assms by (cases "rq_trigger rq")
    (auto simp: plan_inv_def observe_def Let_def plan_part_def route_after_observer_def calls_for_plan_def plan_settled_def)

lemma memory_inv:
  assumes "memory_node g s = Inr s'" "plan_inv rq MemoryGate s" shows "plan_inv rq Persist s'"
  using assms by (cases "rq_trigger rq")
    (auto simp: memory_node_def with_rest_def bind_res_Inr_iff plan_inv_def plan_settled_def audit_def)

lemma other_inv:
  assumes "plan_part s' = plan_part s" "plan_inv (te_request env) n s" "n \<notin> {Observer, Planner, MemoryGate, Persist}"
    "successor (learning_env P env) n s' = Inr (Some n')"
  shows "plan_inv (te_request env) n' s'"
  using assms
  by (cases "rq_trigger (te_request env)"; cases n)
    (auto simp: plan_inv_def plan_part_def successor_def plan_settled_def calls_for_plan_def
      route_after_retrieval_def route_after_agent_decision_def route_after_tool_def Let_def bind_res_Inr_iff
      split: if_splits option.splits)

lemma plan_step:
  assumes "graph_step (learning_env P env) (Running n s rs) (Running n' s' rs')" "plan_inv (te_request env) n s" "plan_frame env"
  shows "plan_inv (te_request env) n' s'"
proof -
  from assms(1) have step: "run_node (learning_env P env) n s rs = (NodeDone s', rs')"
    "successor (learning_env P env) n s' = Inr (Some n')"
    by (auto elim: step_from_running)
  consider "n = Observer" | "n = Planner" | "n = MemoryGate" | "n = Persist" | "n \<notin> {Observer, Planner, MemoryGate, Persist}"
    by blast
  then show ?thesis
  proof cases
    case 1
    with step assms(2) show ?thesis by (auto simp: run_node_learning successor_def intro: observe_inv)
  next
    case 2
    with step have pn: "plan_node (np_replan P) (np_id P) (np_now P) (te_request env) s = Inr s'" and "n' = MemoryGate"
      by (auto simp: run_node_learning successor_def)
    moreover have "MemoryGate \<in> nodes_of t" if "Planner \<in> nodes_of t" for t
      using that by (cases t) auto
    then have "MemoryGate \<in> nodes_of (rq_trigger (te_request env))"
      using assms(2) 2 by (simp add: plan_inv_def)
    ultimately show ?thesis
      using plan_node_settles [OF pn] 2 assms(2) by (simp add: plan_inv_def [of _ MemoryGate])
  next
    case 3
    with step assms(2) show ?thesis by (auto simp: run_node_learning successor_def intro: memory_inv)
  next
    case 4
    with step show ?thesis by (simp add: successor_def)
  next
    case 5
    with step assms run_node_frame other_inv show ?thesis by blast
  qed
qed

definition saved_adjustments :: "workflow_action list \<Rightarrow> plan_adjustment list" where
  "saved_adjustments acts = concat (map (\<lambda>x. case x of SavePlanAdjustment a \<Rightarrow> [a] | _ \<Rightarrow> []) acts)"

lemma build_actions_saved [simp]: "build_actions rq (r\<lparr>nr_saved := x\<rparr>) = build_actions rq r"
  by (simp add: build_actions_def split: option.split)

lemma saved_adjustments_build: "saved_adjustments (build_actions rq r) = (case nr_adjustment r of None \<Rightarrow> [] | Some a \<Rightarrow> [a])"
  by (auto simp: saved_adjustments_def build_actions_def split: option.splits)

lemma run_inv:
  assumes "graph_run (learning_env P env) k (start s0 rs0) c" "plan_frame env" "plan_part s0 = (None, None, [])"
  shows "case c of Running n s rs \<Rightarrow> plan_inv (te_request env) n s
    | Finished s rs \<Rightarrow> plan_settled (te_request env) s \<and> nr_saved (st_rest s) = build_actions (te_request env) (st_rest s)
    | _ \<Rightarrow> True"
  using assms(1)
proof (induction "start s0 rs0" c rule: graph_run.induct)
  case run_refl
  have "LoadContext \<in> nodes_of (rq_trigger (te_request env))"
    by (cases "rq_trigger (te_request env)") auto
  with assms(3) show ?case by (simp add: start_def plan_inv_def plan_part_def)
next
  case (run_step k c' c'')
  show ?case
  proof (cases c')
    case (Running n s rs)
    with run_step have inv: "plan_inv (te_request env) n s" and step: "graph_step (learning_env P env) (Running n s rs) c''"
      by simp_all
    show ?thesis
    proof (cases c'')
      case (Running n' s' rs')
      with plan_step [OF _ inv assms(2)] step show ?thesis by simp
    next
      case (Finished s' rs')
      with step have "n = Persist" "s' = persist (te_request env) s"
        by (auto elim!: step_from_running simp: successor_def bind_res_Inr_iff run_node_learning split: node.splits)
      with inv Finished show ?thesis
        by (simp add: plan_inv_def persist_def with_rest_def plan_settled_def audit_def)
    qed simp_all
  qed (use run_step in \<open>simp_all add: step_simps\<close>)
qed

text \<open>C33. A finished run of the graph saves one plan adjustment if it was asked to replan, onboards, or
  observed a decision other than keep after a task or an assessment, and none otherwise; the
  adjustment is proposed for the request's user and goal with the decision the observer reached, and
  the stored snapshot is told its id.
\<close>
theorem adjustment_saved_iff:
  assumes "graph_run (learning_env P env) k (start s0 rs0) (Finished s rs)" "plan_frame env"
    "plan_part s0 = (None, None, [])"
  shows "length (saved_adjustments (nr_saved (st_rest s)))
       = (if calls_for_plan (rq_trigger (te_request env)) (st_observer s) then 1 else 0)
     \<and> (\<forall>a \<in> set (saved_adjustments (nr_saved (st_rest s))).
          st_observer s = Some (pa_decision a) \<and> pa_status a = Proposed
        \<and> pa_user a = rq_user_id (te_request env) \<and> pa_goal a = rq_goal_id (te_request env)
        \<and> RefreshStateSnapshot (pa_user a) (pa_goal a) (pa_id a) a \<in> set (nr_saved (st_rest s)))"
proof -
  from run_inv [OF assms] have settled: "plan_settled (te_request env) s"
    and saved: "nr_saved (st_rest s) = build_actions (te_request env) (st_rest s)"
    by simp_all
  then show ?thesis
    by (cases "nr_adjustment (st_rest s)")
      (auto simp: saved_adjustments_build plan_settled_def, auto simp: build_actions_def)
qed

definition sample_learning_env :: "learning_rest tutor_env" where
  "sample_learning_env = \<lparr>te_request = \<lparr>rq_trigger = ManualReplan, rq_user_id = lit ''u'', rq_goal_id = lit ''g'',
       rq_thread_id = lit ''t'', rq_message = lit ''less work'', rq_tool_request = None\<rparr>,
     te_environ = (\<lambda>_. None), te_unicode = ascii_db, te_lower = (\<lambda>s. s), te_router = None,
     te_llm = (\<lambda>_ _. Inr []), te_json_loads = (\<lambda>_. None), te_json_hash = (\<lambda>_. []), te_approval = None,
     te_node = (\<lambda>_ s. Inr s)\<rparr>"

definition sample_learning_state :: learning_tutor_state where
  "sample_learning_state = \<lparr>st_workflow = sample_workflow, st_route = None, st_final_answer = [], st_decision = None,
     st_tool_results = [], st_evidence = [], st_observer = None, st_audit = [], st_actions = [],
     st_rest = \<lparr>nr_signals = None, nr_observed = None, nr_snapshot = None, nr_adjustment = None, nr_draft = None,
       nr_result = None, nr_updates = [], nr_memory = [], nr_saved = []\<rparr>\<rparr>"

definition sample_ports :: node_ports where
  "sample_ports = \<lparr>np_replan = sample_replan_env, np_id = lit ''1'', np_now = 0, np_gate = (\<lambda>_. Inr [])\<rparr>"

lemma sample_plans:
  obtains s where "plan_node sample_replan_env (lit ''1'') 0 (te_request sample_learning_env)
      (observe sample_replan_env ManualReplan sample_learning_state) = Inr s"
proof -
  have w: "st_workflow (observe sample_replan_env ManualReplan sample_learning_state) = sample_workflow"
    "nr_snapshot (st_rest (observe sample_replan_env ManualReplan sample_learning_state)) = None"
    by (simp_all add: observe_def Let_def sample_learning_state_def)
  show thesis
    by (rule that) (simp add: plan_node_def w Let_def previous_plan_id_def generate_plan_adjustment_def
        build_before_snapshot_def dict_value_def meta_default_def int_of_json_def sample_workflow_def json_str_def)
qed

lemma sample_learning_run:
  obtains s rs where "graph_run (learning_env sample_ports sample_learning_env) 5 (start sample_learning_state initial_router) (Finished s rs)"
proof -
  let ?env = "learning_env sample_ports sample_learning_env"
  let ?s1 = "observe sample_replan_env ManualReplan sample_learning_state"
  obtain s2 where s2: "plan_node sample_replan_env (lit ''1'') 0 (te_request sample_learning_env) ?s1 = Inr s2"
    by (rule sample_plans)
  obtain s3 where s3: "memory_node (np_gate sample_ports) s2 = Inr s3"
    by (simp add: memory_node_def sample_ports_def)
  have t: "rq_trigger (te_request sample_learning_env) = ManualReplan" by (simp add: sample_learning_env_def)
  have "graph_step ?env (start sample_learning_state initial_router) (Running Observer sample_learning_state initial_router)"
    unfolding start_def by (rule step_move) (simp_all add: run_node_def successor_def learning_env_def sample_learning_env_def)
  moreover have "graph_step ?env (Running Observer sample_learning_state initial_router) (Running Planner ?s1 initial_router)"
    by (rule step_move) (simp_all add: run_node_learning t sample_ports_def successor_def route_after_observer_def)
  moreover have "graph_step ?env (Running Planner ?s1 initial_router) (Running MemoryGate s2 initial_router)"
    by (rule step_move) (simp_all add: run_node_learning s2 sample_ports_def successor_def)
  moreover have "graph_step ?env (Running MemoryGate s2 initial_router) (Running Persist s3 initial_router)"
    by (rule step_move) (simp_all add: run_node_learning s3 successor_def)
  moreover have "graph_step ?env (Running Persist s3 initial_router)
      (Finished (persist (te_request sample_learning_env) s3) initial_router)"
    by (rule step_end) (simp_all add: run_node_learning successor_def)
  ultimately have "graph_run ?env (Suc (Suc (Suc (Suc (Suc 0))))) (start sample_learning_state initial_router)
      (Finished (persist (te_request sample_learning_env) s3) initial_router)"
    by (meson run_refl run_step)
  with that show thesis by (simp add: eval_nat_numeral)
qed

lemma adjustment_saved_iff_witness:
  "\<exists>s :: learning_tutor_state. length (saved_adjustments (nr_saved (st_rest s))) = 1"
proof -
  obtain s rs where run: "graph_run (learning_env sample_ports sample_learning_env) 5
      (start sample_learning_state initial_router) (Finished s rs)"
    by (rule sample_learning_run)
  have "plan_frame sample_learning_env" "plan_part sample_learning_state = (None, None, [])"
    "rq_trigger (te_request sample_learning_env) = ManualReplan"
    by (auto simp: plan_frame_def plan_part_def sample_learning_env_def sample_learning_state_def)
  with adjustment_saved_iff [OF run] show ?thesis
    by (auto simp: calls_for_plan_def)
qed

subsection \<open>Advancing\<close>

text \<open>Signals built twice are built once, and a defaulted rate or rise is never strong.\<close>

lemma strong_rate_built:
  "strong_rate (fst (rate_or_default v (8 / 10) k l)) \<longleftrightarrow> (\<exists>x. v = Some x \<and> strong_rate x)"
proof (cases v)
  case (Some x)
  have "0 \<le> py_round (min 1 (max 0 x)) 4" "py_round (min 1 (max 0 x)) 4 \<le> 1"
    by (auto intro: py_round_nonneg py_round_le_1)
  with Some show ?thesis by (simp add: strong_rate_def rate_or_default_def)
qed (simp add: strong_rate_def rate_or_default_def)

lemma strong_rise_built: "strong_rise (fst (number_or_default v 0 k l)) \<longleftrightarrow> (\<exists>x. v = Some x \<and> strong_rise x)"
proof -
  have "py_round 0 4 = (0 :: pyfloat)" by (rule py_round_fix [where k = 0]) simp
  then show ?thesis by (cases v) (simp_all add: strong_rise_def number_or_default_def)
qed

lemma built_fields:
  "sg_completion (build_observer_signals c r d ns ts as q p) = Some (fst (rate_or_default c (8 / 10) ''completion_rate_7d'' ''0.8''))"
  "sg_correctness (build_observer_signals c r d ns ts as q p) = Some (fst (rate_or_default r (8 / 10) ''correctness_rate'' ''0.8''))"
  "sg_delta (build_observer_signals c r d ns ts as q p) = Some (fst (number_or_default d 0 ''mastery_delta'' ''0''))"
  "sg_phase (build_observer_signals c r d ns ts as q p) = p"
  by (simp_all add: build_observer_signals_def Let_def split_beta)

lemma not_strong: "\<not> strong_rate (85 / 100)" "\<not> strong_rate (8 / 10)" "\<not> strong_rise 1"
proof -
  have "py_round (17 / 20) 4 = (17 / 20 :: pyfloat)" "py_round 1 4 = (1 :: pyfloat)"
    by (rule py_round_fix [where k = 8500], simp) (rule py_round_fix [where k = 10000], simp)
  then show "\<not> strong_rate (85 / 100)" "\<not> strong_rate (8 / 10)" "\<not> strong_rise 1"
    by (simp_all add: strong_rate_def strong_rise_def)
qed

lemma strong_base_number:
  "\<not> Q d \<Longrightarrow> (\<exists>x. base_number f d base = Some x \<and> Q x) \<longleftrightarrow> (\<exists>b x. base = Some b \<and> f b = Some x \<and> Q x)"
  by (cases base) (auto simp: base_number_def)

text \<open>C34. The observer node decides to advance only on measured evidence. After a graded attempt the score
  is at least 90 (rounded as the code rounds) and the smallest change of mastery at least five points;
  the completion rate is at least 0.9 if the state has signals, and is assumed only if it has none.
  Without an attempt completion, correctness and the change of mastery were all given, none
  defaulted, and are that strong. A phase assessment, if the state has one, is graded, ready and does not
  ask for review; one that is not there stops nothing.
\<close>
theorem advance_needs_evidence:
  assumes "st_observer (observe E t s) = Some Advance"
  shows "(case nr_result (st_rest s) of
      Some r \<Rightarrow> strong_rate (at_score r / 100) \<and> strong_rise (smallest_delta (nr_updates (st_rest s)))
        \<and> (case nr_signals (st_rest s) of None \<Rightarrow> True | Some b \<Rightarrow> \<exists>c. sg_completion b = Some c \<and> strong_rate c)
    | None \<Rightarrow> (\<exists>b c q d. nr_signals (st_rest s) = Some b \<and> sg_completion b = Some c \<and> sg_correctness b = Some q
        \<and> sg_delta b = Some d \<and> strong_rate c \<and> strong_rate q \<and> strong_rise d))
    \<and> (\<forall>p \<in> set_option (Option.bind (nr_signals (st_rest s)) sg_phase). phase_graded E p \<and> \<not> phase_review E p)"
proof (rule conjI)
  let ?base = "nr_signals (st_rest s)" and ?r = "nr_result (st_rest s)" and ?us = "nr_updates (st_rest s)"
  let ?b = "observed_signals t ?r ?us ?base"
  let ?s = "?b\<lparr>sg_missing := dict_update (base_list sg_missing ?base) (sg_missing ?b)\<rparr>"
  have "td_action (decide_observer_action_from_signals E (Some ?s)) = Advance"
    using assms by (simp add: observe_def Let_def audit_def)
  from advance_measured [OF this] obtain c q d where
    cqd: "sg_completion ?b = Some c" "sg_correctness ?b = Some q" "sg_delta ?b = Some d"
      "strong_rate c" "strong_rate q" "strong_rise d"
    and phase: "\<forall>p \<in> set_option (sg_phase ?b). phase_graded E p \<and> \<not> phase_review E p" by auto
  have "sg_phase ?b = Option.bind ?base sg_phase"
    by (simp add: observed_signals_def built_fields Let_def split: option.split)
  with phase show phases: "\<forall>p \<in> set_option (Option.bind ?base sg_phase). phase_graded E p \<and> \<not> phase_review E p" by simp
  note fields = cqd(1-3) [unfolded observed_signals_def Let_def]
  show "case ?r of
      Some r \<Rightarrow> strong_rate (at_score r / 100) \<and> strong_rise (smallest_delta ?us)
        \<and> (case ?base of None \<Rightarrow> True | Some b \<Rightarrow> \<exists>c. sg_completion b = Some c \<and> strong_rate c)
    | None \<Rightarrow> (\<exists>b c q d. ?base = Some b \<and> sg_completion b = Some c \<and> sg_correctness b = Some q
        \<and> sg_delta b = Some d \<and> strong_rate c \<and> strong_rate q \<and> strong_rise d)"
  proof (cases ?r)
    case (Some r)
    from fields have "\<exists>x. base_number sg_completion (95 / 100) ?base = Some x \<and> strong_rate x"
      "strong_rate (at_score r / 100)" "strong_rise (smallest_delta ?us)"
      using cqd(4-6) strong_rate_built strong_rise_built by (auto simp: Some built_fields)
    then show ?thesis by (cases ?base) (auto simp: Some base_number_def)
  next
    case None
    have "\<exists>b x. ?base = Some b \<and> sg_completion b = Some x \<and> strong_rate x"
      "\<exists>b x. ?base = Some b \<and> sg_correctness b = Some x \<and> strong_rate x"
      "\<exists>b x. ?base = Some b \<and> sg_delta b = Some x \<and> strong_rise x"
      using fields cqd(4-6) strong_rate_built strong_rise_built not_strong
      by (auto simp: None built_fields base_number_def bind_eq_Some_conv split: if_splits option.splits)
    then show ?thesis by (auto simp: None)
  qed
qed

definition sample_attempt :: attempt_result where
  "sample_attempt = \<lparr>at_assessment = lit ''a'', at_attempt = lit ''t'', at_score = 95, at_tags = []\<rparr>"

definition sample_attempt_state :: learning_tutor_state where
  "sample_attempt_state = with_rest (\<lambda>r. r\<lparr>nr_result := Some sample_attempt,
     nr_updates := [\<lparr>nu_node = lit ''k'', nu_previous = 80, nu_new = 90,
       nu_confidence = 1, nu_count = 1, nu_version = []\<rparr>]\<rparr>) sample_learning_state"

lemma sample_attempt_advances: "st_observer (observe sample_replan_env Chat sample_attempt_state) = Some Advance"
proof -
  have "py_round 10 4 = (10 :: pyfloat)" by (rule py_round_fix [where k = 100000]) simp
  then show ?thesis
    by (simp add: observe_def Let_def audit_def sample_attempt_state_def with_rest_def sample_learning_state_def
        observed_signals_def sample_attempt_def base_number_def smallest_delta_def low_node_def attempt_entry_def
        decide_observer_action_from_signals_def normalized_signals_def build_observer_signals_def split_beta
        rate_or_default_def number_or_default_def number_or_zero_def decide_observer_action_def)
qed

lemma advance_needs_evidence_witness: "strong_rate (at_score sample_attempt / 100)"
  using advance_needs_evidence [OF sample_attempt_advances]
  by (simp add: sample_attempt_state_def with_rest_def sample_learning_state_def)

end
