(* ===== verification/Learning_Store.thy ===== *)
theory Learning_Store
  imports Replanning
begin

text \<open>
  The tables of the learning core as one state: goals, plans, tasks, plan adjustments, learning
  sessions and events, state snapshots and bookmarks (src/backend/app/models.py), with the helpers that
  read them or write a derived part (application/learning_activity_service.py, serialization.py).

  A table is a list of rows in the order they were inserted; a committed transaction is a new state.
  Instants are microseconds and dates days; fresh ids, the clock and the texts of instants are
  ports.
\<close>

subsection \<open>Tables\<close>

record learning_plan =
  lp_id :: ustr
  lp_user :: ustr
  lp_goal :: ustr
  lp_curriculum :: "ustr option"
  lp_version :: int
  lp_status :: string
  lp_by :: string
  lp_rationale :: metadata
  lp_from :: int
  lp_to :: int
  lp_json :: metadata

record plan_task =
  tk_id :: ustr
  tk_plan :: ustr
  tk_user :: ustr
  tk_goal :: ustr
  tk_node :: ustr
  tk_code :: ustr
  tk_title :: ustr
  tk_type :: ustr
  tk_objective :: ustr
  tk_date :: int
  tk_day :: int
  tk_minutes :: int
  tk_priority :: int
  tk_status :: ustr
  tk_payload :: metadata
  tk_origin :: string

record knowledge_node =
  kn_id :: ustr
  kn_curriculum :: "ustr option"
  kn_code :: ustr
  kn_title :: ustr
  kn_sequence :: int
  kn_meta :: metadata

record adjustment_row =
  ad_id :: ustr
  ad_user :: ustr
  ad_goal :: ustr
  ad_previous :: "ustr option"
  ad_new :: "ustr option"
  ad_trigger :: string
  ad_decision :: string
  ad_evidence :: metadata
  ad_before :: metadata
  ad_after :: metadata
  ad_patch :: metadata
  ad_summary :: metadata
  ad_rationale :: metadata
  ad_status :: string
  ad_policy :: string
  ad_automation :: bool
  ad_base :: "int option"
  ad_expires :: "int option"
  ad_risk :: string
  ad_confirm :: bool
  ad_request :: "ustr option"
  ad_hash :: "ustr option"
  ad_created :: int

record state_snapshot =
  sn_user :: ustr
  sn_goal :: ustr
  sn_plan :: ustr
  sn_version :: int
  sn_latest :: "ustr option"
  sn_mastery :: metadata
  sn_state :: metadata
  sn_generated :: metadata

record learning_session =
  se_id :: ustr
  se_user :: ustr
  se_goal :: ustr
  se_plan :: ustr
  se_task :: ustr
  se_started :: int
  se_ended :: "int option"
  se_minutes :: int
  se_status :: string
  se_evidence :: metadata

record learning_event =
  le_id :: ustr
  le_user :: ustr
  le_goal :: ustr
  le_session :: "ustr option"
  le_task :: "ustr option"
  le_type :: string
  le_source :: string
  le_payload :: metadata
  le_occurred :: int

record learning_db =
  ld_goals :: "(ustr \<times> ustr) list"
  ld_nodes :: "knowledge_node list"
  ld_plans :: "learning_plan list"
  ld_tasks :: "plan_task list"
  ld_adjustments :: "adjustment_row list"
  ld_snapshots :: "state_snapshot list"
  ld_sessions :: "learning_session list"
  ld_events :: "learning_event list"
  ld_saved :: "(ustr \<times> ustr \<times> ustr) list"

record learning_ports =
  lx_replan :: replan_env
  lx_hash :: "metadata \<Rightarrow> ustr"
  lx_date :: "int \<Rightarrow> ustr"
  lx_iso :: "int \<Rightarrow> ustr"
  lx_titled :: "ustr \<Rightarrow> ustr"
  lx_now :: int
  lx_today :: int
  lx_uuid :: "nat \<Rightarrow> ustr"

subsection \<open>Queries and updates\<close>

text \<open>A row is replaced where it stands; the key of a table is unique.\<close>

definition set_row :: "('r \<Rightarrow> 'k) \<Rightarrow> 'r \<Rightarrow> 'r list \<Rightarrow> 'r list" where
  "set_row key r rs = map (\<lambda>x. if key x = key r then r else x) rs"

lemma map_key_set_row [simp]: "map key (set_row key r rs) = map key rs"
  by (induction rs) (auto simp: set_row_def)

lemma set_set_row: "distinct (map key rs) \<Longrightarrow> x \<in> set rs \<Longrightarrow> key x = key r \<Longrightarrow>
    set (set_row key r rs) = insert r (set rs - {x})"
  by (auto simp: set_row_def distinct_map inj_on_def)

lemma set_row_subset: "set (set_row key r rs) \<subseteq> insert r {x \<in> set rs. key x \<noteq> key r}"
  by (auto simp: set_row_def)

abbreviation snapshot_key :: "state_snapshot \<Rightarrow> ustr \<times> ustr" where
  "snapshot_key s \<equiv> (sn_user s, sn_goal s)"

definition snapshot_of :: "learning_db \<Rightarrow> ustr \<Rightarrow> ustr \<Rightarrow> state_snapshot option" where
  "snapshot_of db user goal = find (\<lambda>s. sn_user s = user \<and> sn_goal s = goal) (ld_snapshots db)"

definition plan_of :: "learning_db \<Rightarrow> ustr \<Rightarrow> learning_plan option" where
  "plan_of db i = find (\<lambda>p. lp_id p = i) (ld_plans db)"

definition node_of :: "learning_db \<Rightarrow> ustr \<Rightarrow> knowledge_node option" where
  "node_of db i = find (\<lambda>n. kn_id n = i) (ld_nodes db)"

definition task_of :: "learning_db \<Rightarrow> ustr \<Rightarrow> plan_task option" where
  "task_of db i = find (\<lambda>t. tk_id t = i) (ld_tasks db)"

definition adjustment_of :: "learning_db \<Rightarrow> ustr \<Rightarrow> adjustment_row option" where
  "adjustment_of db i = find (\<lambda>a. ad_id a = i) (ld_adjustments db)"

definition goal_owned :: "learning_db \<Rightarrow> ustr \<Rightarrow> ustr \<Rightarrow> bool" where
  "goal_owned db user goal \<longleftrightarrow> (goal, user) \<in> set (ld_goals db)"

lemma find_Some_in: "find P xs = Some x \<Longrightarrow> x \<in> set xs \<and> P x"
  by (auto simp: find_Some_iff)

lemma find_None: "find P xs = None \<longleftrightarrow> (\<forall>x \<in> set xs. \<not> P x)"
  by (auto simp: find_None_iff)

subsection \<open>What the API shows of a row\<close>

definition json_text :: "string \<Rightarrow> json" where
  "json_text s = JStr (lit s)"

definition json_time :: "(int \<Rightarrow> ustr) \<Rightarrow> int option \<Rightarrow> json" where
  "json_time f v = (case v of None \<Rightarrow> JNull | Some t \<Rightarrow> JStr (f t))"

definition underscores_to_spaces :: "ustr \<Rightarrow> ustr" where
  "underscores_to_spaces s = map (\<lambda>c. if c = 95 then 32 else c) s"

definition task_dict :: "learning_ports \<Rightarrow> plan_task \<Rightarrow> metadata" where
  "task_dict X t =
     [(lit ''id'', JStr (tk_id t)), (lit ''knowledge_node_code'', JStr (tk_code t)),
      (lit ''knowledge_node_id'', JStr (tk_node t)),
      (lit ''knowledge_node_title'', JStr (lx_titled X (underscores_to_spaces (tk_code t)))),
      (lit ''title'', JStr (tk_title t)), (lit ''objective'', JStr (tk_objective t)), (lit ''task_type'', JStr (tk_type t)),
      (lit ''scheduled_date'', JStr (lx_date X (tk_date t))), (lit ''estimated_minutes'', JInt (tk_minutes t)),
      (lit ''status'', JStr (tk_status t))]"

definition session_dict :: "learning_ports \<Rightarrow> learning_session \<Rightarrow> metadata" where
  "session_dict X s =
     [(lit ''id'', JStr (se_id s)), (lit ''user_id'', JStr (se_user s)), (lit ''goal_id'', JStr (se_goal s)),
      (lit ''plan_id'', JStr (se_plan s)), (lit ''task_id'', JStr (se_task s)),
      (lit ''started_at'', JStr (lx_iso X (se_started s))), (lit ''ended_at'', json_time (lx_iso X) (se_ended s)),
      (lit ''duration_minutes'', JInt (se_minutes s)), (lit ''status'', json_text (se_status s)),
      (lit ''evidence_json'', JDict (se_evidence s))]"

definition event_dict :: "learning_ports \<Rightarrow> learning_event \<Rightarrow> metadata" where
  "event_dict X e =
     [(lit ''id'', JStr (le_id e)), (lit ''user_id'', JStr (le_user e)), (lit ''goal_id'', JStr (le_goal e)),
      (lit ''session_id'', json_id (le_session e)), (lit ''task_id'', json_id (le_task e)),
      (lit ''event_type'', json_text (le_type e)), (lit ''source'', json_text (le_source e)),
      (lit ''event_payload'', JDict (le_payload e)), (lit ''occurred_at'', JStr (lx_iso X (le_occurred e)))]"

definition adjustment_dict :: "learning_ports \<Rightarrow> adjustment_row \<Rightarrow> metadata" where
  "adjustment_dict X a =
     [(lit ''adjustment_id'', JStr (ad_id a)), (lit ''user_id'', JStr (ad_user a)), (lit ''goal_id'', JStr (ad_goal a)),
      (lit ''previous_plan_id'', json_id (ad_previous a)), (lit ''new_plan_id'', json_id (ad_new a)),
      (lit ''trigger_type'', json_text (ad_trigger a)), (lit ''decision'', json_text (ad_decision a)),
      (lit ''status'', json_text (ad_status a)), (lit ''policy_version'', json_text (ad_policy a)),
      (lit ''automation_allowed'', JBool (ad_automation a)), (lit ''evidence_json'', JDict (ad_evidence a)),
      (lit ''before_snapshot'', JDict (ad_before a)), (lit ''after_snapshot'', JDict (ad_after a)),
      (lit ''plan_patch'', JDict (ad_patch a)), (lit ''change_summary'', JDict (ad_summary a)),
      (lit ''rationale_json'', JDict (ad_rationale a)),
      (lit ''base_plan_version'', case ad_base a of None \<Rightarrow> JNull | Some v \<Rightarrow> JInt v),
      (lit ''expires_at'', json_time (lx_iso X) (ad_expires a)), (lit ''risk_level'', json_text (ad_risk a)),
      (lit ''requires_confirmation'', JBool (ad_confirm a)),
      (lit ''operations'', meta_default (ad_patch a) ''operations'' (JList [])),
      (lit ''created_at'', JStr (lx_iso X (ad_created a)))]"

subsection \<open>Events and the activity part of a snapshot\<close>

definition record_event ::
  "learning_ports \<Rightarrow> nat \<Rightarrow> ustr \<Rightarrow> ustr \<Rightarrow> ustr option \<Rightarrow> ustr option \<Rightarrow> string \<Rightarrow> string \<Rightarrow> metadata
     \<Rightarrow> learning_db \<Rightarrow> learning_db" where
  "record_event X k user goal session task event_type source payload db =
     db\<lparr>ld_events := ld_events db @
       [\<lparr>le_id = lit ''event-'' @ lx_uuid X k, le_user = user, le_goal = goal, le_session = session, le_task = task,
         le_type = event_type, le_source = source, le_payload = payload, le_occurred = lx_now X\<rparr>]\<rparr>"

definition recent_learning_events :: "learning_ports \<Rightarrow> ustr \<Rightarrow> ustr \<Rightarrow> learning_db \<Rightarrow> metadata list" where
  "recent_learning_events X user goal db =
     map (event_dict X) (rev (take 5 (sort_key (\<lambda>e. - le_occurred e)
       (filter (\<lambda>e. le_user e = user \<and> le_goal e = goal) (ld_events db)))))"

definition completed_status :: "learning_ports \<Rightarrow> plan_task \<Rightarrow> bool" where
  "completed_status X t \<longleftrightarrow> re_lower (lx_replan X) (tk_status t) \<in> {lit ''completed'', lit ''done''}"

definition observed_status :: "learning_ports \<Rightarrow> plan_task \<Rightarrow> bool" where
  "observed_status X t \<longleftrightarrow> re_lower (lx_replan X) (tk_status t)
     \<in> lit ` {''completed'', ''done'', ''missed'', ''skipped'', ''incomplete'', ''failed''}"

definition completion_rate_7d :: "learning_ports \<Rightarrow> ustr \<Rightarrow> ustr \<Rightarrow> learning_db \<Rightarrow> pyfloat option" where
  "completion_rate_7d X user goal db =
     (let observed = filter (\<lambda>t. tk_user t = user \<and> tk_goal t = goal \<and> tk_day t \<le> 7 \<and> observed_status X t) (ld_tasks db);
          completed = length (filter (completed_status X) observed)
      in if observed = [] then None else Some (py_round (of_nat completed / of_nat (length observed)) 4))"

definition refresh_activity_state :: "learning_ports \<Rightarrow> ustr \<Rightarrow> ustr \<Rightarrow> learning_db \<Rightarrow> learning_db" where
  "refresh_activity_state X user goal db =
     (case snapshot_of db user goal of
        None \<Rightarrow> db
      | Some s \<Rightarrow>
          db\<lparr>ld_snapshots := set_row snapshot_key
            (s\<lparr>sn_state := dict_update (sn_state s)
                [(lit ''recent_learning_events'', JList (map JDict (recent_learning_events X user goal db))),
                 (lit ''completion_rate_7d'', case completion_rate_7d X user goal db of None \<Rightarrow> JNull | Some r \<Rightarrow> JFloat r)]\<rparr>)
            (ld_snapshots db)\<rparr>)"

text \<open>
  The share of completed tasks among the observed ones is a rate; it is present exactly when a task of
  the first week has an observed status.
\<close>

lemma completion_rate_range:
  assumes "completion_rate_7d X user goal db = Some r" shows "0 \<le> r \<and> r \<le> 1"
proof -
  let ?o = "filter (\<lambda>t. tk_user t = user \<and> tk_goal t = goal \<and> tk_day t \<le> 7 \<and> observed_status X t) (ld_tasks db)"
  have "length (filter (completed_status X) ?o) \<le> length ?o" by (rule length_filter_le)
  then have "real (length (filter (completed_status X) ?o)) / real (length ?o) \<le> 1"
    by (simp add: divide_le_eq del: filter_filter)
  with assms show ?thesis
    by (auto simp: completion_rate_7d_def Let_def split: if_splits intro!: py_round_nonneg py_round_le_1 simp del: filter_filter)
qed

end
