(* ===== verification/Plan_Application.thy ===== *)
theory Plan_Application
  imports Learning_Store
begin

text \<open>
  Applying and rejecting plan adjustments (src/backend/app/application/planning_service.py,
  task_localization.py) and storing them (infrastructure/persistence/repositories/plan_repository.py).

  A request is one transaction: the result is the exception or the response with the committed state.
  The row lock on the goal and the compare-and-set on the status make concurrent requests follow one
  another, so they are a sequence of operations here.
\<close>

datatype plan_error = PlanNotFound string | PlanConflict string | PlanCrash planner_error

subsection \<open>Texts of a task\<close>

definition task_copy :: "ustr \<Rightarrow> ustr \<Rightarrow> ustr \<Rightarrow> (ustr \<times> ustr) option" where
  "task_copy lang kind code =
     (let node = underscores_to_spaces code
      in if kind \<notin> lit ` {''study'', ''review'', ''practice''} then None
         else if lang = lit ''zh-CN''
         then Some (if kind = lit ''study''
                then ([23398, 20064, 32] @ node, [25484, 25569, 32] @ node @ [32, 30340, 22522, 30784, 30693, 35782, 12290])
                else if kind = lit ''review''
                then ([22797, 20064, 32] @ node,
                      [32487, 32493, 23398, 20064, 21069, 65292, 22797, 20064, 34180, 24369, 30693, 35782, 28857, 12290])
                else ([32451, 20064, 32] @ node, [36890, 36807, 31616, 30701, 32451, 20064, 24212, 29992, 32] @ node @ [12290]))
         else Some (if kind = lit ''study''
                then (lit ''Study '' @ code, lit ''Build confidence on '' @ node @ lit ''.'')
                else if kind = lit ''review''
                then (lit ''Review '' @ code, lit ''Review weak knowledge area before continuing.'')
                else (lit ''Practice '' @ code, lit ''Apply '' @ node @ lit '' in a short practice task.'')))"

definition is_dynamic :: "knowledge_node \<Rightarrow> bool" where
  "is_dynamic n \<longleftrightarrow> meta_get (kn_meta n) ''source'' = json_text ''dynamic_roadmap''"

definition dynamic_node_copy :: "learning_ports \<Rightarrow> knowledge_node \<Rightarrow> (ustr \<times> ustr) option" where
  "dynamic_node_copy X n =
     (if \<not> is_dynamic n then None
      else Some (kn_title n,
        let v = meta_get (kn_meta n) ''objective''
        in if \<not> truthy v then kn_title n else case v of JStr s \<Rightarrow> s | _ \<Rightarrow> re_str (lx_replan X) v))"

definition dynamic_node_payload :: "knowledge_node \<Rightarrow> metadata" where
  "dynamic_node_payload n =
     (if \<not> is_dynamic n then []
      else List.map_filter (\<lambda>k. map_option (\<lambda>v. (lit k, v)) (map_of (kn_meta n) (lit k)))
        [''locale'', ''stage_id'', ''stage_order'', ''node_id'', ''node_order''])"

definition adjusted_node_copy :: "learning_ports \<Rightarrow> ustr \<Rightarrow> string \<Rightarrow> knowledge_node \<Rightarrow> ustr \<times> ustr \<times> metadata" where
  "adjusted_node_copy X lang kind n =
     (case dynamic_node_copy X n of
        Some (title, objective) \<Rightarrow> (title, objective, dynamic_node_payload n)
      | None \<Rightarrow> (case task_copy lang (lit kind) (kn_code n) of
          Some (title, objective) \<Rightarrow> (title, objective, [])
        | None \<Rightarrow> ([], [], [])))"

subsection \<open>Tasks of the new plan\<close>

definition add_plan_task ::
  "learning_ports \<Rightarrow> nat \<Rightarrow> learning_plan \<Rightarrow> ustr \<Rightarrow> ustr \<Rightarrow> ustr \<Rightarrow> ustr \<Rightarrow> ustr \<Rightarrow> int \<Rightarrow> int \<Rightarrow> int \<Rightarrow> metadata \<Rightarrow> plan_task" where
  "add_plan_task X k plan node code title kind objective day minutes priority payload =
     \<lparr>tk_id = lit ''task-'' @ lx_uuid X k, tk_plan = lp_id plan, tk_user = lp_user plan, tk_goal = lp_goal plan,
      tk_node = node, tk_code = code, tk_title = title, tk_type = kind, tk_objective = objective,
      tk_date = lx_today X + max 0 (day - 1), tk_day = day, tk_minutes = minutes, tk_priority = priority,
      tk_status = lit ''pending'', tk_payload = payload, tk_origin = ''planner''\<rparr>"

definition origin_payload :: "adjustment_row \<Rightarrow> metadata" where
  "origin_payload a = [(lit ''source'', json_text ''plan_adjustment''), (lit ''adjustment_id'', JStr (ad_id a))]"

definition node_task ::
  "learning_ports \<Rightarrow> ustr \<Rightarrow> learning_plan \<Rightarrow> adjustment_row \<Rightarrow> string \<Rightarrow> int \<Rightarrow> int \<Rightarrow> int \<Rightarrow> nat \<Rightarrow> knowledge_node \<Rightarrow> plan_task" where
  "node_task X lang plan a kind day minutes priority k n =
     (let (title, objective, payload) = adjusted_node_copy X lang kind n
      in add_plan_task X k plan (kn_id n) (kn_code n) title (lit kind) objective day minutes priority
           (dict_update payload (origin_payload a)))"

definition clone_plan_task ::
  "learning_ports \<Rightarrow> ustr \<Rightarrow> learning_db \<Rightarrow> learning_plan \<Rightarrow> adjustment_row \<Rightarrow> int \<Rightarrow> pyfloat \<Rightarrow> nat \<Rightarrow> plan_task \<Rightarrow> plan_task" where
  "clone_plan_task X lang db plan a offset multiplier k t =
     (let node = node_of db (tk_node t);
          dynamic = Option.bind node (dynamic_node_copy X);
          localized = task_copy lang (tk_type t) (tk_code t);
          payload = dict_update (dict_update (tk_payload t) (case node of None \<Rightarrow> [] | Some n \<Rightarrow> dynamic_node_payload n))
                      (origin_payload a @ [(lit ''previous_task_id'', JStr (tk_id t))]);
          (title, objective) = (case dynamic of Some c \<Rightarrow> c
             | None \<Rightarrow> (case localized of Some c \<Rightarrow> c | None \<Rightarrow> (tk_title t, tk_objective t)))
      in add_plan_task X k plan (tk_node t) (tk_code t) title (tk_type t) objective (tk_day t + offset)
           (max 10 (py_round_int (of_int (tk_minutes t) * multiplier))) (tk_priority t) payload)"

subsection \<open>Nodes to review and the next node\<close>

text \<open>A JSON column holds a dictionary. Iterating over a JSON value, and \<open>item.get("knowledge_node_id")\<close> as a key: an empty value or
  one that is no text finds no node, a list or dictionary is unhashable.\<close>

definition json_items :: "json \<Rightarrow> planner_error + json list" where
  "json_items v =
     (case v of
        JList xs \<Rightarrow> Inr xs
      | JDict d \<Rightarrow> Inr (map (\<lambda>(k, _). JStr k) d)
      | JStr s \<Rightarrow> Inr (map (\<lambda>c. JStr [c]) s)
      | _ \<Rightarrow> Inl PlannerTypeError)"

definition node_key :: "json \<Rightarrow> planner_error + ustr option" where
  "node_key item =
     bind_res (dict_value item) (\<lambda>d.
       (let v = meta_get d ''knowledge_node_id''
        in if \<not> truthy v then Inr None
           else case v of JStr s \<Rightarrow> Inr (Some s) | JList _ \<Rightarrow> Inl PlannerTypeError | JDict _ \<Rightarrow> Inl PlannerTypeError
                | _ \<Rightarrow> Inr None))"

fun collect_nodes :: "learning_db \<Rightarrow> ustr list \<Rightarrow> ustr list \<Rightarrow> knowledge_node list" where
  "collect_nodes db seen [] = []"
| "collect_nodes db seen (i # is) =
     (if i \<in> set seen then collect_nodes db seen is
      else case node_of db i of
             None \<Rightarrow> collect_nodes db seen is
           | Some n \<Rightarrow> n # collect_nodes db (i # seen) is)"

definition review_nodes ::
  "learning_db \<Rightarrow> adjustment_row \<Rightarrow> state_snapshot option \<Rightarrow> plan_task list \<Rightarrow> planner_error + knowledge_node list" where
  "review_nodes db a snapshot others =
     (let signals = (case meta_default (ad_evidence a) ''observer_signals'' (JDict []) of JDict d \<Rightarrow> d | _ \<Rightarrow> [])
      in bind_res (let v = meta_get signals ''low_mastery_nodes'' in if truthy v then json_items v else Inr []) (\<lambda>low.
     bind_res (case snapshot of None \<Rightarrow> Inr [] | Some s \<Rightarrow> json_items (meta_default (sn_state s) ''review_queue'' (JList []))) (\<lambda>queue.
     bind_res (traverse node_key (low @ queue)) (\<lambda>keys.
       Inr (collect_nodes db [] (List.map_filter (\<lambda>k. k) keys @ map tk_node others))))))"

definition next_uncovered_node :: "learning_db \<Rightarrow> learning_plan \<Rightarrow> plan_task list \<Rightarrow> knowledge_node option" where
  "next_uncovered_node db plan tasks =
     (let nodes = sort_key kn_sequence (filter (\<lambda>n. kn_curriculum n = lp_curriculum plan) (ld_nodes db))
      in case find (\<lambda>n. kn_id n \<notin> tk_node ` set tasks) nodes of
           Some n \<Rightarrow> Some n
         | None \<Rightarrow> if nodes = [] then None else Some (last nodes))"

definition next_plan_version :: "learning_db \<Rightarrow> ustr \<Rightarrow> ustr \<Rightarrow> int" where
  "next_plan_version db user goal =
     (case map lp_version (filter (\<lambda>p. lp_user p = user \<and> lp_goal p = goal) (ld_plans db)) of
        [] \<Rightarrow> 1 | v # vs \<Rightarrow> foldl max v vs + 1)"

text \<open>\<open>xs[:n]\<close> for any integer, and \<open>float(v)\<close>.\<close>

definition py_take :: "int \<Rightarrow> 'a list \<Rightarrow> 'a list" where
  "py_take n xs = (if 0 \<le> n then take (nat n) xs else take (length xs - nat (- n)) xs)"

definition float_of_json :: "replan_env \<Rightarrow> json \<Rightarrow> planner_error + pyfloat" where
  "float_of_json E v =
     (case num_of v of
        Some x \<Rightarrow> Inr x
      | None \<Rightarrow> (case v of
          JStr s \<Rightarrow> (case re_float E s of Some x \<Rightarrow> Inr x | None \<Rightarrow> Inl (PlannerValueError ''float''))
        | _ \<Rightarrow> Inl PlannerTypeError))"

definition open_tasks :: "learning_ports \<Rightarrow> plan_task list \<Rightarrow> plan_task list" where
  "open_tasks X ts = filter (\<lambda>t. \<not> completed_status X t) ts"

definition previous_tasks :: "learning_db \<Rightarrow> learning_plan \<Rightarrow> plan_task list" where
  "previous_tasks db p = sort_key (\<lambda>t. (tk_day t, tk_priority t, tk_id t)) (filter (\<lambda>t. tk_plan t = lp_id p) (ld_tasks db))"

definition new_plan_of :: "learning_ports \<Rightarrow> learning_db \<Rightarrow> learning_plan \<Rightarrow> adjustment_row \<Rightarrow> learning_plan" where
  "new_plan_of X db p a =
     \<lparr>lp_id = lit ''plan-'' @ lx_uuid X 1, lp_user = lp_user p, lp_goal = lp_goal p, lp_curriculum = lp_curriculum p,
      lp_version = next_plan_version db (lp_user p) (lp_goal p), lp_status = ''active'', lp_by = ''planner'',
      lp_rationale = [(lit ''source'', json_text ''plan_adjustment''), (lit ''adjustment_id'', JStr (ad_id a)),
        (lit ''decision'', json_text (ad_decision a))],
      lp_from = lx_today X, lp_to = lp_to p,
      lp_json = dict_update (lp_json p) [(lit ''applied_adjustment_id'', JStr (ad_id a)), (lit ''previous_plan_id'', JStr (lp_id p))]\<rparr>"

definition review_tasks ::
  "learning_ports \<Rightarrow> ustr \<Rightarrow> learning_db \<Rightarrow> learning_plan \<Rightarrow> adjustment_row \<Rightarrow> state_snapshot option \<Rightarrow> plan_task list
     \<Rightarrow> planner_error + plan_task list" where
  "review_tasks X lang db plan a snapshot opened =
     (if ad_decision a = ''remediate''
      then bind_res (int_of_json (lx_replan X) (meta_default (ad_patch a) ''review_task_count'' (JInt 2))) (\<lambda>count.
           bind_res (review_nodes db a snapshot opened) (\<lambda>nodes.
             Inr (map (\<lambda>(i, n). node_task X lang plan a ''review'' (int i) 30 0 (1 + i) n)
               (enumerate_from 1 (py_take count nodes)))))
      else Inr [])"

definition load_multiplier :: "learning_ports \<Rightarrow> adjustment_row \<Rightarrow> planner_error + pyfloat" where
  "load_multiplier X a =
     (if ad_decision a = ''reduce''
      then float_of_json (lx_replan X) (meta_default (ad_patch a) ''load_multiplier'' (JFloat 1)) else Inr 1)"

definition copied_tasks ::
  "learning_ports \<Rightarrow> ustr \<Rightarrow> learning_db \<Rightarrow> learning_plan \<Rightarrow> adjustment_row \<Rightarrow> nat \<Rightarrow> pyfloat \<Rightarrow> plan_task list \<Rightarrow> plan_task list" where
  "copied_tasks X lang db plan a r multiplier opened =
     map (\<lambda>(i, t). clone_plan_task X lang db plan a (int r) multiplier (2 + r + i) t) (enumerate_from 0 opened)"

definition latest_day :: "plan_task list \<Rightarrow> int" where
  "latest_day ts = (case map tk_day ts of [] \<Rightarrow> 0 | d # ds \<Rightarrow> foldl max d ds)"

definition next_tasks ::
  "learning_ports \<Rightarrow> ustr \<Rightarrow> learning_db \<Rightarrow> learning_plan \<Rightarrow> learning_plan \<Rightarrow> adjustment_row \<Rightarrow> plan_task list \<Rightarrow> plan_task list" where
  "next_tasks X lang db p plan a created =
     (if ad_decision a = ''advance''
      then (case next_uncovered_node db p (previous_tasks db p) of
              None \<Rightarrow> []
            | Some n \<Rightarrow> [node_task X lang plan a ''practice'' (latest_day created + 1) 45 2 (2 + length created) n])
      else [])"

definition create_applied_plan_tasks ::
  "learning_ports \<Rightarrow> ustr \<Rightarrow> learning_db \<Rightarrow> learning_plan \<Rightarrow> adjustment_row \<Rightarrow> state_snapshot option
     \<Rightarrow> planner_error + learning_plan \<times> plan_task list" where
  "create_applied_plan_tasks X lang db p a snapshot =
     (let opened = open_tasks X (previous_tasks db p); plan = new_plan_of X db p a
      in bind_res (review_tasks X lang db plan a snapshot opened) (\<lambda>reviews.
         bind_res (load_multiplier X a) (\<lambda>multiplier.
           let created = reviews @ copied_tasks X lang db plan a (length reviews) multiplier opened
           in Inr (plan, created @ next_tasks X lang db p plan a created))))"

subsection \<open>Requests\<close>

definition requested_id :: "learning_ports \<Rightarrow> ustr option \<Rightarrow> ustr" where
  "requested_id X request = (case request of Some (c # cs) \<Rightarrow> c # cs | _ \<Rightarrow> lit ''legacy-'' @ lx_uuid X 0)"

definition payload_hash :: "learning_ports \<Rightarrow> string \<Rightarrow> ustr \<Rightarrow> ustr" where
  "payload_hash X action goal = lx_hash X [(lit ''action'', json_text action), (lit ''goal_id'', JStr goal)]"

definition put_adjustment :: "adjustment_row \<Rightarrow> learning_db \<Rightarrow> learning_db" where
  "put_adjustment a db = db\<lparr>ld_adjustments := set_row ad_id a (ld_adjustments db)\<rparr>"

text \<open>The part of the transaction after the checks: the plan is replaced, the adjustment applied, the
  snapshot pointed at the new plan, the event recorded.\<close>

definition commit_application ::
  "learning_ports \<Rightarrow> adjustment_row \<Rightarrow> state_snapshot option \<Rightarrow> learning_plan \<Rightarrow> learning_plan \<Rightarrow> plan_task list
     \<Rightarrow> learning_db \<Rightarrow> adjustment_row \<times> learning_db" where
  "commit_application X a snapshot p plan tasks db =
     (let a' = a\<lparr>ad_status := ''applied'', ad_new := Some (lp_id plan),
            ad_after := dict_update (ad_after a)
              [(lit ''active_plan'', JDict [(lit ''id'', JStr (lp_id plan)), (lit ''version'', JInt (lp_version plan))]),
               (lit ''created_task_ids'', JList (map (\<lambda>t. JStr (tk_id t)) tasks))]\<rparr>;
          db1 = put_adjustment a' (db\<lparr>ld_plans := set_row lp_id (p\<lparr>lp_status := ''replaced''\<rparr>) (ld_plans db) @ [plan],
            ld_tasks := ld_tasks db @ tasks\<rparr>);
          db2 = (case snapshot of
              None \<Rightarrow> db1
            | Some s \<Rightarrow> db1\<lparr>ld_snapshots := set_row snapshot_key
                (s\<lparr>sn_plan := lp_id plan, sn_version := lp_version plan, sn_latest := Some (ad_id a'),
                   sn_state := dict_set (lit ''latest_plan_adjustment'') (JDict (adjustment_dict X a')) (sn_state s),
                   sn_generated := dict_update (sn_generated s) [(lit ''latest_plan_adjustment_id'', JStr (ad_id a')),
                     (lit ''active_plan_id'', JStr (lp_id plan))]\<rparr>) (ld_snapshots db1)\<rparr>);
          db3 = record_event X (2 + length tasks) (ad_user a) (ad_goal a) None None ''plan_adjustment_applied'' ''plans_api''
            [(lit ''adjustment_id'', JStr (ad_id a')), (lit ''previous_plan_id'', JStr (lp_id p)),
             (lit ''new_plan_id'', JStr (lp_id plan)), (lit ''decision'', json_text (ad_decision a'))] db2
      in (a', refresh_activity_state X (ad_user a) (ad_goal a) db3))"

definition apply_checked ::
  "learning_ports \<Rightarrow> adjustment_row \<Rightarrow> ustr \<Rightarrow> ustr \<Rightarrow> ustr \<Rightarrow> learning_db \<Rightarrow> (plan_error + metadata) \<times> learning_db" where
  "apply_checked X row request hash_value lang db =
     (let user = ad_user row; goal = ad_goal row;
          a = row\<lparr>ad_request := Some request, ad_hash := Some hash_value\<rparr>;
          snapshot = snapshot_of db user goal;
          previous = (case ad_previous row of Some (c # cs) \<Rightarrow> Some (c # cs) | _ \<Rightarrow> map_option sn_plan snapshot)
      in if \<not> goal_owned db user goal then (Inl (PlanNotFound ''learning goal''), db)
         else if \<not> (\<forall>s \<in> set_option snapshot. previous = Some (sn_plan s))
         then (Inl (PlanConflict ''active plan has changed''), db)
         else if \<exists>s \<in> set_option snapshot. \<exists>v \<in> set_option (ad_base row). v \<noteq> sn_version s
         then (Inl (PlanConflict ''stale plan version''), put_adjustment (a\<lparr>ad_status := ''superseded''\<rparr>) db)
         else case Option.bind previous (plan_of db) of
           None \<Rightarrow> (Inl (PlanNotFound ''previous learning plan''), db)
         | Some p \<Rightarrow>
             if lp_status p \<noteq> ''active'' then (Inl (PlanConflict ''active plan has changed''), db)
             else case create_applied_plan_tasks X lang db p a snapshot of
               Inl e \<Rightarrow> (Inl (PlanCrash e), db)
             | Inr (plan, tasks) \<Rightarrow>
                 (let (a', db') = commit_application X a snapshot p plan tasks db
                  in (Inr (adjustment_dict X a' @
                        [(lit ''active_plan'', JDict [(lit ''id'', JStr (lp_id plan)), (lit ''version'', JInt (lp_version plan))]),
                         (lit ''created_tasks'', JList (map (\<lambda>t. JDict (task_dict X t)) tasks))]), db')))"

definition apply_plan_adjustment ::
  "learning_ports \<Rightarrow> ustr \<Rightarrow> ustr \<Rightarrow> ustr \<Rightarrow> ustr option \<Rightarrow> ustr \<Rightarrow> learning_db \<Rightarrow> (plan_error + metadata) \<times> learning_db" where
  "apply_plan_adjustment X i user goal request lang db =
     (case adjustment_of db i of
        None \<Rightarrow> (Inl (PlanNotFound ''plan adjustment''), db)
      | Some row \<Rightarrow>
          let req = requested_id X request; h = payload_hash X ''accept'' goal
          in if ad_user row \<noteq> user \<or> ad_goal row \<noteq> goal then (Inl (PlanNotFound ''plan adjustment''), db)
             else if ad_request row = Some req \<and> ad_hash row \<noteq> Some h
             then (Inl (PlanConflict ''idempotency key conflicts with payload''), db)
             else if ad_request row = Some req \<and> ad_status row \<in> {''applied'', ''accepted''}
             then (Inr (adjustment_dict X row), db)
             else if ad_request row \<noteq> Some req \<and> ad_request row \<noteq> None
             then (Inl (PlanConflict ''already has a different decision request''), db)
             else if ad_status row \<noteq> ''proposed'' then (Inl (PlanConflict ''not proposed''), db)
             else if \<exists>t \<in> set_option (ad_expires row). t \<le> lx_now X
             then (Inl (PlanConflict ''plan adjustment has expired''), put_adjustment (row\<lparr>ad_status := ''expired''\<rparr>) db)
             else if ad_decision row \<in> {''keep'', ''manual_review''} \<or> truthy (meta_get (ad_patch row) ''no_change'')
             then (Inl (PlanConflict ''no applicable plan patch''), db)
             else if \<not> ad_automation row \<and> ad_trigger row \<notin> {''manual'', ''dynamic_diagnostic''}
             then (Inl (PlanConflict ''not eligible for application''), db)
             else apply_checked X row req h lang db)"

definition reject_plan_adjustment ::
  "learning_ports \<Rightarrow> ustr \<Rightarrow> ustr \<Rightarrow> ustr \<Rightarrow> ustr option \<Rightarrow> learning_db \<Rightarrow> (plan_error + metadata) \<times> learning_db" where
  "reject_plan_adjustment X i user goal request db =
     (case adjustment_of db i of
        None \<Rightarrow> (Inl (PlanNotFound ''plan adjustment''), db)
      | Some row \<Rightarrow>
          let req = requested_id X request; h = payload_hash X ''reject'' goal;
              rejected = row\<lparr>ad_request := Some req, ad_hash := Some h, ad_status := ''rejected''\<rparr>
          in if ad_user row \<noteq> user \<or> ad_goal row \<noteq> goal then (Inl (PlanNotFound ''plan adjustment''), db)
             else if ad_request row = Some req \<and> ad_hash row \<noteq> Some h
             then (Inl (PlanConflict ''idempotency key conflicts with payload''), db)
             else if ad_request row = Some req then (Inr (adjustment_dict X row), db)
             else if ad_request row \<noteq> None \<or> ad_status row \<noteq> ''proposed''
             then (Inl (PlanConflict ''plan adjustment is not actionable''), db)
             else (Inr (adjustment_dict X rejected), put_adjustment rejected db))"

text \<open>\<open>SQLAlchemyPlanRepository.save_plan_adjustment\<close>: the signals are stored as their dictionary, the
  operations beside the patch.\<close>

definition json_number :: "pyfloat option \<Rightarrow> json" where
  "json_number v = (case v of None \<Rightarrow> JNull | Some x \<Rightarrow> JFloat x)"

definition signals_json :: "tutor_signals \<Rightarrow> metadata" where
  "signals_json s =
     [(lit ''completion_rate_7d'', json_number (sg_completion s)), (lit ''correctness_rate'', json_number (sg_correctness s)),
      (lit ''mastery_delta'', json_number (sg_delta s)), (lit ''low_mastery_nodes'', JList (map JDict (sg_low_nodes s))),
      (lit ''wrong_reason_tags'', JList (map JStr (sg_tags s))), (lit ''recent_attempts'', JList (map JDict (sg_attempts s))),
      (lit ''missing_data_strategy'', missing_json s)]
     @ (case sg_queue s of None \<Rightarrow> [] | Some q \<Rightarrow> [(lit ''review_queue'', q)])
     @ (case sg_phase s of None \<Rightarrow> [] | Some p \<Rightarrow> [(lit ''phase_assessment'', JDict p)])
     @ (case sg_automatic s of None \<Rightarrow> [] | Some b \<Rightarrow> [(lit ''automatic_adjustment_allowed'', JBool b)])
     @ (case sg_gate s of None \<Rightarrow> [] | Some g \<Rightarrow> [(lit ''phase_gate'', json_text g)])"

definition adjustment_evidence :: "plan_adjustment \<Rightarrow> metadata" where
  "adjustment_evidence p =
     [(lit ''observer_signals'', JDict (signals_json (pa_signals p))),
      (lit ''missing_data_strategy'', missing_json (pa_signals p))]
     @ (case pa_request p of None \<Rightarrow> [] | Some r \<Rightarrow> [(lit ''manual_request'', JStr r)])"

fun status_value :: "proposal_status \<Rightarrow> string" where
  "status_value Proposed = ''proposed''"
| "status_value Accepted = ''accepted''"
| "status_value RejectedProposal = ''rejected''"
| "status_value Expired = ''expired''"
| "status_value Superseded = ''superseded''"
| "status_value ApplyFailed = ''apply_failed''"
| "status_value Applied = ''applied''"

definition adjustment_record :: "learning_ports \<Rightarrow> plan_adjustment \<Rightarrow> adjustment_row" where
  "adjustment_record X p =
     \<lparr>ad_id = pa_id p, ad_user = pa_user p, ad_goal = pa_goal p, ad_previous = pa_previous p, ad_new = None,
      ad_trigger = pa_trigger p, ad_decision = action_value (pa_decision p),
      ad_evidence = adjustment_evidence p,
      ad_before = pa_before p, ad_after = pa_after p,
      ad_patch = dict_set (lit ''operations'') (JList (map JDict (pa_operations p))) (pa_patch p),
      ad_summary = pa_summary p, ad_rationale = pa_rationale p, ad_status = status_value (pa_status p),
      ad_policy = pa_policy p, ad_automation = pa_automation p, ad_base = Some (pa_version p),
      ad_expires = Some (pa_expires p), ad_risk = pa_risk p, ad_confirm = pa_confirm p,
      ad_request = None, ad_hash = None, ad_created = lx_now X\<rparr>"

definition save_plan_adjustment :: "learning_ports \<Rightarrow> plan_adjustment \<Rightarrow> learning_db \<Rightarrow> learning_db" where
  "save_plan_adjustment X p db = db\<lparr>ld_adjustments := ld_adjustments db @ [adjustment_record X p]\<rparr>"

end
