(* ===== verification/Task_Sessions.thy ===== *)
theory Task_Sessions
  imports Plan_Application
begin

text \<open>
  Starting and completing a task (src/backend/app/application/learning_service.py), the snapshot the
  engine refreshes (infrastructure/persistence/repositories/state_repository.py) and the bookmarks of
  learning nodes (application/saved_learning_node_service.py).

  Completing a task commits twice: resolving the conversation thread commits the claim, so that the run
  of the engine happens with the task \<open>completing\<close>. The engine is a port; a process that dies in it is
  one of its outcomes, and a returned run carries the dumped decision and the adjustment it saves.
  Bookmarks are in the order of their creation.
\<close>

datatype task_error =
    TaskNotFound string
  | TaskStateConflict string
  | TaskNotStarted
  | TaskCompletionInProgress
  | TaskRunFailed port_error
  | TaskProcessDied

datatype engine_run =
    EngineRaised port_error
  | EngineDied
  | EngineReturned "metadata option" "plan_adjustment option"

subsection \<open>The snapshot refreshed by a run\<close>

definition adjustment_dump :: "learning_ports \<Rightarrow> plan_adjustment \<Rightarrow> metadata" where
  "adjustment_dump X p =
     [(lit ''adjustment_id'', JStr (pa_id p)), (lit ''user_id'', JStr (pa_user p)), (lit ''goal_id'', JStr (pa_goal p)),
      (lit ''previous_plan_id'', json_id (pa_previous p)), (lit ''new_plan_id'', JNull),
      (lit ''trigger_type'', json_text (pa_trigger p)), (lit ''decision'', json_text (action_value (pa_decision p))),
      (lit ''status'', json_text (status_value (pa_status p))), (lit ''policy_version'', json_text (pa_policy p)),
      (lit ''automation_allowed'', JBool (pa_automation p)), (lit ''evidence_json'', JDict (adjustment_evidence p)),
      (lit ''before_snapshot'', JDict (pa_before p)), (lit ''after_snapshot'', JDict (pa_after p)),
      (lit ''plan_patch'', JDict (pa_patch p)), (lit ''change_summary'', JDict (pa_summary p)),
      (lit ''rationale_json'', JDict (pa_rationale p)), (lit ''base_plan_version'', JInt (pa_version p)),
      (lit ''expires_at'', JStr (lx_iso X (pa_expires p))), (lit ''risk_level'', json_text (pa_risk p)),
      (lit ''requires_confirmation'', JBool (pa_confirm p)),
      (lit ''operations'', JList (map JDict (pa_operations p)))]"

definition refresh_snapshot :: "learning_ports \<Rightarrow> ustr \<Rightarrow> ustr \<Rightarrow> plan_adjustment \<Rightarrow> learning_db \<Rightarrow> learning_db" where
  "refresh_snapshot X user goal p db =
     (case snapshot_of db user goal of
        None \<Rightarrow> db
      | Some s \<Rightarrow> db\<lparr>ld_snapshots := set_row snapshot_key
          (s\<lparr>sn_state := dict_set (lit ''latest_plan_adjustment'') (JDict (adjustment_dump X p)) (sn_state s),
             sn_latest := Some (pa_id p)\<rparr>) (ld_snapshots db)\<rparr>)"

subsection \<open>Starting a task\<close>

definition owned_task :: "learning_db \<Rightarrow> ustr \<Rightarrow> ustr \<Rightarrow> plan_task option" where
  "owned_task db user i = (case task_of db i of Some t \<Rightarrow> if tk_user t = user then Some t else None | None \<Rightarrow> None)"

definition put_task :: "plan_task \<Rightarrow> learning_db \<Rightarrow> learning_db" where
  "put_task t db = db\<lparr>ld_tasks := set_row tk_id t (ld_tasks db)\<rparr>"

definition active_session :: "learning_db \<Rightarrow> ustr \<Rightarrow> ustr \<Rightarrow> learning_session option" where
  "active_session db user i =
     find (\<lambda>s. se_user s = user \<and> se_task s = i \<and> se_status s = ''active'') (ld_sessions db)"

text \<open>\<open>order_by(ended_at.desc(), id.desc())\<close>, first row.\<close>

definition completed_session :: "learning_db \<Rightarrow> ustr \<Rightarrow> ustr \<Rightarrow> learning_session option" where
  "completed_session db user i =
     (case rev (sort_key (\<lambda>s. (case se_ended s of None \<Rightarrow> 0 | Some t \<Rightarrow> t, se_id s))
        (filter (\<lambda>s. se_user s = user \<and> se_task s = i \<and> se_status s = ''completed'') (ld_sessions db))) of
        [] \<Rightarrow> None | s # _ \<Rightarrow> Some s)"

definition session_response :: "learning_ports \<Rightarrow> plan_task \<Rightarrow> learning_session \<Rightarrow> metadata" where
  "session_response X t s = [(lit ''task'', JDict (task_dict X t)), (lit ''session'', JDict (session_dict X s))]"

definition is_done :: "plan_task \<Rightarrow> bool" where
  "is_done t \<longleftrightarrow> tk_status t \<in> {lit ''completed'', lit ''done''}"

definition completed_response :: "learning_ports \<Rightarrow> learning_db \<Rightarrow> ustr \<Rightarrow> plan_task \<Rightarrow> task_error + metadata" where
  "completed_response X db user t =
     (case completed_session db user (tk_id t) of
        None \<Rightarrow> Inl (TaskStateConflict ''task.state_conflict'')
      | Some s \<Rightarrow> Inr (session_response X t s))"

definition open_session :: "learning_ports \<Rightarrow> ustr \<Rightarrow> plan_task \<Rightarrow> learning_session" where
  "open_session X user t =
     \<lparr>se_id = lit ''session-'' @ lx_uuid X 0, se_user = user, se_goal = tk_goal t, se_plan = tk_plan t, se_task = tk_id t,
      se_started = lx_now X, se_ended = None, se_minutes = 0, se_status = ''active'', se_evidence = []\<rparr>"

definition begin_task :: "learning_ports \<Rightarrow> ustr \<Rightarrow> plan_task \<Rightarrow> learning_db \<Rightarrow> learning_db" where
  "begin_task X user t db =
     refresh_activity_state X user (tk_goal t)
       (record_event X 1 user (tk_goal t) (Some (se_id (open_session X user t))) (Some (tk_id t)) ''task_started'' ''task_api''
         [(lit ''plan_id'', JStr (tk_plan t)), (lit ''task_title'', JStr (tk_title t))]
         ((put_task (t\<lparr>tk_status := lit ''active''\<rparr>) db)\<lparr>ld_sessions := ld_sessions db @ [open_session X user t]\<rparr>))"

definition start_task :: "learning_ports \<Rightarrow> ustr \<Rightarrow> ustr \<Rightarrow> learning_db \<Rightarrow> (task_error + metadata) \<times> learning_db" where
  "start_task X user i db =
     (case owned_task db user i of
        None \<Rightarrow> (Inl (TaskNotFound ''task''), db)
      | Some t \<Rightarrow>
          if \<not> goal_owned db user (tk_goal t) then (Inl (TaskNotFound ''learning goal''), db)
          else if map_option sn_plan (snapshot_of db user (tk_goal t)) \<noteq> Some (tk_plan t)
          then (Inl (TaskStateConflict ''task.not_active_plan''), db)
          else if tk_status t = lit ''pending''
          then if active_session db user i \<noteq> None then (Inl (TaskStateConflict ''task.state_conflict''), db)
               else (Inr (session_response X (t\<lparr>tk_status := lit ''active''\<rparr>) (open_session X user t)), begin_task X user t db)
          else if is_done t then (completed_response X db user t, db)
          else if tk_status t = lit ''completing'' then (Inl TaskCompletionInProgress, db)
          else if tk_status t = lit ''active''
          then (case active_session db user i of
                  None \<Rightarrow> Inl (TaskStateConflict ''task.state_conflict'')
                | Some s \<Rightarrow> Inr (session_response X t s), db)
          else (Inl (TaskStateConflict ''task.state_conflict''), db))"

subsection \<open>Completing a task\<close>

definition elapsed_seconds :: "int \<Rightarrow> int \<Rightarrow> int" where
  "elapsed_seconds started ended = max 0 ((ended - started) div 1000000)"

definition measured_evidence :: "learning_ports \<Rightarrow> metadata \<Rightarrow> learning_session \<Rightarrow> metadata" where
  "measured_evidence X evidence s =
     (let seconds = elapsed_seconds (se_started s) (lx_now X)
      in dict_update evidence
           [(lit ''measurement_source'', json_text ''server_session_clock''), (lit ''duration_seconds'', JInt seconds),
            (lit ''duration_minutes'', JInt (seconds div 60)), (lit ''started_at'', JStr (lx_iso X (se_started s))),
            (lit ''ended_at'', JStr (lx_iso X (lx_now X)))])"

definition close_session :: "learning_ports \<Rightarrow> metadata \<Rightarrow> learning_session \<Rightarrow> learning_session" where
  "close_session X evidence s =
     s\<lparr>se_ended := Some (lx_now X), se_minutes := elapsed_seconds (se_started s) (lx_now X) div 60,
       se_status := ''completed'', se_evidence := measured_evidence X evidence s\<rparr>"

definition finish_task ::
  "learning_ports \<Rightarrow> ustr \<Rightarrow> metadata \<Rightarrow> plan_task \<Rightarrow> learning_session \<Rightarrow> learning_db \<Rightarrow> learning_db" where
  "finish_task X user evidence t s db =
     (let closed = close_session X evidence s
      in refresh_activity_state X user (tk_goal t)
        (record_event X 1 user (tk_goal t) (Some (se_id s)) (Some (tk_id t)) ''task_completed'' ''task_api''
          [(lit ''plan_id'', JStr (tk_plan t)), (lit ''task_title'', JStr (tk_title t)),
           (lit ''duration_minutes'', JInt (se_minutes closed)), (lit ''evidence'', JDict (se_evidence closed))]
          ((put_task (t\<lparr>tk_status := lit ''completed''\<rparr>) db)\<lparr>ld_sessions := set_row se_id closed (ld_sessions db)\<rparr>)))"

definition store_adjustment :: "learning_ports \<Rightarrow> plan_adjustment option \<Rightarrow> learning_db \<Rightarrow> learning_db" where
  "store_adjustment X adj db =
     (case adj of None \<Rightarrow> db
      | Some p \<Rightarrow> refresh_snapshot X (pa_user p) (pa_goal p) p (save_plan_adjustment X p db))"

definition complete_response ::
  "learning_ports \<Rightarrow> plan_task \<Rightarrow> learning_session \<Rightarrow> json \<Rightarrow> json \<Rightarrow> metadata" where
  "complete_response X t s decision adjustment =
     session_response X t s @ [(lit ''observer_decision'', decision), (lit ''plan_adjustment'', adjustment)]"

definition complete_task ::
  "learning_ports \<Rightarrow> (learning_db \<Rightarrow> port_error option) \<Rightarrow> (learning_db \<Rightarrow> engine_run) \<Rightarrow> ustr \<Rightarrow> ustr \<Rightarrow> metadata
     \<Rightarrow> learning_db \<Rightarrow> (task_error + metadata) \<times> learning_db" where
  "complete_task X thread engine user i evidence db =
     (case owned_task db user i of
        None \<Rightarrow> (Inl (TaskNotFound ''task''), db)
      | Some t \<Rightarrow>
          if is_done t
          then (case completed_session db user i of
                  None \<Rightarrow> Inl (TaskStateConflict ''task.state_conflict'')
                | Some s \<Rightarrow> Inr (complete_response X t s JNull JNull), db)
          else if tk_status t = lit ''completing'' then (Inl TaskCompletionInProgress, db)
          else if tk_status t = lit ''pending'' then (Inl TaskNotStarted, db)
          else if tk_status t \<noteq> lit ''active'' then (Inl (TaskStateConflict ''task.state_conflict''), db)
          else case active_session db user i of
            None \<Rightarrow> (Inl TaskNotStarted, db)
          | Some s \<Rightarrow>
              (let claimed = put_task (t\<lparr>tk_status := lit ''completing''\<rparr>) db;
                   done = finish_task X user evidence t s claimed
               in case thread claimed of
                    Some e \<Rightarrow> (Inl (TaskRunFailed e), db)
                  | None \<Rightarrow>
                      (case engine done of
                         EngineRaised e \<Rightarrow> (Inl (TaskRunFailed e), put_task (t\<lparr>tk_status := lit ''active''\<rparr>) claimed)
                       | EngineDied \<Rightarrow> (Inl TaskProcessDied, claimed)
                       | EngineReturned d adj \<Rightarrow>
                           (Inr (complete_response X (t\<lparr>tk_status := lit ''completed''\<rparr>) (close_session X evidence s)
                              (case d of None \<Rightarrow> JNull | Some m \<Rightarrow> JDict m)
                              (case adj of None \<Rightarrow> JNull | Some p \<Rightarrow> JDict (adjustment_dump X p))),
                            store_adjustment X adj done))))"

subsection \<open>Bookmarks\<close>

definition in_active_plan :: "learning_db \<Rightarrow> ustr \<Rightarrow> ustr \<Rightarrow> ustr \<Rightarrow> bool" where
  "in_active_plan db user goal node \<longleftrightarrow>
     (\<exists>s \<in> set_option (snapshot_of db user goal). \<exists>t \<in> set (ld_tasks db).
        tk_plan t = sn_plan s \<and> tk_user t = user \<and> tk_goal t = goal \<and> tk_node t = node)"

definition list_saved_learning_nodes :: "ustr \<Rightarrow> ustr \<Rightarrow> learning_db \<Rightarrow> task_error + ustr list" where
  "list_saved_learning_nodes user goal db =
     (if \<not> goal_owned db user goal then Inl (TaskNotFound ''learning goal'')
      else Inr (map (\<lambda>(_, _, n). n) (filter (\<lambda>(u, g, n). u = user \<and> g = goal \<and> in_active_plan db user goal n) (ld_saved db))))"

definition save_learning_node :: "ustr \<Rightarrow> ustr \<Rightarrow> ustr \<Rightarrow> learning_db \<Rightarrow> (task_error + unit) \<times> learning_db" where
  "save_learning_node user goal node db =
     (if \<not> goal_owned db user goal then (Inl (TaskNotFound ''learning goal''), db)
      else if \<not> in_active_plan db user goal node then (Inl (TaskNotFound ''learning node''), db)
      else (Inr (), if (user, goal, node) \<in> set (ld_saved db) then db
                    else db\<lparr>ld_saved := ld_saved db @ [(user, goal, node)]\<rparr>))"

definition delete_saved_learning_node :: "ustr \<Rightarrow> ustr \<Rightarrow> ustr \<Rightarrow> learning_db \<Rightarrow> (task_error + unit) \<times> learning_db" where
  "delete_saved_learning_node user goal node db =
     (if \<not> goal_owned db user goal then (Inl (TaskNotFound ''learning goal''), db)
      else (Inr (), db\<lparr>ld_saved := filter (\<lambda>k. k \<noteq> (user, goal, node)) (ld_saved db)\<rparr>))"

end
