(* ===== verification/Learning_Runs.thy ===== *)
theory Learning_Runs
  imports Task_Sessions
begin

text \<open>
  Sequences of requests on the learning tables: plan adjustments applied and rejected, tasks started
  and completed, in any order and with any outcome of the engine. Shown: one active plan per goal, the
  snapshot points at it, versions never repeat, and an active task has its session.
\<close>

subsection \<open>What an operation keeps\<close>

definition snap_core :: "state_snapshot \<Rightarrow> (ustr \<times> ustr) \<times> ustr \<times> int" where
  "snap_core s = (snapshot_key s, sn_plan s, sn_version s)"

lemma snapshot_of_Some: "snapshot_of db user goal = Some s \<Longrightarrow> s \<in> set (ld_snapshots db) \<and> snapshot_key s = (user, goal)"
  by (auto simp: snapshot_of_def dest: find_Some_in)

lemma set_row_core:
  assumes "distinct (map key rs)" "r \<in> set rs" "key r' = key r" "f r' = f r"
  shows "map f (set_row key r' rs) = map f rs"
proof -
  have "x = r" if "x \<in> set rs" "key x = key r'" for x
    using that assms(1-3) by (metis (mono_tags) distinct_map inj_on_def)
  with assms(4) show ?thesis by (auto simp: set_row_def)
qed

lemma record_event_fields [simp]:
  "ld_plans (record_event X k u g s t e f m db) = ld_plans db" "ld_tasks (record_event X k u g s t e f m db) = ld_tasks db"
  "ld_adjustments (record_event X k u g s t e f m db) = ld_adjustments db"
  "ld_snapshots (record_event X k u g s t e f m db) = ld_snapshots db"
  "ld_sessions (record_event X k u g s t e f m db) = ld_sessions db"
  by (simp_all add: record_event_def)

lemma refresh_activity_fields [simp]:
  "ld_plans (refresh_activity_state X u g db) = ld_plans db" "ld_tasks (refresh_activity_state X u g db) = ld_tasks db"
  "ld_adjustments (refresh_activity_state X u g db) = ld_adjustments db"
  "ld_sessions (refresh_activity_state X u g db) = ld_sessions db"
  by (simp_all add: refresh_activity_state_def split: option.split)

lemma refresh_activity_core:
  "distinct (map snapshot_key (ld_snapshots db)) \<Longrightarrow>
     map snap_core (ld_snapshots (refresh_activity_state X u g db)) = map snap_core (ld_snapshots db)"
  by (auto simp: refresh_activity_state_def split: option.split dest!: snapshot_of_Some
      intro!: set_row_core simp: snap_core_def)

lemma refresh_snapshot_fields [simp]:
  "ld_plans (refresh_snapshot X u g p db) = ld_plans db" "ld_tasks (refresh_snapshot X u g p db) = ld_tasks db"
  "ld_adjustments (refresh_snapshot X u g p db) = ld_adjustments db"
  "ld_sessions (refresh_snapshot X u g p db) = ld_sessions db"
  by (simp_all add: refresh_snapshot_def split: option.split)

lemma refresh_snapshot_core:
  "distinct (map snapshot_key (ld_snapshots db)) \<Longrightarrow>
     map snap_core (ld_snapshots (refresh_snapshot X u g p db)) = map snap_core (ld_snapshots db)"
  by (auto simp: refresh_snapshot_def split: option.split dest!: snapshot_of_Some
      intro!: set_row_core simp: snap_core_def)

lemma put_fields [simp]:
  "ld_plans (put_task t db) = ld_plans db" "ld_adjustments (put_task t db) = ld_adjustments db"
  "ld_snapshots (put_task t db) = ld_snapshots db" "ld_sessions (put_task t db) = ld_sessions db"
  "ld_tasks (put_task t db) = set_row tk_id t (ld_tasks db)"
  "ld_plans (put_adjustment a db) = ld_plans db" "ld_tasks (put_adjustment a db) = ld_tasks db"
  "ld_snapshots (put_adjustment a db) = ld_snapshots db" "ld_sessions (put_adjustment a db) = ld_sessions db"
  "ld_adjustments (put_adjustment a db) = set_row ad_id a (ld_adjustments db)"
  by (simp_all add: put_task_def put_adjustment_def)

lemma save_adjustment_fields [simp]:
  "ld_plans (save_plan_adjustment X p db) = ld_plans db" "ld_tasks (save_plan_adjustment X p db) = ld_tasks db"
  "ld_snapshots (save_plan_adjustment X p db) = ld_snapshots db" "ld_sessions (save_plan_adjustment X p db) = ld_sessions db"
  "ld_adjustments (save_plan_adjustment X p db) = ld_adjustments db @ [adjustment_record X p]"
  by (simp_all add: save_plan_adjustment_def)

subsection \<open>Plans, snapshots and adjustments\<close>

definition owner :: "learning_plan \<Rightarrow> ustr \<times> ustr" where
  "owner p = (lp_user p, lp_goal p)"

definition plan_key :: "learning_plan \<Rightarrow> (ustr \<times> ustr) \<times> int" where
  "plan_key p = (owner p, lp_version p)"

definition adj_core :: "adjustment_row \<Rightarrow> ustr \<times> (ustr \<times> ustr) \<times> ustr option" where
  "adj_core a = (ad_id a, (ad_user a, ad_goal a), ad_previous a)"

abbreviation active_plan :: "learning_plan \<Rightarrow> bool" where
  "active_plan p \<equiv> lp_status p = ''active''"

definition plans_ok :: "learning_plan list \<Rightarrow> ((ustr \<times> ustr) \<times> ustr \<times> int) list
    \<Rightarrow> (ustr \<times> (ustr \<times> ustr) \<times> ustr option) list \<Rightarrow> bool" where
  "plans_ok ps ss as \<longleftrightarrow>
     distinct (map lp_id ps) \<and> distinct (map plan_key ps) \<and> distinct (map owner (filter active_plan ps))
   \<and> distinct (map fst ss) \<and> distinct (map fst as)
   \<and> (\<forall>(k, i, v) \<in> set ss. \<exists>p \<in> set ps. lp_id p = i \<and> owner p = k \<and> lp_version p = v \<and> active_plan p)
   \<and> (\<forall>(_, k, previous) \<in> set as. \<forall>i \<in> set_option previous. \<forall>p \<in> set ps. lp_id p = i \<longrightarrow> owner p = k)"

abbreviation db_plans_ok :: "learning_db \<Rightarrow> bool" where
  "db_plans_ok db \<equiv> plans_ok (ld_plans db) (map snap_core (ld_snapshots db)) (map adj_core (ld_adjustments db))"

lemma plans_ok_keys: "db_plans_ok db \<Longrightarrow> distinct (map snapshot_key (ld_snapshots db))"
  "db_plans_ok db \<Longrightarrow> distinct (map ad_id (ld_adjustments db))"
  by (simp_all add: plans_ok_def snap_core_def adj_core_def comp_def)

lemma foldl_max_ge: "\<forall>x \<in> set (v # vs). x \<le> foldl max v vs" for v :: int
  by (induction vs arbitrary: v) (auto simp: max_def dest: order_trans, force+)

lemma next_version_fresh: "p \<in> set (ld_plans db) \<Longrightarrow> owner p = (user, goal) \<Longrightarrow> lp_version p < next_plan_version db user goal"
proof -
  assume p: "p \<in> set (ld_plans db)" "owner p = (user, goal)"
  let ?vs = "map lp_version (filter (\<lambda>p. lp_user p = user \<and> lp_goal p = goal) (ld_plans db))"
  have "lp_version p \<in> set ?vs" using p by (auto simp: owner_def)
  then show ?thesis
    using foldl_max_ge [of "hd ?vs" "tl ?vs"] by (cases ?vs) (auto simp: next_plan_version_def)
qed

text \<open>Replacing the active plan of a goal by a new version, and pointing its snapshot at it.\<close>

lemma plans_ok_replace:
  assumes ok: "plans_ok ps ss as" and p: "p \<in> set ps" "active_plan p" and q: "owner q = owner p" "active_plan q"
    "lp_id q \<notin> lp_id ` set ps" "\<forall>x \<in> set ps. owner x = owner p \<longrightarrow> lp_version x < lp_version q"
    and new: "\<forall>(_, _, i) \<in> set as. i \<noteq> Some (lp_id q)"
    and ss': "map fst ss' = map fst ss" "\<forall>(k, i, v) \<in> set ss'. k = owner p \<and> i = lp_id q \<and> v = lp_version q
      \<or> (k, i, v) \<in> set ss \<and> k \<noteq> owner p"
  shows "plans_ok (set_row lp_id (p\<lparr>lp_status := ''replaced''\<rparr>) ps @ [q]) ss' as"
proof -
  let ?p' = "p\<lparr>lp_status := ''replaced''\<rparr>"
  let ?ps = "set_row lp_id ?p' ps"
  have dist: "distinct (map lp_id ps)" using ok by (simp add: plans_ok_def)
  have same: "x = p" if "x \<in> set ps" "lp_id x = lp_id p" for x
    using that p(1) dist by (metis (mono_tags) distinct_map inj_on_def)
  have keys: "map plan_key ?ps = map plan_key ps"
    by (rule set_row_core [OF dist p(1)]) (simp_all add: plan_key_def owner_def)
  have owners: "map owner ?ps = map owner ps"
    by (rule set_row_core [OF dist p(1)]) (simp_all add: owner_def)
  have ids: "map lp_id ?ps = map lp_id ps"
    by (rule set_row_core [OF dist p(1)]) simp_all
  have active: "filter active_plan ?ps = filter (\<lambda>x. active_plan x \<and> lp_id x \<noteq> lp_id p) ps"
    by (induction ps) (auto simp: set_row_def)
  have "inj_on owner (set (filter active_plan ps))"
    using ok by (simp add: plans_ok_def distinct_map)
  then have only: "x = p" if "x \<in> set ps" "active_plan x" "owner x = owner p" for x
    using that p by (auto simp: inj_on_def)
  have d1: "distinct (map owner (filter active_plan ?ps @ [q]))"
  proof -
    have "distinct (map owner (filter (\<lambda>x. active_plan x \<and> lp_id x \<noteq> lp_id p) ps))"
      using ok by (auto simp: plans_ok_def distinct_map intro: inj_on_subset)
    moreover have "owner q \<notin> owner ` set (filter (\<lambda>x. active_plan x \<and> lp_id x \<noteq> lp_id p) ps)"
      using only q(1) by force
    ultimately show ?thesis by (simp add: active)
  qed
  have d2: "plan_key q \<notin> set (map plan_key ?ps)"
    using q(1,4) by (auto simp: keys plan_key_def)
  have keep: "x \<in> set ?ps" if "x \<in> set ps" "lp_id x \<noteq> lp_id p" for x
    using that by (auto simp: set_row_def intro!: image_eqI [of _ _ x])
  have point: "\<exists>x \<in> set ?ps \<union> {q}. lp_id x = i \<and> owner x = k \<and> lp_version x = v \<and> active_plan x"
    if "(k, i, v) \<in> set ss'" for k i v
  proof (cases "k = owner p \<and> i = lp_id q \<and> v = lp_version q")
    case True
    with q show ?thesis by auto
  next
    case False
    with that ss'(2) have "(k, i, v) \<in> set ss" "k \<noteq> owner p" by auto
    then obtain x where "x \<in> set ps" "lp_id x = i" "owner x = k" "lp_version x = v" "active_plan x"
      using ok by (auto simp: plans_ok_def)
    moreover have "lp_id x \<noteq> lp_id p" using same [of x] calculation \<open>k \<noteq> owner p\<close> by auto
    ultimately show ?thesis using keep [of x] by auto
  qed
  have prev: "owner x = k" if "(j, k, Some (lp_id x)) \<in> set as" "x \<in> set ?ps \<union> {q}" for j k x
  proof (cases "x = q")
    case True
    with that(1) new show ?thesis by auto
  next
    case False
    with that(2) obtain y where "y \<in> set ps" "lp_id y = lp_id x" "owner y = owner x"
      using p(1) by (auto simp: set_row_def owner_def split: if_splits)
    with that(1) ok show ?thesis by (auto simp: plans_ok_def)
  qed
  show ?thesis
    unfolding plans_ok_def
    using ok q(3) d1 d2 point prev ss'(1)
    by (auto simp: plans_ok_def ids keys simp flip: set_map)
qed

subsection \<open>The outcomes of a request on an adjustment\<close>

definition new_task :: "learning_ports \<Rightarrow> learning_plan \<Rightarrow> plan_task \<Rightarrow> bool" where
  "new_task X plan t \<longleftrightarrow> tk_plan t = lp_id plan \<and> tk_user t = lp_user plan \<and> tk_goal t = lp_goal plan
     \<and> tk_status t = lit ''pending'' \<and> (\<exists>k. tk_id t = lit ''task-'' @ lx_uuid X k)"

lemma new_task_add [simp]: "new_task X plan (add_plan_task X k plan n c ti kd ob d m pr pl)"
  by (auto simp: new_task_def add_plan_task_def)

lemma new_task_made [simp]:
  "new_task X plan (node_task X lang plan a kind day minutes prio k n)"
  "new_task X plan (clone_plan_task X lang db plan a d m k u)"
  by (simp_all add: node_task_def clone_plan_task_def Let_def split: prod.split)

lemma created_cases:
  assumes "create_applied_plan_tasks X lang db p a snapshot = Inr (plan, tasks)"
  obtains reviews m where "review_tasks X lang db plan a snapshot (open_tasks X (previous_tasks db p)) = Inr reviews"
    "load_multiplier X a = Inr m" "plan = new_plan_of X db p a"
    "tasks = reviews @ copied_tasks X lang db plan a (length reviews) m (open_tasks X (previous_tasks db p))
       @ next_tasks X lang db p plan a
           (reviews @ copied_tasks X lang db plan a (length reviews) m (open_tasks X (previous_tasks db p)))"
  using assms by (auto simp: create_applied_plan_tasks_def Let_def bind_res_Inr_iff)

lemma review_tasks_cases:
  assumes "review_tasks X lang db plan a snapshot opened = Inr reviews"
  obtains "ad_decision a \<noteq> ''remediate''" "reviews = []"
  | count nodes where "ad_decision a = ''remediate''" "review_nodes db a snapshot opened = Inr nodes"
      "reviews = map (\<lambda>(i, n). node_task X lang plan a ''review'' (int i) 30 0 (1 + i) n) (enumerate_from 1 (py_take count nodes))"
proof (cases "ad_decision a = ''remediate''")
  case True
  with assms that(2) show ?thesis by (auto simp: review_tasks_def bind_res_Inr_iff)
next
  case False
  with assms that(1) show ?thesis by (simp add: review_tasks_def)
qed

lemma next_tasks_made: "\<forall>t \<in> set (next_tasks X lang db p plan a cs). new_task X plan t"
proof (cases "ad_decision a = ''advance''")
  case True
  then show ?thesis
    by (cases "next_uncovered_node db p (previous_tasks db p)") (simp_all only: next_tasks_def simp_thms if_True option.case new_task_made list.set ball_simps)
next
  case False
  then show ?thesis by (simp only: next_tasks_def if_False list.set ball_simps)
qed

lemma created_facts:
  assumes "create_applied_plan_tasks X lang db p a snapshot = Inr (plan, tasks)"
  shows "plan = new_plan_of X db p a" "\<forall>t \<in> set tasks. new_task X plan t"
proof -
  obtain reviews m where r: "review_tasks X lang db plan a snapshot (open_tasks X (previous_tasks db p)) = Inr reviews"
    and m: "load_multiplier X a = Inr m" and plan: "plan = new_plan_of X db p a"
    and tasks: "tasks = reviews @ copied_tasks X lang db plan a (length reviews) m (open_tasks X (previous_tasks db p))
       @ next_tasks X lang db p plan a
           (reviews @ copied_tasks X lang db plan a (length reviews) m (open_tasks X (previous_tasks db p)))"
    using assms by (rule created_cases)
  from plan show "plan = new_plan_of X db p a" .
  have "\<forall>t \<in> set reviews. new_task X plan t"
    using r by (cases rule: review_tasks_cases) auto
  moreover have "\<forall>t \<in> set (copied_tasks X lang db plan a k m ts). new_task X plan t" for k ts
    unfolding copied_tasks_def set_map by (rule ballI, erule imageE) (simp add: split_beta)
  moreover have "\<forall>t \<in> set (next_tasks X lang db p plan a cs). new_task X plan t" for cs
    by (rule next_tasks_made)
  ultimately show "\<forall>t \<in> set tasks. new_task X plan t"
    unfolding tasks by (simp add: ball_Un)
qed

definition claimed_row :: "learning_ports \<Rightarrow> ustr option \<Rightarrow> string \<Rightarrow> adjustment_row \<Rightarrow> adjustment_row" where
  "claimed_row X request action row =
     row\<lparr>ad_request := Some (requested_id X request), ad_hash := Some (payload_hash X action (ad_goal row))\<rparr>"

lemma apply_cases:
  assumes "apply_plan_adjustment X i user goal request lang db = (r, db')"
  obtains (same) "db' = db"
  | (closed) row row' where "adjustment_of db i = Some row" "ad_status row = ''proposed''" "db' = put_adjustment row' db"
      "adj_core row' = adj_core row" "ad_new row' = ad_new row" "ad_status row' \<in> {''expired'', ''superseded''}" "\<not> is_ok r"
  | (applied) row p plan tasks where "adjustment_of db i = Some row" "ad_status row = ''proposed''"
      "ad_user row = user" "ad_goal row = goal"
      "p \<in> set (ld_plans db)" "active_plan p"
      "create_applied_plan_tasks X lang db p (claimed_row X request ''accept'' row) (snapshot_of db user goal) = Inr (plan, tasks)"
      "\<forall>s \<in> set_option (snapshot_of db user goal). lp_id p = sn_plan s"
      "snapshot_of db user goal = None \<Longrightarrow> ad_previous row = Some (lp_id p)"
      "db' = snd (commit_application X (claimed_row X request ''accept'' row) (snapshot_of db user goal) p plan tasks db)"
      "is_ok r" "ad_decision row \<notin> {''keep'', ''manual_review''}"
proof (cases "adjustment_of db i")
  case None
  with assms show ?thesis by (intro same) (simp add: apply_plan_adjustment_def)
next
  case (Some row)
  let ?a = "claimed_row X request ''accept'' row"
  let ?snap = "snapshot_of db user goal"
  let ?prev = "case ad_previous row of Some (c # cs) \<Rightarrow> Some (c # cs) | _ \<Rightarrow> map_option sn_plan ?snap"
  show ?thesis
  proof (cases "db' = db")
    case False
    with assms Some have st: "ad_status row = ''proposed''" "ad_user row = user" "ad_goal row = goal"
      by (auto simp: apply_plan_adjustment_def Let_def split: if_splits)
    show ?thesis
    proof (cases "\<exists>t \<in> set_option (ad_expires row). t \<le> lx_now X")
      case True
      with assms Some st False show ?thesis
        by (intro closed [of row "row\<lparr>ad_status := ''expired''\<rparr>"])
          (auto simp: apply_plan_adjustment_def Let_def adj_core_def split: if_splits)
    next
      case live: False
      with assms Some st False have checked: "apply_checked X row (requested_id X request) (payload_hash X ''accept'' goal) lang db = (r, db')"
        and dec: "ad_decision row \<notin> {''keep'', ''manual_review''}"
        by (auto simp: apply_plan_adjustment_def Let_def split: if_splits)
      have a: "row\<lparr>ad_request := Some (requested_id X request), ad_hash := Some (payload_hash X ''accept'' goal)\<rparr> = ?a"
        by (simp add: claimed_row_def st)
      show ?thesis
      proof (cases "\<exists>s \<in> set_option ?snap. \<exists>v \<in> set_option (ad_base row). v \<noteq> sn_version s")
        case True
        with checked False st show ?thesis
          by (intro closed [of row "?a\<lparr>ad_status := ''superseded''\<rparr>"])
            (auto simp: apply_checked_def Let_def Some adj_core_def claimed_row_def split: if_splits)
      next
        case fresh: False
        with checked False st obtain p plan tasks where
          p: "Option.bind ?prev (plan_of db) = Some p" "active_plan p"
            "create_applied_plan_tasks X lang db p ?a ?snap = Inr (plan, tasks)"
            "\<forall>s \<in> set_option ?snap. ?prev = Some (sn_plan s)"
          and out: "db' = snd (commit_application X ?a ?snap p plan tasks db)" "is_ok r"
          by (auto simp: apply_checked_def Let_def a split: if_splits option.splits sum.splits prod.splits)
        from p(1) obtain j where j: "?prev = Some j" "plan_of db j = Some p"
          by (auto simp: bind_eq_Some_conv)
        then have pj: "p \<in> set (ld_plans db)" "lp_id p = j"
          by (auto simp: plan_of_def dest: find_Some_in)
        have "ad_previous row = Some (lp_id p)" if "?snap = None"
          using j(1) pj that by (auto split: option.splits list.splits)
        then show ?thesis
          using p out j pj st dec Some by (intro applied [of row p plan tasks]) auto
      qed
    qed
  qed (use same in blast)
qed

lemma reject_cases:
  assumes "reject_plan_adjustment X i user goal request db = (r, db')"
  obtains (same) "db' = db"
  | (rejected) row where "adjustment_of db i = Some row" "ad_status row = ''proposed''" "ad_request row = None"
      "ad_user row = user" "ad_goal row = goal"
      "db' = put_adjustment ((claimed_row X request ''reject'' row)\<lparr>ad_status := ''rejected''\<rparr>) db"
proof (cases "adjustment_of db i")
  case None
  with assms same show ?thesis by (simp add: reject_plan_adjustment_def)
next
  case (Some row)
  show ?thesis
  proof (cases "db' = db")
    case False
    with assms Some show ?thesis
      by (intro rejected [of row]) (auto simp: reject_plan_adjustment_def Let_def claimed_row_def split: if_splits)
  qed (use same in blast)
qed

lemma commit_fields:
  assumes "commit_application X a snapshot p plan tasks db = (a', db')"
  shows "ld_plans db' = set_row lp_id (p\<lparr>lp_status := ''replaced''\<rparr>) (ld_plans db) @ [plan]"
    "ld_tasks db' = ld_tasks db @ tasks" "ld_sessions db' = ld_sessions db"
    "ld_adjustments db' = set_row ad_id a' (ld_adjustments db)"
    "adj_core a' = adj_core a" "ad_status a' = ''applied''" "ad_new a' = Some (lp_id plan)"
    "ad_request a' = ad_request a" "ad_hash a' = ad_hash a"
  using assms by (auto simp: commit_application_def Let_def adj_core_def split: option.splits)

lemma commit_snapshots:
  assumes "commit_application X a snapshot p plan tasks db = (a', db')" "distinct (map snapshot_key (ld_snapshots db))"
    "snapshot = snapshot_of db user goal"
  shows "map fst (map snap_core (ld_snapshots db')) = map fst (map snap_core (ld_snapshots db))"
    "\<forall>(k, i, v) \<in> set (map snap_core (ld_snapshots db')). k = (user, goal) \<and> i = lp_id plan \<and> v = lp_version plan
       \<or> (k, i, v) \<in> set (map snap_core (ld_snapshots db)) \<and> k \<noteq> (user, goal)"
proof -
  obtain db3 where cores: "map snap_core (ld_snapshots db') = map snap_core (ld_snapshots (refresh_activity_state X (ad_user a) (ad_goal a) db3))"
    and db3: "ld_snapshots db3 = (case snapshot of None \<Rightarrow> ld_snapshots db
      | Some s \<Rightarrow> set_row snapshot_key (s\<lparr>sn_plan := lp_id plan, sn_version := lp_version plan, sn_latest := Some (ad_id a'),
          sn_state := dict_set (lit ''latest_plan_adjustment'') (JDict (adjustment_dict X a')) (sn_state s),
          sn_generated := dict_update (sn_generated s) [(lit ''latest_plan_adjustment_id'', JStr (ad_id a')),
             (lit ''active_plan_id'', JStr (lp_id plan))]\<rparr>) (ld_snapshots db))"
    using assms(1) by (auto simp: commit_application_def Let_def split: option.splits)
  have "map snapshot_key (ld_snapshots db3) = map snapshot_key (ld_snapshots db)"
    by (simp add: db3 split: option.split)
  with assms(2) have core: "map snap_core (ld_snapshots db') = map snap_core (ld_snapshots db3)"
    using refresh_activity_core [of db3] by (simp add: cores)
  have "map fst (map snap_core (ld_snapshots db3)) = map snapshot_key (ld_snapshots db3)"
    "map fst (map snap_core (ld_snapshots db)) = map snapshot_key (ld_snapshots db)"
    by (simp_all add: snap_core_def comp_def)
  with \<open>map snapshot_key (ld_snapshots db3) = map snapshot_key (ld_snapshots db)\<close>
  show "map fst (map snap_core (ld_snapshots db')) = map fst (map snap_core (ld_snapshots db))"
    by (simp only: core)
  have none: "\<forall>s \<in> set (ld_snapshots db). snapshot_key s \<noteq> (user, goal)" if "snapshot = None"
    using that assms(3) by (auto simp: snapshot_of_def find_None)
  show "\<forall>(k, i, v) \<in> set (map snap_core (ld_snapshots db')). k = (user, goal) \<and> i = lp_id plan \<and> v = lp_version plan
       \<or> (k, i, v) \<in> set (map snap_core (ld_snapshots db)) \<and> k \<noteq> (user, goal)"
  proof (cases snapshot)
    case None
    with none show ?thesis by (force simp: core db3 snap_core_def)
  next
    case (Some s)
    then have "snapshot_key s = (user, goal)" using assms(3) snapshot_of_Some by metis
    with Some show ?thesis by (auto simp: core db3 snap_core_def set_row_def)
  qed
qed

lemma adj_cores:
  assumes "adjustment_of db i = Some row" "distinct (map ad_id (ld_adjustments db))" "adj_core row' = adj_core row"
  shows "map adj_core (set_row ad_id row' (ld_adjustments db)) = map adj_core (ld_adjustments db)"
  using assms by (intro set_row_core) (auto simp: adjustment_of_def adj_core_def dest: find_Some_in)

lemma put_adjustment_ok:
  assumes "db_plans_ok db" "adjustment_of db i = Some row" "adj_core row' = adj_core row"
  shows "db_plans_ok (put_adjustment row' db)"
  using assms adj_cores [OF assms(2) plans_ok_keys(2) [OF assms(1)] assms(3)] by simp

lemma apply_keeps_plans:
  assumes "apply_plan_adjustment X i user goal request lang db = (r, db')" "db_plans_ok db"
    "\<forall>p \<in> set (ld_plans db). lp_id p \<noteq> lit ''plan-'' @ lx_uuid X 1"
    "\<forall>a \<in> set (ld_adjustments db). ad_previous a \<noteq> Some (lit ''plan-'' @ lx_uuid X 1)"
  shows "db_plans_ok db'"
  using assms(1)
proof (cases rule: apply_cases)
  case same
  with assms(2) show ?thesis by simp
next
  case (closed row row')
  with put_adjustment_ok [OF assms(2)] show ?thesis by blast
next
  case (applied row p plan tasks)
  let ?a = "claimed_row X request ''accept'' row"
  obtain a' db'' where commit: "commit_application X ?a (snapshot_of db user goal) p plan tasks db = (a', db'')"
    by force
  with applied have db': "db'' = db'" by simp
  note commit = commit [unfolded db'] note fields = commit_fields [OF commit]
  note snaps = commit_snapshots [OF commit plans_ok_keys(1) [OF assms(2)] refl]
  from created_facts [OF applied(7)] have plan: "plan = new_plan_of X db p ?a" by simp
  have "adj_core ?a = adj_core row" by (simp add: claimed_row_def adj_core_def)
  with fields(5) have core: "adj_core a' = adj_core row" by simp
  have row: "row \<in> set (ld_adjustments db)" using applied(1) by (auto simp: adjustment_of_def dest: find_Some_in)
  have own: "owner p = (user, goal)"
  proof (cases "snapshot_of db user goal")
    case None
    then have "ad_previous row = Some (lp_id p)" by (rule applied(9))
    with row applied(3-5) assms(2) show ?thesis
      by (force simp: plans_ok_def adj_core_def)
  next
    case (Some s)
    with applied(8) have "lp_id p = sn_plan s" by simp
    moreover have "snap_core s \<in> set (map snap_core (ld_snapshots db))" "snapshot_key s = (user, goal)"
      using snapshot_of_Some [OF Some] by auto
    ultimately obtain x where x: "x \<in> set (ld_plans db)" "lp_id x = lp_id p" "owner x = (user, goal)"
      using assms(2) by (fastforce simp: plans_ok_def snap_core_def)
    moreover have "distinct (map lp_id (ld_plans db))" using assms(2) by (simp add: plans_ok_def)
    ultimately show ?thesis using applied(5) by (metis (mono_tags) distinct_map inj_on_def)
  qed
  have "plans_ok (set_row lp_id (p\<lparr>lp_status := ''replaced''\<rparr>) (ld_plans db) @ [plan])
      (map snap_core (ld_snapshots db')) (map adj_core (ld_adjustments db))"
  proof (rule plans_ok_replace [OF assms(2) applied(5,6)])
    show "owner plan = owner p" "active_plan plan" by (simp_all add: plan new_plan_of_def owner_def)
    show "lp_id plan \<notin> lp_id ` set (ld_plans db)" using assms(3) by (auto simp: plan new_plan_of_def)
    show "\<forall>x \<in> set (ld_plans db). owner x = owner p \<longrightarrow> lp_version x < lp_version plan"
    proof safe
      fix x assume x: "x \<in> set (ld_plans db)" "owner x = owner p"
      then show "lp_version x < lp_version plan"
        using next_version_fresh [OF x(1), of user goal] own by (simp add: plan new_plan_of_def owner_def)
    qed
    show "\<forall>(_, _, i) \<in> set (map adj_core (ld_adjustments db)). i \<noteq> Some (lp_id plan)"
      using assms(4) by (auto simp: plan new_plan_of_def adj_core_def)
    show "map fst (map snap_core (ld_snapshots db')) = map fst (map snap_core (ld_snapshots db))"
      by (rule snaps(1))
    show "\<forall>(k, i, v) \<in> set (map snap_core (ld_snapshots db')). k = owner p \<and> i = lp_id plan \<and> v = lp_version plan
       \<or> (k, i, v) \<in> set (map snap_core (ld_snapshots db)) \<and> k \<noteq> owner p"
      using snaps(2) by (simp add: own)
  qed
  then show ?thesis
    using adj_cores [OF applied(1) plans_ok_keys(2) [OF assms(2)] core] by (simp add: fields)
qed

subsection \<open>Tasks and sessions\<close>

definition open_key :: "learning_session \<Rightarrow> ustr \<times> ustr" where
  "open_key s = (se_user s, se_task s)"

abbreviation open_now :: "learning_session \<Rightarrow> bool" where
  "open_now s \<equiv> se_status s = ''active''"

abbreviation running :: "plan_task \<Rightarrow> bool" where
  "running t \<equiv> tk_status t \<in> {lit ''active'', lit ''completing''}"

definition tasks_ok :: "plan_task list \<Rightarrow> learning_session list \<Rightarrow> bool" where
  "tasks_ok ts ss \<longleftrightarrow>
     distinct (map tk_id ts) \<and> distinct (map se_id ss) \<and> distinct (map open_key (filter open_now ss))
   \<and> (\<forall>s \<in> set ss. se_task s \<in> tk_id ` set ts)
   \<and> (\<forall>t \<in> set ts. running t \<longleftrightarrow> (tk_user t, tk_id t) \<in> open_key ` set (filter open_now ss))"

abbreviation db_tasks_ok :: "learning_db \<Rightarrow> bool" where
  "db_tasks_ok db \<equiv> tasks_ok (ld_tasks db) (ld_sessions db)"

lemma tasks_ok_add:
  assumes "tasks_ok ts ss" "\<forall>t \<in> set new. tk_status t = lit ''pending''" "distinct (map tk_id new)"
    "tk_id ` set new \<inter> tk_id ` set ts = {}"
  shows "tasks_ok (ts @ new) ss"
proof -
  have "running t \<longleftrightarrow> (tk_user t, tk_id t) \<in> open_key ` set (filter open_now ss)" if "t \<in> set (ts @ new)" for t
  proof (cases "t \<in> set ts")
    case False
    with that have "t \<in> set new" by simp
    moreover from this have "tk_id t \<notin> se_task ` set ss"
      using assms(1,4) by (auto simp: tasks_ok_def)
    ultimately show ?thesis using assms(2) by (auto simp: open_key_def image_iff)
  qed (use assms(1) in \<open>simp add: tasks_ok_def\<close>)
  moreover have "distinct (map tk_id (ts @ new))"
    using assms by (auto simp: tasks_ok_def)
  ultimately show ?thesis using assms(1) by (simp add: tasks_ok_def) blast
qed

text \<open>A task is given a status of the same kind.\<close>

lemma set_task:
  assumes "distinct (map tk_id ts)" "t \<in> set ts" "tk_id t' = tk_id t" "x \<in> set (set_row tk_id t' ts)"
  shows "x = t' \<or> x \<in> set ts \<and> tk_id x \<noteq> tk_id t"
  using assms by (auto simp: set_row_def)

lemma tasks_ok_status:
  assumes "tasks_ok ts ss" "t \<in> set ts" "tk_id t' = tk_id t" "tk_user t' = tk_user t" "running t' = running t"
  shows "tasks_ok (set_row tk_id t' ts) ss"
proof -
  have ids: "tk_id ` set (set_row tk_id t' ts) = tk_id ` set ts"
    by (metis list.set_map map_key_set_row)
  have dist: "distinct (map tk_id ts)" using assms(1) by (simp add: tasks_ok_def)
  have "running x \<longleftrightarrow> (tk_user x, tk_id x) \<in> open_key ` set (filter open_now ss)" if "x \<in> set (set_row tk_id t' ts)" for x
    using set_task [OF dist assms(2,3) that] assms by (auto simp: tasks_ok_def)
  with assms(1) ids dist show ?thesis by (simp add: tasks_ok_def)
qed

lemma tasks_ok_start:
  assumes "tasks_ok ts ss" "t \<in> set ts" "\<not> running t" "t' = t\<lparr>tk_status := lit ''active''\<rparr>"
    "open_now s" "open_key s = (tk_user t, tk_id t)" "se_id s \<notin> se_id ` set ss"
  shows "tasks_ok (set_row tk_id t' ts) (ss @ [s])"
proof -
  have dist: "distinct (map tk_id ts)" using assms(1) by (simp add: tasks_ok_def)
  have ids: "tk_id ` set (set_row tk_id t' ts) = tk_id ` set ts"
    by (metis list.set_map map_key_set_row)
  have t': "tk_id t' = tk_id t" "tk_user t' = tk_user t" "running t'" using assms(4) by simp_all
  have fresh: "(tk_user t, tk_id t) \<notin> open_key ` set (filter open_now ss)"
    using assms(1-3) by (auto simp: tasks_ok_def)
  have "running x \<longleftrightarrow> (tk_user x, tk_id x) \<in> open_key ` set (filter open_now (ss @ [s]))"
    if "x \<in> set (set_row tk_id t' ts)" for x
    using set_task [OF dist assms(2) t'(1) that] assms(1,5,6) t' by (auto simp: tasks_ok_def)
  with assms ids fresh dist show ?thesis
    by (auto simp: tasks_ok_def open_key_def)
qed

lemma tasks_ok_finish:
  assumes "tasks_ok ts ss" "t \<in> set ts" "running t" "tk_id t' = tk_id t" "tk_user t' = tk_user t" "\<not> running t'"
    "s \<in> set ss" "open_now s" "open_key s = (tk_user t, tk_id t)" "s' = close_session X evidence s"
  shows "tasks_ok (set_row tk_id t' ts) (set_row se_id s' ss)"
proof -
  have dist: "distinct (map tk_id ts)" "distinct (map se_id ss)" using assms(1) by (simp_all add: tasks_ok_def)
  have ids: "tk_id ` set (set_row tk_id t' ts) = tk_id ` set ts"
    by (metis list.set_map map_key_set_row)
  have s': "se_id s' = se_id s" "\<not> open_now s'" "se_task s' = se_task s" using assms(10) by (simp_all add: close_session_def)
  have opened: "filter open_now (set_row se_id s' ss) = filter (\<lambda>x. open_now x \<and> se_id x \<noteq> se_id s) ss"
    by (induction ss) (auto simp: set_row_def s')
  have inj: "inj_on open_key (set (filter open_now ss))" using assms(1) by (simp add: tasks_ok_def distinct_map)
  have only: "x = s" if "x \<in> set ss" "se_id x = se_id s" for x
    using dist(2) that assms(7) by (metis (mono_tags) distinct_map inj_on_def)
  have keys: "open_key ` set (filter open_now (set_row se_id s' ss)) = open_key ` set (filter open_now ss) - {open_key s}"
  proof -
    have "set (filter open_now (set_row se_id s' ss)) = set (filter open_now ss) - {s}"
      unfolding opened using only by auto
    moreover have "open_key ` (set (filter open_now ss) - {s}) = open_key ` set (filter open_now ss) - open_key ` {s}"
      using inj assms(7,8) by (intro inj_on_image_set_diff [where C = "set (filter open_now ss)"]) auto
    ultimately show ?thesis by simp
  qed
  have "running x \<longleftrightarrow> (tk_user x, tk_id x) \<in> open_key ` set (filter open_now (set_row se_id s' ss))"
    if "x \<in> set (set_row tk_id t' ts)" for x
    using set_task [OF dist(1) assms(2,4) that] assms(1,4-6,9)
    unfolding keys by (auto simp: tasks_ok_def)
  moreover have "distinct (map open_key (filter open_now (set_row se_id s' ss)))"
    unfolding opened using assms(1) by (auto simp: tasks_ok_def distinct_map intro: inj_on_subset)
  moreover have "se_task x \<in> tk_id ` set ts" if "x \<in> set (set_row se_id s' ss)" for x
    using that assms(1,7) s' by (auto simp: tasks_ok_def set_row_def split: if_splits)
  ultimately show ?thesis using dist ids by (simp add: tasks_ok_def)
qed

text \<open>The created tasks take consecutive fresh ids.\<close>

definition ids_from :: "learning_ports \<Rightarrow> nat \<Rightarrow> plan_task list \<Rightarrow> bool" where
  "ids_from X m ts \<longleftrightarrow> (\<forall>i < length ts. tk_id (ts ! i) = lit ''task-'' @ lx_uuid X (m + i))"

lemma ids_from_append [simp]: "ids_from X m (xs @ ys) \<longleftrightarrow> ids_from X m xs \<and> ids_from X (m + length xs) ys"
proof
  assume l: "ids_from X m (xs @ ys)"
  have "tk_id (xs ! i) = lit ''task-'' @ lx_uuid X (m + i)" if "i < length xs" for i
    using l that by (auto simp: ids_from_def nth_append dest: spec [of _ i])
  moreover have "tk_id (ys ! i) = lit ''task-'' @ lx_uuid X (m + length xs + i)" if "i < length ys" for i
    using l that by (auto simp: ids_from_def nth_append add.assoc dest: spec [of _ "length xs + i"])
  ultimately show "ids_from X m xs \<and> ids_from X (m + length xs) ys" by (simp add: ids_from_def)
next
  assume "ids_from X m xs \<and> ids_from X (m + length xs) ys"
  then show "ids_from X m (xs @ ys)"
    by (auto simp: ids_from_def nth_append not_less add.assoc)
qed

lemma made_ids [simp]:
  "tk_id (node_task X lang q a kind d m pr k n) = lit ''task-'' @ lx_uuid X k"
  "tk_id (clone_plan_task X lang db q a d' mu k u) = lit ''task-'' @ lx_uuid X k"
  by (simp_all add: node_task_def clone_plan_task_def add_plan_task_def Let_def split: prod.split)

lemma created_ids:
  assumes "create_applied_plan_tasks X lang db p a snapshot = Inr (plan, tasks)"
  shows "ids_from X 2 tasks"
  using assms
proof (cases rule: created_cases)
  case (1 reviews m)
  from 1(1) have "ids_from X 2 reviews"
    by (cases rule: review_tasks_cases) (simp_all add: ids_from_def)
  moreover have "ids_from X (2 + r) (copied_tasks X lang db plan a r m ts)" for r ts
    by (simp add: copied_tasks_def ids_from_def)
  moreover have "ids_from X (2 + length (cs @ ds)) (next_tasks X lang db p plan a (cs @ ds))" for cs ds
    by (simp add: next_tasks_def ids_from_def split: option.split)
  ultimately show ?thesis
    unfolding 1(4) ids_from_append length_append add.assoc by blast
qed

lemma created_distinct:
  assumes "create_applied_plan_tasks X lang db p a snapshot = Inr (plan, tasks)" "inj (lx_uuid X)"
  shows "distinct (map tk_id tasks)"
  using created_ids [OF assms(1)] assms(2) by (auto simp: distinct_conv_nth ids_from_def inj_def)

subsection \<open>Runs\<close>

datatype learning_op =
    ApplyAdjustment learning_ports ustr ustr ustr "ustr option" ustr
  | RejectAdjustment learning_ports ustr ustr ustr "ustr option"
  | StartTask learning_ports ustr ustr
  | CompleteTask learning_ports "learning_db \<Rightarrow> port_error option" "learning_db \<Rightarrow> engine_run" ustr ustr metadata

fun perform :: "learning_op \<Rightarrow> learning_db \<Rightarrow> learning_db" where
  "perform (ApplyAdjustment X i user goal request lang) db = snd (apply_plan_adjustment X i user goal request lang db)"
| "perform (RejectAdjustment X i user goal request) db = snd (reject_plan_adjustment X i user goal request db)"
| "perform (StartTask X user i) db = snd (start_task X user i db)"
| "perform (CompleteTask X thread engine user i evidence) db = snd (complete_task X thread engine user i evidence db)"

text \<open>What an operation relies on: its ids are fresh, and an adjustment the engine returns is new, still
  proposed, and names a plan of its own goal.\<close>

definition engine_ok :: "learning_db \<Rightarrow> engine_run \<Rightarrow> bool" where
  "engine_ok db run \<longleftrightarrow> (case run of
     EngineReturned _ (Some p) \<Rightarrow> pa_id p \<notin> ad_id ` set (ld_adjustments db) \<and> pa_status p = Proposed
       \<and> (\<forall>i \<in> set_option (pa_previous p). \<forall>q \<in> set (ld_plans db). lp_id q = i \<longrightarrow> owner q = (pa_user p, pa_goal p))
   | _ \<Rightarrow> True)"

fun op_ok :: "learning_db \<Rightarrow> learning_op \<Rightarrow> bool" where
  "op_ok db (ApplyAdjustment X i user goal request lang) \<longleftrightarrow>
     (\<forall>p \<in> set (ld_plans db). lp_id p \<noteq> lit ''plan-'' @ lx_uuid X 1)
   \<and> (\<forall>a \<in> set (ld_adjustments db). ad_previous a \<noteq> Some (lit ''plan-'' @ lx_uuid X 1))
   \<and> inj (lx_uuid X) \<and> (\<forall>t \<in> set (ld_tasks db). \<forall>k. tk_id t \<noteq> lit ''task-'' @ lx_uuid X k)"
| "op_ok db (RejectAdjustment X i user goal request) \<longleftrightarrow> True"
| "op_ok db (StartTask X user i) \<longleftrightarrow> (\<forall>s \<in> set (ld_sessions db). se_id s \<noteq> lit ''session-'' @ lx_uuid X 0)"
| "op_ok db (CompleteTask X thread engine user i evidence) \<longleftrightarrow> (\<forall>d. engine_ok db (engine d))"

inductive learning_run :: "learning_db \<Rightarrow> learning_db \<Rightarrow> bool" where
  run_nothing: "learning_run db db"
| run_op: "learning_run db db' \<Longrightarrow> op_ok db' a \<Longrightarrow> learning_run db (perform a db')"

lemma owned_task_in: "owned_task db user i = Some t \<Longrightarrow> t \<in> set (ld_tasks db) \<and> tk_id t = i \<and> tk_user t = user"
  by (auto simp: owned_task_def task_of_def split: option.splits if_splits dest: find_Some_in)

lemma active_session_in: "active_session db user i = Some s \<Longrightarrow> s \<in> set (ld_sessions db) \<and> open_now s \<and> open_key s = (user, i)"
  by (auto simp: active_session_def open_key_def dest: find_Some_in)

lemma start_cases:
  assumes "start_task X user i db = (r, db')"
  obtains (same) "db' = db"
  | (begun) t where "owned_task db user i = Some t" "tk_status t = lit ''pending''" "db' = begin_task X user t db" "is_ok r"
  using assms by (force simp: start_task_def split: option.splits if_splits)

lemma complete_cases:
  assumes "complete_task X thread engine user i evidence db = (r, db')"
  obtains (same) "db' = db"
  | (restored) t s where "owned_task db user i = Some t" "tk_status t = lit ''active''" "active_session db user i = Some s"
      "db' = put_task (t\<lparr>tk_status := lit ''active''\<rparr>) (put_task (t\<lparr>tk_status := lit ''completing''\<rparr>) db)" "\<not> is_ok r"
  | (died) t s where "owned_task db user i = Some t" "tk_status t = lit ''active''" "active_session db user i = Some s"
      "db' = put_task (t\<lparr>tk_status := lit ''completing''\<rparr>) db" "r = Inl TaskProcessDied"
  | (completed) t s d adj where "owned_task db user i = Some t" "tk_status t = lit ''active''" "active_session db user i = Some s"
      "engine (finish_task X user evidence t s (put_task (t\<lparr>tk_status := lit ''completing''\<rparr>) db)) = EngineReturned d adj"
      "db' = store_adjustment X adj (finish_task X user evidence t s (put_task (t\<lparr>tk_status := lit ''completing''\<rparr>) db))" "is_ok r"
proof (cases "db' = db")
  case False
  then obtain t where t: "owned_task db user i = Some t" "tk_status t = lit ''active''"
    using assms by (auto simp: complete_task_def split: option.splits if_splits)
  from False assms t obtain s where s: "active_session db user i = Some s"
    by (auto simp: complete_task_def is_done_def split: option.splits if_splits)
  from False assms t s show ?thesis
    by (auto simp: complete_task_def is_done_def Let_def split: option.splits if_splits engine_run.splits
        intro: restored died completed)
qed (rule same)

subsection \<open>Invariants of runs\<close>

lemma owned_in: "adjustment_of db i = Some row \<Longrightarrow> row \<in> set (ld_adjustments db) \<and> ad_id row = i"
  by (auto simp: adjustment_of_def dest: find_Some_in)

lemma begin_fields [simp]:
  "ld_plans (begin_task X user t db) = ld_plans db" "ld_adjustments (begin_task X user t db) = ld_adjustments db"
  "ld_tasks (begin_task X user t db) = set_row tk_id (t\<lparr>tk_status := lit ''active''\<rparr>) (ld_tasks db)"
  "ld_sessions (begin_task X user t db) = ld_sessions db @ [open_session X user t]"
  by (simp_all add: begin_task_def)

lemma begin_core: "distinct (map snapshot_key (ld_snapshots db)) \<Longrightarrow>
    map snap_core (ld_snapshots (begin_task X user t db)) = map snap_core (ld_snapshots db)"
  unfolding begin_task_def by (subst refresh_activity_core) simp_all

lemma finish_fields [simp]:
  "ld_plans (finish_task X user m t s db) = ld_plans db" "ld_adjustments (finish_task X user m t s db) = ld_adjustments db"
  "ld_tasks (finish_task X user m t s db) = set_row tk_id (t\<lparr>tk_status := lit ''completed''\<rparr>) (ld_tasks db)"
  "ld_sessions (finish_task X user m t s db) = set_row se_id (close_session X m s) (ld_sessions db)"
  by (simp_all add: finish_task_def Let_def)

lemma finish_core: "distinct (map snapshot_key (ld_snapshots db)) \<Longrightarrow>
    map snap_core (ld_snapshots (finish_task X user m t s db)) = map snap_core (ld_snapshots db)"
  unfolding finish_task_def Let_def by (subst refresh_activity_core) simp_all

lemma store_fields [simp]:
  "ld_plans (store_adjustment X adj db) = ld_plans db" "ld_tasks (store_adjustment X adj db) = ld_tasks db"
  "ld_sessions (store_adjustment X adj db) = ld_sessions db"
  "ld_adjustments (store_adjustment X adj db) = ld_adjustments db @ (case adj of None \<Rightarrow> [] | Some p \<Rightarrow> [adjustment_record X p])"
  by (simp_all add: store_adjustment_def split: option.split)

lemma store_core: "distinct (map snapshot_key (ld_snapshots db)) \<Longrightarrow>
    map snap_core (ld_snapshots (store_adjustment X adj db)) = map snap_core (ld_snapshots db)"
  by (cases adj) (simp_all add: store_adjustment_def refresh_snapshot_core)

lemma set_row_twice [simp]:
  "key r' = key r \<Longrightarrow> set_row key r' (set_row key r rs) = set_row key r' rs"
  by (auto simp: set_row_def)

lemma plans_ok_add:
  assumes "plans_ok ps ss as" "fst a \<notin> fst ` set as" "\<forall>i \<in> set_option (snd (snd a)). \<forall>p \<in> set ps. lp_id p = i \<longrightarrow> owner p = fst (snd a)"
  shows "plans_ok ps ss (as @ [a])"
  using assms by (cases a) (auto simp: plans_ok_def)

text \<open>The first state that completing a task passes through, and the last.\<close>

lemma complete_keeps_plans:
  assumes "complete_task X thread engine user i evidence db = (r, db')" "db_plans_ok db" "\<forall>d. engine_ok db (engine d)"
  shows "db_plans_ok db'"
  using assms(1)
proof (cases rule: complete_cases)
  case (completed t s d adj)
  note keys = plans_ok_keys(1) [OF assms(2)]
  let ?db1 = "put_task (t\<lparr>tk_status := lit ''completing''\<rparr>) db"
  let ?db2 = "finish_task X user evidence t s ?db1"
  have fin: "map snap_core (ld_snapshots ?db2) = map snap_core (ld_snapshots db)"
    using finish_core [of ?db1] keys by simp
  then have "map snapshot_key (ld_snapshots ?db2) = map snapshot_key (ld_snapshots db)"
    by (metis (no_types, lifting) comp_apply fst_conv list.map_comp map_eq_conv snap_core_def)
  then have "map snap_core (ld_snapshots db') = map snap_core (ld_snapshots db)"
    using completed(5) store_core [of ?db2] fin keys by simp
  moreover have "plans_ok (ld_plans db) (map snap_core (ld_snapshots db)) (map adj_core (ld_adjustments db'))"
  proof (cases adj)
    case None
    with assms(2) completed(5) show ?thesis by simp
  next
    case (Some p)
    have "engine_ok db (EngineReturned d adj)" using assms(3) completed(4) by metis
    with Some assms(2) completed(5) show ?thesis
      by (auto simp: engine_ok_def adjustment_record_def adj_core_def intro!: plans_ok_add)
  qed
  ultimately show ?thesis using completed(5) by simp
qed (use assms(2) in simp_all)

lemma complete_keeps_tasks:
  assumes "complete_task X thread engine user i evidence db = (r, db')" "db_tasks_ok db"
  shows "db_tasks_ok db'"
  using assms(1)
proof (cases rule: complete_cases)
  case (restored t s)
  with assms(2) owned_task_in [OF restored(1)] show ?thesis
    by (auto intro!: tasks_ok_status [where t = t])
next
  case (died t s)
  with assms(2) owned_task_in [OF died(1)] show ?thesis
    by (auto intro!: tasks_ok_status [where t = t])
next
  case (completed t s d adj)
  note t = owned_task_in [OF completed(1)] and s = active_session_in [OF completed(3)]
  have "tasks_ok (set_row tk_id (t\<lparr>tk_status := lit ''completed''\<rparr>) (ld_tasks db)) (set_row se_id (close_session X evidence s) (ld_sessions db))"
    by (rule tasks_ok_finish [OF assms(2), where t = t]) (use t s completed(2) in simp_all)
  with completed(5) show ?thesis by simp
qed (use assms(2) in simp)

lemma perform_keeps:
  assumes "db_plans_ok db" "db_tasks_ok db" "op_ok db a"
  shows "db_plans_ok (perform a db) \<and> db_tasks_ok (perform a db)"
proof (cases a)
  case (ApplyAdjustment X i user goal request lang)
  obtain r db' where out: "apply_plan_adjustment X i user goal request lang db = (r, db')" by force
  have "db_plans_ok db'"
    by (rule apply_keeps_plans [OF out assms(1)]) (use assms(3) ApplyAdjustment in auto)
  moreover from out have "db_tasks_ok db'"
  proof (cases rule: apply_cases)
    case (applied row p plan tasks)
    let ?a = "claimed_row X request ''accept'' row"
    obtain a' db'' where commit: "commit_application X ?a (snapshot_of db user goal) p plan tasks db = (a', db'')"
      by force
    have "tasks_ok (ld_tasks db @ tasks) (ld_sessions db)"
    proof (rule tasks_ok_add [OF assms(2)])
      show "\<forall>t \<in> set tasks. tk_status t = lit ''pending''"
        using created_facts(2) [OF applied(7)] by (simp add: new_task_def)
      show "distinct (map tk_id tasks)"
        using assms(3) ApplyAdjustment by (intro created_distinct [OF applied(7)]) simp
      have "tk_id t \<noteq> tk_id u" if t: "t \<in> set tasks" and u: "u \<in> set (ld_tasks db)" for t u
      proof -
        obtain k where "tk_id t = lit ''task-'' @ lx_uuid X k"
          using created_facts(2) [OF applied(7)] t by (auto simp: new_task_def)
        moreover have "tk_id u \<noteq> lit ''task-'' @ lx_uuid X k"
          using assms(3) ApplyAdjustment u by simp
        ultimately show ?thesis by simp
      qed
      then show "tk_id ` set tasks \<inter> tk_id ` set (ld_tasks db) = {}" by auto
    qed
    with commit applied show ?thesis by (simp add: commit_fields [OF commit])
  qed (use assms(2) in simp_all)
  ultimately show ?thesis using out ApplyAdjustment by simp
next
  case (RejectAdjustment X i user goal request)
  obtain r db' where out: "reject_plan_adjustment X i user goal request db = (r, db')" by force
  then have "db_plans_ok db' \<and> db_tasks_ok db'"
  proof (cases rule: reject_cases)
    case (rejected row)
    have "adj_core ((claimed_row X request ''reject'' row)\<lparr>ad_status := ''rejected''\<rparr>) = adj_core row"
      by (simp add: adj_core_def claimed_row_def)
    with rejected put_adjustment_ok [OF assms(1) rejected(1)] assms(2) show ?thesis by simp
  qed (use assms in simp)
  with out RejectAdjustment show ?thesis by simp
next
  case (StartTask X user i)
  obtain r db' where out: "start_task X user i db = (r, db')" by force
  then have "db_plans_ok db' \<and> db_tasks_ok db'"
  proof (cases rule: start_cases)
    case (begun t)
    note t = owned_task_in [OF begun(1)]
    have "tasks_ok (set_row tk_id (t\<lparr>tk_status := lit ''active''\<rparr>) (ld_tasks db)) (ld_sessions db @ [open_session X user t])"
      by (rule tasks_ok_start [OF assms(2)]) (use t begun(2) assms(3) StartTask in \<open>auto simp: open_session_def open_key_def\<close>)
    with begun(3) assms(1) begin_core [OF plans_ok_keys(1) [OF assms(1)]] show ?thesis by simp
  qed (use assms in simp)
  with out StartTask show ?thesis by simp
next
  case (CompleteTask X thread engine user i evidence)
  obtain r db' where out: "complete_task X thread engine user i evidence db = (r, db')" by force
  with complete_keeps_plans [OF out assms(1)] complete_keeps_tasks [OF out assms(2)] assms(3) CompleteTask
  show ?thesis by simp
qed

lemma run_keeps:
  "learning_run db db' \<Longrightarrow> db_plans_ok db \<Longrightarrow> db_tasks_ok db \<Longrightarrow> db_plans_ok db' \<and> db_tasks_ok db'"
  by (induction rule: learning_run.induct) (auto dest: perform_keeps)

text \<open>C35. Whatever requests follow one another and however the engine ends, a user has at most one active
  plan for a goal, the snapshot of a goal names its active plan with its version, versions of a goal
  never repeat, and a task is active or being completed exactly while its user has an open session on
  it, of which there is at most one.
\<close>
theorem learning_invariant:
  assumes "learning_run db db'" "db_plans_ok db" "db_tasks_ok db"
  shows "db_plans_ok db' \<and> db_tasks_ok db'"
  using run_keeps [OF assms] .

definition sample_lx :: learning_ports where
  "sample_lx = \<lparr>lx_replan = sample_replan_env, lx_hash = (\<lambda>m. [length m]), lx_date = (\<lambda>_. []), lx_iso = (\<lambda>_. []),
     lx_titled = (\<lambda>s. s), lx_now = 7200000000, lx_today = 3, lx_uuid = (\<lambda>k. replicate k 65)\<rparr>"

definition sample_plan :: learning_plan where
  "sample_plan = \<lparr>lp_id = lit ''p1'', lp_user = lit ''u'', lp_goal = lit ''g'', lp_curriculum = None, lp_version = 1,
     lp_status = ''active'', lp_by = ''planner'', lp_rationale = [], lp_from = 0, lp_to = 9, lp_json = []\<rparr>"

definition sample_task :: plan_task where
  "sample_task = \<lparr>tk_id = lit ''t1'', tk_plan = lit ''p1'', tk_user = lit ''u'', tk_goal = lit ''g'', tk_node = lit ''n1'',
     tk_code = lit ''limits'', tk_title = lit ''Study limits'', tk_type = lit ''study'', tk_objective = [], tk_date = 0, tk_day = 1,
     tk_minutes = 45, tk_priority = 1, tk_status = lit ''pending'', tk_payload = [], tk_origin = ''planner''\<rparr>"

definition sample_row :: adjustment_row where
  "sample_row = \<lparr>ad_id = lit ''a1'', ad_user = lit ''u'', ad_goal = lit ''g'', ad_previous = Some (lit ''p1''), ad_new = None,
     ad_trigger = ''manual'', ad_decision = ''reduce'', ad_evidence = [], ad_before = [], ad_after = [],
     ad_patch = [(lit ''load_multiplier'', JFloat (8 / 10))], ad_summary = [], ad_rationale = [], ad_status = ''proposed'',
     ad_policy = ''v1'', ad_automation = True, ad_base = Some 1, ad_expires = None, ad_risk = ''medium'', ad_confirm = True,
     ad_request = None, ad_hash = None, ad_created = 0\<rparr>"

definition sample_snapshot :: state_snapshot where
  "sample_snapshot = \<lparr>sn_user = lit ''u'', sn_goal = lit ''g'', sn_plan = lit ''p1'', sn_version = 1, sn_latest = None,
     sn_mastery = [], sn_state = [], sn_generated = []\<rparr>"

definition sample_learning_db :: "adjustment_row list \<Rightarrow> learning_db" where
  "sample_learning_db rows = \<lparr>ld_goals = [(lit ''g'', lit ''u'')], ld_nodes = [], ld_plans = [sample_plan], ld_tasks = [sample_task],
     ld_adjustments = rows, ld_snapshots = [sample_snapshot], ld_sessions = [], ld_events = [], ld_saved = []\<rparr>"

lemmas sample_learning_defs = sample_learning_db_def sample_snapshot_def sample_row_def sample_task_def sample_plan_def sample_lx_def

definition sample_apply :: learning_op where
  "sample_apply = ApplyAdjustment sample_lx (lit ''a1'') (lit ''u'') (lit ''g'') (Some (lit ''r1'')) (lit ''en-US'')"

lemma sample_learning_facts:
  assumes "rows = [sample_row] \<or> rows = [sample_row\<lparr>ad_status := ''rejected''\<rparr>]"
  shows "learning_run (sample_learning_db rows) (perform sample_apply (sample_learning_db rows))"
    "db_plans_ok (sample_learning_db rows)" "db_tasks_ok (sample_learning_db rows)"
proof -
  have "inj (lx_uuid sample_lx)" by (auto simp: inj_def sample_lx_def dest: arg_cong [of _ _ length])
  then have "op_ok (sample_learning_db rows) sample_apply"
    using assms by (simp add: sample_apply_def) (auto simp: sample_learning_defs lit_def)
  then show "learning_run (sample_learning_db rows) (perform sample_apply (sample_learning_db rows))"
    by (rule run_op [OF run_nothing])
  show "db_plans_ok (sample_learning_db rows)" "db_tasks_ok (sample_learning_db rows)"
    using assms
    by (auto simp: plans_ok_def tasks_ok_def snap_core_def adj_core_def owner_def open_key_def sample_learning_defs lit_def)
qed

lemma learning_invariant_witness:
  "db_plans_ok (perform sample_apply (sample_learning_db [sample_row]))
     \<and> db_tasks_ok (perform sample_apply (sample_learning_db [sample_row]))"
  using learning_invariant [of "sample_learning_db [sample_row]"] sample_learning_facts [of "[sample_row]"] by blast

end
