(* ===== verification/Learning_Decisions.thy ===== *)
theory Learning_Decisions
  imports Learning_Runs
begin

text \<open>
  What the requests on plan adjustments and tasks decide, over all runs of \<open>Learning_Runs\<close>: a decided
  adjustment is final and applied at most once, a task only moves forward, an accepted decision can be
  repeated, and a new plan carries the open work of the old one.
\<close>

subsection \<open>Decisions are final\<close>

definition decided :: "adjustment_row \<Rightarrow> bool" where
  "decided a \<longleftrightarrow> ad_status a \<in> {''applied'', ''rejected'', ''expired'', ''superseded''}"

lemma put_other:
  assumes "distinct (map ad_id rows)" "row \<in> set rows" "x \<in> set rows" "x \<noteq> row" "ad_id row' = ad_id row"
  shows "x \<in> set (set_row ad_id row' rows)"
  using assms by (auto simp: set_row_def distinct_map inj_on_def intro!: image_eqI [of _ _ x])

lemma perform_keeps_decided:
  assumes "db_plans_ok db" "x \<in> set (ld_adjustments db)" "decided x"
  shows "x \<in> set (ld_adjustments (perform a db))"
proof -
  note dist = plans_ok_keys(2) [OF assms(1)]
  have put: "x \<in> set (set_row ad_id row' (ld_adjustments db))"
    if "adjustment_of db i = Some row" "ad_status row = ''proposed''" "ad_id row' = ad_id row" for i row row'
  proof -
    have "x \<noteq> row" using that(2) assms(3) by (auto simp: decided_def)
    with put_other [OF dist _ assms(2) _ that(3)] owned_in [OF that(1)] show ?thesis by blast
  qed
  have ids: "ad_id row' = ad_id row" if "adj_core row' = adj_core row" for row row'
    using that by (simp add: adj_core_def)
  show ?thesis
  proof (cases a)
    case (ApplyAdjustment X i user goal request lang)
    obtain r db' where out: "apply_plan_adjustment X i user goal request lang db = (r, db')" by force
    then have "x \<in> set (ld_adjustments db')"
    proof (cases rule: apply_cases)
      case (closed row row')
      with put [OF closed(1,2) ids] show ?thesis by simp
    next
      case (applied row p plan tasks)
      let ?a = "claimed_row X request ''accept'' row"
      obtain a' db'' where commit: "commit_application X ?a (snapshot_of db user goal) p plan tasks db = (a', db'')"
        by force
      have "adj_core ?a = adj_core row" by (simp add: claimed_row_def adj_core_def)
      with commit_fields(5) [OF commit] have "ad_id a' = ad_id row" by (simp add: adj_core_def)
      from put [OF applied(1,2) this] commit_fields(4) [OF commit] applied(10) commit show ?thesis by simp
    qed (use assms(2) in simp)
    with out ApplyAdjustment show ?thesis by simp
  next
    case (RejectAdjustment X i user goal request)
    obtain r db' where out: "reject_plan_adjustment X i user goal request db = (r, db')" by force
    then have "x \<in> set (ld_adjustments db')"
    proof (cases rule: reject_cases)
      case (rejected row)
      with put [OF rejected(1,2), of "(claimed_row X request ''reject'' row)\<lparr>ad_status := ''rejected''\<rparr>"]
      show ?thesis by (simp add: claimed_row_def)
    qed (use assms(2) in simp)
    with out RejectAdjustment show ?thesis by simp
  next
    case (StartTask X user i)
    obtain r db' where out: "start_task X user i db = (r, db')" by force
    then have "x \<in> set (ld_adjustments db')" by (cases rule: start_cases) (use assms(2) in simp_all)
    with out StartTask show ?thesis by simp
  next
    case (CompleteTask X thread engine user i evidence)
    obtain r db' where out: "complete_task X thread engine user i evidence db = (r, db')" by force
    then have "x \<in> set (ld_adjustments db')" by (cases rule: complete_cases) (use assms(2) in simp_all)
    with out CompleteTask show ?thesis by simp
  qed
qed

text \<open>C36. A decided plan adjustment never changes again: once it is applied, rejected, expired or
  superseded, its row stays as it is in every later state, whatever is requested.
\<close>
theorem decided_final:
  assumes "learning_run db db'" "db_plans_ok db" "db_tasks_ok db" "x \<in> set (ld_adjustments db)" "decided x"
  shows "x \<in> set (ld_adjustments db')"
  using assms
proof (induction rule: learning_run.induct)
  case (run_op db db' a)
  with run_keeps [of db db'] show ?case by (auto intro: perform_keeps_decided)
qed

lemma decided_final_witness:
  "sample_row\<lparr>ad_status := ''rejected''\<rparr> \<in> set (ld_adjustments
     (perform sample_apply (sample_learning_db [sample_row\<lparr>ad_status := ''rejected''\<rparr>])))"
  by (rule decided_final [of "sample_learning_db [sample_row\<lparr>ad_status := ''rejected''\<rparr>]"])
    (simp_all add: sample_learning_facts decided_def, simp add: sample_learning_db_def)

subsection \<open>An adjustment is applied once\<close>

definition plans_for :: "learning_plan list \<Rightarrow> ustr \<Rightarrow> learning_plan list" where
  "plans_for ps i = filter (\<lambda>p. map_of (lp_rationale p) (lit ''adjustment_id'') = Some (JStr i)) ps"

definition applied_rows :: "adjustment_row list \<Rightarrow> ustr \<Rightarrow> adjustment_row list" where
  "applied_rows rows i = filter (\<lambda>a. ad_id a = i \<and> ad_status a = ''applied'') rows"

definition applications_ok :: "learning_db \<Rightarrow> bool" where
  "applications_ok db \<longleftrightarrow>
     (\<forall>i. length (plans_for (ld_plans db) i) = length (applied_rows (ld_adjustments db) i))"

lemma plans_for_replace:
  assumes "distinct (map lp_id ps)" "p \<in> set ps"
  shows "length (plans_for (set_row lp_id (p\<lparr>lp_status := ''replaced''\<rparr>) ps) i) = length (plans_for ps i)"
proof -
  have "map lp_rationale (set_row lp_id (p\<lparr>lp_status := ''replaced''\<rparr>) ps) = map lp_rationale ps"
    by (rule set_row_core [OF assms]) simp_all
  moreover have "length (plans_for qs i)
      = length (filter (\<lambda>r. map_of r (lit ''adjustment_id'') = Some (JStr i)) (map lp_rationale qs))" for qs
    by (simp add: plans_for_def filter_map comp_def)
  ultimately show ?thesis by metis
qed

lemma applied_rows_set:
  assumes "distinct (map ad_id rows)" "row \<in> set rows" "ad_id row' = ad_id row" "ad_status row \<noteq> ''applied''"
  shows "length (applied_rows (set_row ad_id row' rows) i)
     = length (applied_rows rows i) + (if ad_id row = i \<and> ad_status row' = ''applied'' then 1 else 0)"
  using assms
proof (induction rows)
  case (Cons x rows)
  show ?case
  proof (cases "x = row")
    case True
    with Cons.prems(1) have "\<forall>y \<in> set rows. ad_id y \<noteq> ad_id row" by (auto simp: rev_image_eqI)
    then have "set_row ad_id row' rows = rows"
      using Cons.prems(3) by (auto simp: set_row_def intro!: map_idI)
    with True Cons.prems show ?thesis by (simp add: set_row_def applied_rows_def)
  next
    case False
    with Cons.prems have r: "row \<in> set rows" "ad_id x \<noteq> ad_id row" by auto
    with Cons.prems have "length (applied_rows (set_row ad_id row' rows) i)
       = length (applied_rows rows i) + (if ad_id row = i \<and> ad_status row' = ''applied'' then 1 else 0)"
      by (intro Cons.IH) auto
    moreover have "set_row ad_id row' (x # rows) = x # set_row ad_id row' rows"
      using r Cons.prems(3) by (simp add: set_row_def)
    moreover have "length (applied_rows (x # ys) i)
        = (if ad_id x = i \<and> ad_status x = ''applied'' then 1 else 0) + length (applied_rows ys i)" for ys
      by (simp add: applied_rows_def)
    ultimately show ?thesis by simp
  qed
qed (simp add: applied_rows_def)

lemma applied_rows_single:
  "distinct (map ad_id rows) \<Longrightarrow> a \<in> set rows \<Longrightarrow>
     applied_rows rows (ad_id a) = (if ad_status a = ''applied'' then [a] else [])"
proof (induction rows)
  case (Cons x rows)
  show ?case
  proof (cases "x = a")
    case True
    with Cons.prems(1) have "\<forall>y \<in> set rows. ad_id y \<noteq> ad_id a" by (auto simp: rev_image_eqI)
    with True show ?thesis by (auto simp: applied_rows_def filter_empty_conv)
  next
    case False
    with Cons show ?thesis by (auto simp: applied_rows_def)
  qed
qed simp

lemma perform_applications:
  assumes "db_plans_ok db" "op_ok db a" "applications_ok db"
  shows "applications_ok (perform a db)"
proof -
  note dist = plans_ok_keys(2) [OF assms(1)]
  have ids: "distinct (map lp_id (ld_plans db))" using assms(1) by (simp add: plans_ok_def)
  have put: "applications_ok (put_adjustment row' db)"
    if "adjustment_of db i = Some row" "ad_status row = ''proposed''" "ad_id row' = ad_id row" "ad_status row' \<noteq> ''applied''" for i row row'
    using applied_rows_set [OF dist _ that(3)] owned_in [OF that(1)] that(2,4) assms(3) by (simp add: applications_ok_def)
  show ?thesis
  proof (cases a)
    case (ApplyAdjustment X i user goal request lang)
    obtain r db' where out: "apply_plan_adjustment X i user goal request lang db = (r, db')" by force
    then have "applications_ok db'"
    proof (cases rule: apply_cases)
      case (closed row row')
      then have "ad_id row' = ad_id row" by (simp add: adj_core_def)
      with put [OF closed(1,2)] closed(3,6) show ?thesis by auto
    next
      case (applied row p plan tasks)
      let ?a = "claimed_row X request ''accept'' row"
      obtain a' db'' where commit: "commit_application X ?a (snapshot_of db user goal) p plan tasks db = (a', db'')"
        by force
      have id: "ad_id a' = ad_id row"
        using commit_fields(5) [OF commit] by (simp add: adj_core_def claimed_row_def)
      have rationale: "map_of (lp_rationale plan) (lit ''adjustment_id'') = Some (JStr (ad_id row))"
        using created_facts(1) [OF applied(7)] by (simp add: new_plan_of_def claimed_row_def)
      have "length (applied_rows (ld_adjustments db'') j)
          = length (applied_rows (ld_adjustments db) j) + (if ad_id row = j then 1 else 0)" for j
        using applied_rows_set [OF dist _ id] owned_in [OF applied(1)] applied(2) commit_fields(4,6) [OF commit] by simp
      moreover have "length (plans_for (ld_plans db'') j)
          = length (plans_for (ld_plans db) j) + (if ad_id row = j then 1 else 0)" for j
        using plans_for_replace [OF ids applied(5)] rationale commit_fields(1) [OF commit]
        by (simp add: plans_for_def)
      ultimately show ?thesis using assms(3) applied(10) commit by (simp add: applications_ok_def)
    qed (use assms(3) in simp)
    with out ApplyAdjustment show ?thesis by simp
  next
    case (RejectAdjustment X i user goal request)
    obtain r db' where out: "reject_plan_adjustment X i user goal request db = (r, db')" by force
    then have "applications_ok db'"
    proof (cases rule: reject_cases)
      case (rejected row)
      with put [OF rejected(1,2), of "(claimed_row X request ''reject'' row)\<lparr>ad_status := ''rejected''\<rparr>"]
      show ?thesis by (simp add: claimed_row_def)
    qed (use assms(3) in simp)
    with out RejectAdjustment show ?thesis by simp
  next
    case (StartTask X user i)
    obtain r db' where out: "start_task X user i db = (r, db')" by force
    then have "applications_ok db'" by (cases rule: start_cases) (use assms(3) in \<open>simp_all add: applications_ok_def\<close>)
    with out StartTask show ?thesis by simp
  next
    case (CompleteTask X thread engine user i evidence)
    obtain r db' where out: "complete_task X thread engine user i evidence db = (r, db')" by force
    then have "applications_ok db'"
    proof (cases rule: complete_cases)
      case (completed t s d adj)
      have "engine_ok db (EngineReturned d adj)"
        using assms(2) CompleteTask completed(4) by (metis op_ok.simps(4))
      with completed(5) assms(3) show ?thesis
        by (auto simp: applications_ok_def applied_rows_def engine_ok_def adjustment_record_def split: option.splits)
    qed (use assms(3) in \<open>simp_all add: applications_ok_def\<close>)
    with out CompleteTask show ?thesis by simp
  qed
qed

text \<open>C37. An adjustment is applied at most once: in every later state exactly one plan was made from an
  applied adjustment and none from any other, if this held at the start.
\<close>
theorem applied_once:
  assumes "learning_run db db'" "db_plans_ok db" "db_tasks_ok db" "applications_ok db" "a \<in> set (ld_adjustments db')"
  shows "length (plans_for (ld_plans db') (ad_id a)) = (if ad_status a = ''applied'' then 1 else 0)"
proof -
  have ok: "applications_ok db'"
    using assms(1-4)
  proof (induction rule: learning_run.induct)
    case (run_op db db' a)
    with run_keeps [of db db'] show ?case by (auto intro: perform_applications)
  qed
  have "distinct (map ad_id (ld_adjustments db'))"
    using run_keeps [OF assms(1-3)] plans_ok_keys(2) by blast
  then have "applied_rows (ld_adjustments db') (ad_id a) = (if ad_status a = ''applied'' then [a] else [])"
    using assms(5) by (rule applied_rows_single)
  with ok show ?thesis by (simp add: applications_ok_def)
qed

lemma applied_once_witness:
  "list_all (\<lambda>a. length (plans_for (ld_plans (perform sample_apply (sample_learning_db [sample_row]))) (ad_id a))
       = (if ad_status a = ''applied'' then 1 else 0)) (ld_adjustments (perform sample_apply (sample_learning_db [sample_row])))"
proof -
  have "applications_ok (sample_learning_db [sample_row])"
    by (simp add: applications_ok_def plans_for_def applied_rows_def sample_learning_defs)
  with applied_once [of "sample_learning_db [sample_row]"] sample_learning_facts [of "[sample_row]"]
  show ?thesis unfolding list_all_iff by blast
qed

subsection \<open>Tasks move forward\<close>

definition stage :: "plan_task \<Rightarrow> nat" where
  "stage t = (if tk_status t = lit ''pending'' then 0 else if running t then 1 else 2)"

definition moved :: "plan_task \<Rightarrow> plan_task \<Rightarrow> bool" where
  "moved t t' \<longleftrightarrow> tk_id t' = tk_id t \<and> stage t \<le> stage t' \<and> (stage t = 2 \<longrightarrow> t' = t)
     \<and> (tk_status t = lit ''completing'' \<longrightarrow> t' = t)"

lemma moved_refl [simp]: "moved t t"
  by (simp add: moved_def)

lemma moved_trans: "moved t u \<Longrightarrow> moved u v \<Longrightarrow> moved t v"
  by (auto simp: moved_def)

lemma put_moves:
  assumes "distinct (map tk_id ts)" "t \<in> set ts" "moved t t'" "x \<in> set ts"
  shows "\<exists>x' \<in> set (set_row tk_id t' ts). moved x x'"
proof (cases "x = t")
  case True
  have "t' \<in> set (set_row tk_id t' ts)" using assms(2,3) by (auto simp: set_row_def moved_def intro: rev_image_eqI)
  with True assms(3) show ?thesis by blast
next
  case False
  with assms have "x \<in> set (set_row tk_id t' ts)"
    by (auto simp: set_row_def moved_def distinct_map inj_on_def intro!: image_eqI [of _ _ x])
  then show ?thesis using moved_refl by blast
qed

lemma perform_moves:
  assumes "db_tasks_ok db" "x \<in> set (ld_tasks db)"
  shows "\<exists>x' \<in> set (ld_tasks (perform a db)). moved x x'"
proof -
  have dist: "distinct (map tk_id (ld_tasks db))" using assms(1) by (simp add: tasks_ok_def)
  note put = put_moves [OF dist _ _ assms(2)]
  have stay: ?thesis if "set (ld_tasks db) \<subseteq> set (ld_tasks (perform a db))"
    using that assms(2) moved_refl by blast
  show ?thesis
  proof (cases a)
    case (ApplyAdjustment X i user goal request lang)
    obtain r db' where out: "apply_plan_adjustment X i user goal request lang db = (r, db')" by force
    then have "set (ld_tasks db) \<subseteq> set (ld_tasks db')"
    proof (cases rule: apply_cases)
      case (applied row p plan tasks)
      obtain a' db'' where "commit_application X (claimed_row X request ''accept'' row) (snapshot_of db user goal) p plan tasks db = (a', db'')"
        by force
      with applied(10) commit_fields(2) [OF this] show ?thesis by simp
    qed simp_all
    with out ApplyAdjustment stay show ?thesis by simp
  next
    case (RejectAdjustment X i user goal request)
    obtain r db' where out: "reject_plan_adjustment X i user goal request db = (r, db')" by force
    then have "ld_tasks db' = ld_tasks db" by (cases rule: reject_cases) simp_all
    with out RejectAdjustment stay show ?thesis by simp
  next
    case (StartTask X user i)
    obtain r db' where out: "start_task X user i db = (r, db')" by force
    then have "\<exists>x' \<in> set (ld_tasks db'). moved x x'"
    proof (cases rule: start_cases)
      case (begun t)
      have "moved t (t\<lparr>tk_status := lit ''active''\<rparr>)" by (simp add: moved_def stage_def begun(2))
      with put [of t "t\<lparr>tk_status := lit ''active''\<rparr>"] owned_task_in [OF begun(1)] begun(3) show ?thesis by simp
    qed (use assms(2) moved_refl in blast)
    with out StartTask show ?thesis by simp
  next
    case (CompleteTask X thread engine user i evidence)
    obtain r db' where out: "complete_task X thread engine user i evidence db = (r, db')" by force
    then have "\<exists>x' \<in> set (ld_tasks db'). moved x x'"
    proof (cases rule: complete_cases)
      case (restored t s)
      have "moved t (t\<lparr>tk_status := lit ''active''\<rparr>)" by (simp add: moved_def stage_def restored(2))
      with put [of t "t\<lparr>tk_status := lit ''active''\<rparr>"] owned_task_in [OF restored(1)] restored(4) show ?thesis by simp
    next
      case (died t s)
      have "moved t (t\<lparr>tk_status := lit ''completing''\<rparr>)" by (simp add: moved_def stage_def died(2))
      with put [of t "t\<lparr>tk_status := lit ''completing''\<rparr>"] owned_task_in [OF died(1)] died(4) show ?thesis by simp
    next
      case (completed t s d adj)
      have "moved t (t\<lparr>tk_status := lit ''completed''\<rparr>)" by (simp add: moved_def stage_def completed(2))
      with put [of t "t\<lparr>tk_status := lit ''completed''\<rparr>"] owned_task_in [OF completed(1)] completed(5) show ?thesis by simp
    qed (use assms(2) moved_refl in blast)
    with out CompleteTask show ?thesis by simp
  qed
qed

text \<open>C38. Tasks only move forward and are never deleted: a task that was started is never pending again,
  a finished one never changes. A task whose completion was cut off by the death of the process stays
  \<open>completing\<close> in every later state: no request can finish or restart it.
\<close>
theorem task_forward:
  assumes "learning_run db db'" "db_plans_ok db" "db_tasks_ok db" "t \<in> set (ld_tasks db)"
  shows "\<exists>t' \<in> set (ld_tasks db'). tk_id t' = tk_id t \<and> stage t \<le> stage t' \<and> (stage t = 2 \<longrightarrow> t' = t)
     \<and> (tk_status t = lit ''completing'' \<longrightarrow> t' = t)"
proof -
  have "\<exists>t' \<in> set (ld_tasks db'). moved t t'"
    using assms
  proof (induction rule: learning_run.induct)
    case (run_nothing db)
    then show ?case using moved_refl by blast
  next
    case (run_op db db' a)
    then obtain t' where t': "t' \<in> set (ld_tasks db')" "moved t t'" by blast
    from run_keeps [OF run_op.hyps(1) run_op.prems(1,2)] have "db_tasks_ok db'" by blast
    from perform_moves [OF this t'(1), of a] moved_trans [OF t'(2)] show ?case by blast
  qed
  then show ?thesis by (simp add: moved_def)
qed

lemma task_forward_witness:
  "\<exists>t'. t' \<in> set (ld_tasks (perform sample_apply (sample_learning_db [sample_row])))
     \<and> tk_id t' = tk_id sample_task \<and> stage sample_task \<le> stage t'"
proof -
  have "sample_task \<in> set (ld_tasks (sample_learning_db [sample_row]))" by (simp add: sample_learning_db_def)
  with task_forward [of "sample_learning_db [sample_row]"] sample_learning_facts [of "[sample_row]"] show ?thesis by blast
qed

subsection \<open>Repeated requests and the new plan\<close>

lemma adjustment_of_put:
  "distinct (map ad_id rows) \<Longrightarrow> row \<in> set rows \<Longrightarrow> ad_id row' = ad_id row \<Longrightarrow>
     find (\<lambda>a. ad_id a = ad_id row) (set_row ad_id row' rows) = Some row'"
  by (induction rows) (auto simp: set_row_def)

lemma checked_commits:
  assumes "apply_checked X row request h lang db = (Inr response, db')"
  shows "\<exists>a snap p plan tasks a'. commit_application X a snap p plan tasks db = (a', db')"
proof -
  let ?a = "row\<lparr>ad_request := Some request, ad_hash := Some h\<rparr>"
  let ?snap = "snapshot_of db (ad_user row) (ad_goal row)"
  from assms obtain p plan tasks a' where "commit_application X ?a ?snap p plan tasks db = (a', db')"
    by (auto simp: apply_checked_def Let_def split: if_splits option.splits sum.splits prod.splits)
  then show ?thesis by blast
qed

text \<open>C39. An accepted decision can be repeated: the same request on the state it left returns the applied
  adjustment and changes nothing, and a request with another id is refused and changes nothing.
\<close>
theorem apply_idempotent:
  assumes "apply_plan_adjustment X i user goal (Some req) lang db = (Inr response, db')" "req \<noteq> []" "db_plans_ok db"
    "lx_hash X' = lx_hash X"
  shows "\<exists>row. adjustment_of db' i = Some row \<and> ad_status row \<in> {''applied'', ''accepted''}
     \<and> apply_plan_adjustment X' i user goal (Some req) lang' db' = (Inr (adjustment_dict X' row), db')
     \<and> (\<forall>req'. req' \<noteq> req \<and> req' \<noteq> [] \<longrightarrow>
          (\<exists>e. apply_plan_adjustment X' i user goal (Some req') lang' db' = (Inl (PlanConflict e), db')))"
proof -
  have req: "requested_id Y (Some q) = q" if "q \<noteq> []" for Y q
    using that by (cases q) (simp_all add: requested_id_def)
  obtain row where row: "adjustment_of db' i = Some row" "ad_user row = user" "ad_goal row = goal"
    "ad_request row = Some req" "ad_hash row = Some (payload_hash X ''accept'' goal)" "ad_status row \<in> {''applied'', ''accepted''}"
    using assms(1)
  proof (cases rule: apply_cases)
    case same
    obtain row where r: "adjustment_of db i = Some row"
      using assms(1) by (auto simp: apply_plan_adjustment_def split: option.splits)
    show ?thesis
    proof (cases "ad_request row = Some req \<and> ad_status row \<in> {''applied'', ''accepted''}")
      case True
      with assms(1) r same req [OF assms(2)] that show ?thesis
        by (auto simp: apply_plan_adjustment_def Let_def split: if_splits)
    next
      case False
      with assms(1) r req [OF assms(2)] have "\<exists>h. apply_checked X row req h lang db = (Inr response, db')"
        by (auto simp: apply_plan_adjustment_def Let_def split: if_splits)
      then obtain a snap p plan tasks a' where "commit_application X a snap p plan tasks db = (a', db')"
        using checked_commits by blast
      then have "ld_plans db' = set_row lp_id (p\<lparr>lp_status := ''replaced''\<rparr>) (ld_plans db) @ [plan]"
        by (rule commit_fields(1))
      from arg_cong [OF this, of length] same show ?thesis by (simp add: set_row_def)
    qed
  next
    case (applied row p plan tasks)
    let ?a = "claimed_row X (Some req) ''accept'' row"
    obtain a' db'' where commit: "commit_application X ?a (snapshot_of db user goal) p plan tasks db = (a', db'')"
      by force
    note f = commit_fields [OF commit]
    have core: "adj_core a' = adj_core row" using f(5) by (simp add: adj_core_def claimed_row_def)
    then have "adjustment_of db'' i = Some a'"
      using adjustment_of_put [OF plans_ok_keys(2) [OF assms(3)], of row a'] owned_in [OF applied(1)]
      by (auto simp: adjustment_of_def f(4) adj_core_def)
    with applied(3,4,10) commit core f(6,8,9) req [OF assms(2), of X] that show ?thesis
      by (auto simp: adj_core_def claimed_row_def)
  qed simp
  have h: "payload_hash X' ''accept'' goal = payload_hash X ''accept'' goal"
    by (simp add: payload_hash_def assms(4))
  with row req [OF assms(2)] have "apply_plan_adjustment X' i user goal (Some req) lang' db' = (Inr (adjustment_dict X' row), db')"
    by (auto simp: apply_plan_adjustment_def Let_def)
  moreover have "\<exists>e. apply_plan_adjustment X' i user goal (Some q) lang' db' = (Inl (PlanConflict e), db')"
    if "q \<noteq> req" "q \<noteq> []" for q
    using row req [OF that(2)] that(1) by (auto simp: apply_plan_adjustment_def Let_def)
  ultimately show ?thesis using row by blast
qed

lemma sample_applies:
  obtains m db' where "apply_plan_adjustment sample_lx (lit ''a1'') (lit ''u'') (lit ''g'') (Some (lit ''r1'')) (lit ''en-US'')
     (sample_learning_db [sample_row]) = (Inr m, db')"
proof -
  let ?db = "sample_learning_db [sample_row]"
  have row: "adjustment_of ?db (lit ''a1'') = Some sample_row" "goal_owned ?db (lit ''u'') (lit ''g'')"
    "snapshot_of ?db (lit ''u'') (lit ''g'') = Some sample_snapshot" "plan_of ?db (lit ''p1'') = Some sample_plan"
    by (simp_all add: adjustment_of_def goal_owned_def snapshot_of_def plan_of_def sample_learning_defs)
  have fields: "ad_user sample_row = lit ''u''" "ad_goal sample_row = lit ''g''" "ad_request sample_row = None"
    "ad_status sample_row = ''proposed''" "ad_expires sample_row = None" "ad_decision sample_row = ''reduce''"
    "ad_automation sample_row" "ad_previous sample_row = Some (lit ''p1'')" "ad_base sample_row = Some 1"
    "meta_get (ad_patch sample_row) ''no_change'' = JNull" "lp_status sample_plan = ''active''"
    "sn_plan sample_snapshot = lit ''p1''" "sn_version sample_snapshot = 1"
    by (simp_all add: sample_learning_defs meta_get_def)
  have "\<exists>plan tasks. create_applied_plan_tasks sample_lx (lit ''en-US'') ?db sample_plan
      (sample_row\<lparr>ad_request := Some r, ad_hash := Some h\<rparr>) (Some sample_snapshot) = Inr (plan, tasks)" for r h
    by (simp add: create_applied_plan_tasks_def review_tasks_def load_multiplier_def Let_def fields)
      (simp add: sample_row_def meta_default_def float_of_json_def)
  then obtain plan tasks where c: "create_applied_plan_tasks sample_lx (lit ''en-US'') ?db sample_plan
      (sample_row\<lparr>ad_request := Some (requested_id sample_lx (Some (lit ''r1''))),
        ad_hash := Some (payload_hash sample_lx ''accept'' (lit ''g''))\<rparr>) (Some sample_snapshot) = Inr (plan, tasks)"
    by blast
  have prev: "(case lit ''p1'' of [] \<Rightarrow> q | c # cs \<Rightarrow> Some (c # cs)) = Some (lit ''p1'')" for q
    by (simp add: lit_def)
  have "\<exists>m db'. apply_plan_adjustment sample_lx (lit ''a1'') (lit ''u'') (lit ''g'') (Some (lit ''r1'')) (lit ''en-US'') ?db = (Inr m, db')"
    by (simp add: apply_plan_adjustment_def apply_checked_def Let_def row fields c prev split: prod.split)
  with that show thesis by blast
qed

lemma apply_idempotent_witness:
  "\<exists>db' row. adjustment_of db' (lit ''a1'') = Some row
     \<and> apply_plan_adjustment sample_lx (lit ''a1'') (lit ''u'') (lit ''g'') (Some (lit ''r1'')) (lit ''zh-CN'') db'
         = (Inr (adjustment_dict sample_lx row), db')"
proof -
  obtain m db' where "apply_plan_adjustment sample_lx (lit ''a1'') (lit ''u'') (lit ''g'') (Some (lit ''r1'')) (lit ''en-US'')
     (sample_learning_db [sample_row]) = (Inr m, db')" by (rule sample_applies)
  moreover have "lit ''r1'' \<noteq> []" by (simp add: lit_def)
  ultimately show ?thesis
    using apply_idempotent [OF _ _ sample_learning_facts(2) refl] by blast
qed

text \<open>Reviews come from distinct nodes.\<close>

lemma collect_nodes_distinct:
  "distinct (map kn_id (collect_nodes db seen is)) \<and> (\<forall>n \<in> set (collect_nodes db seen is). kn_id n \<notin> set seen)"
proof (induction db seen "is" rule: collect_nodes.induct)
  case (2 db seen i js)
  show ?case
  proof (cases "i \<in> set seen \<or> node_of db i = None")
    case True
    with 2 show ?thesis by auto
  next
    case False
    then obtain n where n: "node_of db i = Some n" "i \<notin> set seen" by auto
    then have "kn_id n = i" by (auto simp: node_of_def dest!: find_Some_in)
    with n 2(3) [OF n(2,1)] show ?thesis by auto
  qed
qed simp

lemma py_take_prefix: "\<exists>n. py_take k xs = take n xs"
  by (auto simp: py_take_def)

lemma py_take_length: "0 \<le> k \<Longrightarrow> length (py_take k xs) \<le> nat k"
  by (simp add: py_take_def)

lemma node_task_fields:
  "tk_node (node_task X lang q a kind d m pr k n) = kn_id n" "tk_day (node_task X lang q a kind d m pr k n) = d"
  by (simp_all add: node_task_def add_plan_task_def split: prod.split)

lemma map_numbered: "map (\<lambda>(i, x). f i x) (enumerate_from k xs) = map (\<lambda>i. f (k + i) (xs ! i)) [0..<length xs]"
  by (rule nth_equalityI) simp_all

lemma review_tasks_spec:
  assumes "review_tasks X lang db plan a snapshot opened = Inr reviews"
  shows "if ad_decision a = ''remediate''
    then \<exists>count nodes. int_of_json (lx_replan X) (meta_default (ad_patch a) ''review_task_count'' (JInt 2)) = Inr count
      \<and> review_nodes db a snapshot opened = Inr nodes
      \<and> map tk_node reviews = map kn_id (py_take count nodes)
      \<and> (0 \<le> count \<longrightarrow> length reviews \<le> nat count)
    else reviews = []"
    and "distinct (map tk_node reviews)" "map tk_day reviews = map int [1..<Suc (length reviews)]"
proof -
  have "(if ad_decision a = ''remediate''
    then \<exists>count nodes. int_of_json (lx_replan X) (meta_default (ad_patch a) ''review_task_count'' (JInt 2)) = Inr count
      \<and> review_nodes db a snapshot opened = Inr nodes
      \<and> map tk_node reviews = map kn_id (py_take count nodes)
      \<and> (0 \<le> count \<longrightarrow> length reviews \<le> nat count)
    else reviews = [])
    \<and> distinct (map tk_node reviews) \<and> map tk_day reviews = map int [1..<Suc (length reviews)]"
  proof (cases "ad_decision a = ''remediate''")
    case False
    with assms show ?thesis by (simp add: review_tasks_def)
  next
    case True
    with assms obtain count nodes where
      c: "int_of_json (lx_replan X) (meta_default (ad_patch a) ''review_task_count'' (JInt 2)) = Inr count"
      and n: "review_nodes db a snapshot opened = Inr nodes"
      and reviews: "reviews = map (\<lambda>(i, n). node_task X lang plan a ''review'' (int i) 30 0 (1 + i) n) (enumerate_from 1 (py_take count nodes))"
      by (auto simp: review_tasks_def bind_res_Inr_iff)
    have d: "distinct (map kn_id nodes)"
      using n collect_nodes_distinct by (auto simp: review_nodes_def Let_def bind_res_Inr_iff)
    obtain l where l: "py_take count nodes = take l nodes" using py_take_prefix by blast
    have nodes: "map tk_node reviews = map kn_id (py_take count nodes)"
      unfolding reviews map_numbered by (rule nth_equalityI) (simp_all add: node_task_fields)
    have "map tk_day reviews = map int [1..<Suc (length reviews)]"
      unfolding reviews map_numbered by (rule nth_equalityI) (simp_all add: node_task_fields del: upt_Suc)
    moreover have "distinct (map tk_node reviews)" unfolding nodes l take_map [symmetric] using d by simp
    moreover have "length reviews \<le> nat count" if "0 \<le> count"
      using py_take_length [OF that, of nodes] by (simp add: reviews)
    ultimately show ?thesis unfolding if_P [OF True] using c n nodes by blast
  qed
  then show "if ad_decision a = ''remediate''
    then \<exists>count nodes. int_of_json (lx_replan X) (meta_default (ad_patch a) ''review_task_count'' (JInt 2)) = Inr count
      \<and> review_nodes db a snapshot opened = Inr nodes
      \<and> map tk_node reviews = map kn_id (py_take count nodes)
      \<and> (0 \<le> count \<longrightarrow> length reviews \<le> nat count)
    else reviews = []"
    and "distinct (map tk_node reviews)" "map tk_day reviews = map int [1..<Suc (length reviews)]" by blast+
qed

text \<open>C40. A new plan loses no open work. Its tasks are, to remediate, one review a day of the first nodes to
  review, as many as the patch requests (two if it does not say; a negative number cuts that many
  off the end, as the slice does), then a copy of every open task of the old plan in its order, with
  the same node, type and priority, moved behind the reviews and of at least ten minutes, then at most one
  task, later than all others, to advance. All are pending, of the new plan and of the same goal.
\<close>
theorem new_plan_carries_tasks:
  assumes "create_applied_plan_tasks X lang db p a snapshot = Inr (plan, tasks)"
  shows "\<exists>reviews copies extra. tasks = reviews @ copies @ extra
     \<and> (if ad_decision a = ''remediate''
        then \<exists>count nodes. int_of_json (lx_replan X) (meta_default (ad_patch a) ''review_task_count'' (JInt 2)) = Inr count
          \<and> review_nodes db a snapshot (open_tasks X (previous_tasks db p)) = Inr nodes
          \<and> map tk_node reviews = map kn_id (py_take count nodes)
          \<and> (0 \<le> count \<longrightarrow> length reviews \<le> nat count)
        else reviews = [])
     \<and> distinct (map tk_node reviews) \<and> map tk_day reviews = map int [1..<Suc (length reviews)]
     \<and> map (\<lambda>t. (tk_node t, tk_type t, tk_priority t, tk_day t)) copies
         = map (\<lambda>t. (tk_node t, tk_type t, tk_priority t, tk_day t + int (length reviews))) (open_tasks X (previous_tasks db p))
     \<and> (\<forall>t \<in> set copies. 10 \<le> tk_minutes t)
     \<and> (extra \<noteq> [] \<longrightarrow> ad_decision a = ''advance'')
     \<and> (extra = [] \<or> (\<exists>t. extra = [t] \<and> (\<forall>u \<in> set (reviews @ copies). tk_day u < tk_day t)))
     \<and> (\<forall>t \<in> set tasks. tk_plan t = lp_id plan \<and> tk_user t = lp_user p \<and> tk_goal t = lp_goal p \<and> tk_status t = lit ''pending'')"
proof -
  have copy: "tk_node (clone_plan_task X lang db q a d m k u) = tk_node u"
    "tk_type (clone_plan_task X lang db q a d m k u) = tk_type u"
    "tk_priority (clone_plan_task X lang db q a d m k u) = tk_priority u"
    "tk_day (clone_plan_task X lang db q a d m k u) = tk_day u + d"
    "10 \<le> tk_minutes (clone_plan_task X lang db q a d m k u)" for q d m k u
    by (simp_all add: clone_plan_task_def add_plan_task_def Let_def split: prod.split)
  have new: "\<forall>t \<in> set tasks. new_task X plan t"
    using created_facts [OF assms] by auto
  obtain reviews m where r: "review_tasks X lang db plan a snapshot (open_tasks X (previous_tasks db p)) = Inr reviews"
    and m: "load_multiplier X a = Inr m" and plan: "plan = new_plan_of X db p a"
    and tasks: "tasks = reviews @ copied_tasks X lang db plan a (length reviews) m (open_tasks X (previous_tasks db p))
       @ next_tasks X lang db p plan a
           (reviews @ copied_tasks X lang db plan a (length reviews) m (open_tasks X (previous_tasks db p)))"
    using assms by (rule created_cases)
  let ?copies = "copied_tasks X lang db plan a (length reviews) m (open_tasks X (previous_tasks db p))"
  let ?next = "next_tasks X lang db p plan a (reviews @ ?copies)"
  have later: "tk_day u < latest_day us + 1" if "u \<in> set us" for u us
    using that foldl_max_ge by (cases us) (fastforce simp: latest_day_def)+
  have "(if ad_decision a = ''remediate''
        then \<exists>count nodes. int_of_json (lx_replan X) (meta_default (ad_patch a) ''review_task_count'' (JInt 2)) = Inr count
          \<and> review_nodes db a snapshot (open_tasks X (previous_tasks db p)) = Inr nodes
          \<and> map tk_node reviews = map kn_id (py_take count nodes)
          \<and> (0 \<le> count \<longrightarrow> length reviews \<le> nat count)
        else reviews = [])"
    "distinct (map tk_node reviews)" "map tk_day reviews = map int [1..<Suc (length reviews)]"
    using review_tasks_spec [OF r] by auto
  moreover have "map (\<lambda>t. (tk_node t, tk_type t, tk_priority t, tk_day t)) ?copies
      = map (\<lambda>t. (tk_node t, tk_type t, tk_priority t, tk_day t + int (length reviews))) (open_tasks X (previous_tasks db p))"
    unfolding copied_tasks_def by (rule nth_equalityI) (simp_all add: copy)
  moreover have "\<forall>t \<in> set ?copies. 10 \<le> tk_minutes t" by (auto simp: copied_tasks_def copy)
  moreover have "?next \<noteq> [] \<longrightarrow> ad_decision a = ''advance''" by (simp add: next_tasks_def)
  moreover have "?next = [] \<or> (\<exists>t. ?next = [t] \<and> (\<forall>u \<in> set (reviews @ ?copies). tk_day u < tk_day t))"
    using later [of _ "reviews @ ?copies"] by (auto simp: next_tasks_def node_task_fields split: option.split)
  moreover have "\<forall>t \<in> set tasks. tk_plan t = lp_id plan \<and> tk_user t = lp_user p \<and> tk_goal t = lp_goal p \<and> tk_status t = lit ''pending''"
    using new by (auto simp: new_task_def plan new_plan_of_def)
  ultimately show ?thesis using tasks by blast
qed


lemma new_plan_carries_tasks_witness:
  "\<exists>plan tasks reviews copies. create_applied_plan_tasks sample_lx (lit ''en-US'') (sample_learning_db []) sample_plan sample_row
      (Some sample_snapshot) = Inr (plan, tasks) \<and> tasks = reviews @ copies \<and> reviews = []
     \<and> map tk_node copies = map tk_node (open_tasks sample_lx (previous_tasks (sample_learning_db []) sample_plan))"
proof -
  have fields: "ad_decision sample_row = ''reduce''" by (simp add: sample_learning_defs)
  have "\<exists>plan tasks. create_applied_plan_tasks sample_lx (lit ''en-US'') (sample_learning_db []) sample_plan sample_row
      (Some sample_snapshot) = Inr (plan, tasks)"
    by (simp add: create_applied_plan_tasks_def review_tasks_def load_multiplier_def Let_def fields)
      (simp add: sample_row_def meta_default_def float_of_json_def)
  then obtain plan tasks where c: "create_applied_plan_tasks sample_lx (lit ''en-US'') (sample_learning_db []) sample_plan sample_row
      (Some sample_snapshot) = Inr (plan, tasks)" by blast
  from new_plan_carries_tasks [OF this] obtain reviews copies extra where
    1: "tasks = reviews @ copies @ extra" and none: "ad_decision sample_row \<noteq> ''remediate'' \<longrightarrow> reviews = []"
    and 3: "extra \<noteq> [] \<longrightarrow> ad_decision sample_row = ''advance''"
    and 2: "map (\<lambda>t. (tk_node t, tk_type t, tk_priority t, tk_day t)) copies = map (\<lambda>t. (tk_node t, tk_type t, tk_priority t,
        tk_day t + int (length reviews))) (open_tasks sample_lx (previous_tasks (sample_learning_db []) sample_plan))"
    by (auto simp: fields)
  have "map fst (map (\<lambda>t. (tk_node t, tk_type t, tk_priority t, tk_day t)) copies) = map fst (map (\<lambda>t. (tk_node t, tk_type t, tk_priority t,
        tk_day t + int (length reviews))) (open_tasks sample_lx (previous_tasks (sample_learning_db []) sample_plan)))"
    by (rule arg_cong [OF 2])
  then have "map tk_node copies = map tk_node (open_tasks sample_lx (previous_tasks (sample_learning_db []) sample_plan))"
    by (simp add: comp_def)
  moreover have "reviews = []" "extra = []" using none 3 fields by simp_all
  ultimately show ?thesis using 1 c by auto
qed

end
