(* ===== verification/Redaction.thy ===== *)
theory Redaction
  imports Py_Regex Retrieval_Domain
begin

text \<open>
  What is removed from tool arguments and results before they are stored or shown: the values of
  configured secrets, everything under a sensitive key, and instructions hidden in a result
  (\<open>_sanitize\<close> of src/backend/app/application/tool_approval_service.py, \<open>_sanitize_result\<close> of
  mcp_service.py). Values are JSON, so keys are texts.

  A pattern with \<open>re.IGNORECASE\<close> accepts for a small letter its capital and the four characters
  outside ASCII whose lower case is an ASCII letter.
\<close>

subsection \<open>Patterns without case\<close>

definition same_letter :: "nat \<Rightarrow> nat \<Rightarrow> bool" where
  "same_letter c x \<longleftrightarrow> x = c \<or> 97 \<le> c \<and> c \<le> 122 \<and> x + 32 = c \<or> c = 105 \<and> x \<in> {304, 305} \<or> c = 107 \<and> x = 8490 \<or> c = 115 \<and> x = 383"

definition caseless :: "string \<Rightarrow> regex" where
  "caseless s = seq_of (map (\<lambda>c. Cls (same_letter c)) (lit s))"

definition at_start :: regex where
  "at_start = NotBehind (\<lambda>_. True)"

definition at_end :: regex where
  "at_end = Alt (NotAhead (\<lambda>_. True)) (Ahead (Cat (Cls (\<lambda>x. x = 10)) (NotAhead (\<lambda>_. True))))"

definition dash :: regex where
  "dash = Cls (\<lambda>x. x = 95 \<or> x = 45)"

definition search :: "regex \<Rightarrow> ustr \<Rightarrow> bool" where
  "search r s \<longleftrightarrow> list_ex (\<lambda>i. matches r s i \<noteq> []) [0..<Suc (length s)]"

definition sensitive_pattern :: regex where
  "sensitive_pattern = any_of
     [seq_of [caseless ''api'', Opt dash, caseless ''key''], Cat (caseless ''auth'') (Opt (caseless ''orization'')),
      caseless ''credential'', caseless ''cookie'', caseless ''password'', caseless ''secret'', caseless ''token'',
      seq_of [Alt at_start dash, caseless ''key'', Alt at_end dash]]"

definition sensitive_key :: "ustr \<Rightarrow> bool" where
  "sensitive_key k = search sensitive_pattern k"

definition untrusted_instruction :: regex where
  "untrusted_instruction =
     any_of [caseless ''ignore previous instructions'', caseless ''system prompt'', caseless ''developer message'']"

text \<open>\<open>re.sub(r, new, s)\<close> for a pattern without empty matches and a replacement without escapes.\<close>

fun join_spans :: "ustr \<Rightarrow> ustr \<Rightarrow> nat \<Rightarrow> (nat \<times> nat) list \<Rightarrow> ustr" where
  "join_spans new s i [] = drop i s"
| "join_spans new s i ((a, b) # ps) = slice s (i, a) @ new @ join_spans new s b ps"

definition re_sub :: "regex \<Rightarrow> ustr \<Rightarrow> ustr \<Rightarrow> ustr" where
  "re_sub r new s = join_spans new s 0 (finditer r s)"

subsection \<open>Replacing texts\<close>

text \<open>\<open>s.replace(old, new)\<close>; an empty \<open>old\<close> matches before every character and at the end.\<close>

function replace_from :: "ustr \<Rightarrow> ustr \<Rightarrow> ustr \<Rightarrow> ustr" where
  "replace_from old new [] = []"
| "replace_from old new (c # cs) =
     (if old \<noteq> [] \<and> prefix old (c # cs) then new @ replace_from old new (drop (length old) (c # cs))
      else c # replace_from old new cs)"
  by pat_completeness auto
termination
  by (relation "measure (\<lambda>(old, new, s). length s)") (auto simp: diff_less)

definition str_replace :: "ustr \<Rightarrow> ustr \<Rightarrow> ustr \<Rightarrow> ustr" where
  "str_replace old new s =
     (if old = [] then new @ concat (map (\<lambda>c. c # new) s) else replace_from old new s)"

definition redaction_mark :: ustr where
  "redaction_mark = lit ''[redacted]''"

definition redact :: "ustr list \<Rightarrow> ustr \<Rightarrow> ustr" where
  "redact secrets s = foldl (\<lambda>t secret. str_replace secret redaction_mark t) s secrets"

subsection \<open>Sanitized values\<close>

function sanitize_with :: "(ustr \<Rightarrow> ustr) \<Rightarrow> json \<Rightarrow> json" where
  "sanitize_with f (JStr s) = JStr (f s)"
| "sanitize_with f (JList xs) = JList (map (sanitize_with f) xs)"
| "sanitize_with f (JDict d) =
     JDict (map (\<lambda>(k, v). (k, if sensitive_key k then JStr redaction_mark else sanitize_with f v)) d)"
| "sanitize_with f JNull = JNull"
| "sanitize_with f (JBool b) = JBool b"
| "sanitize_with f (JInt i) = JInt i"
| "sanitize_with f (JFloat r) = JFloat r"
  by pat_completeness auto
termination
  by (relation "measure (\<lambda>(f, v). size v)")
    (auto simp: less_Suc_eq_le intro: size_list_estimation' intro!: size_list_estimation' [of "(_, _)"])

definition sanitize :: "ustr list \<Rightarrow> json \<Rightarrow> json" where
  "sanitize secrets = sanitize_with (redact secrets)"

definition sanitize_result :: "ustr list \<Rightarrow> json \<Rightarrow> json" where
  "sanitize_result secrets =
     sanitize_with (\<lambda>s. redact secrets (re_sub untrusted_instruction (lit ''[filtered untrusted instruction]'') s))"

subsection \<open>No secret is left\<close>

lemma prefix_before:
  assumes "x \<notin> set t" shows "prefix t (u @ x # v) \<longleftrightarrow> prefix t u"
proof
  assume p: "prefix t (u @ x # v)"
  show "prefix t u"
  proof (rule ccontr)
    assume "\<not> prefix t u"
    with p obtain w where "t = u @ w" "prefix w (x # v)" "w \<noteq> []"
      by (auto simp: prefix_append)
    with assms show False by (cases w) auto
  qed
qed (auto simp: prefix_def)

lemma contains_around:
  assumes "x \<notin> set t" "t \<noteq> []" shows "contains t (u @ x # v) \<longleftrightarrow> contains t u \<or> contains t v"
proof (induction u)
  case Nil
  from assms show ?case by (cases t) auto
next
  case (Cons c u)
  then show ?case using prefix_before [OF assms(1), of "c # u" v] by simp
qed

lemma contains_drop: "contains t (drop n s) \<Longrightarrow> contains t s"
proof -
  assume "contains t (drop n s)"
  then obtain u v where "drop n s = u @ t @ v" by (auto simp: contains_iff)
  then have "s = (take n s @ u) @ t @ v" by (metis append_assoc append_take_drop_id)
  then show ?thesis unfolding contains_iff by blast
qed

text \<open>A secret that cannot arise from the mark itself.\<close>

definition unlike_mark :: "ustr \<Rightarrow> bool" where
  "unlike_mark t \<longleftrightarrow> t \<noteq> [] \<and> 91 \<notin> set t \<and> 93 \<notin> set t \<and> \<not> contains t (lit ''redacted'')"

lemma mark_parts: "redaction_mark = 91 # lit ''redacted'' @ [93]"
  by (simp add: redaction_mark_def lit_def)

lemma contains_marked:
  assumes "unlike_mark t" shows "contains t (redaction_mark @ s) \<longleftrightarrow> contains t s"
proof -
  have t: "91 \<notin> set t" "93 \<notin> set t" "t \<noteq> []" "\<not> contains t (lit ''redacted'')"
    using assms by (auto simp: unlike_mark_def)
  have "contains t ([] @ 91 # lit ''redacted'' @ 93 # s) \<longleftrightarrow> contains t [] \<or> contains t (lit ''redacted'' @ 93 # s)"
    by (rule contains_around [OF t(1,3)])
  also have "\<dots> \<longleftrightarrow> contains t s"
    using t contains_around [OF t(2,3), of "lit ''redacted''" s] by simp
  finally show ?thesis by (simp add: mark_parts)
qed

lemma prefix_replaced:
  assumes "91 \<notin> set t" "prefix t (replace_from old redaction_mark s)" shows "prefix t s"
  using assms
proof (induction old redaction_mark s arbitrary: t rule: replace_from.induct)
  case (2 old c cs)
  show ?case
  proof (cases "old \<noteq> [] \<and> prefix old (c # cs)")
    case True
    with 2(3,4) show ?thesis by (cases t) (auto simp: mark_parts)
  next
    case False
    with 2 show ?thesis by (cases t) (auto simp del: prefix_Cons)
  qed
qed simp

lemma replaced_removes:
  assumes "unlike_mark t" "old \<noteq> []" "t = old \<or> \<not> contains t s"
  shows "\<not> contains t (replace_from old redaction_mark s)"
  using assms
proof (induction old redaction_mark s rule: replace_from.induct)
  case (1 old)
  then show ?case by (simp add: unlike_mark_def)
next
  case (2 old c cs)
  show ?case
  proof (cases "prefix old (c # cs)")
    case True
    have "\<not> contains t (replace_from old redaction_mark (drop (length old) (c # cs)))"
      using 2 True contains_drop [of t "length old" "c # cs"] by blast
    with True 2(3,4) show ?thesis by (simp add: contains_marked)
  next
    case False
    have rest: "\<not> contains t (replace_from old redaction_mark cs)" using 2 False by auto
    have "\<not> prefix t (c # replace_from old redaction_mark cs)"
    proof
      assume p: "prefix t (c # replace_from old redaction_mark cs)"
      have plain: "t \<noteq> []" "91 \<notin> set t" using 2(3) by (simp_all add: unlike_mark_def)
      then obtain t' where t: "t = c # t'" "prefix t' (replace_from old redaction_mark cs)"
        using p by (cases t) simp_all
      have "prefix t' cs" by (rule prefix_replaced [OF _ t(2)]) (use plain t(1) in simp)
      with t False 2(5) show False by auto
    qed
    with rest False show ?thesis by simp
  qed
qed

lemma redact_snoc [simp]: "redact (S @ [t]) s = str_replace t redaction_mark (redact S s)"
  by (simp add: redact_def)

lemma redact_removes:
  assumes "\<forall>t \<in> set S. unlike_mark t" "t \<in> set S" shows "\<not> contains t (redact S s)"
  using assms
proof (induction S rule: rev_induct)
  case (snoc old S)
  then have "unlike_mark t" "old \<noteq> []" by (auto simp: unlike_mark_def)
  then show ?case
    using replaced_removes [of t old "redact S s"] snoc by (auto simp: str_replace_def)
qed simp

lemma replace_absent: "\<not> contains old s \<Longrightarrow> replace_from old new s = s"
  by (induction old new s rule: replace_from.induct) auto

lemma redact_absent: "\<forall>t \<in> set S. t \<noteq> [] \<and> \<not> contains t s \<Longrightarrow> redact S s = s"
  by (induction S rule: rev_induct) (auto simp: str_replace_def replace_absent, simp add: redact_def)

text \<open>The texts of a value that are not keys, and what it holds under its keys at any depth.\<close>

function texts_of :: "json \<Rightarrow> ustr list" where
  "texts_of (JStr s) = [s]"
| "texts_of (JList xs) = concat (map texts_of xs)"
| "texts_of (JDict d) = concat (map (\<lambda>(k, v). texts_of v) d)"
| "texts_of JNull = []"
| "texts_of (JBool b) = []"
| "texts_of (JInt i) = []"
| "texts_of (JFloat r) = []"
  by pat_completeness auto
termination
  by (relation "measure size") (auto simp: less_Suc_eq_le intro: size_list_estimation' intro!: size_list_estimation' [of "(_, _)"])

function fields_of :: "json \<Rightarrow> (ustr \<times> json) list" where
  "fields_of (JList xs) = concat (map fields_of xs)"
| "fields_of (JDict d) = concat (map (\<lambda>(k, v). (k, v) # fields_of v) d)"
| "fields_of (JStr s) = []"
| "fields_of JNull = []"
| "fields_of (JBool b) = []"
| "fields_of (JInt i) = []"
| "fields_of (JFloat r) = []"
  by pat_completeness auto
termination
  by (relation "measure size") (auto simp: less_Suc_eq_le intro: size_list_estimation' intro!: size_list_estimation' [of "(_, _)"])

lemma sanitized_texts: "u \<in> set (texts_of (sanitize_with f v)) \<Longrightarrow> u = redaction_mark \<or> u \<in> range f"
  by (induction f v rule: sanitize_with.induct) (fastforce split: if_splits)+

lemma sanitized_fields: "(k, w) \<in> set (fields_of (sanitize_with f v)) \<Longrightarrow> sensitive_key k \<Longrightarrow> w = JStr redaction_mark"
  by (induction f v rule: sanitize_with.induct) (fastforce split: if_splits)+

lemma mark_contains: "unlike_mark t \<Longrightarrow> \<not> contains t redaction_mark"
  using contains_marked [of t "[]"] by (simp add: unlike_mark_def)

lemma sanitize_with_redacted:
  assumes "\<And>s. f s = redact S (g s)" "\<forall>t \<in> set S. unlike_mark t" "t \<in> set S" "u \<in> set (texts_of (sanitize_with f v))"
  shows "\<not> contains t u"
  using sanitized_texts [OF assms(4)] assms(1-3) redact_removes mark_contains by fastforce

lemma sanitize_with_again:
  assumes "\<And>s. f (f s) = f s" shows "sanitize_with f (sanitize_with f v) = sanitize_with f v"
  using assms by (induction f v rule: sanitize_with.induct) auto

text \<open>
  No configured secret occurs in a text of sanitized arguments or of a sanitized result, everything under
  a sensitive key is replaced by the mark, and sanitizing arguments again changes nothing; for
  secrets that are no part of the mark.
\<close>
theorem sanitized_hides_secrets:
  assumes "\<forall>t \<in> set S. unlike_mark t"
  shows "\<forall>t \<in> set S. \<forall>u \<in> set (texts_of (sanitize S v)) \<union> set (texts_of (sanitize_result S v)). \<not> contains t u"
    and "\<forall>(k, w) \<in> set (fields_of (sanitize S v)) \<union> set (fields_of (sanitize_result S v)).
      sensitive_key k \<longrightarrow> w = JStr redaction_mark"
    and "sanitize S (sanitize S v) = sanitize S v"
proof -
  show "\<forall>t \<in> set S. \<forall>u \<in> set (texts_of (sanitize S v)) \<union> set (texts_of (sanitize_result S v)). \<not> contains t u"
    using assms sanitize_with_redacted [where S = S and v = v and g = "\<lambda>s. s"]
      sanitize_with_redacted [where S = S and v = v and g = "re_sub untrusted_instruction (lit ''[filtered untrusted instruction]'')"]
    by (auto simp: sanitize_def sanitize_result_def)
  show "\<forall>(k, w) \<in> set (fields_of (sanitize S v)) \<union> set (fields_of (sanitize_result S v)).
      sensitive_key k \<longrightarrow> w = JStr redaction_mark"
    using sanitized_fields by (auto simp: sanitize_def sanitize_result_def)
  have "redact S (redact S s) = redact S s" for s
    using assms by (intro redact_absent) (auto simp: unlike_mark_def redact_removes)
  then show "sanitize S (sanitize S v) = sanitize S v"
    unfolding sanitize_def by (rule sanitize_with_again)
qed

lemma sanitized_hides_secrets_witness:
  "\<not> contains (lit ''hunter2'') (redact [lit ''hunter2''] (lit ''use hunter2 now''))"
proof -
  have "unlike_mark (lit ''hunter2'')" by (simp add: unlike_mark_def lit_def)
  then have "\<forall>t \<in> set [lit ''hunter2'']. unlike_mark t" by simp
  from sanitized_hides_secrets(1) [OF this, of "JStr (lit ''use hunter2 now'')"] show ?thesis
    by (simp add: sanitize_def)
qed

end
