(* ===== verification/Mcp_Targets.thy ===== *)
theory Mcp_Targets
  imports Redaction
begin

text \<open>
  Which hosts an MCP server may live on: addresses (the module \<open>ipaddress\<close> as far as it is used),
  URLs of providers (src/backend/app/services/provider_urls.py) and the checked target of a
  connection (\<open>_resolve_http_target\<close> of application/mcp_service.py). Splitting and joining URLs and
  resolving names are ports.
\<close>

subsection \<open>Addresses\<close>

datatype ip_address = IPv4 int | IPv6 int "ustr option"

definition ascii_digit :: "nat \<Rightarrow> bool" where
  "ascii_digit c \<longleftrightarrow> 48 \<le> c \<and> c \<le> 57"

definition number_in :: "int \<Rightarrow> int list \<Rightarrow> int" where
  "number_in base ds = foldl (\<lambda>n d. base * n + d) 0 ds"

text \<open>\<open>_parse_octet\<close>\<close>

definition parse_octet :: "ustr \<Rightarrow> int option" where
  "parse_octet s =
     (let n = number_in 10 (map (\<lambda>c. int c - 48) s)
      in if s = [] \<or> \<not> list_all ascii_digit s \<or> 3 < length s \<or> (s \<noteq> lit ''0'' \<and> hd s = 48) \<or> 255 < n then None else Some n)"

definition all_some :: "'a option list \<Rightarrow> 'a list option" where
  "all_some xs = (if None \<in> set xs then None else Some (map the xs))"

definition parse_ipv4 :: "ustr \<Rightarrow> int option" where
  "parse_ipv4 s =
     (let octets = split_on 46 s
      in if length octets \<noteq> 4 then None else map_option (number_in 256) (all_some (map parse_octet octets)))"

definition hex_digit :: "nat \<Rightarrow> int option" where
  "hex_digit c =
     (if ascii_digit c then Some (int c - 48) else if 97 \<le> c \<and> c \<le> 102 then Some (int c - 87)
      else if 65 \<le> c \<and> c \<le> 70 then Some (int c - 55) else None)"

definition parse_hextet :: "ustr \<Rightarrow> int option" where
  "parse_hextet s =
     (if s = [] \<or> 4 < length s then None else map_option (number_in 16) (all_some (map hex_digit s)))"

text \<open>The parts between the colons, an IPv4 suffix as two numbers; \<open>Inl\<close> is text, \<open>Inr\<close> a number.\<close>

definition ipv6_parts :: "ustr \<Rightarrow> (ustr + int) list option" where
  "ipv6_parts s =
     (let parts = split_on 58 s; suffix = last parts
      in if s = [] \<or> length parts < 3 then None
         else if 46 \<in> set suffix
         then map_option (\<lambda>n. map Inl (butlast parts) @ [Inr (n div 65536), Inr (n mod 65536)]) (parse_ipv4 suffix)
         else Some (map Inl parts))"

definition part_value :: "ustr + int \<Rightarrow> int option" where
  "part_value p = (case p of Inl s \<Rightarrow> parse_hextet s | Inr n \<Rightarrow> Some n)"

definition is_gap :: "ustr + int \<Rightarrow> bool" where
  "is_gap p \<longleftrightarrow> p = Inl []"

definition gaps :: "(ustr + int) list \<Rightarrow> nat list" where
  "gaps parts = filter (\<lambda>i. is_gap (parts ! i)) [1..<length parts - 1]"

definition hextets_value :: "(ustr + int) list \<Rightarrow> nat \<Rightarrow> (ustr + int) list \<Rightarrow> int option" where
  "hextets_value hi skipped lo =
     map_option (number_in 65536)
       (all_some (map part_value hi @ replicate skipped (Some 0) @ map part_value lo))"

definition ipv6_value :: "(ustr + int) list \<Rightarrow> int option" where
  "ipv6_value parts =
     (if 9 < length parts then None
      else case gaps parts of
        [] \<Rightarrow> if length parts \<noteq> 8 \<or> is_gap (hd parts) \<or> is_gap (last parts) then None else hextets_value parts 0 []
      | [i] \<Rightarrow>
          let front = is_gap (hd parts); back = is_gap (last parts);
              hi = (if front then i - 1 else i);
              lo = (if back then length parts - i - 2 else length parts - i - 1)
          in if (front \<and> hi \<noteq> 0) \<or> (back \<and> lo \<noteq> 0) \<or> 8 \<le> hi + lo then None
             else hextets_value (take hi parts) (8 - (hi + lo)) (drop (length parts - lo) parts)
      | _ \<Rightarrow> None)"

text \<open>\<open>_split_scope_id\<close>\<close>

definition split_scope :: "ustr \<Rightarrow> (ustr \<times> ustr option) option" where
  "split_scope s =
     (let address = takeWhile (\<lambda>c. c \<noteq> 37) s; rest = drop (length address) s
      in if rest = [] then Some (address, None)
         else if tl rest = [] \<or> 37 \<in> set (tl rest) then None else Some (address, Some (tl rest)))"

definition parse_ipv6 :: "ustr \<Rightarrow> ip_address option" where
  "parse_ipv6 s =
     (if 47 \<in> set s then None
      else Option.bind (split_scope s) (\<lambda>(address, scope).
           map_option (\<lambda>n. IPv6 n scope) (Option.bind (ipv6_parts address) ipv6_value)))"

definition parse_ip :: "ustr \<Rightarrow> ip_address option" where
  "parse_ip s = (case parse_ipv4 s of Some n \<Rightarrow> Some (IPv4 n) | None \<Rightarrow> parse_ipv6 s)"

fun ipv4_mapped :: "ip_address \<Rightarrow> ip_address" where
  "ipv4_mapped (IPv6 n scope) = (if n div 2 ^ 32 = 65535 then IPv4 (n mod 2 ^ 32) else IPv6 n scope)"
| "ipv4_mapped (IPv4 n) = IPv4 n"

definition normalized_address :: "ustr \<Rightarrow> ip_address option" where
  "normalized_address s = map_option ipv4_mapped (parse_ip s)"

fun is_link_local :: "ip_address \<Rightarrow> bool" where
  "is_link_local (IPv4 n) = (n div 2 ^ 16 = 43518)"
| "is_link_local (IPv6 n scope) = (n div 2 ^ 118 = 1018)"

definition metadata_addresses :: "ip_address list" where
  "metadata_addresses =
     [IPv4 2852039166, IPv4 1684301000, IPv6 336294982257581694735330614659971547732 None]"

definition is_unsafe_target :: "ustr \<Rightarrow> bool" where
  "is_unsafe_target s =
     (case normalized_address s of None \<Rightarrow> True | Some a \<Rightarrow> is_link_local a \<or> a \<in> set metadata_addresses)"

subsection \<open>Provider URLs\<close>

text \<open>\<open>urlsplit\<close> with the attributes the code reads; \<open>None\<close> is its ValueError or that of \<open>port\<close>.\<close>

record url_parts =
  up_scheme :: ustr
  up_host :: "ustr option"
  up_user :: "ustr option"
  up_password :: "ustr option"
  up_port :: "nat option"
  up_path :: ustr
  up_query :: ustr

record url_ports =
  ul_split :: "ustr \<Rightarrow> url_parts option"
  ul_unsplit :: "ustr \<Rightarrow> ustr \<Rightarrow> ustr \<Rightarrow> ustr \<Rightarrow> ustr"
  ul_query :: "ustr \<Rightarrow> (ustr \<times> ustr) list"
  ul_encode :: "(ustr \<times> ustr) list \<Rightarrow> ustr"
  ul_lower :: "ustr \<Rightarrow> ustr"
  ul_resolve :: "ustr \<Rightarrow> ustr list option"

definition http_schemes :: "ustr list" where
  "http_schemes = [lit ''http'', lit ''https'']"

definition bracketed :: "ustr \<Rightarrow> ustr" where
  "bracketed host = (if 58 \<in> set host \<and> \<not> prefix [91] host then [91] @ host @ [93] else host)"

definition default_port :: "ustr \<Rightarrow> nat option" where
  "default_port scheme =
     (if scheme = lit ''https'' then Some 443 else if scheme = lit ''http'' then Some 80 else None)"

definition canonicalize_provider_base_url :: "url_ports \<Rightarrow> ustr \<Rightarrow> ustr option" where
  "canonicalize_provider_base_url U url =
     Option.bind (ul_split U (strip url)) (\<lambda>p.
       (case up_host p of
          None \<Rightarrow> None
        | Some h \<Rightarrow>
            if ul_lower U (up_scheme p) \<notin> set http_schemes \<or> h = [] \<or> up_user p \<noteq> None \<or> up_password p \<noteq> None then None
            else let scheme = ul_lower U (up_scheme p); host = bracketed (ul_lower U h);
                     netloc = (case up_port p of None \<Rightarrow> host
                       | Some n \<Rightarrow> if default_port scheme = Some n then host else host @ [58] @ lit (str_of_nat n));
                     path = rstrip_of (\<lambda>c. c = 47) (up_path p)
                 in Some (ul_unsplit U scheme netloc (if path = [] then [47] else path)
                      (ul_encode U (sort (ul_query U (up_query p)))))))"

definition signed_query_names :: "string list" where
  "signed_query_names =
     [''awsaccesskeyid'', ''googleaccessid'', ''accesstoken'', ''clientsecret'', ''subscriptionkey'', ''skoid'', ''sktid'',
      ''skt'', ''ske'', ''sks'', ''skv'', ''sig'', ''se'', ''ss'', ''srt'', ''st'', ''sp'', ''spr'', ''sr'', ''sv'']"

definition sensitive_segment :: regex where
  "sensitive_segment =
     seq_of [Alt at_start dash,
       any_of [seq_of [caseless ''api'', Opt dash, caseless ''key''], Cat (caseless ''auth'') (Opt (caseless ''orization'')),
         Cat (caseless ''credential'') (Opt (caseless ''s'')), caseless ''password'', Cat (caseless ''secret'') (Opt (caseless ''s'')),
         Cat (caseless ''token'') (Opt (caseless ''s'')), Cat (caseless ''key'') (Opt (caseless ''s'')),
         Cat (caseless ''sig'') (Opt (caseless ''nature''))],
       Alt at_end dash]"

definition has_sensitive_query_name :: "url_ports \<Rightarrow> ustr \<Rightarrow> bool" where
  "has_sensitive_query_name U url =
     (case ul_split U url of
        None \<Rightarrow> True
      | Some p \<Rightarrow> list_ex (\<lambda>(name, _). ul_lower U name \<in> set (map lit signed_query_names) \<or> search sensitive_segment name)
          (ul_query U (up_query p)))"

subsection \<open>The target of a connection\<close>

record http_target =
  ht_url :: ustr
  ht_host :: ustr
  ht_port :: nat
  ht_pinned :: ip_address

definition host_addresses :: "url_ports \<Rightarrow> ustr \<Rightarrow> ustr list" where
  "host_addresses U host =
     (if parse_ip host \<noteq> None then [host] else case ul_resolve U host of None \<Rightarrow> [] | Some xs \<Rightarrow> xs)"

text \<open>Every refusal is the same \<open>McpConfigurationError\<close>, here \<open>None\<close>.\<close>

definition resolve_http_target :: "url_ports \<Rightarrow> ustr \<Rightarrow> http_target option" where
  "resolve_http_target U url =
     Option.bind (canonicalize_provider_base_url U url) (\<lambda>canonical.
     Option.bind (ul_split U canonical) (\<lambda>p.
       (case up_host p of
          None \<Rightarrow> None
        | Some host \<Rightarrow>
            if up_scheme p \<notin> set http_schemes \<or> host = [] \<or> up_user p \<noteq> None \<or> up_password p \<noteq> None
               \<or> has_sensitive_query_name U canonical then None
            else let addresses = host_addresses U host
                 in if addresses = [] \<or> list_ex is_unsafe_target addresses then None
                    else Option.bind (normalized_address (hd addresses)) (\<lambda>pinned.
                      Some \<lparr>ht_url = canonical, ht_host = host,
                        ht_port = (case up_port p of Some (Suc n) \<Rightarrow> Suc n
                          | _ \<Rightarrow> if up_scheme p = lit ''https'' then 443 else 80),
                        ht_pinned = pinned\<rparr>))))"

definition validate_mcp_http_url :: "url_ports \<Rightarrow> ustr \<Rightarrow> ustr option" where
  "validate_mcp_http_url U url = map_option ht_url (resolve_http_target U url)"

subsection \<open>What a target cannot be\<close>

lemma all_some_Some: "all_some xs = Some ys \<longleftrightarrow> xs = map Some ys"
  by (auto simp: all_some_def map_idI split: if_splits) (metis (no_types, lifting) map_idI not_None_eq option.sel comp_apply)

lemma number_in_range:
  assumes "\<forall>d \<in> set ds. 0 \<le> d \<and> d < b" "0 < b" shows "0 \<le> number_in b ds \<and> number_in b ds < b ^ length ds"
  using assms(1)
proof (induction ds rule: rev_induct)
  case (snoc d ds)
  then have "0 \<le> number_in b ds" "number_in b ds + 1 \<le> b ^ length ds" "0 \<le> d" "d < b" by auto
  moreover from this(2) have "b * (number_in b ds + 1) \<le> b * b ^ length ds"
    using assms(2) by (intro mult_left_mono) auto
  ultimately show ?case using assms(2) by (simp add: number_in_def algebra_simps)
qed (simp add: number_in_def)

lemma parse_octet_range: "parse_octet s = Some n \<Longrightarrow> 0 \<le> n \<and> n < 256"
proof -
  assume s: "parse_octet s = Some n"
  then have "\<forall>d \<in> set (map (\<lambda>c. int c - 48) s). 0 \<le> d \<and> d < (10 :: int)"
    by (auto simp: parse_octet_def Let_def ascii_digit_def list_all_iff split: if_splits)
  from number_in_range [OF this] s show ?thesis
    by (simp add: parse_octet_def Let_def split: if_splits)
qed

lemma parse_ipv4_range: "parse_ipv4 s = Some n \<Longrightarrow> 0 \<le> n \<and> n < 2 ^ 32"
proof -
  assume "parse_ipv4 s = Some n"
  then obtain ns where ns: "map parse_octet (split_on 46 s) = map Some ns" "n = number_in 256 ns" "length (split_on 46 s) = 4"
    by (auto simp: parse_ipv4_def Let_def all_some_Some split: if_splits)
  then have l: "length ns = 4" by (metis length_map)
  have "\<forall>d \<in> set ns. 0 \<le> d \<and> d < (256 :: int)"
  proof
    fix d assume "d \<in> set ns"
    then have "Some d \<in> set (map parse_octet (split_on 46 s))" using ns(1) by simp
    then show "0 \<le> d \<and> d < 256" using parse_octet_range by auto
  qed
  from number_in_range [OF this] l show ?thesis by (simp add: ns(2))
qed

lemma split_on_from_absent: "sep \<notin> set s \<Longrightarrow> split_on_from sep cur s = [cur @ s]"
  by (induction sep cur s rule: split_on_from.induct) auto

lemma split_on_from_append:
  "sep \<notin> set u \<Longrightarrow> split_on_from sep cur (u @ sep # v) = (cur @ u) # split_on_from sep [] v"
  by (induction u arbitrary: cur) auto

lemma split_on_absent: "sep \<notin> set s \<Longrightarrow> split_on sep s = [s]"
  by (simp add: split_on_def split_on_from_absent)

lemma split_on_append: "sep \<notin> set u \<Longrightarrow> split_on sep (u @ sep # v) = u # split_on sep v"
  by (simp add: split_on_def split_on_from_append)

lemma split_on_from_chars: "c \<in> set s \<Longrightarrow> c = sep \<or> (\<exists>p \<in> set (split_on_from sep cur s). c \<in> set p)"
proof -
  assume c: "c \<in> set s"
  have j: "c' \<in> set (join [sep] ps) \<Longrightarrow> c' = sep \<or> (\<exists>p \<in> set ps. c' \<in> set p)" for c' ps
    by (induction "[sep]" ps rule: join.induct) auto
  show ?thesis by (rule j) (use c in \<open>simp add: split_on_from_join\<close>)
qed

lemma parse_ipv4_chars: "parse_ipv4 s = Some n \<Longrightarrow> c \<in> set s \<Longrightarrow> ascii_digit c \<or> c = 46"
proof -
  assume s: "parse_ipv4 s = Some n" and c: "c \<in> set s"
  from s obtain ns where "map parse_octet (split_on 46 s) = map Some ns"
    by (auto simp: parse_ipv4_def Let_def all_some_Some split: if_splits)
  moreover have "p \<in> set (split_on 46 s) \<Longrightarrow> parse_octet p \<in> set (map parse_octet (split_on 46 s))" for p
    by simp
  ultimately have digits: "list_all ascii_digit p" if "p \<in> set (split_on 46 s)" for p
    using that by (fastforce simp: parse_octet_def Let_def split: if_splits)
  from split_on_from_chars [OF c, of 46 "[]"] digits show ?thesis
    by (auto simp: split_on_def list_all_iff)
qed

lemma parse_ipv4_dot: "parse_ipv4 s = Some n \<Longrightarrow> 46 \<in> set s"
proof (rule ccontr)
  assume "parse_ipv4 s = Some n" "46 \<notin> set s"
  then show False using split_on_absent [of 46 s] by (simp add: parse_ipv4_def)
qed

text \<open>The notation \<open>::ffff:a.b.c.d\<close> of an IPv4 address.\<close>

lemma mapped_parts:
  assumes "parse_ipv4 s = Some n"
  shows "ipv6_parts (lit ''::ffff:'' @ s) = Some [Inl [], Inl [], Inl (lit ''ffff''), Inr (n div 65536), Inr (n mod 65536)]"
proof -
  have 58: "58 \<notin> set s" using parse_ipv4_chars [OF assms, of 58] by (simp add: ascii_digit_def) blast
  have "lit ''::ffff:'' @ s = [] @ 58 # [] @ 58 # lit ''ffff'' @ 58 # s" by (simp add: lit_def)
  moreover have "split_on 58 ([] @ 58 # [] @ 58 # lit ''ffff'' @ 58 # s) = [[], [], lit ''ffff'', s]"
    using 58 split_on_append [of 58 "[]" "[] @ 58 # lit ''ffff'' @ 58 # s"] split_on_append [of 58 "[]" "lit ''ffff'' @ 58 # s"]
      split_on_append [of 58 "lit ''ffff''" s] split_on_absent [of 58 s]
    by (simp add: lit_def)
  ultimately have split: "split_on 58 (lit ''::ffff:'' @ s) = [[], [], lit ''ffff'', s]" by simp
  have "lit ''::ffff:'' @ s \<noteq> []" by (simp add: lit_def)
  then show ?thesis using parse_ipv4_dot [OF assms] assms by (simp add: ipv6_parts_def split Let_def)
qed

lemma mapped_value:
  assumes "0 \<le> n" "n < 2 ^ 32"
  shows "ipv6_value [Inl [], Inl [], Inl (lit ''ffff''), Inr (n div 65536), Inr (n mod 65536)] = Some (65535 * 2 ^ 32 + n)"
proof -
  have g: "gaps [Inl [], Inl [], Inl (lit ''ffff''), Inr (n div 65536), Inr (n mod 65536)] = [1]"
    by (simp add: gaps_def is_gap_def lit_def upt_rec)
  have h: "part_value (Inl (lit ''ffff'')) = Some 65535" by code_simp
  have "65536 * (n div 65536) + n mod 65536 = n" by simp
  then show ?thesis
    by (simp add: ipv6_value_def g is_gap_def hextets_value_def part_value_def [of "Inr _"] h all_some_def number_in_def Let_def
        eval_nat_numeral)
qed

lemma split_scope_none: "37 \<notin> set s \<Longrightarrow> split_scope s = Some (s, None)"
proof -
  assume "37 \<notin> set s"
  then have "takeWhile (\<lambda>c. c \<noteq> 37) s = s" by (induction s) auto
  then show ?thesis unfolding split_scope_def Let_def by (simp only: drop_all order_refl simp_thms if_True)
qed

lemma split_scope_some:
  assumes "37 \<notin> set s" "scope \<noteq> []" "37 \<notin> set scope"
  shows "split_scope (s @ 37 # scope) = Some (s, Some scope)"
proof -
  have "takeWhile (\<lambda>c. c \<noteq> 37) (s @ 37 # scope) = s" using assms(1) by (induction s) auto
  with assms(2,3) show ?thesis unfolding split_scope_def Let_def by simp
qed

lemma mapped_address:
  assumes "parse_ipv4 s = Some n" shows "normalized_address (lit ''::ffff:'' @ s) = Some (IPv4 n)"
proof -
  have chars: "c \<in> set s \<Longrightarrow> ascii_digit c \<or> c = 46" for c using parse_ipv4_chars [OF assms] .
  have "58 \<notin> set s" "47 \<notin> set s" "37 \<notin> set s"
    using chars [of 58] chars [of 47] chars [of 37] by (auto simp: ascii_digit_def)
  then have plain: "47 \<notin> set (lit ''::ffff:'' @ s)" "37 \<notin> set (lit ''::ffff:'' @ s)" by (auto simp: lit_def)
  from this(2) have "split_scope (lit ''::ffff:'' @ s) = Some (lit ''::ffff:'' @ s, None)"
    by (rule split_scope_none)
  moreover have "parse_ipv4 (lit ''::ffff:'' @ s) = None"
  proof (rule ccontr)
    assume "parse_ipv4 (lit ''::ffff:'' @ s) \<noteq> None"
    then obtain m where "parse_ipv4 (lit ''::ffff:'' @ s) = Some m" by auto
    from parse_ipv4_chars [OF this, of 58] show False by (auto simp: lit_def ascii_digit_def)
  qed
  moreover have "(65535 * 2 ^ 32 + n) div 2 ^ 32 = 65535"
    using parse_ipv4_range [OF assms] by (subst div_mult_self3) simp_all
  moreover have "(65535 * 2 ^ 32 + n) mod 2 ^ 32 = n"
    using parse_ipv4_range [OF assms] by (subst mod_mult_self3) simp_all
  ultimately show ?thesis
    using parse_ipv4_range [OF assms] plain(1)
    by (simp add: normalized_address_def parse_ip_def parse_ipv6_def mapped_parts [OF assms] mapped_value)
qed

text \<open>
  Which notations of an address the guard against metadata services sees. The IPv6 notation of an IPv4
  address is judged as that address; the IPv6 metadata address is refused as such and
  accepted when a scope is appended, since an address with a scope differs from one without.
\<close>
theorem address_notations:
  shows "parse_ipv4 s = Some n \<Longrightarrow> is_unsafe_target (lit ''::ffff:'' @ s) = is_unsafe_target s"
    and "is_unsafe_target (lit ''fd00:ec2::254'')"
    and "scope \<noteq> [] \<Longrightarrow> 37 \<notin> set scope \<Longrightarrow> 47 \<notin> set scope \<Longrightarrow> \<not> is_unsafe_target (lit ''fd00:ec2::254'' @ 37 # scope)"
proof -
  show "is_unsafe_target (lit ''::ffff:'' @ s) = is_unsafe_target s" if "parse_ipv4 s = Some n"
  proof -
    have "normalized_address s = Some (IPv4 n)" using that by (simp add: normalized_address_def parse_ip_def)
    then show ?thesis unfolding is_unsafe_target_def mapped_address [OF that] by simp
  qed
  show "is_unsafe_target (lit ''fd00:ec2::254'')" by code_simp
  assume scope: "scope \<noteq> []" "37 \<notin> set scope" "47 \<notin> set scope"
  let ?a = "lit ''fd00:ec2::254''"
  have parts: "Option.bind (ipv6_parts ?a) ipv6_value = Some 336294982257581694735330614659971547732" by code_simp
  have "37 \<notin> set ?a" "47 \<notin> set (?a @ 37 # scope)" using scope by (simp_all add: lit_def)
  moreover have "parse_ipv4 (?a @ 37 # scope) = None"
  proof (rule ccontr)
    assume "parse_ipv4 (?a @ 37 # scope) \<noteq> None"
    then obtain m where "parse_ipv4 (?a @ 37 # scope) = Some m" by auto
    from parse_ipv4_chars [OF this, of 37] show False by (simp add: ascii_digit_def)
  qed
  ultimately have "normalized_address (?a @ 37 # scope) = Some (IPv6 336294982257581694735330614659971547732 (Some scope))"
    using split_scope_some [of ?a scope] scope parts
    by (simp add: normalized_address_def parse_ip_def parse_ipv6_def)
  then show "\<not> is_unsafe_target (?a @ 37 # scope)"
    by (simp add: is_unsafe_target_def metadata_addresses_def)
qed

lemma address_notations_witness:
  "is_unsafe_target (lit ''::ffff:169.254.169.254'') \<and> \<not> is_unsafe_target (lit ''fd00:ec2::254%1'')"
proof -
  have "parse_ipv4 (lit ''169.254.169.254'') = Some 2852039166" by code_simp
  from address_notations(1) [OF this] have "is_unsafe_target (lit ''::ffff:169.254.169.254'') = is_unsafe_target (lit ''169.254.169.254'')"
    by (simp add: lit_def)
  moreover have "is_unsafe_target (lit ''169.254.169.254'')" by code_simp
  moreover have "\<not> is_unsafe_target (lit ''fd00:ec2::254%1'')"
    using address_notations(3) [of "lit ''1''"] by (simp add: lit_def)
  ultimately show ?thesis by simp
qed

lemma resolve_http_target_elim:
  assumes "resolve_http_target U url = Some t"
  obtains p where "ul_split U (ht_url t) = Some p" "up_host p = Some (ht_host t)"
    "up_scheme p \<in> set http_schemes" "up_user p = None" "up_password p = None" "\<not> has_sensitive_query_name U (ht_url t)"
    "host_addresses U (ht_host t) \<noteq> []" "\<not> list_ex is_unsafe_target (host_addresses U (ht_host t))"
    "normalized_address (hd (host_addresses U (ht_host t))) = Some (ht_pinned t)"
  using assms by (auto simp: resolve_http_target_def Let_def bind_eq_Some_conv split: option.splits if_splits)

lemma resolved_target_safe:
  assumes "resolve_http_target U url = Some t"
  shows "\<not> is_link_local (ht_pinned t) \<and> ht_pinned t \<notin> set metadata_addresses"
  using assms
proof (cases rule: resolve_http_target_elim)
  case (1 p)
  then have "\<not> is_unsafe_target (hd (host_addresses U (ht_host t)))" by (auto simp: list_ex_iff)
  with 1(9) show ?thesis by (simp add: is_unsafe_target_def)
qed

text \<open>
  A connection over HTTP goes to a pinned address that is neither link-local nor a listed
  metadata address, of a host all of whose addresses are so, over HTTP or HTTPS, without
  credentials or sensitive parameters in its URL.
\<close>
theorem http_target_safe:
  assumes "resolve_http_target U url = Some t"
  shows "\<exists>p. ul_split U (ht_url t) = Some p \<and> up_scheme p \<in> set http_schemes \<and> up_user p = None \<and> up_password p = None
      \<and> up_host p = Some (ht_host t) \<and> \<not> has_sensitive_query_name U (ht_url t)"
    and "list_all (\<lambda>a. \<not> is_unsafe_target a) (host_addresses U (ht_host t))"
    and "\<exists>a \<in> set (host_addresses U (ht_host t)). normalized_address a = Some (ht_pinned t)"
    and "\<not> is_link_local (ht_pinned t) \<and> ht_pinned t \<notin> set metadata_addresses"
proof -
  obtain p where p: "ul_split U (ht_url t) = Some p" "up_host p = Some (ht_host t)"
      "up_scheme p \<in> set http_schemes" "up_user p = None" "up_password p = None" "\<not> has_sensitive_query_name U (ht_url t)"
    and safe: "host_addresses U (ht_host t) \<noteq> []" "\<not> list_ex is_unsafe_target (host_addresses U (ht_host t))"
    and pin: "normalized_address (hd (host_addresses U (ht_host t))) = Some (ht_pinned t)"
    using assms by (rule resolve_http_target_elim)
  from p show "\<exists>p. ul_split U (ht_url t) = Some p \<and> up_scheme p \<in> set http_schemes \<and> up_user p = None \<and> up_password p = None
      \<and> up_host p = Some (ht_host t) \<and> \<not> has_sensitive_query_name U (ht_url t)" by blast
  show "list_all (\<lambda>a. \<not> is_unsafe_target a) (host_addresses U (ht_host t))"
    using safe(2) by (simp add: list_all_iff list_ex_iff)
  have "hd (host_addresses U (ht_host t)) \<in> set (host_addresses U (ht_host t))" using safe(1) by simp
  with pin show "\<exists>a \<in> set (host_addresses U (ht_host t)). normalized_address a = Some (ht_pinned t)" by blast
  show "\<not> is_link_local (ht_pinned t) \<and> ht_pinned t \<notin> set metadata_addresses" by (rule resolved_target_safe [OF assms])
qed

definition sample_url_ports :: url_ports where
  "sample_url_ports =
     \<lparr>ul_split = (\<lambda>_. Some \<lparr>up_scheme = lit ''http'', up_host = Some (lit ''1.2.3.4''), up_user = None, up_password = None,
        up_port = None, up_path = lit ''/'', up_query = []\<rparr>),
      ul_unsplit = (\<lambda>scheme netloc path query. scheme @ lit ''://'' @ netloc @ path), ul_query = (\<lambda>_. []),
      ul_encode = (\<lambda>_. []), ul_lower = (\<lambda>s. s), ul_resolve = (\<lambda>_. None)\<rparr>"

lemma http_target_safe_witness:
  "\<exists>t. resolve_http_target sample_url_ports (lit ''http://1.2.3.4'') = Some t \<and> \<not> is_link_local (ht_pinned t)"
proof -
  let ?host = "lit ''1.2.3.4''"
  have ip: "parse_ip ?host = Some (IPv4 16909060)" by code_simp
  then have "normalized_address ?host = Some (IPv4 16909060)" by (simp add: normalized_address_def)
  moreover from this have "\<not> is_unsafe_target ?host" by (simp add: is_unsafe_target_def metadata_addresses_def)
  moreover have "host_addresses sample_url_ports ?host = [?host]" using ip by (simp add: host_addresses_def)
  moreover have "?host \<noteq> []" by (simp add: lit_def)
  ultimately obtain t where "resolve_http_target sample_url_ports (lit ''http://1.2.3.4'') = Some t"
    by (simp add: resolve_http_target_def canonicalize_provider_base_url_def has_sensitive_query_name_def Let_def)
      (simp add: sample_url_ports_def http_schemes_def has_sensitive_query_name_def Let_def)
  with http_target_safe(4) [OF this] show ?thesis by blast
qed

end
