(* ===== verification/Mcp_Service.thy ===== *)
theory Mcp_Service
  imports Mcp_Targets "HOL-Library.Countable"
begin

text \<open>
  Discovery and invocation of the tools of a user's MCP servers
  (src/backend/app/application/mcp_service.py). The wire is a port: opening a session, listing a page of
  tools and calling a tool return a value or raise; whether the transport saw too much output is another.
  A connection, the checks before it, the catalog kept of the tools and the normal form of a result
  are the code's. A call is recorded where it leaves for the server.

  What a session raises: an \<open>McpServiceError\<close> with its code, a TimeoutError, a group of exceptions or
  anything else. An operation of the service raises one of these or returns.
\<close>

subsection \<open>Errors\<close>

datatype mcp_raised = Raised string | TimedOut | Group "mcp_raised list" | OtherRaised

fun find_mcp_error :: "mcp_raised \<Rightarrow> string option" where
  "find_mcp_error (Raised code) = Some code"
| "find_mcp_error (Group es) = foldr (\<lambda>found later. if found = None then later else found) (map find_mcp_error es) None"
| "find_mcp_error TimedOut = None"
| "find_mcp_error OtherRaised = None"

definition error_code :: "string \<Rightarrow> mcp_raised \<Rightarrow> string" where
  "error_code other e = (case find_mcp_error e of Some code \<Rightarrow> code | None \<Rightarrow> other)"

subsection \<open>Tables and ports\<close>

record mcp_server =
  mv_id :: ustr
  mv_user :: ustr
  mv_name :: ustr
  mv_transport :: string
  mv_url :: "ustr option"
  mv_command :: "ustr option"
  mv_args :: "ustr list"
  mv_cwd :: "ustr option"
  mv_env :: metadata
  mv_enabled :: bool
  mv_fingerprint :: "ustr option"
  mv_trusted_at :: "int option"
  mv_test_status :: "string option"
  mv_tested_at :: "int option"

record mcp_tool =
  mt_id :: ustr
  mt_server :: ustr
  mt_name :: ustr
  mt_title :: "ustr option"
  mt_description :: ustr
  mt_schema :: json
  mt_annotations :: metadata
  mt_enabled :: bool
  mt_discovered :: int

record secret_reference =
  sr_user :: ustr
  sr_owner_type :: string
  sr_owner :: ustr
  sr_slot :: ustr
  sr_ref :: ustr
  sr_configured :: bool

record mcp_db =
  md_servers :: "mcp_server list"
  md_tools :: "mcp_tool list"
  md_refs :: "secret_reference list"

datatype mcp_connection =
    HttpConnection ustr http_target "(ustr, ustr) dict"
  | StdioConnection ustr ustr "ustr list" "ustr option" "(ustr, ustr) dict"

record discovered_tool =
  dt_name :: ustr
  dt_title :: "ustr option"
  dt_description :: "ustr option"
  dt_schema :: json
  dt_annotations :: "metadata option"

record tool_page =
  pg_tools :: "discovered_tool list"
  pg_cursor :: "ustr option"
  pg_json :: json

record tool_reply =
  tr_error :: bool
  tr_structured :: "json option"
  tr_content :: "json list"

record mcp_env =
  me_urls :: url_ports
  me_digest :: "metadata \<Rightarrow> ustr"
  me_store :: "(ustr \<Rightarrow> ustr option) option"
  me_dumps :: "json \<Rightarrow> ustr option"
  me_raw_limit :: nat
  me_result_limit :: nat
  me_open :: "mcp_connection \<Rightarrow> mcp_raised option"
  me_list :: "mcp_connection \<Rightarrow> nat \<Rightarrow> ustr option \<Rightarrow> mcp_raised + tool_page"
  me_call :: "mcp_connection \<Rightarrow> ustr \<Rightarrow> metadata \<Rightarrow> mcp_raised + tool_reply"
  me_overflow :: "mcp_connection \<Rightarrow> bool"
  me_schema :: "json \<Rightarrow> metadata \<Rightarrow> port_error option"
  me_now :: int
  me_uuid :: "nat \<Rightarrow> ustr"

type_synonym mcp_call = "mcp_connection \<times> ustr \<times> metadata"

subsection \<open>Connections\<close>

definition stdio_trust_fingerprint :: "mcp_env \<Rightarrow> ustr \<Rightarrow> ustr list \<Rightarrow> ustr option \<Rightarrow> ustr" where
  "stdio_trust_fingerprint M command args cwd =
     me_digest M [(lit ''command'', JStr command), (lit ''args'', JList (map JStr args)),
       (lit ''working_directory'', case cwd of None \<Rightarrow> JNull | Some d \<Rightarrow> JStr d)]"

definition safe_header_char :: "nat \<Rightarrow> bool" where
  "safe_header_char c \<longleftrightarrow> ascii_digit c \<or> 65 \<le> c \<and> c \<le> 90 \<or> 97 \<le> c \<and> c \<le> 122
     \<or> c \<in> {33, 35, 36, 37, 38, 39, 42, 43, 45, 46, 94, 95, 96, 124, 126}"

definition safe_header_name :: "ustr \<Rightarrow> bool" where
  "safe_header_name s \<longleftrightarrow> s \<noteq> [] \<and> list_all safe_header_char s"

definition env_char :: "nat \<Rightarrow> bool" where
  "env_char c \<longleftrightarrow> 65 \<le> c \<and> c \<le> 90 \<or> 97 \<le> c \<and> c \<le> 122 \<or> c = 95"

definition safe_env_name :: "ustr \<Rightarrow> bool" where
  "safe_env_name s = (case s of [] \<Rightarrow> False | c # cs \<Rightarrow> env_char c \<and> list_all (\<lambda>d. env_char d \<or> ascii_digit d) cs)"

definition owned_refs :: "mcp_db \<Rightarrow> ustr \<Rightarrow> ustr \<Rightarrow> secret_reference list" where
  "owned_refs db user server =
     filter (\<lambda>r. sr_user r = user \<and> sr_owner_type r = ''mcp_server'' \<and> sr_owner r = server \<and> sr_configured r) (md_refs db)"

definition read_secret :: "(ustr \<Rightarrow> ustr option) \<Rightarrow> secret_reference \<Rightarrow> string + ustr \<times> ustr" where
  "read_secret store r =
     (case store (sr_ref r) of
        Some (c # cs) \<Rightarrow> Inr (sr_slot r, c # cs)
      | _ \<Rightarrow> Inl ''mcp.configuration_invalid'')"

definition secret_values :: "mcp_env \<Rightarrow> mcp_db \<Rightarrow> ustr \<Rightarrow> ustr \<Rightarrow> string + (ustr, ustr) dict" where
  "secret_values M db user server =
     (if owned_refs db user server = [] then Inr []
      else case me_store M of
        None \<Rightarrow> Inl ''mcp.configuration_invalid''
      | Some store \<Rightarrow> bind_res (traverse (read_secret store) (owned_refs db user server)) (\<lambda>vs. Inr (dict_of vs)))"

text \<open>\<open>slot.removeprefix(p)\<close> of the slots with the prefix.\<close>

definition slots_with :: "string \<Rightarrow> (ustr, ustr) dict \<Rightarrow> (ustr \<times> ustr) list" where
  "slots_with p d = map (\<lambda>(k, v). (drop (length p) k, v)) (filter (\<lambda>(k, _). prefix (lit p) k) d)"

definition header_entry :: "ustr \<times> ustr \<Rightarrow> string + ustr \<times> ustr" where
  "header_entry = (\<lambda>(name, v).
     if safe_header_name name \<and> 13 \<notin> set v \<and> 10 \<notin> set v then Inr (name, v) else Inl ''mcp.configuration_invalid'')"

definition env_entry :: "ustr \<times> ustr \<Rightarrow> string + ustr \<times> ustr" where
  "env_entry = (\<lambda>(name, v).
     if safe_env_name name \<and> 0 \<notin> set v then Inr (name, v) else Inl ''mcp.configuration_invalid'')"

definition stored_env_entry :: "ustr \<times> json \<Rightarrow> string + ustr \<times> ustr" where
  "stored_env_entry = (\<lambda>(name, j). case j of JStr v \<Rightarrow> env_entry (name, v) | _ \<Rightarrow> Inl ''mcp.configuration_invalid'')"

definition http_connection :: "mcp_env \<Rightarrow> mcp_db \<Rightarrow> ustr \<Rightarrow> mcp_server \<Rightarrow> string + mcp_connection \<times> (ustr, ustr) dict" where
  "http_connection M db user server =
     (case resolve_http_target (me_urls M) (case mv_url server of None \<Rightarrow> [] | Some u \<Rightarrow> u) of
        None \<Rightarrow> Inl ''mcp.configuration_invalid''
      | Some target \<Rightarrow>
          bind_res (secret_values M db user (mv_id server)) (\<lambda>secrets.
          bind_res (traverse header_entry (slots_with ''header:'' secrets)) (\<lambda>headers.
            Inr (HttpConnection (mv_id server) target (dict_of headers), secrets))))"

definition stdio_connection :: "mcp_env \<Rightarrow> mcp_db \<Rightarrow> ustr \<Rightarrow> mcp_server \<Rightarrow> string + mcp_connection \<times> (ustr, ustr) dict" where
  "stdio_connection M db user server =
     (case mv_command server of
        Some (c # cs) \<Rightarrow>
          if mv_transport server \<noteq> ''stdio'' then Inl ''mcp.configuration_invalid''
          else if mv_fingerprint server \<noteq> Some (stdio_trust_fingerprint M (c # cs) (mv_args server) (mv_cwd server))
          then Inl ''mcp.trust_required''
          else bind_res (secret_values M db user (mv_id server)) (\<lambda>secrets.
               bind_res (traverse stored_env_entry (mv_env server)) (\<lambda>stored.
               bind_res (traverse env_entry (slots_with ''env:'' secrets)) (\<lambda>extra.
                 Inr (StdioConnection (mv_id server) (c # cs) (mv_args server) (mv_cwd server) (dict_update stored extra), secrets))))
      | _ \<Rightarrow> Inl ''mcp.configuration_invalid'')"

definition connection_of :: "mcp_env \<Rightarrow> mcp_db \<Rightarrow> ustr \<Rightarrow> mcp_server \<Rightarrow> string + mcp_connection \<times> (ustr, ustr) dict" where
  "connection_of M db user server =
     (if mv_transport server = ''streamable_http'' then http_connection M db user server
      else stdio_connection M db user server)"

subsection \<open>Sessions\<close>

text \<open>Too much output turns any failure into that error, a TimeoutError is an error of the service.\<close>

definition session_result :: "mcp_env \<Rightarrow> mcp_connection \<Rightarrow> mcp_raised + 'a \<Rightarrow> mcp_raised + 'a" where
  "session_result M conn r =
     (case r of
        Inr v \<Rightarrow> Inr v
      | Inl e \<Rightarrow> Inl (if me_overflow M conn then Raised ''mcp.output_too_large''
                  else if e = TimedOut then Raised ''mcp.timeout'' else e))"

definition in_session :: "mcp_env \<Rightarrow> mcp_connection \<Rightarrow> (mcp_connection \<Rightarrow> mcp_raised + 'a) \<Rightarrow> mcp_raised + 'a" where
  "in_session M conn operation =
     session_result M conn (case me_open M conn of Some e \<Rightarrow> Inl e | None \<Rightarrow> operation conn)"

definition with_connection ::
  "mcp_env \<Rightarrow> mcp_db \<Rightarrow> ustr \<Rightarrow> mcp_server \<Rightarrow> (mcp_connection \<Rightarrow> mcp_raised + 'a) \<Rightarrow> mcp_raised + 'a \<times> ustr list" where
  "with_connection M db user server operation =
     (case connection_of M db user server of
        Inl code \<Rightarrow> Inl (Raised code)
      | Inr (conn, secrets) \<Rightarrow> bind_res (in_session M conn operation) (\<lambda>v. Inr (v, map snd secrets)))"

text \<open>\<open>len(text.encode("utf-8"))\<close>; a surrogate cannot be encoded.\<close>

definition utf8_width :: "nat \<Rightarrow> nat" where
  "utf8_width c = (if c < 128 then 1 else if c < 2048 then 2 else if c < 65536 then 3 else 4)"

definition utf8_size :: "ustr \<Rightarrow> nat option" where
  "utf8_size s = (if list_ex (\<lambda>c. 55296 \<le> c \<and> c \<le> 57343) s then None else Some (sum_list (map utf8_width s)))"

definition serialized_size :: "mcp_env \<Rightarrow> json \<Rightarrow> mcp_raised + nat" where
  "serialized_size M v =
     (case Option.bind (me_dumps M v) utf8_size of
        None \<Rightarrow> Inl (Raised ''mcp.output_invalid'')
      | Some n \<Rightarrow> if me_raw_limit M < n then Inl (Raised ''mcp.output_too_large'') else Inr n)"

subsection \<open>Discovery\<close>

definition owned_server :: "mcp_db \<Rightarrow> ustr \<Rightarrow> ustr \<Rightarrow> mcp_server option" where
  "owned_server db user i = find (\<lambda>s. mv_id s = i \<and> mv_user s = user) (md_servers db)"

text \<open>The loop over the pages; it may run for ever, so its value is an option.\<close>

partial_function (option) discover_loop ::
  "mcp_env \<Rightarrow> mcp_connection \<Rightarrow> nat \<Rightarrow> ustr option \<Rightarrow> ustr list \<Rightarrow> nat \<Rightarrow> discovered_tool list
     \<Rightarrow> (mcp_raised + discovered_tool list) option" where
  "discover_loop M conn n cursor seen bytes tools =
     (case bind_res (me_list M conn n cursor) (\<lambda>page. bind_res (serialized_size M (pg_json page)) (\<lambda>k. Inr (page, k))) of
        Inl e \<Rightarrow> Some (Inl e)
      | Inr (page, k) \<Rightarrow>
          if me_raw_limit M < bytes + k then Some (Inl (Raised ''mcp.output_too_large''))
          else case pg_cursor page of
            None \<Rightarrow> Some (Inr (tools @ pg_tools page))
          | Some c \<Rightarrow>
              if c \<in> set seen then Some (Inl (Raised ''mcp.pagination_invalid''))
              else discover_loop M conn (Suc n) (Some c) (c # seen) (bytes + k) (tools @ pg_tools page))"

text \<open>A page takes a byte at least, so within the limit there are at most that many pages.\<close>

lemma serialized_positive:
  assumes "\<And>v. me_dumps M v \<noteq> Some []" "serialized_size M v = Inr k" shows "0 < k"
proof -
  obtain s where s: "me_dumps M v = Some s" "utf8_size s = Some k"
    using assms(2) by (auto simp: serialized_size_def bind_eq_Some_conv split: option.splits if_splits)
  then obtain c cs where "s = c # cs" using assms(1) [of v] by (cases s) auto
  with s(2) show ?thesis by (auto simp: utf8_size_def utf8_width_def split: if_splits)
qed

lemma discover_loop_returns:
  assumes "\<And>v. me_dumps M v \<noteq> Some []" "bytes \<le> me_raw_limit M"
  shows "\<exists>r. discover_loop M conn n cursor seen bytes tools = Some r"
  using assms(2)
proof (induction "me_raw_limit M - bytes" arbitrary: n cursor seen bytes tools rule: less_induct)
  case less
  show ?case
  proof (cases "bind_res (me_list M conn n cursor) (\<lambda>page. bind_res (serialized_size M (pg_json page)) (\<lambda>k. Inr (page, k)))")
    case (Inl e)
    then show ?thesis by (simp add: discover_loop.simps)
  next
    case (Inr pk)
    then obtain page k where pk: "pk = (page, k)" "serialized_size M (pg_json page) = Inr k"
      by (auto simp: bind_res_Inr_iff)
    have "0 < k" using serialized_positive [OF assms(1) pk(2)] .
    show ?thesis
    proof (cases "me_raw_limit M < bytes + k")
      case False
      with \<open>0 < k\<close> have "me_raw_limit M - (bytes + k) < me_raw_limit M - bytes" "bytes + k \<le> me_raw_limit M" by auto
      then have "\<exists>r. discover_loop M conn (Suc n) (Some c) (c # seen) (bytes + k) (tools @ pg_tools page) = Some r" for c
        using less(1) by blast
      with Inr pk False show ?thesis by (cases "pg_cursor page") (auto simp: discover_loop.simps [of M conn n])
    qed (use Inr pk in \<open>simp add: discover_loop.simps\<close>)
  qed
qed

definition set_server :: "mcp_server \<Rightarrow> mcp_db \<Rightarrow> mcp_db" where
  "set_server s db = db\<lparr>md_servers := map (\<lambda>x. if mv_id x = mv_id s then s else x) (md_servers db)\<rparr>"

definition record_test :: "mcp_env \<Rightarrow> mcp_server \<Rightarrow> string \<Rightarrow> mcp_db \<Rightarrow> mcp_db" where
  "record_test M server status db =
     set_server (server\<lparr>mv_test_status := Some status, mv_tested_at := Some (me_now M)\<rparr>) db"

text \<open>The outcome of a test or a discovery: a code when it failed, the number of tools when discovery succeeded.\<close>

datatype mcp_outcome = Succeeded "nat option" | Failed string

definition test_operation :: "mcp_env \<Rightarrow> mcp_connection \<Rightarrow> mcp_raised + tool_page" where
  "test_operation M conn =
     bind_res (me_list M conn 0 None) (\<lambda>page. bind_res (serialized_size M (pg_json page)) (\<lambda>_. Inr page))"

definition test_server :: "mcp_env \<Rightarrow> ustr \<Rightarrow> ustr \<Rightarrow> mcp_db \<Rightarrow> (mcp_raised + mcp_outcome) \<times> mcp_db" where
  "test_server M user i db =
     (case owned_server db user i of
        None \<Rightarrow> (Inl (Raised ''mcp.not_found''), db)
      | Some server \<Rightarrow>
          (case with_connection M db user server (test_operation M) of
             Inl e \<Rightarrow> (Inr (Failed (error_code ''mcp.connection_failed'' e)), record_test M server ''failed'' db)
           | Inr _ \<Rightarrow> (Inr (Succeeded None), record_test M server ''success'' db)))"

subsection \<open>The catalog of tools\<close>

definition existing_tool :: "mcp_db \<Rightarrow> ustr \<Rightarrow> ustr \<Rightarrow> mcp_tool option" where
  "existing_tool db server name = find (\<lambda>t. mt_server t = server \<and> mt_name t = name) (md_tools db)"

text \<open>The row of a discovered tool: an existing one keeps its id and whether it is enabled.\<close>

definition catalog_row :: "mcp_env \<Rightarrow> mcp_db \<Rightarrow> ustr \<Rightarrow> nat \<Rightarrow> ustr \<Rightarrow> discovered_tool \<Rightarrow> mcp_tool" where
  "catalog_row M db server k name d =
     (let old = existing_tool db server name
      in \<lparr>mt_id = (case old of Some t \<Rightarrow> mt_id t | None \<Rightarrow> me_uuid M k), mt_server = server, mt_name = name,
          mt_title = (case dt_title d of Some (c # cs) \<Rightarrow> Some (take 255 (c # cs)) | _ \<Rightarrow> None),
          mt_description = (case dt_description d of Some s \<Rightarrow> s | None \<Rightarrow> []), mt_schema = dt_schema d,
          mt_annotations = (case dt_annotations d of Some a \<Rightarrow> a | None \<Rightarrow> []),
          mt_enabled = (case old of Some t \<Rightarrow> mt_enabled t | None \<Rightarrow> True), mt_discovered = me_now M\<rparr>)"

fun catalog_rows :: "mcp_env \<Rightarrow> mcp_db \<Rightarrow> ustr \<Rightarrow> nat \<Rightarrow> ustr list \<Rightarrow> discovered_tool list \<Rightarrow> string + mcp_tool list" where
  "catalog_rows M db server k names [] = Inr []"
| "catalog_rows M db server k names (d # ds) =
     (let name = strip (dt_name d)
      in if name = [] \<or> 128 < length name \<or> name \<in> set names then Inl ''mcp.catalog_invalid''
         else bind_res (catalog_rows M db server (Suc k) (name # names) ds) (\<lambda>rows.
           Inr (catalog_row M db server k name d # rows)))"

text \<open>Rows that are still offered stay where they are, the new ones follow, the others are deleted.\<close>

definition merge_rows :: "ustr \<Rightarrow> mcp_tool list \<Rightarrow> mcp_tool list \<Rightarrow> mcp_tool list" where
  "merge_rows server rows tools =
     List.map_filter (\<lambda>t. if mt_server t \<noteq> server then Some t else find (\<lambda>r. mt_name r = mt_name t) rows) tools
     @ filter (\<lambda>r. \<forall>t \<in> set tools. \<not> (mt_server t = server \<and> mt_name t = mt_name r)) rows"

definition replace_catalog :: "mcp_env \<Rightarrow> ustr \<Rightarrow> discovered_tool list \<Rightarrow> mcp_db \<Rightarrow> string + mcp_db" where
  "replace_catalog M server ds db =
     bind_res (catalog_rows M db server 0 [] ds) (\<lambda>rows. Inr (db\<lparr>md_tools := merge_rows server rows (md_tools db)\<rparr>))"

definition discovered :: "mcp_env \<Rightarrow> mcp_connection \<Rightarrow> mcp_raised + discovered_tool list" where
  "discovered M conn = (case discover_loop M conn 0 None [] 0 [] of Some r \<Rightarrow> r | None \<Rightarrow> Inl TimedOut)"

definition discover_server :: "mcp_env \<Rightarrow> ustr \<Rightarrow> ustr \<Rightarrow> mcp_db \<Rightarrow> (mcp_raised + mcp_outcome) \<times> mcp_db" where
  "discover_server M user i db =
     (case owned_server db user i of
        None \<Rightarrow> (Inl (Raised ''mcp.not_found''), db)
      | Some server \<Rightarrow>
          let r = bind_res (with_connection M db user server (discovered M)) (\<lambda>(tools, _).
                  case replace_catalog M i tools db of Inl code \<Rightarrow> Inl (Raised code) | Inr db' \<Rightarrow> Inr (tools, db'))
          in case r of
               Inl e \<Rightarrow> (Inr (Failed (error_code ''mcp.discovery_failed'' e)), record_test M server ''failed'' db)
             | Inr (tools, db') \<Rightarrow> (Inr (Succeeded (Some (length tools))), record_test M server ''success'' db'))"

subsection \<open>Invocation\<close>

definition enabled_tool :: "mcp_db \<Rightarrow> ustr \<Rightarrow> ustr \<Rightarrow> mcp_tool option" where
  "enabled_tool db server name = find (\<lambda>t. mt_server t = server \<and> mt_name t = name \<and> mt_enabled t) (md_tools db)"

definition schema_errors :: "string list" where
  "schema_errors = [''SchemaError'', ''ValidationError'', ''TypeError'']"

definition validate_arguments :: "mcp_env \<Rightarrow> json \<Rightarrow> metadata \<Rightarrow> mcp_raised + unit" where
  "validate_arguments M schema args =
     (case me_schema M schema args of
        None \<Rightarrow> Inr ()
      | Some e \<Rightarrow> Inl (if instance_of e schema_errors then Raised ''mcp.arguments_invalid'' else OtherRaised))"

definition invocation_target :: "mcp_env \<Rightarrow> mcp_db \<Rightarrow> ustr \<Rightarrow> ustr \<Rightarrow> ustr \<Rightarrow> metadata \<Rightarrow> mcp_raised + mcp_server \<times> mcp_tool" where
  "invocation_target M db user i name args =
     (case owned_server db user i of
        None \<Rightarrow> Inl (Raised ''mcp.not_found'')
      | Some server \<Rightarrow>
          if \<not> mv_enabled server then Inl (Raised ''mcp.not_found'')
          else case enabled_tool db i name of
            None \<Rightarrow> Inl (Raised ''mcp.not_found'')
          | Some tool \<Rightarrow> bind_res (validate_arguments M (mt_schema tool) args) (\<lambda>_. Inr (server, tool)))"

record mcp_reply =
  rp_value :: json
  rp_truncated :: bool

definition normalize_result :: "mcp_env \<Rightarrow> ustr list \<Rightarrow> tool_reply \<Rightarrow> mcp_raised + mcp_reply" where
  "normalize_result M secrets r =
     (if tr_error r then Inl (Raised ''mcp.tool_failed'')
      else let raw = (case tr_structured r of Some v \<Rightarrow> v | None \<Rightarrow> JList (tr_content r))
           in bind_res (serialized_size M raw) (\<lambda>_.
              let v = sanitize_result secrets raw
              in case me_dumps M v of
                   None \<Rightarrow> Inl OtherRaised
                 | Some s \<Rightarrow>
                     if length s \<le> me_result_limit M then Inr \<lparr>rp_value = v, rp_truncated = False\<rparr>
                     else Inr \<lparr>rp_value = JStr (take (me_result_limit M) s), rp_truncated = True\<rparr>))"

text \<open>The call with the record of what reached the server.\<close>

definition call_tool ::
  "mcp_env \<Rightarrow> mcp_db \<Rightarrow> ustr \<Rightarrow> mcp_server \<Rightarrow> mcp_tool \<Rightarrow> metadata \<Rightarrow> (mcp_raised + mcp_reply) \<times> mcp_call list" where
  "call_tool M db user server tool args =
     (case with_connection M db user server (\<lambda>conn. me_call M conn (mt_name tool) args) of
        Inl e \<Rightarrow> Inl (Raised (error_code ''mcp.execution_failed'' e))
      | Inr (reply, secrets) \<Rightarrow> normalize_result M secrets reply,
      case connection_of M db user server of
        Inr (conn, _) \<Rightarrow> if me_open M conn = None then [(conn, mt_name tool, args)] else []
      | Inl _ \<Rightarrow> [])"

datatype mcp_answer = NeedsApproval ustr ustr | Answered mcp_reply

definition invoke_tool ::
  "mcp_env \<Rightarrow> mcp_db \<Rightarrow> ustr \<Rightarrow> ustr \<Rightarrow> ustr \<Rightarrow> metadata \<Rightarrow> (mcp_raised + mcp_answer) \<times> mcp_call list" where
  "invoke_tool M db user i name args =
     (case invocation_target M db user i name args of
        Inl e \<Rightarrow> (Inl e, [])
      | Inr (server, tool) \<Rightarrow>
          if meta_get (mt_annotations tool) ''readOnlyHint'' \<noteq> JBool True then (Inr (NeedsApproval i (mt_name tool)), [])
          else let (r, calls) = call_tool M db user server tool args
               in (bind_res r (\<lambda>reply. Inr (Answered reply)), calls))"

definition invoke_approved_tool ::
  "mcp_env \<Rightarrow> mcp_db \<Rightarrow> ustr \<Rightarrow> ustr \<Rightarrow> ustr \<Rightarrow> metadata \<Rightarrow> (mcp_raised + mcp_reply) \<times> mcp_call list" where
  "invoke_approved_tool M db user i name args =
     (case invocation_target M db user i name args of
        Inl e \<Rightarrow> (Inl e, [])
      | Inr (server, tool) \<Rightarrow> call_tool M db user server tool args)"

definition confirm_stdio_trust :: "mcp_env \<Rightarrow> ustr \<Rightarrow> ustr \<Rightarrow> mcp_db \<Rightarrow> (mcp_raised + ustr) \<times> mcp_db" where
  "confirm_stdio_trust M user i db =
     (case owned_server db user i of
        None \<Rightarrow> (Inl (Raised ''mcp.not_found''), db)
      | Some server \<Rightarrow>
          (case mv_command server of
             Some (c # cs) \<Rightarrow>
               if mv_transport server \<noteq> ''stdio'' then (Inl (Raised ''mcp.configuration_invalid''), db)
               else let f = stdio_trust_fingerprint M (c # cs) (mv_args server) (mv_cwd server)
                    in (Inr f, set_server (server\<lparr>mv_fingerprint := Some f, mv_trusted_at := Some (me_now M)\<rparr>) db)
           | _ \<Rightarrow> (Inl (Raised ''mcp.configuration_invalid''), db)))"

subsection \<open>What reaches a server\<close>

definition safe_connection :: "mcp_env \<Rightarrow> mcp_server \<Rightarrow> mcp_connection \<Rightarrow> bool" where
  "safe_connection M server conn =
     (case conn of
        HttpConnection i t headers \<Rightarrow>
          i = mv_id server \<and> \<not> is_link_local (ht_pinned t) \<and> ht_pinned t \<notin> set metadata_addresses
            \<and> (\<forall>(k, v) \<in> set headers. safe_header_name k \<and> 13 \<notin> set v \<and> 10 \<notin> set v)
      | StdioConnection i command args cwd env \<Rightarrow>
          i = mv_id server \<and> mv_fingerprint server = Some (stdio_trust_fingerprint M command args cwd)
            \<and> (\<forall>(k, v) \<in> set env. safe_env_name k \<and> 0 \<notin> set v))"

lemma set_dict_update_subset: "set (dict_update d e) \<subseteq> set d \<union> set e"
  by (induction d e rule: dict_update.induct) (use set_dict_set_subset in fastforce)+

lemma set_dict_of_subset: "set (dict_of e) \<subseteq> set e"
  using set_dict_update_subset [of "[]" e] by (simp add: dict_of_def)

lemma header_entries:
  "traverse header_entry xs = Inr ys \<Longrightarrow> \<forall>(k, v) \<in> set ys. safe_header_name k \<and> 13 \<notin> set v \<and> 10 \<notin> set v"
  by (induction xs arbitrary: ys) (auto simp: bind_res_Inr_iff header_entry_def split: if_splits)

lemma env_entries:
  "traverse env_entry xs = Inr ys \<Longrightarrow> \<forall>(k, v) \<in> set ys. safe_env_name k \<and> 0 \<notin> set v"
  by (induction xs arbitrary: ys) (auto simp: bind_res_Inr_iff env_entry_def split: if_splits)

lemma stored_env_entries:
  "traverse stored_env_entry xs = Inr ys \<Longrightarrow> \<forall>(k, v) \<in> set ys. safe_env_name k \<and> 0 \<notin> set v"
  by (induction xs arbitrary: ys) (auto simp: bind_res_Inr_iff stored_env_entry_def env_entry_def split: if_splits json.splits)

lemma connection_safe:
  assumes "connection_of M db user server = Inr (conn, secrets)"
  shows "safe_connection M server conn"
proof (cases "mv_transport server = ''streamable_http''")
  case True
  with assms obtain target headers where
      t: "resolve_http_target (me_urls M) (case mv_url server of None \<Rightarrow> [] | Some u \<Rightarrow> u) = Some target"
    and h: "traverse header_entry (slots_with ''header:'' secrets) = Inr headers"
    and c: "conn = HttpConnection (mv_id server) target (dict_of headers)"
    by (auto simp: connection_of_def http_connection_def bind_res_Inr_iff split: option.splits)
  show ?thesis
    using resolved_target_safe [OF t] header_entries [OF h] set_dict_of_subset [of headers]
    by (auto simp: c safe_connection_def)
next
  case False
  then obtain command stored extra where
      f: "mv_fingerprint server = Some (stdio_trust_fingerprint M command (mv_args server) (mv_cwd server))"
    and s: "traverse stored_env_entry (mv_env server) = Inr stored"
    and e: "traverse env_entry (slots_with ''env:'' secrets) = Inr extra"
    and c: "conn = StdioConnection (mv_id server) command (mv_args server) (mv_cwd server) (dict_update stored extra)"
    using assms by (auto simp: connection_of_def stdio_connection_def bind_res_Inr_iff split: option.splits list.splits if_splits)
  show ?thesis
    using f stored_env_entries [OF s] env_entries [OF e] set_dict_update_subset [of stored extra]
    by (auto simp: c safe_connection_def)
qed

lemma call_tool_calls:
  assumes "(conn, n, a) \<in> set (snd (call_tool M db user server tool args))"
  shows "snd (call_tool M db user server tool args) = [(conn, n, a)] \<and> n = mt_name tool \<and> a = args \<and> safe_connection M server conn"
  using assms connection_safe [of M db user server]
  by (auto simp: call_tool_def split: sum.splits prod.splits if_splits)

lemma invocation_target_Inr:
  assumes "invocation_target M db user i name args = Inr (server, tool)"
  shows "owned_server db user i = Some server" "mv_enabled server" "enabled_tool db i name = Some tool"
    "me_schema M (mt_schema tool) args = None" "mt_name tool = name"
proof -
  show a: "owned_server db user i = Some server" "mv_enabled server" "enabled_tool db i name = Some tool"
    "me_schema M (mt_schema tool) args = None"
    using assms by (auto simp: invocation_target_def bind_res_Inr_iff validate_arguments_def split: option.splits if_splits)
  show "mt_name tool = name" using a(3) by (auto simp: enabled_tool_def find_Some_iff)
qed

text \<open>
  What reaches a server without an approval: at most one call, of the requested tool with the requested
  arguments, to an enabled server of the user, for an enabled tool whose catalog entry says it only reads and
  whose schema accepts the arguments, over a connection that is pinned to a harmless address or runs
  the command the user trusted.
\<close>
theorem invocation_guarded:
  assumes "(conn, n, a) \<in> set (snd (invoke_tool M db user i name args))"
  shows "snd (invoke_tool M db user i name args) = [(conn, name, args)]"
    and "\<exists>server tool. owned_server db user i = Some server \<and> mv_enabled server \<and> enabled_tool db i name = Some tool
      \<and> me_schema M (mt_schema tool) args = None \<and> meta_get (mt_annotations tool) ''readOnlyHint'' = JBool True
      \<and> safe_connection M server conn"
proof -
  obtain server tool where t: "invocation_target M db user i name args = Inr (server, tool)"
    and r: "meta_get (mt_annotations tool) ''readOnlyHint'' = JBool True"
    and c: "snd (invoke_tool M db user i name args) = snd (call_tool M db user server tool args)"
    using assms by (auto simp: invoke_tool_def Let_def split: sum.splits prod.splits if_splits)
  have "(conn, n, a) \<in> set (snd (call_tool M db user server tool args))" using assms c by simp
  from call_tool_calls [OF this] c invocation_target_Inr [OF t] r
  show "snd (invoke_tool M db user i name args) = [(conn, name, args)]"
    and "\<exists>server tool. owned_server db user i = Some server \<and> mv_enabled server \<and> enabled_tool db i name = Some tool
      \<and> me_schema M (mt_schema tool) args = None \<and> meta_get (mt_annotations tool) ''readOnlyHint'' = JBool True
      \<and> safe_connection M server conn"
    by auto
qed

definition separating :: "mcp_env \<Rightarrow> bool" where
  "separating M \<longleftrightarrow> (\<forall>c a d c' a' d'. stdio_trust_fingerprint M c a d = stdio_trust_fingerprint M c' a' d'
     \<longrightarrow> c = c' \<and> a = a' \<and> d = d')"

text \<open>
  A local server runs the command the user confirmed. Whatever was edited since: with
  a digest that separates commands, a connection of a server that has the fingerprint of a confirmation
  starts the command with the arguments and the directory that were confirmed.
\<close>
theorem trust_pins_command:
  assumes "confirm_stdio_trust M user i db = (Inr f, db')" "separating M"
    and "connection_of M later user server = Inr (StdioConnection j command args cwd env, secrets)"
    and "mv_fingerprint server = Some f"
  shows "\<exists>confirmed. owned_server db user i = Some confirmed
    \<and> mv_command confirmed = Some command \<and> mv_args confirmed = args \<and> mv_cwd confirmed = cwd"
proof -
  obtain confirmed where c: "owned_server db user i = Some confirmed"
    "f = stdio_trust_fingerprint M (the (mv_command confirmed)) (mv_args confirmed) (mv_cwd confirmed)"
    "mv_command confirmed \<noteq> None"
    using assms(1) by (auto simp: confirm_stdio_trust_def Let_def split: option.splits list.splits if_splits)
  have "stdio_trust_fingerprint M command args cwd = f"
    using connection_safe [OF assms(3)] assms(4) by (simp add: safe_connection_def)
  with c(2,3) assms(2) have "mv_command confirmed = Some command \<and> mv_args confirmed = args \<and> mv_cwd confirmed = cwd"
    unfolding separating_def by (metis option.collapse)
  with c(1) show ?thesis by blast
qed

text \<open>
  Results are bounded and hide secrets: a result is at most as long as the limit, and one that is
  not cut has no secret of the connection in its texts and nothing under its sensitive keys.
\<close>
theorem invocation_result_safe:
  assumes "fst (invoke_approved_tool M db user i name args) = Inr reply"
  shows "\<exists>server conn secrets. owned_server db user i = Some server \<and> connection_of M db user server = Inr (conn, secrets)
    \<and> (if rp_truncated reply then \<exists>s. rp_value reply = JStr s \<and> length s = me_result_limit M
       else (\<exists>s. me_dumps M (rp_value reply) = Some s \<and> length s \<le> me_result_limit M)
          \<and> ((\<forall>t \<in> snd ` set secrets. unlike_mark t) \<longrightarrow>
               (\<forall>t \<in> snd ` set secrets. \<forall>u \<in> set (texts_of (rp_value reply)). \<not> contains t u)
             \<and> (\<forall>(k, w) \<in> set (fields_of (rp_value reply)). sensitive_key k \<longrightarrow> w = JStr redaction_mark)))"
proof -
  obtain server tool where t: "invocation_target M db user i name args = Inr (server, tool)"
    and c: "fst (call_tool M db user server tool args) = Inr reply"
    using assms by (auto simp: invoke_approved_tool_def split: sum.splits)
  then obtain conn secrets r where conn: "connection_of M db user server = Inr (conn, secrets)"
    and n: "normalize_result M (map snd secrets) r = Inr reply"
    by (auto simp: call_tool_def with_connection_def bind_res_Inr_iff split: sum.splits prod.splits)
  have cut: "rp_truncated reply \<Longrightarrow> \<exists>s. rp_value reply = JStr s \<and> length s = me_result_limit M"
    using n by (auto simp: normalize_result_def Let_def bind_res_Inr_iff split: if_splits option.splits)
  have whole: "\<not> rp_truncated reply \<Longrightarrow> \<exists>raw s. rp_value reply = sanitize_result (map snd secrets) raw
      \<and> me_dumps M (rp_value reply) = Some s \<and> length s \<le> me_result_limit M"
    using n by (auto simp: normalize_result_def Let_def bind_res_Inr_iff split: if_splits option.splits)
  have hidden: "(\<forall>t \<in> snd ` set secrets. \<forall>u \<in> set (texts_of (sanitize_result (map snd secrets) raw)). \<not> contains t u)
      \<and> (\<forall>(k, w) \<in> set (fields_of (sanitize_result (map snd secrets) raw)). sensitive_key k \<longrightarrow> w = JStr redaction_mark)"
    if "\<forall>t \<in> snd ` set secrets. unlike_mark t" for raw
    using that sanitized_fields sanitize_with_redacted
      [where S = "map snd secrets" and v = raw and g = "re_sub untrusted_instruction (lit ''[filtered untrusted instruction]'')"]
    by (auto simp: sanitize_result_def)
  show ?thesis
  proof (cases "rp_truncated reply")
    case True
    with cut conn invocation_target_Inr(1) [OF t] show ?thesis by auto
  next
    case False
    from whole [OF this] obtain raw s where "rp_value reply = sanitize_result (map snd secrets) raw"
      "me_dumps M (rp_value reply) = Some s" "length s \<le> me_result_limit M" by blast
    with hidden [of raw] conn invocation_target_Inr(1) [OF t] False show ?thesis by auto
  qed
qed

subsection \<open>Discovery returns and the catalog it leaves\<close>

text \<open>
  Discovery always ends: the server may offer pages without end and with fresh cursors, the
  loop stops by the limit on their bytes, since no JSON text is empty.
\<close>
theorem discovery_terminates:
  assumes "\<And>v. me_dumps M v \<noteq> Some []"
  shows "\<exists>r. discover_loop M conn 0 None [] 0 [] = Some r"
  by (rule discover_loop_returns) (use assms in simp_all)

lemma catalog_rows_all:
  assumes "catalog_rows M db server k names ds = Inr rows"
  shows "map mt_name rows = map (strip \<circ> dt_name) ds \<and> distinct (map mt_name rows) \<and> set (map mt_name rows) \<inter> set names = {}
    \<and> (\<forall>r \<in> set rows. mt_server r = server \<and> mt_name r \<noteq> [] \<and> length (mt_name r) \<le> 128
       \<and> (\<forall>t. existing_tool db server (mt_name r) = Some t \<longrightarrow> mt_id r = mt_id t \<and> mt_enabled r = mt_enabled t))"
  using assms
proof (induction M db server k names ds arbitrary: rows rule: catalog_rows.induct)
  case (2 M db server k names d ds)
  let ?n = "strip (dt_name d)"
  obtain rs where ok: "?n \<noteq> []" "length ?n \<le> 128" "?n \<notin> set names"
    and rs: "catalog_rows M db server (Suc k) (?n # names) ds = Inr rs" and rows: "rows = catalog_row M db server k ?n d # rs"
    using 2(2) by (auto simp: Let_def bind_res_Inr_iff split: if_splits)
  have r: "mt_name (catalog_row M db server k ?n d) = ?n" "mt_server (catalog_row M db server k ?n d) = server"
    "\<And>t. existing_tool db server ?n = Some t \<Longrightarrow>
       mt_id (catalog_row M db server k ?n d) = mt_id t \<and> mt_enabled (catalog_row M db server k ?n d) = mt_enabled t"
    by (simp_all add: catalog_row_def Let_def)
  have nok: "\<not> (?n = [] \<or> 128 < length ?n \<or> ?n \<in> set names)" using ok by simp
  note IH = 2(1) [OF refl nok rs]
  have "set (map mt_name rs) \<inter> set (?n # names) = {}" using IH by blast
  then have "?n \<notin> set (map mt_name rs)" by (meson disjoint_iff list.set_intros(1))
  then have "distinct (map mt_name rows)"
    using IH [THEN conjunct2, THEN conjunct1] by (simp only: rows list.map distinct.simps r(1) simp_thms)
  moreover have "set (map mt_name rows) \<inter> set names = {}" "map mt_name rows = map (strip \<circ> dt_name) (d # ds)"
    using \<open>set (map mt_name rs) \<inter> set (?n # names) = {}\<close> IH [THEN conjunct1] r(1) ok(3)
    by (simp_all only: rows list.map list.set r(1) comp_def) blast
  moreover have "\<forall>r \<in> set rows. mt_server r = server \<and> mt_name r \<noteq> [] \<and> length (mt_name r) \<le> 128
       \<and> (\<forall>t. existing_tool db server (mt_name r) = Some t \<longrightarrow> mt_id r = mt_id t \<and> mt_enabled r = mt_enabled t)"
    using IH r ok unfolding rows by simp
  ultimately show ?case by blast
qed simp

lemmas catalog_rows_facts =
  catalog_rows_all [THEN conjunct1] catalog_rows_all [THEN conjunct2, THEN conjunct1]
  catalog_rows_all [THEN conjunct2, THEN conjunct2, THEN conjunct2]

definition tool_keys :: "mcp_tool list \<Rightarrow> (ustr \<times> ustr) list" where
  "tool_keys = map (\<lambda>t. (mt_server t, mt_name t))"

lemma find_in: "find P xs = Some x \<Longrightarrow> x \<in> set xs \<and> P x"
  by (auto simp: find_Some_iff)

lemma find_unique:
  assumes "distinct (map f xs)" "x \<in> set xs" "P x" "\<And>y. y \<in> set xs \<Longrightarrow> P y \<Longrightarrow> f y = f x"
  shows "find P xs = Some x"
proof (cases "find P xs")
  case None
  with assms(2,3) show ?thesis by (auto simp: find_None_iff)
next
  case (Some y)
  then have y: "y \<in> set xs" "P y" by (simp_all add: find_in)
  from assms(4) [OF y] assms(1,2) y(1) have "y = x" by (auto simp: distinct_map dest: inj_onD)
  with Some show ?thesis by simp
qed

lemma set_map_filter: "set (List.map_filter f xs) = {y. \<exists>x \<in> set xs. f x = Some y}"
  by (force simp: map_filter_def)

lemma set_merge_rows:
  assumes "\<forall>r \<in> set rows. mt_server r = server" "distinct (map mt_name rows)"
  shows "set (merge_rows server rows tools) = {t \<in> set tools. mt_server t \<noteq> server} \<union> set rows"
proof -
  have f: "find (\<lambda>r. mt_name r = n) rows = Some r \<longleftrightarrow> r \<in> set rows \<and> mt_name r = n" for r n
  proof
    assume "r \<in> set rows \<and> mt_name r = n"
    then show "find (\<lambda>r. mt_name r = n) rows = Some r"
      by (intro find_unique [where f = mt_name]) (use assms(2) in auto)
  qed (rule find_in)
  show ?thesis
  proof (intro set_eqI iffI)
    fix r assume "r \<in> set (merge_rows server rows tools)"
    then show "r \<in> {t \<in> set tools. mt_server t \<noteq> server} \<union> set rows"
      by (auto simp: merge_rows_def set_map_filter f split: if_splits)
  next
    fix r assume r: "r \<in> {t \<in> set tools. mt_server t \<noteq> server} \<union> set rows"
    show "r \<in> set (merge_rows server rows tools)"
    proof (cases "r \<in> set rows \<and> (\<exists>t \<in> set tools. mt_server t = server \<and> mt_name t = mt_name r)")
      case True
      then obtain t where "t \<in> set tools" "mt_server t = server" "mt_name t = mt_name r" by blast
      with True show ?thesis unfolding merge_rows_def set_append set_map_filter
        by (intro UnI1 CollectI bexI [of _ t]) (simp_all add: f)
    next
      case False
      with r show ?thesis unfolding merge_rows_def set_append set_map_filter by auto
    qed
  qed
qed

lemma map_filter_keys:
  assumes "distinct (map key xs)" "\<And>x y. x \<in> set xs \<Longrightarrow> f x = Some y \<Longrightarrow> key y = key x"
  shows "distinct (map key (List.map_filter f xs)) \<and> set (map key (List.map_filter f xs)) \<subseteq> set (map key xs)"
  using assms
proof (induction xs)
  case (Cons x xs)
  then have IH: "distinct (map key (List.map_filter f xs))" "set (map key (List.map_filter f xs)) \<subseteq> set (map key xs)" by auto
  show ?case
  proof (cases "f x")
    case (Some y)
    with Cons(3) [of x y] have "key y = key x" by simp
    moreover have "key x \<notin> set (map key (List.map_filter f xs))" using Cons(2) IH(2) by auto
    ultimately show ?thesis using IH Some by (auto simp: map_filter_simps)
  qed (use IH in \<open>auto simp: map_filter_simps\<close>)
qed (simp add: map_filter_simps)

lemma merge_rows_distinct:
  assumes "distinct (tool_keys tools)" "\<forall>r \<in> set rows. mt_server r = server" "distinct (map mt_name rows)"
  shows "distinct (tool_keys (merge_rows server rows tools))"
proof -
  let ?f = "\<lambda>t. if mt_server t \<noteq> server then Some t else find (\<lambda>r. mt_name r = mt_name t) rows"
  let ?k = "\<lambda>t. (mt_server t, mt_name t)"
  have f: "?k y = ?k x" if "?f x = Some y" for x y
  proof (cases "mt_server x = server")
    case True
    with that have "find (\<lambda>r. mt_name r = mt_name x) rows = Some y" by simp
    then have "y \<in> set rows \<and> mt_name y = mt_name x" by (rule find_in)
    with assms(2) True show ?thesis by simp
  qed (use that in simp)
  have kept: "distinct (map ?k (List.map_filter ?f tools)) \<and> set (map ?k (List.map_filter ?f tools)) \<subseteq> set (map ?k tools)"
    by (rule map_filter_keys [OF assms(1) [unfolded tool_keys_def]]) (erule f)
  let ?new = "filter (\<lambda>r. \<forall>t \<in> set tools. \<not> (mt_server t = server \<and> mt_name t = mt_name r)) rows"
  have "distinct (map ?k rows)"
    using assms(3) by (auto simp: distinct_map inj_on_def)
  then have "distinct (map ?k ?new)" by (rule distinct_map_filter)
  moreover have "set (map ?k ?new) \<inter> set (map ?k tools) = {}" using assms(2) by auto
  ultimately show ?thesis
    using kept unfolding tool_keys_def merge_rows_def map_append distinct_append by blast
qed

text \<open>
  The catalog after a discovery. The tools of the server are exactly the discovered ones, each once
  and with a short name, a tool that is still offered keeps its id and the user's choice whether it is
  enabled, and the tools of other servers are untouched.
\<close>
theorem catalog_replaced:
  assumes "replace_catalog M server ds db = Inr db'" "distinct (tool_keys (md_tools db))"
  shows "distinct (tool_keys (md_tools db'))"
    and "mt_name ` {t \<in> set (md_tools db'). mt_server t = server} = strip ` dt_name ` set ds"
    and "{t \<in> set (md_tools db'). mt_server t \<noteq> server} = {t \<in> set (md_tools db). mt_server t \<noteq> server}"
    and "\<forall>t \<in> set (md_tools db'). mt_server t = server \<longrightarrow> mt_name t \<noteq> [] \<and> length (mt_name t) \<le> 128
      \<and> (\<forall>old \<in> set (md_tools db). mt_server old = server \<and> mt_name old = mt_name t
           \<longrightarrow> mt_id t = mt_id old \<and> mt_enabled t = mt_enabled old)"
proof -
  obtain rows where rows: "catalog_rows M db server 0 [] ds = Inr rows" and db': "md_tools db' = merge_rows server rows (md_tools db)"
    using assms(1) by (auto simp: replace_catalog_def bind_res_Inr_iff)
  note facts = catalog_rows_facts [OF rows]
  have s: "\<forall>r \<in> set rows. mt_server r = server" using facts(3) by simp
  note merged = set_merge_rows [OF s facts(2), of "md_tools db"]
  show "distinct (tool_keys (md_tools db'))"
    unfolding db' by (rule merge_rows_distinct [OF assms(2) s facts(2)])
  have "mt_name ` set rows = strip ` dt_name ` set ds"
    using arg_cong [OF facts(1), of set] by (simp add: image_image)
  moreover have "{t \<in> set (md_tools db'). mt_server t = server} = set rows" using merged s by (auto simp: db')
  ultimately show "mt_name ` {t \<in> set (md_tools db'). mt_server t = server} = strip ` dt_name ` set ds" by simp
  show "{t \<in> set (md_tools db'). mt_server t \<noteq> server} = {t \<in> set (md_tools db). mt_server t \<noteq> server}"
    using merged s by (auto simp: db')
  have old: "existing_tool db server n = Some old" if "old \<in> set (md_tools db)" "mt_server old = server" "mt_name old = n" for old n
    unfolding existing_tool_def
    by (rule find_unique [where f = "\<lambda>t. (mt_server t, mt_name t)"]) (use that assms(2) in \<open>auto simp: tool_keys_def\<close>)
  show "\<forall>t \<in> set (md_tools db'). mt_server t = server \<longrightarrow> mt_name t \<noteq> [] \<and> length (mt_name t) \<le> 128
      \<and> (\<forall>old \<in> set (md_tools db). mt_server old = server \<and> mt_name old = mt_name t
           \<longrightarrow> mt_id t = mt_id old \<and> mt_enabled t = mt_enabled old)"
    using merged facts(3) old by (auto simp: db')
qed

subsection \<open>An example\<close>

text \<open>A user with one trusted local server that offers one tool, which only reads.\<close>

definition sample_digest :: "metadata \<Rightarrow> ustr" where
  "sample_digest m =
     (case map snd m of
        [JStr c, JList xs, d] \<Rightarrow> [to_nat (c, map texts_of xs, texts_of d)]
      | _ \<Rightarrow> [])"

definition sample_mcp_env :: mcp_env where
  "sample_mcp_env =
     \<lparr>me_urls = sample_url_ports, me_digest = sample_digest, me_store = None, me_dumps = (\<lambda>_. Some (lit ''{}'')),
      me_raw_limit = 100, me_result_limit = 50, me_open = (\<lambda>_. None),
      me_list = (\<lambda>_ n _. Inr \<lparr>pg_tools = [\<lparr>dt_name = lit ''look'', dt_title = None, dt_description = None, dt_schema = JDict [],
        dt_annotations = None\<rparr>], pg_cursor = Some (replicate n 1), pg_json = JNull\<rparr>),
      me_call = (\<lambda>_ _ _. Inr \<lparr>tr_error = False, tr_structured = Some (JBool True), tr_content = []\<rparr>),
      me_overflow = (\<lambda>_. False), me_schema = (\<lambda>_ _. None), me_now = 0, me_uuid = (\<lambda>n. replicate n 1)\<rparr>"

lemma sample_mcp_simps [simp]:
  "me_open sample_mcp_env c = None" "me_dumps sample_mcp_env v = Some (lit ''{}'')" "me_raw_limit sample_mcp_env = 100"
  "me_result_limit sample_mcp_env = 50" "me_schema sample_mcp_env j a = None" "me_overflow sample_mcp_env c = False"
  "me_call sample_mcp_env c n a = Inr \<lparr>tr_error = False, tr_structured = Some (JBool True), tr_content = []\<rparr>"
  by (simp_all add: sample_mcp_env_def)

definition sample_server :: mcp_server where
  "sample_server =
     \<lparr>mv_id = lit ''s'', mv_user = lit ''u'', mv_name = lit ''files'', mv_transport = ''stdio'', mv_url = None,
      mv_command = Some (lit ''run''), mv_args = [lit ''fast''], mv_cwd = None, mv_env = [], mv_enabled = True,
      mv_fingerprint = Some (stdio_trust_fingerprint sample_mcp_env (lit ''run'') [lit ''fast''] None), mv_trusted_at = Some 0,
      mv_test_status = None, mv_tested_at = None\<rparr>"

definition sample_tool :: mcp_tool where
  "sample_tool =
     \<lparr>mt_id = lit ''t'', mt_server = lit ''s'', mt_name = lit ''look'', mt_title = None, mt_description = [],
      mt_schema = JDict [], mt_annotations = [(lit ''readOnlyHint'', JBool True)], mt_enabled = True, mt_discovered = 0\<rparr>"

definition sample_mcp_db :: mcp_db where
  "sample_mcp_db = \<lparr>md_servers = [sample_server], md_tools = [sample_tool], md_refs = []\<rparr>"

definition sample_connection :: mcp_connection where
  "sample_connection = StdioConnection (lit ''s'') (lit ''run'') [lit ''fast''] None []"

lemma sample_connects: "connection_of sample_mcp_env db user sample_server = Inr (sample_connection, [])"
  if "md_refs db = []"
  using that by (simp add: connection_of_def stdio_connection_def sample_server_def sample_connection_def secret_values_def owned_refs_def
      slots_with_def lit_def)

lemma sample_target:
  "invocation_target sample_mcp_env sample_mcp_db (lit ''u'') (lit ''s'') (lit ''look'') [] = Inr (sample_server, sample_tool)"
  by (simp add: invocation_target_def owned_server_def enabled_tool_def validate_arguments_def sample_mcp_db_def
      sample_server_def sample_tool_def sample_mcp_env_def)

lemma sample_call:
  "call_tool sample_mcp_env sample_mcp_db (lit ''u'') sample_server sample_tool []
     = (Inr \<lparr>rp_value = JBool True, rp_truncated = False\<rparr>, [(sample_connection, mt_name sample_tool, [])])"
proof -
  have c: "connection_of sample_mcp_env sample_mcp_db (lit ''u'') sample_server = Inr (sample_connection, [])"
    by (rule sample_connects) (simp add: sample_mcp_db_def)
  have r: "sanitize_result [] (JBool True) = JBool True" by (simp add: sanitize_result_def)
  have u: "utf8_size (lit ''{}'') = Some 2" by (simp add: utf8_size_def utf8_width_def lit_def)
  show ?thesis
    unfolding call_tool_def with_connection_def c in_session_def session_result_def normalize_result_def serialized_size_def Let_def
    by (simp add: r u)
qed

lemma invocation_guarded_witness:
  "snd (invoke_tool sample_mcp_env sample_mcp_db (lit ''u'') (lit ''s'') (lit ''look'') []) = [(sample_connection, lit ''look'', [])]"
proof -
  have "meta_get (mt_annotations sample_tool) ''readOnlyHint'' = JBool True" by (simp add: sample_tool_def meta_get_def)
  then have "(sample_connection, lit ''look'', []) \<in> set (snd (invoke_tool sample_mcp_env sample_mcp_db (lit ''u'') (lit ''s'') (lit ''look'') []))"
    unfolding invoke_tool_def sample_target by (simp add: sample_call) (simp add: sample_tool_def)
  from invocation_guarded(1) [OF this] show ?thesis .
qed

lemma invocation_result_safe_witness:
  "\<exists>reply conn secrets. fst (invoke_approved_tool sample_mcp_env sample_mcp_db (lit ''u'') (lit ''s'') (lit ''look'') []) = Inr reply
     \<and> connection_of sample_mcp_env sample_mcp_db (lit ''u'') sample_server = Inr (conn, secrets)"
proof -
  have "fst (invoke_approved_tool sample_mcp_env sample_mcp_db (lit ''u'') (lit ''s'') (lit ''look'') [])
      = Inr \<lparr>rp_value = JBool True, rp_truncated = False\<rparr>"
    unfolding invoke_approved_tool_def sample_target by (simp add: sample_call)
  moreover from invocation_result_safe [OF this] obtain server conn secrets
    where "owned_server sample_mcp_db (lit ''u'') (lit ''s'') = Some server"
      "connection_of sample_mcp_env sample_mcp_db (lit ''u'') server = Inr (conn, secrets)" by blast
  moreover from this(1) have "server = sample_server"
    by (simp add: owned_server_def sample_mcp_db_def sample_server_def)
  ultimately show ?thesis by blast
qed

lemma sample_separating: "separating sample_mcp_env"
proof -
  have t: "map texts_of (map JStr xs) = map (\<lambda>s. [s]) xs" for xs by (induction xs) simp_all
  have d: "texts_of (case d of None \<Rightarrow> JNull | Some w \<Rightarrow> JStr w) = (case d of None \<Rightarrow> [] | Some w \<Rightarrow> [w])" for d
    by (cases d) simp_all
  have m: "map (\<lambda>s. [s]) xs = map (\<lambda>s. [s]) ys \<Longrightarrow> xs = ys" for xs ys :: "ustr list"
    by (rule map_injective) (auto simp: inj_def)
  show ?thesis
    unfolding separating_def stdio_trust_fingerprint_def
    by (auto simp: sample_mcp_env_def sample_digest_def t d simp del: map_map dest: m split: option.splits)
qed

lemma trust_pins_command_witness:
  "\<exists>confirmed. owned_server sample_mcp_db (lit ''u'') (lit ''s'') = Some confirmed \<and> mv_command confirmed = Some (lit ''run'')"
proof -
  have o: "owned_server sample_mcp_db (lit ''u'') (lit ''s'') = Some sample_server"
    by (simp add: owned_server_def sample_mcp_db_def sample_server_def)
  obtain db' where "confirm_stdio_trust sample_mcp_env (lit ''u'') (lit ''s'') sample_mcp_db
      = (Inr (stdio_trust_fingerprint sample_mcp_env (lit ''run'') [lit ''fast''] None), db')"
    by (simp add: confirm_stdio_trust_def o) (simp add: sample_server_def lit_def Let_def)
  moreover have "connection_of sample_mcp_env sample_mcp_db (lit ''u'') sample_server
      = Inr (StdioConnection (lit ''s'') (lit ''run'') [lit ''fast''] None [], [])"
    using sample_connects [of sample_mcp_db "lit ''u''"] by (simp add: sample_mcp_db_def sample_connection_def)
  moreover have "mv_fingerprint sample_server = Some (stdio_trust_fingerprint sample_mcp_env (lit ''run'') [lit ''fast''] None)"
    by (simp add: sample_server_def)
  ultimately show ?thesis using trust_pins_command [OF _ sample_separating] by blast
qed

lemma discovery_terminates_witness: "\<exists>r. discover_loop sample_mcp_env sample_connection 0 None [] 0 [] = Some r"
  by (rule discovery_terminates) (simp add: lit_def)

lemma catalog_replaced_witness:
  "\<exists>db'. replace_catalog sample_mcp_env (lit ''s'') [\<lparr>dt_name = lit '' look'', dt_title = None, dt_description = None, dt_schema = JDict [],
      dt_annotations = None\<rparr>] sample_mcp_db = Inr db' \<and> distinct (tool_keys (md_tools db'))"
proof -
  have "strip (lit '' look'') = lit ''look''" by (simp add: strip_def lstrip_def rstrip_def rstrip_of_def py_isspace_def lit_def)
  then have "\<exists>db'. replace_catalog sample_mcp_env (lit ''s'') [\<lparr>dt_name = lit '' look'', dt_title = None, dt_description = None,
      dt_schema = JDict [], dt_annotations = None\<rparr>] sample_mcp_db = Inr db'"
    by (simp add: replace_catalog_def) (simp add: lit_def Let_def)
  moreover have "distinct (tool_keys (md_tools sample_mcp_db))" by (simp add: tool_keys_def sample_mcp_db_def)
  ultimately show ?thesis using catalog_replaced(1) by blast
qed

end
