(* ===== verification/Conversations.thy ===== *)
theory Conversations
  imports Learning_Store
begin

text \<open>
  Conversation threads and the runs of the tutor in them
  (src/backend/app/infrastructure/persistence/repositories/conversation_repository.py,
  application/conversation_service.py): creating and archiving threads, starting, finishing and cancelling
  runs, and the transcript in pages.

  The tables are lists of rows; a request returns its exception or its record with the committed state.
  The lock on the thread and the unique index on active runs make concurrent starts follow one another.
  Scheduling the deletion of checkpoints after an archive is left to the checkpoint store.
\<close>

subsection \<open>Tables\<close>

record conversation_thread =
  ct_id :: ustr
  ct_user :: ustr
  ct_goal :: ustr
  ct_legacy :: "ustr option"
  ct_title :: "ustr option"
  ct_status :: string
  ct_created :: int
  ct_updated :: int
  ct_archived :: "int option"

record agent_run =
  ar_id :: ustr
  ar_user :: ustr
  ar_goal :: "ustr option"
  ar_thread :: ustr
  ar_correlation :: "ustr option"
  ar_hash :: "ustr option"
  ar_graph :: string
  ar_version :: string
  ar_trigger :: string
  ar_input :: metadata
  ar_output :: metadata
  ar_trace :: "metadata list"
  ar_status :: string
  ar_latency :: int
  ar_error :: "ustr option"
  ar_started :: int
  ar_completed :: "int option"
  ar_cancel_requested :: "int option"
  ar_cancelled :: "int option"
  ar_created :: int

record conversation_db =
  cd_goals :: "(ustr \<times> ustr) list"
  cd_threads :: "conversation_thread list"
  cd_runs :: "agent_run list"

record conversation_ports =
  cp_now :: int
  cp_uuid :: ustr

datatype conversation_error =
    ConversationNotFound
  | ConversationThreadArchived
  | ActiveRunConflict
  | RunNotFound
  | RunIncomplete
  | InvalidCursor

definition active_statuses :: "string list" where
  "active_statuses = [''running'', ''awaiting_approval'', ''executing_approval'', ''cancellation_requested'']"

definition active_run :: "agent_run \<Rightarrow> bool" where
  "active_run r \<longleftrightarrow> ar_status r \<in> set active_statuses"

definition run_record :: "agent_run \<Rightarrow> conversation_error + agent_run" where
  "run_record r = (if ar_goal r = None \<or> ar_correlation r = None \<or> ar_hash r = None then Inl RunIncomplete else Inr r)"

subsection \<open>Threads\<close>

definition owned_thread :: "'a conversation_db_scheme \<Rightarrow> ustr \<Rightarrow> ustr \<Rightarrow> ustr \<Rightarrow> conversation_thread option" where
  "owned_thread db user goal i = find (\<lambda>t. ct_id t = i \<and> ct_user t = user \<and> ct_goal t = goal) (cd_threads db)"

definition find_legacy :: "'a conversation_db_scheme \<Rightarrow> ustr \<Rightarrow> ustr \<Rightarrow> ustr \<Rightarrow> conversation_thread option" where
  "find_legacy db user goal key = find (\<lambda>t. ct_user t = user \<and> ct_goal t = goal \<and> ct_legacy t = Some key) (cd_threads db)"

definition clean_title :: "ustr option \<Rightarrow> ustr option" where
  "clean_title title = (case title of None \<Rightarrow> None | Some s \<Rightarrow> if strip s = [] then None else Some (strip s))"

definition create_with_id ::
  "conversation_ports \<Rightarrow> ustr \<Rightarrow> ustr \<Rightarrow> ustr option \<Rightarrow> ustr option \<Rightarrow> 'a conversation_db_scheme
     \<Rightarrow> (conversation_error + conversation_thread) \<times> 'a conversation_db_scheme" where
  "create_with_id P user goal title legacy db =
     (let t = \<lparr>ct_id = lit ''thread-'' @ cp_uuid P, ct_user = user, ct_goal = goal, ct_legacy = legacy,
            ct_title = clean_title title, ct_status = ''active'', ct_created = cp_now P, ct_updated = cp_now P, ct_archived = None\<rparr>
      in if (goal, user) \<notin> set (cd_goals db) then (Inl ConversationNotFound, db)
         else (Inr t, db\<lparr>cd_threads := cd_threads db @ [t]\<rparr>))"

definition create_thread ::
  "conversation_ports \<Rightarrow> ustr \<Rightarrow> ustr \<Rightarrow> ustr option \<Rightarrow> 'a conversation_db_scheme
     \<Rightarrow> (conversation_error + conversation_thread) \<times> 'a conversation_db_scheme" where
  "create_thread P user goal title db = create_with_id P user goal title None db"

definition require_active :: "conversation_thread \<Rightarrow> conversation_error + conversation_thread" where
  "require_active t = (if ct_status t \<noteq> ''active'' then Inl ConversationThreadArchived else Inr t)"

definition ensure_legacy_thread ::
  "conversation_ports \<Rightarrow> ustr \<Rightarrow> ustr \<Rightarrow> ustr \<Rightarrow> 'a conversation_db_scheme
     \<Rightarrow> (conversation_error + conversation_thread) \<times> 'a conversation_db_scheme" where
  "ensure_legacy_thread P user goal i db =
     (case (case owned_thread db user goal i of None \<Rightarrow> find_legacy db user goal i | Some t \<Rightarrow> Some t) of
        Some t \<Rightarrow> (require_active t, db)
      | None \<Rightarrow> create_with_id P user goal None (Some i) db)"

definition get_thread :: "'a conversation_db_scheme \<Rightarrow> ustr \<Rightarrow> ustr \<Rightarrow> ustr \<Rightarrow> conversation_error + conversation_thread" where
  "get_thread db user goal i = (case owned_thread db user goal i of None \<Rightarrow> Inl ConversationNotFound | Some t \<Rightarrow> Inr t)"

definition require_thread :: "'a conversation_db_scheme \<Rightarrow> ustr \<Rightarrow> ustr \<Rightarrow> ustr \<Rightarrow> conversation_error + conversation_thread" where
  "require_thread db user goal i = bind_res (get_thread db user goal i) require_active"

definition list_threads :: "'a conversation_db_scheme \<Rightarrow> ustr \<Rightarrow> ustr \<Rightarrow> bool \<Rightarrow> conversation_thread list" where
  "list_threads db user goal archived =
     sort_key (\<lambda>t. (- ct_updated t, ct_id t))
       (filter (\<lambda>t. ct_user t = user \<and> ct_goal t = goal \<and> (archived \<or> ct_status t = ''active'')) (cd_threads db))"

definition thread_busy :: "'a conversation_db_scheme \<Rightarrow> ustr \<Rightarrow> bool" where
  "thread_busy db i \<longleftrightarrow> list_ex (\<lambda>r. ar_thread r = i \<and> active_run r) (cd_runs db)"

definition archive_thread ::
  "conversation_ports \<Rightarrow> ustr \<Rightarrow> ustr \<Rightarrow> ustr \<Rightarrow> 'a conversation_db_scheme
     \<Rightarrow> (conversation_error + conversation_thread) \<times> 'a conversation_db_scheme" where
  "archive_thread P user goal i db =
     (case owned_thread db user goal i of
        None \<Rightarrow> (Inl ConversationNotFound, db)
      | Some t \<Rightarrow>
          if ct_status t \<noteq> ''active'' then (Inr t, db)
          else if thread_busy db i then (Inl ActiveRunConflict, db)
          else let t' = t\<lparr>ct_status := ''archived'', ct_updated := cp_now P, ct_archived := Some (cp_now P)\<rparr>
               in (Inr t', db\<lparr>cd_threads := set_row ct_id t' (cd_threads db)\<rparr>))"

subsection \<open>Runs\<close>

definition find_run :: "'a conversation_db_scheme \<Rightarrow> ustr \<Rightarrow> agent_run option" where
  "find_run db i = find (\<lambda>r. ar_id r = i) (cd_runs db)"

definition owned_run :: "ustr \<Rightarrow> ustr \<Rightarrow> ustr \<Rightarrow> ustr \<Rightarrow> agent_run \<Rightarrow> bool" where
  "owned_run user goal thread i r \<longleftrightarrow> ar_id r = i \<and> ar_user r = user \<and> ar_goal r = Some goal \<and> ar_thread r = thread"

text \<open>\<open>UPDATE ... WHERE\<close>, then the refreshed row of the owner.\<close>

definition update_runs :: "(agent_run \<Rightarrow> bool) \<Rightarrow> (agent_run \<Rightarrow> agent_run) \<Rightarrow> 'a conversation_db_scheme \<Rightarrow> 'a conversation_db_scheme" where
  "update_runs P f db = db\<lparr>cd_runs := map (\<lambda>r. if P r then f r else r) (cd_runs db)\<rparr>"

definition refreshed ::
  "(agent_run \<Rightarrow> bool) \<Rightarrow> 'a conversation_db_scheme \<Rightarrow> 'a conversation_db_scheme
     \<Rightarrow> (conversation_error + agent_run) \<times> 'a conversation_db_scheme" where
  "refreshed P db' db =
     (case find P (cd_runs db') of
        None \<Rightarrow> (Inl RunNotFound, db)
      | Some r \<Rightarrow> (case run_record r of Inl e \<Rightarrow> (Inl e, db) | Inr r' \<Rightarrow> (Inr r', db')))"

record run_request =
  rq_user :: ustr
  rq_goal :: ustr
  rq_thread :: ustr
  rq_correlation :: ustr
  rq_hash :: ustr
  rq_graph :: string
  rq_version :: string
  rq_trigger :: string
  rq_input :: metadata

definition new_run :: "conversation_ports \<Rightarrow> run_request \<Rightarrow> agent_run" where
  "new_run P q =
     \<lparr>ar_id = lit ''run-'' @ cp_uuid P, ar_user = rq_user q, ar_goal = Some (rq_goal q), ar_thread = rq_thread q,
      ar_correlation = Some (rq_correlation q), ar_hash = Some (rq_hash q), ar_graph = rq_graph q, ar_version = rq_version q,
      ar_trigger = rq_trigger q, ar_input = rq_input q, ar_output = [], ar_trace = [], ar_status = ''running'', ar_latency = 0,
      ar_error = None, ar_started = cp_now P, ar_completed = None, ar_cancel_requested = None, ar_cancelled = None,
      ar_created = cp_now P\<rparr>"

definition start_run ::
  "conversation_ports \<Rightarrow> run_request \<Rightarrow> 'a conversation_db_scheme
     \<Rightarrow> (conversation_error + agent_run) \<times> 'a conversation_db_scheme" where
  "start_run P q db =
     (case require_thread db (rq_user q) (rq_goal q) (rq_thread q) of
        Inl e \<Rightarrow> (Inl e, db)
      | Inr t \<Rightarrow>
          if thread_busy db (rq_thread q) \<or> (\<exists>r \<in> set (cd_runs db). ar_correlation r = Some (rq_correlation q))
          then (Inl ActiveRunConflict, db)
          else (Inr (new_run P q), db\<lparr>cd_runs := cd_runs db @ [new_run P q]\<rparr>))"

text \<open>\<open>_finish\<close>: a running run ends with the status, a run whose cancellation was requested is cancelled.\<close>

definition finish_run ::
  "conversation_ports \<Rightarrow> ustr \<Rightarrow> ustr \<Rightarrow> ustr \<Rightarrow> ustr \<Rightarrow> (agent_run \<Rightarrow> agent_run) \<Rightarrow> 'a conversation_db_scheme
     \<Rightarrow> (conversation_error + agent_run) \<times> 'a conversation_db_scheme" where
  "finish_run P user goal thread i f db =
     (let own = owned_run user goal thread i;
          running = (\<lambda>r. own r \<and> ar_status r = ''running'');
          db' = (if list_ex running (cd_runs db)
                 then update_runs running (\<lambda>r. (f r)\<lparr>ar_completed := Some (cp_now P)\<rparr>) db
                 else update_runs (\<lambda>r. own r \<and> ar_status r = ''cancellation_requested'')
                   (\<lambda>r. r\<lparr>ar_status := ''cancelled'', ar_cancelled := Some (cp_now P), ar_completed := Some (cp_now P)\<rparr>) db)
      in refreshed own db' db)"

definition complete_run ::
  "conversation_ports \<Rightarrow> ustr \<Rightarrow> ustr \<Rightarrow> ustr \<Rightarrow> ustr \<Rightarrow> metadata option \<Rightarrow> metadata \<Rightarrow> metadata list \<Rightarrow> int
     \<Rightarrow> 'a conversation_db_scheme \<Rightarrow> (conversation_error + agent_run) \<times> 'a conversation_db_scheme" where
  "complete_run P user goal thread i given output trace latency db =
     finish_run P user goal thread i
       (\<lambda>r. r\<lparr>ar_status := ''success'', ar_output := output, ar_trace := trace, ar_latency := max 0 latency, ar_error := None,
          ar_input := (case given of None \<Rightarrow> ar_input r | Some m \<Rightarrow> m)\<rparr>) db"

definition fail_run ::
  "conversation_ports \<Rightarrow> ustr \<Rightarrow> ustr \<Rightarrow> ustr \<Rightarrow> ustr \<Rightarrow> ustr \<Rightarrow> metadata list \<Rightarrow> int
     \<Rightarrow> 'a conversation_db_scheme \<Rightarrow> (conversation_error + agent_run) \<times> 'a conversation_db_scheme" where
  "fail_run P user goal thread i message trace latency db =
     finish_run P user goal thread i
       (\<lambda>r. r\<lparr>ar_status := ''failed'', ar_trace := trace, ar_latency := max 0 latency, ar_error := Some message\<rparr>) db"

definition cancellable :: "agent_run \<Rightarrow> bool" where
  "cancellable r \<longleftrightarrow> ar_status r \<in> {''running'', ''awaiting_approval''}"

definition request_cancel ::
  "conversation_ports \<Rightarrow> (agent_run \<Rightarrow> bool) \<Rightarrow> 'a conversation_db_scheme
     \<Rightarrow> (conversation_error + agent_run) \<times> 'a conversation_db_scheme" where
  "request_cancel P own db =
     refreshed own (update_runs (\<lambda>r. own r \<and> cancellable r)
       (\<lambda>r. r\<lparr>ar_status := ''cancellation_requested'', ar_cancel_requested := Some (cp_now P)\<rparr>) db) db"

definition request_run_cancellation ::
  "conversation_ports \<Rightarrow> ustr \<Rightarrow> ustr \<Rightarrow> ustr \<Rightarrow> ustr \<Rightarrow> 'a conversation_db_scheme
     \<Rightarrow> (conversation_error + agent_run) \<times> 'a conversation_db_scheme" where
  "request_run_cancellation P user goal thread i db = request_cancel P (owned_run user goal thread i) db"

definition request_owned_run_cancellation ::
  "conversation_ports \<Rightarrow> ustr \<Rightarrow> ustr \<Rightarrow> 'a conversation_db_scheme \<Rightarrow> (conversation_error + agent_run) \<times> 'a conversation_db_scheme" where
  "request_owned_run_cancellation P user i db = request_cancel P (\<lambda>r. ar_id r = i \<and> ar_user r = user) db"

definition is_run_cancellation_requested ::
  "'a conversation_db_scheme \<Rightarrow> ustr \<Rightarrow> ustr \<Rightarrow> ustr \<Rightarrow> ustr \<Rightarrow> conversation_error + bool" where
  "is_run_cancellation_requested db user goal thread i =
     (case find (owned_run user goal thread i) (cd_runs db) of
        None \<Rightarrow> Inl RunNotFound
      | Some r \<Rightarrow> Inr (ar_cancel_requested r \<noteq> None \<or> ar_status r \<in> {''cancellation_requested'', ''cancelled''}))"

definition mark_run_cancelled ::
  "conversation_ports \<Rightarrow> ustr \<Rightarrow> ustr \<Rightarrow> ustr \<Rightarrow> ustr \<Rightarrow> 'a conversation_db_scheme
     \<Rightarrow> (conversation_error + agent_run) \<times> 'a conversation_db_scheme" where
  "mark_run_cancelled P user goal thread i db =
     refreshed (owned_run user goal thread i)
       (update_runs (\<lambda>r. owned_run user goal thread i r \<and> (cancellable r \<or> ar_status r = ''cancellation_requested''))
         (\<lambda>r. r\<lparr>ar_status := ''cancelled'',
            ar_cancel_requested := Some (case ar_cancel_requested r of None \<Rightarrow> cp_now P | Some t \<Rightarrow> t),
            ar_cancelled := Some (cp_now P), ar_completed := Some (cp_now P)\<rparr>) db) db"

subsection \<open>The transcript\<close>

record transcript_message =
  tm_id :: ustr
  tm_run :: ustr
  tm_role :: string
  tm_content :: ustr
  tm_created :: int
  tm_citations :: "json list"
  tm_grounding :: "ustr option"

definition message_id :: "agent_run \<Rightarrow> string \<Rightarrow> ustr" where
  "message_id r role = ar_id r @ lit '':'' @ lit role"

definition asked_question :: "agent_run \<Rightarrow> ustr option" where
  "asked_question r =
     (case meta_get (ar_input r) ''request'' of
        JDict d \<Rightarrow> (case meta_get d ''user_message'' of JStr (c # cs) \<Rightarrow> Some (c # cs) | _ \<Rightarrow> None)
      | _ \<Rightarrow> None)"

definition given_answer :: "agent_run \<Rightarrow> ustr option" where
  "given_answer r =
     (case meta_get (ar_output r) ''final_answer'' of
        JStr (c # cs) \<Rightarrow> if ar_status r = ''success'' then Some (c # cs) else None
      | _ \<Rightarrow> None)"

definition project_run_messages :: "agent_run \<Rightarrow> transcript_message list" where
  "project_run_messages r =
     (case asked_question r of
        None \<Rightarrow> []
      | Some question \<Rightarrow>
          \<lparr>tm_id = message_id r ''user'', tm_run = ar_id r, tm_role = ''user'', tm_content = question, tm_created = ar_started r,
            tm_citations = [], tm_grounding = None\<rparr> #
          (case given_answer r of
             None \<Rightarrow> []
           | Some answer \<Rightarrow>
               [\<lparr>tm_id = message_id r ''assistant'', tm_run = ar_id r, tm_role = ''assistant'', tm_content = answer,
                 tm_created = (case ar_completed r of None \<Rightarrow> ar_started r | Some t \<Rightarrow> t),
                 tm_citations = (case meta_get (ar_output r) ''citations'' of JList xs \<Rightarrow> xs | _ \<Rightarrow> []),
                 tm_grounding = (case meta_get (ar_output r) ''grounding_status'' of JStr s \<Rightarrow> Some s | _ \<Rightarrow> None)\<rparr>]))"

definition list_for_thread :: "'a conversation_db_scheme \<Rightarrow> ustr \<Rightarrow> ustr \<Rightarrow> ustr \<Rightarrow> conversation_error + agent_run list" where
  "list_for_thread db user goal i =
     traverse run_record (sort_key (\<lambda>r. (ar_created r, ar_id r))
       (filter (\<lambda>r. ar_user r = user \<and> ar_goal r = Some goal \<and> ar_thread r = i \<and> ar_trigger r = ''chat'') (cd_runs db)))"

text \<open>\<open>s.rpartition(":")\<close>: the parts around the last colon, if there is one.\<close>

definition rpartition :: "ustr \<Rightarrow> (ustr \<times> ustr) option" where
  "rpartition s =
     (let back = takeWhile (\<lambda>c. c \<noteq> 58) (rev s)
      in if length back = length s then None else Some (take (length s - length back - 1) s, rev back))"

definition check_cursor :: "'a conversation_db_scheme \<Rightarrow> ustr \<Rightarrow> ustr \<Rightarrow> ustr \<Rightarrow> ustr \<Rightarrow> conversation_error + unit" where
  "check_cursor db user goal i before =
     (case rpartition before of
        None \<Rightarrow> Inl InvalidCursor
      | Some (run, role) \<Rightarrow>
          if run = [] \<or> role \<notin> lit ` {''user'', ''assistant''} then Inl InvalidCursor
          else case find_run db run of
            None \<Rightarrow> Inl InvalidCursor
          | Some row \<Rightarrow>
              bind_res (run_record row) (\<lambda>r.
                require (ar_user r = user \<and> ar_goal r = Some goal \<and> ar_thread r = i) ConversationNotFound))"

definition message_index :: "ustr \<Rightarrow> transcript_message list \<Rightarrow> nat option" where
  "message_index i ms = find (\<lambda>k. tm_id (ms ! k) = i) [0..<length ms]"

definition last_page :: "nat \<Rightarrow> transcript_message list \<Rightarrow> transcript_message list \<times> ustr option" where
  "last_page limit ms =
     (let page = (if limit = 0 then ms else drop (length ms - limit) ms)
      in (page, if limit < length ms \<and> page \<noteq> [] then Some (tm_id (hd page)) else None))"

definition list_messages ::
  "'a conversation_db_scheme \<Rightarrow> ustr \<Rightarrow> ustr \<Rightarrow> ustr \<Rightarrow> nat \<Rightarrow> ustr option
     \<Rightarrow> conversation_error + transcript_message list \<times> ustr option" where
  "list_messages db user goal i limit before =
     bind_res (get_thread db user goal i) (\<lambda>_.
     bind_res (case before of None \<Rightarrow> Inr () | Some c \<Rightarrow> check_cursor db user goal i c) (\<lambda>_.
     bind_res (list_for_thread db user goal i) (\<lambda>runs.
       (let ms = concat (map project_run_messages runs)
        in case before of
             None \<Rightarrow> Inr (last_page limit ms)
           | Some c \<Rightarrow> (case message_index c ms of
               None \<Rightarrow> Inl InvalidCursor
             | Some k \<Rightarrow> Inr (last_page limit (take k ms)))))))"

text \<open>Reading a transcript backwards with the cursors it gives, at most so many pages.\<close>

fun read_back ::
  "'a conversation_db_scheme \<Rightarrow> ustr \<Rightarrow> ustr \<Rightarrow> ustr \<Rightarrow> nat \<Rightarrow> nat \<Rightarrow> ustr option \<Rightarrow> transcript_message list option" where
  "read_back db user goal i limit 0 before = None"
| "read_back db user goal i limit (Suc n) before =
     (case list_messages db user goal i limit before of
        Inl _ \<Rightarrow> None
      | Inr (page, None) \<Rightarrow> Some page
      | Inr (page, Some c) \<Rightarrow> map_option (\<lambda>older. older @ page) (read_back db user goal i limit n (Some c)))"

lemma rpartition_last: "58 \<notin> set role \<Longrightarrow> rpartition (run @ 58 # role) = Some (run, role)"
proof -
  assume r: "58 \<notin> set role"
  have "takeWhile (\<lambda>c. c \<noteq> 58) (rev role @ 58 # rev run) = rev role"
    using r by (subst takeWhile_append2) auto
  then show ?thesis by (simp add: rpartition_def)
qed

lemma message_id_parts:
  "rpartition (message_id r ''user'') = Some (ar_id r, lit ''user'')"
  "rpartition (message_id r ''assistant'') = Some (ar_id r, lit ''assistant'')"
proof -
  have "58 \<notin> set (lit ''user'')" "58 \<notin> set (lit ''assistant'')" by (simp_all add: lit_def)
  then show "rpartition (message_id r ''user'') = Some (ar_id r, lit ''user'')"
    "rpartition (message_id r ''assistant'') = Some (ar_id r, lit ''assistant'')"
    using rpartition_last [of "lit ''user''" "ar_id r"] rpartition_last [of "lit ''assistant''" "ar_id r"]
    by (simp_all add: message_id_def lit_def)
qed

lemma projected_id: "m \<in> set (project_run_messages r) \<Longrightarrow>
    tm_id m = message_id r ''user'' \<or> tm_id m = message_id r ''assistant''"
  by (auto simp: project_run_messages_def split: option.splits)

lemma projected_run: "m \<in> set (project_run_messages r) \<Longrightarrow>
    \<exists>role \<in> lit ` {''user'', ''assistant''}. rpartition (tm_id m) = Some (ar_id r, role)"
  using projected_id [of m r] message_id_parts [of r] by auto

lemma projected_distinct: "distinct (map tm_id (project_run_messages r))"
  by (auto simp: project_run_messages_def message_id_def lit_def split: option.splits)

lemma transcript_distinct:
  assumes "distinct (map ar_id rs)" shows "distinct (map tm_id (concat (map project_run_messages rs)))"
  using assms
proof (induction rs)
  case (Cons r rs)
  have "tm_id m \<noteq> tm_id m'" if "m \<in> set (project_run_messages r)" "q \<in> set rs" "m' \<in> set (project_run_messages q)" for m m' q
  proof
    assume "tm_id m = tm_id m'"
    with projected_run [OF that(1)] projected_run [OF that(3)] have "ar_id r = ar_id q" by auto
    with Cons(2) that(2) show False by auto
  qed
  with Cons projected_distinct [of r] show ?case by auto
qed simp

lemma message_index_nth:
  assumes "distinct (map tm_id ms)" "k < length ms" shows "message_index (tm_id (ms ! k)) ms = Some k"
proof -
  have "message_index (tm_id (ms ! k)) ms \<noteq> None"
    using assms(2) by (auto simp: message_index_def find_None_iff)
  then obtain j where "message_index (tm_id (ms ! k)) ms = Some j" by blast
  moreover from this have "j < length ms" "tm_id (ms ! j) = tm_id (ms ! k)"
    by (auto simp: message_index_def find_Some_iff)
  ultimately show ?thesis using assms by (metis distinct_conv_nth length_map nth_map)
qed

definition transcript :: "'a conversation_db_scheme \<Rightarrow> ustr \<Rightarrow> ustr \<Rightarrow> ustr \<Rightarrow> transcript_message list" where
  "transcript db user goal i =
     (case list_for_thread db user goal i of Inl _ \<Rightarrow> [] | Inr runs \<Rightarrow> concat (map project_run_messages runs))"

lemma run_record_Inr: "run_record r = Inr q \<Longrightarrow> q = r"
  by (simp add: run_record_def split: if_splits)

lemma traverse_run_record: "traverse run_record rs = Inr qs \<Longrightarrow> qs = rs \<and> (\<forall>r \<in> set rs. run_record r = Inr r)"
  by (induction rs arbitrary: qs) (auto simp: bind_res_Inr_iff dest: run_record_Inr)

lemma listed_runs:
  assumes "list_for_thread db user goal i = Inr runs"
  shows "\<forall>r \<in> set runs. r \<in> set (cd_runs db) \<and> run_record r = Inr r \<and> ar_user r = user \<and> ar_goal r = Some goal \<and> ar_thread r = i"
    and "distinct (map ar_id (cd_runs db)) \<Longrightarrow> distinct (map ar_id runs)"
proof -
  let ?rs = "filter (\<lambda>r. ar_user r = user \<and> ar_goal r = Some goal \<and> ar_thread r = i \<and> ar_trigger r = ''chat'') (cd_runs db)"
  have runs: "runs = sort_key (\<lambda>r. (ar_created r, ar_id r)) ?rs" and ok: "\<forall>r \<in> set runs. run_record r = Inr r"
    using traverse_run_record [OF assms [unfolded list_for_thread_def]] by auto
  then show "\<forall>r \<in> set runs. r \<in> set (cd_runs db) \<and> run_record r = Inr r \<and> ar_user r = user \<and> ar_goal r = Some goal \<and> ar_thread r = i"
    by auto
  assume "distinct (map ar_id (cd_runs db))"
  then have "distinct (map ar_id ?rs)" by (rule distinct_map_filter)
  then show "distinct (map ar_id runs)" by (simp add: runs distinct_map)
qed

text \<open>The page that ends before a position.\<close>

lemma list_messages_page:
  assumes "get_thread db user goal i = Inr t" "list_for_thread db user goal i = Inr runs" "distinct (map ar_id (cd_runs db))"
    and ids: "\<forall>r \<in> set (cd_runs db). ar_id r \<noteq> []"
  shows "list_messages db user goal i limit None = Inr (last_page limit (transcript db user goal i))"
    and "k < length (transcript db user goal i) \<Longrightarrow>
      list_messages db user goal i limit (Some (tm_id (transcript db user goal i ! k)))
        = Inr (last_page limit (take k (transcript db user goal i)))"
proof -
  let ?ms = "concat (map project_run_messages runs)"
  have ms: "transcript db user goal i = ?ms" by (simp add: transcript_def assms(2))
  show "list_messages db user goal i limit None = Inr (last_page limit (transcript db user goal i))"
    by (simp add: list_messages_def assms(1,2) ms)
  assume k: "k < length (transcript db user goal i)"
  then have m: "?ms ! k \<in> set ?ms" using ms by (simp del: set_concat)
  then obtain r where r: "r \<in> set runs" "?ms ! k \<in> set (project_run_messages r)" by auto
  from projected_run [OF r(2)] obtain role where role: "role \<in> lit ` {''user'', ''assistant''}"
    "rpartition (tm_id (?ms ! k)) = Some (ar_id r, role)" by blast
  have row: "r \<in> set (cd_runs db)" "run_record r = Inr r" "ar_user r = user" "ar_goal r = Some goal" "ar_thread r = i"
    using listed_runs(1) [OF assms(2)] r(1) by auto
  have "find_run db (ar_id r) = Some r"
  proof (cases "find_run db (ar_id r)")
    case None
    with row(1) show ?thesis by (auto simp: find_run_def find_None_iff)
  next
    case (Some q)
    then have "q \<in> set (cd_runs db)" "ar_id q = ar_id r" by (auto simp: find_run_def dest!: find_Some_in)
    with row(1) assms(3) Some show ?thesis by (auto simp: distinct_map dest: inj_onD)
  qed
  then have "check_cursor db user goal i (tm_id (?ms ! k)) = Inr ()"
    using role row ids by (auto simp: check_cursor_def)
  moreover have "message_index (tm_id (?ms ! k)) ?ms = Some k"
    by (rule message_index_nth) (use transcript_distinct listed_runs(2) [OF assms(2,3)] k ms in \<open>simp_all del: set_concat\<close>)
  ultimately show "list_messages db user goal i limit (Some (tm_id (transcript db user goal i ! k)))
        = Inr (last_page limit (take k (transcript db user goal i)))"
    by (simp add: list_messages_def assms(1,2) ms)
qed

lemma last_page_cases:
  assumes "0 < limit" "k \<le> length ms"
  shows "last_page limit (take k ms)
    = (drop (k - limit) (take k ms), if limit < k then Some (tm_id (ms ! (k - limit))) else None)"
proof (cases "limit < k")
  case True
  with assms have "drop (k - limit) (take k ms) \<noteq> []" "hd (drop (k - limit) (take k ms)) = ms ! (k - limit)"
    by (simp_all add: hd_drop_conv_nth)
  with True assms show ?thesis by (simp add: last_page_def Let_def min_absorb2)
qed (use assms in \<open>simp add: last_page_def Let_def min_absorb2\<close>)

text \<open>
  Reading a transcript backwards with the cursors it gives returns every message of the thread
  once and in order, whatever the size of a page, within as many pages as there are messages.
\<close>
theorem transcript_read_back:
  assumes "get_thread db user goal i = Inr t" "list_for_thread db user goal i = Inr runs" "distinct (map ar_id (cd_runs db))"
    and "\<forall>r \<in> set (cd_runs db). ar_id r \<noteq> []" "0 < limit"
  shows "read_back db user goal i limit (Suc (length (transcript db user goal i))) None = Some (transcript db user goal i)"
    and "distinct (map tm_id (transcript db user goal i))"
proof -
  let ?ms = "transcript db user goal i"
  note page = list_messages_page [OF assms(1-4)]
  have older: "read_back db user goal i limit n (Some (tm_id (?ms ! k))) = Some (take k ?ms)" if "k < length ?ms" "k < n" for k n
    using that
  proof (induction k arbitrary: n rule: less_induct)
    case (less k)
    then obtain n' where n: "n = Suc n'" by (cases n) auto
    have "read_back db user goal i limit n' (Some (tm_id (?ms ! (k - limit)))) = Some (take (k - limit) ?ms)" if "limit < k"
      using less n that assms(5) by (intro less.IH) auto
    moreover have "take (k - limit) ?ms @ drop (k - limit) (take k ?ms) = take k ?ms"
      by (metis append_take_drop_id diff_le_self min.absorb1 take_take)
    ultimately show ?case
      using less.prems(1) by (simp add: n page(2) last_page_cases assms(5))
  qed
  have "read_back db user goal i limit (length ?ms) (Some (tm_id (?ms ! (length ?ms - limit)))) = Some (take (length ?ms - limit) ?ms)"
    if "limit < length ?ms"
    by (rule older) (use that assms(5) in auto)
  then show "read_back db user goal i limit (Suc (length ?ms)) None = Some ?ms"
    using last_page_cases [OF assms(5), of "length ?ms" ?ms] by (simp add: page(1))
  show "distinct (map tm_id ?ms)"
    using transcript_distinct [OF listed_runs(2) [OF assms(2,3)]] by (simp add: transcript_def assms(2))
qed

definition sample_run :: "ustr \<Rightarrow> agent_run" where
  "sample_run i =
     \<lparr>ar_id = i, ar_user = lit ''u'', ar_goal = Some (lit ''g''), ar_thread = lit ''t'', ar_correlation = Some i, ar_hash = Some [],
      ar_graph = ''phase2'', ar_version = ''v1'', ar_trigger = ''chat'',
      ar_input = [(lit ''request'', JDict [(lit ''user_message'', JStr (lit ''why?''))])], ar_output = [], ar_trace = [],
      ar_status = ''failed'', ar_latency = 0, ar_error = None, ar_started = 0, ar_completed = None,
      ar_cancel_requested = None, ar_cancelled = None, ar_created = 0\<rparr>"

definition sample_thread :: conversation_thread where
  "sample_thread =
     \<lparr>ct_id = lit ''t'', ct_user = lit ''u'', ct_goal = lit ''g'', ct_legacy = None, ct_title = None, ct_status = ''active'',
      ct_created = 0, ct_updated = 0, ct_archived = None\<rparr>"

definition sample_conversation_db :: conversation_db where
  "sample_conversation_db =
     \<lparr>cd_goals = [(lit ''g'', lit ''u'')], cd_threads = [sample_thread], cd_runs = [sample_run (lit ''r1''), sample_run (lit ''r2'')]\<rparr>"

lemma transcript_read_back_witness:
  "read_back sample_conversation_db (lit ''u'') (lit ''g'') (lit ''t'') 1
     (Suc (length (transcript sample_conversation_db (lit ''u'') (lit ''g'') (lit ''t'')))) None
   = Some (transcript sample_conversation_db (lit ''u'') (lit ''g'') (lit ''t''))"
proof -
  have "get_thread sample_conversation_db (lit ''u'') (lit ''g'') (lit ''t'') = Inr sample_thread"
    by (simp add: get_thread_def owned_thread_def sample_conversation_db_def sample_thread_def)
  moreover have "list_for_thread sample_conversation_db (lit ''u'') (lit ''g'') (lit ''t'') = Inr [sample_run (lit ''r1''), sample_run (lit ''r2'')]"
    by (simp add: list_for_thread_def sample_conversation_db_def sample_run_def run_record_def lit_def)
  moreover have "distinct (map ar_id (cd_runs sample_conversation_db))" "\<forall>r \<in> set (cd_runs sample_conversation_db). ar_id r \<noteq> []"
    by (simp_all add: sample_conversation_db_def sample_run_def lit_def)
  ultimately show ?thesis by (rule transcript_read_back) simp
qed

end
