(* ===== verification/Tool_Approvals.thy ===== *)
theory Tool_Approvals
  imports Mcp_Service Conversations
begin

text \<open>
  The approval of tools that may write (src/backend/app/application/tool_approval_service.py): a run asks
  for an approval and waits, the user decides once, an approved call is made and its outcome stored, and
  a restart marks what was left executing as unknown.

  The state extends the conversation tables by the approvals, the MCP tables and a record of what
  reached a server for which approval. A call may not come back: the process dies, or an
  exception that is no \<open>McpServiceError\<close> ends the transaction. Both leave the tables as they were; the approvals
  of such calls are noted in \<open>ax_lost\<close>, which like \<open>ax_calls\<close> is no part of the program.
\<close>

subsection \<open>Tables\<close>

record tool_approval =
  ta_id :: ustr
  ta_user :: ustr
  ta_run :: ustr
  ta_server :: ustr
  ta_tool :: ustr
  ta_args :: json
  ta_hash :: ustr
  ta_status :: string
  ta_result :: metadata
  ta_created :: int
  ta_decided :: "int option"
  ta_completed :: "int option"

record approval_db = conversation_db +
  ax_mcp :: mcp_db
  ax_rows :: "tool_approval list"
  ax_calls :: "(ustr \<times> mcp_call) list"
  ax_lost :: "ustr list"

datatype approval_error = ApprovalNotFound | ApprovalConflict string "metadata option" | CallLost

record approval_resolution =
  rs_success :: bool
  rs_value :: json
  rs_truncated :: bool
  rs_code :: "ustr option"
  rs_cached :: bool

subsection \<open>Asking\<close>

definition request_hash :: "mcp_env \<Rightarrow> ustr \<Rightarrow> ustr \<Rightarrow> ustr \<Rightarrow> metadata \<Rightarrow> ustr" where
  "request_hash M run server tool args =
     me_digest M [(lit ''run_id'', JStr run), (lit ''server_id'', JStr server), (lit ''tool_name'', JStr tool),
       (lit ''arguments'', JDict args)]"

text \<open>Secrets that cannot be read are skipped here.\<close>

definition configured_secret_values :: "mcp_env \<Rightarrow> mcp_db \<Rightarrow> ustr \<Rightarrow> ustr \<Rightarrow> ustr list" where
  "configured_secret_values M db user server =
     (case me_store M of
        None \<Rightarrow> []
      | Some store \<Rightarrow> List.map_filter (\<lambda>r. case store (sr_ref r) of Some (c # cs) \<Rightarrow> Some (c # cs) | _ \<Rightarrow> None)
          (owned_refs db user server))"

definition owned_run_and_server :: "approval_db \<Rightarrow> ustr \<Rightarrow> ustr \<Rightarrow> ustr \<Rightarrow> ustr \<Rightarrow> (agent_run \<times> mcp_server) option" where
  "owned_run_and_server db user run thread server =
     (case (find (\<lambda>r. ar_id r = run \<and> ar_user r = user \<and> ar_thread r = thread) (cd_runs db), owned_server (ax_mcp db) user server) of
        (Some r, Some s) \<Rightarrow> Some (r, s)
      | _ \<Rightarrow> None)"

definition public_approval :: "tool_approval \<Rightarrow> mcp_server \<Rightarrow> metadata" where
  "public_approval a s =
     [(lit ''approval_id'', JStr (ta_id a)), (lit ''run_id'', JStr (ta_run a)),
      (lit ''server'', JDict [(lit ''id'', JStr (mv_id s)), (lit ''name'', JStr (mv_name s))]),
      (lit ''tool_name'', JStr (ta_tool a)), (lit ''arguments'', ta_args a), (lit ''status'', json_text (ta_status a)),
      (lit ''result_summary'', JDict (ta_result a))]"

definition approval_with :: "approval_db \<Rightarrow> ustr \<Rightarrow> ustr \<Rightarrow> tool_approval option" where
  "approval_with db user h = find (\<lambda>a. ta_user a = user \<and> ta_hash a = h) (ax_rows db)"

definition new_approval :: "mcp_env \<Rightarrow> approval_db \<Rightarrow> ustr \<Rightarrow> ustr \<Rightarrow> ustr \<Rightarrow> ustr \<Rightarrow> metadata \<Rightarrow> tool_approval" where
  "new_approval M db user run server tool args =
     \<lparr>ta_id = lit ''approval-'' @ me_uuid M 0, ta_user = user, ta_run = run, ta_server = server, ta_tool = tool,
      ta_args = sanitize (configured_secret_values M (ax_mcp db) user server) (JDict args),
      ta_hash = request_hash M run server tool args, ta_status = ''pending'', ta_result = [], ta_created = me_now M,
      ta_decided = None, ta_completed = None\<rparr>"

definition set_run_status :: "(agent_run \<Rightarrow> bool) \<Rightarrow> string \<Rightarrow> approval_db \<Rightarrow> approval_db" where
  "set_run_status P status db = update_runs P (\<lambda>r. r\<lparr>ar_status := status\<rparr>) db"

definition require_approval ::
  "mcp_env \<Rightarrow> ustr \<Rightarrow> ustr \<Rightarrow> ustr \<Rightarrow> ustr \<Rightarrow> ustr \<Rightarrow> metadata \<Rightarrow> approval_db \<Rightarrow> (approval_error + metadata) \<times> approval_db" where
  "require_approval M user run thread server tool args db =
     (case owned_run_and_server db user run thread server of
        None \<Rightarrow> (Inl ApprovalNotFound, db)
      | Some (r, s) \<Rightarrow>
          let h = request_hash M run server tool args;
              fresh = new_approval M db user run server tool args;
              db' = (case approval_with db user h of None \<Rightarrow> db\<lparr>ax_rows := ax_rows db @ [fresh]\<rparr> | Some _ \<Rightarrow> db);
              a = (case approval_with db user h of None \<Rightarrow> fresh | Some a \<Rightarrow> a)
          in (Inr (public_approval a s), set_run_status (\<lambda>r'. ar_id r' = run \<and> ar_status r' = ''running'') ''awaiting_approval'' db'))"

definition approvals_for_thread :: "approval_db \<Rightarrow> ustr \<Rightarrow> ustr \<Rightarrow> metadata list" where
  "approvals_for_thread db user thread =
     List.map_filter (\<lambda>a.
       case (find (\<lambda>s. mv_id s = ta_server a) (md_servers (ax_mcp db)), find_run db (ta_run a)) of
         (Some s, Some r) \<Rightarrow> if ar_thread r = thread then Some (public_approval a s) else None
       | _ \<Rightarrow> None)
     (sort_key (\<lambda>a. (ta_created a, ta_id a)) (filter (\<lambda>a. ta_user a = user) (ax_rows db)))"

subsection \<open>Deciding\<close>

definition owned_approval :: "approval_db \<Rightarrow> ustr \<Rightarrow> ustr \<Rightarrow> ustr \<Rightarrow> (tool_approval \<times> agent_run) option" where
  "owned_approval db user run i =
     (case (find (\<lambda>a. ta_id a = i \<and> ta_user a = user \<and> ta_run a = run) (ax_rows db),
            find (\<lambda>r. ar_id r = run \<and> ar_user r = user) (cd_runs db)) of
        (Some a, Some r) \<Rightarrow> Some (a, r)
      | _ \<Rightarrow> None)"

definition conflict_payload :: "tool_approval \<Rightarrow> approval_error" where
  "conflict_payload a = ApprovalConflict ''mcp.approval_not_pending''
     (Some [(lit ''approval_id'', JStr (ta_id a)), (lit ''status'', json_text (ta_status a)), (lit ''result_summary'', JDict (ta_result a))])"

definition not_resumable :: approval_error where
  "not_resumable = ApprovalConflict ''mcp.approval_not_resumable'' None"

definition resumable :: "approval_db \<Rightarrow> ustr \<Rightarrow> agent_run \<Rightarrow> bool" where
  "resumable db user r \<longleftrightarrow>
     list_ex (\<lambda>t. ct_id t = ar_thread r \<and> ct_user t = user \<and> ct_status t = ''active'') (cd_threads db)
     \<and> ar_status r \<noteq> ''cancellation_requested'' \<and> ar_cancel_requested r = None"

definition decided_row :: "int \<Rightarrow> bool \<Rightarrow> tool_approval \<Rightarrow> tool_approval" where
  "decided_row now approve a =
     (if approve then a\<lparr>ta_status := ''executing'', ta_decided := Some now\<rparr>
      else a\<lparr>ta_status := ''rejected'', ta_decided := Some now, ta_completed := Some now,
        ta_result := [(lit ''status'', json_text ''rejected''), (lit ''code'', json_text ''mcp.tool_rejected'')]\<rparr>)"

definition begin_decision ::
  "mcp_env \<Rightarrow> ustr \<Rightarrow> ustr \<Rightarrow> ustr \<Rightarrow> bool \<Rightarrow> approval_db \<Rightarrow> (approval_error + ustr) \<times> approval_db" where
  "begin_decision M user run i approve db =
     (case owned_approval db user run i of
        None \<Rightarrow> (Inl ApprovalNotFound, db)
      | Some (a, r) \<Rightarrow>
          if \<not> resumable db user r then (Inl not_resumable, db)
          else if ta_status a \<noteq> ''pending'' then (Inl (conflict_payload a), db)
          else if ar_status r \<noteq> ''awaiting_approval'' then (Inl not_resumable, db)
          else (Inr i, set_run_status (\<lambda>r'. ar_id r' = run \<and> ar_status r' = ''awaiting_approval'')
                  (if approve then ''executing_approval'' else ''running'')
                  (db\<lparr>ax_rows := set_row ta_id (decided_row (me_now M) approve a) (ax_rows db)\<rparr>)))"

definition preview_decision :: "approval_db \<Rightarrow> ustr \<Rightarrow> ustr \<Rightarrow> ustr \<Rightarrow> approval_error + unit" where
  "preview_decision db user run i =
     (case owned_approval db user run i of
        None \<Rightarrow> Inl ApprovalNotFound
      | Some (a, r) \<Rightarrow>
          if \<not> resumable db user r then Inl not_resumable
          else if ta_status a \<noteq> ''pending'' then Inl (conflict_payload a) else Inr ())"

subsection \<open>Executing\<close>

definition approval_for_request :: "mcp_env \<Rightarrow> approval_db \<Rightarrow> ustr \<Rightarrow> ustr \<Rightarrow> ustr \<Rightarrow> ustr \<Rightarrow> ustr \<Rightarrow> metadata \<Rightarrow> tool_approval option" where
  "approval_for_request M db user run thread server tool args =
     find (\<lambda>a. ta_user a = user \<and> ta_hash a = request_hash M run server tool args
        \<and> list_ex (\<lambda>r. ar_id r = ta_run a \<and> ar_thread r = thread) (cd_runs db)) (ax_rows db)"

definition text_of :: "replan_env \<Rightarrow> json \<Rightarrow> ustr" where
  "text_of E v = (case v of JStr s \<Rightarrow> s | _ \<Rightarrow> re_str E v)"

definition resolution_from_summary :: "replan_env \<Rightarrow> metadata \<Rightarrow> bool \<Rightarrow> approval_resolution" where
  "resolution_from_summary E summary cached =
     (if meta_get summary ''status'' = json_text ''success''
      then \<lparr>rs_success = True, rs_value = meta_get summary ''value'', rs_truncated = truthy (meta_get summary ''truncated''),
             rs_code = None, rs_cached = cached\<rparr>
      else \<lparr>rs_success = False, rs_value = JNull, rs_truncated = False,
             rs_code = Some (let c = meta_get summary ''code'' in if truthy c then text_of E c else lit ''mcp.execution_failed''),
             rs_cached = cached\<rparr>)"

definition refused_resolution :: "ustr \<Rightarrow> approval_resolution" where
  "refused_resolution code = \<lparr>rs_success = False, rs_value = JNull, rs_truncated = False, rs_code = Some code, rs_cached = False\<rparr>"

definition release_execution :: "ustr \<Rightarrow> ustr \<Rightarrow> approval_db \<Rightarrow> approval_db" where
  "release_execution user run db =
     set_run_status (\<lambda>r. ar_id r = run \<and> ar_user r = user \<and> ar_status r = ''executing_approval'') ''running'' db"

definition finished_row :: "mcp_env \<Rightarrow> mcp_db \<Rightarrow> ustr \<Rightarrow> ustr \<Rightarrow> string + mcp_reply \<Rightarrow> tool_approval \<Rightarrow> tool_approval" where
  "finished_row M db user server r a =
     (case r of
        Inl code \<Rightarrow> a\<lparr>ta_status := ''failed'', ta_completed := Some (me_now M),
          ta_result := [(lit ''status'', json_text ''failed''), (lit ''code'', json_text code)]\<rparr>
      | Inr reply \<Rightarrow> a\<lparr>ta_status := ''completed'', ta_completed := Some (me_now M),
          ta_result := [(lit ''status'', json_text ''success''),
            (lit ''value'', sanitize (configured_secret_values M db user server) (rp_value reply)),
            (lit ''truncated'', JBool (rp_truncated reply))]\<rparr>)"

text \<open>The call of an executing approval; \<open>dies\<close> is the outcome that the process does not come back.\<close>

definition execute_approved ::
  "mcp_env \<Rightarrow> replan_env \<Rightarrow> bool \<Rightarrow> ustr \<Rightarrow> ustr \<Rightarrow> ustr \<Rightarrow> ustr \<Rightarrow> metadata \<Rightarrow> tool_approval \<Rightarrow> approval_db
     \<Rightarrow> (approval_error + approval_resolution) \<times> approval_db" where
  "execute_approved M E dies user run server tool args a db =
     (let (r, calls) = invoke_approved_tool M (ax_mcp db) user server tool args;
          logged = db\<lparr>ax_calls := ax_calls db @ map (\<lambda>c. (ta_id a, c)) calls\<rparr>;
          finish = (\<lambda>outcome. release_execution user run
            (logged\<lparr>ax_rows := set_row ta_id (finished_row M (ax_mcp db) user server outcome a) (ax_rows logged)\<rparr>))
      in if dies then (Inl CallLost, logged\<lparr>ax_lost := ax_lost db @ [ta_id a]\<rparr>)
         else case r of
           Inl (Raised code) \<Rightarrow> (Inr (refused_resolution (lit code)), finish (Inl code))
         | Inl _ \<Rightarrow> (Inl CallLost, logged\<lparr>ax_lost := ax_lost db @ [ta_id a]\<rparr>)
         | Inr reply \<Rightarrow>
             (Inr (resolution_from_summary E (ta_result (finished_row M (ax_mcp db) user server (Inr reply) a)) False),
              finish (Inr reply)))"

definition resolve_after_interrupt ::
  "mcp_env \<Rightarrow> replan_env \<Rightarrow> bool \<Rightarrow> ustr \<Rightarrow> ustr \<Rightarrow> ustr \<Rightarrow> ustr \<Rightarrow> ustr \<Rightarrow> metadata \<Rightarrow> bool \<Rightarrow> approval_db
     \<Rightarrow> (approval_error + approval_resolution) \<times> approval_db" where
  "resolve_after_interrupt M E dies user run thread server tool args approve db =
     (case approval_for_request M db user run thread server tool args of
        None \<Rightarrow> (Inl ApprovalNotFound, db)
      | Some a \<Rightarrow>
          if ta_status a \<in> {''completed'', ''failed''} then (Inr (resolution_from_summary E (ta_result a) True), db)
          else if \<not> approve \<or> ta_status a = ''rejected'' then (Inr (refused_resolution (lit ''mcp.tool_rejected'')), db)
          else if ta_status a \<noteq> ''executing'' then (Inl (conflict_payload a), db)
          else if \<not> list_ex (\<lambda>r. ar_id r = run \<and> ar_user r = user \<and> ar_status r = ''executing_approval'') (cd_runs db)
          then (Inl not_resumable, db)
          else execute_approved M E dies user run server tool args a db)"

subsection \<open>Recovery\<close>

definition recovered_row :: "int \<Rightarrow> tool_approval \<Rightarrow> tool_approval" where
  "recovered_row now a =
     (if ta_status a = ''executing''
      then a\<lparr>ta_status := ''unknown'', ta_completed := Some now,
        ta_result := [(lit ''status'', json_text ''unknown''), (lit ''code'', json_text ''mcp.execution_unknown'')]\<rparr>
      else a)"

definition stranded :: "approval_db \<Rightarrow> agent_run \<Rightarrow> bool" where
  "stranded db r \<longleftrightarrow> list_ex (\<lambda>a. ta_status a = ''executing'' \<and> ta_run a = ar_id r) (ax_rows db)
     \<and> ar_status r \<in> {''running'', ''awaiting_approval'', ''executing_approval''}"

definition recover_stranded_tool_approvals :: "int \<Rightarrow> approval_db \<Rightarrow> nat \<times> approval_db" where
  "recover_stranded_tool_approvals now db =
     (length (filter (\<lambda>a. ta_status a = ''executing'') (ax_rows db)),
      update_runs (stranded db)
        (\<lambda>r. r\<lparr>ar_status := ''failed'', ar_error := Some (lit ''mcp.execution_unknown''), ar_completed := Some now\<rparr>)
        (db\<lparr>ax_rows := map (recovered_row now) (ax_rows db)\<rparr>))"

end
