(* ===== verification/Approval_Runs.thy ===== *)
theory Approval_Runs
  imports Tool_Approvals
begin

text \<open>
  Sequences of requests on conversations and tool approvals, in any order, with calls that fail, raise or
  never come back and restarts in between. Shown: a thread has at most one active run and none once
  archived, a run executes at most one approval, a call needs the decision of its user and is made at
  most once, a settled approval is final and, as a defect, a run left executing blocks its thread.

  All requests hash with the same digest; \<open>separating_requests\<close> says that it tells apart the
  run, the server and the tool of a request.
\<close>

subsection \<open>Operations\<close>

datatype conversation_op =
    CreateThread conversation_ports ustr ustr "ustr option"
  | EnsureLegacy conversation_ports ustr ustr ustr
  | ArchiveThread conversation_ports ustr ustr ustr
  | StartRun conversation_ports run_request
  | CompleteRun conversation_ports ustr ustr ustr ustr "metadata option" metadata "metadata list" int
  | FailRun conversation_ports ustr ustr ustr ustr ustr "metadata list" int
  | RequestCancel conversation_ports ustr ustr ustr ustr
  | RequestOwnedCancel conversation_ports ustr ustr
  | MarkCancelled conversation_ports ustr ustr ustr ustr

fun conversation_step :: "conversation_op \<Rightarrow> approval_db \<Rightarrow> approval_db" where
  "conversation_step (CreateThread P user goal title) db = snd (create_thread P user goal title db)"
| "conversation_step (EnsureLegacy P user goal i) db = snd (ensure_legacy_thread P user goal i db)"
| "conversation_step (ArchiveThread P user goal i) db = snd (archive_thread P user goal i db)"
| "conversation_step (StartRun P q) db = snd (start_run P q db)"
| "conversation_step (CompleteRun P user goal thread i given out trace latency) db =
     snd (complete_run P user goal thread i given out trace latency db)"
| "conversation_step (FailRun P user goal thread i message trace latency) db =
     snd (fail_run P user goal thread i message trace latency db)"
| "conversation_step (RequestCancel P user goal thread i) db = snd (request_run_cancellation P user goal thread i db)"
| "conversation_step (RequestOwnedCancel P user i) db = snd (request_owned_run_cancellation P user i db)"
| "conversation_step (MarkCancelled P user goal thread i) db = snd (mark_run_cancelled P user goal thread i db)"

datatype approval_op =
    Conversation conversation_op
  | RequireApproval mcp_env ustr ustr ustr ustr ustr metadata
  | BeginDecision mcp_env ustr ustr ustr bool
  | Resolve mcp_env replan_env bool ustr ustr ustr ustr ustr metadata bool
  | Recover int

fun approval_step :: "approval_op \<Rightarrow> approval_db \<Rightarrow> approval_db" where
  "approval_step (Conversation c) db = conversation_step c db"
| "approval_step (RequireApproval M user run thread server tool args) db = snd (require_approval M user run thread server tool args db)"
| "approval_step (BeginDecision M user run i approve) db = snd (begin_decision M user run i approve db)"
| "approval_step (Resolve M E dies user run thread server tool args approve) db =
     snd (resolve_after_interrupt M E dies user run thread server tool args approve db)"
| "approval_step (Recover now) db = snd (recover_stranded_tool_approvals now db)"

text \<open>Fresh ids, and the common digest.\<close>

fun op_possible :: "(metadata \<Rightarrow> ustr) \<Rightarrow> approval_db \<Rightarrow> approval_op \<Rightarrow> bool" where
  "op_possible digest db (Conversation (CreateThread P user goal title)) \<longleftrightarrow> lit ''thread-'' @ cp_uuid P \<notin> ct_id ` set (cd_threads db)"
| "op_possible digest db (Conversation (EnsureLegacy P user goal i)) \<longleftrightarrow> lit ''thread-'' @ cp_uuid P \<notin> ct_id ` set (cd_threads db)"
| "op_possible digest db (Conversation (StartRun P q)) \<longleftrightarrow> lit ''run-'' @ cp_uuid P \<notin> ar_id ` set (cd_runs db)"
| "op_possible digest db (RequireApproval M user run thread server tool args) \<longleftrightarrow>
     me_digest M = digest \<and> lit ''approval-'' @ me_uuid M 0 \<notin> ta_id ` set (ax_rows db)"
| "op_possible digest db (Resolve M E dies user run thread server tool args approve) \<longleftrightarrow> me_digest M = digest"
| "op_possible digest db op \<longleftrightarrow> True"

inductive approval_run :: "(metadata \<Rightarrow> ustr) \<Rightarrow> approval_db \<Rightarrow> approval_db \<Rightarrow> bool" for digest where
  stay: "approval_run digest db db"
| step: "approval_run digest db db' \<Longrightarrow> op_possible digest db' op \<Longrightarrow> approval_run digest db (approval_step op db')"

definition hash_with :: "(metadata \<Rightarrow> ustr) \<Rightarrow> ustr \<Rightarrow> ustr \<Rightarrow> ustr \<Rightarrow> metadata \<Rightarrow> ustr" where
  "hash_with digest run server tool args =
     digest [(lit ''run_id'', JStr run), (lit ''server_id'', JStr server), (lit ''tool_name'', JStr tool), (lit ''arguments'', JDict args)]"

lemma request_hash_with: "request_hash M run server tool args = hash_with (me_digest M) run server tool args"
  by (simp add: request_hash_def hash_with_def)

definition separating_requests :: "(metadata \<Rightarrow> ustr) \<Rightarrow> bool" where
  "separating_requests digest \<longleftrightarrow>
     (\<forall>run server tool args run' server' tool' args'.
        hash_with digest run server tool args = hash_with digest run' server' tool' args' \<longrightarrow> run = run' \<and> server = server' \<and> tool = tool')"

subsection \<open>What an operation does to the runs\<close>

definition executing_run :: "agent_run \<Rightarrow> bool" where
  "executing_run r \<longleftrightarrow> ar_status r = ''executing_approval''"

text \<open>A run changed without getting active again; \<open>quiet\<close> if it neither starts nor stops executing.\<close>

definition same_run :: "agent_run \<Rightarrow> agent_run \<Rightarrow> bool" where
  "same_run r r' \<longleftrightarrow> ar_id r' = ar_id r \<and> ar_user r' = ar_user r \<and> ar_thread r' = ar_thread r \<and> (active_run r' \<longrightarrow> active_run r)"

definition quiet :: "agent_run \<Rightarrow> agent_run \<Rightarrow> bool" where
  "quiet r r' \<longleftrightarrow> same_run r r' \<and> executing_run r' = executing_run r \<and> (executing_run r \<longrightarrow> r' = r)"

lemma same_run_refl [simp]: "same_run r r" and quiet_refl [simp]: "quiet r r"
  by (simp_all add: same_run_def quiet_def)

lemma list_all2_updated:
  assumes "\<And>r. P r \<Longrightarrow> R r (f r)" "\<And>r. R r r"
  shows "list_all2 R rs (map (\<lambda>r. if P r then f r else r) rs)"
  using assms by (simp add: list_all2_conv_all_nth)

lemma refreshed_cases: "snd (refreshed P db' db) = db' \<or> snd (refreshed P db' db) = db"
  by (simp add: refreshed_def split: option.split sum.split)

text \<open>Everything the approvals own is untouched by a request on conversations.\<close>

definition same_approvals :: "approval_db \<Rightarrow> approval_db \<Rightarrow> bool" where
  "same_approvals db db' \<longleftrightarrow> ax_rows db' = ax_rows db \<and> ax_calls db' = ax_calls db \<and> ax_lost db' = ax_lost db \<and> ax_mcp db' = ax_mcp db"

lemma same_approvals_refl [simp]: "same_approvals db db"
  by (simp add: same_approvals_def)

lemma same_approvals_update [simp]: "same_approvals db (update_runs P f db)"
  by (simp add: same_approvals_def update_runs_def)

lemma update_runs_fields [simp]:
  "cd_threads (update_runs P f db) = cd_threads db" "cd_runs (update_runs P f db) = map (\<lambda>r. if P r then f r else r) (cd_runs db)"
  by (simp_all add: update_runs_def)

lemma updated_quiet:
  assumes "db' = snd (refreshed own (update_runs P f db) db)" "\<And>r. P r \<Longrightarrow> quiet r (f r)"
  shows "same_approvals db db' \<and> cd_threads db' = cd_threads db \<and> list_all2 quiet (cd_runs db) (cd_runs db')"
proof -
  have "db' = update_runs P f db \<or> db' = db" using refreshed_cases [of own "update_runs P f db" db] assms(1) by auto
  moreover have "list_all2 quiet (cd_runs db) (map (\<lambda>r. if P r then f r else r) (cd_runs db))"
    by (rule list_all2_updated) (simp_all add: assms(2))
  moreover have "list_all2 quiet (cd_runs db) (cd_runs db)" by (simp add: list_all2_conv_all_nth)
  ultimately show ?thesis by auto
qed

lemmas status_defs = quiet_def same_run_def active_run_def active_statuses_def executing_run_def cancellable_def

lemma finish_quiet:
  assumes "db' = snd (finish_run P user goal thread i f db)"
    and "\<And>r. ar_status r = ''running'' \<Longrightarrow> quiet r ((f r)\<lparr>ar_completed := Some (cp_now P)\<rparr>)"
  shows "same_approvals db db' \<and> cd_threads db' = cd_threads db \<and> list_all2 quiet (cd_runs db) (cd_runs db')"
proof -
  let ?own = "owned_run user goal thread i"
  let ?run = "\<lambda>r. ?own r \<and> ar_status r = ''running''" and ?stop = "\<lambda>r. ?own r \<and> ar_status r = ''cancellation_requested''"
  let ?f = "\<lambda>r. (f r)\<lparr>ar_completed := Some (cp_now P)\<rparr>"
  let ?c = "\<lambda>r. r\<lparr>ar_status := ''cancelled'', ar_cancelled := Some (cp_now P), ar_completed := Some (cp_now P)\<rparr>"
  show ?thesis
  proof (cases "list_ex ?run (cd_runs db)")
    case True
    with assms(1) have "db' = snd (refreshed ?own (update_runs ?run ?f db) db)" by (simp add: finish_run_def Let_def)
    then show ?thesis by (rule updated_quiet) (use assms(2) in blast)
  next
    case False
    with assms(1) have "db' = snd (refreshed ?own (update_runs ?stop ?c db) db)" by (simp add: finish_run_def Let_def)
    then show ?thesis by (rule updated_quiet) (auto simp: status_defs)
  qed
qed

lemma cancel_quiet:
  assumes "db' = snd (request_cancel P own db)"
  shows "same_approvals db db' \<and> cd_threads db' = cd_threads db \<and> list_all2 quiet (cd_runs db) (cd_runs db')"
  using assms unfolding request_cancel_def by (rule updated_quiet) (auto simp: status_defs)

lemma conversation_cases:
  assumes "db' = conversation_step op db"
  obtains (quiet) "same_approvals db db'" "cd_threads db' = cd_threads db" "list_all2 quiet (cd_runs db) (cd_runs db')"
  | (thread) P :: conversation_ports and user goal title legacy where "same_approvals db db'" "cd_runs db' = cd_runs db"
      "cd_threads db' = cd_threads db @ [\<lparr>ct_id = lit ''thread-'' @ cp_uuid P, ct_user = user, ct_goal = goal, ct_legacy = legacy,
         ct_title = title, ct_status = ''active'', ct_created = cp_now P, ct_updated = cp_now P, ct_archived = None\<rparr>]"
      "(\<exists>t. op = CreateThread P user goal t) \<or> (\<exists>i. op = EnsureLegacy P user goal i)"
  | (archive) P :: conversation_ports and t where "same_approvals db db'" "cd_runs db' = cd_runs db" "t \<in> set (cd_threads db)" "\<not> thread_busy db (ct_id t)"
      "cd_threads db' = set_row ct_id (t\<lparr>ct_status := ''archived'', ct_updated := cp_now P, ct_archived := Some (cp_now P)\<rparr>) (cd_threads db)"
  | (start) P :: conversation_ports and q t where "op = StartRun P q" "same_approvals db db'" "cd_threads db' = cd_threads db"
      "cd_runs db' = cd_runs db @ [new_run P q]" "\<not> thread_busy db (rq_thread q)"
      "t \<in> set (cd_threads db)" "ct_id t = rq_thread q" "ct_status t = ''active''"
proof (cases op)
  case (CreateThread P user goal title)
  with assms show ?thesis
    using quiet thread [of P user goal None "clean_title title"]
    by (auto simp: create_thread_def create_with_id_def Let_def same_approvals_def list_all2_conv_all_nth split: if_splits)
next
  case (EnsureLegacy P user goal i)
  with assms show ?thesis
    using quiet thread [of P user goal "Some i" None]
    by (auto simp: ensure_legacy_thread_def create_with_id_def clean_title_def Let_def same_approvals_def list_all2_conv_all_nth
        split: if_splits option.splits)
next
  case (ArchiveThread P user goal i)
  show ?thesis
  proof (cases "owned_thread db user goal i")
    case None
    with ArchiveThread assms show ?thesis by (intro quiet) (auto simp: archive_thread_def list_all2_conv_all_nth)
  next
    case (Some t)
    then have "t \<in> set (cd_threads db)" "ct_id t = i" by (auto simp: owned_thread_def dest!: find_Some_in)
    with Some ArchiveThread assms show ?thesis
      using quiet archive [of t P]
      by (auto simp: archive_thread_def Let_def same_approvals_def list_all2_conv_all_nth split: if_splits)
  qed
next
  case (StartRun P q)
  show ?thesis
  proof (cases "require_thread db (rq_user q) (rq_goal q) (rq_thread q)")
    case (Inl e)
    with StartRun assms show ?thesis by (intro quiet) (auto simp: start_run_def list_all2_conv_all_nth)
  next
    case (Inr t)
    then have "t \<in> set (cd_threads db)" "ct_id t = rq_thread q" "ct_status t = ''active''"
      by (auto simp: require_thread_def get_thread_def owned_thread_def require_active_def bind_res_Inr_iff
          split: option.splits if_splits dest!: find_Some_in)
    with Inr StartRun assms show ?thesis
      using quiet start [of P q t] by (auto simp: start_run_def same_approvals_def list_all2_conv_all_nth split: if_splits)
  qed
next
  case (CompleteRun P user goal thread i given out trace latency)
  then have "db' = snd (finish_run P user goal thread i
     (\<lambda>r. r\<lparr>ar_status := ''success'', ar_output := out, ar_trace := trace, ar_latency := max 0 latency, ar_error := None,
          ar_input := (case given of None \<Rightarrow> ar_input r | Some m \<Rightarrow> m)\<rparr>) db)"
    using assms by (simp add: complete_run_def)
  then have "same_approvals db db' \<and> cd_threads db' = cd_threads db \<and> list_all2 quiet (cd_runs db) (cd_runs db')"
    by (rule finish_quiet) (simp add: status_defs)
  with quiet show ?thesis by blast
next
  case (FailRun P user goal thread i message trace latency)
  then have "db' = snd (finish_run P user goal thread i
     (\<lambda>r. r\<lparr>ar_status := ''failed'', ar_trace := trace, ar_latency := max 0 latency, ar_error := Some message\<rparr>) db)"
    using assms by (simp add: fail_run_def)
  then have "same_approvals db db' \<and> cd_threads db' = cd_threads db \<and> list_all2 quiet (cd_runs db) (cd_runs db')"
    by (rule finish_quiet) (simp add: status_defs)
  with quiet show ?thesis by blast
next
  case (RequestCancel P user goal thread i)
  then have "db' = snd (request_cancel P (owned_run user goal thread i) db)"
    using assms by (simp add: request_run_cancellation_def)
  from cancel_quiet [OF this] quiet show ?thesis by blast
next
  case (RequestOwnedCancel P user i)
  then have "db' = snd (request_cancel P (\<lambda>r. ar_id r = i \<and> ar_user r = user) db)"
    using assms by (simp add: request_owned_run_cancellation_def)
  from cancel_quiet [OF this] quiet show ?thesis by blast
next
  case (MarkCancelled P user goal thread i)
  then have "db' = snd (mark_run_cancelled P user goal thread i db)" using assms by simp
  then have "same_approvals db db' \<and> cd_threads db' = cd_threads db \<and> list_all2 quiet (cd_runs db) (cd_runs db')"
    unfolding mark_run_cancelled_def by (rule updated_quiet) (auto simp: status_defs)
  with quiet show ?thesis by blast
qed

end
