(* ===== verification/Approval_Safety.thy ===== *)
theory Approval_Safety
  imports Approval_Runs
begin

text \<open>
  Invariants over runs of requests on conversations and approvals, and what follows from them: every operation
  falls into one of the cases of \<open>approval_cases\<close>, and \<open>approvals_sound\<close> (calls counted per approval,
  executing approvals in executing runs, one per run) and \<open>calls_granted\<close> (a call has the decision of its
  user) are kept by each.
\<close>

subsection \<open>What an operation does to the approvals\<close>

lemma set_run_status_fields [simp]:
  "cd_threads (set_run_status P st db) = cd_threads db"
  "cd_runs (set_run_status P st db) = map (\<lambda>r. if P r then r\<lparr>ar_status := st\<rparr> else r) (cd_runs db)"
  "ax_rows (set_run_status P st db) = ax_rows db" "ax_calls (set_run_status P st db) = ax_calls db"
  "ax_lost (set_run_status P st db) = ax_lost db" "ax_mcp (set_run_status P st db) = ax_mcp db"
  by (simp_all add: set_run_status_def update_runs_def)

definition switched :: "(agent_run \<Rightarrow> bool) \<Rightarrow> string \<Rightarrow> agent_run list \<Rightarrow> agent_run list" where
  "switched P st rs = map (\<lambda>r. if P r then r\<lparr>ar_status := st\<rparr> else r) rs"

lemma invoke_approved_once: "length (snd (invoke_approved_tool M db user i name args)) \<le> 1"
  by (auto simp: invoke_approved_tool_def call_tool_def split: sum.splits prod.splits)

lemma approval_cases:
  assumes "db' = approval_step op db"
  obtains (same) "db' = db"
  | (conversation) c where "op = Conversation c" "db' = conversation_step c db"
  | (asked) M user run thread server tool args where "op = RequireApproval M user run thread server tool args"
      "ax_rows db' = ax_rows db \<or> ax_rows db' = ax_rows db @ [new_approval M db user run server tool args]"
      "cd_runs db' = switched (\<lambda>r. ar_id r = run \<and> ar_status r = ''running'') ''awaiting_approval'' (cd_runs db)"
      "cd_threads db' = cd_threads db" "ax_calls db' = ax_calls db" "ax_lost db' = ax_lost db"
  | (decided) M a r approve where "op = BeginDecision M (ta_user a) (ta_run a) (ta_id a) approve"
      "a \<in> set (ax_rows db)" "ta_status a = ''pending''"
      "r \<in> set (cd_runs db)" "ar_id r = ta_run a" "ar_user r = ta_user a" "ar_status r = ''awaiting_approval''"
      "ax_rows db' = set_row ta_id (decided_row (me_now M) approve a) (ax_rows db)"
      "cd_runs db' = switched (\<lambda>r. ar_id r = ta_run a \<and> ar_status r = ''awaiting_approval'')
         (if approve then ''executing_approval'' else ''running'') (cd_runs db)"
      "cd_threads db' = cd_threads db" "ax_calls db' = ax_calls db" "ax_lost db' = ax_lost db"
  | (called) M E dies run thread server tool args a cs where
      "op = Resolve M E dies (ta_user a) run thread server tool args True"
      "a \<in> set (ax_rows db)" "ta_status a = ''executing''" "ta_hash a = request_hash M run server tool args"
      "\<exists>r \<in> set (cd_runs db). ar_id r = run \<and> ar_user r = ta_user a \<and> executing_run r"
      "cs = snd (invoke_approved_tool M (ax_mcp db) (ta_user a) server tool args)"
      "ax_calls db' = ax_calls db @ map (\<lambda>c. (ta_id a, c)) cs" "length cs \<le> 1" "cd_threads db' = cd_threads db"
      "(ax_rows db' = ax_rows db \<and> cd_runs db' = cd_runs db \<and> ax_lost db' = ax_lost db @ [ta_id a])
       \<or> (\<exists>out. ax_rows db' = set_row ta_id (finished_row M (ax_mcp db) (ta_user a) server out a) (ax_rows db)
          \<and> cd_runs db' = switched (\<lambda>r. ar_id r = run \<and> ar_user r = ta_user a \<and> ar_status r = ''executing_approval'') ''running'' (cd_runs db)
          \<and> ax_lost db' = ax_lost db)"
  | (recovered) now where "op = Recover now" "ax_rows db' = map (recovered_row now) (ax_rows db)"
      "cd_runs db' = map (\<lambda>r. if stranded db r then r\<lparr>ar_status := ''failed'', ar_error := Some (lit ''mcp.execution_unknown''),
         ar_completed := Some now\<rparr> else r) (cd_runs db)"
      "cd_threads db' = cd_threads db" "ax_calls db' = ax_calls db" "ax_lost db' = ax_lost db"
proof (cases op)
  case (Conversation c)
  with assms conversation show ?thesis by simp
next
  case (RequireApproval M user run thread server tool args)
  show ?thesis
  proof (cases "owned_run_and_server db user run thread server")
    case None
    with RequireApproval assms same show ?thesis by (simp add: require_approval_def)
  next
    case (Some p)
    with RequireApproval assms show ?thesis
      by (intro asked [OF RequireApproval]) (auto simp: require_approval_def Let_def switched_def split: prod.splits option.splits)
  qed
next
  case (BeginDecision M user run i approve)
  show ?thesis
  proof (cases "owned_approval db user run i")
    case None
    with BeginDecision assms same show ?thesis by (simp add: begin_decision_def)
  next
    case (Some p)
    obtain a r where p: "p = (a, r)" by (cases p)
    from Some have a: "a \<in> set (ax_rows db)" "ta_id a = i" "ta_user a = user" "ta_run a = run"
      "r \<in> set (cd_runs db)" "ar_id r = run" "ar_user r = user"
      by (auto simp: owned_approval_def p split: option.splits dest!: find_Some_in)
    show ?thesis
    proof (cases "resumable db user r \<and> ta_status a = ''pending'' \<and> ar_status r = ''awaiting_approval''")
      case True
      with BeginDecision assms Some a show ?thesis
        by (intro decided [of M a approve r]) (auto simp: begin_decision_def p switched_def)
    next
      case False
      with BeginDecision assms Some same show ?thesis by (auto simp: begin_decision_def p split: if_splits)
    qed
  qed
next
  case (Resolve M E dies user run thread server tool args approve)
  show ?thesis
  proof (cases "approval_for_request M db user run thread server tool args")
    case None
    with Resolve assms same show ?thesis by (simp add: resolve_after_interrupt_def)
  next
    case (Some a)
    then have a: "a \<in> set (ax_rows db)" "ta_user a = user" "ta_hash a = request_hash M run server tool args"
      by (auto simp: approval_for_request_def dest!: find_Some_in)
    let ?go = "approve \<and> ta_status a = ''executing''
      \<and> list_ex (\<lambda>r. ar_id r = run \<and> ar_user r = user \<and> ar_status r = ''executing_approval'') (cd_runs db)"
    show ?thesis
    proof (cases ?go)
      case True
      then have db': "db' = snd (execute_approved M E dies user run server tool args a db)"
        using Resolve assms Some by (simp add: resolve_after_interrupt_def)
      obtain out cs where inv: "invoke_approved_tool M (ax_mcp db) user server tool args = (out, cs)" by fastforce
      have cs: "cs = snd (invoke_approved_tool M (ax_mcp db) (ta_user a) server tool args)" "length cs \<le> 1"
        using inv invoke_approved_once [of M "ax_mcp db" user server tool args] a(2) by simp_all
      show ?thesis
      proof (rule called [of M E dies a run thread server tool args cs])
        show "op = Resolve M E dies (ta_user a) run thread server tool args True" using Resolve True a(2) by simp
        show "ax_calls db' = ax_calls db @ map (\<lambda>c. (ta_id a, c)) cs" "cd_threads db' = cd_threads db"
          using db' by (simp_all add: execute_approved_def Let_def inv release_execution_def split: sum.split mcp_raised.split)
        show "(ax_rows db' = ax_rows db \<and> cd_runs db' = cd_runs db \<and> ax_lost db' = ax_lost db @ [ta_id a])
       \<or> (\<exists>out. ax_rows db' = set_row ta_id (finished_row M (ax_mcp db) (ta_user a) server out a) (ax_rows db)
          \<and> cd_runs db' = switched (\<lambda>r. ar_id r = run \<and> ar_user r = ta_user a \<and> ar_status r = ''executing_approval'') ''running'' (cd_runs db)
          \<and> ax_lost db' = ax_lost db)"
          using db' a(2) by (auto simp: execute_approved_def Let_def inv release_execution_def switched_def split: sum.split mcp_raised.split)
      qed (use a True cs in \<open>auto simp: list_ex_iff executing_run_def\<close>)
    next
      case False
      with Resolve assms Some same show ?thesis by (auto simp: resolve_after_interrupt_def split: if_splits)
    qed
  qed
next
  case (Recover now)
  with assms recovered show ?thesis
    by (simp add: recover_stranded_tool_approvals_def update_runs_def)
qed

subsection \<open>The invariant of the runs\<close>

definition one_active :: "agent_run list \<Rightarrow> bool" where
  "one_active rs \<longleftrightarrow> (\<forall>r \<in> set rs. \<forall>r' \<in> set rs. active_run r \<longrightarrow> active_run r' \<longrightarrow> ar_thread r = ar_thread r' \<longrightarrow> ar_id r = ar_id r')"

definition idle_archives :: "conversation_thread list \<Rightarrow> agent_run list \<Rightarrow> bool" where
  "idle_archives ts rs \<longleftrightarrow> (\<forall>t \<in> set ts. ct_status t \<noteq> ''active'' \<longrightarrow> (\<forall>r \<in> set rs. active_run r \<longrightarrow> ar_thread r \<noteq> ct_id t))"

definition runs_sound :: "approval_db \<Rightarrow> bool" where
  "runs_sound db \<longleftrightarrow> distinct (map ct_id (cd_threads db)) \<and> distinct (map ar_id (cd_runs db))
     \<and> one_active (cd_runs db) \<and> idle_archives (cd_threads db) (cd_runs db)"

text \<open>No run gets active, none appears and none goes.\<close>

definition runs_follow :: "agent_run list \<Rightarrow> agent_run list \<Rightarrow> bool" where
  "runs_follow rs rs' \<longleftrightarrow> list_all2 same_run rs rs'"

lemma runs_followD:
  assumes "runs_follow rs rs'"
  shows "map ar_id rs' = map ar_id rs" and "r' \<in> set rs' \<Longrightarrow> \<exists>r \<in> set rs. same_run r r'"
proof -
  show "map ar_id rs' = map ar_id rs"
    using assms unfolding runs_follow_def by (induction rule: list_all2_induct) (auto simp: same_run_def)
  show "r' \<in> set rs' \<Longrightarrow> \<exists>r \<in> set rs. same_run r r'"
    using assms unfolding runs_follow_def by (metis in_set_conv_nth list_all2_conv_all_nth)
qed

lemma runs_follow_refl [simp]: "runs_follow rs rs"
  by (simp add: runs_follow_def list_all2_conv_all_nth)

lemma runs_follow_update:
  "(\<And>r. P r \<Longrightarrow> same_run r (f r)) \<Longrightarrow> runs_follow rs (map (\<lambda>r. if P r then f r else r) rs)"
  unfolding runs_follow_def by (rule list_all2_updated) simp_all

lemma quiet_follows: "list_all2 quiet rs rs' \<Longrightarrow> runs_follow rs rs'"
  unfolding runs_follow_def by (erule list_all2_mono) (simp add: quiet_def)

lemma switched_follows:
  "(\<And>r. P r \<Longrightarrow> active_run r) \<Longrightarrow> runs_follow rs (switched P st rs)"
  unfolding switched_def by (rule runs_follow_update) (simp add: same_run_def)

lemma runs_sound_follow:
  assumes "runs_sound db" "runs_follow (cd_runs db) (cd_runs db')" "cd_threads db' = cd_threads db"
  shows "runs_sound db'"
proof -
  note f = runs_followD [OF assms(2)]
  have "one_active (cd_runs db')"
    unfolding one_active_def
  proof (intro ballI impI)
    fix r' q' assume r': "r' \<in> set (cd_runs db')" "active_run r'" and q': "q' \<in> set (cd_runs db')" "active_run q'"
      and t: "ar_thread r' = ar_thread q'"
    from f(2) r'(1) obtain r where r: "r \<in> set (cd_runs db)" "same_run r r'" by blast
    from f(2) q'(1) obtain q where q: "q \<in> set (cd_runs db)" "same_run q q'" by blast
    from assms(1) have "one_active (cd_runs db)" by (simp add: runs_sound_def)
    moreover from r(2) q(2) r'(2) q'(2) t have "active_run r" "active_run q" "ar_thread r = ar_thread q"
      by (simp_all add: same_run_def)
    ultimately have "ar_id r = ar_id q" using r(1) q(1) unfolding one_active_def by blast
    with r(2) q(2) show "ar_id r' = ar_id q'" by (simp add: same_run_def)
  qed
  moreover have "idle_archives (cd_threads db') (cd_runs db')"
    unfolding idle_archives_def
  proof (intro ballI impI)
    fix t r' assume t: "t \<in> set (cd_threads db')" "ct_status t \<noteq> ''active''" and r': "r' \<in> set (cd_runs db')" "active_run r'"
    from f(2) r'(1) obtain r where r: "r \<in> set (cd_runs db)" "same_run r r'" by blast
    with r' t assms(1,3) show "ar_thread r' \<noteq> ct_id t" by (auto simp: runs_sound_def idle_archives_def same_run_def)
  qed
  ultimately show ?thesis using assms(1,3) f(1) by (simp add: runs_sound_def)
qed

lemma runs_sound_conversation:
  assumes "runs_sound db" "op_possible digest db (Conversation c)"
  shows "runs_sound (conversation_step c db)"
  using refl [of "conversation_step c db"]
proof (cases rule: conversation_cases)
  case quiet
  then show ?thesis using runs_sound_follow [OF assms(1)] quiet_follows by blast
next
  case (thread P user goal title legacy)
  with assms show ?thesis by (auto simp: runs_sound_def idle_archives_def)
next
  case (archive P t)
  let ?t = "t\<lparr>ct_status := ''archived'', ct_updated := cp_now P, ct_archived := Some (cp_now P)\<rparr>"
  have "idle_archives (set_row ct_id ?t (cd_threads db)) (cd_runs db)"
    using archive(4) assms(1) set_row_subset [of ct_id ?t "cd_threads db"]
    by (auto simp: idle_archives_def runs_sound_def thread_busy_def list_ex_iff)
  with archive assms(1) show ?thesis by (simp add: runs_sound_def)
next
  case (start P q t)
  have free: "active_run r \<Longrightarrow> r \<in> set (cd_runs db) \<Longrightarrow> ar_thread r \<noteq> rq_thread q" for r
    using start(5) by (auto simp: thread_busy_def list_ex_iff)
  have fresh: "r = new_run P q" if "r \<in> set (cd_runs db @ [new_run P q])" "active_run r" "ar_thread r = rq_thread q" for r
  proof (rule ccontr)
    assume "r \<noteq> new_run P q"
    with that(1) have "r \<in> set (cd_runs db)" by simp
    with free that(2,3) show False by blast
  qed
  have "one_active (cd_runs db @ [new_run P q])"
    unfolding one_active_def
  proof (intro ballI impI)
    fix r r' assume r: "r \<in> set (cd_runs db @ [new_run P q])" "active_run r"
      and r': "r' \<in> set (cd_runs db @ [new_run P q])" "active_run r'" and t: "ar_thread r = ar_thread r'"
    have n: "ar_thread (new_run P q) = rq_thread q" by (simp add: new_run_def)
    from assms(1) have a: "one_active (cd_runs db)" by (simp add: runs_sound_def)
    show "ar_id r = ar_id r'"
    proof (cases "r = new_run P q \<or> r' = new_run P q")
      case True
      with t n have "ar_thread r = rq_thread q" "ar_thread r' = rq_thread q" by metis+
      then have "r = new_run P q" "r' = new_run P q" using fresh [OF r] fresh [OF r'] by simp_all
      then show ?thesis by simp
    next
      case False
      then have "r \<in> set (cd_runs db)" "r' \<in> set (cd_runs db)" using r(1) r'(1) by simp_all
      then show ?thesis using r(2) r'(2) t a unfolding one_active_def by blast
    qed
  qed
  moreover have "idle_archives (cd_threads db) (cd_runs db @ [new_run P q])"
    unfolding idle_archives_def
  proof (intro ballI impI)
    fix t' r assume t': "t' \<in> set (cd_threads db)" "ct_status t' \<noteq> ''active''"
      and r: "r \<in> set (cd_runs db @ [new_run P q])" "active_run r"
    have "inj_on ct_id (set (cd_threads db))" using assms(1) by (simp add: runs_sound_def distinct_map)
    then have "ct_id t' \<noteq> rq_thread q" using t' start(6,7,8) by (metis inj_onD)
    with r t' assms(1) show "ar_thread r \<noteq> ct_id t'" by (auto simp: runs_sound_def idle_archives_def new_run_def)
  qed
  ultimately show ?thesis using assms start by (auto simp: runs_sound_def new_run_def)
qed

lemma runs_sound_step:
  assumes "runs_sound db" "op_possible digest db op" shows "runs_sound (approval_step op db)"
  using refl [of "approval_step op db"]
proof (cases rule: approval_cases)
  case same
  with assms show ?thesis by simp
next
  case (conversation c)
  with assms runs_sound_conversation show ?thesis by simp
next
  case (asked M user run thread server tool args)
  have "runs_follow (cd_runs db) (cd_runs (approval_step op db))"
    unfolding asked(3) by (rule switched_follows) (simp add: active_run_def active_statuses_def)
  with asked(4) assms(1) runs_sound_follow show ?thesis by blast
next
  case (decided M a r approve)
  have "runs_follow (cd_runs db) (cd_runs (approval_step op db))"
    unfolding decided(9) by (rule switched_follows) (simp add: active_run_def active_statuses_def)
  with decided(10) assms(1) runs_sound_follow show ?thesis by blast
next
  case (called M E dies run thread server tool args a cs)
  have "runs_follow rs (switched (\<lambda>r. ar_id r = run \<and> ar_user r = ta_user a \<and> ar_status r = ''executing_approval'') ''running'' rs)" for rs
    by (rule switched_follows) (simp add: active_run_def active_statuses_def)
  then have "runs_follow (cd_runs db) (cd_runs (approval_step op db))" using called(10) by auto
  with called(9) assms(1) runs_sound_follow show ?thesis by blast
next
  case (recovered now)
  then have "runs_follow (cd_runs db) (cd_runs (approval_step op db))"
    by (auto intro!: runs_follow_update simp: same_run_def active_run_def active_statuses_def)
  with recovered(4) assms(1) runs_sound_follow show ?thesis by blast
qed


subsection \<open>The invariant of the approvals\<close>

definition executing :: "tool_approval \<Rightarrow> bool" where
  "executing a \<longleftrightarrow> ta_status a = ''executing''"

definition executing_covered :: "tool_approval list \<Rightarrow> agent_run list \<Rightarrow> bool" where
  "executing_covered rows rs \<longleftrightarrow> (\<forall>a \<in> set rows. executing a \<longrightarrow> (\<exists>r \<in> set rs. ar_id r = ta_run a \<and> executing_run r))"

definition one_executing :: "tool_approval list \<Rightarrow> bool" where
  "one_executing rows \<longleftrightarrow>
     (\<forall>a \<in> set rows. \<forall>a' \<in> set rows. executing a \<longrightarrow> executing a' \<longrightarrow> ta_run a = ta_run a' \<longrightarrow> ta_id a = ta_id a')"

definition hashed :: "(metadata \<Rightarrow> ustr) \<Rightarrow> tool_approval list \<Rightarrow> bool" where
  "hashed digest rows \<longleftrightarrow> (\<forall>a \<in> set rows. \<exists>args. ta_hash a = hash_with digest (ta_run a) (ta_server a) (ta_tool a) args)"

definition answered :: "tool_approval list \<Rightarrow> ustr \<Rightarrow> bool" where
  "answered rows i \<longleftrightarrow> (\<exists>a \<in> set rows. ta_id a = i \<and> ta_status a \<in> {''completed'', ''failed''})"

text \<open>The calls of an approval: those that never came back, and one more if there is an outcome.\<close>

definition calls_counted :: "tool_approval list \<Rightarrow> (ustr \<times> mcp_call) list \<Rightarrow> ustr list \<Rightarrow> bool" where
  "calls_counted rows calls lost \<longleftrightarrow>
     (\<forall>i. count_list (map fst calls) i \<le> count_list lost i + (if answered rows i then 1 else 0))"

definition approvals_sound :: "(metadata \<Rightarrow> ustr) \<Rightarrow> approval_db \<Rightarrow> bool" where
  "approvals_sound digest db \<longleftrightarrow> distinct (map ta_id (ax_rows db)) \<and> executing_covered (ax_rows db) (cd_runs db)
     \<and> one_executing (ax_rows db) \<and> hashed digest (ax_rows db) \<and> calls_counted (ax_rows db) (ax_calls db) (ax_lost db)"

lemma approvals_soundD:
  assumes "approvals_sound digest db"
  shows "distinct (map ta_id (ax_rows db))" "executing_covered (ax_rows db) (cd_runs db)" "one_executing (ax_rows db)"
    "hashed digest (ax_rows db)" "calls_counted (ax_rows db) (ax_calls db) (ax_lost db)"
  using assms by (simp_all add: approvals_sound_def)

lemma set_row_cases: "x \<in> set (set_row key y xs) \<Longrightarrow> x = y \<or> (x \<in> set xs \<and> key x \<noteq> key y)"
  by (auto simp: set_row_def)

lemma same_key_row:
  "distinct (map key xs) \<Longrightarrow> x \<in> set xs \<Longrightarrow> y \<in> set xs \<Longrightarrow> key x = key y \<Longrightarrow> x = y"
  unfolding distinct_map by (blast dest: inj_onD)

lemma executing_coveredD:
  "executing_covered rows rs \<Longrightarrow> a \<in> set rows \<Longrightarrow> executing a \<Longrightarrow> \<exists>r \<in> set rs. ar_id r = ta_run a \<and> executing_run r"
  by (simp add: executing_covered_def)

lemma executing_covered_mono:
  "executing_covered rows rs \<Longrightarrow> (\<And>r. r \<in> set rs \<Longrightarrow> executing_run r \<Longrightarrow> r \<in> set rs') \<Longrightarrow> executing_covered rows rs'"
  unfolding executing_covered_def by blast

lemma switched_other: "r \<in> set rs \<Longrightarrow> \<not> P r \<Longrightarrow> r \<in> set (switched P st rs)"
  by (auto simp: switched_def image_iff)

lemma switched_this: "r \<in> set rs \<Longrightarrow> P r \<Longrightarrow> r\<lparr>ar_status := st\<rparr> \<in> set (switched P st rs)"
  by (auto simp: switched_def image_iff)

text \<open>Nothing asked of a conversation moves a run that executes an approval.\<close>

lemma conversation_keeps_executing:
  assumes "r \<in> set (cd_runs db)" "executing_run r"
  shows "r \<in> set (cd_runs (conversation_step c db))" and "same_approvals db (conversation_step c db)"
proof -
  have "r \<in> set (cd_runs (conversation_step c db)) \<and> same_approvals db (conversation_step c db)"
    using refl [of "conversation_step c db"]
  proof (cases rule: conversation_cases)
    case quiet
    from assms(1) obtain k where k: "k < length (cd_runs db)" "r = cd_runs db ! k" by (auto simp: in_set_conv_nth)
    with quiet(3) have "quiet r (cd_runs (conversation_step c db) ! k)" "k < length (cd_runs (conversation_step c db))"
      by (auto simp: list_all2_conv_all_nth)
    with assms(2) have "cd_runs (conversation_step c db) ! k = r" by (simp add: quiet_def)
    with \<open>k < length (cd_runs (conversation_step c db))\<close> quiet(1) show ?thesis by (metis nth_mem)
  qed (use assms(1) in simp_all)
  then show "r \<in> set (cd_runs (conversation_step c db))" "same_approvals db (conversation_step c db)" by simp_all
qed

lemma conversation_same_approvals: "same_approvals db (conversation_step c db)"
  using refl [of "conversation_step c db"] by (cases rule: conversation_cases)

lemma answered_set_row:
  assumes "distinct (map ta_id rows)" "a \<in> set rows" "ta_id a' = ta_id a"
    "ta_status a \<notin> {''completed'', ''failed''}"
  shows "answered (set_row ta_id a' rows) i \<longleftrightarrow> answered rows i \<or> (i = ta_id a \<and> ta_status a' \<in> {''completed'', ''failed''})"
proof -
  have rows: "set (set_row ta_id a' rows) = insert a' (set rows - {a})"
    using assms(1-3) by (intro set_set_row) simp_all
  have "\<not> answered rows (ta_id a)"
    unfolding answered_def using same_key_row [OF assms(1) assms(2)] assms(4) by metis
  then show ?thesis using assms(3,4) unfolding answered_def rows by auto
qed


lemma decided_row_fields [simp]:
  "ta_id (decided_row now approve a) = ta_id a" "ta_run (decided_row now approve a) = ta_run a"
  "ta_user (decided_row now approve a) = ta_user a" "ta_server (decided_row now approve a) = ta_server a"
  "ta_tool (decided_row now approve a) = ta_tool a" "ta_hash (decided_row now approve a) = ta_hash a"
  "ta_status (decided_row now approve a) = (if approve then ''executing'' else ''rejected'')"
  by (simp_all add: decided_row_def)

lemma finished_row_fields [simp]:
  "ta_id (finished_row M db user server out a) = ta_id a" "ta_run (finished_row M db user server out a) = ta_run a"
  "ta_user (finished_row M db user server out a) = ta_user a" "ta_server (finished_row M db user server out a) = ta_server a"
  "ta_tool (finished_row M db user server out a) = ta_tool a" "ta_hash (finished_row M db user server out a) = ta_hash a"
  "ta_status (finished_row M db user server out a) = (case out of Inl _ \<Rightarrow> ''failed'' | Inr _ \<Rightarrow> ''completed'')"
  by (simp_all add: finished_row_def split: sum.split)

lemma recovered_row_fields [simp]:
  "ta_id (recovered_row now a) = ta_id a" "ta_run (recovered_row now a) = ta_run a"
  "ta_user (recovered_row now a) = ta_user a" "ta_server (recovered_row now a) = ta_server a"
  "ta_tool (recovered_row now a) = ta_tool a" "ta_hash (recovered_row now a) = ta_hash a"
  "ta_status (recovered_row now a) = (if ta_status a = ''executing'' then ''unknown'' else ta_status a)"
  by (simp_all add: recovered_row_def)

lemma appended_idle:
  assumes "\<not> executing n"
  shows "executing_covered (rows @ [n]) rs \<longleftrightarrow> executing_covered rows rs" "one_executing (rows @ [n]) \<longleftrightarrow> one_executing rows"
  using assms by (simp_all add: executing_covered_def one_executing_def)

lemma approvals_sound_asked:
  assumes "approvals_sound digest db" "me_digest M = digest" "lit ''approval-'' @ me_uuid M 0 \<notin> ta_id ` set (ax_rows db)"
    "ax_rows db' = ax_rows db \<or> ax_rows db' = ax_rows db @ [new_approval M db user run server tool args]"
    "cd_runs db' = switched (\<lambda>r. ar_id r = run \<and> ar_status r = ''running'') ''awaiting_approval'' (cd_runs db)"
    "ax_calls db' = ax_calls db" "ax_lost db' = ax_lost db"
  shows "approvals_sound digest db'"
proof -
  note s = approvals_soundD [OF assms(1)]
  let ?n = "new_approval M db user run server tool args"
  have n: "\<not> executing ?n" "ta_id ?n = lit ''approval-'' @ me_uuid M 0" "ta_status ?n = ''pending''"
    "ta_hash ?n = hash_with digest (ta_run ?n) (ta_server ?n) (ta_tool ?n) args"
    using assms(2) by (simp_all add: new_approval_def executing_def request_hash_with)
  have covered: "executing_covered (ax_rows db) (cd_runs db')"
    by (rule executing_covered_mono [OF s(2)]) (use assms(5) in \<open>auto intro!: switched_other simp: executing_run_def\<close>)
  from assms(4) show ?thesis
  proof
    assume "ax_rows db' = ax_rows db"
    with s covered assms(6,7) show ?thesis by (simp add: approvals_sound_def)
  next
    assume rows: "ax_rows db' = ax_rows db @ [?n]"
    have "executing_covered (ax_rows db') (cd_runs db')" "one_executing (ax_rows db')"
      using covered s(3) n(1) unfolding rows by (simp_all add: appended_idle)
    moreover have "hashed digest (ax_rows db')"
      using s(4) n(4) by (auto simp: rows hashed_def)
    moreover have "answered (ax_rows db') = answered (ax_rows db)"
      by (rule ext) (auto simp: answered_def rows n(3))
    ultimately show ?thesis using s(1,5) assms(3,6,7) n(2) by (simp add: approvals_sound_def calls_counted_def rows)
  qed
qed

lemma hashed_set_row:
  assumes "hashed digest rows" "a \<in> set rows" "ta_run a' = ta_run a" "ta_server a' = ta_server a" "ta_tool a' = ta_tool a" "ta_hash a' = ta_hash a"
  shows "hashed digest (set_row ta_id a' rows)"
  unfolding hashed_def
proof
  fix x assume "x \<in> set (set_row ta_id a' rows)"
  then have "x = a' \<or> x \<in> set rows" using set_row_cases by metis
  then show "\<exists>args. ta_hash x = hash_with digest (ta_run x) (ta_server x) (ta_tool x) args"
    using assms unfolding hashed_def by metis
qed

lemma approvals_sound_decided:
  assumes "approvals_sound digest db" "runs_sound db" "a \<in> set (ax_rows db)" "ta_status a = ''pending''"
    and r: "r \<in> set (cd_runs db)" "ar_id r = ta_run a" "ar_status r = ''awaiting_approval''"
    and rows: "ax_rows db' = set_row ta_id (decided_row now approve a) (ax_rows db)"
    and runs: "cd_runs db' = switched (\<lambda>r. ar_id r = ta_run a \<and> ar_status r = ''awaiting_approval'')
         (if approve then ''executing_approval'' else ''running'') (cd_runs db)"
    and "ax_calls db' = ax_calls db" "ax_lost db' = ax_lost db"
  shows "approvals_sound digest db'"
proof -
  note s = approvals_soundD [OF assms(1)]
  let ?a = "decided_row now approve a"
  have other: "x \<in> set (ax_rows db)" if "x \<in> set (ax_rows db')" "x \<noteq> ?a" for x
    using set_row_cases [of x ta_id ?a "ax_rows db"] that rows by auto
  have elsewhere: "ta_run x \<noteq> ta_run a" if x: "x \<in> set (ax_rows db)" "executing x" for x
  proof
    assume "ta_run x = ta_run a"
    with executing_coveredD [OF s(2) x] r obtain q where q: "q \<in> set (cd_runs db)" "ar_id q = ar_id r" "executing_run q" by auto
    have "distinct (map ar_id (cd_runs db))" using assms(2) by (simp add: runs_sound_def)
    from same_key_row [OF this q(1) r(1) q(2)] q(3) r(3) show False by (simp add: executing_run_def)
  qed
  have still: "q \<in> set (cd_runs db')" if "q \<in> set (cd_runs db)" "executing_run q" for q
    unfolding runs using that by (intro switched_other) (auto simp: executing_run_def)
  have "executing_covered (ax_rows db') (cd_runs db')"
    unfolding executing_covered_def
  proof (intro ballI impI)
    fix x assume x: "x \<in> set (ax_rows db')" "executing x"
    show "\<exists>q \<in> set (cd_runs db'). ar_id q = ta_run x \<and> executing_run q"
    proof (cases "x = ?a")
      case True
      with x(2) have approve by (simp add: executing_def split: if_splits)
      have "r\<lparr>ar_status := ''executing_approval''\<rparr> \<in> set (cd_runs db')"
        using switched_this [OF r(1), of "\<lambda>r. ar_id r = ta_run a \<and> ar_status r = ''awaiting_approval''"] r(2,3) \<open>approve\<close>
        by (simp add: runs)
      then show ?thesis using True r(2) by (intro bexI) (simp_all add: executing_run_def)
    next
      case False
      with executing_coveredD [OF s(2) other [OF x(1)] x(2)] still show ?thesis by blast
    qed
  qed
  moreover have "one_executing (ax_rows db')"
    unfolding one_executing_def
  proof (intro ballI impI)
    fix x y assume x: "x \<in> set (ax_rows db')" "executing x" and y: "y \<in> set (ax_rows db')" "executing y" and e: "ta_run x = ta_run y"
    show "ta_id x = ta_id y"
    proof (cases "x = ?a \<or> y = ?a")
      case True
      then have "x = ?a \<and> y = ?a" using elsewhere other x y e by (metis decided_row_fields(2))
      then show ?thesis by simp
    next
      case False
      then show ?thesis using other x y e s(3) unfolding one_executing_def by blast
    qed
  qed
  moreover have "hashed digest (ax_rows db')"
    unfolding rows by (rule hashed_set_row [OF s(4) assms(3)]) simp_all
  moreover have "answered (ax_rows db') = answered (ax_rows db)"
    by (rule ext) (simp add: rows answered_set_row [OF s(1) assms(3)] assms(4))
  ultimately show ?thesis
    using s(1,5) assms(10,11) by (simp add: approvals_sound_def calls_counted_def rows)
qed


lemma approvals_sound_called:
  assumes "approvals_sound digest db" "separating_requests digest" "me_digest M = digest"
    and a: "a \<in> set (ax_rows db)" "ta_status a = ''executing''" "ta_hash a = request_hash M run server tool args"
    and calls: "ax_calls db' = ax_calls db @ map (\<lambda>c. (ta_id a, c)) cs" "length cs \<le> 1"
    and ends: "(ax_rows db' = ax_rows db \<and> cd_runs db' = cd_runs db \<and> ax_lost db' = ax_lost db @ [ta_id a])
       \<or> (\<exists>out. ax_rows db' = set_row ta_id (finished_row M (ax_mcp db) (ta_user a) server out a) (ax_rows db)
          \<and> cd_runs db' = switched (\<lambda>r. ar_id r = run \<and> ar_user r = ta_user a \<and> ar_status r = ''executing_approval'') ''running'' (cd_runs db)
          \<and> ax_lost db' = ax_lost db)"
  shows "approvals_sound digest db'"
proof -
  note s = approvals_soundD [OF assms(1)]
  have made: "count_list (map fst (ax_calls db')) i \<le> count_list (map fst (ax_calls db)) i + (if i = ta_id a then 1 else 0)" for i
    using calls(2) by (cases cs) (auto simp: calls(1))
  have counted: "count_list (map fst (ax_calls db)) i \<le> count_list (ax_lost db) i + (if answered (ax_rows db) i then 1 else 0)" for i
    using s(5) by (simp add: calls_counted_def)
  have open_a: "\<not> answered (ax_rows db) (ta_id a)"
    using same_key_row [OF s(1) _ a(1)] a(2) unfolding answered_def by force
  from ends show ?thesis
  proof
    assume e: "ax_rows db' = ax_rows db \<and> cd_runs db' = cd_runs db \<and> ax_lost db' = ax_lost db @ [ta_id a]"
    have "calls_counted (ax_rows db') (ax_calls db') (ax_lost db')"
      unfolding calls_counted_def using made counted e by (fastforce intro: le_trans)
    with s e show ?thesis by (simp add: approvals_sound_def)
  next
    assume "\<exists>out. ax_rows db' = set_row ta_id (finished_row M (ax_mcp db) (ta_user a) server out a) (ax_rows db)
          \<and> cd_runs db' = switched (\<lambda>r. ar_id r = run \<and> ar_user r = ta_user a \<and> ar_status r = ''executing_approval'') ''running'' (cd_runs db)
          \<and> ax_lost db' = ax_lost db"
    then obtain out where rows: "ax_rows db' = set_row ta_id (finished_row M (ax_mcp db) (ta_user a) server out a) (ax_rows db)"
      and runs: "cd_runs db' = switched (\<lambda>r. ar_id r = run \<and> ar_user r = ta_user a \<and> ar_status r = ''executing_approval'') ''running'' (cd_runs db)"
      and lost: "ax_lost db' = ax_lost db" by blast
    let ?a = "finished_row M (ax_mcp db) (ta_user a) server out a"
    obtain args' where "hash_with digest (ta_run a) (ta_server a) (ta_tool a) args' = hash_with digest run server tool args"
      using s(4) a(1,3) assms(3) unfolding hashed_def request_hash_with by metis
    then have run: "ta_run a = run" using assms(2) unfolding separating_requests_def by blast
    have idle: "\<not> executing ?a" by (simp add: executing_def split: sum.split)
    have other: "x \<in> set (ax_rows db) \<and> ta_id x \<noteq> ta_id a" if "x \<in> set (ax_rows db')" "executing x" for x
      using set_row_cases [of x ta_id ?a "ax_rows db"] that rows idle by auto
    have "executing a" using a(2) by (simp add: executing_def)
    then have elsewhere: "ta_run x \<noteq> run" if "x \<in> set (ax_rows db')" "executing x" for x
      using other [OF that] that(2) s(3) a(1) run unfolding one_executing_def by metis
    have "executing_covered (ax_rows db') (cd_runs db')"
      unfolding executing_covered_def
    proof (intro ballI impI)
      fix x assume x: "x \<in> set (ax_rows db')" "executing x"
      from executing_coveredD [OF s(2)] other [OF x] x(2) obtain q where
        q: "q \<in> set (cd_runs db)" "ar_id q = ta_run x" "executing_run q" by blast
      then have "q \<in> set (cd_runs db')"
        unfolding runs using elsewhere [OF x] by (intro switched_other) auto
      with q(2,3) show "\<exists>q \<in> set (cd_runs db'). ar_id q = ta_run x \<and> executing_run q" by blast
    qed
    moreover have "one_executing (ax_rows db')"
      unfolding one_executing_def
    proof (intro ballI impI)
      fix x y assume x: "x \<in> set (ax_rows db')" "executing x" and y: "y \<in> set (ax_rows db')" "executing y" and e: "ta_run x = ta_run y"
      with other [OF x] other [OF y] s(3) show "ta_id x = ta_id y" unfolding one_executing_def by blast
    qed
    moreover have "hashed digest (ax_rows db')"
      unfolding rows by (rule hashed_set_row [OF s(4) a(1)]) simp_all
    moreover have "answered (ax_rows db') i \<longleftrightarrow> answered (ax_rows db) i \<or> i = ta_id a" for i
      using answered_set_row [OF s(1) a(1), of ?a i] a(2) by (simp add: rows split: sum.split)
    then have "calls_counted (ax_rows db') (ax_calls db') (ax_lost db')"
      unfolding calls_counted_def lost using made counted open_a by (fastforce intro: le_trans)
    ultimately show ?thesis using s(1) by (simp add: approvals_sound_def rows)
  qed
qed

lemma approvals_sound_recovered:
  assumes "approvals_sound digest db" "ax_rows db' = map (recovered_row now) (ax_rows db)"
    "ax_calls db' = ax_calls db" "ax_lost db' = ax_lost db"
  shows "approvals_sound digest db'"
proof -
  note s = approvals_soundD [OF assms(1)]
  have idle: "\<not> executing (recovered_row now a)" for a by (simp add: executing_def)
  have "executing_covered (ax_rows db') (cd_runs db')" "one_executing (ax_rows db')"
    using idle by (auto simp: executing_covered_def one_executing_def assms(2))
  moreover have "map ta_id (ax_rows db') = map ta_id (ax_rows db)" by (simp add: assms(2))
  moreover have "hashed digest (ax_rows db')" using s(4) by (simp add: hashed_def assms(2))
  moreover have "ta_status (recovered_row now a) \<in> {''completed'', ''failed''} \<longleftrightarrow> ta_status a \<in> {''completed'', ''failed''}" for a
    by auto
  then have "answered (ax_rows db') = answered (ax_rows db)"
    by (intro ext) (simp add: answered_def assms(2) del: recovered_row_fields(7))
  ultimately show ?thesis using s(1,5) assms(3,4) by (simp add: approvals_sound_def calls_counted_def)
qed

lemma approvals_sound_step:
  assumes "approvals_sound digest db" "runs_sound db" "separating_requests digest" "op_possible digest db op"
  shows "approvals_sound digest (approval_step op db)"
  using refl [of "approval_step op db"]
proof (cases rule: approval_cases)
  case same
  with assms(1) show ?thesis by simp
next
  case (conversation c)
  note s = approvals_soundD [OF assms(1)]
  have "executing_covered (ax_rows db) (cd_runs (conversation_step c db))"
    by (rule executing_covered_mono [OF s(2)]) (rule conversation_keeps_executing(1))
  with s conversation_same_approvals [of db c] show ?thesis
    by (simp add: conversation(2) approvals_sound_def same_approvals_def)
next
  case (asked M user run thread server tool args)
  with assms(4) show ?thesis by (intro approvals_sound_asked [OF assms(1) _ _ asked(2,3,5,6)]) simp_all
next
  case (decided M a r approve)
  show ?thesis by (rule approvals_sound_decided [OF assms(1,2) decided(2,3,4,5,7,8,9,11,12)])
next
  case (called M E dies run thread server tool args a cs)
  from assms(4) have "me_digest M = digest" by (simp add: called(1))
  then show ?thesis by (rule approvals_sound_called [OF assms(1,3) _ called(2,3,4,7,8,10)])
next
  case (recovered now)
  show ?thesis by (rule approvals_sound_recovered [OF assms(1) recovered(2,5,6)])
qed


subsection \<open>Runs of requests\<close>

text \<open>Calls are made for approvals a user has granted.\<close>

definition granted :: "tool_approval list \<Rightarrow> ustr \<Rightarrow> bool" where
  "granted rows i \<longleftrightarrow> (\<exists>a \<in> set rows. ta_id a = i \<and> ta_status a \<notin> {''pending'', ''rejected''} \<and> ta_decided a \<noteq> None)"

definition calls_granted :: "approval_db \<Rightarrow> bool" where
  "calls_granted db \<longleftrightarrow> (\<forall>a \<in> set (ax_rows db). executing a \<longrightarrow> ta_decided a \<noteq> None)
     \<and> (\<forall>i \<in> fst ` set (ax_calls db). granted (ax_rows db) i)"

lemma granted_set_row:
  assumes "distinct (map ta_id rows)" "a \<in> set rows" "ta_id a' = ta_id a" "granted rows i"
    "granted rows (ta_id a) \<Longrightarrow> ta_status a' \<notin> {''pending'', ''rejected''} \<and> ta_decided a' \<noteq> None"
  shows "granted (set_row ta_id a' rows) i"
proof -
  have rows: "set (set_row ta_id a' rows) = insert a' (set rows - {a})"
    using assms(1-3) by (intro set_set_row) simp_all
  from assms(4) obtain x where x: "x \<in> set rows" "ta_id x = i" "ta_status x \<notin> {''pending'', ''rejected''}" "ta_decided x \<noteq> None"
    by (auto simp: granted_def)
  show ?thesis
  proof (cases "x = a")
    case True
    with x assms(4) have "granted rows (ta_id a)" by simp
    with assms(5) True x(2) assms(3) show ?thesis unfolding granted_def rows by (intro bexI [of _ a']) simp_all
  next
    case False
    with x show ?thesis unfolding granted_def rows by (intro bexI [of _ x]) simp_all
  qed
qed

lemma calls_granted_step:
  assumes "calls_granted db" "distinct (map ta_id (ax_rows db))"
  shows "calls_granted (approval_step op db)"
  using refl [of "approval_step op db"]
proof (cases rule: approval_cases)
  case same
  with assms(1) show ?thesis by simp
next
  case (conversation c)
  with assms(1) conversation_same_approvals [of db c] show ?thesis by (simp add: calls_granted_def same_approvals_def)
next
  case (asked M user run thread server tool args)
  have "granted (ax_rows db) i \<Longrightarrow> granted (ax_rows (approval_step op db)) i" for i
    using asked(2) by (auto simp: granted_def)
  moreover have "\<not> executing (new_approval M db user run server tool args)" by (simp add: new_approval_def executing_def)
  ultimately show ?thesis using assms(1) asked(2,5) by (auto simp: calls_granted_def)
next
  case (decided M a r approve)
  have no: "\<not> granted (ax_rows db) (ta_id a)"
    using same_key_row [OF assms(2) _ decided(2)] decided(3) by (auto simp: granted_def)
  have "granted (ax_rows db) i \<Longrightarrow> granted (ax_rows (approval_step op db)) i" for i
    unfolding decided(8) using no by (intro granted_set_row [OF assms(2) decided(2)]) simp_all
  moreover have "ta_decided x \<noteq> None" if "x \<in> set (ax_rows (approval_step op db))" "executing x" for x
    using set_row_cases [OF that(1) [unfolded decided(8)]] that(2) assms(1)
    by (auto simp: calls_granted_def decided_row_def executing_def split: if_splits)
  ultimately show ?thesis using assms(1) decided(11) by (auto simp: calls_granted_def)
next
  case (called M E dies run thread server tool args a cs)
  have ex: "executing a" using called(3) by (simp add: executing_def)
  with assms(1) called(2) have d: "ta_decided a \<noteq> None" by (simp add: calls_granted_def)
  have keep: "granted (ax_rows db) i \<Longrightarrow> granted (ax_rows (approval_step op db)) i" for i
    using called(10)
  proof (elim disjE exE conjE)
    fix out assume rows: "ax_rows (approval_step op db) = set_row ta_id (finished_row M (ax_mcp db) (ta_user a) server out a) (ax_rows db)"
      and g: "granted (ax_rows db) i"
    have "ta_decided (finished_row M (ax_mcp db) (ta_user a) server out a) \<noteq> None"
      using d by (simp add: finished_row_def split: sum.split)
    with g show ?thesis unfolding rows
      by (intro granted_set_row [OF assms(2) called(2)]) (auto split: sum.split)
  qed simp
  have "granted (ax_rows db) (ta_id a)" using called(2,3) d by (auto simp: granted_def)
  then have "granted (ax_rows (approval_step op db)) (ta_id a)" by (rule keep)
  moreover have "ta_decided x \<noteq> None" if x: "x \<in> set (ax_rows (approval_step op db))" "executing x" for x
    using called(10)
  proof (elim disjE exE conjE)
    assume "ax_rows (approval_step op db) = ax_rows db"
    with x assms(1) show ?thesis by (simp add: calls_granted_def)
  next
    fix out assume rows: "ax_rows (approval_step op db) = set_row ta_id (finished_row M (ax_mcp db) (ta_user a) server out a) (ax_rows db)"
    have "\<not> executing (finished_row M (ax_mcp db) (ta_user a) server out a)" by (simp add: executing_def split: sum.split)
    with set_row_cases [OF x(1) [unfolded rows]] x(2) assms(1) show ?thesis by (auto simp: calls_granted_def)
  qed
  ultimately show ?thesis using assms(1) keep called(7) by (auto simp: calls_granted_def)
next
  case (recovered now)
  have d: "ta_decided (recovered_row now a) = ta_decided a" for a by (simp add: recovered_row_def)
  have "granted (ax_rows db) i \<Longrightarrow> granted (ax_rows (approval_step op db)) i" for i
    unfolding recovered(2) by (auto simp: granted_def d)
  moreover have "\<not> executing (recovered_row now a)" for a by (simp add: executing_def)
  ultimately show ?thesis using assms(1) recovered(2,5) by (auto simp: calls_granted_def)
qed

definition approvals_safe :: "(metadata \<Rightarrow> ustr) \<Rightarrow> approval_db \<Rightarrow> bool" where
  "approvals_safe digest db \<longleftrightarrow> runs_sound db \<and> approvals_sound digest db \<and> calls_granted db"

lemma approvals_safe_run:
  assumes "approval_run digest db db'" "separating_requests digest" "approvals_safe digest db"
  shows "approvals_safe digest db'"
  using assms
proof induction
  case (step db db' op)
  then have "approvals_safe digest db'" by simp
  then show ?case
    using runs_sound_step approvals_sound_step calls_granted_step step.hyps(2) step.prems(1) approvals_soundD(1)
    unfolding approvals_safe_def by blast
qed simp



text \<open>A settled approval is final: its row never changes and nothing is called for it any more.\<close>

definition settled :: "tool_approval \<Rightarrow> bool" where
  "settled a \<longleftrightarrow> ta_status a \<in> {''completed'', ''failed'', ''rejected'', ''unknown''}"

lemma set_row_other: "x \<in> set xs \<Longrightarrow> key x \<noteq> key y \<Longrightarrow> x \<in> set (set_row key y xs)"
  by (auto simp: set_row_def image_iff intro: bexI [of _ x])

lemma settled_step:
  assumes "a \<in> set (ax_rows db)" "settled a" "distinct (map ta_id (ax_rows db))"
  shows "a \<in> set (ax_rows (approval_step op db))
    \<and> count_list (map fst (ax_calls (approval_step op db))) (ta_id a) = count_list (map fst (ax_calls db)) (ta_id a)"
  using refl [of "approval_step op db"]
proof (cases rule: approval_cases)
  case same
  with assms(1) show ?thesis by simp
next
  case (conversation c)
  with assms(1) conversation_same_approvals [of db c] show ?thesis by (simp add: same_approvals_def)
next
  case (asked M user run thread server tool args)
  with assms(1) show ?thesis by auto
next
  case (decided M b r approve)
  have "ta_id a \<noteq> ta_id b"
    using same_key_row [OF assms(3,1) decided(2)] assms(2) decided(3) by (auto simp: settled_def)
  then have "a \<in> set (ax_rows (approval_step op db))" unfolding decided(8) by (intro set_row_other [OF assms(1)]) simp
  with decided(11) show ?thesis by simp
next
  case (called M E dies run thread server tool args b cs)
  have other: "ta_id a \<noteq> ta_id b"
    using same_key_row [OF assms(3,1) called(2)] assms(2) called(3) by (auto simp: settled_def)
  have "a \<in> set (ax_rows (approval_step op db))"
    using called(10) assms(1) other by (auto intro!: set_row_other)
  moreover have "count_list (map fst (map (\<lambda>c. (ta_id b, c)) cs)) (ta_id a) = 0"
    using other by (induction cs) auto
  ultimately show ?thesis by (simp add: called(7))
next
  case (recovered now)
  have "recovered_row now a = a" using assms(2) by (auto simp: recovered_row_def settled_def)
  then have "a \<in> set (ax_rows (approval_step op db))" unfolding recovered(2) using assms(1) by (metis image_eqI set_map)
  with recovered(5) show ?thesis by simp
qed

theorem settled_final:
  assumes "approval_run digest db db'" "separating_requests digest" "approvals_safe digest db" "a \<in> set (ax_rows db)" "settled a"
  shows "a \<in> set (ax_rows db')
    \<and> count_list (map fst (ax_calls db')) (ta_id a) = count_list (map fst (ax_calls db)) (ta_id a)"
  using assms
proof induction
  case (step db db' op)
  have "approvals_safe digest db'" by (rule approvals_safe_run [OF step.hyps(1) step.prems(1,2)])
  then have "distinct (map ta_id (ax_rows db'))" by (simp add: approvals_safe_def approvals_sound_def)
  from settled_step [OF _ step.prems(4) this, of op] step show ?case by simp
qed simp

text \<open>An approval starts executing only by the decision of its own user, from pending.\<close>

theorem execution_needs_decision:
  assumes "a' \<in> set (ax_rows (approval_step op db))" "executing a'" "a' \<notin> set (ax_rows db)"
  shows "\<exists>M a. op = BeginDecision M (ta_user a') (ta_run a') (ta_id a') True
    \<and> a \<in> set (ax_rows db) \<and> a' = decided_row (me_now M) True a \<and> ta_status a = ''pending''"
  using refl [of "approval_step op db"]
proof (cases rule: approval_cases)
  case same
  with assms show ?thesis by simp
next
  case (conversation c)
  with assms conversation_same_approvals [of db c] show ?thesis by (simp add: same_approvals_def)
next
  case (asked M user run thread server tool args)
  with assms have "a' = new_approval M db user run server tool args" by auto
  with assms(2) show ?thesis by (simp add: new_approval_def executing_def)
next
  case (decided M a r approve)
  from set_row_cases [OF assms(1) [unfolded decided(8)]] assms(3) have a': "a' = decided_row (me_now M) approve a" by blast
  with assms(2) have approve by (simp add: executing_def split: if_splits)
  with a' decided(1-3) show ?thesis by (intro exI [of _ M] exI [of _ a]) simp
next
  case (called M E dies run thread server tool args a cs)
  have f: "\<not> executing (finished_row M (ax_mcp db) (ta_user a) server out a)" for out by (simp add: executing_def split: sum.split)
  from called(10) have False
  proof (elim disjE exE conjE)
    fix out assume rows: "ax_rows (approval_step op db) = set_row ta_id (finished_row M (ax_mcp db) (ta_user a) server out a) (ax_rows db)"
    from set_row_cases [OF assms(1) [unfolded rows]] f assms(2,3) show False by auto
  qed (use assms in simp)
  then show ?thesis ..
next
  case (recovered now)
  have "\<not> executing (recovered_row now a)" for a by (simp add: executing_def)
  with recovered(2) assms(1,2) show ?thesis by auto
qed

text \<open>
  A run left executing, by an exception that is no \<open>McpServiceError\<close> or by a resume that never
  reached the tool, blocks its thread: nothing asked of the conversation changes the run, no run can be
  started and the thread cannot be archived, until the program is restarted.
\<close>

fun conversation_steps :: "conversation_op list \<Rightarrow> approval_db \<Rightarrow> approval_db" where
  "conversation_steps [] db = db"
| "conversation_steps (c # cs) db = conversation_steps cs (conversation_step c db)"

lemma conversation_steps_keep:
  "r \<in> set (cd_runs db) \<Longrightarrow> executing_run r \<Longrightarrow> r \<in> set (cd_runs (conversation_steps cs db))"
  by (induction cs arbitrary: db) (simp_all add: conversation_keeps_executing(1))

theorem executing_run_blocks:
  assumes "r \<in> set (cd_runs db)" "executing_run r"
  shows "r \<in> set (cd_runs (conversation_steps cs db))
    \<and> (rq_thread q = ar_thread r \<longrightarrow> (\<exists>e. fst (start_run P q (conversation_steps cs db)) = Inl e))
    \<and> (\<forall>t. owned_thread (conversation_steps cs db) user goal (ar_thread r) = Some t \<and> ct_status t = ''active''
        \<longrightarrow> archive_thread P user goal (ar_thread r) (conversation_steps cs db) = (Inl ActiveRunConflict, conversation_steps cs db))"
proof -
  have r: "r \<in> set (cd_runs (conversation_steps cs db))" by (rule conversation_steps_keep [OF assms])
  then have busy: "thread_busy (conversation_steps cs db) (ar_thread r)"
    using assms(2) by (auto simp: thread_busy_def list_ex_iff executing_run_def active_run_def active_statuses_def)
  then have "\<exists>e. fst (start_run P q (conversation_steps cs db)) = Inl e" if "rq_thread q = ar_thread r"
    using that by (auto simp: start_run_def split: sum.split)
  with r busy show ?thesis by (auto simp: archive_thread_def)
qed


subsection \<open>A run\<close>

definition sample_request_digest :: "metadata \<Rightarrow> ustr" where
  "sample_request_digest m = (case map snd m of [JStr run, JStr server, JStr tool, _] \<Rightarrow> [to_nat (run, server, tool)] | _ \<Rightarrow> [])"

lemma sample_separating_requests: "separating_requests sample_request_digest"
  by (simp add: separating_requests_def hash_with_def sample_request_digest_def)

definition sample_approval :: "string \<Rightarrow> tool_approval" where
  "sample_approval status =
     \<lparr>ta_id = lit ''a'', ta_user = lit ''u'', ta_run = lit ''r'', ta_server = lit ''s'', ta_tool = lit ''write'', ta_args = JDict [],
      ta_hash = hash_with sample_request_digest (lit ''r'') (lit ''s'') (lit ''write'') [], ta_status = status, ta_result = [],
      ta_created = 0, ta_decided = None, ta_completed = None\<rparr>"

definition sample_approval_db :: "string \<Rightarrow> string \<Rightarrow> approval_db" where
  "sample_approval_db run_status status =
     \<lparr>cd_goals = [(lit ''g'', lit ''u'')], cd_threads = [sample_thread],
      cd_runs = [(sample_run (lit ''r''))\<lparr>ar_status := run_status\<rparr>], ax_mcp = sample_mcp_db, ax_rows = [sample_approval status],
      ax_calls = [], ax_lost = []\<rparr>"

lemma sample_approvals_safe:
  "status \<noteq> ''executing'' \<Longrightarrow> approvals_safe sample_request_digest (sample_approval_db run_status status)"
  by (auto simp: approvals_safe_def runs_sound_def one_active_def idle_archives_def approvals_sound_def executing_covered_def
      one_executing_def hashed_def calls_counted_def calls_granted_def sample_approval_db_def sample_approval_def sample_thread_def executing_def)

definition sample_decision :: approval_op where
  "sample_decision = BeginDecision sample_mcp_env (lit ''u'') (lit ''r'') (lit ''a'') True"

lemma sample_decided:
  "ax_rows (approval_step sample_decision (sample_approval_db ''awaiting_approval'' ''pending'')) = [decided_row 0 True (sample_approval ''pending'')]"
  by (simp add: sample_decision_def begin_decision_def owned_approval_def sample_approval_db_def sample_approval_def sample_run_def
      resumable_def sample_thread_def set_row_def decided_row_def sample_mcp_env_def)


lemma settled_final_witness:
  "sample_approval ''completed'' \<in> set (ax_rows (approval_step sample_decision (sample_approval_db ''running'' ''completed'')))"
proof -
  have "approval_run sample_request_digest (sample_approval_db ''running'' ''completed'')
      (approval_step sample_decision (sample_approval_db ''running'' ''completed''))"
    by (rule approval_run.step [OF approval_run.stay]) (simp add: sample_decision_def)
  from settled_final [OF this sample_separating_requests sample_approvals_safe, of "sample_approval ''completed''"]
  show ?thesis by (simp add: sample_approval_db_def settled_def) (simp add: sample_approval_def)
qed

lemma execution_needs_decision_witness:
  "\<exists>M a. sample_decision = BeginDecision M (lit ''u'') (lit ''r'') (lit ''a'') True \<and> a \<in> set (ax_rows (sample_approval_db ''awaiting_approval'' ''pending''))
    \<and> decided_row 0 True (sample_approval ''pending'') = decided_row (me_now M) True a \<and> ta_status a = ''pending''"
proof -
  have "decided_row 0 True (sample_approval ''pending'')
      \<in> set (ax_rows (approval_step sample_decision (sample_approval_db ''awaiting_approval'' ''pending'')))"
    by (simp add: sample_decided)
  moreover have "executing (decided_row 0 True (sample_approval ''pending''))" by (simp add: executing_def)
  moreover have "decided_row 0 True (sample_approval ''pending'') \<notin> set (ax_rows (sample_approval_db ''awaiting_approval'' ''pending''))"
    by (simp add: sample_approval_db_def decided_row_def) (simp add: sample_approval_def)
  ultimately show ?thesis
    using execution_needs_decision [of "decided_row 0 True (sample_approval ''pending'')" sample_decision
      "sample_approval_db ''awaiting_approval'' ''pending''"] by (simp add: sample_approval_def)
qed

lemma executing_run_blocks_witness:
  "\<exists>r. r \<in> set (cd_runs (conversation_steps [] (sample_approval_db ''executing_approval'' ''unknown''))) \<and> executing_run r"
proof -
  let ?db = "sample_approval_db ''executing_approval'' ''unknown''" and ?r = "(sample_run (lit ''r''))\<lparr>ar_status := ''executing_approval''\<rparr>"
  have "?r \<in> set (cd_runs ?db)" "executing_run ?r" by (simp_all add: sample_approval_db_def executing_run_def)
  with executing_run_blocks [of ?r ?db "[]"] show ?thesis by blast
qed

end
