(* ===== verification/Assessment_Grading.thy ===== *)
theory Assessment_Grading
  imports Retrieval_Domain
begin

text \<open>
  Grading of assessments (domain/assessment/contracts.py, grading_policy.py and
  application/assessment_grading_service.py under src/backend/app): the deterministic grader, the
  validator of grade bundles, scores, and the service that lets a remote grader replace the
  grades of open answers. The remote client is a port; case folding is the one of \<open>unicode_db\<close>.
\<close>

subsection \<open>Contracts\<close>

datatype question_type = Choice | Explain | CodeReading | Scenario

record rubric_criterion =
  rub_id :: ustr
  rub_description :: ustr
  rub_max_points :: int
  rub_required_evidence :: "ustr list"
  rub_accepted_concepts :: "ustr list"
  rub_error_tags :: "ustr list"
  rub_signals :: "ustr list"

record grading_item =
  gi_id :: ustr
  gi_node :: ustr
  gi_type :: question_type
  gi_prompt :: ustr
  gi_options :: "(ustr \<times> ustr) list"
  gi_reference :: ustr
  gi_rubric :: "rubric_criterion list"
  gi_difficulty :: int

record grading_context =
  gc_assessment_id :: ustr
  gc_attempt_id :: ustr
  gc_items :: "grading_item list"
  gc_answers :: "(ustr, ustr) dict"
  gc_hash :: ustr

datatype grade_reason = Satisfied | PartiallySatisfied | Missing | Incorrect | Contradictory

record criterion_grade =
  cg_id :: ustr
  cg_points :: int
  cg_quote :: ustr
  cg_reason :: grade_reason
  cg_feedback :: ustr

record item_grade =
  ig_id :: ustr
  ig_criteria :: "criterion_grade list"
  ig_tags :: "ustr list"
  ig_confidence :: pyfloat
  ig_review :: bool
  ig_feedback :: ustr

record grade_bundle =
  gb_items :: "item_grade list"
  gb_feedback :: ustr

text \<open>An \<open>AssessmentDomainError\<close> with its message, an \<open>AssessmentUnavailable\<close> with its code, a pydantic
  \<open>ValidationError\<close>, the errors of a lookup and of the mean of nothing, and what the client raised.\<close>

datatype grading_error =
    GradingInvalid string
  | GradingUnavailable ustr
  | GradeRejected
  | UnknownItem ustr
  | NothingToAverage
  | ClientRaised port_error

text \<open>The constraints of \<open>CriterionGradeV2\<close> on points and quote.\<close>

definition make_criterion_grade ::
  "ustr \<Rightarrow> int \<Rightarrow> ustr \<Rightarrow> grade_reason \<Rightarrow> string \<Rightarrow> grading_error + criterion_grade" where
  "make_criterion_grade i points quote reason feedback =
     bind_res (require (0 \<le> points \<and> points \<le> 100 \<and> length quote \<le> 500) GradeRejected) (\<lambda>_.
       Inr \<lparr>cg_id = i, cg_points = points, cg_quote = quote, cg_reason = reason,
            cg_feedback = lit feedback\<rparr>)"

definition answer_of :: "grading_context \<Rightarrow> ustr \<Rightarrow> ustr" where
  "answer_of ctx i = (case map_of (gc_answers ctx) i of None \<Rightarrow> [] | Some a \<Rightarrow> a)"

subsection \<open>The deterministic grader\<close>

definition blank_grade :: "grading_item \<Rightarrow> grading_error + item_grade" where
  "blank_grade item =
     bind_res (traverse (\<lambda>c. make_criterion_grade (rub_id c) 0 [] Missing ''No answer was submitted.'')
                 (gi_rubric item)) (\<lambda>criteria.
       Inr \<lparr>ig_id = gi_id item, ig_criteria = criteria, ig_tags = [lit ''unanswered''],
            ig_confidence = 1, ig_review = False, ig_feedback = lit ''No answer was submitted.''\<rparr>)"

definition choice_grade :: "grading_item \<Rightarrow> ustr \<Rightarrow> grading_error + item_grade" where
  "choice_grade item answer =
     (let correct = (strip answer = gi_reference item) in
      bind_res (traverse (\<lambda>c. make_criterion_grade (rub_id c)
                    (if correct then rub_max_points c else 0) (if correct then strip answer else [])
                    (if correct then Satisfied else Incorrect)
                    (if correct then ''Correct option selected.'' else ''The selected option is not correct.''))
                  (gi_rubric item)) (\<lambda>criteria.
        Inr \<lparr>ig_id = gi_id item, ig_criteria = criteria,
             ig_tags = (if correct then [] else [lit ''incorrect_choice'']), ig_confidence = 1,
             ig_review = False,
             ig_feedback = lit (if correct then ''Correct.'' else ''Review the selected option.'')\<rparr>))"

definition matched_signals :: "unicode_db \<Rightarrow> ustr \<Rightarrow> rubric_criterion \<Rightarrow> ustr list" where
  "matched_signals u answer c =
     filter (\<lambda>s. contains s (u_casefold u answer))
       (map (u_casefold u) (filter (\<lambda>s. s \<noteq> []) (rub_signals c)))"

definition open_criterion :: "unicode_db \<Rightarrow> ustr \<Rightarrow> rubric_criterion \<Rightarrow> grading_error + criterion_grade" where
  "open_criterion u answer c =
     (case matched_signals u answer c of
        s # _ \<Rightarrow> make_criterion_grade (rub_id c) (rub_max_points c) s Satisfied
                   ''A deterministic rubric signal was present.''
      | [] \<Rightarrow> make_criterion_grade (rub_id c) 0 [] Missing
                ''The answer could not be reliably scored by deterministic signals.'')"

definition open_grade :: "unicode_db \<Rightarrow> grading_item \<Rightarrow> ustr \<Rightarrow> grading_error + item_grade" where
  "open_grade u item answer =
     (let reliable = list_ex (\<lambda>c. matched_signals u answer c \<noteq> []) (gi_rubric item) in
      bind_res (traverse (open_criterion u answer) (gi_rubric item)) (\<lambda>criteria.
        Inr \<lparr>ig_id = gi_id item, ig_criteria = criteria,
             ig_tags = (if reliable then [] else [lit ''insufficient_deterministic_evidence'']),
             ig_confidence = (if reliable then 55 / 100 else 0), ig_review = (\<not> reliable),
             ig_feedback = lit (if reliable then ''Deterministic fallback score.''
                                else ''This answer requires review.'')\<rparr>))"

definition grade_item :: "unicode_db \<Rightarrow> grading_context \<Rightarrow> grading_item \<Rightarrow> grading_error + item_grade" where
  "grade_item u ctx item =
     (let answer = answer_of ctx (gi_id item)
      in if strip answer = [] then blank_grade item
         else if gi_type item = Choice then choice_grade item answer
         else open_grade u item answer)"

subsection \<open>Validation of a bundle\<close>

definition validate_item :: "grading_context \<Rightarrow> grading_item \<Rightarrow> item_grade \<Rightarrow> grading_error + unit" where
  "validate_item ctx item grade =
     (let criteria = dict_of (map (\<lambda>c. (rub_id c, c)) (gi_rubric item));
          returned = dict_of (map (\<lambda>g. (cg_id g, g)) (ig_criteria grade));
          answer = answer_of ctx (gi_id item) in
      bind_res (require (set (dict_keys criteria) = set (dict_keys returned)
                         \<and> length returned = length (ig_criteria grade))
                  (GradingInvalid ''criterion ids'')) (\<lambda>_.
      bind_res (traverse (\<lambda>(i, g).
                  bind_res (require (\<not> rub_max_points (the (map_of criteria i)) < cg_points g)
                              (GradingInvalid ''points'')) (\<lambda>_.
                    require (contains (cg_quote g) answer) (GradingInvalid ''evidence quote'')))
                 returned) (\<lambda>_. Inr ())))"

definition validate_grade_bundle :: "grading_context \<Rightarrow> grade_bundle \<Rightarrow> grading_error + unit" where
  "validate_grade_bundle ctx bundle =
     (let items = dict_of (map (\<lambda>i. (gi_id i, i)) (gc_items ctx));
          grades = dict_of (map (\<lambda>g. (ig_id g, g)) (gb_items bundle)) in
      bind_res (require (set (dict_keys grades) = set (dict_keys items)
                         \<and> length grades = length (gb_items bundle))
                  (GradingInvalid ''item ids'')) (\<lambda>_.
      bind_res (traverse (\<lambda>(i, item). validate_item ctx item (the (map_of grades i))) items)
        (\<lambda>_. Inr ())))"

definition deterministic_grade :: "unicode_db \<Rightarrow> grading_context \<Rightarrow> grading_error + grade_bundle" where
  "deterministic_grade u ctx =
     bind_res (traverse (grade_item u ctx) (gc_items ctx)) (\<lambda>grades.
       let bundle = \<lparr>gb_items = grades, gb_feedback = lit ''Assessment grading completed.''\<rparr>
       in bind_res (validate_grade_bundle ctx bundle) (\<lambda>_. Inr bundle))"

subsection \<open>Scores\<close>

definition score_item :: "item_grade \<Rightarrow> grading_item \<Rightarrow> pyfloat option" where
  "score_item grade item =
     (let maximum = sum_list (map rub_max_points (gi_rubric item))
      in if ig_review grade then None
         else if maximum = 0 then None
         else Some (py_round (100 * of_int (sum_list (map cg_points (ig_criteria grade))) / of_int maximum) 2))"

definition overall_score :: "grade_bundle \<Rightarrow> grading_context \<Rightarrow> grading_error + pyfloat option" where
  "overall_score bundle ctx =
     (let by_id = dict_of (map (\<lambda>i. (gi_id i, i)) (gc_items ctx)) in
      bind_res (traverse (\<lambda>g. case map_of by_id (ig_id g) of
                                None \<Rightarrow> Inl (UnknownItem (ig_id g))
                              | Some item \<Rightarrow> Inr (score_item g item)) (gb_items bundle)) (\<lambda>values.
        if None \<in> set values then Inr None
        else if values = [] then Inl NothingToAverage
        else Inr (Some (py_round (sum_list (map the values) / of_nat (length values)) 2))))"

subsection \<open>The grading service\<close>

datatype grading_mode = DeterministicExact | RemoteStructured | DeterministicFallback | ManualReview

datatype grader_choice = Hybrid | Remote | Deterministic

text \<open>The reply of the structured-output client: a bundle with the model's name, or nothing with
  an error code.\<close>

datatype client_reply = NoValue "ustr option" | Graded grade_bundle ustr

type_synonym grading_client = "grading_context \<Rightarrow> port_error + client_reply"

record grading_outcome =
  go_bundle :: grade_bundle
  go_modes :: "(ustr, grading_mode) dict"
  go_model :: "ustr option"

definition grader_choice_of :: "(ustr \<Rightarrow> ustr) \<Rightarrow> ustr option \<Rightarrow> grader_choice" where
  "grader_choice_of lower env =
     (let raw = lower (strip (case env of None \<Rightarrow> lit ''hybrid'' | Some v \<Rightarrow> v))
      in if raw = lit ''remote'' then Remote
         else if raw = lit ''deterministic'' then Deterministic else Hybrid)"

definition is_open :: "grading_context \<Rightarrow> grading_item \<Rightarrow> bool" where
  "is_open ctx item \<longleftrightarrow> gi_type item \<noteq> Choice \<and> strip (answer_of ctx (gi_id item)) \<noteq> []"

definition open_item_ids :: "grading_context \<Rightarrow> ustr list" where
  "open_item_ids ctx = fromkeys (map gi_id (filter (is_open ctx) (gc_items ctx)))"

definition deterministic_modes :: "grading_context \<Rightarrow> grade_bundle \<Rightarrow> (ustr, grading_mode) dict" where
  "deterministic_modes ctx bundle =
     dict_of (map (\<lambda>(item, g). (gi_id item,
         if \<not> is_open ctx item then DeterministicExact
         else if ig_review g then ManualReview else DeterministicFallback))
       (zip (gc_items ctx) (gb_items bundle)))"

definition open_context :: "grading_context \<Rightarrow> grading_context" where
  "open_context ctx = ctx\<lparr>gc_items := filter (\<lambda>i. gi_id i \<in> set (open_item_ids ctx)) (gc_items ctx),
     gc_answers := map (\<lambda>i. (i, answer_of ctx i)) (open_item_ids ctx)\<rparr>"

definition merge_grades :: "grading_context \<Rightarrow> grade_bundle \<Rightarrow> grade_bundle \<Rightarrow> grade_bundle" where
  "merge_grades ctx local remote =
     (let by_id = dict_update (dict_of (map (\<lambda>g. (ig_id g, g)) (gb_items local)))
                    (map (\<lambda>g. (ig_id g, g)) (gb_items remote))
      in \<lparr>gb_items = map (\<lambda>item. the (map_of by_id (gi_id item))) (gc_items ctx),
          gb_feedback = gb_feedback remote\<rparr>)"

definition grade_assessment ::
  "unicode_db \<Rightarrow> grader_choice \<Rightarrow> grading_client \<Rightarrow> grading_context \<Rightarrow> grading_error + grading_outcome" where
  "grade_assessment u choice client ctx =
     bind_res (deterministic_grade u ctx) (\<lambda>local.
     let modes = deterministic_modes ctx local;
         fallback = \<lparr>go_bundle = local, go_modes = modes, go_model = None\<rparr>;
         opened = open_item_ids ctx;
         refuse = (\<lambda>code. if choice = Remote then Inl (GradingUnavailable code) else Inr fallback) in
     if opened = [] \<or> choice = Deterministic then Inr fallback
     else case client (open_context ctx) of
       Inl e \<Rightarrow> Inl (ClientRaised e)
     | Inr (NoValue code) \<Rightarrow>
         refuse (if code = None \<or> code = Some [] then lit ''assessment.grading_unavailable'' else the code)
     | Inr (Graded remote model) \<Rightarrow>
         (let ids = map ig_id (gb_items remote) in
          if set ids \<noteq> set opened \<or> card (set ids) \<noteq> length ids
          then refuse (lit ''assessment.grading_output_invalid'')
          else (let bundle = merge_grades ctx local remote in
                case validate_grade_bundle ctx bundle of
                  Inl _ \<Rightarrow> refuse (lit ''assessment.grading_output_invalid'')
                | Inr _ \<Rightarrow> Inr \<lparr>go_bundle = bundle,
                    go_modes = dict_update modes (map (\<lambda>i. (i, RemoteStructured)) opened),
                    go_model = Some model\<rparr>)))"

subsection \<open>What the validator accepts\<close>

definition criterion_ok :: "grading_context \<Rightarrow> grading_item \<Rightarrow> criterion_grade \<Rightarrow> bool" where
  "criterion_ok ctx item x \<longleftrightarrow> contains (cg_quote x) (answer_of ctx (gi_id item))
     \<and> (\<exists>c \<in> set (gi_rubric item). rub_id c = cg_id x \<and> cg_points x \<le> rub_max_points c)"

definition grade_ok :: "grading_context \<Rightarrow> grading_item \<Rightarrow> item_grade \<Rightarrow> bool" where
  "grade_ok ctx item g \<longleftrightarrow> ig_id g = gi_id item
     \<and> distinct (map cg_id (ig_criteria g)) \<and> cg_id ` set (ig_criteria g) = rub_id ` set (gi_rubric item)
     \<and> (\<forall>x \<in> set (ig_criteria g). criterion_ok ctx item x)"

lemma dict_of_full: "length (dict_of kvs) = length kvs \<longleftrightarrow> distinct (map fst kvs)"
proof
  have "length (dict_of kvs) = card (set (map fst (dict_of kvs)))"
    using distinct_card [OF wf_dict_of [of kvs]] by (metis length_map)
  also have "\<dots> = card (set (map fst kvs))" by (simp add: keys_dict_of_set)
  finally show "length (dict_of kvs) = length kvs \<Longrightarrow> distinct (map fst kvs)"
    by (metis card_distinct length_map)
qed (simp add: dict_of_distinct)

lemma validate_item_ok:
  assumes "validate_item ctx item g = Inr u" "ig_id g = gi_id item"
  shows "grade_ok ctx item g"
proof -
  let ?R = "map (\<lambda>x. (cg_id x, x)) (ig_criteria g)"
  let ?C = "map (\<lambda>c. (rub_id c, c)) (gi_rubric item)"
  from assms(1) have keys: "set (dict_keys (dict_of ?C)) = set (dict_keys (dict_of ?R))"
    and full: "length (dict_of ?R) = length (ig_criteria g)"
    by (auto simp: validate_item_def Let_def bind_res_Inr_iff)
  from full have dist: "distinct (map cg_id (ig_criteria g))"
    using dict_of_full [of ?R] by (simp add: comp_def)
  then have R: "dict_of ?R = ?R" by (simp add: dict_of_distinct comp_def)
  have "criterion_ok ctx item x" if "x \<in> set (ig_criteria g)" for x
  proof -
    from that have mem: "(cg_id x, x) \<in> set (dict_of ?R)" by (simp add: R)
    with assms(1) have ok: "\<not> rub_max_points (the (map_of (dict_of ?C) (cg_id x))) < cg_points x"
      "contains (cg_quote x) (answer_of ctx (gi_id item))"
      using traverse_Inr_in [OF _ mem]
      by (force simp: validate_item_def Let_def bind_res_Inr_iff)+
    from mem keys have "cg_id x \<in> fst ` set (dict_of ?C)"
      by (force simp: dict_keys_def)
    then obtain c where c: "map_of (dict_of ?C) (cg_id x) = Some c"
      by (metis map_of_eq_None_iff not_None_eq)
    then have "map_of (rev ?C) (cg_id x) = Some c" by (simp add: map_of_dict_of)
    then have "(cg_id x, c) \<in> set ?C" using map_of_SomeD by fastforce
    with c ok show ?thesis unfolding criterion_ok_def by auto
  qed
  moreover have "cg_id ` set (ig_criteria g) = rub_id ` set (gi_rubric item)"
    using keys by (simp add: dict_keys_def keys_dict_of_set image_image)
  ultimately show ?thesis using dist assms(2) by (simp add: grade_ok_def)
qed

lemma validate_bundle_ok:
  assumes "validate_grade_bundle ctx b = Inr u" "map ig_id (gb_items b) = map gi_id (gc_items ctx)"
  shows "distinct (map gi_id (gc_items ctx)) \<and> list_all2 (grade_ok ctx) (gc_items ctx) (gb_items b)"
proof -
  let ?G = "map (\<lambda>g. (ig_id g, g)) (gb_items b)"
  let ?I = "map (\<lambda>i. (gi_id i, i)) (gc_items ctx)"
  from assms(1) have "length (dict_of ?G) = length ?G"
    by (auto simp: validate_grade_bundle_def Let_def bind_res_Inr_iff)
  then have dist: "distinct (map ig_id (gb_items b))"
    using dict_of_full [of ?G] by (simp add: comp_def)
  then have G: "dict_of ?G = ?G" and I: "dict_of ?I = ?I"
    using assms(2) by (simp_all add: dict_of_distinct comp_def)
  have len: "length (gc_items ctx) = length (gb_items b)"
    using assms(2) by (metis length_map)
  have "grade_ok ctx (gc_items ctx ! n) (gb_items b ! n)" if n: "n < length (gb_items b)" for n
  proof -
    let ?i = "gc_items ctx ! n" and ?g = "gb_items b ! n"
    have ids: "ig_id ?g = gi_id ?i"
      using assms(2) n len by (metis nth_map)
    have "map_of ?G (gi_id ?i) = Some ?g"
      using dist n by (intro map_of_is_SomeI) (auto simp: comp_def ids [symmetric])
    moreover have "(gi_id ?i, ?i) \<in> set (dict_of ?I)"
      using n len by (simp add: I)
    ultimately have "\<exists>u. validate_item ctx ?i ?g = Inr u"
      using assms(1) traverse_Inr_in
      by (fastforce simp: validate_grade_bundle_def Let_def bind_res_Inr_iff G)
    with ids show ?thesis using validate_item_ok by blast
  qed
  with dist assms(2) len show ?thesis by (auto simp: list_all2_conv_all_nth)
qed

lemma deterministic_grade_parts:
  assumes "deterministic_grade u ctx = Inr b"
  shows "traverse (grade_item u ctx) (gc_items ctx) = Inr (gb_items b)"
    "\<exists>w. validate_grade_bundle ctx b = Inr w"
  using assms by (auto simp: deterministic_grade_def Let_def bind_res_Inr_iff)

lemma grade_item_id: "grade_item u ctx item = Inr g \<Longrightarrow> ig_id g = gi_id item"
  by (auto simp: grade_item_def blank_grade_def choice_grade_def open_grade_def Let_def
      bind_res_Inr_iff split: if_splits)

lemma deterministic_ids:
  assumes "deterministic_grade u ctx = Inr b"
  shows "map ig_id (gb_items b) = map gi_id (gc_items ctx)"
  using traverse_preserves [OF deterministic_grade_parts(1) [OF assms], of ig_id gi_id]
  by (simp add: grade_item_id)

lemma deterministic_distinct:
  "deterministic_grade u ctx = Inr b \<Longrightarrow> distinct (map gi_id (gc_items ctx))"
  using validate_bundle_ok deterministic_ids deterministic_grade_parts(2) by blast

subsection \<open>What the service publishes\<close>

lemma merge_ids:
  assumes "map ig_id (gb_items local) = map gi_id (gc_items ctx)"
  shows "map ig_id (gb_items (merge_grades ctx local remote)) = map gi_id (gc_items ctx)"
proof -
  let ?L = "map (\<lambda>g. (ig_id g, g)) (gb_items local)" and ?R = "map (\<lambda>g. (ig_id g, g)) (gb_items remote)"
  let ?m = "map_of (dict_update (dict_of ?L) ?R)"
  have m: "?m = map_of (rev (?L @ ?R))" by (simp add: map_of_dict_of)
  have "ig_id (the (?m (gi_id item))) = gi_id item" if "item \<in> set (gc_items ctx)" for item
  proof -
    from that have "gi_id item \<in> set (map ig_id (gb_items local))" by (simp add: assms)
    then have "gi_id item \<in> fst ` set (rev (?L @ ?R))" by (simp add: image_Un image_image)
    then obtain g where g: "?m (gi_id item) = Some g"
      unfolding m using map_of_eq_None_iff [of "rev (?L @ ?R)" "gi_id item"] by blast
    then have "(gi_id item, g) \<in> set (?L @ ?R)"
      unfolding m using map_of_SomeD [of "rev (?L @ ?R)" "gi_id item" g] by (simp; blast)
    with g show ?thesis by auto
  qed
  then show ?thesis by (simp add: merge_grades_def Let_def)
qed

lemma merge_keeps_local:
  assumes "item \<in> set (gc_items ctx)" "gi_id item \<notin> ig_id ` set (gb_items remote)"
    "(item, g) \<in> set (zip (gc_items ctx) (gb_items local))"
    "map ig_id (gb_items local) = map gi_id (gc_items ctx)" "distinct (map gi_id (gc_items ctx))"
  shows "the (map_of (dict_update (dict_of (map (\<lambda>g. (ig_id g, g)) (gb_items local)))
                        (map (\<lambda>g. (ig_id g, g)) (gb_items remote))) (gi_id item)) = g"
proof -
  let ?L = "map (\<lambda>g. (ig_id g, g)) (gb_items local)"
  from assms(3,4) have "ig_id g = gi_id item" "g \<in> set (gb_items local)"
    by (auto simp: in_set_zip) (metis length_map nth_map)
  moreover have L: "dict_of ?L = ?L" "distinct (map fst ?L)"
    using assms(4,5) by (simp_all add: dict_of_distinct comp_def)
  ultimately have "map_of ?L (gi_id item) = Some g"
    by (intro map_of_is_SomeI) (auto simp: image_iff intro: bexI [of _ g])
  moreover have "map_of (rev (map (\<lambda>g. (ig_id g, g)) (gb_items remote))) (gi_id item) = None"
    using assms(2) by (auto simp: map_of_eq_None_iff)
  ultimately show ?thesis by (simp add: L(1) map_add_def)
qed

text \<open>The two ways the service returns: the deterministic grades, or a merge with a remote bundle.\<close>

lemma grade_assessment_cases [consumes 1, case_names local remote]:
  assumes "grade_assessment u choice client ctx = Inr out"
  obtains (local) b where "deterministic_grade u ctx = Inr b" "go_bundle out = b"
      "go_modes out = deterministic_modes ctx b" "go_model out = None" "choice \<noteq> Remote \<or> open_item_ids ctx = []"
    | (remote) b r model w where "deterministic_grade u ctx = Inr b"
      "client (open_context ctx) = Inr (Graded r model)" "choice \<noteq> Deterministic"
      "ig_id ` set (gb_items r) = set (open_item_ids ctx)" "distinct (map ig_id (gb_items r))"
      "validate_grade_bundle ctx (go_bundle out) = Inr w" "go_bundle out = merge_grades ctx b r"
      "go_modes out = dict_update (deterministic_modes ctx b) (map (\<lambda>i. (i, RemoteStructured)) (open_item_ids ctx))"
      "go_model out = Some model"
proof -
  from assms obtain b where b: "deterministic_grade u ctx = Inr b"
    by (auto simp: grade_assessment_def bind_res_Inr_iff)
  consider "out = \<lparr>go_bundle = b, go_modes = deterministic_modes ctx b, go_model = None\<rparr>"
      "choice \<noteq> Remote \<or> open_item_ids ctx = []"
    | r model w where "client (open_context ctx) = Inr (Graded r model)" "choice \<noteq> Deterministic"
      "ig_id ` set (gb_items r) = set (open_item_ids ctx)" "distinct (map ig_id (gb_items r))"
      "validate_grade_bundle ctx (merge_grades ctx b r) = Inr w"
      "out = \<lparr>go_bundle = merge_grades ctx b r, go_modes = dict_update (deterministic_modes ctx b)
                (map (\<lambda>i. (i, RemoteStructured)) (open_item_ids ctx)), go_model = Some model\<rparr>"
    using assms
    by (auto simp: grade_assessment_def b Let_def card_distinct
        split: if_splits sum.splits client_reply.splits)
  then show ?thesis
    using b by cases (auto intro: local remote)
qed

lemma outcome_ids:
  assumes "grade_assessment u choice client ctx = Inr out"
  shows "map ig_id (gb_items (go_bundle out)) = map gi_id (gc_items ctx)"
  using assms by (cases rule: grade_assessment_cases) (simp_all add: deterministic_ids merge_ids)

lemma outcome_validated:
  assumes "grade_assessment u choice client ctx = Inr out"
  shows "\<exists>w. validate_grade_bundle ctx (go_bundle out) = Inr w"
  using assms by (cases rule: grade_assessment_cases) (use deterministic_grade_parts(2) in auto)

lemma set_open_item_ids: "set (open_item_ids ctx) = gi_id ` {i \<in> set (gc_items ctx). is_open ctx i}"
  by (auto simp: open_item_ids_def)

lemma closed_not_open:
  assumes "distinct (map gi_id (gc_items ctx))" "item \<in> set (gc_items ctx)" "\<not> is_open ctx item"
  shows "gi_id item \<notin> set (open_item_ids ctx)"
  using assms by (auto simp: set_open_item_ids dest: inj_onD [OF distinct_map [THEN iffD1, THEN conjunct2]])

lemma modes_of_closed:
  assumes "distinct (map gi_id (gc_items ctx))" "length (gb_items b) = length (gc_items ctx)"
    "item \<in> set (gc_items ctx)" "\<not> is_open ctx item"
  shows "map_of (deterministic_modes ctx b) (gi_id item) = Some DeterministicExact"
proof -
  let ?f = "\<lambda>(item, g). (gi_id item, if \<not> is_open ctx item then DeterministicExact
      else if ig_review g then ManualReview else DeterministicFallback)"
  have fst: "map fst (map ?f (zip (gc_items ctx) (gb_items b))) = map gi_id (gc_items ctx)"
    using assms(2) by (simp add: comp_def case_prod_unfold map_fst_zip flip: map_map [of gi_id fst, unfolded comp_def])
  then have d: "dict_of (map ?f (zip (gc_items ctx) (gb_items b))) = map ?f (zip (gc_items ctx) (gb_items b))"
    using assms(1) by (simp add: dict_of_distinct)
  obtain g where "(item, g) \<in> set (zip (gc_items ctx) (gb_items b))"
    using assms(2,3) by (metis in_set_impl_in_set_zip1)
  then have "(gi_id item, DeterministicExact) \<in> set (map ?f (zip (gc_items ctx) (gb_items b)))"
    using assms(4) by force
  then show ?thesis
    using assms(1) fst by (simp add: deterministic_modes_def d map_of_is_SomeI)
qed

lemma closed_grade:
  assumes run: "grade_assessment u choice client ctx = Inr out" and dist: "distinct (map gi_id (gc_items ctx))"
    and mem: "(item, g) \<in> set (zip (gc_items ctx) (gb_items (go_bundle out)))" and closed: "\<not> is_open ctx item"
  shows "grade_item u ctx item = Inr g \<and> map_of (go_modes out) (gi_id item) = Some DeterministicExact"
proof -
  from mem have item: "item \<in> set (gc_items ctx)" by (auto dest: in_set_zipE)
  have graded: "grade_item u ctx item = Inr h"
    if "deterministic_grade u ctx = Inr b" "(item, h) \<in> set (zip (gc_items ctx) (gb_items b))" for b h
    using traverse_Inr_nth [OF deterministic_grade_parts(1) [OF that(1)]] that(2)
    by (auto simp: in_set_zip)
  from run show ?thesis
  proof (cases rule: grade_assessment_cases)
    case (local b)
    then have "length (gb_items b) = length (gc_items ctx)"
      using deterministic_ids [OF local(1)] by (metis length_map)
    with local mem closed item dist graded [OF local(1)] show ?thesis
      by (simp add: modes_of_closed)
  next
    case (remote b r model w)
    have ids: "map ig_id (gb_items b) = map gi_id (gc_items ctx)" by (rule deterministic_ids [OF remote(1)])
    then have len: "length (gb_items b) = length (gc_items ctx)" by (metis length_map)
    then obtain h where h: "(item, h) \<in> set (zip (gc_items ctx) (gb_items b))"
      using item by (metis in_set_impl_in_set_zip1)
    have closed_id: "gi_id item \<notin> ig_id ` set (gb_items r)"
      using closed_not_open [OF dist item closed] remote(4) by simp
    from mem have "g = h"
      using merge_keeps_local [OF item closed_id h ids dist]
      by (auto simp: remote(7) merge_grades_def Let_def in_set_zip)
    moreover have "map_of (rev (map (\<lambda>i. (i, RemoteStructured)) (open_item_ids ctx))) (gi_id item) = None"
      using closed_not_open [OF dist item closed] by (auto simp: map_of_eq_None_iff)
    ultimately show ?thesis
      using graded [OF remote(1) h] modes_of_closed [OF dist len item closed]
      by (simp add: remote(8) map_add_def)
  qed
qed

text \<open>C20. Whatever the remote grader replies, a published bundle grades every item of the assessment
  exactly once and in order, gives each rubric criterion one grade of at most its points, and
  quotes only what the learner wrote; choice questions and blank answers keep the grades of the
  deterministic grader.\<close>

theorem grading_sound:
  assumes "grade_assessment u choice client ctx = Inr out"
  shows "distinct (map gi_id (gc_items ctx))
    \<and> list_all2 (grade_ok ctx) (gc_items ctx) (gb_items (go_bundle out))
    \<and> (\<forall>(item, g) \<in> set (zip (gc_items ctx) (gb_items (go_bundle out))).
         \<not> is_open ctx item \<longrightarrow> grade_item u ctx item = Inr g
           \<and> map_of (go_modes out) (gi_id item) = Some DeterministicExact)"
proof -
  obtain w where "validate_grade_bundle ctx (go_bundle out) = Inr w"
    using outcome_validated [OF assms] by blast
  from validate_bundle_ok [OF this outcome_ids [OF assms]] closed_grade [OF assms]
  show ?thesis by blast
qed

lemma sum_set_le_sum_list:
  "(\<And>x. x \<in> set xs \<Longrightarrow> 0 \<le> (f x :: int)) \<Longrightarrow> sum f (set xs) \<le> sum_list (map f xs)"
proof (induction xs)
  case (Cons x xs)
  then have "sum f (set xs) \<le> sum_list (map f xs)" "0 \<le> f x" by simp_all
  then show ?case by (cases "x \<in> set xs") (simp_all add: insert_absorb)
qed simp

lemma points_bounded:
  assumes ok: "grade_ok ctx item g" and pos: "\<forall>c \<in> set (gi_rubric item). 0 \<le> rub_max_points c"
  shows "sum_list (map cg_points (ig_criteria g)) \<le> sum_list (map rub_max_points (gi_rubric item))"
proof -
  let ?X = "set (ig_criteria g)"
  from ok have dist: "distinct (map cg_id (ig_criteria g))"
    and crit: "\<And>x. x \<in> ?X \<Longrightarrow> criterion_ok ctx item x" by (simp_all add: grade_ok_def)
  then have "\<forall>x \<in> ?X. \<exists>c. c \<in> set (gi_rubric item) \<and> rub_id c = cg_id x \<and> cg_points x \<le> rub_max_points c"
    unfolding criterion_ok_def by blast
  then obtain c where c: "\<And>x. x \<in> ?X \<Longrightarrow> c x \<in> set (gi_rubric item)"
    "\<And>x. x \<in> ?X \<Longrightarrow> rub_id (c x) = cg_id x" "\<And>x. x \<in> ?X \<Longrightarrow> cg_points x \<le> rub_max_points (c x)"
    by metis
  have "inj_on cg_id ?X" using dist by (simp add: distinct_map)
  then have inj: "inj_on c ?X" using c(2) by (metis inj_on_def)
  have "sum_list (map cg_points (ig_criteria g)) = sum cg_points ?X"
    using dist by (simp add: distinct_map sum_list_distinct_conv_sum_set)
  also have "\<dots> \<le> sum (\<lambda>x. rub_max_points (c x)) ?X" by (rule sum_mono) (rule c(3))
  also have "\<dots> = sum rub_max_points (c ` ?X)" by (simp add: sum.reindex [OF inj])
  also have "\<dots> \<le> sum rub_max_points (set (gi_rubric item))"
    using c(1) pos by (intro sum_mono2) auto
  also have "\<dots> \<le> sum_list (map rub_max_points (gi_rubric item))"
    using pos by (intro sum_set_le_sum_list) auto
  finally show ?thesis .
qed

lemma score_bounds:
  assumes "grade_ok ctx item g" "\<forall>c \<in> set (gi_rubric item). 0 \<le> rub_max_points c"
    "\<forall>x \<in> set (ig_criteria g). 0 \<le> cg_points x" "score_item g item = Some v"
  shows "0 \<le> v \<and> v \<le> 100"
proof -
  let ?p = "sum_list (map cg_points (ig_criteria g))" and ?m = "sum_list (map rub_max_points (gi_rubric item))"
  have "0 \<le> ?p" using assms(3) by (intro sum_list_nonneg) auto
  moreover have le: "?p \<le> ?m" by (rule points_bounded [OF assms(1,2)])
  moreover from assms(4) have "?m \<noteq> 0" and v: "v = py_round (100 * of_int ?p / of_int ?m) 2"
    by (auto simp: score_item_def Let_def split: if_splits)
  ultimately have m: "0 < ?m" by linarith
  have "0 \<le> 100 * of_int ?p / (of_int ?m :: real)" "100 * of_int ?p / (of_int ?m :: real) \<le> 100"
    using m le \<open>0 \<le> ?p\<close> by (simp_all add: divide_le_eq)
  then show ?thesis unfolding v using py_round_nonneg py_round_le_numeral by blast
qed

text \<open>What pydantic guarantees of a remote bundle: no negative points, a confidence from 0 to 1.\<close>

definition typed_grade :: "item_grade \<Rightarrow> bool" where
  "typed_grade g \<longleftrightarrow> 0 \<le> ig_confidence g \<and> ig_confidence g \<le> 1
     \<and> (\<forall>x \<in> set (ig_criteria g). 0 \<le> cg_points x)"

definition typed_client :: "grading_client \<Rightarrow> bool" where
  "typed_client client \<longleftrightarrow>
     (\<forall>c b m. client c = Inr (Graded b m) \<longrightarrow> (\<forall>g \<in> set (gb_items b). typed_grade g))"

lemma make_criterion_points: "make_criterion_grade i p q r f = Inr x \<Longrightarrow> 0 \<le> cg_points x"
  by (auto simp: make_criterion_grade_def bind_res_Inr_iff)

lemma traverse_points:
  assumes "traverse f cs = Inr xs" "\<And>c y. f c = Inr y \<Longrightarrow> 0 \<le> cg_points y" "x \<in> set xs"
  shows "0 \<le> cg_points x"
  using traverse_Inr_all [OF assms(1,3)] assms(2) by blast

lemma open_criterion_points: "open_criterion u a c = Inr x \<Longrightarrow> 0 \<le> cg_points x"
  by (auto simp: open_criterion_def make_criterion_points split: list.splits)

lemma grade_item_typed:
  assumes "grade_item u ctx item = Inr g"
  shows "typed_grade g"
proof -
  consider "blank_grade item = Inr g" | "choice_grade item (answer_of ctx (gi_id item)) = Inr g"
    | "open_grade u item (answer_of ctx (gi_id item)) = Inr g"
    using assms by (auto simp: grade_item_def Let_def split: if_splits)
  then show ?thesis
  proof cases
    case 1
    then show ?thesis
      by (auto simp: typed_grade_def blank_grade_def bind_res_Inr_iff elim: traverse_points [OF _ make_criterion_points])
  next
    case 2
    then show ?thesis
      by (auto simp: typed_grade_def choice_grade_def Let_def bind_res_Inr_iff elim: traverse_points [OF _ make_criterion_points])
  next
    case 3
    then show ?thesis
      by (auto simp: typed_grade_def open_grade_def Let_def bind_res_Inr_iff elim: traverse_points [OF _ open_criterion_points])
  qed
qed

lemma merge_member:
  assumes "map ig_id (gb_items local) = map gi_id (gc_items ctx)"
    "g \<in> set (gb_items (merge_grades ctx local remote))"
  shows "g \<in> set (gb_items local) \<or> g \<in> set (gb_items remote)"
proof -
  let ?L = "map (\<lambda>g. (ig_id g, g)) (gb_items local)" and ?R = "map (\<lambda>g. (ig_id g, g)) (gb_items remote)"
  let ?m = "map_of (dict_update (dict_of ?L) ?R)"
  have m: "?m = map_of (rev (?L @ ?R))" by (simp add: map_of_dict_of)
  from assms(2) obtain item where item: "item \<in> set (gc_items ctx)" "g = the (?m (gi_id item))"
    by (auto simp: merge_grades_def Let_def)
  then have "gi_id item \<in> set (map ig_id (gb_items local))" by (simp add: assms(1))
  then have "gi_id item \<in> fst ` set (rev (?L @ ?R))" by (simp add: image_Un image_image)
  then obtain h where "?m (gi_id item) = Some h"
    unfolding m using map_of_eq_None_iff [of "rev (?L @ ?R)" "gi_id item"] by blast
  with item have "(gi_id item, g) \<in> set (?L @ ?R)"
    unfolding m using map_of_SomeD [of "rev (?L @ ?R)" "gi_id item" g] by (simp; blast)
  then show ?thesis by auto
qed

lemma outcome_typed:
  assumes "grade_assessment u choice client ctx = Inr out" "typed_client client"
    "g \<in> set (gb_items (go_bundle out))"
  shows "typed_grade g"
proof -
  have graded: "typed_grade g"
    if "deterministic_grade u ctx = Inr b" "g \<in> set (gb_items b)" for b
    using traverse_Inr_all [OF deterministic_grade_parts(1) [OF that(1)] that(2)] grade_item_typed by blast
  from assms(1) show ?thesis
  proof (cases rule: grade_assessment_cases)
    case (local b)
    then show ?thesis using graded assms(3) by blast
  next
    case (remote b r model w)
    with assms(3) merge_member [OF deterministic_ids [OF remote(1)]]
    have "g \<in> set (gb_items b) \<or> g \<in> set (gb_items r)" by simp
    then show ?thesis
      using graded [OF remote(1)] assms(2) remote(2) unfolding typed_client_def by blast
  qed
qed

lemma item_of_grade:
  assumes "distinct (map gi_id (gc_items ctx))" "list_all2 (grade_ok ctx) (gc_items ctx) gs" "g \<in> set gs"
  obtains item where "(item, g) \<in> set (zip (gc_items ctx) gs)" "grade_ok ctx item g"
    "map_of (dict_of (map (\<lambda>i. (gi_id i, i)) (gc_items ctx))) (ig_id g) = Some item"
proof -
  from assms(2,3) obtain item where item: "(item, g) \<in> set (zip (gc_items ctx) gs)" "grade_ok ctx item g"
    unfolding list_all2_iff by (metis case_prodD in_set_impl_in_set_zip2)
  then have "item \<in> set (gc_items ctx)" "ig_id g = gi_id item"
    by (auto dest: in_set_zipE simp: grade_ok_def)
  then have "map_of (dict_of (map (\<lambda>i. (gi_id i, i)) (gc_items ctx))) (ig_id g) = Some item"
    using assms(1) by (simp add: dict_of_distinct comp_def map_of_is_SomeI)
  with item that show ?thesis by blast
qed

lemma mean_bounds:
  assumes "xs \<noteq> []" "\<forall>x \<in> set xs. 0 \<le> x \<and> x \<le> (b::real)"
  shows "0 \<le> sum_list xs / of_nat (length xs) \<and> sum_list xs / of_nat (length xs) \<le> b"
proof -
  have "sum_list xs \<le> b * of_nat (length xs)"
    using assms(2) by (induction xs) (auto simp: algebra_simps)
  moreover have "0 \<le> sum_list xs" using assms(2) by (intro sum_list_nonneg) auto
  ultimately show ?thesis using assms(1) by (simp add: divide_le_eq)
qed

lemma rubric_total_pos:
  assumes "\<forall>c \<in> set cs. 1 \<le> rub_max_points c" "cs \<noteq> []"
  shows "0 < sum_list (map rub_max_points cs)"
proof (cases cs)
  case (Cons c cs')
  with assms(1) have "0 \<le> sum_list (map rub_max_points cs')" by (intro sum_list_nonneg) force
  with assms(1) Cons show ?thesis by simp
qed (use assms(2) in simp)

lemma overall_score_cases:
  assumes "grade_assessment u choice client ctx = Inr out" "typed_client client" "gc_items ctx \<noteq> []"
    "\<forall>item \<in> set (gc_items ctx). \<forall>c \<in> set (gi_rubric item). 1 \<le> rub_max_points c"
  shows "\<exists>v. overall_score (go_bundle out) ctx = Inr v
    \<and> (case v of
         Some s \<Rightarrow> 0 \<le> s \<and> s \<le> 100 \<and> (\<forall>g \<in> set (gb_items (go_bundle out)). \<not> ig_review g)
       | None \<Rightarrow> (\<exists>(item, g) \<in> set (zip (gc_items ctx) (gb_items (go_bundle out))).
                    ig_review g \<or> gi_rubric item = []))"
proof -
  let ?gs = "gb_items (go_bundle out)" and ?by = "map_of (dict_of (map (\<lambda>i. (gi_id i, i)) (gc_items ctx)))"
  obtain w where w: "validate_grade_bundle ctx (go_bundle out) = Inr w"
    using outcome_validated [OF assms(1)] by blast
  note ok = validate_bundle_ok [OF w outcome_ids [OF assms(1)]]
  define f where "f g = score_item g (the (?by (ig_id g)))" for g
  have found: "\<exists>item. (item, g) \<in> set (zip (gc_items ctx) ?gs) \<and> item \<in> set (gc_items ctx)
      \<and> grade_ok ctx item g \<and> ?by (ig_id g) = Some item" if "g \<in> set ?gs" for g
    by (rule item_of_grade [OF ok [THEN conjunct1] ok [THEN conjunct2] that]) (blast dest: set_zip_leftD)
  have "traverse (\<lambda>g. case ?by (ig_id g) of None \<Rightarrow> Inl (UnknownItem (ig_id g))
      | Some item \<Rightarrow> Inr (score_item g item)) ?gs = Inr (map f ?gs)"
    using found by (intro traverse_map) (fastforce simp: f_def)
  then have score: "overall_score (go_bundle out) ctx =
      (if None \<in> set (map f ?gs) then Inr None else if map f ?gs = [] then Inl NothingToAverage
       else Inr (Some (py_round (sum_list (map the (map f ?gs)) / of_nat (length (map f ?gs))) 2)))"
    by (simp add: overall_score_def Let_def)
  have "?gs \<noteq> []" using ok assms(3) by (auto simp: list_all2_conv_all_nth)
  show ?thesis
  proof (cases "None \<in> set (map f ?gs)")
    case True
    then obtain g where g: "g \<in> set ?gs" "f g = None" by auto
    from found [OF g(1)] obtain item where item: "(item, g) \<in> set (zip (gc_items ctx) ?gs)"
      "item \<in> set (gc_items ctx)" "?by (ig_id g) = Some item" by blast
    have "gi_rubric item = []" if "sum_list (map rub_max_points (gi_rubric item)) = 0"
      using rubric_total_pos [of "gi_rubric item"] assms(4) item(2) that by fastforce
    with g(2) item have "ig_review g \<or> gi_rubric item = []"
      by (auto simp: f_def score_item_def Let_def split: if_splits)
    with item(1) have "\<exists>(item, g) \<in> set (zip (gc_items ctx) ?gs). ig_review g \<or> gi_rubric item = []"
      by blast
    moreover have "overall_score (go_bundle out) ctx = Inr None" by (simp only: score True if_True)
    ultimately show ?thesis by simp
  next
    case False
    have each: "0 \<le> the (f g) \<and> the (f g) \<le> 100 \<and> \<not> ig_review g" if "g \<in> set ?gs" for g
    proof -
      from found [OF that] obtain item where item: "item \<in> set (gc_items ctx)" "grade_ok ctx item g"
        "?by (ig_id g) = Some item" by blast
      from False that obtain v where v: "f g = Some v" by force
      then have "0 \<le> v \<and> v \<le> 100"
        using score_bounds [OF item(2)] assms(4) item outcome_typed [OF assms(1,2) that]
        by (force simp: f_def typed_grade_def)
      with v show ?thesis by (auto simp: f_def score_item_def Let_def split: if_splits)
    qed
    have "0 \<le> sum_list (map the (map f ?gs)) / of_nat (length (map f ?gs))
      \<and> sum_list (map the (map f ?gs)) / of_nat (length (map f ?gs)) \<le> 100"
      using mean_bounds [of "map the (map f ?gs)" 100] \<open>?gs \<noteq> []\<close> each by simp
    then have "0 \<le> py_round (sum_list (map the (map f ?gs)) / of_nat (length (map f ?gs))) 2
      \<and> py_round (sum_list (map the (map f ?gs)) / of_nat (length (map f ?gs))) 2 \<le> 100"
      using py_round_nonneg py_round_le_numeral by blast
    moreover have "overall_score (go_bundle out) ctx
      = Inr (Some (py_round (sum_list (map the (map f ?gs)) / of_nat (length (map f ?gs))) 2))"
      using False \<open>?gs \<noteq> []\<close> unfolding score by simp
    ultimately show ?thesis using each by simp
  qed
qed

lemma overall_score_returns:
  assumes "grade_assessment u choice client ctx = Inr out" "typed_client client" "gc_items ctx \<noteq> []"
    "\<forall>item \<in> set (gc_items ctx). \<forall>c \<in> set (gi_rubric item). 1 \<le> rub_max_points c"
  shows "\<exists>v. overall_score (go_bundle out) ctx = Inr v"
  using overall_score_cases [OF assms] by blast

text \<open>The overall score of a published bundle always exists as a value: either a number from 0 to
  100, when no grade waits for a human review, or none.\<close>

theorem overall_score_bounded:
  assumes "grade_assessment u choice client ctx = Inr out" "typed_client client" "gc_items ctx \<noteq> []"
    "\<forall>item \<in> set (gc_items ctx). \<forall>c \<in> set (gi_rubric item). 1 \<le> rub_max_points c"
  shows "\<exists>v. overall_score (go_bundle out) ctx = Inr v
    \<and> (case v of
         Some s \<Rightarrow> 0 \<le> s \<and> s \<le> 100 \<and> (\<forall>g \<in> set (gb_items (go_bundle out)). \<not> ig_review g)
       | None \<Rightarrow> (\<exists>(item, g) \<in> set (zip (gc_items ctx) (gb_items (go_bundle out))).
                    ig_review g \<or> gi_rubric item = []))"
  using overall_score_cases [OF assms] .

text \<open>C21. A learner who capitalises a signal word cannot be graded: the deterministic grader quotes the
  folded signal, its own validator looks for that quote in the answer as written, and the service
  runs it first whatever the remote grader would have replied.\<close>

theorem folded_signal_refused:
  assumes "item \<in> set (gc_items ctx)" "is_open ctx item" "c \<in> set (gi_rubric item)"
    "matched_signals u (answer_of ctx (gi_id item)) c = s # ss" "\<not> contains s (answer_of ctx (gi_id item))"
  shows "\<not> is_ok (grade_assessment u choice client ctx)"
proof
  assume "is_ok (grade_assessment u choice client ctx)"
  then obtain out where "grade_assessment u choice client ctx = Inr out" by (auto simp: is_ok_iff)
  then obtain b where b: "deterministic_grade u ctx = Inr b"
    by (cases rule: grade_assessment_cases) auto
  obtain w where "validate_grade_bundle ctx b = Inr w" using deterministic_grade_parts(2) [OF b] by blast
  from validate_bundle_ok [OF this deterministic_ids [OF b]] assms(1)
  obtain g where g: "(item, g) \<in> set (zip (gc_items ctx) (gb_items b))" "grade_ok ctx item g"
    by (auto simp: list_all2_iff) (metis (no_types, lifting) case_prodD in_set_impl_in_set_zip1)
  then have "grade_item u ctx item = Inr g"
    using traverse_Inr_nth [OF deterministic_grade_parts(1) [OF b]] by (auto simp: in_set_zip)
  with assms(2) have "traverse (open_criterion u (answer_of ctx (gi_id item))) (gi_rubric item) = Inr (ig_criteria g)"
    by (auto simp: grade_item_def is_open_def open_grade_def Let_def bind_res_Inr_iff)
  from traverse_Inr_nth [OF this] traverse_Inr_length [OF this] assms(3)
  obtain x where "x \<in> set (ig_criteria g)" "open_criterion u (answer_of ctx (gi_id item)) c = Inr x"
    by (metis in_set_conv_nth)
  moreover from this(2) have "cg_quote x = s"
    by (auto simp: open_criterion_def assms(4) make_criterion_grade_def bind_res_Inr_iff)
  ultimately show False
    using g(2) assms(5) by (auto simp: grade_ok_def criterion_ok_def)
qed

subsection \<open>A graded assessment\<close>

definition sample_rubric :: "rubric_criterion list" where
  "sample_rubric = [\<lparr>rub_id = [1], rub_description = lit ''Consequence'', rub_max_points = 100,
     rub_required_evidence = [], rub_accepted_concepts = [], rub_error_tags = [],
     rub_signals = [lit ''because'']\<rparr>]"

definition sample_question_item :: grading_item where
  "sample_question_item = \<lparr>gi_id = [7], gi_node = [3], gi_type = Explain, gi_prompt = lit ''Why?'', gi_options = [],
     gi_reference = lit ''A reason'', gi_rubric = sample_rubric, gi_difficulty = 2\<rparr>"

definition sample_context :: "string \<Rightarrow> grading_context" where
  "sample_context answer = \<lparr>gc_assessment_id = [1], gc_attempt_id = [2], gc_items = [sample_question_item],
     gc_answers = [([7], lit answer)], gc_hash = []\<rparr>"

abbreviation sample_answered :: grading_context where
  "sample_answered \<equiv> sample_context ''because it fails''"

definition sample_local_bundle :: grade_bundle where
  "sample_local_bundle = (case deterministic_grade ascii_db sample_answered of Inr b \<Rightarrow> b)"

definition sample_remote :: grade_bundle where
  "sample_remote = \<lparr>gb_items = [\<lparr>ig_id = [7], ig_criteria =
      [\<lparr>cg_id = [1], cg_points = 80, cg_quote = lit ''because'', cg_reason = PartiallySatisfied,
        cg_feedback = []\<rparr>], ig_tags = [], ig_confidence = 9 / 10, ig_review = False, ig_feedback = []\<rparr>],
      gb_feedback = lit ''Good.''\<rparr>"

definition sample_client :: grading_client where
  "sample_client c = Inr (Graded sample_remote (lit ''m''))"

lemma sample_typed: "typed_client sample_client"
  by (simp add: typed_client_def typed_grade_def sample_client_def sample_remote_def)

lemma sample_local_graded: "deterministic_grade ascii_db sample_answered = Inr sample_local_bundle"
proof -
  have "is_ok (deterministic_grade ascii_db sample_answered)" by code_simp
  then show ?thesis by (auto simp: sample_local_bundle_def is_ok_iff)
qed

lemma sample_opened: "open_item_ids sample_answered = [[7]]"
proof -
  have "strip (lit ''because it fails'') \<noteq> []" by code_simp
  then show ?thesis
    by (simp add: open_item_ids_def sample_context_def sample_question_item_def is_open_def answer_of_def fromkeys_def)
qed

lemma sample_merged: "merge_grades sample_answered sample_local_bundle sample_remote = sample_remote"
  by (simp add: merge_grades_def Let_def sample_context_def sample_question_item_def sample_remote_def map_add_def)

lemma sample_graded: "grade_assessment ascii_db Hybrid sample_client sample_answered = Inr
    \<lparr>go_bundle = sample_remote, go_modes = dict_update (deterministic_modes sample_answered sample_local_bundle)
       [([7], RemoteStructured)], go_model = Some (lit ''m'')\<rparr>"
proof -
  have "is_ok (validate_grade_bundle sample_answered sample_remote)" by code_simp
  moreover have "map ig_id (gb_items sample_remote) = [[7]]" by (simp add: sample_remote_def)
  ultimately show ?thesis
    by (auto simp: grade_assessment_def sample_local_graded sample_opened sample_client_def sample_merged
        Let_def is_ok_iff)
qed

lemma grading_sound_witness:
  "distinct (map gi_id (gc_items sample_answered))
   \<and> list_all2 (grade_ok sample_answered) (gc_items sample_answered) (gb_items sample_remote)"
  using grading_sound [OF sample_graded] by simp

lemma overall_score_bounded_witness:
  "\<exists>v. overall_score sample_remote sample_answered = Inr v"
proof -
  have "gc_items sample_answered \<noteq> []"
    "\<forall>item \<in> set (gc_items sample_answered). \<forall>c \<in> set (gi_rubric item). 1 \<le> rub_max_points c"
    by (simp_all add: sample_context_def sample_question_item_def sample_rubric_def)
  from overall_score_bounded [OF sample_graded sample_typed this] show ?thesis by auto
qed

lemma folded_signal_refused_witness:
  "\<not> is_ok (grade_assessment ascii_db Hybrid sample_client (sample_context ''Because it fails''))"
proof -
  let ?ctx = "sample_context ''Because it fails''"
  have item: "sample_question_item \<in> set (gc_items ?ctx)" by (simp add: sample_context_def)
  have crit: "hd sample_rubric \<in> set (gi_rubric sample_question_item)" by (simp add: sample_question_item_def sample_rubric_def)
  have "is_open ?ctx sample_question_item" by code_simp
  moreover have "matched_signals ascii_db (answer_of ?ctx (gi_id sample_question_item)) (hd sample_rubric) = lit ''because'' # []"
    by code_simp
  moreover have "\<not> contains (lit ''because'') (answer_of ?ctx (gi_id sample_question_item))" by code_simp
  ultimately show ?thesis by (rule folded_signal_refused [OF item _ crit])
qed

end
