(* ===== verification/Mastery.thy ===== *)
theory Mastery
  imports Assessment_Grading
begin

text \<open>
  Mastery of knowledge nodes: how graded evidence moves the stored scores
  (domain/assessment/mastery_policy.py under src/backend/app). Instants are seconds since the epoch,
  in UTC.
\<close>

subsection \<open>Evidence and stored mastery\<close>

record mastery_evidence =
  me_node :: ustr
  me_item :: ustr
  me_type :: question_type
  me_score :: pyfloat
  me_confidence :: pyfloat
  me_mode :: grading_mode
  me_weight :: pyfloat
  me_eligible :: bool
  me_tags :: "ustr list"
  me_occurred :: int

text \<open>The dictionary stored per node; a field is \<open>None\<close> where the key is missing.\<close>

record stored_mastery =
  sm_score :: "pyfloat option"
  sm_confidence :: "pyfloat option"
  sm_evidence_weight :: "pyfloat option"
  sm_last_evidence :: "int option"

definition no_record :: stored_mastery where
  "no_record = \<lparr>sm_score = None, sm_confidence = None, sm_evidence_weight = None, sm_last_evidence = None\<rparr>"

record mastery_update =
  mu_node :: ustr
  mu_previous_score :: pyfloat
  mu_evidence_score :: "pyfloat option"
  mu_new_score :: pyfloat
  mu_previous_confidence :: pyfloat
  mu_new_confidence :: pyfloat
  mu_accepted :: nat
  mu_rejected :: nat
  mu_total_weight :: pyfloat
  mu_eligible :: bool
  mu_previous_weight :: pyfloat
  mu_decay :: "pyfloat option"
  mu_reason :: string

fun question_type_weight :: "question_type \<Rightarrow> pyfloat" where
  "question_type_weight Choice = 65 / 100"
| "question_type_weight Explain = 90 / 100"
| "question_type_weight CodeReading = 1"
| "question_type_weight Scenario = 110 / 100"

fun grading_mode_weight :: "grading_mode \<Rightarrow> pyfloat" where
  "grading_mode_weight DeterministicExact = 1"
| "grading_mode_weight RemoteStructured = 1"
| "grading_mode_weight DeterministicFallback = 40 / 100"
| "grading_mode_weight ManualReview = 0"

definition evidence_weight :: "mastery_evidence \<Rightarrow> pyfloat" where
  "evidence_weight e = question_type_weight (me_type e) * grading_mode_weight (me_mode e) * me_confidence e"

definition accepted :: "mastery_evidence \<Rightarrow> bool" where
  "accepted e \<longleftrightarrow> me_eligible e \<and> 0 < evidence_weight e"

definition decay_of :: "int option \<Rightarrow> int \<Rightarrow> pyfloat" where
  "decay_of since now =
     (case since of None \<Rightarrow> 0
      | Some t \<Rightarrow> min 5 (of_int (max 0 (max 0 ((now - t) div 86400) - 14)) * (15 / 100)))"

definition default_to :: "'a \<Rightarrow> 'a option \<Rightarrow> 'a" where
  "default_to d v = (case v of None \<Rightarrow> d | Some x \<Rightarrow> x)"

subsection \<open>The update of one node\<close>

definition update_node ::
  "pyfloat \<Rightarrow> int \<Rightarrow> ustr \<Rightarrow> stored_mastery \<Rightarrow> mastery_evidence list \<Rightarrow> mastery_update" where
  "update_node auto_min_confidence now node st es =
     (let previous_score = clamp_to 0 100 (default_to 60 (sm_score st));
          previous_confidence = clamp_to 0 1 (default_to (1 / 10) (sm_confidence st));
          prior_weight = max 0 (default_to 0 (sm_evidence_weight st));
          good = filter accepted es;
          rejected = length (filter (\<lambda>e. \<not> accepted e) es);
          weight = sum_list (map evidence_weight good) in
      if good = []
      then \<lparr>mu_node = node, mu_previous_score = previous_score, mu_evidence_score = None,
            mu_new_score = previous_score, mu_previous_confidence = previous_confidence,
            mu_new_confidence = previous_confidence, mu_accepted = 0, mu_rejected = rejected,
            mu_total_weight = 0, mu_eligible = False, mu_previous_weight = prior_weight,
            mu_decay = None, mu_reason = ''no_reliable_evidence''\<rparr>
      else
        (let evidence_score = sum_list (map (\<lambda>e. me_score e * evidence_weight e) good) / weight;
             alpha = min (45 / 100) (weight / (4 + weight));
             decay = decay_of (sm_last_evidence st) now;
             new_score = clamp_to 0 100 (previous_score + alpha * (evidence_score - previous_score) - decay);
             new_confidence = clamp_to (1 / 10) (98 / 100) (1 - exp (- (prior_weight + weight) / 6));
             requires_review = list_ex (\<lambda>e. me_mode e = ManualReview) es;
             eligible = (1 \<le> weight \<and> auto_min_confidence \<le> new_confidence \<and> \<not> requires_review)
         in \<lparr>mu_node = node, mu_previous_score = py_round previous_score 2,
             mu_evidence_score = Some (py_round evidence_score 2), mu_new_score = py_round new_score 2,
             mu_previous_confidence = py_round previous_confidence 4,
             mu_new_confidence = py_round new_confidence 4, mu_accepted = length good,
             mu_rejected = rejected, mu_total_weight = py_round weight 4, mu_eligible = eligible,
             mu_previous_weight = prior_weight, mu_decay = Some (py_round decay 2),
             mu_reason = (if eligible then ''reliable_evidence_accepted''
                          else ''insufficient_reliable_evidence'')\<rparr>))"

definition mastery_nodes :: "(ustr, stored_mastery) dict \<Rightarrow> mastery_evidence list \<Rightarrow> ustr list" where
  "mastery_nodes previous evidence = sort (fromkeys (dict_keys previous @ map me_node evidence))"

definition calculate_mastery_updates ::
  "pyfloat \<Rightarrow> int \<Rightarrow> (ustr, stored_mastery) dict \<Rightarrow> mastery_evidence list \<Rightarrow> mastery_update list" where
  "calculate_mastery_updates auto_min_confidence now previous evidence =
     map (\<lambda>node. update_node auto_min_confidence now node
            (default_to no_record (map_of previous node)) (filter (\<lambda>e. me_node e = node) evidence))
       (mastery_nodes previous evidence)"

text \<open>The field constraints of \<open>MasteryUpdateV2\<close>.\<close>

definition valid_update :: "mastery_update \<Rightarrow> bool" where
  "valid_update m \<longleftrightarrow> 0 \<le> mu_previous_score m \<and> mu_previous_score m \<le> 100
     \<and> (case mu_evidence_score m of None \<Rightarrow> True | Some s \<Rightarrow> 0 \<le> s \<and> s \<le> 100)
     \<and> 0 \<le> mu_new_score m \<and> mu_new_score m \<le> 100
     \<and> 0 \<le> mu_previous_confidence m \<and> mu_previous_confidence m \<le> 1
     \<and> 0 \<le> mu_new_confidence m \<and> mu_new_confidence m \<le> 1 \<and> 0 \<le> mu_total_weight m"

text \<open>The field constraints of \<open>MasteryEvidenceV2\<close>.\<close>

definition valid_evidence :: "mastery_evidence \<Rightarrow> bool" where
  "valid_evidence e \<longleftrightarrow> 0 \<le> me_score e \<and> me_score e \<le> 100 \<and> 0 \<le> me_confidence e \<and> me_confidence e \<le> 1"

subsection \<open>Bounds\<close>

lemma evidence_weight_nonneg: "valid_evidence e \<Longrightarrow> 0 \<le> evidence_weight e"
  unfolding evidence_weight_def valid_evidence_def
  by (cases "me_type e"; cases "me_mode e") simp_all

lemma weighted_mean_bounds:
  assumes "\<And>x. x \<in> set xs \<Longrightarrow> 0 \<le> f x \<and> f x \<le> (b::real) \<and> 0 < w x" "xs \<noteq> []"
  shows "0 < sum_list (map w xs)"
    "0 \<le> sum_list (map (\<lambda>x. f x * w x) xs) / sum_list (map w xs)"
    "sum_list (map (\<lambda>x. f x * w x) xs) / sum_list (map w xs) \<le> b"
proof -
  have sums: "0 \<le> sum_list (map (\<lambda>x. f x * w x) xs) \<and> sum_list (map (\<lambda>x. f x * w x) xs) \<le> b * sum_list (map w xs)"
    using assms(1)
  proof (induction xs)
    case (Cons x xs)
    have "0 \<le> f x" "f x \<le> b" "0 < w x" using Cons.prems [of x] by simp_all
    then have "0 \<le> f x * w x" "f x * w x \<le> b * w x" by (simp_all add: mult_right_mono)
    moreover have "0 \<le> sum_list (map (\<lambda>x. f x * w x) xs) \<and> sum_list (map (\<lambda>x. f x * w x) xs) \<le> b * sum_list (map w xs)"
      using Cons by simp
    ultimately show ?case by (simp add: distrib_left)
  qed simp
  show pos: "0 < sum_list (map w xs)"
  proof (cases xs)
    case (Cons x ys)
    have "0 \<le> sum_list (map w ys)"
      using assms(1) Cons by (intro sum_list_nonneg) (auto simp: less_imp_le)
    with assms(1) Cons show ?thesis by (simp add: add_pos_nonneg)
  qed (use assms(2) in simp)
  show "0 \<le> sum_list (map (\<lambda>x. f x * w x) xs) / sum_list (map w xs)" using sums pos by simp
  show "sum_list (map (\<lambda>x. f x * w x) xs) / sum_list (map w xs) \<le> b" using sums pos by (simp add: divide_le_eq)
qed

lemma decay_bounds: "0 \<le> decay_of l now \<and> decay_of l now \<le> 5"
  by (auto simp: decay_of_def split: option.splits)

lemma round_unit: "0 \<le> x \<Longrightarrow> x \<le> 1 \<Longrightarrow> 0 \<le> py_round x n \<and> py_round x n \<le> 1"
  by (simp add: py_round_nonneg py_round_le_1)

lemma round_percent: "0 \<le> x \<Longrightarrow> x \<le> 100 \<Longrightarrow> 0 \<le> py_round x n \<and> py_round x n \<le> 100"
  by (simp add: py_round_nonneg py_round_le_numeral)

text \<open>What an update with accepted evidence computes before it rounds.\<close>

lemma update_node_moves:
  assumes valid: "\<forall>e \<in> set es. valid_evidence e" and good: "filter accepted es \<noteq> []"
  obtains p s c w where "0 \<le> p" "p \<le> 100" "0 \<le> s" "s \<le> 100" "0 < w" "1 / 10 \<le> c" "c \<le> 1"
    "mu_previous_score (update_node a now node st es) = py_round p 2"
    "mu_evidence_score (update_node a now node st es) = Some (py_round s 2)"
    "mu_new_score (update_node a now node st es)
      = py_round (clamp_to 0 100 (p + min (45 / 100) (w / (4 + w)) * (s - p) - decay_of (sm_last_evidence st) now)) 2"
    "mu_new_confidence (update_node a now node st es) = py_round c 4"
    "mu_total_weight (update_node a now node st es) = py_round w 4"
    "mu_eligible (update_node a now node st es) \<longleftrightarrow> 1 \<le> w \<and> a \<le> c \<and> (\<forall>e \<in> set es. me_mode e \<noteq> ManualReview)"
    "w = sum_list (map evidence_weight (filter accepted es))"
proof -
  let ?g = "filter accepted es"
  let ?w = "sum_list (map evidence_weight ?g)"
  let ?s = "sum_list (map (\<lambda>e. me_score e * evidence_weight e) ?g) / ?w"
  let ?c = "clamp_to (1 / 10) (98 / 100) (1 - exp (- (max 0 (default_to 0 (sm_evidence_weight st)) + ?w) / 6))"
  let ?p = "clamp_to 0 100 (default_to 60 (sm_score st))"
  have each: "0 \<le> me_score e \<and> me_score e \<le> 100 \<and> 0 < evidence_weight e" if "e \<in> set ?g" for e
    using that valid by (auto simp: accepted_def valid_evidence_def)
  note mean = weighted_mean_bounds [of ?g me_score 100 evidence_weight, OF each good]
  have c: "1 / 10 \<le> ?c" "?c \<le> 1" by (simp_all add: clamp_to_def)
  have p: "0 \<le> ?p" "?p \<le> 100" using clamp_to_bounds [of "0::real" 100] by simp_all
  show ?thesis
    by (rule that [of ?p ?s ?w ?c]) (use good mean c p in \<open>simp_all add: update_node_def Let_def list_all_iff list_ex_iff\<close>)
qed

lemma update_node_keeps:
  assumes "filter accepted es = []"
  shows "mu_new_score (update_node a now node st es) = mu_previous_score (update_node a now node st es)"
    "mu_new_confidence (update_node a now node st es) = mu_previous_confidence (update_node a now node st es)"
    "\<not> mu_eligible (update_node a now node st es)" "mu_evidence_score (update_node a now node st es) = None"
    "mu_accepted (update_node a now node st es) = 0"
  using assms by (simp_all add: update_node_def Let_def)

lemma update_node_valid:
  assumes "\<forall>e \<in> set es. valid_evidence e"
  shows "valid_update (update_node a now node st es)"
proof (cases "filter accepted es = []")
  case True
  have "0 \<le> clamp_to 0 100 x \<and> clamp_to 0 100 x \<le> (100::real)" "0 \<le> clamp_to 0 1 x \<and> clamp_to 0 1 x \<le> (1::real)" for x
    using clamp_to_bounds [of "0::real"] by simp_all
  with True show ?thesis by (simp add: valid_update_def update_node_def Let_def)
next
  case False
  have prev: "0 \<le> mu_previous_confidence (update_node a now node st es) \<and> mu_previous_confidence (update_node a now node st es) \<le> 1"
    using False clamp_to_bounds [of "0::real" 1] by (simp add: update_node_def Let_def round_unit)
  from assms False show ?thesis
  proof (rule update_node_moves [of es a now node st])
    fix p s c w :: real
    assume facts: "0 \<le> p" "p \<le> 100" "0 \<le> s" "s \<le> 100" "0 < w" "1 / 10 \<le> c" "c \<le> 1"
      "mu_previous_score (update_node a now node st es) = py_round p 2"
      "mu_evidence_score (update_node a now node st es) = Some (py_round s 2)"
      "mu_new_score (update_node a now node st es)
        = py_round (clamp_to 0 100 (p + min (45 / 100) (w / (4 + w)) * (s - p) - decay_of (sm_last_evidence st) now)) 2"
      "mu_new_confidence (update_node a now node st es) = py_round c 4"
      "mu_total_weight (update_node a now node st es) = py_round w 4"
    have "0 \<le> clamp_to 0 100 x \<and> clamp_to 0 100 x \<le> (100::real)" for x
      using clamp_to_bounds [of "0::real"] by simp
    then show ?thesis
      using prev facts by (simp add: valid_update_def round_percent round_unit py_round_nonneg)
  qed
qed

lemma move_bounds:
  fixes p s w d :: real
  assumes "0 \<le> p" "p \<le> 100" "0 \<le> s" "s \<le> 100" "0 < w" "0 \<le> d"
  shows "clamp_to 0 100 (p + min (45 / 100) (w / (4 + w)) * (s - p) - d) \<le> max p s"
    "d = 0 \<Longrightarrow> min p s \<le> clamp_to 0 100 (p + min (45 / 100) (w / (4 + w)) * (s - p) - d)"
proof -
  let ?a = "min (45 / 100) (w / (4 + w))"
  have a: "0 \<le> ?a" "?a \<le> 1" using assms(5) by simp_all
  then have "?a * (s - p) \<le> max 0 (s - p)" "min 0 (s - p) \<le> ?a * (s - p)"
    by (cases "p \<le> s"; simp add: mult_left_le_one_le mult_nonneg_nonpos mult_le_cancel_right1)+
  then have "p + ?a * (s - p) - d \<le> max p s" "d = 0 \<Longrightarrow> min p s \<le> p + ?a * (s - p) - d"
    using assms(6) by linarith+
  then show "clamp_to 0 100 (p + ?a * (s - p) - d) \<le> max p s"
    "d = 0 \<Longrightarrow> min p s \<le> clamp_to 0 100 (p + ?a * (s - p) - d)"
    using assms(1-4) unfolding clamp_to_def by linarith+
qed

subsection \<open>All updates of an attempt\<close>

lemma mu_node_update [simp]: "mu_node (update_node a now node st es) = node"
  by (simp add: update_node_def Let_def)

lemma map_mu_node [simp]: "map mu_node (calculate_mastery_updates a now previous evidence) = mastery_nodes previous evidence"
  by (simp add: calculate_mastery_updates_def comp_def)

lemma set_mastery_nodes: "set (mastery_nodes previous evidence) = fst ` set previous \<union> me_node ` set evidence"
  by (auto simp: mastery_nodes_def dict_keys_def)

lemma update_member:
  "m \<in> set (calculate_mastery_updates a now previous evidence) \<longleftrightarrow>
     mu_node m \<in> set (mastery_nodes previous evidence)
     \<and> m = update_node a now (mu_node m) (default_to no_record (map_of previous (mu_node m)))
             (filter (\<lambda>e. me_node e = mu_node m) evidence)"
  by (auto simp: calculate_mastery_updates_def)

lemma update_node_eligible:
  "mu_eligible (update_node a now node st es) \<Longrightarrow>
     filter accepted es \<noteq> [] \<and> (\<forall>e \<in> set es. me_mode e \<noteq> ManualReview)"
  by (auto simp: update_node_def Let_def list_ex_iff split: if_splits)

lemma update_eligible_node:
  assumes "m \<in> set (calculate_mastery_updates a now previous evidence)" "mu_eligible m"
  shows "mu_node m \<in> me_node ` set evidence"
proof -
  from assms(1) have "m = update_node a now (mu_node m) (default_to no_record (map_of previous (mu_node m)))
      (filter (\<lambda>e. me_node e = mu_node m) evidence)" by (simp add: update_member)
  with assms(2) have "filter accepted (filter (\<lambda>e. me_node e = mu_node m) evidence) \<noteq> []"
    using update_node_eligible by metis
  then show ?thesis by (auto simp: filter_empty_conv intro: rev_image_eqI)
qed

lemma update_node_accepted:
  assumes "filter accepted es = filter accepted fs"
  shows "mu_new_score (update_node a now node st es) = mu_new_score (update_node a now node st fs)"
    "mu_new_confidence (update_node a now node st es) = mu_new_confidence (update_node a now node st fs)"
  by (simp_all add: update_node_def Let_def assms)

lemma updates_sound:
  assumes "\<forall>e \<in> set evidence. valid_evidence e"
  shows "sorted (map mu_node (calculate_mastery_updates a now previous evidence))
    \<and> distinct (map mu_node (calculate_mastery_updates a now previous evidence))
    \<and> mu_node ` set (calculate_mastery_updates a now previous evidence) = fst ` set previous \<union> me_node ` set evidence
    \<and> (\<forall>m \<in> set (calculate_mastery_updates a now previous evidence). valid_update m
        \<and> (case mu_evidence_score m of None \<Rightarrow> mu_new_score m = mu_previous_score m
           | Some s \<Rightarrow> mu_new_score m \<le> max (mu_previous_score m) s)
        \<and> (mu_eligible m \<longrightarrow> (\<exists>e \<in> set evidence. me_node e = mu_node m \<and> accepted e)
             \<and> (\<forall>e \<in> set evidence. me_node e = mu_node m \<longrightarrow> me_mode e \<noteq> ManualReview)))"
proof (intro conjI ballI)
  show "sorted (map mu_node (calculate_mastery_updates a now previous evidence))"
    "distinct (map mu_node (calculate_mastery_updates a now previous evidence))"
    by (simp_all add: mastery_nodes_def)
  show "mu_node ` set (calculate_mastery_updates a now previous evidence) = fst ` set previous \<union> me_node ` set evidence"
    by (metis list.set_map map_mu_node set_mastery_nodes)
next
  fix m assume "m \<in> set (calculate_mastery_updates a now previous evidence)"
  then have m: "m = update_node a now (mu_node m) (default_to no_record (map_of previous (mu_node m)))
             (filter (\<lambda>e. me_node e = mu_node m) evidence)" (is "_ = update_node a now ?n ?st ?es")
    by (simp add: update_member)
  have valid: "\<forall>e \<in> set ?es. valid_evidence e" using assms by simp
  show "valid_update m" by (subst m) (rule update_node_valid [OF valid])
  show "case mu_evidence_score m of None \<Rightarrow> mu_new_score m = mu_previous_score m
      | Some s \<Rightarrow> mu_new_score m \<le> max (mu_previous_score m) s"
  proof (cases "filter accepted ?es = []")
    case True
    from update_node_keeps [OF True, of a now ?n ?st, folded m] show ?thesis by simp
  next
    case False
    show ?thesis
    proof (rule update_node_moves [OF valid False, of a now ?n ?st, folded m])
      fix p s c w :: real
      let ?d = "decay_of (sm_last_evidence ?st) now"
      assume facts: "0 \<le> p" "p \<le> 100" "0 \<le> s" "s \<le> 100" "0 < w"
        "mu_previous_score m = py_round p 2" "mu_evidence_score m = Some (py_round s 2)"
        "mu_new_score m = py_round (clamp_to 0 100 (p + min (45 / 100) (w / (4 + w)) * (s - p) - ?d)) 2"
      have "mu_new_score m \<le> py_round (max p s) 2"
        unfolding facts by (intro py_round_mono move_bounds(1) facts) (simp add: decay_bounds)
      also have "\<dots> \<le> max (py_round p 2) (py_round s 2)" by (simp add: max_def)
      finally show ?thesis by (simp add: facts)
    qed
  qed
  show "mu_eligible m \<longrightarrow> (\<exists>e \<in> set evidence. me_node e = mu_node m \<and> accepted e)
             \<and> (\<forall>e \<in> set evidence. me_node e = mu_node m \<longrightarrow> me_mode e \<noteq> ManualReview)"
    using update_node_eligible [of a now ?n ?st ?es, folded m] by (fastforce simp: filter_empty_conv)
qed

text \<open>C22. Every node with stored mastery or new evidence gets one update, in order, and every update is
  valid. A score moves only on accepted evidence and never past it, and an update may adjust the
  plan only if evidence for its node was accepted and none of it waits for a review.\<close>

theorem mastery_updates_sound:
  assumes "\<forall>e \<in> set evidence. valid_evidence e"
  shows "sorted (map mu_node (calculate_mastery_updates a now previous evidence))
    \<and> distinct (map mu_node (calculate_mastery_updates a now previous evidence))
    \<and> mu_node ` set (calculate_mastery_updates a now previous evidence) = fst ` set previous \<union> me_node ` set evidence
    \<and> (\<forall>m \<in> set (calculate_mastery_updates a now previous evidence). valid_update m
        \<and> (case mu_evidence_score m of None \<Rightarrow> mu_new_score m = mu_previous_score m
           | Some s \<Rightarrow> mu_new_score m \<le> max (mu_previous_score m) s)
        \<and> (mu_eligible m \<longrightarrow> (\<exists>e \<in> set evidence. me_node e = mu_node m \<and> accepted e)
             \<and> (\<forall>e \<in> set evidence. me_node e = mu_node m \<longrightarrow> me_mode e \<noteq> ManualReview)))"
  using updates_sound [OF assms] .

text \<open>Rejected evidence has no influence on scores: two attempts with the same accepted evidence move
  a node to the same score and confidence.\<close>

theorem mastery_ignores_rejected:
  assumes "filter accepted evidence = filter accepted evidence'"
    "m \<in> set (calculate_mastery_updates a now previous evidence)"
    "m' \<in> set (calculate_mastery_updates a now previous evidence')" "mu_node m = mu_node m'"
  shows "mu_new_score m = mu_new_score m' \<and> mu_new_confidence m = mu_new_confidence m'"
proof -
  let ?f = "\<lambda>es. filter (\<lambda>e. me_node e = mu_node m) es"
  have "filter accepted (?f evidence) = filter accepted (?f evidence')"
    using arg_cong [OF assms(1), of ?f] by (simp add: conj_commute)
  from update_node_accepted [OF this] assms(2-4) show ?thesis
    unfolding update_member by metis
qed

definition sample_evidence :: mastery_evidence where
  "sample_evidence = \<lparr>me_node = [3], me_item = [7], me_type = Explain, me_score = 80, me_confidence = 9 / 10,
     me_mode = RemoteStructured, me_weight = 81 / 100, me_eligible = True, me_tags = [], me_occurred = 0\<rparr>"

lemma mastery_updates_sound_witness:
  "mu_node ` set (calculate_mastery_updates (65 / 100) 0 [([2], no_record)] [sample_evidence]) = {[2], [3]}"
proof -
  have "\<forall>e \<in> set [sample_evidence]. valid_evidence e" by (simp add: valid_evidence_def sample_evidence_def)
  from mastery_updates_sound [OF this, of "65 / 100" 0 "[([2], no_record)]"]
  show ?thesis by (auto simp: sample_evidence_def)
qed

lemma mastery_ignores_rejected_witness:
  "mu_new_score (update_node (65 / 100) 0 [3] no_record [sample_evidence])
   = mu_new_score (update_node (65 / 100) 0 [3] no_record [sample_evidence, sample_evidence\<lparr>me_eligible := False\<rparr>])"
proof -
  let ?E = "[sample_evidence]" and ?F = "[sample_evidence, sample_evidence\<lparr>me_eligible := False\<rparr>]"
  have node: "me_node sample_evidence = [3]" by (simp add: sample_evidence_def)
  have same: "filter accepted ?E = filter accepted ?F" by (simp add: accepted_def)
  have "update_node (65 / 100) 0 [3] no_record ?E \<in> set (calculate_mastery_updates (65 / 100) 0 [] ?E)"
    by (simp add: update_member set_mastery_nodes node default_to_def)
  moreover have "update_node (65 / 100) 0 [3] no_record ?F \<in> set (calculate_mastery_updates (65 / 100) 0 [] ?F)"
    by (simp add: update_member set_mastery_nodes node default_to_def)
  ultimately show ?thesis by (rule mastery_ignores_rejected [OF same, THEN conjunct1]) simp
qed

end
