(* ===== verification/Assessment_Workflow.thy ===== *)
theory Assessment_Workflow
  imports Mastery
begin

text \<open>
  From a graded assessment to a proposed change of the study plan: the observer policy, the plan
  policy (domain/assessment/observer_policy.py and plan_policy.py under src/backend/app), the part
  of \<open>_finalize_submission\<close> that computes (application/assessment_workflow_service.py; its database
  writes are left out), and the workflow graph that runs generation, grading and submission over
  ports (adaptive_tutor/phase2/assessment_v2.py).
\<close>

subsection \<open>Observer policy\<close>

record observer_signals =
  os_phase_status :: "ustr option"
  os_readiness :: "pyfloat option"
  os_mastery_score :: "pyfloat option"
  os_mastery_confidence :: pyfloat
  os_completion_rate :: "pyfloat option"
  os_recent_tasks :: nat
  os_low_prerequisites :: nat
  os_valid_sessions :: nat
  os_misconceptions :: "ustr list"
  os_needs_review :: bool
  os_reliable :: bool
  os_adjustable :: bool

datatype plan_decision = KeepPlan | ReducePlan | RemediatePlan | AdvancePlan | ManualReviewPlan

record observer_decision =
  od_decision :: plan_decision
  od_automation :: bool
  od_confidence :: pyfloat
  od_evidence :: observer_signals
  od_reasons :: "string list"
  od_rationale :: string

text \<open>\<open>x or d\<close> on an optional number: zero is falsy.\<close>

definition or_number :: "pyfloat option \<Rightarrow> pyfloat \<Rightarrow> pyfloat" where
  "or_number x d = (case x of None \<Rightarrow> d | Some v \<Rightarrow> if v = 0 then d else v)"

definition make_decision ::
  "observer_signals \<Rightarrow> plan_decision \<Rightarrow> bool \<Rightarrow> string list \<Rightarrow> string \<Rightarrow> observer_decision" where
  "make_decision s d automation codes rationale =
     \<lparr>od_decision = d, od_automation = automation, od_confidence = os_mastery_confidence s,
      od_evidence = s, od_reasons = codes, od_rationale = rationale\<rparr>"

definition decide_observer :: "observer_signals \<Rightarrow> observer_decision" where
  "decide_observer s =
     (let graded = (os_phase_status s = Some (lit ''graded'')) in
      if os_needs_review s \<or> \<not> os_reliable s \<or> \<not> os_adjustable s
      then make_decision s ManualReviewPlan False [''insufficient_reliable_evidence'']
             ''Reliable evidence is not sufficient for an automatic plan change.''
      else if (case os_mastery_score s of None \<Rightarrow> False | Some m \<Rightarrow> m < 60)
              \<or> os_misconceptions s \<noteq> []
              \<or> graded \<and> or_number (os_readiness s) 0 < 70 \<and> 65 / 100 \<le> os_mastery_confidence s
      then make_decision s RemediatePlan True [''mastery_gap'']
             ''Add targeted review work before progressing.''
      else if graded \<and> 80 \<le> or_number (os_readiness s) 0 \<and> 75 / 100 \<le> os_mastery_confidence s
              \<and> 85 / 100 \<le> or_number (os_completion_rate s) 0 \<and> os_low_prerequisites s = 0
              \<and> 2 \<le> os_valid_sessions s
      then make_decision s AdvancePlan True [''phase_gate_satisfied'']
             ''Reliable assessment evidence supports advancing to the next learning step.''
      else if 5 \<le> os_recent_tasks s \<and> or_number (os_completion_rate s) 1 < 60 / 100
      then make_decision s ReducePlan True [''sustained_low_completion'']
             ''Recent completion data supports reducing planned workload.''
      else make_decision s KeepPlan False [''no_change_required'']
             ''The current plan remains appropriate for the available evidence.'')"

subsection \<open>Plan policy\<close>

record plan_proposal =
  pp_decision :: plan_decision
  pp_automation :: bool
  pp_patch :: metadata
  pp_summary :: metadata
  pp_rationale :: metadata

fun decision_value :: "plan_decision \<Rightarrow> string" where
  "decision_value KeepPlan = ''keep''"
| "decision_value ReducePlan = ''reduce''"
| "decision_value RemediatePlan = ''remediate''"
| "decision_value AdvancePlan = ''advance''"
| "decision_value ManualReviewPlan = ''manual_review''"

fun plan_patch :: "plan_decision \<Rightarrow> metadata" where
  "plan_patch ReducePlan = [(lit ''load_multiplier'', JFloat (8 / 10)), (lit ''defer_nonessential'', JBool True)]"
| "plan_patch RemediatePlan = [(lit ''insert_review'', JBool True), (lit ''review_task_count'', JInt 2)]"
| "plan_patch AdvancePlan = [(lit ''unlock_next_nodes'', JBool True), (lit ''increase_difficulty'', JInt 1)]"
| "plan_patch _ = [(lit ''no_change'', JBool True)]"

definition summary_entries :: "plan_decision \<Rightarrow> (string \<times> string) list \<Rightarrow> string option \<Rightarrow> metadata" where
  "summary_entries d changes summary =
     [(lit ''decision'', JStr (lit (decision_value d))),
      (lit ''changes'', JList (map (\<lambda>(t, l). JDict [(lit ''type'', JStr (lit t)), (lit ''label'', JStr (lit l))]) changes))]
     @ (case summary of None \<Rightarrow> [] | Some t \<Rightarrow> [(lit ''summary'', JStr (lit t))])"

fun change_summary :: "plan_decision \<Rightarrow> metadata" where
  "change_summary KeepPlan = summary_entries KeepPlan [] (Some ''Keep the current plan.'')"
| "change_summary ManualReviewPlan = summary_entries ManualReviewPlan []
     (Some ''Review the assessment evidence before changing the plan.'')"
| "change_summary ReducePlan = summary_entries ReducePlan [(''load'', ''Reduce future workload'')] None"
| "change_summary RemediatePlan = summary_entries RemediatePlan [(''review'', ''Add targeted review work'')] None"
| "change_summary AdvancePlan = summary_entries AdvancePlan [(''progression'', ''Unlock the next learning node'')] None"

definition build_plan_proposal :: "observer_decision \<Rightarrow> plan_proposal" where
  "build_plan_proposal d =
     \<lparr>pp_decision = od_decision d, pp_automation = od_automation d, pp_patch = plan_patch (od_decision d),
      pp_summary = change_summary (od_decision d),
      pp_rationale = [(lit ''decision'', JStr (lit (decision_value (od_decision d)))),
        (lit ''rationale'', JStr (lit (od_rationale d))),
        (lit ''reason_codes'', JList (map (\<lambda>c. JStr (lit c)) (od_reasons d)))]\<rparr>"

subsection \<open>Finalising a submission\<close>

text \<open>The stored state of a phase assessment, as it is before the submission updates it.\<close>

record phase_state =
  ps_status :: ustr
  ps_readiness :: "pyfloat option"

definition lookup_res :: "'k \<Rightarrow> 'e \<Rightarrow> ('k, 'v) dict \<Rightarrow> 'e + 'v" where
  "lookup_res k e d = (case map_of d k of None \<Rightarrow> Inl e | Some v \<Rightarrow> Inr v)"

definition build_evidence ::
  "int \<Rightarrow> grading_context \<Rightarrow> grading_outcome \<Rightarrow> (ustr, pyfloat option) dict
     \<Rightarrow> grading_error + mastery_evidence list" where
  "build_evidence now ctx out scores =
     traverse (\<lambda>item.
       bind_res (case find (\<lambda>g. ig_id g = gi_id item) (gb_items (go_bundle out)) of
                   None \<Rightarrow> Inl (UnknownItem (gi_id item)) | Some g \<Rightarrow> Inr g) (\<lambda>g.
       bind_res (lookup_res (gi_id item) (UnknownItem (gi_id item)) (go_modes out)) (\<lambda>mode.
       bind_res (lookup_res (gi_id item) (UnknownItem (gi_id item)) scores) (\<lambda>score.
         Inr \<lparr>me_node = gi_node item, me_item = gi_id item, me_type = gi_type item,
              me_score = default_to 0 score, me_confidence = ig_confidence g, me_mode = mode,
              me_weight = question_type_weight (gi_type item) * grading_mode_weight mode * ig_confidence g,
              me_eligible = (score \<noteq> None \<and> \<not> ig_review g), me_tags = ig_tags g,
              me_occurred = now\<rparr>))))
       (gc_items ctx)"

definition min_default :: "pyfloat \<Rightarrow> pyfloat list \<Rightarrow> pyfloat" where
  "min_default d xs = (case xs of [] \<Rightarrow> d | x # ys \<Rightarrow> min_by id x ys)"

text \<open>\<open>_observer_decision\<close>: at most seven plan tasks are read, of which the statuses matter.\<close>

definition submission_signals ::
  "mastery_update list \<Rightarrow> bool \<Rightarrow> phase_state option \<Rightarrow> ustr list \<Rightarrow> observer_signals" where
  "submission_signals updates needs_review phase tasks =
     (let done = filter (\<lambda>t. t = lit ''completed'' \<or> t = lit ''done'') tasks
      in \<lparr>os_phase_status = map_option ps_status phase, os_readiness = Option.bind phase ps_readiness,
          os_mastery_score = (if updates = [] then None else Some (min_default 0 (map mu_new_score updates))),
          os_mastery_confidence = min_default (1 / 10) (map mu_new_confidence updates),
          os_completion_rate = (if tasks = [] then None else Some (of_nat (length done) / of_nat (length tasks))),
          os_recent_tasks = length tasks, os_low_prerequisites = 0, os_valid_sessions = 1,
          os_misconceptions = [], os_needs_review = needs_review,
          os_reliable = list_ex (\<lambda>m. 0 < mu_accepted m) updates,
          os_adjustable = (updates \<noteq> [] \<and> list_all mu_eligible updates)\<rparr>)"

record submission_result =
  sr_review_required :: bool
  sr_score :: "pyfloat option"
  sr_updates :: "mastery_update list"
  sr_decision :: observer_decision
  sr_proposal :: plan_proposal
  sr_review_queue :: "ustr list"

definition item_scores_of :: "grading_context \<Rightarrow> grading_outcome \<Rightarrow> grading_error + (ustr, pyfloat option) dict" where
  "item_scores_of ctx out =
     (let grades = dict_of (map (\<lambda>g. (ig_id g, g)) (gb_items (go_bundle out)))
      in traverse (\<lambda>(i, item). bind_res (lookup_res i (UnknownItem i) grades) (\<lambda>g. Inr (i, score_item g item)))
           (dict_of (map (\<lambda>i. (gi_id i, i)) (gc_items ctx))))"

definition finalize_submission ::
  "int \<Rightarrow> grading_context \<Rightarrow> grading_outcome \<Rightarrow> (ustr, stored_mastery) dict \<Rightarrow> phase_state option
     \<Rightarrow> ustr list \<Rightarrow> grading_error + submission_result" where
  "finalize_submission now ctx out previous phase tasks =
     bind_res (item_scores_of ctx out) (\<lambda>scores.
     bind_res (overall_score (go_bundle out) ctx) (\<lambda>score.
     bind_res (build_evidence now ctx out scores) (\<lambda>evidence.
       let needs_review = list_ex ig_review (gb_items (go_bundle out));
           updates = calculate_mastery_updates (65 / 100) now previous evidence;
           decision = decide_observer (submission_signals updates needs_review phase tasks)
       in Inr \<lparr>sr_review_required = needs_review, sr_score = score, sr_updates = updates,
               sr_decision = decision, sr_proposal = build_plan_proposal decision,
               sr_review_queue = map mu_node (filter (\<lambda>m. mu_new_score m < 70) updates)\<rparr>)))"

subsection \<open>A submission always ends in a proposal\<close>

lemma observer_automation:
  "od_automation (decide_observer s) \<longleftrightarrow> od_decision (decide_observer s) \<in> {ReducePlan, RemediatePlan, AdvancePlan}"
  by (simp add: decide_observer_def make_decision_def Let_def)

lemma observer_reliable:
  "od_automation (decide_observer s) \<Longrightarrow> \<not> os_needs_review s \<and> os_reliable s \<and> os_adjustable s"
  by (simp add: decide_observer_def make_decision_def Let_def split: if_splits)

lemma modes_cover:
  assumes "grade_assessment u choice client ctx = Inr out" "item \<in> set (gc_items ctx)"
  shows "\<exists>m. map_of (go_modes out) (gi_id item) = Some m"
proof -
  have dom: "gi_id item \<in> fst ` set (deterministic_modes ctx b)"
    if len: "length (gb_items b) = length (gc_items ctx)" for b
  proof -
    have "fst ` set (zip (gc_items ctx) (gb_items b)) = set (gc_items ctx)"
      using len by (simp flip: list.set_map)
    with assms(2) have "gi_id item \<in> gi_id ` fst ` set (zip (gc_items ctx) (gb_items b))" by simp
    then show ?thesis
      by (simp add: deterministic_modes_def keys_dict_of_set image_image case_prod_unfold)
  qed
  have modes: "map_of (deterministic_modes ctx b) (gi_id item) \<noteq> None" if "deterministic_grade u ctx = Inr b" for b
  proof -
    have "length (gb_items b) = length (gc_items ctx)" using arg_cong [OF deterministic_ids [OF that], of length] by simp
    from dom [OF this] show ?thesis by (simp add: map_of_eq_None_iff)
  qed
  from assms(1) show ?thesis
  proof (cases rule: grade_assessment_cases)
    case (local b)
    then show ?thesis using modes by auto
  next
    case (remote b r model w)
    then show ?thesis using modes [OF remote(1)] by (auto simp: map_add_def split: option.splits)
  qed
qed

lemma published_grade:
  assumes "grade_assessment u choice client ctx = Inr out" "item \<in> set (gc_items ctx)"
  obtains g where "g \<in> set (gb_items (go_bundle out))" "grade_ok ctx item g"
    "map_of (dict_of (map (\<lambda>g. (ig_id g, g)) (gb_items (go_bundle out)))) (gi_id item) = Some g"
    "find (\<lambda>g. ig_id g = gi_id item) (gb_items (go_bundle out)) = Some g"
proof -
  let ?gs = "gb_items (go_bundle out)"
  obtain w where "validate_grade_bundle ctx (go_bundle out) = Inr w"
    using outcome_validated [OF assms(1)] by blast
  note ok = validate_bundle_ok [OF this outcome_ids [OF assms(1)]]
  obtain i where "i < length (gc_items ctx)" "item = gc_items ctx ! i"
    using assms(2) by (auto simp: in_set_conv_nth)
  with ok have "gb_items (go_bundle out) ! i \<in> set ?gs" "grade_ok ctx item (gb_items (go_bundle out) ! i)"
    by (simp_all add: list_all2_conv_all_nth)
  then obtain g where g: "g \<in> set ?gs" "grade_ok ctx item g" by blast
  then have id: "ig_id g = gi_id item" by (simp add: grade_ok_def)
  have dist: "distinct (map ig_id ?gs)" using ok outcome_ids [OF assms(1)] by simp
  then have "map_of (dict_of (map (\<lambda>g. (ig_id g, g)) ?gs)) (gi_id item) = Some g"
    using g(1) by (simp add: dict_of_distinct comp_def map_of_is_SomeI image_iff id [symmetric])
  moreover obtain h where h: "find (\<lambda>g. ig_id g = gi_id item) ?gs = Some h"
    using g(1) id by (cases "find (\<lambda>g. ig_id g = gi_id item) ?gs") (auto simp: find_None_iff)
  moreover have "h = g"
  proof -
    from h have "h \<in> set ?gs" "ig_id h = gi_id item" by (auto simp: find_Some_iff)
    with dist g(1) id show ?thesis by (simp add: distinct_map inj_on_def)
  qed
  ultimately show ?thesis using g that by blast
qed

lemma scores_of_outcome:
  assumes "grade_assessment u choice client ctx = Inr out"
  obtains scores where "item_scores_of ctx out = Inr scores"
    "\<And>item. item \<in> set (gc_items ctx) \<Longrightarrow> \<exists>g \<in> set (gb_items (go_bundle out)). grade_ok ctx item g
       \<and> map_of scores (gi_id item) = Some (score_item g item)"
proof -
  obtain w where "validate_grade_bundle ctx (go_bundle out) = Inr w"
    using outcome_validated [OF assms] by blast
  from validate_bundle_ok [OF this outcome_ids [OF assms]]
  have dist: "distinct (map gi_id (gc_items ctx))" by blast
  let ?G = "map_of (dict_of (map (\<lambda>g. (ig_id g, g)) (gb_items (go_bundle out))))"
  let ?S = "map (\<lambda>item. (gi_id item, score_item (the (?G (gi_id item))) item)) (gc_items ctx)"
  have "traverse (\<lambda>(i, item). bind_res (lookup_res i (UnknownItem i)
           (dict_of (map (\<lambda>g. (ig_id g, g)) (gb_items (go_bundle out))))) (\<lambda>g. Inr (i, score_item g item)))
         (map (\<lambda>i. (gi_id i, i)) (gc_items ctx))
       = Inr (map (\<lambda>(i, item). (i, score_item (the (?G i)) item)) (map (\<lambda>i. (gi_id i, i)) (gc_items ctx)))"
    by (rule traverse_map) (auto simp: lookup_res_def elim: published_grade [OF assms])
  then have scores: "item_scores_of ctx out = Inr ?S"
    using dist by (simp add: item_scores_of_def Let_def dict_of_distinct comp_def)
  show ?thesis
  proof (rule that [OF scores])
    fix item assume item: "item \<in> set (gc_items ctx)"
    obtain g where g: "g \<in> set (gb_items (go_bundle out))" "grade_ok ctx item g" "?G (gi_id item) = Some g"
      by (rule published_grade [OF assms item])
    have "map_of ?S (gi_id item) = Some (score_item g item)"
      using dist item g(3) by (intro map_of_is_SomeI) (auto simp: comp_def image_iff intro: bexI [of _ item])
    with g show "\<exists>g \<in> set (gb_items (go_bundle out)). grade_ok ctx item g \<and> map_of ?S (gi_id item) = Some (score_item g item)"
      by blast
  qed
qed

lemma evidence_of_outcome:
  assumes run: "grade_assessment u choice client ctx = Inr out" and typed: "typed_client client"
    and pos: "\<forall>item \<in> set (gc_items ctx). \<forall>c \<in> set (gi_rubric item). 1 \<le> rub_max_points c"
    and scores: "\<And>item. item \<in> set (gc_items ctx) \<Longrightarrow> \<exists>g \<in> set (gb_items (go_bundle out)). grade_ok ctx item g
       \<and> map_of scores (gi_id item) = Some (score_item g item)"
  obtains evidence where "build_evidence now ctx out scores = Inr evidence" "\<forall>e \<in> set evidence. valid_evidence e"
proof -
  let ?f = "\<lambda>item. bind_res (case find (\<lambda>g. ig_id g = gi_id item) (gb_items (go_bundle out)) of
                   None \<Rightarrow> Inl (UnknownItem (gi_id item)) | Some g \<Rightarrow> Inr g) (\<lambda>g.
       bind_res (lookup_res (gi_id item) (UnknownItem (gi_id item)) (go_modes out)) (\<lambda>mode.
       bind_res (lookup_res (gi_id item) (UnknownItem (gi_id item)) scores) (\<lambda>score.
         Inr \<lparr>me_node = gi_node item, me_item = gi_id item, me_type = gi_type item,
              me_score = default_to 0 score, me_confidence = ig_confidence g, me_mode = mode,
              me_weight = question_type_weight (gi_type item) * grading_mode_weight mode * ig_confidence g,
              me_eligible = (score \<noteq> None \<and> \<not> ig_review g), me_tags = ig_tags g,
              me_occurred = now\<rparr>)))"
  have each: "\<exists>e. ?f item = Inr e \<and> valid_evidence e" if item: "item \<in> set (gc_items ctx)" for item
  proof -
    obtain g where g: "g \<in> set (gb_items (go_bundle out))"
      "find (\<lambda>g. ig_id g = gi_id item) (gb_items (go_bundle out)) = Some g"
      by (rule published_grade [OF run item])
    obtain m where m: "map_of (go_modes out) (gi_id item) = Some m" using modes_cover [OF run item] by blast
    from scores [OF item] obtain h where h: "h \<in> set (gb_items (go_bundle out))" "grade_ok ctx item h"
      "map_of scores (gi_id item) = Some (score_item h item)" by blast
    have "0 \<le> default_to 0 (score_item h item) \<and> default_to 0 (score_item h item) \<le> 100"
    proof (cases "score_item h item")
      case (Some v)
      then show ?thesis
        using score_bounds [OF h(2)] pos item outcome_typed [OF run typed h(1)]
        by (force simp: default_to_def typed_grade_def)
    qed (simp add: default_to_def)
    with g m h(3) outcome_typed [OF run typed g(1)] show ?thesis
      by (simp add: lookup_res_def valid_evidence_def typed_grade_def)
  qed
  then have "is_ok (build_evidence now ctx out scores)"
    unfolding build_evidence_def by (intro traverse_is_ok) (force simp: is_ok_iff)
  then obtain evidence where ev: "build_evidence now ctx out scores = Inr evidence" by (auto simp: is_ok_iff)
  moreover have "\<forall>e \<in> set evidence. valid_evidence e"
  proof
    fix e assume "e \<in> set evidence"
    from traverse_Inr_all [OF ev [unfolded build_evidence_def] this]
    obtain item where item: "item \<in> set (gc_items ctx)" "?f item = Inr e" by blast
    with each [OF item(1)] show "valid_evidence e" by auto
  qed
  ultimately show ?thesis by (rule that)
qed

lemma evidence_nodes:
  assumes "build_evidence now ctx out scores = Inr evidence"
  shows "map me_node evidence = map gi_node (gc_items ctx)"
  using assms unfolding build_evidence_def
  by (rule traverse_preserves) (auto simp: bind_res_Inr_iff)

lemma finalize_parts:
  assumes "finalize_submission now ctx out previous phase tasks = Inr r"
  obtains scores evidence where "build_evidence now ctx out scores = Inr evidence"
    "sr_review_required r = list_ex ig_review (gb_items (go_bundle out))"
    "overall_score (go_bundle out) ctx = Inr (sr_score r)"
    "sr_updates r = calculate_mastery_updates (65 / 100) now previous evidence"
    "sr_decision r = decide_observer (submission_signals (sr_updates r) (sr_review_required r) phase tasks)"
    "sr_proposal r = build_plan_proposal (sr_decision r)"
  using assms by (auto simp: finalize_submission_def Let_def bind_res_Inr_iff)

lemma finalize_safe:
  assumes run: "grade_assessment u choice client ctx = Inr out" and typed: "typed_client client"
    and items: "gc_items ctx \<noteq> []"
    and pos: "\<forall>item \<in> set (gc_items ctx). \<forall>c \<in> set (gi_rubric item). 1 \<le> rub_max_points c"
  shows "\<exists>r. finalize_submission now ctx out previous phase tasks = Inr r
    \<and> (\<forall>m \<in> set (sr_updates r). valid_update m)
    \<and> (if pp_automation (sr_proposal r)
       then (\<forall>g \<in> set (gb_items (go_bundle out)). \<not> ig_review g) \<and> sr_updates r \<noteq> []
            \<and> (\<forall>m \<in> set (sr_updates r). mu_eligible m \<and> mu_node m \<in> gi_node ` set (gc_items ctx))
       else pp_patch (sr_proposal r) = [(lit ''no_change'', JBool True)])"
proof -
  obtain scores where scores: "item_scores_of ctx out = Inr scores"
    "\<And>item. item \<in> set (gc_items ctx) \<Longrightarrow> \<exists>g \<in> set (gb_items (go_bundle out)). grade_ok ctx item g
       \<and> map_of scores (gi_id item) = Some (score_item g item)"
    using scores_of_outcome [OF run] by blast
  obtain evidence where ev: "build_evidence now ctx out scores = Inr evidence" "\<forall>e \<in> set evidence. valid_evidence e"
    using evidence_of_outcome [OF run typed pos scores(2)] by blast
  obtain score where "overall_score (go_bundle out) ctx = Inr score"
    using overall_score_returns [OF run typed items pos] by blast
  then obtain r where r: "finalize_submission now ctx out previous phase tasks = Inr r"
    and upd: "sr_updates r = calculate_mastery_updates (65 / 100) now previous evidence"
    and dec: "sr_decision r = decide_observer (submission_signals (sr_updates r)
      (list_ex ig_review (gb_items (go_bundle out))) phase tasks)"
    and proposal: "sr_proposal r = build_plan_proposal (sr_decision r)"
    by (simp add: finalize_submission_def Let_def scores(1) ev(1))
  note sound = updates_sound [OF ev(2), of "65 / 100" now previous, folded upd]
  have nodes: "me_node ` set evidence = gi_node ` set (gc_items ctx)"
    using arg_cong [OF evidence_nodes [OF ev(1)], of set] by simp
  have auto: "pp_automation (sr_proposal r) = od_automation (sr_decision r)"
    and patch: "pp_patch (sr_proposal r) = plan_patch (od_decision (sr_decision r))"
    by (simp_all add: proposal build_plan_proposal_def)
  show ?thesis
  proof (intro exI [of _ r] conjI r)
    show "\<forall>m \<in> set (sr_updates r). valid_update m" using sound by blast
    show "if pp_automation (sr_proposal r)
       then (\<forall>g \<in> set (gb_items (go_bundle out)). \<not> ig_review g) \<and> sr_updates r \<noteq> []
            \<and> (\<forall>m \<in> set (sr_updates r). mu_eligible m \<and> mu_node m \<in> gi_node ` set (gc_items ctx))
       else pp_patch (sr_proposal r) = [(lit ''no_change'', JBool True)]"
    proof (cases "pp_automation (sr_proposal r)")
      case True
      let ?s = "submission_signals (sr_updates r) (list_ex ig_review (gb_items (go_bundle out))) phase tasks"
      from True have "od_automation (decide_observer ?s)" by (simp only: auto dec)
      from observer_reliable [OF this]
      have "\<not> list_ex ig_review (gb_items (go_bundle out))" "sr_updates r \<noteq> []" "list_all mu_eligible (sr_updates r)"
        by (simp_all add: submission_signals_def Let_def)
      moreover have "mu_node m \<in> gi_node ` set (gc_items ctx)" if "m \<in> set (sr_updates r)" "mu_eligible m" for m
        using update_eligible_node [OF that [unfolded upd]] by (simp add: nodes)
      ultimately show ?thesis using True by (auto simp: list_all_iff list_ex_iff)
    next
      case False
      then show ?thesis
        using observer_automation [of "submission_signals (sr_updates r)
          (list_ex ig_review (gb_items (go_bundle out))) phase tasks", folded dec]
        by (cases "od_decision (sr_decision r)") (simp_all add: auto patch)
    qed
  qed
qed

text \<open>C23. Whatever the remote grader replies, a graded submission can be finalised: it ends in valid mastery
  updates and a proposal. The proposal may be applied automatically only if no grade waits for a
  review and every update rests on accepted evidence of this attempt; otherwise the plan stays.\<close>

theorem submission_plan_safe:
  assumes run: "grade_assessment u choice client ctx = Inr out" and typed: "typed_client client"
    and items: "gc_items ctx \<noteq> []"
    and pos: "\<forall>item \<in> set (gc_items ctx). \<forall>c \<in> set (gi_rubric item). 1 \<le> rub_max_points c"
  shows "\<exists>r. finalize_submission now ctx out previous phase tasks = Inr r
    \<and> (\<forall>m \<in> set (sr_updates r). valid_update m)
    \<and> (if pp_automation (sr_proposal r)
       then (\<forall>g \<in> set (gb_items (go_bundle out)). \<not> ig_review g) \<and> sr_updates r \<noteq> []
            \<and> (\<forall>m \<in> set (sr_updates r). mu_eligible m \<and> mu_node m \<in> gi_node ` set (gc_items ctx))
       else pp_patch (sr_proposal r) = [(lit ''no_change'', JBool True)])"
  using finalize_safe [OF assms] .

text \<open>C24. What a submission can never lead to. The plan never advances, because the caller counts one valid
  session and the policy asks for two; a learner with none of the tasks done is never offered
  less work, because a rate of zero counts as missing; and stored mastery of a node that this
  assessment does not ask for sends the decision to a manual review.\<close>

theorem submission_dead_decisions:
  assumes "finalize_submission now ctx out previous phase tasks = Inr r"
  shows "od_decision (sr_decision r) \<noteq> AdvancePlan
    \<and> (lit ''completed'' \<notin> set tasks \<and> lit ''done'' \<notin> set tasks \<longrightarrow> od_decision (sr_decision r) \<noteq> ReducePlan)
    \<and> (\<not> fst ` set previous \<subseteq> gi_node ` set (gc_items ctx) \<longrightarrow> od_decision (sr_decision r) = ManualReviewPlan)"
proof -
  obtain scores evidence where ev: "build_evidence now ctx out scores = Inr evidence"
    and upd: "sr_updates r = calculate_mastery_updates (65 / 100) now previous evidence"
    and dec: "sr_decision r = decide_observer (submission_signals (sr_updates r) (sr_review_required r) phase tasks)"
    by (rule finalize_parts [OF assms])
  let ?s = "submission_signals (sr_updates r) (sr_review_required r) phase tasks"
  have nodes: "me_node ` set evidence = gi_node ` set (gc_items ctx)"
    using arg_cong [OF evidence_nodes [OF ev], of set] by simp
  have "od_decision (decide_observer ?s) \<noteq> AdvancePlan"
    by (simp add: decide_observer_def make_decision_def submission_signals_def Let_def)
  moreover have "od_decision (decide_observer ?s) \<noteq> ReducePlan"
    if "lit ''completed'' \<notin> set tasks" "lit ''done'' \<notin> set tasks"
  proof -
    have "filter (\<lambda>t. t = lit ''completed'' \<or> t = lit ''done'') tasks = []"
      using that by (auto simp: filter_empty_conv)
    then have "or_number (os_completion_rate ?s) 1 = 1"
      by (simp add: submission_signals_def or_number_def)
    then show ?thesis by (simp add: decide_observer_def make_decision_def Let_def)
  qed
  moreover have "od_decision (decide_observer ?s) = ManualReviewPlan"
    if "\<not> fst ` set previous \<subseteq> gi_node ` set (gc_items ctx)"
  proof -
    from that obtain n where n: "n \<in> fst ` set previous" "n \<notin> me_node ` set evidence" using nodes by blast
    let ?m = "update_node (65 / 100) now n (default_to no_record (map_of previous n)) []"
    have "filter (\<lambda>e. me_node e = n) evidence = []" using n(2) by (auto simp: filter_empty_conv)
    then have "?m \<in> set (sr_updates r)" using n(1) by (simp add: upd update_member set_mastery_nodes)
    moreover have "\<not> mu_eligible ?m" by (rule update_node_keeps) simp
    ultimately have "\<not> os_adjustable ?s" by (auto simp: submission_signals_def Let_def list_all_iff)
    then show ?thesis by (simp add: decide_observer_def make_decision_def Let_def)
  qed
  ultimately show ?thesis by (simp add: dec)
qed

lemma sample_items:
  "gc_items sample_answered \<noteq> []"
  "\<forall>item \<in> set (gc_items sample_answered). \<forall>c \<in> set (gi_rubric item). 1 \<le> rub_max_points c"
  by (simp_all add: sample_context_def sample_question_item_def sample_rubric_def)

lemma submission_plan_safe_witness:
  "\<exists>out r. grade_assessment ascii_db Hybrid sample_client sample_answered = Inr out
     \<and> finalize_submission 0 sample_answered out [] None [] = Inr r"
  using submission_plan_safe [OF sample_graded sample_typed sample_items, of 0 "[]" None "[]"] sample_graded
  by blast

lemma submission_dead_decisions_witness:
  "\<exists>out r. finalize_submission 0 sample_answered out [([9], no_record)] None [] = Inr r
     \<and> od_decision (sr_decision r) = ManualReviewPlan"
proof -
  obtain r where r: "finalize_submission 0 sample_answered
      \<lparr>go_bundle = sample_remote, go_modes = dict_update (deterministic_modes sample_answered sample_local_bundle)
         [([7], RemoteStructured)], go_model = Some (lit ''m'')\<rparr> [([9], no_record)] None [] = Inr r"
    using finalize_safe [OF sample_graded sample_typed sample_items, of 0 "[([9], no_record)]" None "[]"] by blast
  have "gi_node ` set (gc_items sample_answered) = {[3]}" by (simp add: sample_context_def sample_question_item_def)
  with submission_dead_decisions [OF r] r show ?thesis by auto
qed

end
