(* ===== verification/Assessment_Generation.thy ===== *)
theory Assessment_Generation
  imports Assessment_Grading
begin

text \<open>
  Generation of assessments (domain/assessment/contracts.py, generation_policy.py and
  application/assessment_generation_service.py under src/backend/app): items from the blueprints of
  a registry, the validator of generated bundles, and the service with its remote generator. The
  registry is the parsed YAML file; \<open>str.format\<close> on a template is the parameter \<open>render\<close>.
\<close>

subsection \<open>Contracts\<close>

record knowledge_node =
  kn_id :: ustr
  kn_code :: ustr
  kn_title :: ustr
  kn_objectives :: "ustr list"
  kn_prerequisites :: "ustr list"
  kn_difficulty :: int
  kn_threshold :: pyfloat
  kn_misconceptions :: "ustr list"

record source_excerpt =
  sx_chunk_id :: ustr
  sx_document_id :: ustr
  sx_label :: ustr
  sx_content :: ustr
  sx_trusted :: int

record generation_context =
  gn_user_id :: ustr
  gn_goal_id :: ustr
  gn_count :: nat
  gn_requested :: "ustr list"
  gn_nodes :: "knowledge_node list"
  gn_excerpts :: "source_excerpt list"
  gn_hash :: ustr

record generated_item =
  ga_key :: ustr
  ga_node :: ustr
  ga_type :: question_type
  ga_skill :: ustr
  ga_prompt :: ustr
  ga_options :: "(ustr \<times> ustr) list"
  ga_reference :: ustr
  ga_rubric :: "rubric_criterion list"
  ga_difficulty :: int
  ga_sources :: "ustr list"

type_synonym generation_bundle = "generated_item list"

text \<open>A question of a blueprint; its texts are templates.\<close>

record question_blueprint =
  qb_type :: question_type
  qb_skill :: ustr
  qb_prompt :: ustr
  qb_options :: "(ustr \<times> ustr) list"
  qb_reference :: ustr
  qb_rubric :: "rubric_criterion list"

type_synonym registry = "ustr \<Rightarrow> question_blueprint list option"

record template_data =
  td_title :: ustr
  td_code :: ustr
  td_objective :: ustr

type_synonym renderer = "template_data \<Rightarrow> ustr \<Rightarrow> port_error + ustr"

datatype generation_error =
    GenerationInvalid string
  | NoBlueprint "ustr list"
  | GeneratorUnavailable ustr
  | ItemRejected
  | DivisionByZero
  | GeneratorRaised port_error

definition lift_port :: "port_error + 'a \<Rightarrow> generation_error + 'a" where
  "lift_port r = (case r of Inl e \<Rightarrow> Inl (GeneratorRaised e) | Inr v \<Rightarrow> Inr v)"

text \<open>The field constraints of the option, criterion and item models.\<close>

definition valid_option :: "ustr \<times> ustr \<Rightarrow> bool" where
  "valid_option p \<longleftrightarrow> 1 \<le> length (fst p) \<and> length (fst p) \<le> 128 \<and> 1 \<le> length (snd p) \<and> length (snd p) \<le> 2000"

definition valid_criterion :: "rubric_criterion \<Rightarrow> bool" where
  "valid_criterion c \<longleftrightarrow> 1 \<le> length (rub_id c) \<and> length (rub_id c) \<le> 128
     \<and> 1 \<le> length (rub_description c) \<and> length (rub_description c) \<le> 2000
     \<and> 1 \<le> rub_max_points c \<and> rub_max_points c \<le> 100"

definition valid_item :: "generated_item \<Rightarrow> bool" where
  "valid_item g \<longleftrightarrow> 1 \<le> length (ga_key g) \<and> length (ga_key g) \<le> 128
     \<and> 10 \<le> length (ga_prompt g) \<and> length (ga_prompt g) \<le> 4000
     \<and> 1 \<le> length (ga_reference g) \<and> length (ga_reference g) \<le> 8000
     \<and> ga_rubric g \<noteq> [] \<and> 1 \<le> ga_difficulty g \<and> ga_difficulty g \<le> 5"

subsection \<open>The validator\<close>

definition validate_generated_item :: "generation_context \<Rightarrow> generated_item \<Rightarrow> generation_error + unit" where
  "validate_generated_item ctx g =
     bind_res (require (ga_node g \<in> set (gn_requested ctx))
                 (GenerationInvalid ''assessment.generation_output_invalid'')) (\<lambda>_.
     bind_res (require (set (ga_sources g) \<subseteq> sx_chunk_id ` set (gn_excerpts ctx))
                 (GenerationInvalid ''assessment.invalid_source_reference'')) (\<lambda>_.
     bind_res (require (sum_list (map rub_max_points (ga_rubric g)) = 100)
                 (GenerationInvalid ''assessment.invalid_rubric'')) (\<lambda>_.
     bind_res (require (card (rub_id ` set (ga_rubric g)) = length (ga_rubric g))
                 (GenerationInvalid ''assessment.invalid_rubric'')) (\<lambda>_.
     require (if ga_type g = Choice
              then (let keys = map fst (ga_options g)
                    in 2 \<le> length keys \<and> card (set keys) = length keys \<and> ga_reference g \<in> set keys)
              else ga_options g = [])
       (GenerationInvalid ''assessment.invalid_rubric'')))))"

definition validate_generation_bundle :: "generation_context \<Rightarrow> generation_bundle \<Rightarrow> generation_error + unit" where
  "validate_generation_bundle ctx items =
     bind_res (require (length items = gn_count ctx)
                 (GenerationInvalid ''assessment.generation_output_invalid'')) (\<lambda>_.
     bind_res (require (card (ga_key ` set items) = length items)
                 (GenerationInvalid ''assessment.generation_output_invalid'')) (\<lambda>_.
     bind_res (require (set (gn_requested ctx) \<subseteq> ga_node ` set items)
                 (GenerationInvalid ''assessment.generation_output_invalid'')) (\<lambda>_.
     bind_res (traverse (validate_generated_item ctx) items) (\<lambda>_. Inr ()))))"

subsection \<open>The deterministic generator\<close>

definition type_value :: "question_type \<Rightarrow> string" where
  "type_value t = (case t of Choice \<Rightarrow> ''choice'' | Explain \<Rightarrow> ''explain''
     | CodeReading \<Rightarrow> ''code_reading'' | Scenario \<Rightarrow> ''scenario'')"

definition data_of :: "knowledge_node \<Rightarrow> template_data" where
  "data_of node = \<lparr>td_title = kn_title node, td_code = kn_code node,
     td_objective = (case kn_objectives node of [] \<Rightarrow> kn_title node | o1 # _ \<Rightarrow> o1)\<rparr>"

definition render_option :: "renderer \<Rightarrow> template_data \<Rightarrow> ustr \<times> ustr \<Rightarrow> generation_error + ustr \<times> ustr" where
  "render_option render data p =
     bind_res (lift_port (render data (snd p))) (\<lambda>label.
       if valid_option (fst p, label) then Inr (fst p, label) else Inl ItemRejected)"

definition render_criterion :: "renderer \<Rightarrow> template_data \<Rightarrow> rubric_criterion \<Rightarrow> generation_error + rubric_criterion" where
  "render_criterion render data c =
     bind_res (lift_port (render data (rub_description c))) (\<lambda>description.
     bind_res (traverse (\<lambda>t. lift_port (render data t)) (rub_required_evidence c)) (\<lambda>required.
     bind_res (traverse (\<lambda>t. lift_port (render data t)) (rub_accepted_concepts c)) (\<lambda>concepts.
     bind_res (traverse (\<lambda>t. lift_port (render data t)) (rub_signals c)) (\<lambda>signals.
       let d = c\<lparr>rub_description := description, rub_required_evidence := required,
                 rub_accepted_concepts := concepts, rub_signals := signals\<rparr>
       in if valid_criterion d then Inr d else Inl ItemRejected))))"

text \<open>\<open>f"{node.code}-{question['question_type']}-{index + 1}"\<close>\<close>

definition item_key :: "knowledge_node \<Rightarrow> question_blueprint \<Rightarrow> nat \<Rightarrow> ustr" where
  "item_key node q index =
     kn_code node @ lit (''-'' @ type_value (qb_type q) @ ''-'' @ str_of_nat (index + 1))"

definition render_item ::
  "renderer \<Rightarrow> ustr list \<Rightarrow> knowledge_node \<Rightarrow> question_blueprint \<Rightarrow> nat \<Rightarrow> generation_error + generated_item" where
  "render_item render source_ids node q index =
     (let data = data_of node in
      bind_res (traverse (render_option render data) (qb_options q)) (\<lambda>options.
      bind_res (traverse (render_criterion render data) (qb_rubric q)) (\<lambda>rubric.
      bind_res (lift_port (render data (qb_prompt q))) (\<lambda>prompt.
      bind_res (lift_port (render data (qb_reference q))) (\<lambda>reference.
        let g = \<lparr>ga_key = item_key node q index, ga_node = kn_id node, ga_type = qb_type q,
                 ga_skill = qb_skill q, ga_prompt = prompt, ga_options = options,
                 ga_reference = reference, ga_rubric = rubric, ga_difficulty = kn_difficulty node,
                 ga_sources = take 1 source_ids\<rparr>
        in if valid_item g then Inr g else Inl ItemRejected)))))"

definition generate_item ::
  "renderer \<Rightarrow> registry \<Rightarrow> ustr list \<Rightarrow> knowledge_node list \<Rightarrow> nat \<Rightarrow> generation_error + generated_item" where
  "generate_item render reg source_ids requested index =
     (let node = requested ! (index mod length requested);
          questions = the (reg (kn_code node))
      in if questions = [] then Inl DivisionByZero
         else render_item render source_ids node
                (questions ! ((index div length requested) mod length questions)) index)"

definition requested_nodes :: "generation_context \<Rightarrow> knowledge_node list" where
  "requested_nodes ctx =
     (let nodes = dict_of (map (\<lambda>n. (kn_id n, n)) (gn_nodes ctx))
      in concat (map (\<lambda>i. case map_of nodes i of None \<Rightarrow> [] | Some n \<Rightarrow> [n]) (gn_requested ctx)))"

definition deterministic_generation ::
  "renderer \<Rightarrow> registry \<Rightarrow> generation_context \<Rightarrow> generation_error + generation_bundle" where
  "deterministic_generation render reg ctx =
     (let requested = requested_nodes ctx;
          unavailable = map kn_code (filter (\<lambda>n. reg (kn_code n) = None) requested) in
      if length requested \<noteq> length (gn_requested ctx)
      then Inl (GenerationInvalid ''assessment.generation_output_invalid'')
      else if unavailable \<noteq> [] then Inl (NoBlueprint unavailable)
      else if requested = [] \<and> gn_count ctx \<noteq> 0 then Inl DivisionByZero
      else
        bind_res (traverse (generate_item render reg (map sx_chunk_id (gn_excerpts ctx)) requested)
                    [0 ..< gn_count ctx]) (\<lambda>items.
        if items = [] then Inl ItemRejected
        else bind_res (validate_generation_bundle ctx items) (\<lambda>_. Inr items)))"

subsection \<open>The generation service\<close>

datatype generator_reply = NoBundle "ustr option" | GeneratedBundle generation_bundle ustr

datatype generation_mode = RemoteMode | OfflineMode | DegradedMode

record generation_outcome =
  gt_bundle :: generation_bundle
  gt_mode :: generation_mode
  gt_model :: "ustr option"

definition generate_assessment ::
  "renderer \<Rightarrow> registry \<Rightarrow> grader_choice \<Rightarrow> (generation_context \<Rightarrow> port_error + generator_reply)
     \<Rightarrow> generation_context \<Rightarrow> generation_error + generation_outcome" where
  "generate_assessment render reg choice client ctx =
     (let local = bind_res (deterministic_generation render reg ctx) (\<lambda>items.
            Inr \<lparr>gt_bundle = items, gt_mode = (if choice = Deterministic then OfflineMode else DegradedMode),
                 gt_model = None\<rparr>)
      in if choice = Deterministic then local
         else bind_res (lift_port (client ctx)) (\<lambda>reply.
           case reply of
             GeneratedBundle items model \<Rightarrow>
               bind_res (validate_generation_bundle ctx items) (\<lambda>_.
                 Inr \<lparr>gt_bundle = items, gt_mode = RemoteMode, gt_model = Some model\<rparr>)
           | NoBundle code \<Rightarrow>
               if choice = Remote
               then Inl (GeneratorUnavailable (if code = None \<or> code = Some []
                          then lit ''assessment.generation_unavailable'' else the code))
               else local))"

subsection \<open>The deterministic generator delivers\<close>

definition question_ok :: "question_blueprint \<Rightarrow> bool" where
  "question_ok q \<longleftrightarrow> sum_list (map rub_max_points (qb_rubric q)) = 100 \<and> distinct (map rub_id (qb_rubric q))
     \<and> (if qb_type q = Choice then 2 \<le> length (qb_options q) \<and> distinct (map fst (qb_options q))
        else qb_options q = [])"

text \<open>The templates of a question can be rendered for a node: every text keeps to the limits of the
  models, and the reference answer of a choice is one of its options.\<close>

definition renders :: "renderer \<Rightarrow> ustr list \<Rightarrow> nat \<Rightarrow> knowledge_node \<Rightarrow> question_blueprint \<Rightarrow> bool" where
  "renders render srcs n node q \<longleftrightarrow> (\<forall>i < n. \<exists>g. render_item render srcs node q i = Inr g
     \<and> (qb_type q = Choice \<longrightarrow> ga_reference g \<in> fst ` set (qb_options q)))"

lemma item_key_inject: "item_key node q i = item_key node' q' j \<Longrightarrow> i = j"
proof -
  have dash: "(45::nat) \<notin> set (lit (str_of_nat n))" for n
  proof
    assume "(45::nat) \<in> set (lit (str_of_nat n))"
    then obtain c where c: "c \<in> set (str_of_nat n)" "(45::nat) = of_char c" by (auto simp: lit_def)
    have "of_char (CHR ''-'') = (45::nat)" by simp
    with c(2) have "c = CHR ''-''" using of_char_eq_iff by metis
    with c(1) str_of_nat_no_dash show False by blast
  qed
  assume "item_key node q i = item_key node' q' j"
  then have "(kn_code node @ lit (''-'' @ type_value (qb_type q))) @ 45 # lit (str_of_nat (i + 1))
    = (kn_code node' @ lit (''-'' @ type_value (qb_type q'))) @ 45 # lit (str_of_nat (j + 1))"
    by (simp add: item_key_def lit_def)
  from split_at_last [OF this dash dash] show "i = j" by simp
qed

lemma render_item_parts:
  assumes "render_item render srcs node q i = Inr g"
  shows "ga_key g = item_key node q i" "ga_node g = kn_id node" "ga_type g = qb_type q"
    "ga_sources g = take 1 srcs" "map fst (ga_options g) = map fst (qb_options q)"
    "map rub_id (ga_rubric g) = map rub_id (qb_rubric q)"
    "map rub_max_points (ga_rubric g) = map rub_max_points (qb_rubric q)"
proof -
  from assms obtain options rubric where
    opts: "traverse (render_option render (data_of node)) (qb_options q) = Inr options"
    and rub: "traverse (render_criterion render (data_of node)) (qb_rubric q) = Inr rubric"
    and g: "ga_key g = item_key node q i" "ga_node g = kn_id node" "ga_type g = qb_type q"
      "ga_sources g = take 1 srcs" "ga_options g = options" "ga_rubric g = rubric"
    by (auto simp: render_item_def Let_def bind_res_Inr_iff split: if_splits)
  have "map fst options = map fst (qb_options q)"
    by (rule traverse_preserves [OF opts]) (auto simp: render_option_def bind_res_Inr_iff split: if_splits)
  moreover have "map rub_id rubric = map rub_id (qb_rubric q)"
    "map rub_max_points rubric = map rub_max_points (qb_rubric q)"
    by (rule traverse_preserves [OF rub];
        auto simp: render_criterion_def Let_def bind_res_Inr_iff split: if_splits)+
  ultimately show "ga_key g = item_key node q i" "ga_node g = kn_id node" "ga_type g = qb_type q"
    "ga_sources g = take 1 srcs" "map fst (ga_options g) = map fst (qb_options q)"
    "map rub_id (ga_rubric g) = map rub_id (qb_rubric q)"
    "map rub_max_points (ga_rubric g) = map rub_max_points (qb_rubric q)"
    by (simp_all add: g)
qed

lemma rendered_item_valid:
  assumes "render_item render srcs node q i = Inr g" "question_ok q"
    "qb_type q = Choice \<longrightarrow> ga_reference g \<in> fst ` set (qb_options q)"
    "kn_id node \<in> set (gn_requested ctx)" "set srcs \<subseteq> sx_chunk_id ` set (gn_excerpts ctx)"
  shows "validate_generated_item ctx g = Inr ()"
proof -
  note parts = render_item_parts [OF assms(1)]
  have "set (ga_sources g) \<subseteq> sx_chunk_id ` set (gn_excerpts ctx)"
    using assms(5) set_take_subset [of 1 srcs] by (auto simp: parts(4))
  moreover have "distinct (map rub_id (ga_rubric g))" and total: "sum_list (map rub_max_points (ga_rubric g)) = 100"
    using assms(2) parts(6,7) by (simp_all add: question_ok_def)
  then have "card (rub_id ` set (ga_rubric g)) = length (ga_rubric g)"
    using distinct_card [of "map rub_id (ga_rubric g)"] by simp
  moreover have "if ga_type g = Choice
      then (let keys = map fst (ga_options g)
            in 2 \<le> length keys \<and> card (set keys) = length keys \<and> ga_reference g \<in> set keys)
      else ga_options g = []"
    using assms(2,3) parts(3,5) distinct_card [of "map fst (qb_options q)"]
    by (auto simp: question_ok_def Let_def split: if_splits)
  ultimately show ?thesis
    using assms(4) total by (simp add: validate_generated_item_def parts(2) require_def)
qed

lemma requested_nodes_found:
  assumes "set (gn_requested ctx) \<subseteq> kn_id ` set (gn_nodes ctx)"
  shows "map kn_id (requested_nodes ctx) = gn_requested ctx"
    "set (requested_nodes ctx) \<subseteq> set (gn_nodes ctx)"
proof -
  let ?N = "map (\<lambda>n. (kn_id n, n)) (gn_nodes ctx)"
  have found: "\<exists>n \<in> set (gn_nodes ctx). map_of (dict_of ?N) i = Some n \<and> kn_id n = i"
    if "i \<in> kn_id ` set (gn_nodes ctx)" for i
  proof -
    from that have "i \<in> fst ` set (rev ?N)" by (simp add: image_image)
    then obtain n where n: "map_of (rev ?N) i = Some n"
      using map_of_eq_None_iff [of "rev ?N" i] by blast
    then have "(i, n) \<in> set ?N" using map_of_SomeD [OF n] by simp
    with n show ?thesis by (auto simp: map_of_dict_of)
  qed
  have "map kn_id (concat (map (\<lambda>i. case map_of (dict_of ?N) i of None \<Rightarrow> [] | Some n \<Rightarrow> [n]) is)) = is
      \<and> set (concat (map (\<lambda>i. case map_of (dict_of ?N) i of None \<Rightarrow> [] | Some n \<Rightarrow> [n]) is)) \<subseteq> set (gn_nodes ctx)"
    if "set is \<subseteq> kn_id ` set (gn_nodes ctx)" for "is"
    using that
  proof (induction "is")
    case (Cons i js)
    then obtain n where "n \<in> set (gn_nodes ctx)" "map_of (dict_of ?N) i = Some n" "kn_id n = i"
      using found [of i] by auto
    with Cons show ?case by auto
  qed simp
  with assms show "map kn_id (requested_nodes ctx) = gn_requested ctx"
    "set (requested_nodes ctx) \<subseteq> set (gn_nodes ctx)"
    by (simp_all add: requested_nodes_def Let_def)
qed

lemma generated_item_ok:
  assumes reqs: "map kn_id requested = gn_requested ctx" "requested \<noteq> []"
    and reg: "\<forall>n \<in> set requested. \<exists>qs. reg (kn_code n) = Some qs \<and> qs \<noteq> []
      \<and> (\<forall>q \<in> set qs. question_ok q \<and> renders render srcs (gn_count ctx) n q)"
    and srcs: "set srcs \<subseteq> sx_chunk_id ` set (gn_excerpts ctx)" and i: "i < gn_count ctx"
  obtains g q where "generate_item render reg srcs requested i = Inr g" "validate_generated_item ctx g = Inr ()"
    "ga_node g = kn_id (requested ! (i mod length requested))"
    "ga_key g = item_key (requested ! (i mod length requested)) q i"
proof -
  let ?n = "requested ! (i mod length requested)"
  have n: "?n \<in> set requested" using reqs(2) by simp
  with reg obtain qs where qs: "reg (kn_code ?n) = Some qs" "qs \<noteq> []"
    "\<forall>q \<in> set qs. question_ok q \<and> renders render srcs (gn_count ctx) ?n q" by blast
  let ?q = "qs ! ((i div length requested) mod length qs)"
  have "?q \<in> set qs" using qs(2) by simp
  with qs(3) have q: "question_ok ?q" "renders render srcs (gn_count ctx) ?n ?q" by blast+
  from q(2) i obtain g where g: "render_item render srcs ?n ?q i = Inr g"
    "qb_type ?q = Choice \<longrightarrow> ga_reference g \<in> fst ` set (qb_options ?q)"
    unfolding renders_def by blast
  have "kn_id ?n \<in> set (gn_requested ctx)" using n by (simp flip: reqs(1))
  from rendered_item_valid [OF g(1) q(1) g(2) this srcs] have "validate_generated_item ctx g = Inr ()" .
  moreover have "generate_item render reg srcs requested i = Inr g"
    using qs(1,2) g(1) by (simp add: generate_item_def Let_def)
  ultimately show ?thesis
    using that render_item_parts(1,2) [OF g(1)] by blast
qed

text \<open>C25. The deterministic generator delivers: if every requested node is known and has a sound blueprint
  whose templates render, and at least one item per node is asked for, it returns a bundle with
  the requested number of items that covers every node and passes the validator. The validator,
  which runs on every bundle, refuses only what the contract forbids.\<close>

theorem generation_delivers:
  assumes "set (gn_requested ctx) \<subseteq> kn_id ` set (gn_nodes ctx)" "gn_requested ctx \<noteq> []"
    "length (gn_requested ctx) \<le> gn_count ctx"
    "\<And>n. n \<in> set (gn_nodes ctx) \<Longrightarrow> kn_id n \<in> set (gn_requested ctx) \<Longrightarrow>
       \<exists>qs. reg (kn_code n) = Some qs \<and> qs \<noteq> [] \<and> (\<forall>q \<in> set qs. question_ok q
         \<and> renders render (map sx_chunk_id (gn_excerpts ctx)) (gn_count ctx) n q)"
  shows "\<exists>items. deterministic_generation render reg ctx = Inr items \<and> length items = gn_count ctx
    \<and> distinct (map ga_key items) \<and> ga_node ` set items = set (gn_requested ctx)
    \<and> (\<forall>g \<in> set items. validate_generated_item ctx g = Inr ())"
proof -
  let ?R = "requested_nodes ctx" and ?S = "map sx_chunk_id (gn_excerpts ctx)"
  note found = requested_nodes_found [OF assms(1)]
  have len: "length ?R = length (gn_requested ctx)" using arg_cong [OF found(1), of length] by simp
  then have ne: "?R \<noteq> []" using assms(2) by auto
  have node: "n \<in> set (gn_nodes ctx) \<and> kn_id n \<in> set (gn_requested ctx)" if "n \<in> set ?R" for n
    using that found by (metis image_eqI list.set_map subsetD)
  have reg: "\<forall>n \<in> set ?R. \<exists>qs. reg (kn_code n) = Some qs \<and> qs \<noteq> []
      \<and> (\<forall>q \<in> set qs. question_ok q \<and> renders render ?S (gn_count ctx) n q)"
    using assms(4) node by blast
  define f where "f i = (THE g. generate_item render reg ?S ?R i = Inr g)" for i
  have each: "generate_item render reg ?S ?R i = Inr (f i) \<and> validate_generated_item ctx (f i) = Inr ()
      \<and> ga_node (f i) = kn_id (?R ! (i mod length ?R))
      \<and> (\<exists>q. ga_key (f i) = item_key (?R ! (i mod length ?R)) q i)" if i: "i < gn_count ctx" for i
  proof -
    have srcs: "set ?S \<subseteq> sx_chunk_id ` set (gn_excerpts ctx)" by simp
    obtain g q where
      "generate_item render reg ?S ?R i = Inr g" "validate_generated_item ctx g = Inr ()"
      "ga_node g = kn_id (?R ! (i mod length ?R))" "ga_key g = item_key (?R ! (i mod length ?R)) q i"
      using generated_item_ok [OF found(1) ne reg srcs i] by blast
    then show ?thesis by (auto simp: f_def)
  qed
  let ?items = "map f [0 ..< gn_count ctx]"
  have items: "traverse (generate_item render reg ?S ?R) [0 ..< gn_count ctx] = Inr ?items"
    using each by (intro traverse_map) simp
  have keys: "distinct (map ga_key ?items)"
    using each item_key_inject by (auto simp: distinct_map intro!: inj_onI) metis
  have "kn_id ` set ?R \<subseteq> ga_node ` set ?items"
  proof
    fix k assume "k \<in> kn_id ` set ?R"
    then obtain j where j: "j < length ?R" "k = kn_id (?R ! j)" by (auto simp: in_set_conv_nth)
    then have jc: "j < gn_count ctx" using len assms(3) by simp
    with each [of j] j have "k = ga_node (f j)" by simp
    with jc show "k \<in> ga_node ` set ?items" by simp
  qed
  moreover have "ga_node ` set ?items \<subseteq> kn_id ` set ?R" using each ne by auto
  ultimately have nodes: "ga_node ` set ?items = set (gn_requested ctx)"
    using arg_cong [OF found(1), of set] by auto
  have valid: "validate_generated_item ctx g = Inr ()" if "g \<in> set ?items" for g
    using that each by auto
  have "traverse (validate_generated_item ctx) ?items = Inr (map (\<lambda>_. ()) ?items)"
    using valid by (intro traverse_map)
  moreover have "card (ga_key ` set ?items) = length ?items"
    using distinct_card [OF keys] by (simp add: image_image)
  ultimately have "validate_generation_bundle ctx ?items = Inr ()"
    using nodes by (simp add: validate_generation_bundle_def require_def)
  moreover have "filter (\<lambda>n. reg (kn_code n) = None) ?R = []"
    using reg by (fastforce simp: filter_empty_conv)
  ultimately have "deterministic_generation render reg ctx = Inr ?items"
    using len ne items assms(3) by (auto simp: deterministic_generation_def Let_def simp flip: length_greater_0_conv)
  with keys nodes valid show ?thesis by (intro exI [of _ ?items]) simp
qed

subsection \<open>A generated assessment\<close>

definition sample_node :: knowledge_node where
  "sample_node = \<lparr>kn_id = [3], kn_code = lit ''RAG'', kn_title = lit ''Retrieval'', kn_objectives = [],
     kn_prerequisites = [], kn_difficulty = 2, kn_threshold = 70, kn_misconceptions = []\<rparr>"

definition sample_generation :: generation_context where
  "sample_generation = \<lparr>gn_user_id = [1], gn_goal_id = [2], gn_count = 1, gn_requested = [[3]],
     gn_nodes = [sample_node], gn_excerpts = [], gn_hash = []\<rparr>"

definition sample_question :: question_blueprint where
  "sample_question = \<lparr>qb_type = Explain, qb_skill = lit ''explain'', qb_prompt = lit ''Explain it now.'',
     qb_options = [], qb_reference = lit ''A reason'', qb_rubric = sample_rubric\<rparr>"

definition sample_registry :: registry where
  "sample_registry code = (if code = lit ''RAG'' then Some [sample_question] else None)"

definition plain_render :: renderer where
  "plain_render data template = Inr template"

lemma sample_renders: "renders plain_render [] 1 sample_node sample_question"
proof -
  have "is_ok (render_item plain_render [] sample_node sample_question 0)" by code_simp
  then obtain g where "render_item plain_render [] sample_node sample_question 0 = Inr g" by (auto simp: is_ok_iff)
  then show ?thesis by (auto simp: renders_def sample_question_def)
qed

lemma generation_delivers_witness:
  "\<exists>items. deterministic_generation plain_render sample_registry sample_generation = Inr items \<and> length items = 1"
proof -
  have "set (gn_requested sample_generation) \<subseteq> kn_id ` set (gn_nodes sample_generation)"
    "gn_requested sample_generation \<noteq> []" "length (gn_requested sample_generation) \<le> gn_count sample_generation"
    by (simp_all add: sample_generation_def sample_node_def)
  moreover have "\<exists>qs. sample_registry (kn_code n) = Some qs \<and> qs \<noteq> [] \<and> (\<forall>q \<in> set qs. question_ok q
         \<and> renders plain_render (map sx_chunk_id (gn_excerpts sample_generation)) (gn_count sample_generation) n q)"
    if "n \<in> set (gn_nodes sample_generation)" for n
  proof -
    from that have n: "n = sample_node" by (simp add: sample_generation_def)
    have "question_ok sample_question" by (simp add: question_ok_def sample_question_def sample_rubric_def)
    then show ?thesis
      using sample_renders by (simp add: n sample_registry_def sample_node_def sample_generation_def)
  qed
  ultimately show ?thesis
    using generation_delivers [of sample_generation sample_registry plain_render]
    by (auto simp: sample_generation_def)
qed

end
