(* ===== verification/Assessment_Graph.thy ===== *)
theory Assessment_Graph
  imports Assessment_Workflow Assessment_Generation
begin

text \<open>
  The LangGraph workflow of assessments (adaptive_tutor/phase2/assessment_v2.py): five nodes over
  ports that read and extend a shared state. A node that needs a key of the state which is not
  there raises. The specification below it is the plain composition of the ports.
\<close>

subsection \<open>State and ports\<close>

datatype wf_operation = OpGenerate | OpSubmit | OpGradeOnly

text \<open>\<open>PreparedAssessmentSubmissionV2\<close>; \<open>model_construct\<close> sets the grading context and the default of
  the evidence, and leaves the other fields out.\<close>

record prepared_submission =
  sb_context :: grading_context
  sb_previous :: "(ustr, stored_mastery) dict option"
  sb_evidence :: "mastery_evidence list option"
  sb_signals :: "observer_signals option"

type_synonym wf_action = "string \<times> ustr option"

record wf_result =
  wr_generated :: "generation_bundle option"
  wr_graded :: "grade_bundle option"
  wr_updates :: "mastery_update list"
  wr_decision :: "observer_decision option"
  wr_proposal :: "plan_proposal option"
  wr_actions :: "wf_action list"

type_synonym grader_port = "grading_context \<Rightarrow> port_error + grade_bundle"
type_synonym mastery_port = "(ustr, stored_mastery) dict \<Rightarrow> mastery_evidence list \<Rightarrow> port_error + mastery_update list"

record wf_ports =
  wp_generator :: "generation_context \<Rightarrow> port_error + generation_bundle"
  wp_grader :: "grader_port option"
  wp_mastery :: "mastery_port option"
  wp_observer :: "(observer_signals \<Rightarrow> port_error + observer_decision) option"
  wp_plan :: "(observer_decision \<Rightarrow> port_error + plan_proposal) option"

record wf_state =
  ws_operation :: wf_operation
  ws_generation_context :: "generation_context option"
  ws_submission :: "prepared_submission option"
  ws_generated :: "generation_bundle option"
  ws_graded :: "grade_bundle option"
  ws_updates :: "mastery_update list option"
  ws_decision :: "observer_decision option"
  ws_proposal :: "plan_proposal option"
  ws_actions :: "wf_action list"

datatype wf_error = WfPortRaised port_error | WfMissing string | WfAssertion | WfRuntime string

datatype wf_node = NGenerate | NGrade | NMastery | NObserver | NPlan

definition wf_get :: "string \<Rightarrow> 'a option \<Rightarrow> wf_error + 'a" where
  "wf_get key v = (case v of None \<Rightarrow> Inl (WfMissing key) | Some x \<Rightarrow> Inr x)"

definition wf_port :: "'a option \<Rightarrow> wf_error + 'a" where
  "wf_port p = (case p of None \<Rightarrow> Inl WfAssertion | Some f \<Rightarrow> Inr f)"

definition wf_call :: "port_error + 'a \<Rightarrow> wf_error + 'a" where
  "wf_call r = (case r of Inl e \<Rightarrow> Inl (WfPortRaised e) | Inr v \<Rightarrow> Inr v)"

definition initial_wf :: "wf_operation \<Rightarrow> wf_state" where
  "initial_wf op = \<lparr>ws_operation = op, ws_generation_context = None, ws_submission = None,
     ws_generated = None, ws_graded = None, ws_updates = None, ws_decision = None,
     ws_proposal = None, ws_actions = []\<rparr>"

subsection \<open>Nodes and edges\<close>

definition wf_act :: "string \<Rightarrow> ustr option \<Rightarrow> wf_state \<Rightarrow> wf_state" where
  "wf_act name h s = s\<lparr>ws_actions := ws_actions s @ [(name, h)]\<rparr>"

definition generate_node :: "wf_ports \<Rightarrow> wf_state \<Rightarrow> wf_error + wf_state" where
  "generate_node P s =
     bind_res (wf_get ''generation_context'' (ws_generation_context s)) (\<lambda>ctx.
     bind_res (wf_call (wp_generator P ctx)) (\<lambda>b.
       Inr (wf_act ''assessment_generated'' (Some (gn_hash ctx)) (s\<lparr>ws_generated := Some b\<rparr>))))"

definition grade_node :: "wf_ports \<Rightarrow> wf_state \<Rightarrow> wf_error + wf_state" where
  "grade_node P s =
     bind_res (wf_get ''submission'' (ws_submission s)) (\<lambda>p.
     bind_res (wf_port (wp_grader P)) (\<lambda>grader.
     bind_res (wf_call (grader (sb_context p))) (\<lambda>b.
       Inr (wf_act ''assessment_graded'' (Some (gc_hash (sb_context p))) (s\<lparr>ws_graded := Some b\<rparr>)))))"

definition mastery_node :: "wf_ports \<Rightarrow> wf_state \<Rightarrow> wf_error + wf_state" where
  "mastery_node P s =
     bind_res (wf_get ''submission'' (ws_submission s)) (\<lambda>p.
     bind_res (wf_port (wp_mastery P)) (\<lambda>mastery.
     bind_res (wf_get ''previous_mastery'' (sb_previous p)) (\<lambda>previous.
     bind_res (wf_get ''evidence'' (sb_evidence p)) (\<lambda>evidence.
     bind_res (wf_call (mastery previous evidence)) (\<lambda>u.
       Inr (wf_act ''mastery_calculated'' None (s\<lparr>ws_updates := Some u\<rparr>)))))))"

definition observer_node :: "wf_ports \<Rightarrow> wf_state \<Rightarrow> wf_error + wf_state" where
  "observer_node P s =
     bind_res (wf_get ''submission'' (ws_submission s)) (\<lambda>p.
     bind_res (wf_port (wp_observer P)) (\<lambda>observer.
     bind_res (wf_get ''observer_signals'' (sb_signals p)) (\<lambda>signals.
     bind_res (wf_call (observer signals)) (\<lambda>d.
       Inr (wf_act ''observer_decided'' None (s\<lparr>ws_decision := Some d\<rparr>))))))"

definition plan_node :: "wf_ports \<Rightarrow> wf_state \<Rightarrow> wf_error + wf_state" where
  "plan_node P s =
     bind_res (wf_port (wp_plan P)) (\<lambda>plan.
     bind_res (wf_get ''observer_decision'' (ws_decision s)) (\<lambda>d.
     bind_res (wf_call (plan d)) (\<lambda>x.
       Inr (wf_act ''plan_proposed'' None (s\<lparr>ws_proposal := Some x\<rparr>)))))"

fun wf_run_node :: "wf_ports \<Rightarrow> wf_node \<Rightarrow> wf_state \<Rightarrow> wf_error + wf_state" where
  "wf_run_node P NGenerate s = generate_node P s"
| "wf_run_node P NGrade s = grade_node P s"
| "wf_run_node P NMastery s = mastery_node P s"
| "wf_run_node P NObserver s = observer_node P s"
| "wf_run_node P NPlan s = plan_node P s"

definition wf_entry :: "wf_state \<Rightarrow> wf_node" where
  "wf_entry s = (if ws_operation s = OpGenerate then NGenerate else NGrade)"

fun wf_next :: "wf_node \<Rightarrow> wf_state \<Rightarrow> wf_node option" where
  "wf_next NGenerate s = None"
| "wf_next NGrade s = (if ws_operation s = OpGradeOnly then None else Some NMastery)"
| "wf_next NMastery s = Some NObserver"
| "wf_next NObserver s = Some NPlan"
| "wf_next NPlan s = None"

fun wf_rank :: "wf_node \<Rightarrow> nat" where
  "wf_rank NGenerate = 0"
| "wf_rank NGrade = 3"
| "wf_rank NMastery = 2"
| "wf_rank NObserver = 1"
| "wf_rank NPlan = 0"

lemma wf_next_rank: "wf_next n s = Some m \<Longrightarrow> wf_rank m < wf_rank n"
  by (cases n) (auto split: if_splits)

function wf_run :: "wf_ports \<Rightarrow> wf_node \<Rightarrow> wf_state \<Rightarrow> wf_error + wf_state" where
  "wf_run P n s =
     (case wf_run_node P n s of
        Inl e \<Rightarrow> Inl e
      | Inr s' \<Rightarrow> (case wf_next n s' of None \<Rightarrow> Inr s' | Some m \<Rightarrow> wf_run P m s'))"
  by pat_completeness auto
termination
  by (relation "measure (\<lambda>(P, n, s). wf_rank n)") (auto dest: wf_next_rank)

declare wf_run.simps [simp del]

definition wf_invoke :: "wf_ports \<Rightarrow> wf_state \<Rightarrow> wf_error + wf_state" where
  "wf_invoke P s = wf_run P (wf_entry s) s"

subsection \<open>The entry points\<close>

definition run_generation :: "wf_ports \<Rightarrow> generation_context \<Rightarrow> wf_error + wf_result" where
  "run_generation P ctx =
     bind_res (wf_invoke P ((initial_wf OpGenerate)\<lparr>ws_generation_context := Some ctx\<rparr>)) (\<lambda>s.
       Inr \<lparr>wr_generated = ws_generated s, wr_graded = None, wr_updates = [], wr_decision = None,
            wr_proposal = None, wr_actions = ws_actions s\<rparr>)"

definition run_submission :: "wf_ports \<Rightarrow> prepared_submission \<Rightarrow> wf_error + wf_result" where
  "run_submission P p =
     (if wp_grader P = None \<or> wp_mastery P = None \<or> wp_observer P = None \<or> wp_plan P = None
      then Inl (WfRuntime ''submission workflow requires grading, mastery, observer, and plan ports'')
      else bind_res (wf_invoke P ((initial_wf OpSubmit)\<lparr>ws_submission := Some p\<rparr>)) (\<lambda>s.
        Inr \<lparr>wr_generated = None, wr_graded = ws_graded s, wr_updates = default_to [] (ws_updates s),
             wr_decision = ws_decision s, wr_proposal = ws_proposal s, wr_actions = ws_actions s\<rparr>))"

definition run_grading :: "wf_ports \<Rightarrow> grading_context \<Rightarrow> wf_error + wf_result" where
  "run_grading P ctx =
     (if wp_grader P = None then Inl (WfRuntime ''grading workflow requires a grading port'')
      else bind_res (wf_invoke P ((initial_wf OpGradeOnly)\<lparr>ws_submission :=
               Some \<lparr>sb_context = ctx, sb_previous = None, sb_evidence = Some [], sb_signals = None\<rparr>\<rparr>)) (\<lambda>s.
        Inr \<lparr>wr_generated = None, wr_graded = ws_graded s, wr_updates = [], wr_decision = None,
             wr_proposal = None, wr_actions = ws_actions s\<rparr>))"

subsection \<open>The specification\<close>

definition submission_spec :: "wf_ports \<Rightarrow> prepared_submission \<Rightarrow> wf_error + wf_result" where
  "submission_spec P p =
     (case (wp_grader P, wp_mastery P, wp_observer P, wp_plan P, sb_previous p, sb_evidence p, sb_signals p) of
        (Some grade, Some mastery, Some observe, Some plan, Some previous, Some evidence, Some signals) \<Rightarrow>
          bind_res (wf_call (grade (sb_context p))) (\<lambda>g.
          bind_res (wf_call (mastery previous evidence)) (\<lambda>u.
          bind_res (wf_call (observe signals)) (\<lambda>d.
          bind_res (wf_call (plan d)) (\<lambda>x.
            Inr \<lparr>wr_generated = None, wr_graded = Some g, wr_updates = u, wr_decision = Some d,
                 wr_proposal = Some x,
                 wr_actions = [(''assessment_graded'', Some (gc_hash (sb_context p))),
                   (''mastery_calculated'', None), (''observer_decided'', None), (''plan_proposed'', None)]\<rparr>))))
      | _ \<Rightarrow> Inl WfAssertion)"

definition grading_spec :: "grader_port \<Rightarrow> grading_context \<Rightarrow> wf_error + wf_result" where
  "grading_spec grade ctx =
     bind_res (wf_call (grade ctx)) (\<lambda>g.
       Inr \<lparr>wr_generated = None, wr_graded = Some g, wr_updates = [], wr_decision = None,
            wr_proposal = None, wr_actions = [(''assessment_graded'', Some (gc_hash ctx))]\<rparr>)"

definition generation_spec :: "wf_ports \<Rightarrow> generation_context \<Rightarrow> wf_error + wf_result" where
  "generation_spec P ctx =
     bind_res (wf_call (wp_generator P ctx)) (\<lambda>b.
       Inr \<lparr>wr_generated = Some b, wr_graded = None, wr_updates = [], wr_decision = None,
            wr_proposal = None, wr_actions = [(''assessment_generated'', Some (gn_hash ctx))]\<rparr>)"

lemmas wf_defs = wf_invoke_def wf_entry_def wf_get_def wf_port_def wf_call_def wf_act_def initial_wf_def
  generate_node_def grade_node_def mastery_node_def observer_node_def plan_node_def

lemma wf_run_generate: "wf_run P NGenerate s = generate_node P s"
  by (simp add: wf_run.simps [of P NGenerate] split: sum.split)

lemma wf_run_plan: "wf_run P NPlan s = plan_node P s"
  by (simp add: wf_run.simps [of P NPlan] split: sum.split)

lemma wf_run_observer: "wf_run P NObserver s = bind_res (observer_node P s) (plan_node P)"
  by (simp add: wf_run.simps [of P NObserver] wf_run_plan bind_res_def split: sum.split)

lemma wf_run_mastery:
  "wf_run P NMastery s = bind_res (mastery_node P s) (\<lambda>s. bind_res (observer_node P s) (plan_node P))"
  by (simp add: wf_run.simps [of P NMastery] wf_run_observer bind_res_def split: sum.split)

lemma wf_run_grade:
  "wf_run P NGrade s = bind_res (grade_node P s) (\<lambda>s. if ws_operation s = OpGradeOnly then Inr s
     else bind_res (mastery_node P s) (\<lambda>s. bind_res (observer_node P s) (plan_node P)))"
  by (simp add: wf_run.simps [of P NGrade] wf_run_mastery bind_res_def split: sum.split)

text \<open>C26. The workflow refines its specification: running the graph with all ports is the composition of
  grading, mastery, observation and planning, which stops at the first port that raises and logs
  the actions in that order; grading alone stops after the first node, and without its ports
  nothing is run.\<close>

theorem workflow_refines:
  assumes "sb_previous p \<noteq> None" "sb_evidence p \<noteq> None" "sb_signals p \<noteq> None"
  shows "run_generation P gctx = generation_spec P gctx
    \<and> run_submission P p = (if wp_grader P = None \<or> wp_mastery P = None \<or> wp_observer P = None \<or> wp_plan P = None
        then Inl (WfRuntime ''submission workflow requires grading, mastery, observer, and plan ports'')
        else submission_spec P p)
    \<and> (\<forall>grade. wp_grader P = Some grade \<longrightarrow> run_grading P ctx = grading_spec grade ctx)"
proof (intro conjI allI impI)
  show "run_generation P gctx = generation_spec P gctx"
    by (auto simp: run_generation_def generation_spec_def wf_defs wf_run_generate split: sum.split)
  show "run_grading P ctx = grading_spec grade ctx" if "wp_grader P = Some grade" for grade
    using that by (auto simp: run_grading_def grading_spec_def wf_defs wf_run_grade split: sum.split)
  show "run_submission P p = (if wp_grader P = None \<or> wp_mastery P = None \<or> wp_observer P = None \<or> wp_plan P = None
        then Inl (WfRuntime ''submission workflow requires grading, mastery, observer, and plan ports'')
        else submission_spec P p)"
  proof (cases "wp_grader P = None \<or> wp_mastery P = None \<or> wp_observer P = None \<or> wp_plan P = None")
    case False
    with assms obtain g m ob pl pr ev sg where parts: "wp_grader P = Some g" "wp_mastery P = Some m"
      "wp_observer P = Some ob" "wp_plan P = Some pl" "sb_previous p = Some pr" "sb_evidence p = Some ev"
      "sb_signals p = Some sg" by auto
    show ?thesis
      by (cases "g (sb_context p)"; cases "m pr ev"; cases "ob sg")
         (auto simp: parts run_submission_def submission_spec_def wf_defs wf_run_grade default_to_def split: sum.split)
  qed (simp add: run_submission_def)
qed

lemma workflow_refines_witness:
  "\<exists>P p. run_submission P p = submission_spec P p \<and> is_ok (run_submission P p)"
proof -
  define s where "s = submission_signals [] True None []"
  define p where "p = \<lparr>sb_context = sample_answered, sb_previous = Some [], sb_evidence = Some [], sb_signals = Some s\<rparr>"
  define P where "P = \<lparr>wp_generator = (\<lambda>_. Inr []), wp_grader = Some (\<lambda>_. Inr sample_remote),
    wp_mastery = Some (\<lambda>a b. Inr (calculate_mastery_updates (65 / 100) 0 a b)),
    wp_observer = Some (\<lambda>x. Inr (decide_observer x)), wp_plan = Some (\<lambda>d. Inr (build_plan_proposal d))\<rparr>"
  have "sb_previous p \<noteq> None" "sb_evidence p \<noteq> None" "sb_signals p \<noteq> None" by (simp_all add: p_def)
  from workflow_refines [OF this, of P sample_generation sample_answered]
  have "run_submission P p = submission_spec P p" by (simp add: P_def)
  moreover have "is_ok (submission_spec P p)"
    by (simp add: P_def p_def submission_spec_def wf_call_def)
  ultimately show ?thesis by metis
qed

end
