(* ===== verification/Memory_Store.thy ===== *)
theory Memory_Store
  imports Memory_Gate
begin

text \<open>
  The stored memories: the repository over the table of memories
  (src/backend/app/infrastructure/persistence/repositories/memory_repository.py), the privacy settings
  of a profile (memory_privacy_service.py) and the service that writes the decisions of the gate
  (src/backend/app/application/memory_write_service.py).

  The database is the record \<open>memory_db\<close>: the rows in insertion order, the users, their goals and
  profiles. A query is a filter of the rows, sorted as its ORDER BY says; one session sees its own
  writes, so the retry on a violated unique constraint, which needs a second session, is left out.
  \<open>fresh\<close> is the source of new row ids (uuid4).
\<close>

subsection \<open>Rows and database\<close>

record memory_row =
  mr_id :: ustr
  mr_command :: memory_command
  mr_hash :: ustr
  mr_enabled :: bool
  mr_disabled_at :: "int option"
  mr_disabled_reason :: "ustr option"
  mr_created :: int
  mr_updated :: int

record memory_db =
  db_rows :: "memory_row list"
  db_users :: "ustr list"
  db_goals :: "(ustr \<times> ustr) list"
  db_profiles :: "(ustr, pyvalue) dict"

abbreviation mr_user :: "memory_row \<Rightarrow> ustr" where "mr_user r \<equiv> mc_user (mr_command r)"
abbreviation mr_goal :: "memory_row \<Rightarrow> ustr option" where "mr_goal r \<equiv> mc_goal (mr_command r)"
abbreviation mr_type :: "memory_row \<Rightarrow> memory_type" where "mr_type r \<equiv> mc_type (mr_command r)"
abbreviation mr_key :: "memory_row \<Rightarrow> ustr" where "mr_key r \<equiv> mc_key (mr_command r)"

definition active :: "int \<Rightarrow> memory_row \<Rightarrow> bool" where
  "active now r \<longleftrightarrow> mr_enabled r \<and> (case mc_expires (mr_command r) of None \<Rightarrow> True | Some t \<Rightarrow> now < t)"

subsection \<open>The repository\<close>

definition find_row :: "ustr \<Rightarrow> ustr \<Rightarrow> memory_db \<Rightarrow> memory_row option" where
  "find_row user key db = find (\<lambda>r. mr_user r = user \<and> mr_key r = key) (db_rows db)"

definition immutable_fields_match :: "memory_row \<Rightarrow> memory_command \<Rightarrow> ustr \<Rightarrow> bool" where
  "immutable_fields_match r cmd h \<longleftrightarrow>
     mr_goal r = mc_goal cmd \<and> mr_type r = mc_type cmd \<and> mc_schema (mr_command r) = mc_schema cmd
   \<and> mr_hash r = h \<and> mc_source (mr_command r) = mc_source cmd \<and> mc_source_ref (mr_command r) = mc_source_ref cmd
   \<and> mc_metadata (mr_command r) = mc_metadata cmd \<and> mc_importance (mr_command r) = mc_importance cmd
   \<and> mc_confidence (mr_command r) = mc_confidence cmd \<and> mc_expires (mr_command r) = mc_expires cmd"

definition goal_known :: "memory_command \<Rightarrow> memory_db \<Rightarrow> bool" where
  "goal_known cmd db \<longleftrightarrow> (\<forall>g \<in> set_option (mc_goal cmd). (g, mc_user cmd) \<in> set (db_goals db))"

definition create_or_get ::
  "text_env \<Rightarrow> (nat \<Rightarrow> ustr) \<Rightarrow> int \<Rightarrow> memory_command \<Rightarrow> memory_db \<Rightarrow> memory_error + memory_row \<times> memory_db"
where
  "create_or_get T fresh now cmd db =
     bind_res (validate_memory_command T now cmd) (\<lambda>(normalized, h).
     bind_res (require (mc_user normalized \<in> set (db_users db)) MemoryScopeNotFound) (\<lambda>_.
     bind_res (require (goal_known normalized db) MemoryScopeNotFound) (\<lambda>_.
       case find_row (mc_user normalized) (mc_key normalized) db of
         Some r \<Rightarrow> if immutable_fields_match r normalized h then Inr (r, db) else Inl MemoryIdempotencyConflict
       | None \<Rightarrow>
           (let r = \<lparr>mr_id = lit ''memory-'' @ fresh (length (db_rows db)), mr_command = normalized, mr_hash = h,
                     mr_enabled = True, mr_disabled_at = None, mr_disabled_reason = None,
                     mr_created = now, mr_updated = now\<rparr>
            in Inr (r, db\<lparr>db_rows := db_rows db @ [r]\<rparr>)))))"

definition get_by_id :: "ustr \<Rightarrow> ustr \<Rightarrow> bool \<Rightarrow> int \<Rightarrow> memory_db \<Rightarrow> memory_row option" where
  "get_by_id user i include_inactive now db =
     find (\<lambda>r. mr_id r = i \<and> mr_user r = user \<and> (include_inactive \<or> active now r)) (db_rows db)"

definition in_scope :: "ustr option \<Rightarrow> bool \<Rightarrow> ustr option \<Rightarrow> bool" where
  "in_scope goal include_user_scope g \<longleftrightarrow>
     (case goal of None \<Rightarrow> g = None | Some _ \<Rightarrow> include_user_scope \<and> g = None \<or> g = goal)"

definition list_active ::
  "ustr \<Rightarrow> ustr option \<Rightarrow> memory_type list option \<Rightarrow> bool \<Rightarrow> int \<Rightarrow> int \<Rightarrow> memory_db \<Rightarrow> memory_error + memory_row list"
where
  "list_active user goal types include_user_scope limit now db =
     (if \<not> (1 \<le> limit \<and> limit \<le> 100) then Inl (MemoryValueError ''limit'')
      else if types = Some [] then Inr []
      else Inr (take (nat limit)
        (sort_key (\<lambda>r. (- mc_importance (mr_command r), - mr_created r, mr_id r))
          (filter (\<lambda>r. mr_user r = user \<and> active now r \<and> in_scope goal include_user_scope (mr_goal r)
                      \<and> (case types of None \<Rightarrow> True | Some ts \<Rightarrow> mr_type r \<in> set ts)) (db_rows db)))))"

datatype list_status = ActiveMemories | InactiveMemories | AllMemories

definition list_memories ::
  "ustr \<Rightarrow> ustr option \<Rightarrow> memory_type list option \<Rightarrow> memory_source list option \<Rightarrow> list_status \<Rightarrow> bool
     \<Rightarrow> int \<Rightarrow> int \<Rightarrow> int \<Rightarrow> memory_db \<Rightarrow> memory_error + memory_row list"
where
  "list_memories user goal types sources status include_user_scope limit offset now db =
     (if \<not> (1 \<le> limit \<and> limit \<le> 100) then Inl (MemoryValueError ''limit'')
      else if offset < 0 then Inl (MemoryValueError ''offset'')
      else if types = Some [] \<or> sources = Some [] then Inr []
      else Inr (take (nat limit) (drop (nat offset)
        (sort_key (\<lambda>r. (- mr_created r, mr_id r))
          (filter (\<lambda>r. mr_user r = user \<and> (goal = None \<or> in_scope goal include_user_scope (mr_goal r))
                      \<and> (case types of None \<Rightarrow> True | Some ts \<Rightarrow> mr_type r \<in> set ts)
                      \<and> (case sources of None \<Rightarrow> True | Some ss \<Rightarrow> mc_source (mr_command r) \<in> set ss)
                      \<and> (case status of ActiveMemories \<Rightarrow> active now r | InactiveMemories \<Rightarrow> \<not> active now r
                                      | AllMemories \<Rightarrow> True)) (db_rows db))))))"

definition disable_reasons :: "ustr list" where
  "disable_reasons = map lit [''user_revoked'', ''superseded'', ''incorrect'', ''expired_by_policy'', ''source_invalidated'',
     ''privacy_request'']"

definition switched_off :: "ustr \<Rightarrow> int \<Rightarrow> memory_row \<Rightarrow> memory_row" where
  "switched_off reason now r =
     (if mr_enabled r
      then r\<lparr>mr_enabled := False, mr_disabled_at := Some now, mr_disabled_reason := Some reason, mr_updated := now\<rparr>
      else r)"

definition disable :: "ustr \<Rightarrow> ustr \<Rightarrow> ustr \<Rightarrow> int \<Rightarrow> memory_db \<Rightarrow> memory_error + memory_row \<times> memory_db" where
  "disable user i reason now db =
     (if strip reason \<notin> set disable_reasons then Inl (MemoryValueError ''reason'')
      else (let rows = map (\<lambda>r. if mr_id r = i \<and> mr_user r = user then switched_off (strip reason) now r else r) (db_rows db)
            in case find (\<lambda>r. mr_id r = i \<and> mr_user r = user) rows of
                 None \<Rightarrow> Inl MemoryNotFound
               | Some r \<Rightarrow> Inr (r, db\<lparr>db_rows := rows\<rparr>)))"

subsection \<open>Privacy settings of a profile\<close>

definition default_settings :: privacy_settings where
  "default_settings = \<lparr>ps_enabled = True, ps_explicit = True, ps_inference = False, ps_results = True\<rparr>"

definition settings_flag :: "bool \<Rightarrow> content \<Rightarrow> string \<Rightarrow> memory_error + bool" where
  "settings_flag absent d name =
     (case field d name of None \<Rightarrow> Inr absent | Some (VBool b) \<Rightarrow> Inr b
                         | _ \<Rightarrow> Inl (MemoryValueError ''privacy configuration''))"

definition read_settings :: "content \<Rightarrow> memory_error + privacy_settings" where
  "read_settings d =
     bind_res (require (only_fields [''enabled'', ''allow_explicit_user'', ''allow_system_inference'',
                                    ''allow_learning_results''] d) (MemoryValueError ''privacy configuration'')) (\<lambda>_.
     bind_res (settings_flag True d ''enabled'') (\<lambda>a.
     bind_res (settings_flag True d ''allow_explicit_user'') (\<lambda>b.
     bind_res (settings_flag False d ''allow_system_inference'') (\<lambda>c.
     bind_res (settings_flag True d ''allow_learning_results'') (\<lambda>e.
       Inr \<lparr>ps_enabled = a, ps_explicit = b, ps_inference = c, ps_results = e\<rparr>)))))"

definition parse_memory_privacy_settings :: "pyvalue \<Rightarrow> memory_error + privacy_settings" where
  "parse_memory_privacy_settings raw =
     (case raw of
        VNone \<Rightarrow> Inr default_settings
      | VDict d \<Rightarrow> (case field d ''long_term_memory'' of
                     None \<Rightarrow> Inr default_settings
                   | Some (VDict s) \<Rightarrow> read_settings s
                   | _ \<Rightarrow> Inl (MemoryValueError ''privacy configuration''))
      | _ \<Rightarrow> Inl (MemoryValueError ''privacy configuration''))"

definition privacy_of :: "ustr \<Rightarrow> memory_db \<Rightarrow> memory_error + privacy_settings" where
  "privacy_of user db =
     (case map_of (db_profiles db) user of None \<Rightarrow> Inl MemoryScopeNotFound
                                         | Some raw \<Rightarrow> parse_memory_privacy_settings raw)"

definition dump_settings :: "privacy_settings \<Rightarrow> content" where
  "dump_settings s =
     [(lit ''enabled'', VBool (ps_enabled s)), (lit ''allow_explicit_user'', VBool (ps_explicit s)),
      (lit ''allow_system_inference'', VBool (ps_inference s)), (lit ''allow_learning_results'', VBool (ps_results s))]"

text \<open>The column holds a dictionary or null.\<close>

definition update_privacy :: "ustr \<Rightarrow> privacy_settings \<Rightarrow> memory_db \<Rightarrow> memory_error + memory_db" where
  "update_privacy user s db =
     (case map_of (db_profiles db) user of
        None \<Rightarrow> Inl MemoryScopeNotFound
      | Some VNone \<Rightarrow> Inr (db\<lparr>db_profiles := dict_set user (VDict [(lit ''long_term_memory'', VDict (dump_settings s))])
                                            (db_profiles db)\<rparr>)
      | Some (VDict d) \<Rightarrow> Inr (db\<lparr>db_profiles :=
            dict_set user (VDict (dict_set (lit ''long_term_memory'') (VDict (dump_settings s)) d)) (db_profiles db)\<rparr>)
      | Some _ \<Rightarrow> Inl (MemoryValueError ''profile''))"

subsection \<open>Writing the decisions\<close>

datatype write_status = Saved | Reused | RejectedWrite | Conflict

record write_receipt =
  wr_candidate :: ustr
  wr_origin :: candidate_origin
  wr_status :: write_status
  wr_reason :: string
  wr_memory :: "ustr option"

definition recheck_decision ::
  "text_env \<Rightarrow> privacy_settings \<Rightarrow> ustr \<Rightarrow> ustr \<Rightarrow> int \<Rightarrow> memory_decision \<Rightarrow> memory_error + memory_decision"
where
  "recheck_decision T s user goal now d =
     (if de_kind d = Rejected then Inr d
      else bind_res (evaluate_memory_candidates T s user goal now [de_candidate d]) (\<lambda>ds. Inr (hd ds)))"

definition record_matches_command :: "text_env \<Rightarrow> int \<Rightarrow> memory_row \<Rightarrow> memory_command \<Rightarrow> memory_error + bool" where
  "record_matches_command T now r cmd =
     bind_res (validate_memory_command T now cmd) (\<lambda>(normalized, h).
       Inr (mr_user r = mc_user normalized \<and> immutable_fields_match r normalized h \<and> mr_key r = mc_key normalized))"

definition preflight_one :: "text_env \<Rightarrow> int \<Rightarrow> memory_db \<Rightarrow> memory_decision \<Rightarrow> memory_error + unit" where
  "preflight_one T now db d =
     (let c = de_candidate d; cmd = ca_command c in
      if de_kind d \<noteq> Approved \<or> ca_origin c \<noteq> ExplicitStatement then Inr ()
      else case find_row (mc_user cmd) (mc_key cmd) db of
             None \<Rightarrow> Inr ()
           | Some r \<Rightarrow> bind_res (record_matches_command T now r cmd) (\<lambda>same.
                        require same MemoryIdempotencyConflict))"

definition same_semantic_slot :: "memory_row \<Rightarrow> memory_row \<Rightarrow> bool" where
  "same_semantic_slot l r \<longleftrightarrow>
     mr_type l = mr_type r \<and> mr_goal l = mr_goal r
   \<and> (case mr_type l of
        LearningPreference \<Rightarrow> field (mc_content (mr_command l)) ''preference_key'' = field (mc_content (mr_command r)) ''preference_key''
      | LongTermGoal \<Rightarrow> True
      | MasterySummary \<Rightarrow> field (mc_content (mr_command l)) ''knowledge_node_id'' = field (mc_content (mr_command r)) ''knowledge_node_id''
      | LearningMilestone \<Rightarrow> False)"

fun disable_all :: "ustr \<Rightarrow> int \<Rightarrow> memory_row list \<Rightarrow> memory_db \<Rightarrow> memory_error + memory_db" where
  "disable_all user now [] db = Inr db"
| "disable_all user now (r # rs) db =
     bind_res (disable user (mr_id r) (lit ''superseded'') now db) (\<lambda>(_, db). disable_all user now rs db)"

definition disable_superseded :: "int \<Rightarrow> memory_command \<Rightarrow> memory_row \<Rightarrow> memory_db \<Rightarrow> memory_error + memory_db" where
  "disable_superseded now cmd current db =
     (if mc_type cmd = LearningMilestone then Inr db
      else bind_res (list_active (mc_user cmd) (mc_goal cmd) (Some [mc_type cmd]) False 100 now db) (\<lambda>records.
        disable_all (mc_user cmd) now
          (filter (\<lambda>r. \<not> (mr_id r = mr_id current \<or> \<not> same_semantic_slot r current)) records) db))"

definition save_one ::
  "text_env \<Rightarrow> (nat \<Rightarrow> ustr) \<Rightarrow> ustr \<Rightarrow> int \<Rightarrow> memory_decision \<Rightarrow> memory_db \<Rightarrow> memory_error + write_receipt \<times> memory_db"
where
  "save_one T fresh user now d db =
     (let c = de_candidate d;
          receipt = (\<lambda>status reason i. \<lparr>wr_candidate = ca_id c, wr_origin = ca_origin c, wr_status = status,
                                       wr_reason = reason, wr_memory = i\<rparr>) in
      if de_kind d = Rejected then Inr (receipt RejectedWrite (de_reason d) None, db)
      else
        (let existing = find_row user (mc_key (ca_command c)) db in
         case create_or_get T fresh now (ca_command c) db of
           Inl e \<Rightarrow>
             if e = MemoryIdempotencyConflict \<and> ca_origin c \<noteq> ExplicitStatement
             then Inr (receipt Conflict ''idempotency_conflict''
                        (map_option mr_id (find_row user (mc_key (ca_command c)) db)), db)
             else Inl e
         | Inr (r, db) \<Rightarrow>
             bind_res (if active now r then disable_superseded now (ca_command c) r db else Inr db) (\<lambda>db.
               Inr (if existing \<noteq> None then receipt Reused ''existing_match'' (Some (mr_id r))
                    else receipt Saved ''created'' (Some (mr_id r)), db))))"

fun save_loop ::
  "text_env \<Rightarrow> (nat \<Rightarrow> ustr) \<Rightarrow> ustr \<Rightarrow> int \<Rightarrow> memory_decision list \<Rightarrow> memory_db \<Rightarrow> memory_error + write_receipt list \<times> memory_db"
where
  "save_loop T fresh user now [] db = Inr ([], db)"
| "save_loop T fresh user now (d # ds) db =
     bind_res (save_one T fresh user now d db) (\<lambda>(w, db).
     bind_res (save_loop T fresh user now ds db) (\<lambda>(ws, db). Inr (w # ws, db)))"

definition save_decisions ::
  "text_env \<Rightarrow> (nat \<Rightarrow> ustr) \<Rightarrow> ustr \<Rightarrow> ustr \<Rightarrow> int \<Rightarrow> memory_decision list \<Rightarrow> memory_db
     \<Rightarrow> memory_error + write_receipt list \<times> memory_db"
where
  "save_decisions T fresh user goal now decisions db =
     bind_res (privacy_of user db) (\<lambda>s.
     bind_res (traverse (recheck_decision T s user goal now) decisions) (\<lambda>current.
     bind_res (traverse (preflight_one T now db) current) (\<lambda>_.
       save_loop T fresh user now current db)))"

subsection \<open>What every operation leaves alone\<close>

text \<open>The part of a row that never changes, and the growth of a table: rows are appended and only
  switched off.\<close>

definition frozen :: "memory_row \<Rightarrow> memory_row" where
  "frozen r = r\<lparr>mr_enabled := True, mr_disabled_at := None, mr_disabled_reason := None, mr_updated := 0\<rparr>"

definition grows :: "memory_db \<Rightarrow> memory_db \<Rightarrow> bool" where
  "grows db db' \<longleftrightarrow>
     prefix (map frozen (db_rows db)) (map frozen (db_rows db')) \<and> db_users db' = db_users db
   \<and> db_goals db' = db_goals db \<and> db_profiles db' = db_profiles db"

definition off :: "ustr \<Rightarrow> int \<Rightarrow> ustr set \<Rightarrow> memory_row \<Rightarrow> memory_row" where
  "off user now ids r = (if mr_user r = user \<and> mr_id r \<in> ids then switched_off (lit ''superseded'') now r else r)"

definition supersede :: "ustr \<Rightarrow> int \<Rightarrow> ustr set \<Rightarrow> memory_db \<Rightarrow> memory_db" where
  "supersede user now ids db = db\<lparr>db_rows := map (off user now ids) (db_rows db)\<rparr>"

lemma frozen_fields [simp]:
  "mr_id (frozen r) = mr_id r" "mr_command (frozen r) = mr_command r" "mr_hash (frozen r) = mr_hash r"
  "mr_created (frozen r) = mr_created r"
  by (simp_all add: frozen_def)

lemma frozen_eqD: "frozen r = frozen s \<Longrightarrow> mr_id r = mr_id s \<and> mr_command r = mr_command s \<and> mr_hash r = mr_hash s"
  using frozen_fields by metis

lemma switched_off_simps [simp]:
  "mr_id (switched_off x now r) = mr_id r" "mr_command (switched_off x now r) = mr_command r"
  "frozen (switched_off x now r) = frozen r" "\<not> mr_enabled (switched_off x now r)"
  "\<not> active t (switched_off x now r)" "switched_off y t (switched_off x now r) = switched_off x now r"
  by (simp_all add: switched_off_def frozen_def active_def)

lemma off_simps [simp]:
  "mr_id (off user now ids r) = mr_id r" "mr_command (off user now ids r) = mr_command r"
  "frozen (off user now ids r) = frozen r"
  "active t (off user now ids r) \<longleftrightarrow> active t r \<and> \<not> (mr_user r = user \<and> mr_id r \<in> ids)"
  "off user now A (off user now B r) = off user now (A \<union> B) r" "off user now {} r = r"
  by (auto simp: off_def)

lemma supersede_rows [simp]:
  "db_rows (supersede user now ids db) = map (off user now ids) (db_rows db)"
  "db_users (supersede user now ids db) = db_users db" "db_goals (supersede user now ids db) = db_goals db"
  "db_profiles (supersede user now ids db) = db_profiles db"
  by (simp_all add: supersede_def)

lemma grows_refl [simp]: "grows db db"
  by (simp add: grows_def)

lemma grows_trans [trans]: "grows a b \<Longrightarrow> grows b c \<Longrightarrow> grows a c"
  by (auto simp: grows_def intro: prefix_order.trans)

lemma grows_supersede: "grows db (supersede user now ids db)"
  by (simp add: grows_def o_def)

lemma find_map_frozen:
  "(\<And>r. P (frozen r) = P r) \<Longrightarrow> find P (map frozen rs) = map_option frozen (find P rs)"
  by (induction rs) auto

lemma find_prefix: "prefix xs ys \<Longrightarrow> find P xs = Some x \<Longrightarrow> find P ys = Some x"
proof -
  assume "prefix xs ys" "find P xs = Some x"
  moreover have "find P xs = Some x \<Longrightarrow> find P (xs @ zs) = Some x" for zs by (induction xs) auto
  ultimately show ?thesis by (auto simp: prefix_def)
qed

lemma find_row_grows:
  assumes "grows db db'" "find_row user key db = Some r"
  shows "\<exists>r'. find_row user key db' = Some r' \<and> frozen r' = frozen r"
proof -
  let ?P = "\<lambda>r. mr_user r = user \<and> mr_key r = key"
  have "find ?P (map frozen (db_rows db)) = Some (frozen r)"
    using assms(2) by (simp add: find_map_frozen find_row_def)
  with assms(1) have "find ?P (map frozen (db_rows db')) = Some (frozen r)"
    unfolding grows_def by (metis find_prefix)
  then show ?thesis by (simp add: find_map_frozen find_row_def)
qed

lemma match_frozen: "frozen r = frozen s \<Longrightarrow> immutable_fields_match r cmd h = immutable_fields_match s cmd h"
  using frozen_eqD [of r s] by (simp add: immutable_fields_match_def)

lemma find_row_Some: "find_row user key db = Some r \<Longrightarrow> r \<in> set (db_rows db) \<and> mr_user r = user \<and> mr_key r = key"
  by (auto simp: find_row_def find_Some_iff)

lemma find_row_None: "find_row user key db = None \<longleftrightarrow> (\<forall>r \<in> set (db_rows db). \<not> (mr_user r = user \<and> mr_key r = key))"
  by (auto simp: find_row_def find_None_iff)

subsection \<open>Switching off\<close>

lemma strip_superseded [simp]: "strip (lit ''superseded'') = lit ''superseded''"
  by (intro strip_no_space) (simp add: lit_def py_isspace_def)

lemma superseded_reason [simp]: "lit ''superseded'' \<in> set disable_reasons"
  by (simp add: disable_reasons_def)

lemma disable_superseding:
  assumes "r \<in> set (db_rows db)" "mr_user r = user"
  shows "\<exists>s. disable user (mr_id r) (lit ''superseded'') now db = Inr (s, supersede user now {mr_id r} db)"
proof -
  have rows: "map (\<lambda>s. if mr_id s = mr_id r \<and> mr_user s = user then switched_off (lit ''superseded'') now s else s) (db_rows db)
      = map (off user now {mr_id r}) (db_rows db)" by (auto simp: off_def)
  have "find (\<lambda>s. mr_id s = mr_id r \<and> mr_user s = user) (map (off user now {mr_id r}) (db_rows db)) \<noteq> None"
    unfolding find_None_iff using assms by auto
  then obtain s where "find (\<lambda>s. mr_id s = mr_id r \<and> mr_user s = user) (map (off user now {mr_id r}) (db_rows db)) = Some s"
    by blast
  then show ?thesis
    unfolding disable_def strip_superseded rows supersede_def Let_def by simp
qed

lemma supersede_supersede: "supersede user now A (supersede user now B db) = supersede user now (A \<union> B) db"
  by (simp add: supersede_def o_def)

lemma supersede_empty [simp]: "supersede user now {} db = db"
proof -
  have "map (off user now {}) rs = rs" for rs by (rule map_idI) simp
  then show ?thesis by (simp add: supersede_def)
qed

lemma disable_all_eq:
  assumes "\<forall>r \<in> set rs. mr_user r = user \<and> (\<exists>s \<in> set (db_rows db). mr_user s = user \<and> mr_id s = mr_id r)"
  shows "disable_all user now rs db = Inr (supersede user now (mr_id ` set rs) db)"
  using assms
proof (induction rs arbitrary: db)
  case (Cons r rs)
  then obtain s where s: "s \<in> set (db_rows db)" "mr_user s = user" "mr_id s = mr_id r" by auto
  from disable_superseding [OF s(1,2), of now] s(3) obtain x where
    x: "disable user (mr_id r) (lit ''superseded'') now db = Inr (x, supersede user now {mr_id r} db)" by auto
  have "\<forall>q \<in> set rs. mr_user q = user \<and> (\<exists>s \<in> set (db_rows (supersede user now {mr_id r} db)). mr_user s = user \<and> mr_id s = mr_id q)"
    using Cons.prems by simp
  from Cons.IH [OF this] x show ?case
    by (simp add: supersede_supersede)
qed simp

subsection \<open>One write\<close>

lemma create_or_get_cases:
  assumes "create_or_get T fresh now cmd db = Inr (r, db1)"
  obtains normalized h where "validate_memory_command T now cmd = Inr (normalized, h)"
    "mc_user cmd \<in> set (db_users db)" "goal_known cmd db"
    "find_row (mc_user cmd) (mc_key cmd) db = Some r" "immutable_fields_match r normalized h" "db1 = db"
  | normalized h where "validate_memory_command T now cmd = Inr (normalized, h)"
    "mc_user cmd \<in> set (db_users db)" "goal_known cmd db"
    "find_row (mc_user cmd) (mc_key cmd) db = None"
    "r = \<lparr>mr_id = lit ''memory-'' @ fresh (length (db_rows db)), mr_command = normalized, mr_hash = h, mr_enabled = True,
          mr_disabled_at = None, mr_disabled_reason = None, mr_created = now, mr_updated = now\<rparr>"
    "db1 = db\<lparr>db_rows := db_rows db @ [r]\<rparr>"
proof -
  from assms obtain normalized h where v: "validate_memory_command T now cmd = Inr (normalized, h)"
    by (auto simp: create_or_get_def bind_res_Inr_iff)
  then obtain c m where "normalized = cmd\<lparr>mc_content := c, mc_metadata := m\<rparr>"
    by (rule validate_parts) blast
  then have same: "mc_user normalized = mc_user cmd" "mc_key normalized = mc_key cmd" "goal_known normalized db = goal_known cmd db"
    by (simp_all add: goal_known_def)
  show thesis
    using assms that v
    by (auto simp: create_or_get_def bind_res_Inr_iff same Let_def split: option.splits if_splits)
qed

lemma goal_known_cong:
  "mc_goal a = mc_goal b \<Longrightarrow> mc_user a = mc_user b \<Longrightarrow> db_goals x = db_goals y \<Longrightarrow> goal_known a x = goal_known b y"
  by (simp add: goal_known_def)

lemma validated_fields:
  assumes "validate_memory_command T now cmd = Inr (v, h)"
  shows "mc_user v = mc_user cmd" "mc_key v = mc_key cmd" "mc_goal v = mc_goal cmd" "mc_type v = mc_type cmd"
    "mc_expires v = mc_expires cmd" "validate_expiry now cmd = Inr ()"
  using assms by (elim validate_parts; simp)+

lemma create_or_get_row:
  assumes "create_or_get T fresh now cmd db = Inr (r, db1)"
  shows "grows db db1" "r \<in> set (db_rows db1)" "mr_user r = mc_user cmd" "mr_key r = mc_key cmd" "mr_goal r = mc_goal cmd"
    "mr_type r = mc_type cmd" "db1 = db \<or> db1 = db\<lparr>db_rows := db_rows db @ [r]\<rparr>"
    "find_row (mc_user cmd) (mc_key cmd) db1 = Some r"
proof -
  have "grows db db1 \<and> r \<in> set (db_rows db1) \<and> mr_user r = mc_user cmd \<and> mr_key r = mc_key cmd \<and> mr_goal r = mc_goal cmd
    \<and> mr_type r = mc_type cmd \<and> (db1 = db \<or> db1 = db\<lparr>db_rows := db_rows db @ [r]\<rparr>)
    \<and> find_row (mc_user cmd) (mc_key cmd) db1 = Some r"
    using assms
  proof (cases rule: create_or_get_cases)
    case (1 normalized h)
    with find_row_Some [OF 1(4)] validated_fields [OF 1(1)] show ?thesis by (simp add: immutable_fields_match_def)
  next
    case (2 normalized h)
    have "find P (xs @ [x]) = Some x" if "find P xs = None" "P x" for P and x :: memory_row and xs
      using that by (induction xs) (auto split: if_splits)
    with 2 validated_fields [OF 2(1)] show ?thesis by (auto simp: grows_def find_row_def)
  qed
  then show "grows db db1" "r \<in> set (db_rows db1)" "mr_user r = mc_user cmd" "mr_key r = mc_key cmd" "mr_goal r = mc_goal cmd"
    "mr_type r = mc_type cmd" "db1 = db \<or> db1 = db\<lparr>db_rows := db_rows db @ [r]\<rparr>"
    "find_row (mc_user cmd) (mc_key cmd) db1 = Some r" by blast+
qed

subsection \<open>The slots of a user\<close>

definition slots_unique :: "ustr \<Rightarrow> int \<Rightarrow> memory_db \<Rightarrow> bool" where
  "slots_unique user now db \<longleftrightarrow>
     (\<forall>r \<in> set (db_rows db). \<forall>s \<in> set (db_rows db).
        mr_user r = user \<and> mr_user s = user \<and> active now r \<and> active now s \<and> same_semantic_slot r s
        \<longrightarrow> mr_id r = mr_id s)"

definition memory_class :: "ustr \<Rightarrow> int \<Rightarrow> ustr option \<Rightarrow> memory_type \<Rightarrow> memory_row \<Rightarrow> bool" where
  "memory_class user now g ty r \<longleftrightarrow> mr_user r = user \<and> active now r \<and> mr_goal r = g \<and> mr_type r = ty"

text \<open>Room for \<open>n\<close> more memories: with them no class of one goal and type exceeds the page of 100
  rows that the service looks at.\<close>

definition has_room :: "ustr \<Rightarrow> int \<Rightarrow> nat \<Rightarrow> memory_db \<Rightarrow> bool" where
  "has_room user now n db \<longleftrightarrow> (\<forall>g ty. length (filter (memory_class user now g ty) (db_rows db)) + n \<le> 100)"

definition rivals :: "int \<Rightarrow> memory_row \<Rightarrow> memory_db \<Rightarrow> ustr set" where
  "rivals now r db = mr_id ` {s \<in> set (db_rows db). mr_user s = mr_user r \<and> active now s \<and> same_semantic_slot s r \<and> mr_id s \<noteq> mr_id r}"

lemma list_active_page:
  "list_active user goal (Some [ty]) False 100 now db = Inr (take 100
     (sort_key (\<lambda>r. (- mc_importance (mr_command r), - mr_created r, mr_id r)) (filter (memory_class user now goal ty) (db_rows db))))"
proof -
  have "(\<lambda>r. mr_user r = user \<and> active now r \<and> in_scope goal False (mr_goal r) \<and> mr_type r \<in> set [ty])
      = memory_class user now goal ty"
    by (auto simp: fun_eq_iff memory_class_def in_scope_def split: option.splits)
  then show ?thesis by (simp add: list_active_def)
qed

lemma disable_superseded_eq:
  assumes r: "mr_user r = mc_user cmd" "mr_goal r = mc_goal cmd" "mr_type r = mc_type cmd"
  shows "\<exists>ids. disable_superseded now cmd r db = Inr (supersede (mc_user cmd) now ids db) \<and> ids \<subseteq> rivals now r db
    \<and> (has_room (mc_user cmd) now 0 db \<longrightarrow> ids = rivals now r db)"
proof (cases "mc_type cmd = LearningMilestone")
  case True
  with r have "rivals now r db = {}" by (auto simp: rivals_def same_semantic_slot_def)
  then show ?thesis using True by (auto simp: disable_superseded_def intro!: exI [of _ "{}"])
next
  case False
  let ?slots = "filter (memory_class (mc_user cmd) now (mc_goal cmd) (mc_type cmd)) (db_rows db)"
  let ?page = "take 100 (sort_key (\<lambda>r. (- mc_importance (mr_command r), - mr_created r, mr_id r)) ?slots)"
  let ?old = "filter (\<lambda>s. \<not> (mr_id s = mr_id r \<or> \<not> same_semantic_slot s r)) ?page"
  have page: "set ?page \<subseteq> set ?slots" by (rule subset_trans [OF set_take_subset]) simp
  have "\<forall>s \<in> set ?old. mr_user s = mc_user cmd \<and> s \<in> set (db_rows db)"
  proof
    fix s assume "s \<in> set ?old"
    then have "s \<in> set ?page" unfolding set_filter by blast
    with page have "s \<in> set ?slots" by blast
    then show "mr_user s = mc_user cmd \<and> s \<in> set (db_rows db)" by (simp add: memory_class_def)
  qed
  then have "\<forall>s \<in> set ?old. mr_user s = mc_user cmd \<and> (\<exists>t \<in> set (db_rows db). mr_user t = mc_user cmd \<and> mr_id t = mr_id s)"
    by blast
  then have "disable_all (mc_user cmd) now ?old db = Inr (supersede (mc_user cmd) now (mr_id ` set ?old) db)"
    by (rule disable_all_eq)
  with False have eq: "disable_superseded now cmd r db = Inr (supersede (mc_user cmd) now (mr_id ` set ?old) db)"
    by (simp only: disable_superseded_def list_active_page if_False bind_res_simps)
  have sub: "mr_id ` set ?old \<subseteq> rivals now r db"
    using page r by (auto simp: rivals_def memory_class_def)
  have "rivals now r db \<subseteq> mr_id ` set ?old" if "has_room (mc_user cmd) now 0 db"
  proof -
    from that have "length ?slots \<le> 100" by (simp add: has_room_def)
    then have "set ?page = set ?slots" by simp
    moreover have "memory_class (mc_user cmd) now (mc_goal cmd) (mc_type cmd) s"
      if "mr_user s = mr_user r" "active now s" "same_semantic_slot s r" for s
      using that r by (simp add: memory_class_def same_semantic_slot_def)
    ultimately show ?thesis by (auto simp: rivals_def)
  qed
  with eq sub show ?thesis by blast
qed

lemma save_one_cases:
  assumes "save_one T fresh user now d db = Inr (w, db')"
  obtains "de_kind d = Rejected" "db' = db" "wr_memory w = None" "wr_status w = RejectedWrite"
  | "de_kind d = Approved" "create_or_get T fresh now (ca_command (de_candidate d)) db = Inl MemoryIdempotencyConflict"
    "ca_origin (de_candidate d) \<noteq> ExplicitStatement" "db' = db" "wr_status w = Conflict"
    "wr_memory w = map_option mr_id (find_row user (mc_key (ca_command (de_candidate d))) db)"
  | r db1 ids where "de_kind d = Approved" "create_or_get T fresh now (ca_command (de_candidate d)) db = Inr (r, db1)"
    "db' = supersede (mc_user (ca_command (de_candidate d))) now ids db1" "ids \<subseteq> rivals now r db1"
    "active now r \<Longrightarrow> has_room (mc_user (ca_command (de_candidate d))) now 0 db1 \<Longrightarrow> ids = rivals now r db1"
    "\<not> active now r \<Longrightarrow> ids = {}" "wr_memory w = Some (mr_id r)"
    "wr_status w = (if find_row user (mc_key (ca_command (de_candidate d))) db = None then Saved else Reused)"
proof (cases "de_kind d")
  case Rejected
  with assms that(1) show thesis by (auto simp: save_one_def Let_def)
next
  case Approved
  let ?cmd = "ca_command (de_candidate d)"
  show thesis
  proof (cases "create_or_get T fresh now ?cmd db")
    case (Inl e)
    with assms Approved that(2) show thesis by (auto simp: save_one_def Let_def split: if_splits)
  next
    case (Inr p)
    obtain r db1 where p: "p = (r, db1)" by (cases p)
    note c = create_or_get_row [OF Inr [unfolded p]]
    from disable_superseded_eq [OF c(3,5,6), of now db1] obtain ids where ids:
      "disable_superseded now ?cmd r db1 = Inr (supersede (mc_user ?cmd) now ids db1)" "ids \<subseteq> rivals now r db1"
      "has_room (mc_user ?cmd) now 0 db1 \<Longrightarrow> ids = rivals now r db1" by blast
    show thesis
    proof (cases "active now r")
      case True
      with assms Approved Inr p ids(1) have "db' = supersede (mc_user ?cmd) now ids db1" "wr_memory w = Some (mr_id r)"
        "wr_status w = (if find_row user (mc_key ?cmd) db = None then Saved else Reused)"
        by (auto simp: save_one_def Let_def split: if_splits)
      with that(3) [of r db1 ids] Approved Inr p ids True show thesis by blast
    next
      case False
      with assms Approved Inr p have "db' = supersede (mc_user ?cmd) now {} db1" "wr_memory w = Some (mr_id r)"
        "wr_status w = (if find_row user (mc_key ?cmd) db = None then Saved else Reused)"
        by (auto simp: save_one_def Let_def split: if_splits)
      with that(3) [of r db1 "{}"] Approved Inr p False show thesis by blast
    qed
  qed
qed

subsection \<open>The invariant of the store\<close>

definition row_ok :: "memory_db \<Rightarrow> memory_row \<Rightarrow> bool" where
  "row_ok db r \<longleftrightarrow>
     mr_user r \<in> set (db_users db) \<and> (\<forall>g \<in> set_option (mr_goal r). (g, mr_user r) \<in> set (db_goals db))
   \<and> (mr_enabled r \<longleftrightarrow> mr_disabled_at r = None) \<and> (mr_enabled r \<longleftrightarrow> mr_disabled_reason r = None)"

definition store_ok :: "(nat \<Rightarrow> ustr) \<Rightarrow> memory_db \<Rightarrow> bool" where
  "store_ok fresh db \<longleftrightarrow>
     map mr_id (db_rows db) = map (\<lambda>i. lit ''memory-'' @ fresh i) [0..<length (db_rows db)]
   \<and> distinct (map (\<lambda>r. (mr_user r, mr_key r)) (db_rows db))
   \<and> list_all (row_ok db) (db_rows db)"

definition rows_of_others :: "ustr \<Rightarrow> memory_db \<Rightarrow> memory_row list" where
  "rows_of_others user db = filter (\<lambda>r. mr_user r \<noteq> user) (db_rows db)"

lemma same_slot_sym: "same_semantic_slot r s \<Longrightarrow> same_semantic_slot s r"
  by (auto simp: same_semantic_slot_def split: memory_type.splits)

lemma same_slot_off [simp]:
  "same_semantic_slot (off u t i r) s = same_semantic_slot r s" "same_semantic_slot s (off u t i r) = same_semantic_slot s r"
  by (simp_all only: same_semantic_slot_def off_simps)

lemma length_filter_off: "length (filter (memory_class user now g ty) (map (off u t i) rs)) \<le> length (filter (memory_class user now g ty) rs)"
  by (induction rs) (auto simp: memory_class_def)

lemma has_room_supersede: "has_room user now n db \<Longrightarrow> has_room user now n (supersede u t i db)"
  unfolding has_room_def supersede_rows by (meson add_le_mono1 length_filter_off order_trans)

lemma has_room_append: "has_room user now (Suc n) db \<Longrightarrow> has_room user now n (db\<lparr>db_rows := db_rows db @ [r]\<rparr>)"
proof -
  assume room: "has_room user now (Suc n) db"
  have "length (filter (memory_class user now g ty) (db_rows db @ [r])) + n
      \<le> length (filter (memory_class user now g ty) (db_rows db)) + Suc n" for g ty by simp
  with room show ?thesis unfolding has_room_def by (fastforce intro: order_trans)
qed

lemma has_room_less: "has_room user now (Suc n) db \<Longrightarrow> has_room user now n db"
  unfolding has_room_def by (metis Suc_leD add_Suc_right)

lemma row_ok_off: "row_ok db r \<Longrightarrow> row_ok db (off u t i r)"
  by (auto simp: row_ok_def off_def switched_off_def)

lemma row_ok_rows [simp]: "row_ok (db\<lparr>db_rows := rs\<rparr>) = row_ok db"
  by (simp add: row_ok_def fun_eq_iff)

lemma row_ok_supersede [simp]: "row_ok (supersede u t i db) = row_ok db"
  by (simp add: row_ok_def fun_eq_iff)

lemma store_ok_supersede: "store_ok fresh db \<Longrightarrow> store_ok fresh (supersede u t i db)"
  by (auto simp: store_ok_def o_def list_all_iff intro: row_ok_off)

lemma create_store_ok:
  assumes c: "create_or_get T fresh now cmd db = Inr (r, db1)" and ok: "store_ok fresh db"
  shows "store_ok fresh db1" "db1 \<noteq> db \<Longrightarrow> active now r"
proof -
  have "store_ok fresh db1 \<and> (db1 \<noteq> db \<longrightarrow> active now r)"
    using c
  proof (cases rule: create_or_get_cases)
    case (2 normalized h)
    note v = validated_fields [OF 2(1)]
    from 2(4) have "(mc_user cmd, mc_key cmd) \<notin> set (map (\<lambda>r. (mr_user r, mr_key r)) (db_rows db))"
      by (auto simp: find_row_None)
    moreover have "row_ok db r" using 2(2,3) v by (auto simp: 2(5) row_ok_def goal_known_def)
    moreover have "active now r" using v(5,6) by (auto simp: 2(5) active_def validate_expiry_def Let_def split: option.splits if_splits)
    ultimately show ?thesis using ok v by (auto simp: 2(5,6) store_ok_def list_all_iff)
  qed (use ok in simp)
  then show "store_ok fresh db1" "db1 \<noteq> db \<Longrightarrow> active now r" by blast+
qed

lemma save_one_keeps:
  assumes s: "save_one T fresh user now d db = Inr (w, db')"
    and mine: "de_kind d = Approved \<Longrightarrow> mc_user (ca_command (de_candidate d)) = user"
  shows "grows db db'" "rows_of_others user db' = rows_of_others user db"
    "store_ok fresh db \<Longrightarrow> store_ok fresh db'"
    "has_room user now (Suc n) db \<Longrightarrow> has_room user now n db'"
    "has_room user now (Suc n) db \<Longrightarrow> store_ok fresh db \<Longrightarrow> slots_unique user now db \<Longrightarrow> slots_unique user now db'"
proof -
  have "grows db db' \<and> rows_of_others user db' = rows_of_others user db
    \<and> (store_ok fresh db \<longrightarrow> store_ok fresh db') \<and> (has_room user now (Suc n) db \<longrightarrow> has_room user now n db')
    \<and> (has_room user now (Suc n) db \<and> store_ok fresh db \<and> slots_unique user now db \<longrightarrow> slots_unique user now db')"
    using s
  proof (cases rule: save_one_cases)
    case (3 r db1 ids)
    note c = create_or_get_row [OF 3(2)]
    have user: "mc_user (ca_command (de_candidate d)) = user" using mine 3(1) by simp
    have "filter (\<lambda>r. mr_user r \<noteq> user) (map (off user now ids) rs) = filter (\<lambda>r. mr_user r \<noteq> user) rs" for rs
      by (induction rs) (auto simp: off_def)
    then have others: "rows_of_others user (supersede user now ids db1) = rows_of_others user db1"
      by (simp add: rows_of_others_def)
    have others1: "rows_of_others user db1 = rows_of_others user db"
      using c(3,7) user by (auto simp: rows_of_others_def)
    have room: "has_room user now (Suc n) db \<Longrightarrow> has_room user now n db1"
      using c(7) has_room_append has_room_less by blast
    have slots: "slots_unique user now db'"
      if R: "has_room user now (Suc n) db" and ok: "store_ok fresh db" and U: "slots_unique user now db"
      unfolding slots_unique_def
    proof (intro ballI impI, elim conjE)
      fix a' b' assume *: "a' \<in> set (db_rows db')" "b' \<in> set (db_rows db')" "mr_user a' = user" "mr_user b' = user"
        "active now a'" "active now b'" "same_semantic_slot a' b'"
      from * obtain a b where ab: "a' = off user now ids a" "b' = off user now ids b" "a \<in> set (db_rows db1)" "b \<in> set (db_rows db1)"
        by (auto simp: 3(3) user)
      with * have act: "active now a" "active now b" "mr_id a \<notin> ids" "mr_id b \<notin> ids" "same_semantic_slot a b"
        "mr_user a = user" "mr_user b = user" by auto
      have "mr_id a = mr_id b"
      proof (cases "a \<in> set (db_rows db) \<and> b \<in> set (db_rows db)")
        case True
        with U act show ?thesis unfolding slots_unique_def by blast
      next
        case False
        with ab(3,4) c(7) have new: "db1 \<noteq> db" "a = r \<or> b = r" by auto
        from create_store_ok(2) [OF 3(2) ok new(1)] have r: "active now r" .
        from R room have "has_room user now n db1" by blast
        then have "has_room user now 0 db1" unfolding has_room_def by (metis add_leD1 add_0_right)
        with 3(5) [OF r] user have ids: "ids = rivals now r db1" by simp
        show ?thesis
        proof (rule ccontr)
          assume "mr_id a \<noteq> mr_id b"
          with new(2) act ab(3,4) same_slot_sym [OF act(5)] c(3) user have "mr_id a \<in> rivals now r db1 \<or> mr_id b \<in> rivals now r db1"
            by (auto simp: rivals_def)
          with act ids show False by blast
        qed
      qed
      with ab show "mr_id a' = mr_id b'" by simp
    qed
    have "grows db db'" using grows_trans [OF c(1) grows_supersede] 3(3) by simp
    then show ?thesis
      using others others1 room slots create_store_ok(1) [OF 3(2)] store_ok_supersede has_room_supersede 3(3) user by auto
  qed (use has_room_less in auto)
  then show "grows db db'" "rows_of_others user db' = rows_of_others user db"
    "store_ok fresh db \<Longrightarrow> store_ok fresh db'"
    "has_room user now (Suc n) db \<Longrightarrow> has_room user now n db'"
    "has_room user now (Suc n) db \<Longrightarrow> store_ok fresh db \<Longrightarrow> slots_unique user now db \<Longrightarrow> slots_unique user now db'"
    by blast+
qed

subsection \<open>Writing a list of decisions\<close>

definition mine :: "ustr \<Rightarrow> memory_decision \<Rightarrow> bool" where
  "mine user d \<longleftrightarrow> (de_kind d = Approved \<longrightarrow> mc_user (ca_command (de_candidate d)) = user)"

lemma save_loop_keeps:
  assumes "save_loop T fresh user now ds db = Inr (ws, db')" "list_all (mine user) ds"
  shows "grows db db'" "rows_of_others user db' = rows_of_others user db" "length ws = length ds"
    "store_ok fresh db \<Longrightarrow> store_ok fresh db'"
    "has_room user now (length ds) db \<Longrightarrow> store_ok fresh db \<Longrightarrow> slots_unique user now db \<Longrightarrow>
       slots_unique user now db' \<and> has_room user now 0 db'"
proof -
  have "grows db db' \<and> rows_of_others user db' = rows_of_others user db \<and> length ws = length ds
    \<and> (store_ok fresh db \<longrightarrow> store_ok fresh db')
    \<and> (has_room user now (length ds) db \<and> store_ok fresh db \<and> slots_unique user now db
        \<longrightarrow> slots_unique user now db' \<and> has_room user now 0 db')"
    using assms
  proof (induction ds arbitrary: db ws)
    case (Cons d ds)
    from Cons.prems(1) obtain w db1 vs where one: "save_one T fresh user now d db = Inr (w, db1)"
      and rest: "save_loop T fresh user now ds db1 = Inr (vs, db')" "ws = w # vs"
      by (auto simp: bind_res_Inr_iff)
    have "mc_user (ca_command (de_candidate d)) = user" if "de_kind d = Approved"
      using that Cons.prems(2) by (simp add: mine_def)
    note keep = save_one_keeps [OF one this]
    from Cons.IH [OF rest(1)] Cons.prems(2) rest(2) keep keep(4,5) [where n = "length ds"] show ?case
      using grows_trans by auto
  qed auto
  then show "grows db db'" "rows_of_others user db' = rows_of_others user db" "length ws = length ds"
    "store_ok fresh db \<Longrightarrow> store_ok fresh db'"
    "has_room user now (length ds) db \<Longrightarrow> store_ok fresh db \<Longrightarrow> slots_unique user now db \<Longrightarrow>
       slots_unique user now db' \<and> has_room user now 0 db'" by blast+
qed

lemma recheck_mine:
  assumes "recheck_decision T s user goal now d = Inr e"
  shows "mine user e" "de_candidate e = de_candidate d"
    "de_kind e = Approved \<Longrightarrow> de_kind d = Approved \<and> approvable T s user goal now (de_candidate d)"
proof -
  have "mine user e \<and> de_candidate e = de_candidate d
    \<and> (de_kind e = Approved \<longrightarrow> de_kind d = Approved \<and> approvable T s user goal now (de_candidate d))"
  proof (cases "de_kind d = Rejected")
    case False
    with assms obtain ds where ds: "evaluate_memory_candidates T s user goal now [de_candidate d] = Inr ds" "e = hd ds"
      by (auto simp: recheck_decision_def bind_res_Inr_iff)
    from evaluate_sound(2) [OF ds(1)] obtain e' where e': "ds = [e']" by (cases ds) auto
    with ds evaluate_single [of T s user goal now "de_candidate d" e'] False show ?thesis
      by (cases "de_kind d") (auto simp: mine_def approvable_def)
  qed (use assms in \<open>simp add: recheck_decision_def mine_def\<close>)
  then show "mine user e" "de_candidate e = de_candidate d"
    "de_kind e = Approved \<Longrightarrow> de_kind d = Approved \<and> approvable T s user goal now (de_candidate d)" by blast+
qed

lemma save_decisions_parts:
  assumes "save_decisions T fresh user goal now ds db = Inr (ws, db')"
  obtains s current us where "privacy_of user db = Inr s" "traverse (recheck_decision T s user goal now) ds = Inr current"
    "traverse (preflight_one T now db) current = Inr us" "save_loop T fresh user now current db = Inr (ws, db')"
    "list_all (mine user) current" "length current = length ds"
proof -
  from assms obtain s current us where c: "privacy_of user db = Inr s"
    "traverse (recheck_decision T s user goal now) ds = Inr current" "traverse (preflight_one T now db) current = Inr us"
    "save_loop T fresh user now current db = Inr (ws, db')"
    by (auto simp: save_decisions_def bind_res_Inr_iff)
  moreover have "list_all (mine user) current"
    unfolding list_all_iff using traverse_Inr_all [OF c(2)] recheck_mine(1) by blast
  moreover have "length current = length ds" using traverse_Inr_length [OF c(2)] .
  ultimately show thesis by (rule that)
qed

lemma save_keeps:
  assumes s: "save_decisions T fresh user goal now ds db = Inr (ws, db')"
  shows "grows db db'" "rows_of_others user db' = rows_of_others user db" "length ws = length ds"
    "store_ok fresh db \<Longrightarrow> store_ok fresh db'"
    "has_room user now (length ds) db \<Longrightarrow> store_ok fresh db \<Longrightarrow> slots_unique user now db \<Longrightarrow>
       slots_unique user now db' \<and> has_room user now 0 db'"
proof -
  from s obtain p current us where "privacy_of user db = Inr p" "traverse (recheck_decision T p user goal now) ds = Inr current"
    "traverse (preflight_one T now db) current = Inr us" and l: "save_loop T fresh user now current db = Inr (ws, db')"
    "list_all (mine user) current" and len: "length current = length ds"
    by (rule save_decisions_parts)
  show "grows db db'" "rows_of_others user db' = rows_of_others user db" "length ws = length ds"
    "store_ok fresh db \<Longrightarrow> store_ok fresh db'"
    "has_room user now (length ds) db \<Longrightarrow> store_ok fresh db \<Longrightarrow> slots_unique user now db \<Longrightarrow>
       slots_unique user now db' \<and> has_room user now 0 db'"
    using save_loop_keeps [OF l] by (simp_all add: len)
qed

text \<open>C27. Writing decisions keeps the store consistent: row ids and the keys of a user stay unique, rows are
  never deleted or rewritten but only switched off, other users' rows are not touched, and, as long
  as no class of one goal and type outgrows the page of 100 rows, a user never has two active
  memories in one slot (a preference key, a goal, the mastery of a node).\<close>

theorem save_keeps_store:
  assumes "save_decisions T fresh user goal now ds db = Inr (ws, db')" "inj fresh" "store_ok fresh db"
    "slots_unique user now db" "has_room user now (length ds) db"
  shows "store_ok fresh db' \<and> distinct (map mr_id (db_rows db')) \<and> slots_unique user now db'
    \<and> rows_of_others user db' = rows_of_others user db
    \<and> prefix (map frozen (db_rows db)) (map frozen (db_rows db')) \<and> length ws = length ds"
proof -
  note keep = save_keeps [OF assms(1)]
  have "inj (\<lambda>i. lit ''memory-'' @ fresh i)" using assms(2) by (simp add: inj_def)
  then have "distinct (map (\<lambda>i. lit ''memory-'' @ fresh i) [0..<n])" for n
    by (simp add: distinct_map) (meson inj_on_subset subset_UNIV)
  with keep assms(3-5) show ?thesis by (simp add: grows_def store_ok_def)
qed

subsection \<open>Writing the same decisions again\<close>

declare norm_value.simps [simp del]

lemma norm_error:
  "norm_value T depth nodes v = Inl e \<Longrightarrow> e = InvalidMemoryContent"
  "norm_items T depth nodes xs = Inl e \<Longrightarrow> e = InvalidMemoryContent"
  "norm_entries T depth nodes d = Inl e \<Longrightarrow> e = InvalidMemoryContent"
proof (induction T depth nodes v and T depth nodes xs and T depth nodes d arbitrary: e and e and e
    rule: norm_value_norm_items_norm_entries.induct)
  case (1 T depth nodes v)
  show ?case
  proof (cases v)
    case (VList xs)
    with "1.prems" "1.IH"(1) [of xs e] show ?thesis
      by (auto simp: norm_value.simps [of T depth nodes "VList xs"] bind_res_Inl_iff split: if_splits)
  next
    case (VDict d)
    with "1.prems" "1.IH"(2) [of d e] show ?thesis
      by (auto simp: norm_value.simps [of T depth nodes "VDict d"] bind_res_Inl_iff split: if_splits)
  qed (use "1.prems" in \<open>simp add: norm_value.simps [of T depth nodes] split: if_splits\<close>)+
next
  case (3 T depth nodes x xs)
  then show ?case by (fastforce simp: bind_res_Inl_iff)
next
  case (5 T depth nodes k x d)
  then show ?case by (fastforce simp: bind_res_Inl_iff split: if_splits)
qed simp_all

lemma normalize_error: "normalize_dict T d = Inl e \<Longrightarrow> e = InvalidMemoryContent"
proof -
  assume "normalize_dict T d = Inl e"
  then consider "norm_value T 1 0 (VDict d) = Inl e" | v where "(case v of VDict e \<Rightarrow> Inr e | _ \<Rightarrow> Inl InvalidMemoryContent) = Inl e"
    by (auto simp: normalize_dict_def bind_res_Inl_iff)
  then show "e = InvalidMemoryContent"
  proof cases
    case (2 v)
    then show ?thesis by (cases v) auto
  qed (rule norm_error)
qed

lemma validate_no_conflict: "validate_memory_command T now cmd \<noteq> Inl MemoryIdempotencyConflict"
proof
  assume "validate_memory_command T now cmd = Inl MemoryIdempotencyConflict"
  then show False
    by (auto simp: validate_memory_command_def bind_res_Inl_iff validate_scope_def validate_source_def validate_expiry_def
        require_def Let_def dest: normalize_error split: if_splits option.splits)
qed

lemma create_conflict:
  assumes "create_or_get T fresh now cmd db = Inl MemoryIdempotencyConflict"
  obtains normalized h r where "validate_memory_command T now cmd = Inr (normalized, h)"
    "mc_user cmd \<in> set (db_users db)" "goal_known cmd db"
    "find_row (mc_user cmd) (mc_key cmd) db = Some r" "\<not> immutable_fields_match r normalized h"
proof -
  from assms validate_no_conflict obtain normalized h where v: "validate_memory_command T now cmd = Inr (normalized, h)"
    by (cases "validate_memory_command T now cmd") (auto simp: create_or_get_def)
  with assms that validated_fields [OF v] goal_known_cong [of normalized cmd db db] show thesis
    by (auto simp: create_or_get_def require_def bind_res_Inl_iff Let_def split: option.splits if_splits)
qed

lemma create_existing:
  assumes "validate_memory_command T now cmd = Inr (normalized, h)" "mc_user cmd \<in> set (db_users db)"
    "goal_known cmd db"
    "find_row (mc_user cmd) (mc_key cmd) db = Some r"
  shows "create_or_get T fresh now cmd db
    = (if immutable_fields_match r normalized h then Inr (r, db) else Inl MemoryIdempotencyConflict)"
  using assms validated_fields [OF assms(1)] goal_known_cong [of normalized cmd db db]
  by (simp add: create_or_get_def require_def)

lemma create_again:
  assumes c: "create_or_get T fresh now cmd db = Inr (r, db1)" and g: "grows db1 db'"
  obtains r' where "create_or_get T fresh now cmd db' = Inr (r', db')" "frozen r' = frozen r"
    "find_row (mc_user cmd) (mc_key cmd) db' = Some r'"
    "record_matches_command T now r' cmd = Inr True"
proof -
  note row = create_or_get_row [OF c]
  obtain normalized h where n: "validate_memory_command T now cmd = Inr (normalized, h)"
    "mc_user cmd \<in> set (db_users db)" "goal_known cmd db"
    "immutable_fields_match r normalized h"
    using c by (cases rule: create_or_get_cases) (simp_all add: immutable_fields_match_def)
  from find_row_grows [OF g row(8)] obtain r' where r': "find_row (mc_user cmd) (mc_key cmd) db' = Some r'" "frozen r' = frozen r"
    by blast
  from grows_trans [OF row(1) g] have "db_users db' = db_users db" "db_goals db' = db_goals db" by (simp_all add: grows_def)
  with n goal_known_cong [of cmd cmd db' db] have u: "mc_user cmd \<in> set (db_users db')" "goal_known cmd db'"
    by simp_all
  from n(4) r'(2) have m: "immutable_fields_match r' normalized h" using match_frozen by blast
  from create_existing [OF n(1) u r'(1)] m have "create_or_get T fresh now cmd db' = Inr (r', db')" by simp
  moreover have "record_matches_command T now r' cmd = Inr True"
    using n(1) m find_row_Some [OF r'(1)] validated_fields [OF n(1)] by (simp add: record_matches_command_def)
  ultimately show thesis using that r' by blast
qed

lemma conflict_again:
  assumes c: "create_or_get T fresh now cmd db = Inl MemoryIdempotencyConflict" and g: "grows db db'"
  shows "create_or_get T fresh now cmd db' = Inl MemoryIdempotencyConflict"
    "map_option mr_id (find_row (mc_user cmd) (mc_key cmd) db') = map_option mr_id (find_row (mc_user cmd) (mc_key cmd) db)"
proof -
  from c obtain normalized h r where n: "validate_memory_command T now cmd = Inr (normalized, h)"
    "mc_user cmd \<in> set (db_users db)" "goal_known cmd db"
    "find_row (mc_user cmd) (mc_key cmd) db = Some r" "\<not> immutable_fields_match r normalized h" by (rule create_conflict)
  from find_row_grows [OF g n(4)] obtain r' where r': "find_row (mc_user cmd) (mc_key cmd) db' = Some r'" "frozen r' = frozen r"
    by blast
  from g n(2,3) goal_known_cong [of cmd cmd db' db] have u: "mc_user cmd \<in> set (db_users db')" "goal_known cmd db'"
    by (simp_all add: grows_def)
  from n(5) r'(2) have "\<not> immutable_fields_match r' normalized h" using match_frozen by blast
  with create_existing [OF n(1) u r'(1)] show "create_or_get T fresh now cmd db' = Inl MemoryIdempotencyConflict" by simp
  show "map_option mr_id (find_row (mc_user cmd) (mc_key cmd) db') = map_option mr_id (find_row (mc_user cmd) (mc_key cmd) db)"
    using r' n(4) frozen_eqD [OF r'(2)] by simp
qed

definition repeats :: "write_receipt \<Rightarrow> write_receipt \<Rightarrow> bool" where
  "repeats w w' \<longleftrightarrow> wr_memory w' = wr_memory w \<and> wr_status w' = (if wr_status w = Saved then Reused else wr_status w)"

lemma no_rivals:
  assumes "slots_unique user now db" "r \<in> set (db_rows db)" "mr_user r = user" "active now r"
  shows "rivals now r db = {}"
  using assms unfolding slots_unique_def rivals_def by auto

lemma save_one_again:
  assumes s: "save_one T fresh user now d db = Inr (w, db1)" and m: "mine user d" and g: "grows db1 db'"
    and U: "slots_unique user now db'"
  shows "\<exists>w'. save_one T fresh user now d db' = Inr (w', db') \<and> repeats w w'" "preflight_one T now db' d = Inr ()"
proof -
  let ?c = "de_candidate d" let ?cmd = "ca_command ?c"
  have "(\<exists>w'. save_one T fresh user now d db' = Inr (w', db') \<and> repeats w w') \<and> preflight_one T now db' d = Inr ()"
    using s
  proof (cases rule: save_one_cases)
    case 1
    with s show ?thesis by (auto simp: save_one_def repeats_def preflight_one_def Let_def)
  next
    case 2
    with m g conflict_again [OF 2(2), of db'] show ?thesis
      by (auto simp: save_one_def repeats_def preflight_one_def mine_def Let_def)
  next
    case (3 r db2 ids)
    have user: "mc_user ?cmd = user" using m 3(1) by (simp add: mine_def)
    from grows_trans [OF grows_supersede g [unfolded 3(3)]] have "grows db2 db'" .
    with 3(2) obtain r' where r': "create_or_get T fresh now ?cmd db' = Inr (r', db')" "frozen r' = frozen r"
      "find_row (mc_user ?cmd) (mc_key ?cmd) db' = Some r'" "record_matches_command T now r' ?cmd = Inr True"
      by (rule create_again)
    note row = create_or_get_row [OF r'(1)]
    have "disable_superseded now ?cmd r' db' = Inr db'" if "active now r'"
      using disable_superseded_eq [OF row(3,5,6), of now db'] no_rivals [OF U row(2) _ that] row(3) user by auto
    then have "\<exists>w'. save_one T fresh user now d db' = Inr (w', db') \<and> wr_memory w' = Some (mr_id r') \<and> wr_status w' = Reused"
      using 3(1) r'(1,3) user by (auto simp: save_one_def Let_def)
    moreover have "mr_id r' = mr_id r" using frozen_eqD [OF r'(2)] by simp
    moreover have "preflight_one T now db' d = Inr ()" using r'(3,4) by (simp add: preflight_one_def Let_def)
    ultimately show ?thesis using 3(7,8) by (auto simp: repeats_def)
  qed
  then show "\<exists>w'. save_one T fresh user now d db' = Inr (w', db') \<and> repeats w w'" "preflight_one T now db' d = Inr ()"
    by blast+
qed

lemma save_loop_again:
  assumes "save_loop T fresh user now ds db = Inr (ws, db1)" "list_all (mine user) ds" "grows db1 db'" "slots_unique user now db'"
  shows "(\<exists>ws'. save_loop T fresh user now ds db' = Inr (ws', db') \<and> list_all2 repeats ws ws')
    \<and> traverse (preflight_one T now db') ds = Inr (map (\<lambda>_. ()) ds)"
  using assms(1,2)
proof (induction ds arbitrary: db ws)
  case (Cons d ds)
  from Cons.prems(1) obtain w db2 vs where one: "save_one T fresh user now d db = Inr (w, db2)"
    and rest: "save_loop T fresh user now ds db2 = Inr (vs, db1)" "ws = w # vs"
    by (auto simp: bind_res_Inr_iff)
  from Cons.prems(2) have "mine user d" "list_all (mine user) ds" by simp_all
  with save_loop_keeps(1) [OF rest(1)] have "grows db2 db'" using grows_trans assms(3) by blast
  from save_one_again [OF one \<open>mine user d\<close> this assms(4)] Cons.IH [OF rest(1) \<open>list_all (mine user) ds\<close>] rest(2)
  show ?case by auto
qed simp

text \<open>C28. Writing is idempotent: the same decisions at the same time, as after a retried request, change
  nothing and are answered with the same memories, with \<open>reused\<close> where the first answer was \<open>saved\<close>,
  as long as no class of one goal and type outgrows the page of 100 rows.\<close>

theorem save_idempotent:
  assumes "save_decisions T fresh user goal now ds db = Inr (ws, db')" "store_ok fresh db"
    "slots_unique user now db" "has_room user now (length ds) db"
  shows "\<exists>ws'. save_decisions T fresh user goal now ds db' = Inr (ws', db') \<and> list_all2 repeats ws ws'"
proof -
  from assms(1) obtain p current us where c: "privacy_of user db = Inr p"
    "traverse (recheck_decision T p user goal now) ds = Inr current" "traverse (preflight_one T now db) current = Inr us"
    "save_loop T fresh user now current db = Inr (ws, db')" "list_all (mine user) current" "length current = length ds"
    by (rule save_decisions_parts)
  from save_keeps(5) [OF assms(1)] assms have "slots_unique user now db'" by simp
  from save_loop_again [OF c(4,5) grows_refl this] obtain ws' where
    "save_loop T fresh user now current db' = Inr (ws', db')" "list_all2 repeats ws ws'"
    "traverse (preflight_one T now db') current = Inr (map (\<lambda>_. ()) current)" by blast
  moreover have "privacy_of user db' = Inr p"
    using c(1) save_keeps(1) [OF assms(1)] by (simp add: privacy_of_def grows_def)
  ultimately show ?thesis using c(2) by (simp add: save_decisions_def)
qed

subsection \<open>An example\<close>

definition sample_db :: memory_db where
  "sample_db = \<lparr>db_rows = [], db_users = [[1]], db_goals = [([3], [1])], db_profiles = [([1], VNone)]\<rparr>"

definition sample_ids :: "nat \<Rightarrow> ustr" where
  "sample_ids i = replicate i 97"

definition sample_memory_decision :: memory_decision where
  "sample_memory_decision = \<lparr>de_candidate = sample_memory_candidate, de_kind = Approved, de_reason = ''policy_approved''\<rparr>"

lemma sample_db_ok: "inj sample_ids" "store_ok sample_ids sample_db" "slots_unique [1] 0 sample_db"
    "has_room [1] 0 (length [sample_memory_decision]) sample_db"
  by (auto simp: sample_ids_def inj_def store_ok_def sample_db_def slots_unique_def has_room_def replicate_eq_replicate)

lemma sample_saved: "\<exists>ws db'. save_decisions sample_text_env sample_ids [1] [3] 0 [sample_memory_decision] sample_db = Inr (ws, db')"
proof -
  let ?cmd = "ca_command (de_candidate sample_memory_decision)"
  have s: "privacy_of [1] sample_db = Inr sample_settings"
    by (simp add: privacy_of_def sample_db_def parse_memory_privacy_settings_def default_settings_def sample_settings_def)
  have r: "recheck_decision sample_text_env sample_settings [1] [3] 0 sample_memory_decision = Inr sample_memory_decision"
    using sample_approved by (simp add: recheck_decision_def sample_memory_decision_def)
  have none: "find_row u k sample_db = None" for u k by (simp add: find_row_def sample_db_def)
  have p: "preflight_one sample_text_env 0 sample_db sample_memory_decision = Inr ()"
    by (simp add: preflight_one_def none Let_def)
  have "mc_user ?cmd = [1]" "mc_goal ?cmd = None"
    by (simp_all add: sample_memory_decision_def sample_memory_candidate_def sample_preference_def)
  then obtain c db1 where c: "create_or_get sample_text_env sample_ids 0 ?cmd sample_db = Inr (c, db1)"
    using sample_validated validated_fields [OF sample_validated] none
    by (auto simp: create_or_get_def require_def goal_known_def sample_memory_decision_def sample_memory_candidate_def sample_db_def Let_def)
  note row = create_or_get_row [OF c]
  from disable_superseded_eq [OF row(3,5,6), of 0 db1] obtain db2 where "disable_superseded 0 ?cmd c db1 = Inr db2" by blast
  with c have "\<exists>w db'. save_one sample_text_env sample_ids [1] 0 sample_memory_decision sample_db = Inr (w, db')"
    by (auto simp: save_one_def Let_def)
  then show ?thesis using s r p by (auto simp: save_decisions_def)
qed

theorem save_keeps_store_witness:
  "\<exists>ws db'. save_decisions sample_text_env sample_ids [1] [3] 0 [sample_memory_decision] sample_db = Inr (ws, db')
     \<and> store_ok sample_ids db' \<and> length ws = 1"
proof -
  from sample_saved obtain ws db' where
    s: "save_decisions sample_text_env sample_ids [1] [3] 0 [sample_memory_decision] sample_db = Inr (ws, db')" by blast
  from save_keeps_store [OF this sample_db_ok] s show ?thesis by auto
qed

theorem save_idempotent_witness:
  "\<exists>ws db' ws'. save_decisions sample_text_env sample_ids [1] [3] 0 [sample_memory_decision] sample_db = Inr (ws, db')
     \<and> save_decisions sample_text_env sample_ids [1] [3] 0 [sample_memory_decision] db' = Inr (ws', db')"
proof -
  from sample_saved obtain ws db' where
    s: "save_decisions sample_text_env sample_ids [1] [3] 0 [sample_memory_decision] sample_db = Inr (ws, db')" by blast
  from save_idempotent [OF this sample_db_ok(2-4)] s show ?thesis by blast
qed

end
