(* ===== verification/Memory_Context.thy ===== *)
theory Memory_Context
  imports Memory_Store
begin

text \<open>
  The memories shown to the tutor: selection under ownership, privacy and budget
  (\<open>MemoryContextService\<close> of src/backend/app/application/memory_context_service.py) over the
  repository of \<open>Memory_Store\<close>. The length of the canonical JSON of the selected items is the
  parameter \<open>canon\<close>.
\<close>

subsection \<open>Reading a stored content\<close>

datatype context_error = ContextRepository memory_error | ContextOwnership | ContextAssembly

definition required_string :: "memory_row \<Rightarrow> string \<Rightarrow> context_error + ustr" where
  "required_string r name =
     (case field (mc_content (mr_command r)) name of
        Some (VStr s) \<Rightarrow> if s = [] then Inl ContextAssembly else Inr s
      | _ \<Rightarrow> Inl ContextAssembly)"

definition mastery_score :: "memory_row \<Rightarrow> context_error + pyfloat" where
  "mastery_score r =
     (case field (mc_content (mr_command r)) ''score'' of
        Some (VInt i) \<Rightarrow> Inr (of_int i)
      | Some (VFloat x) \<Rightarrow> Inr x
      | _ \<Rightarrow> Inl ContextAssembly)"

definition replace_z :: "ustr \<Rightarrow> ustr" where
  "replace_z s = concat (map (\<lambda>c. if c = 90 then lit ''+00:00'' else [c]) s)"

definition milestone_achieved_at :: "text_env \<Rightarrow> memory_row \<Rightarrow> context_error + int" where
  "milestone_achieved_at T r =
     bind_res (required_string r ''achieved_at'') (\<lambda>s.
       case tx_read T (replace_z s) of AwareInstant t \<Rightarrow> Inr t | _ \<Rightarrow> Inl ContextAssembly)"

type_synonym quality = "pyfloat \<times> pyfloat \<times> int \<times> ustr"

definition quality_key :: "memory_row \<Rightarrow> quality" where
  "quality_key r = (- mc_importance (mr_command r), - mc_confidence (mr_command r), - mr_created r, mr_id r)"

subsection \<open>Candidates of each type\<close>

fun preference_winners :: "(ustr, memory_row) dict \<Rightarrow> memory_row list \<Rightarrow> context_error + (ustr, memory_row) dict" where
  "preference_winners winners [] = Inr winners"
| "preference_winners winners (r # rs) =
     (if mr_type r \<noteq> LearningPreference \<or> mr_goal r \<noteq> None then preference_winners winners rs
      else bind_res (required_string r ''preference_key'') (\<lambda>key.
        preference_winners
          (case map_of winners key of
             None \<Rightarrow> dict_set key r winners
           | Some existing \<Rightarrow> if quality_key r < quality_key existing then dict_set key r winners else winners) rs))"

definition select_preferences :: "memory_row list \<Rightarrow> context_error + memory_row list" where
  "select_preferences rs =
     bind_res (preference_winners [] rs) (\<lambda>winners. Inr (take 8 (sort_key quality_key (dict_values winners))))"

definition select_goals :: "ustr \<Rightarrow> memory_row list \<Rightarrow> memory_row list" where
  "select_goals goal rs =
     take 2 (sort_key (\<lambda>r. (if mr_goal r = Some goal then 0 else 1 :: nat, quality_key r))
       (filter (\<lambda>r. mr_type r = LongTermGoal) rs))"

text \<open>\<open>sorted\<close> evaluates the key of every element first, so a malformed record raises.\<close>

definition sorted_by :: "('a \<Rightarrow> 'e + 'k::linorder) \<Rightarrow> 'a list \<Rightarrow> 'e + 'a list" where
  "sorted_by key xs =
     bind_res (traverse (\<lambda>x. bind_res (key x) (\<lambda>k. Inr (k, x))) xs) (\<lambda>kxs. Inr (map snd (sort_key fst kxs)))"

definition select_mastery :: "ustr \<Rightarrow> ustr option \<Rightarrow> memory_row list \<Rightarrow> context_error + memory_row list" where
  "select_mastery goal node rs =
     bind_res (sorted_by (\<lambda>r. bind_res (required_string r ''knowledge_node_id'') (\<lambda>n.
                 bind_res (mastery_score r) (\<lambda>s. Inr (if Some n = node then 0 else 1 :: nat, s, quality_key r))))
                 (filter (\<lambda>r. mr_type r = MasterySummary \<and> mr_goal r = Some goal \<and> 6 / 10 \<le> mc_confidence (mr_command r)) rs))
       (\<lambda>rs. Inr (take 6 rs))"

definition select_milestones :: "text_env \<Rightarrow> ustr \<Rightarrow> memory_row list \<Rightarrow> context_error + memory_row list" where
  "select_milestones T goal rs =
     bind_res (sorted_by (\<lambda>r. bind_res (milestone_achieved_at T r) (\<lambda>t. Inr (- t, quality_key r)))
                 (filter (\<lambda>r. mr_type r = LearningMilestone \<and> mr_goal r = Some goal) rs))
       (\<lambda>rs. Inr (take 4 rs))"

definition eligible_records :: "text_env \<Rightarrow> ustr \<Rightarrow> ustr option \<Rightarrow> memory_row list \<Rightarrow> context_error + memory_row list" where
  "eligible_records T goal node rs =
     bind_res (select_preferences rs) (\<lambda>preferences.
     bind_res (select_mastery goal node rs) (\<lambda>mastery.
     bind_res (select_milestones T goal rs) (\<lambda>milestones.
       Inr (preferences @ select_goals goal rs @ mastery @ milestones))))"

definition is_current_mastery :: "ustr option \<Rightarrow> memory_row \<Rightarrow> bool" where
  "is_current_mastery node r \<longleftrightarrow>
     mr_type r = MasterySummary \<and> (\<exists>n \<in> set_option node. required_string r ''knowledge_node_id'' = Inr n)"

definition global_sort_key :: "ustr \<Rightarrow> ustr option \<Rightarrow> memory_row \<Rightarrow> nat \<times> nat \<times> quality" where
  "global_sort_key goal node r =
     (if mr_goal r = Some goal then 0 else 1, if is_current_mastery node r then 0 else 1, quality_key r)"

subsection \<open>Budget and result\<close>

record tutor_memory =
  tm_id :: ustr
  tm_type :: memory_type
  tm_goal_scope :: bool
  tm_content :: content
  tm_importance :: pyfloat
  tm_confidence :: pyfloat
  tm_source :: memory_source
  tm_expires :: "int option"

definition to_tutor_memory :: "memory_row \<Rightarrow> tutor_memory" where
  "to_tutor_memory r =
     \<lparr>tm_id = mr_id r, tm_type = mr_type r, tm_goal_scope = (mr_goal r \<noteq> None), tm_content = mc_content (mr_command r),
      tm_importance = mc_importance (mr_command r), tm_confidence = mc_confidence (mr_command r),
      tm_source = mc_source (mr_command r), tm_expires = mc_expires (mr_command r)\<rparr>"

record memory_selection =
  ms_items :: "tutor_memory list"
  ms_selected_ids :: "ustr list"
  ms_skipped :: nat
  ms_chars :: nat

definition item_limit :: nat where "item_limit = 16"
definition char_limit :: nat where "char_limit = 6000"

fun budget_loop :: "(tutor_memory list \<Rightarrow> nat) \<Rightarrow> tutor_memory list \<Rightarrow> nat \<Rightarrow> memory_row list \<Rightarrow> tutor_memory list \<times> nat \<times> nat" where
  "budget_loop canon items chars [] = (items, chars, 0)"
| "budget_loop canon items chars (r # rs) =
     (if item_limit \<le> length items then (items, chars, length (r # rs))
      else (let candidate = items @ [to_tutor_memory r] in
            if char_limit < canon candidate then (items, chars, length (r # rs))
            else budget_loop canon candidate (canon candidate) rs))"

definition apply_global_budget :: "(tutor_memory list \<Rightarrow> nat) \<Rightarrow> memory_row list \<Rightarrow> memory_selection" where
  "apply_global_budget canon rs =
     (let (items, chars, skipped) = budget_loop canon [] 2 rs
      in \<lparr>ms_items = items, ms_selected_ids = map tm_id items, ms_skipped = skipped, ms_chars = chars\<rparr>)"

definition empty_selection :: memory_selection where
  "empty_selection = \<lparr>ms_items = [], ms_selected_ids = [], ms_skipped = 0, ms_chars = 2\<rparr>"

fun source_allowed :: "privacy_settings \<Rightarrow> memory_source \<Rightarrow> bool" where
  "source_allowed s ExplicitUser = ps_explicit s"
| "source_allowed s SystemDerived = ps_inference s"
| "source_allowed s _ = ps_results s"

definition current_node_id :: "ustr option \<Rightarrow> ustr option" where
  "current_node_id node = (if node = Some [] then None else node)"

definition all_types :: "memory_type list" where
  "all_types = [LearningPreference, LongTermGoal, MasterySummary, LearningMilestone]"

definition build_context ::
  "text_env \<Rightarrow> (tutor_memory list \<Rightarrow> nat) \<Rightarrow> int \<Rightarrow> ustr \<Rightarrow> ustr \<Rightarrow> ustr option \<Rightarrow> privacy_settings option \<Rightarrow> memory_db
     \<Rightarrow> context_error + memory_selection"
where
  "build_context T canon now user goal task_node privacy db =
     (if (case privacy of None \<Rightarrow> False | Some s \<Rightarrow> \<not> ps_enabled s) then Inr empty_selection
      else case list_active user (Some goal) (Some all_types) True 100 now db of
        Inl e \<Rightarrow> Inl (ContextRepository e)
      | Inr records \<Rightarrow>
          (let records = (case privacy of None \<Rightarrow> records
                          | Some s \<Rightarrow> filter (\<lambda>r. source_allowed s (mc_source (mr_command r))) records) in
           if list_ex (\<lambda>r. mr_user r \<noteq> user \<or> mr_goal r \<notin> {None, Some goal}) records then Inl ContextOwnership
           else (let node = current_node_id task_node in
             bind_res (eligible_records T goal node records) (\<lambda>eligible.
               Inr (apply_global_budget canon (sort_key (global_sort_key goal node) eligible))))))"

subsection \<open>What is selected\<close>

lemma budget_loop_prefix:
  assumes "budget_loop canon items chars rs = (items', chars', skipped)" "length items \<le> 16"
  shows "\<exists>k \<le> length rs. items' = items @ map to_tutor_memory (take k rs) \<and> skipped = length rs - k \<and> length items' \<le> 16
    \<and> (if k = 0 then chars' = chars else chars' = canon items' \<and> chars' \<le> 6000)"
  using assms
proof (induction canon items chars rs rule: budget_loop.induct)
  case (2 canon items chars r rs)
  let ?c = "items @ [to_tutor_memory r]"
  show ?case
  proof (cases "item_limit \<le> length items \<or> char_limit < canon ?c")
    case True
    with "2.prems" show ?thesis by (auto simp: Let_def split: if_splits intro!: exI [of _ 0])
  next
    case False
    with "2.prems" have l: "budget_loop canon ?c (canon ?c) rs = (items', chars', skipped)" "length ?c \<le> 16"
      by (auto simp: item_limit_def Let_def)
    from False have i: "\<not> item_limit \<le> length items" "\<not> char_limit < canon ?c" by auto
    from "2.IH" [OF i(1) refl i(2) l] obtain k where k: "k \<le> length rs" "items' = ?c @ map to_tutor_memory (take k rs)"
      "skipped = length rs - k" "length items' \<le> 16" "if k = 0 then chars' = canon ?c else chars' = canon items' \<and> chars' \<le> 6000"
      by blast
    from k i(2) show ?thesis by (intro exI [of _ "Suc k"]) (auto simp: char_limit_def split: if_splits)
  qed
qed (auto intro!: exI [of _ 0])

lemma sorted_by_mset: "sorted_by key xs = Inr ys \<Longrightarrow> mset ys = mset xs"
proof -
  assume "sorted_by key xs = Inr ys"
  then obtain kxs where k: "traverse (\<lambda>x. bind_res (key x) (\<lambda>k. Inr (k, x))) xs = Inr kxs" "ys = map snd (sort_key fst kxs)"
    by (auto simp: sorted_by_def bind_res_Inr_iff)
  have "map snd kxs = map id xs" by (rule traverse_preserves [OF k(1)]) (auto simp: bind_res_Inr_iff)
  with k(2) show ?thesis by (metis list.map_id mset_map mset_sort)
qed

lemma sorted_by_set: "sorted_by key xs = Inr ys \<Longrightarrow> set ys = set xs"
  using sorted_by_mset mset_eq_setD by blast

definition preference_of :: "memory_row \<Rightarrow> pyvalue option" where
  "preference_of r = field (mc_content (mr_command r)) ''preference_key''"

lemma preference_winners_ok:
  assumes "preference_winners w rs = Inr w'" "wf_dict w"
    "\<forall>(k, r) \<in> set w. r \<in> S \<and> mr_type r = LearningPreference \<and> preference_of r = Some (VStr k)" "set rs \<subseteq> S"
  shows "wf_dict w' \<and> (\<forall>(k, r) \<in> set w'. r \<in> S \<and> mr_type r = LearningPreference \<and> preference_of r = Some (VStr k))"
  using assms
proof (induction w rs rule: preference_winners.induct)
  case (2 w r rs)
  show ?case
  proof (cases "mr_type r \<noteq> LearningPreference \<or> mr_goal r \<noteq> None")
    case True
    with 2 show ?thesis by auto
  next
    case False
    with "2.prems"(1) obtain key where key: "required_string r ''preference_key'' = Inr key"
      by (auto simp: bind_res_Inr_iff)
    then have p: "preference_of r = Some (VStr key)"
      by (auto simp: required_string_def preference_of_def split: option.splits pyvalue.splits if_splits)
    let ?w = "case map_of w key of None \<Rightarrow> dict_set key r w
      | Some existing \<Rightarrow> if quality_key r < quality_key existing then dict_set key r w else w"
    have "wf_dict ?w" using "2.prems"(2) by (auto split: option.splits)
    moreover have "\<forall>(k, r) \<in> set ?w. r \<in> S \<and> mr_type r = LearningPreference \<and> preference_of r = Some (VStr k)"
      using "2.prems"(2-4) False p by (auto simp: set_dict_set split: option.splits)
    moreover have "preference_winners ?w rs = Inr w'" using "2.prems"(1) False key by simp
    ultimately show ?thesis using "2.IH"(2) [OF False, of key] "2.prems"(4) by auto
  qed
qed simp

lemma select_preferences_ok:
  assumes "select_preferences rs = Inr ps"
  shows "set ps \<subseteq> set rs" "\<forall>r \<in> set ps. mr_type r = LearningPreference" "length ps \<le> 8" "distinct (map preference_of ps)"
proof -
  from assms obtain w where w: "preference_winners [] rs = Inr w" "ps = take 8 (sort_key quality_key (dict_values w))"
    by (auto simp: select_preferences_def bind_res_Inr_iff)
  from preference_winners_ok [OF w(1), of "set rs"] have ok: "wf_dict w"
    "\<forall>(k, r) \<in> set w. r \<in> set rs \<and> mr_type r = LearningPreference \<and> preference_of r = Some (VStr k)" by auto
  have sub: "set ps \<subseteq> snd ` set w" using set_take_subset [of 8] unfolding w(2) dict_values_def by fastforce
  with ok(2) show "set ps \<subseteq> set rs" "\<forall>r \<in> set ps. mr_type r = LearningPreference" by fastforce+
  show "length ps \<le> 8" by (simp add: w(2))
  have "map preference_of (dict_values w) = map (Some \<circ> VStr) (map fst w)"
    using ok(2) by (auto simp: dict_values_def)
  moreover have "distinct (map (Some \<circ> VStr) (map fst w))"
    using ok(1) by (subst distinct_map) (auto simp: inj_on_def)
  ultimately have "distinct (map preference_of (dict_values w))" by metis
  then have "distinct (map preference_of (sort_key quality_key (dict_values w)))"
    by (metis mset_eq_imp_distinct_iff mset_map mset_sort)
  then show "distinct (map preference_of ps)" by (simp add: w(2) take_map [symmetric])
qed

lemma eligible_parts:
  assumes "eligible_records T goal node rs = Inr es"
  obtains ps ms ls where "es = ps @ select_goals goal rs @ ms @ ls" "select_preferences rs = Inr ps"
    "set ms \<subseteq> set rs" "\<forall>r \<in> set ms. mr_type r = MasterySummary" "length ms \<le> 6"
    "set ls \<subseteq> set rs" "\<forall>r \<in> set ls. mr_type r = LearningMilestone" "length ls \<le> 4"
proof -
  from assms obtain ps ms ls where e: "select_preferences rs = Inr ps" "select_mastery goal node rs = Inr ms"
    "select_milestones T goal rs = Inr ls" "es = ps @ select_goals goal rs @ ms @ ls"
    by (auto simp: eligible_records_def bind_res_Inr_iff)
  from e(2) obtain a where a: "ms = take 6 a" "set a \<subseteq> {r \<in> set rs. mr_type r = MasterySummary}"
    by (auto simp: select_mastery_def bind_res_Inr_iff dest!: sorted_by_set) blast
  from e(3) obtain b where b: "ls = take 4 b" "set b \<subseteq> {r \<in> set rs. mr_type r = LearningMilestone}"
    by (auto simp: select_milestones_def bind_res_Inr_iff dest!: sorted_by_set) blast
  from a b e(1,4) that show thesis using set_take_subset [of 6 a] set_take_subset [of 4 b] by fastforce
qed

lemma select_goals_ok:
  "set (select_goals goal rs) \<subseteq> {r \<in> set rs. mr_type r = LongTermGoal}" "length (select_goals goal rs) \<le> 2"
proof -
  show "set (select_goals goal rs) \<subseteq> {r \<in> set rs. mr_type r = LongTermGoal}"
    unfolding select_goals_def by (rule subset_trans [OF set_take_subset]) auto
qed (simp add: select_goals_def)

fun type_limit :: "memory_type \<Rightarrow> nat" where
  "type_limit LearningPreference = 8"
| "type_limit LongTermGoal = 2"
| "type_limit MasterySummary = 6"
| "type_limit LearningMilestone = 4"

lemma eligible_ok:
  assumes "eligible_records T goal node rs = Inr es"
  shows "set es \<subseteq> set rs" "length (filter (\<lambda>r. mr_type r = ty) es) \<le> type_limit ty"
    "distinct (map preference_of (filter (\<lambda>r. mr_type r = LearningPreference) es))"
proof -
  from assms obtain ps ms ls where e: "es = ps @ select_goals goal rs @ ms @ ls" "select_preferences rs = Inr ps"
    "set ms \<subseteq> set rs" "\<forall>r \<in> set ms. mr_type r = MasterySummary" "length ms \<le> 6"
    "set ls \<subseteq> set rs" "\<forall>r \<in> set ls. mr_type r = LearningMilestone" "length ls \<le> 4" by (rule eligible_parts)
  note p = select_preferences_ok [OF e(2)] and g = select_goals_ok [of goal rs]
  show "set es \<subseteq> set rs" using e(1,3,6) p(1) g(1) by auto
  have f: "filter (\<lambda>r. mr_type r = ty) xs = (if ty = ty' then xs else [])" if "\<forall>r \<in> set xs. mr_type r = ty'" for ty ty' xs
    using that by (induction xs) auto
  have gt: "\<forall>r \<in> set (select_goals goal rs). mr_type r = LongTermGoal" using g(1) by auto
  show "length (filter (\<lambda>r. mr_type r = ty) es) \<le> type_limit ty"
    using p(3) g(2) e(5,8) by (cases ty) (simp_all add: e(1) f [OF p(2)] f [OF gt] f [OF e(4)] f [OF e(7)])
  show "distinct (map preference_of (filter (\<lambda>r. mr_type r = LearningPreference) es))"
    using p(4) by (simp add: e(1) f [OF p(2)] f [OF gt] f [OF e(4)] f [OF e(7)])
qed

text \<open>A page of a sorted list keeps upper bounds on counts and distinctness.\<close>

lemma filter_sorted_page:
  "length (filter P (take k (sort_key f xs))) \<le> length (filter P xs)"
  "distinct (map g (filter P xs)) \<Longrightarrow> distinct (map g (filter P (take k (sort_key f xs))))"
proof -
  have split: "filter P (sort_key f xs) = filter P (take k (sort_key f xs)) @ filter P (drop k (sort_key f xs))"
    by (metis append_take_drop_id filter_append)
  have m: "mset (filter P (sort_key f xs)) = mset (filter P xs)" by simp
  then have "length (filter P (sort_key f xs)) = length (filter P xs)" by (metis size_mset)
  then show "length (filter P (take k (sort_key f xs))) \<le> length (filter P xs)" unfolding split by simp
  assume "distinct (map g (filter P xs))"
  moreover have "mset (map g (filter P (sort_key f xs))) = mset (map g (filter P xs))" by simp
  ultimately have "distinct (map g (filter P (sort_key f xs)))" by (metis mset_eq_imp_distinct_iff)
  then show "distinct (map g (filter P (take k (sort_key f xs))))" unfolding split by simp
qed

lemma list_active_sound:
  "list_active user (Some goal) types True limit now db = Inr rs \<Longrightarrow>
     \<forall>r \<in> set rs. r \<in> set (db_rows db) \<and> mr_user r = user \<and> active now r \<and> mr_goal r \<in> {None, Some goal}"
proof -
  assume "list_active user (Some goal) types True limit now db = Inr rs"
  then have "set rs \<subseteq> {r \<in> set (db_rows db). mr_user r = user \<and> active now r \<and> in_scope (Some goal) True (mr_goal r)}"
    by (auto simp: list_active_def split: if_splits dest!: in_set_takeD)
  then show ?thesis by (auto simp: in_scope_def)
qed

definition readable :: "int \<Rightarrow> ustr \<Rightarrow> ustr \<Rightarrow> privacy_settings option \<Rightarrow> memory_db \<Rightarrow> memory_row \<Rightarrow> bool" where
  "readable now user goal privacy db r \<longleftrightarrow>
     r \<in> set (db_rows db) \<and> mr_user r = user \<and> active now r \<and> mr_goal r \<in> {None, Some goal}
   \<and> (\<forall>s \<in> set_option privacy. ps_enabled s \<and> source_allowed s (mc_source (mr_command r)))"

lemma build_context_cases:
  assumes "build_context T canon now user goal task privacy db = Inr sel"
  obtains "sel = empty_selection"
  | es rs where "eligible_records T goal (current_node_id task) rs = Inr es" "\<forall>r \<in> set rs. readable now user goal privacy db r"
    "sel = apply_global_budget canon (sort_key (global_sort_key goal (current_node_id task)) es)"
proof (cases "case privacy of None \<Rightarrow> False | Some s \<Rightarrow> \<not> ps_enabled s")
  case True
  with assms that(1) show thesis by (simp add: build_context_def)
next
  case False
  with assms obtain records where l: "list_active user (Some goal) (Some all_types) True 100 now db = Inr records"
    by (auto simp: build_context_def split: sum.splits)
  let ?rs = "case privacy of None \<Rightarrow> records | Some s \<Rightarrow> filter (\<lambda>r. source_allowed s (mc_source (mr_command r))) records"
  from assms False l obtain es where "eligible_records T goal (current_node_id task) ?rs = Inr es"
    "sel = apply_global_budget canon (sort_key (global_sort_key goal (current_node_id task)) es)"
    by (auto simp: build_context_def Let_def bind_res_Inr_iff split: if_splits)
  moreover have "\<forall>r \<in> set ?rs. readable now user goal privacy db r"
    using list_active_sound [OF l] False by (cases privacy) (auto simp: readable_def)
  ultimately show thesis using that(2) by blast
qed

text \<open>C31. The memories shown to the tutor are few and the user's own: at most sixteen, in at most 6000
  characters, at most eight preferences with different keys, two goals, six masteries and four
  milestones, each the copy of an active row of the user in the scope of the goal whose source the
  privacy settings allow; the rest of the ranking is counted as skipped.\<close>

theorem context_selection_sound:
  assumes "build_context T canon now user goal task privacy db = Inr sel"
  shows "length (ms_items sel) \<le> 16 \<and> ms_chars sel \<le> 6000 \<and> (ms_items sel \<noteq> [] \<longrightarrow> ms_chars sel = canon (ms_items sel))
    \<and> ms_selected_ids sel = map tm_id (ms_items sel)
    \<and> (\<forall>i \<in> set (ms_items sel). \<exists>r. i = to_tutor_memory r \<and> readable now user goal privacy db r)
    \<and> (\<forall>ty. length (filter (\<lambda>i. tm_type i = ty) (ms_items sel)) \<le> type_limit ty)
    \<and> distinct (map (\<lambda>i. field (tm_content i) ''preference_key'')
        (filter (\<lambda>i. tm_type i = LearningPreference) (ms_items sel)))"
  using assms
proof (cases rule: build_context_cases)
  case 1
  then show ?thesis by (simp add: empty_selection_def)
next
  case (2 es rs)
  note e = eligible_ok [OF 2(1)]
  let ?sorted = "sort_key (global_sort_key goal (current_node_id task)) es"
  obtain items chars skipped where b: "budget_loop canon [] 2 ?sorted = (items, chars, skipped)"
    by (cases "budget_loop canon [] 2 ?sorted")
  from budget_loop_prefix [OF b] obtain k where k: "items = map to_tutor_memory (take k ?sorted)" "length items \<le> 16"
    "if k = 0 then chars = 2 else chars = canon items \<and> chars \<le> 6000" by auto
  have sel: "ms_items sel = items" "ms_chars sel = chars" "ms_selected_ids sel = map tm_id items"
    using 2(3) b by (simp_all add: apply_global_budget_def)
  have copies: "tm_type (to_tutor_memory r) = mr_type r" "field (tm_content (to_tutor_memory r)) ''preference_key'' = preference_of r" for r
    by (simp_all add: to_tutor_memory_def preference_of_def)
  have "\<forall>i \<in> set items. \<exists>r. i = to_tutor_memory r \<and> readable now user goal privacy db r"
    using k(1) e(1) 2(2) set_take_subset [of k ?sorted] by fastforce
  moreover have "length (filter (\<lambda>i. tm_type i = ty) items) \<le> type_limit ty" for ty
    using order_trans [OF filter_sorted_page(1) e(2)] by (simp add: k(1) filter_map o_def copies)
  moreover have "distinct (map (\<lambda>i. field (tm_content i) ''preference_key'') (filter (\<lambda>i. tm_type i = LearningPreference) items))"
    using filter_sorted_page(2) [OF e(3)] by (simp add: k(1) filter_map o_def copies)
  moreover have "chars \<le> 6000 \<and> (items \<noteq> [] \<longrightarrow> chars = canon items)"
    using k(1,3) by (auto split: if_splits)
  ultimately show ?thesis using k(2) sel by simp
qed

subsection \<open>Written memories can be read\<close>

definition content_stored :: "text_env \<Rightarrow> memory_row \<Rightarrow> bool" where
  "content_stored T r \<longleftrightarrow>
     (\<exists>c. content_ok c \<and> content_type c = mr_type r \<and> mc_content (mr_command r) = dump_content T c)"

definition contents_ok :: "text_env \<Rightarrow> memory_db \<Rightarrow> bool" where
  "contents_ok T db \<longleftrightarrow> (\<forall>r \<in> set (db_rows db). content_stored T r)"

text \<open>Documented behaviour of the text of an instant, as the reader of milestones uses it.\<close>

definition reads_back :: "text_env \<Rightarrow> bool" where
  "reads_back T \<longleftrightarrow> (\<forall>t. tx_dump T t \<noteq> [] \<and> tx_read T (replace_z (tx_dump T t)) = AwareInstant t)"

lemma save_one_contents:
  assumes "save_one T fresh user now d db = Inr (w, db')" "contents_ok T db"
  shows "contents_ok T db'"
  using assms(1)
proof (cases rule: save_one_cases)
  case (3 r db1 ids)
  have "content_stored T r" if "db_rows db1 \<noteq> db_rows db"
    using 3(2)
  proof (cases rule: create_or_get_cases)
    case (2 normalized h)
    from 2(1) show ?thesis by (rule validate_parts) (auto simp: content_stored_def 2(5))
  qed (use that in simp)
  with assms(2) create_or_get_row(7) [OF 3(2)] have "contents_ok T db1" by (auto simp: contents_ok_def)
  then show ?thesis by (simp add: 3(3) contents_ok_def content_stored_def)
qed (use assms(2) in simp_all)

lemma save_loop_contents:
  "save_loop T fresh user now ds db = Inr (ws, db') \<Longrightarrow> contents_ok T db \<Longrightarrow> contents_ok T db'"
  by (induction ds arbitrary: db ws) (auto simp: bind_res_Inr_iff dest: save_one_contents)

lemma text_ok_string: "text_ok l s \<Longrightarrow> s \<noteq> []"
  by (simp add: text_ok_def)

lemma stored_preference:
  "content_stored T r \<Longrightarrow> mr_type r = LearningPreference \<Longrightarrow> is_ok (required_string r ''preference_key'')"
  unfolding content_stored_def
  by (elim exE) (rename_tac c, case_tac c, auto simp: required_string_def field_def dest: text_ok_string)

lemma stored_mastery_row:
  "content_stored T r \<Longrightarrow> mr_type r = MasterySummary \<Longrightarrow>
     is_ok (required_string r ''knowledge_node_id'') \<and> is_ok (mastery_score r)"
  unfolding content_stored_def
  by (elim exE) (rename_tac c, case_tac c, auto simp: required_string_def mastery_score_def field_def dest: text_ok_string)

lemma stored_milestone:
  "reads_back T \<Longrightarrow> content_stored T r \<Longrightarrow> mr_type r = LearningMilestone \<Longrightarrow> is_ok (milestone_achieved_at T r)"
  unfolding content_stored_def
  by (elim exE) (rename_tac c, case_tac c, auto simp: milestone_achieved_at_def required_string_def reads_back_def field_def)

lemma preference_winners_is_ok:
  "\<forall>r \<in> set rs. content_stored T r \<Longrightarrow> is_ok (preference_winners w rs)"
proof (induction w rs rule: preference_winners.induct)
  case (2 w r rs)
  show ?case
  proof (cases "mr_type r \<noteq> LearningPreference \<or> mr_goal r \<noteq> None")
    case True
    with 2 show ?thesis by auto
  next
    case False
    with "2.prems" stored_preference [of T r] obtain key where "required_string r ''preference_key'' = Inr key"
      by (auto simp: is_ok_iff)
    with "2.IH"(2) [OF False, of key] "2.prems" False show ?thesis by simp
  qed
qed simp

lemma sorted_by_is_ok: "\<forall>x \<in> set xs. is_ok (key x) \<Longrightarrow> is_ok (sorted_by key xs)"
proof -
  assume "\<forall>x \<in> set xs. is_ok (key x)"
  then have "is_ok (traverse (\<lambda>x. bind_res (key x) (\<lambda>k. Inr (k, x))) xs)"
    by (intro traverse_is_ok) (auto simp: is_ok_iff)
  then show ?thesis by (auto simp: sorted_by_def is_ok_iff)
qed

lemma bind_is_ok: "is_ok r \<Longrightarrow> (\<And>v. r = Inr v \<Longrightarrow> is_ok (f v)) \<Longrightarrow> is_ok (bind_res r f)"
  by (auto simp: is_ok_iff)

lemma eligible_is_ok:
  assumes "reads_back T" "\<forall>r \<in> set rs. content_stored T r"
  shows "is_ok (eligible_records T goal node rs)"
proof -
  have "is_ok (select_preferences rs)"
    unfolding select_preferences_def using preference_winners_is_ok [OF assms(2)] by (intro bind_is_ok) auto
  moreover have "is_ok (select_mastery goal node rs)"
    unfolding select_mastery_def using assms(2)
    by (intro bind_is_ok sorted_by_is_ok ballI) (auto dest: stored_mastery_row)
  moreover have "is_ok (select_milestones T goal rs)"
    unfolding select_milestones_def using assms
    by (intro bind_is_ok sorted_by_is_ok ballI) (auto dest: stored_milestone)
  ultimately show ?thesis unfolding eligible_records_def by (intro bind_is_ok) auto
qed

lemma build_context_is_ok:
  assumes "reads_back T" "contents_ok T db"
  shows "is_ok (build_context T canon now user goal task privacy db)"
proof -
  obtain records where l: "list_active user (Some goal) (Some all_types) True 100 now db = Inr records"
    by (simp add: list_active_def all_types_def)
  let ?rs = "case privacy of None \<Rightarrow> records | Some s \<Rightarrow> filter (\<lambda>r. source_allowed s (mc_source (mr_command r))) records"
  have sub: "set ?rs \<subseteq> set records" by (cases privacy) auto
  with list_active_sound [OF l] have own: "\<not> list_ex (\<lambda>r. mr_user r \<noteq> user \<or> mr_goal r \<notin> {None, Some goal}) ?rs"
    and rows: "set ?rs \<subseteq> set (db_rows db)" by (auto simp: list_ex_iff)
  from rows assms(2) have "\<forall>r \<in> set ?rs. content_stored T r" by (auto simp: contents_ok_def)
  from eligible_is_ok [OF assms(1) this, of goal "current_node_id task"]
  have "is_ok (bind_res (eligible_records T goal (current_node_id task) ?rs)
      (\<lambda>es. Inr (apply_global_budget canon (sort_key (global_sort_key goal (current_node_id task)) es))))"
    by (intro bind_is_ok) auto
  with l own show ?thesis by (simp add: build_context_def Let_def)
qed

text \<open>C32. Whatever the writer stores, the tutor can read: after a write over a store of well-formed contents
  the contents are well-formed again, and building the context never raises, for any user, goal, task,
  settings and time.\<close>

theorem stored_memories_readable:
  assumes "reads_back T" "contents_ok T db" "save_decisions T fresh user goal now ds db = Inr (ws, db')"
  shows "contents_ok T db' \<and> (\<exists>sel. build_context T canon later reader g task privacy db' = Inr sel)"
proof -
  from assms(3) obtain p current us where "privacy_of user db = Inr p" "traverse (recheck_decision T p user goal now) ds = Inr current"
    "traverse (preflight_one T now db) current = Inr us" "save_loop T fresh user now current db = Inr (ws, db')"
    "list_all (mine user) current" "length current = length ds" by (rule save_decisions_parts)
  from save_loop_contents [OF this(4) assms(2)] have "contents_ok T db'" .
  with build_context_is_ok [OF assms(1) this, of canon later reader g task privacy] show ?thesis by (simp add: is_ok_iff)
qed

lemma sample_reads_back: "reads_back sample_text_env"
proof -
  have "replace_z s = s" if "90 \<notin> set s" for s
    using that by (induction s) (auto simp: replace_z_def)
  then have "replace_z (unary_instant t) = unary_instant t" for t by (simp add: unary_instant_def)
  then show ?thesis by (simp add: reads_back_def sample_text_env_def) (simp add: unary_instant_def)
qed

theorem stored_memories_readable_witness:
  "\<exists>ws db' sel. save_decisions sample_text_env sample_ids [1] [3] 0 [sample_memory_decision] sample_db = Inr (ws, db')
     \<and> build_context sample_text_env length 0 [1] [3] None None db' = Inr sel"
proof -
  from sample_saved obtain ws db' where
    s: "save_decisions sample_text_env sample_ids [1] [3] 0 [sample_memory_decision] sample_db = Inr (ws, db')" by blast
  have "contents_ok sample_text_env sample_db" by (simp add: contents_ok_def sample_db_def)
  from stored_memories_readable [OF sample_reads_back this s, of length 0 "[1]" "[3]" None None] s show ?thesis by blast
qed

theorem context_selection_sound_witness:
  "\<exists>sel. build_context sample_text_env length 0 [1] [3] None None sample_db = Inr sel \<and> length (ms_items sel) \<le> 16"
proof -
  have "contents_ok sample_text_env sample_db" by (simp add: contents_ok_def sample_db_def)
  from build_context_is_ok [OF sample_reads_back this, of length 0 "[1]" "[3]" None None] obtain sel where
    "build_context sample_text_env length 0 [1] [3] None None sample_db = Inr sel" unfolding is_ok_iff by blast
  from context_selection_sound [OF this] this show ?thesis by blast
qed

end
