(* ===== verification/Spec2Isabelle.thy ===== *)
theory Spec2Isabelle
  imports Retrieval_Orchestrator Hybrid_Pipeline Chunk_Config Learning_Nodes Learning_Decisions Approval_Safety Assessment_Graph Memory_Context
begin

text \<open>
  An adaptive learning system answers a learner's questions from documents the learner uploaded,
  calls tools, and keeps a study plan. This development models the decision logic of its Python
  backend; databases, the web framework and the language model stay outside, as ports.

  \<^bold>\<open>Documents to chunks\<close> (src/backend/app/domain/rag/chunking). A parsed document is a list of blocks.
  \<open>Structure_Chunker\<close> groups them into regions under their headings (v3/structure.py),
  \<open>Semantic_Chunker\<close> cuts a region where neighbouring sentences differ most (v3/semantic.py,
  threshold.py, sentence_splitter.py), \<open>Size_Guard\<close> splits and merges until every piece fits the
  token limit (v3/size_guard.py) and \<open>Hybrid_Pipeline\<close> is their composition with the metadata of
  each chunk (v3/pipeline.py). \<open>Chunk_Domain\<close> holds the data, the renderer and the relations
  (domain.py, metadata.py, v3/domain.py, renderer.py, relations.py) and \<open>Chunk_Config\<close> the execution
  snapshots that pin a policy to an index (v3/config.py). Shown: the running text of a document goes
  into its chunks whole and in order under every policy (with the headings off and no code or tables
  the chunks are that text and nothing else), limits hold for every chunk, all loops end, snapshots
  survive a round trip and foreign ones are refused.

  \<^bold>\<open>Question to context\<close> (src/backend/app/domain/rag/retrieval). \<open>Retrieval_Orchestrator\<close> runs the query
  through analysis, rewriting and three retrievers (orchestrator.py, analysis.py), \<open>Rank_Fusion\<close>
  merges their rankings by reciprocal ranks (fusion.py), \<open>Reranking\<close> reorders them under a deadline
  with a fallback (reranking.py) and \<open>Context_Selection\<close> chooses the chunks that fit the budget
  (selection.py). Retrievers, rewriter and reranker are arbitrary functions, failures included.
  Shown: the fused scores and order equal their definition by sets, a reranker can only permute, the
  selection keeps its limits on chunks and characters, repeats nothing and is maximal, and a run
  returns whatever the ports do.

  \<^bold>\<open>Tutoring\<close> (src/src/adaptive_tutor). \<open>Tutor_State\<close> and \<open>History\<close> are the workflow state and the
  conversation kept across runs (tutor/models.py, agent_contracts.py, history.py), \<open>Tool_Router\<close>
  executes tools under a policy with a cache per user and run (tutor/tool_router.py), \<open>Evidence\<close> and
  \<open>Grounding\<close> collect evidence and decide whether an answer with its citations may be published
  (tutor/evidence.py, grounding.py, t3_contracts.py) and \<open>Tutor_Graph\<close> is the workflow graph with its
  agent loop (phase2/engine.py, tutor/agent_controller.py, workflow_services.py) as a step relation
  on configurations. Of the state of the router, \<open>rs_handled\<close> is no part of the program: it notes the run
  of every handler the router calls, those that fail included. Shown: published citations are backed by the
  evidence snapshot and the model is asked for at most one repair, the handlers called for a run keep
  its budget for every sequence of calls, runs and users do not see each other's results, histories
  stay bounded, and every run of the graph stops within \<open>2 m + 8\<close> steps for a limit of \<open>m \<le> 8\<close> decisions.

  \<^bold>\<open>Assessment\<close> (src/backend/app/domain/assessment). \<open>Assessment_Generation\<close> renders questions from
  blueprints and validates bundles (generation_policy.py, assessment_generation_service.py),
  \<open>Assessment_Grading\<close> grades answers locally, combines the result with a remote grader and computes
  scores (grading_policy.py, assessment_grading_service.py), \<open>Mastery\<close> moves the stored mastery by
  weighted evidence (mastery_policy.py), \<open>Assessment_Workflow\<close> is the decision of the observer, the
  plan proposal and the finalisation of a submission (observer_policy.py, plan_policy.py,
  assessment_workflow_service.py) and \<open>Assessment_Graph\<close> the workflow graph over ports
  (adaptive_tutor/phase2/assessment_v2.py). Shown: grades stay within the rubric and quote the answer
  whatever a remote grader replies, scores are percentages, mastery never exceeds what the evidence
  supports, the plan changes automatically only on reliable evidence, and the graph refines the
  sequential specification. Three decisions of the code are shown to be unreachable or refused.

  \<^bold>\<open>The learning plan\<close> (src/src/adaptive_tutor, src/backend/app/application). \<open>Replanning\<close> decides on
  the observed signals and generates plan adjustments and their proposals (phase2/replanning.py,
  planner_proposals.py), \<open>Learning_Nodes\<close> is the observer, planner, memory and persistence nodes of the
  tutor graph (tutor/learning_services.py). \<open>Learning_Store\<close> holds the tables (models.py,
  learning_activity_service.py), \<open>Plan_Application\<close> applies, rejects and stores adjustments
  (planning_service.py, plan_repository.py), \<open>Task_Sessions\<close> starts and completes tasks and keeps
  bookmarks (learning_service.py, saved_learning_node_service.py). \<open>Learning_Runs\<close> composes the requests
  into runs and \<open>Learning_Decisions\<close> states what they decide; the requests are those that apply or reject
  an adjustment and start or complete a task. Shown: the observer advances only on a strong quiz score
  and enough sessions and takes the completion for granted only after a graded attempt without base
  signals, one plan per goal is active and the snapshot names it, a decision is final, applied at most
  once and repeatable, a new plan carries all open work and at most the requested reviews, tasks only
  move forward.

  \<^bold>\<open>Memory\<close> (src/backend/app: domain/memory, application/memory_*_service.py,
  infrastructure/persistence/repositories/memory_repository.py). \<open>Memory_Domain\<close> validates commands
  (validation.py: the content model of each type, the clean metadata tree, scope, source, expiry),
  \<open>Memory_Gate\<close> builds candidates and decides them (gate.py, memory_candidate_service.py,
  memory_gate_service.py), \<open>Memory_Store\<close> is the repository as a table of rows with the writer and the
  privacy settings, and \<open>Memory_Context\<close> selects what the tutor is shown within its budget
  (memory_context_service.py). Shown: validation is idempotent, only confident and valid candidates of
  the user are approved, writing keeps the table consistent and is idempotent, and whatever was
  written can be read back into a context that keeps its limits. A query returns at most one page of
  100 rows, as in the code; clock, ids and Unicode functions are the ports of \<open>text_env\<close>.

  \<^bold>\<open>Conversations and approved tools\<close> (src/backend/app/application, infrastructure/persistence).
  \<open>Redaction\<close> removes secrets and hidden instructions from arguments and results, \<open>Mcp_Targets\<close> decides
  which hosts a server may live on (mcp_service.py, services/provider_urls.py), \<open>Mcp_Service\<close> connects
  to the servers of a user, keeps their catalog and calls their tools (mcp_service.py), \<open>Conversations\<close>
  holds the threads and the runs in them (conversation_repository.py, conversation_service.py) and
  \<open>Tool_Approvals\<close> the approvals a run waits for (tool_approval_service.py). \<open>Approval_Runs\<close> composes their
  requests into sequences in which calls may fail, raise or never come back and the program may
  restart; \<open>Approval_Safety\<close> shows its invariants. The session with a server is a port. The records \<open>ax_calls\<close>
  (which approval led to which call) and \<open>ax_lost\<close> (which calls never came back) are no part of the program.
  \<open>separating_requests\<close> says that the digest tells requests apart by run, server and tool. Shown: an approval is
  called at most once and only after its user agreed, a settled approval is final, an approval
  in execution belongs to a run in execution and to no other and, as a defect, a run whose call raised an
  unforeseen exception keeps its thread from starting another until the program restarts.

  \<^bold>\<open>Shared theories.\<close> \<open>Prelude\<close> has errors as sums (\<open>bind_res\<close>, \<open>traverse\<close>), insertion-ordered
  dictionaries, JSON values and the lemma collections; \<open>Py_Text\<close> and \<open>Py_Regex\<close> the text operations of
  Python over code points; \<open>Greedy_Selection\<close> the locale of budgeted selections, which the context
  selector and the evidence selector interpret. Every locale is interpreted on the code's model.

  \<^bold>\<open>Conventions.\<close> A Python exception is the left of a sum; text is a list of code points (\<open>ustr\<close>) or,
  where the code only compares it, a \<open>string\<close>. Floats are real numbers: the rounding of IEEE
  operations is not modelled (the builtin \<open>round\<close> is), and what is shown of scores holds up to it. Unicode tables, \<open>json.loads\<close>, \<open>json.dumps\<close>, SHA-256, the
  token counter, the embedding model and the language model are parameters, without assumptions unless a
  theorem names them. No fuel is used: loops are recursive functions with a measure, and runs of
  the graph are counted in steps.

  \<^bold>\<open>Not modelled.\<close> The other repositories and SQL retrieval, parsing of PDF and PPTX files, HTTP routes and
  streaming, the model clients, the transports of MCP sessions, onboarding and configuration services, the evaluation
  harness, migrations and the web frontend: their behaviour is that of the libraries and servers they drive.
  In \<open>Tutor_Graph\<close> the nodes other than \<open>agent_decide\<close>, \<open>tool_router\<close> and \<open>diagnosis\<close> are ports; what
  observer, planner and persistence compute is in \<open>Learning_Nodes\<close>. Concurrent requests on a goal are serialised by
  its row lock and are sequences of operations here.
\<close>

end
